(* ===== verification/Go_Prelude.thy ===== *)
theory Go_Prelude
  imports Main "HOL-Library.Word" "HOL-Library.AList" "HOL-Library.Char_ord"
    "HOL-Library.List_Lexorder" "HOL-Library.Product_Lexorder" "HOL-Library.Sublist"
    "HOL-Library.Multiset"
begin

section \<open>The part of Go that every component uses\<close>

text \<open>
  A Go string is a sequence of bytes, here a \<^typ>\<open>string\<close> (a \<^typ>\<open>char\<close> is a byte). This
  theory models what the components use of Go's packages \<open>strings\<close> and \<open>strconv\<close>, and
  Go maps as association lists with distinct keys. \<open>ToLower\<close>, \<open>ToUpper\<close>, \<open>TrimSpace\<close> and
  \<open>Fields\<close> are their ASCII branches: a domain name out of a DNS message is ASCII, because
  the DNS library escapes every other byte. \<open>time.Time\<close> and \<open>time.Duration\<close> are integers
  of nanoseconds.

  It also holds what the components share: the walk from a name to its parent domains, with
  an interface (\<open>suffix_walk\<close>) that is interpreted wherever the code walks a name, and the
  sharded map of the cache, the rate limiter and the single flight (\<open>sharded\<close>).
\<close>

subsection \<open>Collections and machine integers\<close>

named_theorems go_string \<open>definitions of the string functions, to evaluate them\<close>

named_theorems model \<open>definitions of operations, to unfold a handler\<close>

type_synonym u8 = "8 word"
type_synonym u16 = "16 word"
type_synonym u32 = "32 word"
type_synonym u64 = "64 word"

type_synonym time = int
type_synonym duration = int

abbreviation second :: duration where
  "second \<equiv> 1000000000"

abbreviation millisecond :: duration where
  "millisecond \<equiv> 1000000"

abbreviation minute :: duration where
  "minute \<equiv> 60 * second"

subsection \<open>Bytes\<close>

definition byte :: "char \<Rightarrow> nat" where
  [go_string]: "byte c = of_char c"

definition is_digit :: "char \<Rightarrow> bool" where
  [go_string]: "is_digit c \<longleftrightarrow> 48 \<le> byte c \<and> byte c \<le> 57"

definition is_upper :: "char \<Rightarrow> bool" where
  [go_string]: "is_upper c \<longleftrightarrow> 65 \<le> byte c \<and> byte c \<le> 90"

definition is_lower :: "char \<Rightarrow> bool" where
  [go_string]: "is_lower c \<longleftrightarrow> 97 \<le> byte c \<and> byte c \<le> 122"

definition is_space :: "char \<Rightarrow> bool" where
  [go_string]: "is_space c \<longleftrightarrow> byte c = 32 \<or> 9 \<le> byte c \<and> byte c \<le> 13"

definition lower_char :: "char \<Rightarrow> char" where
  [go_string]: "lower_char c = (if is_upper c then char_of (byte c + 32) else c)"

definition upper_char :: "char \<Rightarrow> char" where
  [go_string]: "upper_char c = (if is_lower c then char_of (byte c - 32) else c)"

lemma byte_less [simp]: "byte c < 256"
  by (simp add: byte_def)

lemma byte_inject [simp]: "byte c = byte d \<longleftrightarrow> c = d"
  by (simp add: byte_def)

lemma byte_char_of [simp]: "n < 256 \<Longrightarrow> byte (char_of n) = n"
  by (simp add: byte_def)

lemma lower_char_not_upper [simp]: "\<not> is_upper (lower_char c)"
  by (auto simp: lower_char_def is_upper_def)

lemma lower_char_idem [simp]: "lower_char (lower_char c) = lower_char c"
  using lower_char_not_upper [of c] by (simp add: lower_char_def [of "lower_char c"])

lemma byte_lower_char: "byte (lower_char c) = (if is_upper c then byte c + 32 else byte c)"
  by (simp add: lower_char_def is_upper_def)

text \<open>Lowercasing neither makes nor removes a byte that is not a letter.\<close>

lemma lower_char_eq_other:
  assumes "\<not> is_lower d" and "\<not> is_upper d"
  shows "lower_char c = d \<longleftrightarrow> c = d"
proof
  assume eq: "lower_char c = d"
  have "\<not> is_upper c"
  proof
    assume up: "is_upper c"
    then have "byte d = byte c + 32"
      using byte_lower_char [of c] eq by simp
    with up assms(1) show False
      by (simp add: is_upper_def is_lower_def)
  qed
  with eq show "c = d"
    by (simp add: lower_char_def)
next
  assume "c = d"
  with assms(2) show "lower_char c = d"
    by (simp add: lower_char_def)
qed

lemma lower_char_eq_dot [simp]: "lower_char c = CHR ''.'' \<longleftrightarrow> c = CHR ''.''"
  by (rule lower_char_eq_other) (simp_all add: is_lower_def is_upper_def byte_def)

subsection \<open>Package strings\<close>

definition to_lower :: "string \<Rightarrow> string" where
  [go_string]: "to_lower s = map lower_char s"

definition to_upper :: "string \<Rightarrow> string" where
  [go_string]: "to_upper s = map upper_char s"

definition has_prefix :: "string \<Rightarrow> string \<Rightarrow> bool" where
  [go_string]: "has_prefix s p \<longleftrightarrow> take (length p) s = p"

definition has_suffix :: "string \<Rightarrow> string \<Rightarrow> bool" where
  [go_string]: "has_suffix s p \<longleftrightarrow> length p \<le> length s \<and> drop (length s - length p) s = p"

definition trim_prefix :: "string \<Rightarrow> string \<Rightarrow> string" where
  [go_string]: "trim_prefix s p = (if has_prefix s p then drop (length p) s else s)"

definition trim_suffix :: "string \<Rightarrow> string \<Rightarrow> string" where
  [go_string]: "trim_suffix s p = (if has_suffix s p then take (length s - length p) s else s)"

definition trim_space :: "string \<Rightarrow> string" where
  [go_string]: "trim_space s = rev (dropWhile is_space (rev (dropWhile is_space s)))"

definition trim_char :: "char \<Rightarrow> string \<Rightarrow> string" where
  [go_string]: "trim_char c s = rev (dropWhile (\<lambda>x. x = c) (rev (dropWhile (\<lambda>x. x = c) s)))"

definition equal_fold :: "string \<Rightarrow> string \<Rightarrow> bool" where
  [go_string]: "equal_fold a b \<longleftrightarrow> to_lower a = to_lower b"

text \<open>\<open>IndexByte\<close> and \<open>LastIndexByte\<close>: \<open>None\<close> is the \<open>-1\<close> of Go.\<close>

fun index_byte :: "char \<Rightarrow> string \<Rightarrow> nat option" where
  "index_byte c [] = None"
| "index_byte c (x # xs) = (if x = c then Some 0 else map_option Suc (index_byte c xs))"

definition last_index_byte :: "char \<Rightarrow> string \<Rightarrow> nat option" where
  [go_string]: "last_index_byte c s =
     map_option (\<lambda>i. length s - Suc i) (index_byte c (rev s))"

text \<open>\<open>Index\<close> of a substring, and \<open>Contains\<close>.\<close>

fun index_sub :: "string \<Rightarrow> string \<Rightarrow> nat option" where
  "index_sub p s =
     (if has_prefix s p then Some 0
      else case s of [] \<Rightarrow> None | _ # r \<Rightarrow> map_option Suc (index_sub p r))"

declare index_sub.simps [simp del, go_string]

definition contains_sub :: "string \<Rightarrow> string \<Rightarrow> bool" where
  [go_string]: "contains_sub s p \<longleftrightarrow> index_sub p s \<noteq> None"

text \<open>\<open>FieldsFunc\<close>: the maximal runs of bytes that do not separate.\<close>

fun fields_acc :: "(char \<Rightarrow> bool) \<Rightarrow> string \<Rightarrow> string \<Rightarrow> string list" where
  "fields_acc sep [] acc = (if acc = [] then [] else [rev acc])"
| "fields_acc sep (c # s) acc =
     (if sep c then (if acc = [] then fields_acc sep s [] else rev acc # fields_acc sep s [])
      else fields_acc sep s (c # acc))"

definition fields_func :: "(char \<Rightarrow> bool) \<Rightarrow> string \<Rightarrow> string list" where
  [go_string]: "fields_func sep s = fields_acc sep s []"

definition str_fields :: "string \<Rightarrow> string list" where
  [go_string]: "str_fields s = fields_func is_space s"

text \<open>\<open>Split\<close> on one byte: always at least one part.\<close>

fun split_byte :: "char \<Rightarrow> string \<Rightarrow> string list" where
  "split_byte c [] = [[]]"
| "split_byte c (x # xs) =
     (if x = c then [] # split_byte c xs
      else (case split_byte c xs of [] \<Rightarrow> [[x]] | p # ps \<Rightarrow> (x # p) # ps))"

text \<open>\<open>Join\<close>.\<close>

fun join_with :: "string \<Rightarrow> string list \<Rightarrow> string" where
  "join_with sep [] = []"
| "join_with sep [x] = x"
| "join_with sep (x # y # xs) = x @ sep @ join_with sep (y # xs)"

lemma join_snoc: "ls \<noteq> [] \<Longrightarrow> join_with sep (ls @ [l]) = join_with sep ls @ sep @ l"
  by (induction sep ls rule: join_with.induct) auto

subsection \<open>Package strconv\<close>

fun digit_char :: "nat \<Rightarrow> char" where
  "digit_char n = char_of (48 + n)"

fun format_nat :: "nat \<Rightarrow> string" where
  "format_nat n = (if n < 10 then [digit_char n] else format_nat (n div 10) @ [digit_char (n mod 10)])"

declare format_nat.simps [simp del]

definition format_int :: "int \<Rightarrow> string" where
  [model]: "format_int i = (if i < 0 then CHR ''-'' # format_nat (nat (- i)) else format_nat (nat i))"

fun digits_value :: "nat \<Rightarrow> string \<Rightarrow> nat" where
  "digits_value acc [] = acc"
| "digits_value acc (c # s) = digits_value (10 * acc + (byte c - 48)) s"

text \<open>\<open>Atoi\<close>: an optional sign and decimal digits, in the range of a 64-bit \<open>int\<close>.\<close>

definition atoi_digits :: "string \<Rightarrow> nat option" where
  [go_string]: "atoi_digits s =
     (if s \<noteq> [] \<and> list_all is_digit s then Some (digits_value 0 s) else None)"

definition atoi :: "string \<Rightarrow> int option" where
  [go_string]: "atoi s =
     (case s of
        [] \<Rightarrow> None
      | c # r \<Rightarrow>
          if c = CHR ''-''
          then (case atoi_digits r of
                  None \<Rightarrow> None
                | Some n \<Rightarrow> if int n \<le> 9223372036854775808 then Some (- int n) else None)
          else (case atoi_digits (if c = CHR ''+'' then r else s) of
                  None \<Rightarrow> None
                | Some n \<Rightarrow> if int n < 9223372036854775808 then Some (int n) else None))"

subsection \<open>Laws of the string functions\<close>

lemma length_to_lower [simp]: "length (to_lower s) = length s"
  by (simp add: to_lower_def)

lemma to_lower_idem [simp]: "to_lower (to_lower s) = to_lower s"
  by (simp add: to_lower_def)

lemma to_lower_Nil [simp]: "to_lower [] = []"
  by (simp add: to_lower_def)

lemma to_lower_append [simp]: "to_lower (a @ b) = to_lower a @ to_lower b"
  by (simp add: to_lower_def)

lemma to_lower_eq_Nil [simp]: "to_lower s = [] \<longleftrightarrow> s = []"
  by (simp add: to_lower_def)

lemma has_suffix_append: "has_suffix s p \<longleftrightarrow> (\<exists>x. s = x @ p)"
proof
  assume "has_suffix s p"
  then have "s = take (length s - length p) s @ p"
    unfolding has_suffix_def by (metis append_take_drop_id)
  then show "\<exists>x. s = x @ p" ..
qed (auto simp: has_suffix_def)

lemma has_prefix_append: "has_prefix s p \<longleftrightarrow> (\<exists>x. s = p @ x)"
  unfolding has_prefix_def by (metis append_eq_conv_conj append_take_drop_id)

lemma trim_suffix_snoc [simp]: "trim_suffix (s @ [c]) [c] = s"
  by (simp add: trim_suffix_def has_suffix_def)

lemma trim_suffix_other: "\<not> has_suffix s p \<Longrightarrow> trim_suffix s p = s"
  by (simp add: trim_suffix_def)

lemma trim_space_plain: "list_all (\<lambda>c. \<not> is_space c) s \<Longrightarrow> trim_space s = s"
proof -
  assume "list_all (\<lambda>c. \<not> is_space c) s"
  then have "dropWhile is_space s = s" "dropWhile is_space (rev s) = rev s"
    by (auto simp: dropWhile_eq_self_iff list_all_iff hd_rev)
  then show ?thesis by (simp add: trim_space_def)
qed

lemma dropWhile_idem [simp]: "dropWhile P (dropWhile P s) = dropWhile P s"
  by (induction s) auto

lemma trim_space_head:
  assumes "trim_space s = c # r"
  shows "\<not> is_space c"
proof -
  let ?t = "dropWhile is_space s"
  have "\<exists>x. ?t = rev (dropWhile is_space (rev ?t)) @ x"
    by (metis rev_append rev_rev_ident takeWhile_dropWhile_id)
  then obtain x where "?t = (c # r) @ x"
    using assms by (auto simp: trim_space_def)
  then show ?thesis
    using hd_dropWhile [of is_space s] by auto
qed

lemma trim_space_idem [simp]: "trim_space (trim_space s) = trim_space s"
proof (cases "trim_space s")
  case Nil
  have "trim_space [] = []" by (simp add: trim_space_def)
  with Nil show ?thesis by simp
next
  case (Cons c r)
  then have "dropWhile is_space (trim_space s) = trim_space s"
    using trim_space_head [OF Cons] by simp
  then have "trim_space (trim_space s) = rev (dropWhile is_space (rev (trim_space s)))"
    by (simp add: trim_space_def [of "trim_space s"])
  also have "\<dots> = trim_space s"
    by (simp add: trim_space_def)
  finally show ?thesis .
qed

lemma index_byte_None: "index_byte c s = None \<longleftrightarrow> c \<notin> set s"
  by (induction s) auto

lemma index_byte_Some:
  "index_byte c s = Some i \<longleftrightarrow> i < length s \<and> s ! i = c \<and> c \<notin> set (take i s)"
proof (induction s arbitrary: i)
  case Nil
  then show ?case by simp
next
  case (Cons x xs)
  then show ?case by (cases i) auto
qed

lemma index_byte_append_left:
  "c \<notin> set l \<Longrightarrow> index_byte c (l @ c # r) = Some (length l)"
  by (induction l) auto

lemma split_byte_join:
  "c \<notin> set p \<Longrightarrow> split_byte c (p @ c # s) = p # split_byte c s"
  by (induction p) auto

lemma split_byte_single: "c \<notin> set p \<Longrightarrow> split_byte c p = [p]"
  by (induction p) auto

lemma format_nat_digits: "list_all is_digit (format_nat n)"
proof (induction n rule: format_nat.induct)
  case (1 n)
  then show ?case
    by (cases "n < 10") (simp_all add: format_nat.simps [of n] is_digit_def)
qed

lemma format_nat_nonempty [simp]: "format_nat n \<noteq> []"
  by (subst format_nat.simps) simp

lemma digits_value_append:
  "digits_value acc (s @ t) = digits_value (digits_value acc s) t"
  by (induction s arbitrary: acc) auto

lemma digits_value_format: "digits_value 0 (format_nat n) = n"
proof (induction n rule: format_nat.induct)
  case (1 n)
  then show ?case
    by (cases "n < 10") (simp_all add: format_nat.simps [of n] digits_value_append)
qed

lemma format_nat_inject [simp]: "format_nat m = format_nat n \<longleftrightarrow> m = n"
  by (metis digits_value_format)

lemma format_nat_no_slash: "CHR ''/'' \<notin> set (format_nat n)"
  using format_nat_digits [of n] by (auto simp: list_all_iff is_digit_def byte_def)

lemma format_nat_no_plus: "CHR ''+'' \<notin> set (format_nat n)"
  using format_nat_digits [of n] by (auto simp: list_all_iff is_digit_def byte_def)

lemma atoi_format_nat: "int n < 9223372036854775808 \<Longrightarrow> atoi (format_nat n) = Some (int n)"
proof -
  assume n: "int n < 9223372036854775808"
  have d: "atoi_digits (format_nat n) = Some n"
    by (simp add: atoi_digits_def format_nat_digits digits_value_format)
  obtain c r where f: "format_nat n = c # r"
    using format_nat_nonempty [of n] by (cases "format_nat n") auto
  have "is_digit c"
    using format_nat_digits [of n] f by simp
  then have "c \<noteq> CHR ''-'' \<and> c \<noteq> CHR ''+''"
    by (auto simp: is_digit_def byte_def)
  with f d n show ?thesis by (simp add: atoi_def)
qed

subsection \<open>First hit in a list\<close>

fun first_some :: "('a \<Rightarrow> 'b option) \<Rightarrow> 'a list \<Rightarrow> 'b option" where
  "first_some f [] = None"
| "first_some f (x # xs) = (case f x of Some y \<Rightarrow> Some y | None \<Rightarrow> first_some f xs)"

lemma first_some_None: "first_some f xs = None \<longleftrightarrow> (\<forall>x\<in>set xs. f x = None)"
  by (induction xs) (auto split: option.splits)

lemma first_some_hit: "first_some f xs = Some y \<Longrightarrow> \<exists>x\<in>set xs. f x = Some y"
  by (induction xs) (auto split: option.splits)

lemma first_some_append:
  "first_some f (xs @ ys) = (case first_some f xs of Some y \<Rightarrow> Some y | None \<Rightarrow> first_some f ys)"
  by (induction xs) (auto split: option.splits)

subsection \<open>A name and its parent domains\<close>

text \<open>The parent of a name is what follows its first dot: \<open>name[i+1:]\<close>.\<close>

definition parent_name :: "string \<Rightarrow> string option" where
  "parent_name n = map_option (\<lambda>i. drop (Suc i) n) (index_byte CHR ''.'' n)"

lemma parent_name_shorter: "parent_name n = Some p \<Longrightarrow> length p < length n"
  by (auto simp: parent_name_def index_byte_Some)

lemma parent_name_None: "parent_name n = None \<longleftrightarrow> CHR ''.'' \<notin> set n"
  by (simp add: parent_name_def index_byte_None)

lemma parent_name_Some:
  "parent_name n = Some p \<longleftrightarrow> (\<exists>l. n = l @ CHR ''.'' # p \<and> CHR ''.'' \<notin> set l)"
proof
  assume "parent_name n = Some p"
  then obtain i where i: "index_byte CHR ''.'' n = Some i" and p: "p = drop (Suc i) n"
    by (auto simp: parent_name_def)
  then have "n = take i n @ CHR ''.'' # p" and "CHR ''.'' \<notin> set (take i n)"
    using id_take_nth_drop [of i n] by (auto simp: index_byte_Some)
  then show "\<exists>l. n = l @ CHR ''.'' # p \<and> CHR ''.'' \<notin> set l" by blast
next
  assume "\<exists>l. n = l @ CHR ''.'' # p \<and> CHR ''.'' \<notin> set l"
  then show "parent_name n = Some p"
    by (auto simp: parent_name_def index_byte_append_left)
qed

text \<open>All the names a walk tries, the name itself first.\<close>

function ancestors :: "string \<Rightarrow> string list" where
  "ancestors n = n # (case parent_name n of None \<Rightarrow> [] | Some p \<Rightarrow> ancestors p)"
  by pat_completeness auto
termination
  by (relation "measure length") (auto simp: parent_name_shorter)

declare ancestors.simps [simp del]

text \<open>\<open>in_domain n a\<close>: \<open>n\<close> is the domain \<open>a\<close> or a subdomain of it.\<close>

definition in_domain :: "string \<Rightarrow> string \<Rightarrow> bool" where
  [go_string]: "in_domain n a \<longleftrightarrow> n = a \<or> has_suffix n (CHR ''.'' # a)"

lemma in_domain_refl [simp]: "in_domain n n"
  by (simp add: in_domain_def)

lemma in_domain_append [simp]: "in_domain (l @ CHR ''.'' # a) a"
  by (auto simp: in_domain_def has_suffix_append)

lemma in_domain_iff: "in_domain n a \<longleftrightarrow> n = a \<or> (\<exists>l. n = l @ CHR ''.'' # a)"
  by (auto simp: in_domain_def has_suffix_append)

lemma in_domain_trans: "in_domain n a \<Longrightarrow> in_domain a b \<Longrightarrow> in_domain n b"
  by (auto simp: in_domain_iff)

lemma in_domain_length: "in_domain n a \<Longrightarrow> n \<noteq> a \<Longrightarrow> length a < length n"
  by (auto simp: in_domain_iff)

lemma in_domain_no_dot: "parent_name n = None \<Longrightarrow> in_domain n a \<longleftrightarrow> a = n"
  by (auto simp: in_domain_iff parent_name_None)

lemma in_domain_parent: "parent_name n = Some p \<Longrightarrow> in_domain n a \<longleftrightarrow> a = n \<or> in_domain p a"
  by (auto simp: parent_name_Some in_domain_iff append_eq_append_conv2 Cons_eq_append_conv
      append_eq_Cons_conv)

lemma set_ancestors: "a \<in> set (ancestors n) \<longleftrightarrow> in_domain n a"
proof (induction n rule: ancestors.induct)
  case (1 n)
  show ?case
  proof (cases "parent_name n")
    case None
    then show ?thesis
      by (subst ancestors.simps) (auto simp: in_domain_no_dot)
  next
    case (Some p)
    with 1 [OF Some] show ?thesis
      by (subst ancestors.simps) (auto simp: in_domain_parent [OF Some])
  qed
qed

text \<open>
  The contract of every walk up a name: try the name itself, then go on with its parent.
  Whatever keeps a table of domains (the blocklists, the wildcard rewrites, the category
  corrections and the category database) promises \<open>walk_step\<close>; what a client relies on is
  proved from it once.
\<close>

locale suffix_walk =
  fixes exact :: "string \<Rightarrow> 'v option"
    and walk :: "string \<Rightarrow> 'v option"
  assumes walk_step:
    "walk n = (case exact n of
                 Some v \<Rightarrow> Some v
               | None \<Rightarrow> (case parent_name n of None \<Rightarrow> None | Some p \<Rightarrow> walk p))"
begin

lemma walk_first: "walk n = first_some exact (ancestors n)"
proof (induction n rule: ancestors.induct)
  case (1 n)
  then show ?case
    by (subst walk_step, subst ancestors.simps) (auto split: option.split)
qed

lemma walk_exact: "exact n = Some v \<Longrightarrow> walk n = Some v"
  by (subst walk_step) simp

lemma walk_None: "walk n = None \<longleftrightarrow> (\<forall>a. in_domain n a \<longrightarrow> exact a = None)"
  by (auto simp: walk_first first_some_None set_ancestors)

lemma walk_hit: "walk n = Some v \<Longrightarrow> \<exists>a. in_domain n a \<and> exact a = Some v"
  by (auto simp: walk_first dest: first_some_hit simp flip: set_ancestors)

lemma walk_subdomain: "in_domain n a \<Longrightarrow> exact a = Some v \<Longrightarrow> walk n \<noteq> None"
  by (auto simp: walk_None)

text \<open>A walk answers with the entry of the most specific domain that has one.\<close>

lemma walk_most_specific:
  "walk n = Some v \<longleftrightarrow>
     (\<exists>a. in_domain n a \<and> exact a = Some v \<and> (\<forall>b. in_domain n b \<and> length a < length b \<longrightarrow> exact b = None))"
proof (induction n rule: ancestors.induct)
  case (1 n)
  show ?case
  proof (cases "exact n")
    case (Some w)
    then have "walk n = Some v \<longleftrightarrow> exact n = Some v"
      by (simp add: walk_step [of n])
    also have "\<dots> \<longleftrightarrow> (\<exists>a. in_domain n a \<and> exact a = Some v \<and>
        (\<forall>b. in_domain n b \<and> length a < length b \<longrightarrow> exact b = None))"
      using Some in_domain_length [of n] by (metis not_less_iff_gr_or_eq option.distinct(1) in_domain_refl)
    finally show ?thesis .
  next
    case None
    show ?thesis
    proof (cases "parent_name n")
      case None
      with \<open>exact n = None\<close> show ?thesis
        by (subst walk_step) (auto simp: in_domain_no_dot)
    next
      case (Some p)
      with \<open>exact n = None\<close> have "walk n = walk p" by (subst walk_step) simp
      with 1 [OF Some] \<open>exact n = None\<close> show ?thesis
        by (auto simp: in_domain_parent [OF Some])
    qed
  qed
qed

end

subsection \<open>Sharded maps\<close>

text \<open>
  The cache, the rate limiter and the single flight each hold 16 maps and pick one by the
  32-bit FNV-1a hash of the key (\<open>h ^= b; h *= prime\<close>, masked). \<open>sharded\<close> is what they
  rely on: the hash picks an existing shard, so a sharded map is one map.
\<close>

unbundle bit_operations_syntax

definition fnv32 :: "string \<Rightarrow> u32" where
  "fnv32 s = fold (\<lambda>c h. (h XOR of_nat (byte c)) * 16777619) s 2166136261"

definition shard_index :: "string \<Rightarrow> nat" where
  "shard_index k = unat (fnv32 k AND 15)"

lemma shard_index_less [simp]: "shard_index k < 16"
proof -
  have "unat (fnv32 k AND 15) \<le> unat (15 :: u32)"
    by (rule word_and_le1 [THEN word_le_nat_alt [THEN iffD1]])
  then show ?thesis by (simp add: shard_index_def)
qed

definition at_shard :: "(string \<Rightarrow> nat) \<Rightarrow> 's list \<Rightarrow> string \<Rightarrow> 's" where
  "at_shard pick ss k = ss ! pick k"

definition upd_shard :: "(string \<Rightarrow> nat) \<Rightarrow> string \<Rightarrow> ('s \<Rightarrow> 's) \<Rightarrow> 's list \<Rightarrow> 's list" where
  "upd_shard pick k f ss = ss[pick k := f (ss ! pick k)]"

locale sharded =
  fixes pick :: "string \<Rightarrow> nat" and shards :: nat
  assumes pick_less: "pick k < shards"
begin

lemma at_upd_same:
  "length ss = shards \<Longrightarrow> at_shard pick (upd_shard pick k f ss) k = f (at_shard pick ss k)"
  using pick_less by (simp add: at_shard_def upd_shard_def)

lemma at_upd:
  "length ss = shards \<Longrightarrow> at_shard pick (upd_shard pick k f ss) j =
     (if pick j = pick k then f (at_shard pick ss k) else at_shard pick ss j)"
  using pick_less by (auto simp: at_shard_def upd_shard_def)

text \<open>An update that leaves the other keys of its shard alone leaves every other key alone.\<close>

lemma lookup_upd_other:
  assumes "length ss = shards" and "look (f (at_shard pick ss k)) j = look (at_shard pick ss k) j"
  shows "look (at_shard pick (upd_shard pick k f ss) j) j = look (at_shard pick ss j) j"
  using assms by (auto simp: at_upd) (simp add: at_shard_def)

lemma all_shards_upd:
  assumes len: "length ss = shards" and all: "\<forall>s\<in>set ss. P s" and upd: "\<And>s. P s \<Longrightarrow> P (f s)"
  shows "\<forall>s\<in>set (upd_shard pick k f ss). P s"
proof -
  have "P (f (ss ! pick k))"
    using all pick_less [of k] len by (intro upd) simp
  then show ?thesis
    using all set_update_subset_insert [of ss "pick k" "f (ss ! pick k)"]
    by (auto simp: upd_shard_def)
qed

lemma at_shard_in: "length ss = shards \<Longrightarrow> at_shard pick ss k \<in> set ss"
  using pick_less by (simp add: at_shard_def)

end

lemma length_upd_shard [simp]: "length (upd_shard pick k f ss) = length ss"
  by (simp add: upd_shard_def)

interpretation fnv: sharded shard_index 16
  by unfold_locales simp

subsection \<open>Go maps as association lists\<close>

text \<open>
  A Go map is an association list with distinct keys; \<open>len\<close> is its length, an iteration
  visits the entries in some order, which the model takes as an argument.
\<close>

abbreviation is_map :: "('k \<times> 'v) list \<Rightarrow> bool" where
  "is_map m \<equiv> distinct (map fst m)"

lemma is_map_update: "is_map m \<Longrightarrow> is_map (AList.update k v m)"
  by (rule distinct_update)

lemma is_map_delete: "is_map m \<Longrightarrow> is_map (AList.delete k m)"
  by (rule distinct_delete)

lemma length_update:
  "length (AList.update k v m) = (if k \<in> fst ` set m then length m else Suc (length m))"
  by (induction m) auto

lemma length_delete_le: "length (AList.delete k m) \<le> length m"
  by (simp add: AList.delete_eq)

lemma set_delete_subset: "set (AList.delete k m) \<subseteq> set m"
  by (auto simp: AList.delete_eq)

lemma set_alist_update: "set (AList.update k v m) \<subseteq> insert (k, v) (set m)"
  by (induction m) auto

lemma length_delete_less: "k \<in> fst ` set m \<Longrightarrow> length (AList.delete k m) < length m"
proof (induction m)
  case (Cons a m)
  then show ?case
    using length_delete_le [of k m] by (cases "fst a = k") auto
qed simp

lemma delete_absent: "k \<notin> fst ` set m \<Longrightarrow> AList.delete k m = m"
  by (induction m) auto

lemma length_delete_map:
  "is_map m \<Longrightarrow> k \<in> fst ` set m \<Longrightarrow> length (AList.delete k m) = length m - 1"
proof (induction m)
  case (Cons a m)
  then show ?case
    by (cases "fst a = k") (auto simp: delete_absent neq_Nil_conv dest: length_pos_if_in_set)
qed simp

text \<open>\<open>visits f\<close>: \<open>f\<close> is an order in which Go may iterate over a map.\<close>

definition visits :: "(('k \<times> 'v) list \<Rightarrow> ('k \<times> 'v) list) \<Rightarrow> bool" where
  "visits visit \<longleftrightarrow> (\<forall>s. mset (visit s) = mset s)"

lemma visits_set: "visits visit \<Longrightarrow> set (visit s) = set s"
  unfolding visits_def by (metis set_mset_mset)

lemma visits_id [simp]: "visits (\<lambda>s. s)"
  by (simp add: visits_def)

end
