(* ===== verification/Ip_Addr.thy ===== *)
theory Ip_Addr
  imports Go_Prelude
begin

section \<open>Package net: addresses\<close>

text \<open>
  What the components use of Go's package \<open>net\<close>: \<open>ParseIP\<close>, \<open>IP.To4\<close>, \<open>IP.String\<close>,
  \<open>SplitHostPort\<close> and \<open>JoinHostPort\<close>. An address is its list of bytes: \<open>ParseIP\<close> gives 16
  bytes, an IPv4 address mapped under \<open>::ffff:0:0/96\<close>. Later sections hold the
  small address helpers of the program that are built from these alone.
\<close>

type_synonym ip = "nat list"

definition v4_prefix :: "nat list" where
  [go_string]: "v4_prefix = [0,0,0,0,0,0,0,0,0,0,255,255]"

definition to4 :: "ip \<Rightarrow> ip option" where
  [go_string]: "to4 a =
     (if length a = 4 then Some a
      else if length a = 16 \<and> take 12 a = v4_prefix then Some (drop 12 a) else None)"

definition ipv4_zero :: ip where
  [go_string]: "ipv4_zero = v4_prefix @ [0,0,0,0]"

definition ipv6_zero :: ip where
  [go_string]: "ipv6_zero = replicate 16 0"

subsection \<open>ParseIP\<close>

definition octet :: "string \<Rightarrow> nat option" where
  [go_string]: "octet s =
     (if s \<noteq> [] \<and> list_all is_digit s \<and> (hd s = CHR ''0'' \<longrightarrow> length s = 1) \<and> digits_value 0 s \<le> 255
      then Some (digits_value 0 s) else None)"

definition parse_ipv4 :: "string \<Rightarrow> ip option" where
  [go_string]: "parse_ipv4 s =
     (case map octet (split_byte CHR ''.'' s) of
        [Some a, Some b, Some c, Some d] \<Rightarrow> Some [a, b, c, d]
      | _ \<Rightarrow> None)"

definition hex_value :: "char \<Rightarrow> nat option" where
  [go_string]: "hex_value c =
     (if is_digit c then Some (byte c - 48)
      else if 97 \<le> byte c \<and> byte c \<le> 102 then Some (byte c - 87)
      else if 65 \<le> byte c \<and> byte c \<le> 70 then Some (byte c - 55)
      else None)"

definition is_hex :: "char \<Rightarrow> bool" where
  [go_string]: "is_hex c \<longleftrightarrow> hex_value c \<noteq> None"

definition hex_number :: "string \<Rightarrow> nat" where
  [go_string]: "hex_number s = foldl (\<lambda>n c. 16 * n + the (hex_value c)) 0 s"

lemma dropWhile_shorter: "x \<in> set s \<Longrightarrow> 0 < k \<Longrightarrow> length (dropWhile P s) - k < length s"
  using length_dropWhile_le [of P s] by (cases s) auto

text \<open>
  The group loop of \<open>netip.parseIPv6\<close>: \<open>acc\<close> holds the bytes so far and \<open>ell\<close> where \<open>::\<close>
  stood. The result is what is left of the text, the bytes and the ellipsis.
\<close>

function v6_groups :: "string \<Rightarrow> nat list \<Rightarrow> nat option \<Rightarrow> (string \<times> nat list \<times> nat option) option" where
  "v6_groups s acc ell =
     (if length acc \<ge> 16 then Some (s, acc, ell)
      else
        let h = takeWhile is_hex s; r = dropWhile is_hex s;
            acc' = acc @ [hex_number h div 256, hex_number h mod 256] in
        if h = [] \<or> length h > 4 then None
        else if r \<noteq> [] \<and> hd r = CHR ''.'' then
          (if ell = None \<and> length acc \<noteq> 12 \<or> length acc + 4 > 16 then None
           else case parse_ipv4 s of None \<Rightarrow> None | Some v4 \<Rightarrow> Some ([], acc @ v4, ell))
        else if r = [] then Some ([], acc', ell)
        else if hd r \<noteq> CHR '':'' \<or> tl r = [] then None
        else if hd (tl r) = CHR '':'' then
          (if ell \<noteq> None then None
           else if tl (tl r) = [] then Some ([], acc', Some (length acc'))
           else v6_groups (tl (tl r)) acc' (Some (length acc')))
        else v6_groups (tl r) acc' ell)"
  by pat_completeness auto
termination
  by (relation "measure (\<lambda>(s, acc, ell). length s)") (auto intro: dropWhile_shorter)

declare v6_groups.simps [simp del]

definition parse_ipv6 :: "string \<Rightarrow> ip option" where
  [go_string]: "parse_ipv6 s =
     (let lead = has_prefix s ''::''; s' = (if lead then drop 2 s else s) in
      if lead \<and> s' = [] then Some ipv6_zero
      else case v6_groups s' [] (if lead then Some 0 else None) of
        None \<Rightarrow> None
      | Some (rest, acc, ell) \<Rightarrow>
          if rest \<noteq> [] then None
          else if length acc < 16 then
            (case ell of
               None \<Rightarrow> None
             | Some e \<Rightarrow> Some (take e acc @ replicate (16 - length acc) 0 @ drop e acc))
          else if ell \<noteq> None then None else Some acc)"

text \<open>The first of \<open>.\<close> and \<open>:\<close> decides the family; a zone (\<open>%\<close>) is refused by \<open>ParseIP\<close>.\<close>

definition parse_ip :: "string \<Rightarrow> ip option" where
  [go_string]: "parse_ip s =
     (if CHR ''%'' \<in> set s then None
      else case filter (\<lambda>c. c = CHR ''.'' \<or> c = CHR '':'') s of
        [] \<Rightarrow> None
      | c # _ \<Rightarrow> if c = CHR ''.'' then map_option (\<lambda>a. v4_prefix @ a) (parse_ipv4 s) else parse_ipv6 s)"

subsection \<open>IP.String\<close>

definition v4_string :: "ip \<Rightarrow> string" where
  [go_string]: "v4_string a = (case a of
     [a, b, c, d] \<Rightarrow> format_nat a @ ''.'' @ format_nat b @ ''.'' @ format_nat c @ ''.'' @ format_nat d
   | _ \<Rightarrow> [])"

definition hex_digit :: "nat \<Rightarrow> char" where
  [go_string]: "hex_digit n = char_of (if n < 10 then 48 + n else 87 + n)"

fun hex_string :: "nat \<Rightarrow> string" where
  "hex_string n = (if n < 16 then [hex_digit n] else hex_string (n div 16) @ [hex_digit (n mod 16)])"

declare hex_string.simps [simp del]

fun words16 :: "nat list \<Rightarrow> nat list" where
  "words16 (a # b # r) = (256 * a + b) # words16 r"
| "words16 _ = []"

text \<open>The first longest run of at least two zero groups, as start and length.\<close>

definition zero_run :: "nat list \<Rightarrow> nat \<times> nat" where
  [go_string]: "zero_run ws =
     foldl (\<lambda>(st, l) i. let n = length (takeWhile (\<lambda>w. w = 0) (drop i ws)) in
              if n \<ge> 2 \<and> n > l then (i, n) else (st, l)) (0, 0) [0..<length ws]"

fun join_colon :: "nat list \<Rightarrow> string" where
  "join_colon [] = []"
| "join_colon [w] = hex_string w"
| "join_colon (w # v # ws) = hex_string w @ '':'' @ join_colon (v # ws)"

definition ip_string :: "ip \<Rightarrow> string" where
  [go_string]: "ip_string a = (case to4 a of
     Some v4 \<Rightarrow> v4_string v4
   | None \<Rightarrow>
       let ws = words16 a in
       case zero_run ws of (st, n) \<Rightarrow>
         if n = 0 then join_colon ws
         else join_colon (take st ws) @ ''::'' @ join_colon (drop (st + n) ws))"

subsection \<open>SplitHostPort and JoinHostPort\<close>

definition split_host_port :: "string \<Rightarrow> (string \<times> string) option" where
  [go_string]: "split_host_port hp =
     (case last_index_byte CHR '':'' hp of
        None \<Rightarrow> None
      | Some i \<Rightarrow>
          if hd hp = CHR ''['' then
            (case index_byte CHR '']'' hp of
               None \<Rightarrow> None
             | Some e \<Rightarrow>
                 if e + 1 = length hp \<or> e + 1 \<noteq> i then None
                 else if CHR ''['' \<in> set (drop 1 hp) \<or> CHR '']'' \<in> set (drop (e + 1) hp) then None
                 else Some (drop 1 (take e hp), drop (i + 1) hp))
          else if CHR '':'' \<in> set (take i hp) then None
          else if CHR ''['' \<in> set hp \<or> CHR '']'' \<in> set hp then None
          else Some (take i hp, drop (i + 1) hp))"

definition join_host_port :: "string \<Rightarrow> string \<Rightarrow> string" where
  [go_string]: "join_host_port h p =
     (if CHR '':'' \<in> set h then ''['' @ h @ '']:'' @ p else h @ '':'' @ p)"

subsection \<open>Laws\<close>

lemma format_nat_no_dot [simp]: "CHR ''.'' \<notin> set (format_nat n)"
  using format_nat_digits [of n] by (auto simp: list_all_iff is_digit_def byte_def)

lemma format_nat_no_colon [simp]: "CHR '':'' \<notin> set (format_nat n)"
  using format_nat_digits [of n] by (auto simp: list_all_iff is_digit_def byte_def)

lemma format_nat_no_percent [simp]: "CHR ''%'' \<notin> set (format_nat n)"
  using format_nat_digits [of n] by (auto simp: list_all_iff is_digit_def byte_def)

lemma digit_char_zero: "n < 10 \<Longrightarrow> digit_char n = CHR ''0'' \<longleftrightarrow> n = 0"
  using byte_inject [of "digit_char n" "CHR ''0''"] by (simp add: byte_def)

lemma format_nat_hd_zero: "hd (format_nat n) = CHR ''0'' \<longleftrightarrow> n = 0"
proof (induction n rule: format_nat.induct)
  case (1 n)
  show ?case
  proof (cases "n < 10")
    case True
    then show ?thesis
      using digit_char_zero [of n] by (simp add: format_nat.simps [of n] del: digit_char.simps)
  next
    case False
    then have "n div 10 \<noteq> 0" by auto
    with 1 False show ?thesis
      by (simp add: format_nat.simps [of n] del: digit_char.simps)
  qed
qed

lemma octet_format: "n \<le> 255 \<Longrightarrow> octet (format_nat n) = Some n"
  using format_nat_hd_zero [of n]
  by (auto simp: octet_def format_nat_digits digits_value_format format_nat.simps [of 0])

lemma parse_ipv4_string:
  assumes "a \<le> 255" and "b \<le> 255" and "c \<le> 255" and "d \<le> 255"
  shows "parse_ipv4 (v4_string [a, b, c, d]) = Some [a, b, c, d]"
  using assms
  by (simp add: parse_ipv4_def v4_string_def split_byte_join split_byte_single octet_format)

lemma v4_string_dot: "filter (\<lambda>c. c = CHR ''.'' \<or> c = CHR '':'') (v4_string [a, b, c, d]) = ''...''"
proof -
  have f: "filter (\<lambda>c. c = CHR ''.'' \<or> c = CHR '':'') (format_nat n) = []" for n
    by (auto simp: filter_empty_conv)
  show ?thesis by (simp add: v4_string_def f)
qed

text \<open>An IPv4 address printed and parsed again is the same address, in its mapped form.\<close>

lemma parse_ip_v4_string:
  assumes "a \<le> 255" and "b \<le> 255" and "c \<le> 255" and "d \<le> 255"
  shows "parse_ip (v4_string [a, b, c, d]) = Some (v4_prefix @ [a, b, c, d])"
  using assms parse_ipv4_string [OF assms]
  by (simp add: parse_ip_def v4_string_dot) (simp add: v4_string_def)

lemma to4_mapped [simp]: "length a = 4 \<Longrightarrow> to4 (v4_prefix @ a) = Some a"
  by (simp add: to4_def v4_prefix_def)

lemma join_host_port_splits:
  assumes "CHR '':'' \<notin> set p" and "CHR ''['' \<notin> set (h @ p)" and "CHR '']'' \<notin> set (h @ p)"
  shows "split_host_port (join_host_port h p) = Some (h, p)"
proof -
  have li: "last_index_byte CHR '':'' (x @ CHR '':'' # p) = Some (length x)" for x
    using assms(1) by (simp add: last_index_byte_def index_byte_append_left)
  show ?thesis
  proof (cases "CHR '':'' \<in> set h")
    case True
    have "index_byte CHR '']'' (''['' @ h @ '']:'' @ p) = Some (Suc (length h))"
      using assms(3) index_byte_append_left [of "CHR '']''" "CHR ''['' # h" "CHR '':'' # p"] by simp
    with True assms li [of "''['' @ h @ '']''"] show ?thesis
      by (simp add: join_host_port_def split_host_port_def)
  next
    case False
    have "h \<noteq> [] \<Longrightarrow> hd h \<noteq> CHR ''[''"
      using assms(2) by (cases h) auto
    with False assms li [of h] show ?thesis
      by (cases "h = []") (auto simp: join_host_port_def split_host_port_def)
  qed
qed

end
