(* ===== verification/Dns_Msg.thy ===== *)
theory Dns_Msg
  imports Ip_Addr
begin

section \<open>DNS messages and the DNS library\<close>

text \<open>
  The messages the program passes around are values of the library \<open>github.com/miekg/dns\<close>, which
  is not part of the repository. Here are its data as far as the program reads or builds them
  (RFC 1035 records, \<open>Copy\<close> is the identity on values), the protocol numbers it uses by
  name, and, as one argument of every definition that calls it, the library itself: the
  record \<open>dns_lib\<close> of its functions. \<open>dns_lib_ok\<close> is what their documentation promises
  and the program relies on; it is a hypothesis wherever it is needed, and \<open>sample_lib\<close> shows
  that it can hold.
\<close>

subsection \<open>Data\<close>

record question =
  q_name :: string
  q_type :: u16
  q_class :: u16

datatype rdata =
    AddrA ip
  | AddrAAAA ip
  | CnameTo string
  | TxtStrings "string list"
  | MxPref u16 string
  | PtrTo string
  | NsHost string
  | SoaData (soa_ns: string) (soa_mbox: string) (soa_serial: u32) (soa_refresh: u32)
      (soa_retry: u32) (soa_expire: u32) (soa_minttl: u32)
  | OtherData string

record rr =
  rr_name :: string
  rr_type :: u16
  rr_class :: u16
  rr_ttl :: u32
  rr_data :: rdata

text \<open>\<open>m_bits\<close> stands for the header bits the program never looks at.\<close>

record msg =
  m_id :: u16
  m_bits :: nat
  m_authoritative :: bool
  m_truncated :: bool
  m_rec_available :: bool
  m_rcode :: nat
  m_question :: "question list"
  m_answer :: "rr list"
  m_ns :: "rr list"
  m_extra :: "rr list"

subsection \<open>Protocol numbers\<close>

abbreviation (input) type_A :: u16 where "type_A \<equiv> 1"
abbreviation (input) type_NS :: u16 where "type_NS \<equiv> 2"
abbreviation (input) type_CNAME :: u16 where "type_CNAME \<equiv> 5"
abbreviation (input) type_SOA :: u16 where "type_SOA \<equiv> 6"
abbreviation (input) type_PTR :: u16 where "type_PTR \<equiv> 12"
abbreviation (input) type_MX :: u16 where "type_MX \<equiv> 15"
abbreviation (input) type_TXT :: u16 where "type_TXT \<equiv> 16"
abbreviation (input) type_AAAA :: u16 where "type_AAAA \<equiv> 28"
abbreviation (input) type_OPT :: u16 where "type_OPT \<equiv> 41"
abbreviation (input) type_DS :: u16 where "type_DS \<equiv> 43"
abbreviation (input) type_RRSIG :: u16 where "type_RRSIG \<equiv> 46"
abbreviation (input) type_NSEC :: u16 where "type_NSEC \<equiv> 47"
abbreviation (input) type_DNSKEY :: u16 where "type_DNSKEY \<equiv> 48"
abbreviation (input) type_NSEC3 :: u16 where "type_NSEC3 \<equiv> 50"
abbreviation (input) type_NSEC3PARAM :: u16 where "type_NSEC3PARAM \<equiv> 51"
abbreviation (input) type_CDS :: u16 where "type_CDS \<equiv> 59"
abbreviation (input) type_CDNSKEY :: u16 where "type_CDNSKEY \<equiv> 60"
abbreviation (input) type_SVCB :: u16 where "type_SVCB \<equiv> 64"
abbreviation (input) type_HTTPS :: u16 where "type_HTTPS \<equiv> 65"

abbreviation (input) class_INET :: u16 where "class_INET \<equiv> 1"

abbreviation (input) rcode_success :: nat where "rcode_success \<equiv> 0"
abbreviation (input) rcode_format_error :: nat where "rcode_format_error \<equiv> 1"
abbreviation (input) rcode_server_failure :: nat where "rcode_server_failure \<equiv> 2"
abbreviation (input) rcode_name_error :: nat where "rcode_name_error \<equiv> 3"
abbreviation (input) rcode_refused :: nat where "rcode_refused \<equiv> 5"

subsection \<open>The library's functions\<close>

text \<open>
  \<open>SetReply\<close> and \<open>SetRcode\<close> are always called on a new message, so they map the request to the
  reply. \<open>IsEdns0\<close> returns a pointer into \<open>Extra\<close>: \<open>lib_opt\<close> gives the position, and a setter
  of the record writes back there.
\<close>

record dns_lib =
  lib_fqdn :: "string \<Rightarrow> string"
  lib_set_reply :: "msg \<Rightarrow> msg"
  lib_set_rcode :: "msg \<Rightarrow> nat \<Rightarrow> msg"
  lib_opt :: "msg \<Rightarrow> nat option"
  lib_do :: "rr \<Rightarrow> bool"
  lib_set_do :: "bool \<Rightarrow> rr \<Rightarrow> rr"
  lib_udp_size :: "rr \<Rightarrow> nat"
  lib_set_udp_size :: "nat \<Rightarrow> rr \<Rightarrow> rr"
  lib_set_edns0 :: "nat \<Rightarrow> bool \<Rightarrow> msg \<Rightarrow> msg"
  lib_truncate :: "nat \<Rightarrow> msg \<Rightarrow> msg"
  lib_reverse_addr :: "string \<Rightarrow> string option"

definition opt_record :: "dns_lib \<Rightarrow> msg \<Rightarrow> rr option" where
  "opt_record L m = map_option (\<lambda>i. m_extra m ! i) (lib_opt L m)"

definition upd_opt :: "dns_lib \<Rightarrow> (rr \<Rightarrow> rr) \<Rightarrow> msg \<Rightarrow> msg" where
  "upd_opt L f m = (case lib_opt L m of
     None \<Rightarrow> m
   | Some i \<Rightarrow> m\<lparr>m_extra := (m_extra m)[i := f (m_extra m ! i)]\<rparr>)"

text \<open>
  What the documentation says: a reply repeats the request's ID and starts with no records
  and the code asked for; \<open>IsEdns0\<close> finds an OPT record of \<open>Extra\<close> whenever there is one;
  the setters change only their own value of an OPT record; \<open>SetEdns0\<close> appends one OPT record
  with the size and DO bit it is given; \<open>Truncate\<close> only removes records (and sets TC).
\<close>

definition empty_reply :: "msg \<Rightarrow> nat \<Rightarrow> msg \<Rightarrow> bool" where
  "empty_reply req rc m \<longleftrightarrow>
     m_id m = m_id req \<and> m_rcode m = rc \<and> m_answer m = [] \<and> m_ns m = [] \<and> m_extra m = []
     \<and> \<not> m_truncated m"

definition opt_ok :: "dns_lib \<Rightarrow> msg \<Rightarrow> bool" where
  "opt_ok L m \<longleftrightarrow>
     (case lib_opt L m of
        None \<Rightarrow> (\<forall>r\<in>set (m_extra m). rr_type r \<noteq> type_OPT)
      | Some i \<Rightarrow> i < length (m_extra m) \<and> rr_type (m_extra m ! i) = type_OPT)"

definition setters_ok :: "dns_lib \<Rightarrow> bool" where
  "setters_ok L \<longleftrightarrow>
     (\<forall>r b. rr_type (lib_set_do L b r) = rr_type r \<and> lib_do L (lib_set_do L b r) = b
            \<and> lib_udp_size L (lib_set_do L b r) = lib_udp_size L r) \<and>
     (\<forall>r n. rr_type (lib_set_udp_size L n r) = rr_type r \<and> lib_udp_size L (lib_set_udp_size L n r) = n
            \<and> lib_do L (lib_set_udp_size L n r) = lib_do L r)"

definition edns0_ok :: "dns_lib \<Rightarrow> bool" where
  "edns0_ok L \<longleftrightarrow> (\<forall>n b m. \<exists>o'. lib_set_edns0 L n b m = m\<lparr>m_extra := m_extra m @ [o']\<rparr>
     \<and> rr_type o' = type_OPT \<and> lib_do L o' = b \<and> lib_udp_size L o' = n)"

definition truncate_ok :: "dns_lib \<Rightarrow> bool" where
  "truncate_ok L \<longleftrightarrow> (\<forall>n m. m_id (lib_truncate L n m) = m_id m \<and> m_rcode (lib_truncate L n m) = m_rcode m \<and>
     set (m_answer (lib_truncate L n m)) \<subseteq> set (m_answer m) \<and> set (m_ns (lib_truncate L n m)) \<subseteq> set (m_ns m) \<and>
     set (m_extra (lib_truncate L n m)) \<subseteq> set (m_extra m))"

definition dns_lib_ok :: "dns_lib \<Rightarrow> bool" where
  "dns_lib_ok L \<longleftrightarrow> truncate_ok L \<and>
     (\<forall>req. empty_reply req rcode_success (lib_set_reply L req)) \<and>
     (\<forall>req rc. empty_reply req rc (lib_set_rcode L req rc)) \<and>
     (\<forall>m. opt_ok L m) \<and> setters_ok L \<and> edns0_ok L"

lemma lib_reply_ok: "dns_lib_ok L \<Longrightarrow> empty_reply req rcode_success (lib_set_reply L req)"
  by (simp add: dns_lib_ok_def)

lemma lib_rcode_ok: "dns_lib_ok L \<Longrightarrow> empty_reply req rc (lib_set_rcode L req rc)"
  by (simp add: dns_lib_ok_def)

lemma lib_opt_ok: "dns_lib_ok L \<Longrightarrow> opt_ok L m"
  by (simp add: dns_lib_ok_def)

lemma lib_opt_Some:
  "dns_lib_ok L \<Longrightarrow> lib_opt L m = Some i \<Longrightarrow>
     i < length (m_extra m) \<and> rr_type (m_extra m ! i) = type_OPT"
  using lib_opt_ok [of L m] by (simp add: opt_ok_def)

lemma lib_opt_None:
  "dns_lib_ok L \<Longrightarrow> lib_opt L m = None \<longleftrightarrow> (\<forall>r\<in>set (m_extra m). rr_type r \<noteq> type_OPT)"
  using lib_opt_ok [of L m] by (auto simp: opt_ok_def split: option.splits)

lemma opt_record_Some:
  "dns_lib_ok L \<Longrightarrow> opt_record L m = Some r \<Longrightarrow> r \<in> set (m_extra m) \<and> rr_type r = type_OPT"
  by (auto simp: opt_record_def dest!: lib_opt_Some)

lemma lib_setters:
  assumes "dns_lib_ok L"
  shows "rr_type (lib_set_do L b r) = rr_type r" and "lib_do L (lib_set_do L b r) = b"
    and "lib_udp_size L (lib_set_do L b r) = lib_udp_size L r"
    and "rr_type (lib_set_udp_size L n r) = rr_type r"
    and "lib_udp_size L (lib_set_udp_size L n r) = n"
    and "lib_do L (lib_set_udp_size L n r) = lib_do L r"
  using assms by (simp_all add: dns_lib_ok_def setters_ok_def)

lemma lib_truncated:
  assumes "dns_lib_ok L"
  shows "m_id (lib_truncate L n m) = m_id m" and "m_rcode (lib_truncate L n m) = m_rcode m"
    and "set (m_answer (lib_truncate L n m)) \<subseteq> set (m_answer m)"
    and "set (m_ns (lib_truncate L n m)) \<subseteq> set (m_ns m)"
    and "set (m_extra (lib_truncate L n m)) \<subseteq> set (m_extra m)"
  using assms by (simp_all add: dns_lib_ok_def truncate_ok_def)

lemma lib_edns0:
  assumes "dns_lib_ok L"
  obtains o' where "lib_set_edns0 L n b m = m\<lparr>m_extra := m_extra m @ [o']\<rparr>"
    and "rr_type o' = type_OPT" and "lib_do L o' = b" and "lib_udp_size L o' = n"
proof -
  have "edns0_ok L" using assms by (simp add: dns_lib_ok_def)
  then have "\<exists>o'. lib_set_edns0 L n b m = m\<lparr>m_extra := m_extra m @ [o']\<rparr>
     \<and> rr_type o' = type_OPT \<and> lib_do L o' = b \<and> lib_udp_size L o' = n"
    unfolding edns0_ok_def by blast
  with that show ?thesis by blast
qed

lemma lib_edns0_frame:
  assumes "dns_lib_ok L"
  shows "m_id (lib_set_edns0 L n b m) = m_id m" and "m_rcode (lib_set_edns0 L n b m) = m_rcode m"
    and "m_answer (lib_set_edns0 L n b m) = m_answer m" and "m_ns (lib_set_edns0 L n b m) = m_ns m"
    and "m_question (lib_set_edns0 L n b m) = m_question m"
    and "m_rec_available (lib_set_edns0 L n b m) = m_rec_available m"
  by (rule lib_edns0 [OF assms, of n b m], simp)+

lemmas empty_reply_simps = empty_reply_def

lemma upd_opt_frame [simp]:
  "m_answer (upd_opt L f m) = m_answer m" "m_ns (upd_opt L f m) = m_ns m"
  "m_rcode (upd_opt L f m) = m_rcode m" "m_id (upd_opt L f m) = m_id m"
  "length (m_extra (upd_opt L f m)) = length (m_extra m)"
  by (auto simp: upd_opt_def split: option.splits)

subsection \<open>A library that keeps the promises\<close>

text \<open>
  An OPT record keeps its flags in the TTL field and the size in the class field, as on the wire
  (here the DO bit is the whole TTL).
\<close>

definition blank_msg :: msg where
  "blank_msg = \<lparr>m_id = 0, m_bits = 0, m_authoritative = False, m_truncated = False,
     m_rec_available = False, m_rcode = 0, m_question = [], m_answer = [], m_ns = [], m_extra = []\<rparr>"

definition opt_rr :: "nat \<Rightarrow> bool \<Rightarrow> rr" where
  "opt_rr n b = \<lparr>rr_name = ''.'', rr_type = type_OPT, rr_class = 0,
     rr_ttl = (if b then 1 else 0), rr_data = MxPref 0 (replicate n (CHR ''x''))\<rparr>"

definition opt_size :: "rr \<Rightarrow> nat" where
  "opt_size r = (case rr_data r of MxPref _ s \<Rightarrow> length s | _ \<Rightarrow> 0)"

definition sample_lib :: dns_lib where
  "sample_lib = \<lparr>
     lib_fqdn = (\<lambda>s. if has_suffix s ''.'' then s else s @ ''.''),
     lib_set_reply = (\<lambda>req. blank_msg\<lparr>m_id := m_id req, m_question := m_question req\<rparr>),
     lib_set_rcode = (\<lambda>req rc. blank_msg\<lparr>m_id := m_id req, m_rcode := rc, m_question := m_question req\<rparr>),
     lib_opt = (\<lambda>m. let i = length (takeWhile (\<lambda>r. rr_type r \<noteq> type_OPT) (m_extra m)) in
                      if i < length (m_extra m) then Some i else None),
     lib_do = (\<lambda>r. rr_ttl r \<noteq> 0),
     lib_set_do = (\<lambda>b r. r\<lparr>rr_ttl := (if b then 1 else 0)\<rparr>),
     lib_udp_size = opt_size,
     lib_set_udp_size = (\<lambda>n r. r\<lparr>rr_data := MxPref 0 (replicate n (CHR ''x''))\<rparr>),
     lib_set_edns0 = (\<lambda>n b m. m\<lparr>m_extra := m_extra m @ [opt_rr n b]\<rparr>),
     lib_truncate = (\<lambda>n m. m),
     lib_reverse_addr = (\<lambda>s. Some (s @ ''.in-addr.arpa.''))\<rparr>"

lemma sample_opt_ok: "opt_ok sample_lib m"
proof -
  let ?P = "\<lambda>r. rr_type r \<noteq> type_OPT"
  let ?i = "length (takeWhile ?P (m_extra m))"
  show ?thesis
  proof (cases "?i < length (m_extra m)")
    case True
    then have "\<not> ?P (m_extra m ! ?i)" by (rule nth_length_takeWhile)
    with True show ?thesis by (simp add: opt_ok_def sample_lib_def)
  next
    case False
    then have "takeWhile ?P (m_extra m) = m_extra m"
      using length_takeWhile_le [of ?P "m_extra m"] by (metis le_neq_implies_less takeWhile_eq_take take_all_iff linorder_not_less)
    then have "\<forall>r\<in>set (m_extra m). ?P r" by (simp add: takeWhile_eq_all_conv)
    with False show ?thesis by (simp add: opt_ok_def sample_lib_def)
  qed
qed

lemma sample_edns0_ok: "edns0_ok sample_lib"
  unfolding edns0_ok_def
proof (intro allI exI conjI)
  fix n b m
  show "lib_set_edns0 sample_lib n b m = m\<lparr>m_extra := m_extra m @ [opt_rr n b]\<rparr>"
    by (simp add: sample_lib_def)
qed (simp_all add: sample_lib_def opt_rr_def opt_size_def)

lemma sample_lib_ok: "dns_lib_ok sample_lib"
  unfolding dns_lib_ok_def
  by (auto simp: sample_opt_ok sample_edns0_ok)
    (simp_all add: truncate_ok_def sample_lib_def empty_reply_def blank_msg_def setters_ok_def opt_size_def)

end
