(* ===== verification/Block_Filter.thy ===== *)
theory Block_Filter
  imports Ip_Addr
begin

section \<open>The blocklist matcher (internal/filter/filter.go)\<close>

text \<open>
  An engine maps normalized domains to categories; a name is blocked when it or one of its
  parent domains is listed. The mutex and the sealed flag only decide how the map is read
  (an engine is built by one goroutine, sealed and then never changed), so operations are
  functions on the map.
\<close>

record engine =
  blocked :: "(string \<times> string) list"
  sealed :: bool

definition new_engine :: engine where
  "new_engine = \<lparr>blocked = [], sealed = False\<rparr>"

definition normalize :: "string \<Rightarrow> string" where
  [go_string]: "normalize domain = to_lower (trim_suffix (trim_space domain) ''.'')"

definition add_domain :: "string \<Rightarrow> string \<Rightarrow> engine \<Rightarrow> engine" where
  [model]: "add_domain domain category e =
     (let d = normalize domain in
      if d = [] then e
      else e\<lparr>blocked := AList.update d (if category = [] then ''custom'' else category) (blocked e)\<rparr>)"

subsection \<open>Loading a hosts file or a domain list\<close>

text \<open>
  The domain a line of the file names, if it names one: text after \<open>#\<close> is a comment, one field
  is a domain, more are \<open><ip> <domain>\<close>.
\<close>

definition line_domain :: "string \<Rightarrow> string option" where
  [model]: "line_domain line =
     (let text = (case index_byte CHR ''#'' line of Some i \<Rightarrow> take i line | None \<Rightarrow> line) in
      case str_fields text of
        [] \<Rightarrow> None
      | f # rest \<Rightarrow>
          if rest \<noteq> [] \<and> parse_ip f = None then None
          else let d = normalize (case rest of [] \<Rightarrow> f | g # _ \<Rightarrow> g) in
               if d = [] \<or> d = ''localhost'' then None else Some d)"

definition load_line :: "string \<Rightarrow> string \<Rightarrow> (string \<times> string) list \<times> nat \<Rightarrow> (string \<times> string) list \<times> nat" where
  [model]: "load_line category line st = (case st of (m, n) \<Rightarrow>
     (case line_domain line of
        None \<Rightarrow> (m, n)
      | Some d \<Rightarrow> if map_of m d = None then (AList.update d category m, Suc n) else (m, n)))"

text \<open>
  A file either cannot be opened or yields the lines its scanner reads, and the error the
  scanner ends with, if any (a line over 64 KB, a read error).
\<close>

datatype hosts_file = OpenError string | Lines "string list" "string option"

fun load_hosts_file :: "hosts_file \<Rightarrow> string \<Rightarrow> engine \<Rightarrow> (nat \<times> string option) \<times> engine" where
  "load_hosts_file (OpenError err) category e = ((0, Some err), e)"
| "load_hosts_file (Lines ls err) category e =
     (let cat = (if category = [] then ''custom'' else category);
          (m, n) = fold (load_line cat) ls (blocked e, 0)
      in ((n, err), e\<lparr>blocked := m\<rparr>))"

definition seal :: "engine \<Rightarrow> engine" where
  "seal e = e\<lparr>sealed := True\<rparr>"

subsection \<open>Matching\<close>

function match_map :: "(string \<times> string) list \<Rightarrow> string \<Rightarrow> string option" where
  "match_map m name =
     (if m = [] then None
      else case map_of m name of
        Some cat \<Rightarrow> Some cat
      | None \<Rightarrow> (case index_byte CHR ''.'' name of
                   None \<Rightarrow> None
                 | Some i \<Rightarrow> match_map m (drop (i + 1) name)))"
  by pat_completeness auto
termination
  by (relation "measure (\<lambda>(m, name). length name)") (auto simp: index_byte_Some)

declare match_map.simps [simp del]

definition engine_lookup :: "engine \<Rightarrow> string \<Rightarrow> string option" where
  [model]: "engine_lookup e name = (if name = [] then None else match_map (blocked e) name)"

definition match_normalized :: "engine \<Rightarrow> string \<Rightarrow> string option" where
  [model]: "match_normalized e name = engine_lookup e name"

definition match :: "engine \<Rightarrow> string \<Rightarrow> string option" where
  [model]: "match e name = engine_lookup e (normalize name)"

definition is_blocked :: "engine \<Rightarrow> string \<Rightarrow> bool" where
  [model]: "is_blocked e name \<longleftrightarrow> match e name \<noteq> None"

definition is_blocked_normalized :: "engine \<Rightarrow> string \<Rightarrow> bool" where
  [model]: "is_blocked_normalized e name \<longleftrightarrow> match_normalized e name \<noteq> None"

definition engine_len :: "engine \<Rightarrow> nat" where
  "engine_len e = length (blocked e)"

subsection \<open>The matcher walks up the name\<close>

lemma match_map_empty [simp]: "match_map [] n = None"
  by (simp add: match_map.simps)

interpretation blocklist: suffix_walk "map_of m" "match_map m" for m
proof
  fix n
  show "match_map m n = (case map_of m n of Some v \<Rightarrow> Some v
      | None \<Rightarrow> (case parent_name n of None \<Rightarrow> None | Some p \<Rightarrow> match_map m p))"
    by (subst match_map.simps, cases "index_byte CHR ''.'' n")
      (auto simp: parent_name_def split: option.split)
qed

lemma engine_lookup_walk: "name \<noteq> [] \<Longrightarrow> engine_lookup e name = match_map (blocked e) name"
  by (simp add: engine_lookup_def)

text \<open>Loading only adds: an entry that is there keeps its category, the first line wins.\<close>

lemma load_line_keeps:
  "map_of (fst st) d = Some c \<Longrightarrow> map_of (fst (load_line cat line st)) d = Some c"
  by (auto simp: load_line_def update_conv' split: prod.split option.split)

lemma load_lines_keep:
  "map_of (fst st) d = Some c \<Longrightarrow> map_of (fst (fold (load_line cat) ls st)) d = Some c"
  by (induction ls arbitrary: st) (auto simp: load_line_keeps)

lemma load_line_counts:
  "length (fst (load_line cat line st)) + snd st = length (fst st) + snd (load_line cat line st)"
  by (auto simp: load_line_def length_update map_of_eq_None_iff split: prod.split option.split)

lemma load_lines_count:
  "length (fst (fold (load_line cat) ls st)) + snd st = length (fst st) + snd (fold (load_line cat) ls st)"
proof (induction ls arbitrary: st)
  case (Cons l ls)
  show ?case
    using Cons.IH [of "load_line cat l st"] load_line_counts [of cat l st] by simp
qed simp

lemma load_line_adds:
  "line_domain line = Some d \<Longrightarrow> map_of (fst (load_line cat line st)) d \<noteq> None"
  by (auto simp: load_line_def update_conv' split: prod.split)

lemma load_lines_add:
  assumes "l \<in> set ls" and "line_domain l = Some d"
  shows "map_of (fst (fold (load_line cat) ls st)) d \<noteq> None"
  using assms
proof (induction ls arbitrary: st)
  case (Cons x xs)
  show ?case
  proof (cases "l = x")
    case True
    then have "map_of (fst (load_line cat x st)) d \<noteq> None"
      using Cons.prems(2) load_line_adds by blast
    then show ?thesis by (auto dest: load_lines_keep)
  next
    case False
    with Cons show ?thesis by simp
  qed
qed simp

lemma load_line_is_map: "is_map (fst st) \<Longrightarrow> is_map (fst (load_line cat line st))"
  by (auto simp: load_line_def is_map_update split: prod.split option.split)

lemma load_lines_is_map: "is_map (fst st) \<Longrightarrow> is_map (fst (fold (load_line cat) ls st))"
  by (induction ls arbitrary: st) (auto simp: load_line_is_map)

lemma load_hosts_file_result:
  "load_hosts_file (Lines ls err) category e = ((n, er), e') \<longleftrightarrow>
     (let r = fold (load_line (if category = [] then ''custom'' else category)) ls (blocked e, 0)
      in n = snd r \<and> er = err \<and> e' = e\<lparr>blocked := fst r\<rparr>)"
  by (auto simp: Let_def split: prod.split)

lemma load_line_lookup:
  "map_of (fst (load_line cat l st)) d =
     (case map_of (fst st) d of Some c \<Rightarrow> Some c
      | None \<Rightarrow> if line_domain l = Some d then Some cat else None)"
  by (auto simp: load_line_def update_conv' split: prod.split option.split)

lemma load_lines_lookup:
  "map_of (fst (fold (load_line cat) ls st)) d =
     (case map_of (fst st) d of Some c \<Rightarrow> Some c
      | None \<Rightarrow> if \<exists>l\<in>set ls. line_domain l = Some d then Some cat else None)"
proof (induction ls arbitrary: st)
  case (Cons l ls)
  show ?case
    by (simp add: Cons.IH load_line_lookup split: option.split)
qed (simp split: option.split)

subsection \<open>Properties\<close>

definition demo_engine :: engine where
  "demo_engine = add_domain ''Ads.Example.'' ''ads'' new_engine"

text \<open>C32: a name is answered with the category of the most specific listed domain that is the name
  itself or a parent domain of it, and with none when no such domain is listed.\<close>

theorem match_most_specific:
  assumes "normalize name \<noteq> []"
  shows "match e name = Some c \<longleftrightarrow>
    (\<exists>a. in_domain (normalize name) a \<and> map_of (blocked e) a = Some c \<and>
      (\<forall>b. in_domain (normalize name) b \<and> length a < length b \<longrightarrow> map_of (blocked e) b = None))"
  using assms by (simp add: match_def engine_lookup_walk blocklist.walk_most_specific)

theorem match_most_specific_witness:
  "\<exists>a. in_domain (normalize ''A.ads.example'') a \<and> map_of (blocked demo_engine) a = Some ''ads''"
proof -
  have n: "normalize ''A.ads.example'' \<noteq> []" and m: "match demo_engine ''A.ads.example'' = Some ''ads''" by code_simp+
  show ?thesis using match_most_specific [OF n, THEN iffD1, OF m] by blast
qed

text \<open>Adding a domain blocks that domain and every subdomain of it and leaves the verdict on
  every other name as it was.\<close>

theorem add_blocks_subtree:
  assumes "normalize d \<noteq> []"
  shows "is_blocked (add_domain d c e) n \<longleftrightarrow>
    is_blocked e n \<or> normalize n \<noteq> [] \<and> in_domain (normalize n) (normalize d)"
proof (cases "normalize n = []")
  case True
  then show ?thesis by (simp add: is_blocked_def match_def engine_lookup_def)
next
  case False
  then have b: "is_blocked e' n \<longleftrightarrow> (\<exists>a. in_domain (normalize n) a \<and> map_of (blocked e') a \<noteq> None)" for e'
    using blocklist.walk_None [of "blocked e'" "normalize n"]
    by (auto simp: is_blocked_def match_def engine_lookup_walk)
  have u: "map_of (blocked (add_domain d c e)) a \<noteq> None \<longleftrightarrow> a = normalize d \<or> map_of (blocked e) a \<noteq> None" for a
    using assms by (simp add: add_domain_def Let_def update_conv')
  show ?thesis unfolding b u using False by auto
qed

theorem add_blocks_subtree_witness:
  "is_blocked (add_domain ''Ads.Example.'' ''ads'' new_engine) ''A.ads.example''"
proof -
  have n: "normalize ''Ads.Example.'' \<noteq> []" by code_simp
  have "normalize ''A.ads.example'' \<noteq> [] \<and> in_domain (normalize ''A.ads.example'') (normalize ''Ads.Example.'')"
    by code_simp
  then show ?thesis using add_blocks_subtree [OF n] by blast
qed

text \<open>Loading a file keeps every entry that is there, adds each domain its lines name under the
  file's category and nothing else, and returns by how much the list grew.\<close>

theorem load_hosts_file_adds:
  assumes "load_hosts_file (Lines ls err) category e = ((n, er), e')"
  shows "er = err \<and> length (blocked e') = length (blocked e) + n \<and>
    map_of (blocked e') d = (case map_of (blocked e) d of Some c \<Rightarrow> Some c
      | None \<Rightarrow> if \<exists>l\<in>set ls. line_domain l = Some d
               then Some (if category = [] then ''custom'' else category) else None)"
proof -
  let ?cat = "if category = [] then ''custom'' else category"
  have r: "n = snd (fold (load_line ?cat) ls (blocked e, 0)) \<and> er = err \<and>
      e' = e\<lparr>blocked := fst (fold (load_line ?cat) ls (blocked e, 0))\<rparr>"
    using assms unfolding load_hosts_file_result Let_def .
  then show ?thesis
    using load_lines_count [of ?cat ls "(blocked e, 0)"] load_lines_lookup [of ?cat ls "(blocked e, 0)" d]
    by (simp del: fun_upd_apply)
qed

theorem load_hosts_file_adds_witness:
  "map_of (blocked (snd (load_hosts_file (Lines [''# list'', ''0.0.0.0 Bad.example # x''] None) [] demo_engine)))
     ''bad.example'' = Some ''custom''"
proof -
  obtain n er e' where r:
    "load_hosts_file (Lines [''# list'', ''0.0.0.0 Bad.example # x''] None) [] demo_engine = ((n, er), e')"
    by (metis surj_pair)
  have "line_domain ''0.0.0.0 Bad.example # x'' = Some ''bad.example''" by code_simp
  moreover have "map_of (blocked demo_engine) ''bad.example'' = None" by code_simp
  ultimately show ?thesis using load_hosts_file_adds [OF r, of "''bad.example''"] r by simp
qed

end
