(* ===== verification/Zones.thy ===== *)
theory Zones
  imports Dns_Msg Block_Filter
begin

section \<open>Authoritative zones (internal/resolver/zones.go)\<close>

text \<open>
  A zone holds its SOA and NS records and a map from owner names to the records configured for
  them. The set keeps its zones longest apex first, so that the first one a name lies in is the
  most specific. \<open>sort.Slice\<close> fixes the order of zones only up to their apex length: the
  sort is an argument (\<open>sorts_apexes\<close> is what it guarantees), and so is the clock the SOA
  serial is read from.
\<close>

record zone_record_spec =
  zr_name :: string
  zr_type :: string
  zr_text :: string
  zr_ttl :: u32

record zone_spec =
  zs_name :: string
  zs_records :: "zone_record_spec list"

record zone =
  z_apex :: string
  z_soa :: rr
  z_ns :: "rr list"
  z_records :: "(string \<times> rr list) list"

type_synonym zones = "zone list"

definition record_owner :: "string \<Rightarrow> string \<Rightarrow> string" where
  [model]: "record_owner name apex =
     (let n = normalize name in
      if n = [] \<or> n = ''@'' then apex
      else if n = apex \<or> has_suffix n (''.'' @ apex) then n
      else n @ ''.'' @ apex)"

definition build_rr :: "dns_lib \<Rightarrow> string \<Rightarrow> zone_record_spec \<Rightarrow> rr option" where
  [model]: "build_rr L owner rs =
     (let ttl = (if zr_ttl rs = 0 then 300 else zr_ttl rs);
          hdr = (\<lambda>ty d. \<lparr>rr_name = lib_fqdn L owner, rr_type = ty, rr_class = class_INET, rr_ttl = ttl, rr_data = d\<rparr>);
          ty = to_upper (zr_type rs) in
      if ty = ''A'' then
        (case Option.bind (parse_ip (zr_text rs)) to4 of
           None \<Rightarrow> None | Some a \<Rightarrow> Some (hdr type_A (AddrA a)))
      else if ty = ''AAAA'' then
        (case parse_ip (zr_text rs) of
           None \<Rightarrow> None | Some a \<Rightarrow> if to4 a \<noteq> None then None else Some (hdr type_AAAA (AddrAAAA a)))
      else if ty = ''CNAME'' then Some (hdr type_CNAME (CnameTo (lib_fqdn L (zr_text rs))))
      else if ty = ''TXT'' then Some (hdr type_TXT (TxtStrings [zr_text rs]))
      else if ty = ''MX'' then
        (case str_fields (zr_text rs) of
           [p, h] \<Rightarrow> (case atoi p of
                        None \<Rightarrow> None
                      | Some n \<Rightarrow> Some (hdr type_MX (MxPref (word_of_int n) (lib_fqdn L h))))
         | _ \<Rightarrow> None)
      else None)"

definition append_record :: "string \<Rightarrow> rr \<Rightarrow> (string \<times> rr list) list \<Rightarrow> (string \<times> rr list) list" where
  [model]: "append_record owner r m =
     AList.update owner ((case map_of m owner of None \<Rightarrow> [] | Some rs \<Rightarrow> rs) @ [r]) m"

definition add_record_spec ::
  "dns_lib \<Rightarrow> string \<Rightarrow> zone_record_spec \<Rightarrow> (string \<times> rr list) list \<Rightarrow> (string \<times> rr list) list" where
  [model]: "add_record_spec L apex rs m =
     (let owner = record_owner (zr_name rs) apex in
      case build_rr L owner rs of None \<Rightarrow> m | Some r \<Rightarrow> append_record owner r m)"

definition zone_soa :: "dns_lib \<Rightarrow> u32 \<Rightarrow> string \<Rightarrow> rr" where
  [model]: "zone_soa L serial apex =
     \<lparr>rr_name = lib_fqdn L apex, rr_type = type_SOA, rr_class = class_INET, rr_ttl = 3600,
      rr_data = SoaData (''ns.'' @ lib_fqdn L apex) (''hostmaster.'' @ lib_fqdn L apex) serial 7200 3600 1209600 300\<rparr>"

definition build_zone :: "dns_lib \<Rightarrow> u32 \<Rightarrow> zone_spec \<Rightarrow> zone option" where
  [model]: "build_zone L serial s =
     (let apex = normalize (zs_name s) in
      if apex = [] then None
      else Some \<lparr>z_apex = apex, z_soa = zone_soa L serial apex,
        z_ns = [\<lparr>rr_name = lib_fqdn L apex, rr_type = type_NS, rr_class = class_INET, rr_ttl = 3600,
                 rr_data = NsHost (''ns.'' @ lib_fqdn L apex)\<rparr>],
        z_records = fold (add_record_spec L apex) (zs_records s) []\<rparr>)"

definition new_zones :: "dns_lib \<Rightarrow> u32 \<Rightarrow> (zone list \<Rightarrow> zone list) \<Rightarrow> zone_spec list \<Rightarrow> zones" where
  [model]: "new_zones L serial sort_zones specs = sort_zones (List.map_filter (build_zone L serial) specs)"

fun match_zone :: "zones \<Rightarrow> string \<Rightarrow> zone option" where
  "match_zone [] name = None"
| "match_zone (z # zs) name =
     (if name = z_apex z \<or> has_suffix name (''.'' @ z_apex z) then Some z else match_zone zs name)"

definition zone_answer :: "dns_lib \<Rightarrow> zone \<Rightarrow> msg \<Rightarrow> question \<Rightarrow> string \<Rightarrow> msg" where
  [model]: "zone_answer L z req q name =
     (let m = (lib_set_reply L req)\<lparr>m_authoritative := True\<rparr> in
      if name = z_apex z \<and> q_type q = type_SOA then m\<lparr>m_answer := m_answer m @ [z_soa z]\<rparr>
      else if name = z_apex z \<and> q_type q = type_NS then m\<lparr>m_answer := m_answer m @ z_ns z\<rparr>
      else
        let recs = (case map_of (z_records z) name of None \<Rightarrow> [] | Some rs \<Rightarrow> rs) in
        if recs = [] then m\<lparr>m_rcode := rcode_name_error, m_ns := m_ns m @ [z_soa z]\<rparr>
        else
          let hits = filter (\<lambda>r. rr_type r = q_type q) recs;
              cnames = filter (\<lambda>r. rr_type r = type_CNAME) recs in
          if hits \<noteq> [] then m\<lparr>m_answer := m_answer m @ hits\<rparr>
          else if cnames \<noteq> [] then m\<lparr>m_answer := m_answer m @ cnames\<rparr>
          else m\<lparr>m_ns := m_ns m @ [z_soa z]\<rparr>)"

subsection \<open>The sorted set\<close>

definition sorts_apexes :: "(zone list \<Rightarrow> zone list) \<Rightarrow> bool" where
  "sorts_apexes f \<longleftrightarrow>
     (\<forall>zs. mset (f zs) = mset zs \<and> sorted_wrt (\<lambda>y z. length (z_apex y) \<ge> length (z_apex z)) (f zs))"

lemma sort_key_apexes: "sorts_apexes (\<lambda>zs. rev (sort_key (\<lambda>z. length (z_apex z)) zs))"
proof -
  have s: "sorted_wrt (\<lambda>y z. length (z_apex y) \<le> length (z_apex z)) (sort_key (\<lambda>z. length (z_apex z)) zs)" for zs
    using sorted_sort_key [of "\<lambda>z. length (z_apex z)" zs] by (simp add: sorted_wrt_map)
  show ?thesis by (simp add: sorts_apexes_def sorted_wrt_rev s)
qed

lemma match_zone_None: "match_zone zs name = None \<longleftrightarrow> (\<forall>z\<in>set zs. \<not> in_domain name (z_apex z))"
  by (induction zs) (auto simp: in_domain_def)

lemma match_zone_longest:
  assumes "match_zone zs name = Some z"
    and "sorted_wrt (\<lambda>y z. length (z_apex y) \<ge> length (z_apex z)) zs"
  shows "z \<in> set zs \<and> in_domain name (z_apex z) \<and>
    (\<forall>y\<in>set zs. in_domain name (z_apex y) \<longrightarrow> length (z_apex y) \<le> length (z_apex z))"
  using assms by (induction zs) (auto simp: in_domain_def split: if_splits)

lemma new_zones_set:
  assumes "sorts_apexes f"
  shows "z \<in> set (new_zones L serial f specs) \<longleftrightarrow> (\<exists>s\<in>set specs. build_zone L serial s = Some z)"
proof -
  have "set (f zs) = set zs" for zs
    using assms unfolding sorts_apexes_def by (metis set_mset_mset)
  then show ?thesis by (force simp: new_zones_def map_filter_def)
qed

subsection \<open>The records of a zone\<close>

definition rr_typed :: "rr \<Rightarrow> bool" where
  "rr_typed r \<longleftrightarrow> (case rr_data r of
     AddrA a \<Rightarrow> rr_type r = type_A \<and> length a = 4
   | AddrAAAA a \<Rightarrow> rr_type r = type_AAAA \<and> to4 a = None
   | CnameTo t \<Rightarrow> rr_type r = type_CNAME
   | TxtStrings ts \<Rightarrow> rr_type r = type_TXT
   | MxPref n h \<Rightarrow> rr_type r = type_MX
   | _ \<Rightarrow> False)"

definition record_ok :: "dns_lib \<Rightarrow> string \<Rightarrow> rr \<Rightarrow> bool" where
  "record_ok L owner r \<longleftrightarrow> rr_name r = lib_fqdn L owner \<and> rr_class r = class_INET \<and> rr_ttl r \<noteq> 0 \<and> rr_typed r"

definition records_ok :: "dns_lib \<Rightarrow> string \<Rightarrow> (string \<times> rr list) list \<Rightarrow> bool" where
  "records_ok L apex m \<longleftrightarrow> (\<forall>owner rs. map_of m owner = Some rs \<longrightarrow>
     rs \<noteq> [] \<and> in_domain owner apex \<and> (\<forall>r\<in>set rs. record_ok L owner r))"

lemma record_owner_in_apex: "in_domain (record_owner name apex) apex"
  by (simp add: record_owner_def Let_def in_domain_def has_suffix_append)

lemma to4_length: "to4 a = Some b \<Longrightarrow> length b = 4"
  by (auto simp: to4_def split: if_splits)

lemma build_rr_ok: "build_rr L owner rs = Some r \<Longrightarrow> record_ok L owner r"
  by (auto simp: build_rr_def Let_def record_ok_def rr_typed_def to4_length
      split: if_splits option.splits list.splits Option.bind_splits)

lemma append_record_ok:
  assumes "records_ok L apex m" and "record_ok L owner r" and "in_domain owner apex"
  shows "records_ok L apex (append_record owner r m)"
proof -
  let ?old = "case map_of m owner of None \<Rightarrow> [] | Some rs \<Rightarrow> rs"
  have "\<forall>x\<in>set (?old @ [r]). record_ok L owner x"
  proof (cases "map_of m owner")
    case None
    with assms(2) show ?thesis by simp
  next
    case (Some rs)
    with assms(1) have "\<forall>x\<in>set rs. record_ok L owner x" unfolding records_ok_def by blast
    with Some assms(2) show ?thesis by simp
  qed
  with assms(1,3) show ?thesis
    unfolding records_ok_def append_record_def update_conv' fun_upd_apply by (metis append_is_Nil_conv not_Cons_self2 option.inject)
qed

lemma add_record_ok: "records_ok L apex m \<Longrightarrow> records_ok L apex (add_record_spec L apex rs m)"
  by (auto simp: add_record_spec_def Let_def record_owner_in_apex
      intro: append_record_ok build_rr_ok split: option.split)

lemma add_records_ok: "records_ok L apex m \<Longrightarrow> records_ok L apex (fold (add_record_spec L apex) rs m)"
  by (induction rs arbitrary: m) (simp_all add: add_record_ok)

lemma zone_records_ok:
  assumes "build_zone L serial s = Some z"
  shows "records_ok L (z_apex z) (z_records z)"
proof -
  have z: "z_records z = fold (add_record_spec L (z_apex z)) (zs_records s) []"
    using assms by (auto simp: build_zone_def Let_def split: if_splits)
  show ?thesis unfolding z by (rule add_records_ok) (simp add: records_ok_def)
qed

subsection \<open>Properties\<close>

definition demo_zone_spec :: zone_spec where
  "demo_zone_spec = \<lparr>zs_name = ''Home.'', zs_records =
     [\<lparr>zr_name = ''nas'', zr_type = ''a'', zr_text = ''10.0.0.2'', zr_ttl = 0\<rparr>,
      \<lparr>zr_name = ''nas'', zr_type = ''AAAA'', zr_text = ''10.0.0.2'', zr_ttl = 0\<rparr>]\<rparr>"

definition demo_zones :: zones where
  "demo_zones = new_zones sample_lib 1 (\<lambda>zs. rev (sort_key (\<lambda>z. length (z_apex z)) zs)) [demo_zone_spec]"

text \<open>A name is answered from the configured zone with the longest apex it lies in, and from
  none exactly when no zone with a usable name holds it.\<close>

theorem zone_most_specific:
  assumes "sorts_apexes sorter"
  shows "case match_zone (new_zones L serial sorter specs) name of
      None \<Rightarrow> \<not> (\<exists>s\<in>set specs. normalize (zs_name s) \<noteq> [] \<and> in_domain name (normalize (zs_name s)))
    | Some z \<Rightarrow> in_domain name (z_apex z) \<and>
        (\<exists>s\<in>set specs. build_zone L serial s = Some z \<and> z_apex z = normalize (zs_name s)) \<and>
        \<not> (\<exists>s\<in>set specs. normalize (zs_name s) \<noteq> [] \<and> in_domain name (normalize (zs_name s)) \<and>
            length (z_apex z) < length (normalize (zs_name s)))"
proof -
  let ?zs = "new_zones L serial sorter specs"
  have apex: "z_apex z = normalize (zs_name s)" if "build_zone L serial s = Some z" for s z
    using that by (auto simp: build_zone_def Let_def split: if_splits)
  have built: "\<exists>z\<in>set ?zs. z_apex z = normalize (zs_name s)"
    if s: "s \<in> set specs" "normalize (zs_name s) \<noteq> []" for s
  proof -
    obtain z where "build_zone L serial s = Some z" using s(2) by (simp add: build_zone_def Let_def)
    with s(1) apex show ?thesis using new_zones_set [OF assms] by blast
  qed
  show ?thesis
  proof (cases "match_zone ?zs name")
    case None
    then have "\<forall>z\<in>set ?zs. \<not> in_domain name (z_apex z)" by (simp add: match_zone_None)
    then have "\<not> (\<exists>s\<in>set specs. normalize (zs_name s) \<noteq> [] \<and> in_domain name (normalize (zs_name s)))"
      using built by metis
    then show ?thesis by (simp add: None)
  next
    case (Some z)
    have "sorted_wrt (\<lambda>y z. length (z_apex y) \<ge> length (z_apex z)) ?zs"
      using assms by (simp add: sorts_apexes_def new_zones_def)
    note m = match_zone_longest [OF Some this]
    then obtain s where s: "s \<in> set specs" "build_zone L serial s = Some z"
      using new_zones_set [OF assms] by blast
    have "\<not> length (z_apex z) < length (normalize (zs_name s'))"
      if "s' \<in> set specs" "normalize (zs_name s') \<noteq> []" "in_domain name (normalize (zs_name s'))" for s'
      using built [OF that(1,2)] m that(3) by force
    with m s apex show ?thesis by (auto simp: Some)
  qed
qed

theorem zone_most_specific_witness:
  "case match_zone demo_zones ''nas.home'' of
      None \<Rightarrow> \<not> (\<exists>s\<in>set [demo_zone_spec]. normalize (zs_name s) \<noteq> [] \<and> in_domain ''nas.home'' (normalize (zs_name s)))
    | Some z \<Rightarrow> in_domain ''nas.home'' (z_apex z) \<and>
        (\<exists>s\<in>set [demo_zone_spec]. build_zone sample_lib 1 s = Some z \<and> z_apex z = normalize (zs_name s)) \<and>
        \<not> (\<exists>s\<in>set [demo_zone_spec]. normalize (zs_name s) \<noteq> [] \<and>
            in_domain ''nas.home'' (normalize (zs_name s)) \<and> length (z_apex z) < length (normalize (zs_name s)))"
  unfolding demo_zones_def by (rule zone_most_specific [OF sort_key_apexes])

text \<open>An authoritative reply repeats the query's ID, has the AA bit, carries only records of the
  asked type or CNAMEs that belong to the name asked for, is NXDOMAIN exactly when the name
  has no records (SOA and NS queries at the apex aside), and carries the SOA exactly when
  it is a negative answer.\<close>

theorem zone_answer_sound:
  fixes L :: dns_lib and z :: zone and req :: msg and q :: question and name :: string
  assumes lib: "dns_lib_ok L" and z: "build_zone L serial s = Some z"
  defines "m \<equiv> zone_answer L z req q name"
    and "at_apex \<equiv> name = z_apex z \<and> (q_type q = type_SOA \<or> q_type q = type_NS)"
  shows "m_id m = m_id req \<and> m_authoritative m \<and>
    (m_rcode m = (if at_apex \<or> map_of (z_records z) name \<noteq> None then rcode_success else rcode_name_error)) \<and>
    (\<forall>r\<in>set (m_answer m). rr_name r = lib_fqdn L name \<and> (rr_type r = q_type q \<or> rr_type r = type_CNAME)) \<and>
    m_ns m = (if m_answer m = [] then [z_soa z] else [])"
proof -
  let ?e = "lib_set_reply L req"
  have e: "m_id ?e = m_id req" "m_rcode ?e = 0" "m_answer ?e = []" "m_ns ?e = []"
    using lib_reply_ok [OF lib, of req] by (simp_all add: empty_reply_def)
  have soa: "rr_type (z_soa z) = type_SOA \<and> rr_name (z_soa z) = lib_fqdn L (z_apex z)"
    and ns: "z_ns z \<noteq> [] \<and> (\<forall>r\<in>set (z_ns z). rr_type r = type_NS \<and> rr_name r = lib_fqdn L (z_apex z))"
    using z by (auto simp: build_zone_def Let_def zone_soa_def split: if_splits)
  have recs: "rs \<noteq> [] \<and> (\<forall>r\<in>set rs. rr_name r = lib_fqdn L name)" if "map_of (z_records z) name = Some rs" for rs
    using zone_records_ok [OF z] that by (auto simp: records_ok_def record_ok_def)
  show ?thesis
  proof (cases "at_apex")
    case True
    then show ?thesis using e soa ns by (auto simp: m_def zone_answer_def at_apex_def Let_def)
  next
    case False
    then have na: "\<not> (name = z_apex z \<and> q_type q = type_SOA)" "\<not> (name = z_apex z \<and> q_type q = type_NS)"
      by (auto simp: at_apex_def)
    show ?thesis
    proof (cases "map_of (z_records z) name")
      case None
      with False e show ?thesis by (simp add: m_def zone_answer_def na Let_def)
    next
      case (Some rs)
      with False e recs [OF Some] show ?thesis
        by (auto simp: m_def zone_answer_def na Let_def filter_empty_conv)
    qed
  qed
qed

theorem zone_answer_sound_witness:
  "\<exists>z. build_zone sample_lib 1 demo_zone_spec = Some z \<and>
    m_rcode (zone_answer sample_lib z blank_msg \<lparr>q_name = ''nas.home.'', q_type = 1, q_class = 1\<rparr> ''nas.home'') = 0"
proof -
  have "build_zone sample_lib 1 demo_zone_spec \<noteq> None" by code_simp
  then obtain z where z: "build_zone sample_lib 1 demo_zone_spec = Some z" by blast
  have "map_of (z_records (the (build_zone sample_lib 1 demo_zone_spec))) ''nas.home'' \<noteq> None" by code_simp
  with zone_answer_sound [OF sample_lib_ok z, of blank_msg "\<lparr>q_name = ''nas.home.'', q_type = 1, q_class = 1\<rparr>" "''nas.home''"]
  show ?thesis by (auto simp: z)
qed

text \<open>
  Which configured records can be served, and what a served record says of the configured one. The
  preference of an MX is what its 16 bits keep of the number.
\<close>

definition usable_record :: "zone_record_spec \<Rightarrow> bool" where
  "usable_record s \<longleftrightarrow>
     (let ty = to_upper (zr_type s) in
      ty = ''A'' \<and> (\<exists>ip. parse_ip (zr_text s) = Some ip \<and> to4 ip \<noteq> None)
      \<or> ty = ''AAAA'' \<and> (\<exists>ip. parse_ip (zr_text s) = Some ip \<and> to4 ip = None)
      \<or> ty = ''CNAME'' \<or> ty = ''TXT''
      \<or> ty = ''MX'' \<and> (\<exists>p h. str_fields (zr_text s) = [p, h] \<and> atoi p \<noteq> None))"

definition serves_record :: "dns_lib \<Rightarrow> string \<Rightarrow> zone_record_spec \<Rightarrow> rr \<Rightarrow> bool" where
  "serves_record L owner s r \<longleftrightarrow>
     rr_name r = lib_fqdn L owner \<and> rr_class r = class_INET \<and> rr_ttl r = (if zr_ttl s = 0 then 300 else zr_ttl s)
     \<and> (case rr_data r of
          AddrA a \<Rightarrow> to_upper (zr_type s) = ''A'' \<and> rr_type r = type_A \<and> length a = 4
            \<and> (\<exists>ip. parse_ip (zr_text s) = Some ip \<and> to4 ip = Some a)
        | AddrAAAA a \<Rightarrow> to_upper (zr_type s) = ''AAAA'' \<and> rr_type r = type_AAAA
            \<and> parse_ip (zr_text s) = Some a \<and> to4 a = None
        | CnameTo x \<Rightarrow> to_upper (zr_type s) = ''CNAME'' \<and> rr_type r = type_CNAME \<and> x = lib_fqdn L (zr_text s)
        | TxtStrings xs \<Rightarrow> to_upper (zr_type s) = ''TXT'' \<and> rr_type r = type_TXT \<and> xs = [zr_text s]
        | MxPref n x \<Rightarrow> to_upper (zr_type s) = ''MX'' \<and> rr_type r = type_MX
            \<and> (\<exists>p h k. str_fields (zr_text s) = [p, h] \<and> atoi p = Some k \<and> uint n = k mod 65536 \<and> x = lib_fqdn L h)
        | _ \<Rightarrow> False)"

lemma build_rr_None: "build_rr L owner s = None \<longleftrightarrow> \<not> usable_record s"
proof (cases "str_fields (zr_text s)" rule: list.exhaust [case_product option.exhaust [of "parse_ip (zr_text s)"]])
  case (Nil_None)
  then show ?thesis by (auto simp: build_rr_def usable_record_def Let_def)
next
  case (Nil_Some ip)
  then show ?thesis by (auto simp: build_rr_def usable_record_def Let_def split: option.split)
next
  case (Cons_None p ps)
  then show ?thesis by (auto simp: build_rr_def usable_record_def Let_def split: option.split list.split)
next
  case (Cons_Some p ps ip)
  then show ?thesis by (auto simp: build_rr_def usable_record_def Let_def split: option.split list.split)
qed

lemma build_rr_serves: "build_rr L owner s = Some r \<Longrightarrow> serves_record L owner s r"
  by (auto simp: build_rr_def serves_record_def Let_def to4_length uint_word_of_int
      split: if_splits option.splits list.splits Option.bind_splits)

abbreviation records_at :: "(string \<times> rr list) list \<Rightarrow> string \<Rightarrow> rr list" where
  "records_at m owner \<equiv> (case map_of m owner of None \<Rightarrow> [] | Some rs \<Rightarrow> rs)"

lemma add_records_at:
  "records_at (fold (add_record_spec L apex) specs m) owner = records_at m owner
     @ List.map_filter (\<lambda>s. if record_owner (zr_name s) apex = owner then build_rr L owner s else None) specs"
proof (induction specs arbitrary: m)
  case (Cons s specs)
  have "records_at (add_record_spec L apex s m) owner = records_at m owner
      @ List.map_filter (\<lambda>s. if record_owner (zr_name s) apex = owner then build_rr L owner s else None) [s]"
    by (auto simp: add_record_spec_def append_record_def update_conv' map_filter_def Let_def split: option.split)
  then show ?case by (simp add: Cons map_filter_def)
qed (simp add: map_filter_def)

lemma served_in_order:
  assumes "\<And>s. f s = None \<longleftrightarrow> \<not> P s" "\<And>s r. f s = Some r \<Longrightarrow> R s r"
  shows "list_all2 R (filter P xs) (List.map_filter f xs)"
proof (induction xs)
  case (Cons x xs)
  then show ?case using assms(1) [of x] assms(2) [of x] by (cases "f x") (auto simp: map_filter_def)
qed (simp add: map_filter_def)

text \<open>C35: a zone serves what is configured for it. The records of a built zone under a name are,
  in the order of the configuration, exactly the usable records whose owner is that name, each with
  the owner's name, its TTL (300 for 0), a type that fits its data and the value that is
  configured - an A record the four bytes of its address, an AAAA record an address that is not
  IPv4, an MX record the low 16 bits of its preference; a record of another type or with a value
  that cannot be read is dropped; a name with no record left has no entry, and every name with an entry lies
  inside the apex.\<close>

theorem zone_records_typed:
  assumes "build_zone L serial s = Some z"
  shows "list_all2 (serves_record L owner)
      (filter (\<lambda>c. record_owner (zr_name c) (z_apex z) = owner \<and> usable_record c) (zs_records s))
      (records_at (z_records z) owner)
    \<and> (map_of (z_records z) owner \<noteq> None \<longleftrightarrow> records_at (z_records z) owner \<noteq> [])
    \<and> (map_of (z_records z) owner \<noteq> None \<longrightarrow> in_domain owner (z_apex z))"
proof -
  have z: "z_records z = fold (add_record_spec L (z_apex z)) (zs_records s) []"
    using assms by (auto simp: build_zone_def Let_def split: if_splits)
  let ?f = "\<lambda>c. if record_owner (zr_name c) (z_apex z) = owner then build_rr L owner c else None"
  have "records_at (z_records z) owner = List.map_filter ?f (zs_records s)"
    unfolding z add_records_at by simp
  moreover have "list_all2 (serves_record L owner)
      (filter (\<lambda>c. record_owner (zr_name c) (z_apex z) = owner \<and> usable_record c) (zs_records s))
      (List.map_filter ?f (zs_records s))"
    by (rule served_in_order) (auto simp: build_rr_None build_rr_serves split: if_splits)
  moreover have "records_ok L (z_apex z) (z_records z)" by (rule zone_records_ok [OF assms])
  ultimately show ?thesis by (auto simp: records_ok_def split: option.splits)
qed

theorem zone_records_typed_witness:
  "\<exists>z. build_zone sample_lib 1 demo_zone_spec = Some z
     \<and> list_all2 (serves_record sample_lib ''nas.home'')
         (filter (\<lambda>c. record_owner (zr_name c) (z_apex z) = ''nas.home'' \<and> usable_record c) (zs_records demo_zone_spec))
         (records_at (z_records z) ''nas.home'')"
proof -
  have "build_zone sample_lib 1 demo_zone_spec \<noteq> None" by code_simp
  then obtain z where z: "build_zone sample_lib 1 demo_zone_spec = Some z" by blast
  from zone_records_typed [OF z, of "''nas.home''"] z show ?thesis by blast
qed

text \<open>A preference that needs more than 16 bits is served as another one.\<close>

lemma mx_preference_wraps:
  assumes "to_upper (zr_type c) = ''MX''" "str_fields (zr_text c) = [p, h]" "atoi p = Some 70000"
  shows "\<exists>r. build_rr L owner c = Some r \<and> rr_data r = MxPref 4464 (lib_fqdn L h)"
  using assms by (simp add: build_rr_def Let_def)

end
