(* ===== verification/Upstreams.thy ===== *)
theory Upstreams
  imports Dns_Msg
begin

section \<open>Upstream servers (internal/resolver/upstream.go)\<close>

text \<open>
  Parsing an upstream's spec, the names it goes by in the log, and the exchange of a plain
  upstream with its TCP fallback. The sockets and clients are the DNS library and the network:
  an exchange over one of them is a value, \<open>(answer, round trip, error)\<close>. \<open>url.Parse\<close> of a
  DoH URL is an argument, scheme, host and path or an error.
\<close>

subsection \<open>Errors\<close>

text \<open>
  The error values the code tells apart with \<open>errors.Is\<close>; \<open>Wrapped\<close> is
  \<open>fmt.Errorf("...: %w", err)\<close>.
\<close>

datatype go_error =
    ErrEOF
  | ErrUnexpectedEOF
  | ErrConnReset
  | ErrBrokenPipe
  | ErrDeadlineExceeded
  | ErrPipeClosed
  | ErrNoUpstreams
  | ErrUpstreamTimeout
  | OtherError string
  | Wrapped string go_error

fun err_root :: "go_error \<Rightarrow> go_error" where
  "err_root (Wrapped s e) = err_root e"
| "err_root e = e"

definition err_is :: "go_error option \<Rightarrow> go_error \<Rightarrow> bool" where
  [model]: "err_is e target = (case e of None \<Rightarrow> False | Some e \<Rightarrow> err_root e = target)"

fun err_text :: "go_error \<Rightarrow> string" where
  "err_text ErrEOF = ''EOF''"
| "err_text ErrUnexpectedEOF = ''unexpected EOF''"
| "err_text ErrConnReset = ''connection reset by peer''"
| "err_text ErrBrokenPipe = ''broken pipe''"
| "err_text ErrDeadlineExceeded = ''i/o timeout''"
| "err_text ErrPipeClosed = ''connection closed''"
| "err_text ErrNoUpstreams = ''no upstreams available''"
| "err_text ErrUpstreamTimeout = ''upstream timeout''"
| "err_text (OtherError s) = s"
| "err_text (Wrapped s e) = s @ '': '' @ err_text e"

definition conn_dropped :: "go_error option \<Rightarrow> bool" where
  [model]: "conn_dropped e \<longleftrightarrow>
     err_is e ErrEOF \<or> err_is e ErrUnexpectedEOF \<or> err_is e ErrConnReset \<or> err_is e ErrBrokenPipe"

definition err_pipe_timeout :: go_error where
  [model]: "err_pipe_timeout = Wrapped ''read'' ErrDeadlineExceeded"

definition err_pipe_busy :: go_error where
  [model]: "err_pipe_busy = Wrapped ''upstream busy'' ErrDeadlineExceeded"

subsection \<open>Specs\<close>

definition large_udp_size :: nat where [model]: "large_udp_size = 1232"
definition dot_idle_timeout :: duration where [model]: "dot_idle_timeout = 10 * second"
definition dot_probe_timeout :: duration where [model]: "dot_probe_timeout = 2 * second"
definition dot_keepalive_interval :: duration where [model]: "dot_keepalive_interval = 5 * second"

datatype upstream =
    Plain (up_addr: string) (up_proto: string) (up_timeout: duration)
  | Dot (up_addr: string) (up_server: string) (up_timeout: duration)
  | Doh (up_url: string) (up_timeout: duration)

text \<open>An upstream object: its identity (the warm connections it holds) and what it was parsed to.\<close>

type_synonym up_ref = "nat \<times> upstream"

definition ensure_port :: "string \<Rightarrow> string \<Rightarrow> string" where
  [model]: "ensure_port addr def_port =
     (if split_host_port addr \<noteq> None then addr else join_host_port addr def_port)"

definition parse_upstream :: "string \<Rightarrow> duration \<Rightarrow> upstream" where
  [model]: "parse_upstream raw timeout =
     (let spec = trim_space raw in
      if has_prefix spec ''https://'' then Doh spec timeout
      else if has_prefix spec ''tls://'' then
        (let r = trim_prefix spec ''tls://'';
             (host, server) = (case index_byte CHR ''#'' r of
                Some i \<Rightarrow> (take i r, drop (i + 1) r) | None \<Rightarrow> (r, []));
             host = ensure_port host ''853'';
             server = (if server = []
                       then (case split_host_port host of Some (h, p) \<Rightarrow> h | None \<Rightarrow> []) else server)
         in Dot host server timeout)
      else if has_prefix spec ''tcp://'' then Plain (ensure_port (trim_prefix spec ''tcp://'') ''53'') ''tcp'' timeout
      else if has_prefix spec ''udp://'' then Plain (ensure_port (trim_prefix spec ''udp://'') ''53'') ''udp'' timeout
      else Plain (ensure_port spec ''53'') ''udp'' timeout)"

type_synonym url_parser = "string \<Rightarrow> (string \<times> string \<times> string) option"

definition doh_string :: "url_parser \<Rightarrow> string \<Rightarrow> string" where
  [model]: "doh_string url u = (case url u of
     None \<Rightarrow> ''https://(invalid url)'' | Some (scheme, host, path) \<Rightarrow> scheme @ ''://'' @ host @ path)"

fun up_string :: "url_parser \<Rightarrow> upstream \<Rightarrow> string" where
  "up_string url (Plain a p t) = p @ ''://'' @ a"
| "up_string url (Dot a s t) = ''tls://'' @ a"
| "up_string url (Doh u t) = doh_string url u"

definition upstream_label :: "url_parser \<Rightarrow> string \<Rightarrow> string" where
  [model]: "upstream_label url raw =
     (let spec = trim_space raw in
      if \<not> has_prefix spec ''https://'' then spec
      else case url spec of
        None \<Rightarrow> ''https://(invalid url)'' | Some (scheme, host, path) \<Rightarrow> scheme @ ''://'' @ host)"

subsection \<open>A plain upstream's exchange\<close>

type_synonym exchanged = "msg option \<times> duration \<times> go_error option"

text \<open>
  \<open>udp\<close> and \<open>tcp\<close> are what the library's client returns for the query; the result is the
  exchange's and whether the fallback counter was incremented.
\<close>

definition plain_exchange :: "(msg \<Rightarrow> exchanged) \<Rightarrow> (msg \<Rightarrow> exchanged) \<Rightarrow> msg \<Rightarrow> exchanged \<times> bool" where
  [model]: "plain_exchange udp tcp req =
     (case udp req of (resp, rtt, err) \<Rightarrow>
       if err = None \<and> (\<exists>m\<in>set_option resp. m_truncated m)
       then (case tcp req of (r2, rtt2, e2) \<Rightarrow>
              if e2 = None then ((r2, rtt2, None), True) else ((resp, rtt, err), True))
       else ((resp, rtt, err), False))"

definition exchange_up :: "url_parser \<Rightarrow> upstream \<Rightarrow> exchanged \<Rightarrow> exchanged" where
  [model]: "exchange_up url u r =
     (case r of (m, rtt, err) \<Rightarrow> (m, rtt, map_option (Wrapped (up_string url u)) err))"

lemma exchange_up_root: "map_option err_root (snd (snd (exchange_up url u r))) = map_option err_root (snd (snd r))"
  by (cases r) (simp add: exchange_up_def option.map_comp comp_def)

subsection \<open>Properties\<close>

text \<open>An address without brackets always becomes a host and port that can be dialled: the port
  it names if it names one, else the default, with a bare IPv6 address put in brackets.\<close>

theorem ensure_port_dialable:
  assumes "CHR ''['' \<notin> set a" and "CHR '']'' \<notin> set a" and "list_all is_digit port"
  shows "split_host_port (ensure_port a port) =
    (case split_host_port a of Some hp \<Rightarrow> Some hp | None \<Rightarrow> Some (a, port))"
proof -
  have "CHR '':'' \<notin> set port \<and> CHR ''['' \<notin> set port \<and> CHR '']'' \<notin> set port"
    using assms(3) by (auto simp: list_all_iff is_digit_def byte_def)
  with assms(1,2) show ?thesis
    by (auto simp: ensure_port_def join_host_port_splits split: option.split)
qed

theorem ensure_port_dialable_witness:
  "split_host_port (ensure_port ''2606:4700::1111'' ''53'') = Some (''2606:4700::1111'', ''53'')"
proof -
  have "split_host_port ''2606:4700::1111'' = None" by code_simp
  moreover have "CHR ''['' \<notin> set ''2606:4700::1111'' \<and> CHR '']'' \<notin> set ''2606:4700::1111'' \<and> list_all is_digit ''53''"
    by code_simp
  ultimately show ?thesis using ensure_port_dialable [of "''2606:4700::1111''" "''53''"] by simp
qed

text \<open>A plain upstream turns a truncated UDP answer into the TCP answer when TCP succeeds, keeps
  the UDP answer when TCP fails, and never turns an answer into an error.\<close>

theorem plain_exchange_result:
  "fst (plain_exchange udp tcp req) =
     (case udp req of
        (Some m, rtt, None) \<Rightarrow>
          if m_truncated m \<and> snd (snd (tcp req)) = None then tcp req else (Some m, rtt, None)
      | r \<Rightarrow> r)"
  by (cases "udp req"; cases "tcp req")
    (auto simp: plain_exchange_def split: option.split)

end
