(* ===== verification/Local_Records.thy ===== *)
theory Local_Records
  imports Block_Filter Upstreams
begin

section \<open>Local rewrites and the routes of conditional forwarders\<close>

text \<open>
  From internal/resolver/resolver.go and ptr.go: the policy (blocklists and rewrites), the lookup
  of a rewrite (exact, then the most specific wildcard), the answers built from rewrites, the
  reverse names derived from them, and the choice of a conditional forwarder. Go's map iteration
  order in \<open>buildReverse\<close> is an argument.
\<close>

record rewrite_rr =
  rw_type :: u16
  rw_text :: string

record policy =
  p_block :: engine
  p_allow :: engine
  p_rewrites :: "(string \<times> rewrite_rr list) list"
  p_wildcards :: "(string \<times> rewrite_rr list) list"
  p_reverse :: "(string \<times> string) list"

record cond_forward =
  cf_suffix :: string
  cf_dot_suffix :: string
  cf_ups :: "up_ref list"
  cf_labels :: "string list"

definition rr_header :: "string \<Rightarrow> u16 \<Rightarrow> rdata \<Rightarrow> rr" where
  [model]: "rr_header name t d = \<lparr>rr_name = name, rr_type = t, rr_class = class_INET, rr_ttl = 300, rr_data = d\<rparr>"

subsection \<open>Looking a rewrite up\<close>

function wildcard_walk :: "(string \<times> rewrite_rr list) list \<Rightarrow> string \<Rightarrow> (rewrite_rr list \<times> string) option" where
  "wildcard_walk m n =
     (case index_byte CHR ''.'' n of
        None \<Rightarrow> None
      | Some i \<Rightarrow>
          let r = drop (i + 1) n in
          case map_of m r of Some rrs \<Rightarrow> Some (rrs, r) | None \<Rightarrow> wildcard_walk m r)"
  by pat_completeness auto
termination
  by (relation "measure (\<lambda>(m, n). length n)") (auto simp: index_byte_Some)

declare wildcard_walk.simps [simp del]

text \<open>The records and the wildcard's suffix, empty for an exact match.\<close>

definition lookup_rewrite :: "policy \<Rightarrow> string \<Rightarrow> (rewrite_rr list \<times> string) option" where
  [model]: "lookup_rewrite p name =
     (case map_of (p_rewrites p) name of
        Some rrs \<Rightarrow> Some (rrs, [])
      | None \<Rightarrow> if p_wildcards p = [] then None else wildcard_walk (p_wildcards p) name)"

subsection \<open>Answering from a rewrite\<close>

definition is_addr_qtype :: "u16 \<Rightarrow> bool" where
  [model]: "is_addr_qtype t \<longleftrightarrow> t = type_A \<or> t = type_AAAA \<or> t = type_HTTPS \<or> t = type_SVCB"

definition rewrite_record :: "dns_lib \<Rightarrow> question \<Rightarrow> rewrite_rr \<Rightarrow> rr option" where
  [model]: "rewrite_record L q w =
     (if rw_type w \<noteq> q_type q then None
      else if rw_type w = type_A then
        (case Option.bind (parse_ip (rw_text w)) to4 of
           None \<Rightarrow> None | Some a \<Rightarrow> Some (rr_header (q_name q) type_A (AddrA a)))
      else if rw_type w = type_AAAA then
        (case parse_ip (rw_text w) of
           None \<Rightarrow> None | Some a \<Rightarrow> Some (rr_header (q_name q) type_AAAA (AddrAAAA a)))
      else if rw_type w = type_CNAME then
        Some (rr_header (q_name q) type_CNAME (CnameTo (lib_fqdn L (rw_text w))))
      else None)"

definition rewrite_response :: "dns_lib \<Rightarrow> msg \<Rightarrow> question \<Rightarrow> rewrite_rr list \<Rightarrow> msg option" where
  [model]: "rewrite_response L req q rrs =
     (let m = (lib_set_reply L req)\<lparr>m_authoritative := True\<rparr>;
          answers = List.map_filter (rewrite_record L q) rrs;
          has_addr = (\<exists>w\<in>set rrs. rw_type w = type_A \<or> rw_type w = type_AAAA) in
      if answers = [] then (if has_addr \<and> is_addr_qtype (q_type q) then Some m else None)
      else Some (m\<lparr>m_answer := m_answer m @ answers\<rparr>))"

subsection \<open>Reverse names\<close>

definition reverse_name_for :: "dns_lib \<Rightarrow> rewrite_rr \<Rightarrow> string option" where
  [model]: "reverse_name_for L w =
     (case parse_ip (trim_space (rw_text w)) of
        None \<Rightarrow> None
      | Some a \<Rightarrow>
          if rw_type w = type_A \<and> to4 a = None then None
          else if rw_type w = type_AAAA \<and> to4 a \<noteq> None then None
          else if rw_type w \<noteq> type_A \<and> rw_type w \<noteq> type_AAAA then None
          else map_option (\<lambda>r. trim_suffix r ''.'') (lib_reverse_addr L (ip_string a)))"

definition prefer_name :: "string \<Rightarrow> string \<Rightarrow> bool" where
  [model]: "prefer_name a b \<longleftrightarrow> (if length a \<noteq> length b then length a < length b else a < b)"

definition note_reverse :: "dns_lib \<Rightarrow> string \<Rightarrow> rewrite_rr \<Rightarrow> (string \<times> string) list \<Rightarrow> (string \<times> string) list" where
  [model]: "note_reverse L name w out =
     (case reverse_name_for L w of
        None \<Rightarrow> out
      | Some r \<Rightarrow> (case map_of out r of
            None \<Rightarrow> AList.update r name out
          | Some cur \<Rightarrow> if prefer_name name cur then AList.update r name out else out))"

definition note_name :: "dns_lib \<Rightarrow> string \<times> rewrite_rr list \<Rightarrow> (string \<times> string) list \<Rightarrow> (string \<times> string) list" where
  [model]: "note_name L e out =
     (if fst e = [] \<or> contains_sub (fst e) ''*'' then out else fold (note_reverse L (fst e)) (snd e) out)"

definition build_reverse ::
  "dns_lib \<Rightarrow> ((string \<times> rewrite_rr list) list \<Rightarrow> (string \<times> rewrite_rr list) list)
   \<Rightarrow> (string \<times> rewrite_rr list) list \<Rightarrow> (string \<times> string) list" where
  [model]: "build_reverse L visit rewrites = fold (note_name L) (visit rewrites) []"

subsection \<open>Conditional forwarders\<close>

fun conditional_for :: "cond_forward list \<Rightarrow> string \<Rightarrow> cond_forward option" where
  "conditional_for [] name = None"
| "conditional_for (cf # cfs) name =
     (if (name = cf_suffix cf \<or> has_suffix name (cf_dot_suffix cf)) \<and> cf_ups cf \<noteq> [] then Some cf
      else conditional_for cfs name)"

definition rewrite_ptr :: "dns_lib \<Rightarrow> cond_forward list \<Rightarrow> policy \<Rightarrow> msg \<Rightarrow> question \<Rightarrow> string \<Rightarrow> msg option" where
  [model]: "rewrite_ptr L cfs p req q name =
     (case map_of (p_reverse p) name of
        None \<Rightarrow> None
      | Some target \<Rightarrow>
          if conditional_for cfs name \<noteq> None then None
          else let m = (lib_set_reply L req)\<lparr>m_authoritative := True\<rparr> in
               Some (m\<lparr>m_answer := m_answer m @ [rr_header (q_name q) type_PTR (PtrTo (lib_fqdn L target))]\<rparr>))"

subsection \<open>The wildcard walk\<close>

text \<open>From the parent on, a wildcard lookup is a walk that also says where it stopped.\<close>

definition with_suffix :: "(string \<times> rewrite_rr list) list \<Rightarrow> string \<Rightarrow> (rewrite_rr list \<times> string) option" where
  "with_suffix m n = map_option (\<lambda>rrs. (rrs, n)) (map_of m n)"

definition from_here :: "(string \<times> rewrite_rr list) list \<Rightarrow> string \<Rightarrow> (rewrite_rr list \<times> string) option" where
  "from_here m n = (case with_suffix m n of Some v \<Rightarrow> Some v | None \<Rightarrow> wildcard_walk m n)"

interpretation wild: suffix_walk "with_suffix m" "from_here m" for m
proof
  fix n
  show "from_here m n = (case with_suffix m n of Some v \<Rightarrow> Some v
      | None \<Rightarrow> (case parent_name n of None \<Rightarrow> None | Some p \<Rightarrow> from_here m p))"
    by (cases "index_byte CHR ''.'' n")
      (auto simp: from_here_def with_suffix_def parent_name_def wildcard_walk.simps [of m n] Let_def
        split: option.split)
qed

lemma wildcard_walk_parent:
  "wildcard_walk m n = (case parent_name n of None \<Rightarrow> None | Some p \<Rightarrow> from_here m p)"
  by (cases "index_byte CHR ''.'' n")
    (auto simp: from_here_def with_suffix_def parent_name_def wildcard_walk.simps [of m n] Let_def
      split: option.split)

lemma strictly_under: "parent_name n = Some p \<Longrightarrow> in_domain p a \<longleftrightarrow> in_domain n a \<and> a \<noteq> n"
  using in_domain_parent [of n p a] parent_name_shorter [of n p] in_domain_length [of p a] by force

lemma wildcard_walk_Some:
  "wildcard_walk m n = Some (rrs, a) \<longleftrightarrow>
     in_domain n a \<and> a \<noteq> n \<and> map_of m a = Some rrs \<and>
     (\<forall>b. in_domain n b \<and> b \<noteq> n \<and> length a < length b \<longrightarrow> map_of m b = None)"
proof (cases "parent_name n")
  case None
  then show ?thesis by (auto simp: wildcard_walk_parent in_domain_no_dot)
next
  case (Some p)
  have "from_here m p = Some (rrs, a) \<longleftrightarrow> in_domain p a \<and> map_of m a = Some rrs \<and>
      (\<forall>b. in_domain p b \<and> length a < length b \<longrightarrow> map_of m b = None)"
    unfolding wild.walk_most_specific by (auto simp: with_suffix_def)
  then show ?thesis by (simp add: wildcard_walk_parent Some strictly_under [OF Some])
qed

lemma conditional_for_None:
  "conditional_for cfs n = None \<longleftrightarrow>
     (\<forall>cf\<in>set cfs. cf_ups cf = [] \<or> \<not> (n = cf_suffix cf \<or> has_suffix n (cf_dot_suffix cf)))"
  by (induction cfs) auto

lemma conditional_for_Some:
  "conditional_for cfs n = Some cf \<Longrightarrow>
     cf \<in> set cfs \<and> cf_ups cf \<noteq> [] \<and> (n = cf_suffix cf \<or> has_suffix n (cf_dot_suffix cf))"
  by (induction cfs) (auto split: if_splits)

definition forwarders_ok :: "cond_forward list \<Rightarrow> bool" where
  "forwarders_ok cfs \<longleftrightarrow> (\<forall>cf\<in>set cfs. cf_dot_suffix cf = CHR ''.'' # cf_suffix cf \<and> cf_suffix cf \<noteq> []) \<and>
     sorted_wrt (\<lambda>a b. length (cf_suffix a) \<ge> length (cf_suffix b)) cfs"

lemma conditional_for_longest:
  assumes "conditional_for cfs n = Some cf" and "forwarders_ok cfs"
  shows "in_domain n (cf_suffix cf) \<and> cf_ups cf \<noteq> [] \<and> cf \<in> set cfs \<and>
    (\<forall>c\<in>set cfs. cf_ups c \<noteq> [] \<and> in_domain n (cf_suffix c) \<longrightarrow> length (cf_suffix c) \<le> length (cf_suffix cf))"
  using assms
proof (induction cfs)
  case (Cons c cfs)
  show ?case
  proof (cases "(n = cf_suffix c \<or> has_suffix n (cf_dot_suffix c)) \<and> cf_ups c \<noteq> []")
    case True
    with Cons.prems show ?thesis by (auto simp: forwarders_ok_def in_domain_def)
  next
    case False
    with Cons.prems have "conditional_for cfs n = Some cf" "forwarders_ok cfs"
      by (auto simp: forwarders_ok_def)
    from Cons.IH [OF this] False Cons.prems(2) show ?thesis by (auto simp: forwarders_ok_def in_domain_def)
  qed
qed simp

subsection \<open>Names in order of preference\<close>

text \<open>Host names ordered by \<open>preferName\<close>: shorter first, then alphabetical.\<close>

datatype host = Host (host_of: string)

instantiation host :: linorder
begin

definition less_host :: "host \<Rightarrow> host \<Rightarrow> bool" where
  "less_host a b \<longleftrightarrow> prefer_name (host_of a) (host_of b)"

definition less_eq_host :: "host \<Rightarrow> host \<Rightarrow> bool" where
  "less_eq_host a b \<longleftrightarrow> a = b \<or> prefer_name (host_of a) (host_of b)"

instance
proof
  fix a b c :: host
  show "a < b \<longleftrightarrow> a \<le> b \<and> \<not> b \<le> a"
    by (cases a; cases b) (auto simp: less_host_def less_eq_host_def prefer_name_def split: if_splits)
  show "a \<le> a" by (simp add: less_eq_host_def)
  show "a \<le> b \<Longrightarrow> b \<le> c \<Longrightarrow> a \<le> c"
    by (cases a; cases b; cases c) (auto simp: less_eq_host_def prefer_name_def split: if_splits)
  show "a \<le> b \<Longrightarrow> b \<le> a \<Longrightarrow> a = b"
    by (cases a; cases b) (auto simp: less_eq_host_def prefer_name_def split: if_splits)
  show "a \<le> b \<or> b \<le> a"
    by (cases a; cases b) (auto simp: less_eq_host_def prefer_name_def split: if_splits)
qed

end

definition best_name :: "string set \<Rightarrow> string option" where
  "best_name S = (if S = {} then None else Some (host_of (Min (Host ` S))))"

lemma best_name_insert:
  assumes "finite S"
  shows "best_name (insert n S) = Some (case best_name S of None \<Rightarrow> n
    | Some cur \<Rightarrow> if prefer_name n cur then n else cur)"
proof (cases "S = {}")
  case True
  then show ?thesis by (simp add: best_name_def)
next
  case False
  let ?m = "Min (Host ` S)"
  have m: "Min (Host ` insert n S) = min (Host n) ?m"
    using assms False by simp
  have b: "best_name (insert n S) = Some (host_of (min (Host n) ?m))" and c: "best_name S = Some (host_of ?m)"
    using False unfolding best_name_def m by simp_all
  show ?thesis
  proof (cases "prefer_name n (host_of ?m)")
    case True
    then have "min (Host n) ?m = Host n" by (intro min_absorb1) (simp add: less_eq_host_def)
    then show ?thesis unfolding b c using True by simp
  next
    case not_preferred: False
    then have "\<not> Host n < ?m" by (simp add: less_host_def)
    then have "min (Host n) ?m = ?m" by (intro min_absorb2) (simp add: not_less)
    then show ?thesis unfolding b c using not_preferred by simp
  qed
qed

text \<open>The names that claim a reverse name.\<close>

definition names_for :: "dns_lib \<Rightarrow> (string \<times> rewrite_rr list) set \<Rightarrow> string \<Rightarrow> string set" where
  "names_for L es r = {n. n \<noteq> [] \<and> \<not> contains_sub n ''*'' \<and>
     (\<exists>ws. (n, ws) \<in> es \<and> (\<exists>w\<in>set ws. reverse_name_for L w = Some r))}"

lemma finite_names_for: "finite es \<Longrightarrow> finite (names_for L es r)"
  by (rule finite_subset [of _ "fst ` es"]) (auto simp: names_for_def intro: rev_image_eqI)

lemma note_reverse_best:
  assumes "map_of out r = best_name S" and "finite S"
  shows "map_of (note_reverse L n w out) r = best_name (if reverse_name_for L w = Some r then insert n S else S)"
proof (cases "reverse_name_for L w = Some r")
  case True
  then show ?thesis
    using assms by (auto simp: note_reverse_def best_name_insert update_conv' split: option.split)
next
  case False
  then show ?thesis using assms(1) by (auto simp: note_reverse_def update_conv' split: option.split)
qed

lemma note_reverses_best:
  assumes "map_of out r = best_name S" and "finite S"
  shows "map_of (fold (note_reverse L n) ws out) r =
    best_name (if \<exists>w\<in>set ws. reverse_name_for L w = Some r then insert n S else S)"
  using assms
proof (induction ws arbitrary: out S)
  case (Cons w ws)
  have "finite (if reverse_name_for L w = Some r then insert n S else S)" using Cons.prems(2) by simp
  from Cons.IH [OF note_reverse_best [OF Cons.prems] this] show ?case by simp
qed simp

lemma note_names_best:
  assumes "\<forall>r. map_of out r = best_name (names_for L es r)" and "finite es"
  shows "map_of (fold (note_name L) xs out) r = best_name (names_for L (es \<union> set xs) r)"
  using assms
proof (induction xs arbitrary: out es)
  case (Cons x xs)
  have one: "map_of (note_name L x out) r = best_name (names_for L (insert x es) r)" for r
  proof (cases "fst x = [] \<or> contains_sub (fst x) ''*''")
    case True
    then have "names_for L (insert x es) r = names_for L es r" by (cases x) (auto simp: names_for_def)
    with True Cons.prems(1) show ?thesis by (simp add: note_name_def)
  next
    case False
    then have n: "names_for L (insert x es) r =
        (if \<exists>w\<in>set (snd x). reverse_name_for L w = Some r then insert (fst x) (names_for L es r) else names_for L es r)"
      by (cases x) (auto simp: names_for_def)
    have "map_of out r = best_name (names_for L es r)" using Cons.prems(1) by blast
    from note_reverses_best [OF this finite_names_for [OF Cons.prems(2)]] False n
    show ?thesis by (simp add: note_name_def)
  qed
  have "finite (insert x es)" using Cons.prems(2) by simp
  from Cons.IH [OF _ this] one show ?case by simp
qed simp

subsection \<open>Properties\<close>

text \<open>A rewrite is looked up exactly first; otherwise the wildcard with the longest suffix the
  name lies strictly below decides, never one whose suffix is the name itself.\<close>

theorem lookup_rewrite_spec:
  "lookup_rewrite p name = Some (rrs, suf) \<longleftrightarrow>
     (suf = [] \<and> map_of (p_rewrites p) name = Some rrs) \<or>
     (map_of (p_rewrites p) name = None \<and> in_domain name suf \<and> suf \<noteq> name \<and>
      map_of (p_wildcards p) suf = Some rrs \<and>
      (\<forall>b. in_domain name b \<and> b \<noteq> name \<and> length suf < length b \<longrightarrow> map_of (p_wildcards p) b = None))"
proof (cases "map_of (p_rewrites p) name")
  case (Some r)
  then show ?thesis by (auto simp: lookup_rewrite_def)
next
  case None
  then have "lookup_rewrite p name = Some (rrs, suf) \<longleftrightarrow> wildcard_walk (p_wildcards p) name = Some (rrs, suf)"
    using wildcard_walk_Some [of "[]" name rrs suf] by (auto simp: lookup_rewrite_def)
  then show ?thesis using None by (simp add: wildcard_walk_Some)
qed

definition demo_policy :: policy where
  "demo_policy = \<lparr>p_block = new_engine, p_allow = new_engine, p_rewrites = [],
     p_wildcards = [(''lan'', []), (''b.lan'', [\<lparr>rw_type = 1, rw_text = ''10.0.0.2''\<rparr>])], p_reverse = []\<rparr>"

theorem lookup_rewrite_spec_witness:
  "lookup_rewrite demo_policy ''a.b.lan'' = Some ([\<lparr>rw_type = 1, rw_text = ''10.0.0.2''\<rparr>], ''b.lan'') \<and>
   in_domain ''a.b.lan'' ''b.lan''"
proof -
  have l: "lookup_rewrite demo_policy ''a.b.lan'' = Some ([\<lparr>rw_type = 1, rw_text = ''10.0.0.2''\<rparr>], ''b.lan'')"
    by code_simp
  then show ?thesis using lookup_rewrite_spec [THEN iffD1, OF l] by simp
qed

text \<open>The answer from a rewrite: it is withheld (the query goes on) exactly when no record
  matches the type and the name has no address record or the type is not one that leads to an
  address; otherwise it is an authoritative NOERROR reply to the query whose records all
  carry the name and the type asked for.\<close>

theorem rewrite_response_spec:
  assumes "dns_lib_ok L"
  shows "case rewrite_response L req q rrs of
      None \<Rightarrow> (\<forall>w\<in>set rrs. rewrite_record L q w = None) \<and>
        ((\<forall>w\<in>set rrs. rw_type w \<noteq> 1 \<and> rw_type w \<noteq> 28) \<or> \<not> is_addr_qtype (q_type q))
    | Some m \<Rightarrow> m_id m = m_id req \<and> m_authoritative m \<and> m_rcode m = 0 \<and> m_ns m = [] \<and>
        (\<forall>r\<in>set (m_answer m). rr_name r = q_name q \<and> rr_type r = q_type q \<and> rr_ttl r = 300) \<and>
        (m_answer m = [] \<longrightarrow> is_addr_qtype (q_type q) \<and> (\<exists>w\<in>set rrs. rw_type w = 1 \<or> rw_type w = 28))"
proof -
  let ?as = "List.map_filter (rewrite_record L q) rrs"
  have e: "m_id (lib_set_reply L req) = m_id req" "m_rcode (lib_set_reply L req) = 0"
    "m_answer (lib_set_reply L req) = []" "m_ns (lib_set_reply L req) = []"
    using lib_reply_ok [OF assms, of req] by (simp_all add: empty_reply_def)
  have rec: "rr_name r = q_name q \<and> rr_type r = q_type q \<and> rr_ttl r = 300"
    if "rewrite_record L q w = Some r" for w r
    using that by (auto simp: rewrite_record_def rr_header_def split: if_splits option.splits)
  have all: "\<forall>r\<in>set ?as. rr_name r = q_name q \<and> rr_type r = q_type q \<and> rr_ttl r = 300"
    using rec by (auto simp: map_filter_def)
  have none: "?as = [] \<longleftrightarrow> (\<forall>w\<in>set rrs. rewrite_record L q w = None)"
    by (induction rrs) (auto split: option.split)
  show ?thesis
  proof (cases "?as = []")
    case True
    then show ?thesis using e none by (auto simp: rewrite_response_def Let_def)
  next
    case False
    then show ?thesis using e all by (simp add: rewrite_response_def Let_def)
  qed
qed

theorem rewrite_response_spec_witness:
  "case rewrite_response sample_lib blank_msg \<lparr>q_name = ''nas.'', q_type = 28, q_class = 1\<rparr>
       [\<lparr>rw_type = 1, rw_text = ''10.0.0.2''\<rparr>] of
      None \<Rightarrow> False | Some m \<Rightarrow> m_rcode m = 0 \<and> m_answer m = []"
proof -
  let ?q = "\<lparr>q_name = ''nas.'', q_type = 28, q_class = 1\<rparr>" and ?w = "\<lparr>rw_type = 1, rw_text = ''10.0.0.2''\<rparr>"
  obtain m where m: "rewrite_response sample_lib blank_msg ?q [?w] = Some m"
    by (simp add: rewrite_response_def rewrite_record_def is_addr_qtype_def Let_def)
  moreover have "m_answer m = []"
    using m by (simp add: rewrite_response_def rewrite_record_def is_addr_qtype_def Let_def)
      (auto simp: sample_lib_def blank_msg_def)
  ultimately show ?thesis
    using rewrite_response_spec [OF sample_lib_ok, where req = blank_msg and q = ?q and rrs = "[?w]"] by simp
qed

text \<open>In whatever order the rewrites are visited, a reverse name is answered with the
  preferred (shortest, then alphabetically first) of the names with an address record for it.\<close>

theorem build_reverse_preferred:
  assumes "visits visit"
  shows "map_of (build_reverse L visit rewrites) r = best_name (names_for L (set rewrites) r)"
proof -
  have "\<forall>r. map_of [] r = best_name (names_for L {} r)" by (simp add: names_for_def best_name_def)
  from note_names_best [OF this, where xs = "visit rewrites" and r = r] visits_set [OF assms]
  show ?thesis by (simp add: build_reverse_def)
qed

theorem build_reverse_preferred_witness:
  "map_of (build_reverse sample_lib (\<lambda>m. m) [(''nas.lan'', [\<lparr>rw_type = 1, rw_text = ''10.0.0.2''\<rparr>])]) ''x''
     = best_name (names_for sample_lib (set [(''nas.lan'', [\<lparr>rw_type = 1, rw_text = ''10.0.0.2''\<rparr>])]) ''x'')"
  by (rule build_reverse_preferred) simp

text \<open>An AAAA rewrite that holds an IPv4 address is answered with it, although a zone record and
  a reverse name require a genuine IPv6 address.\<close>

theorem aaaa_rewrite_takes_ipv4:
  assumes "a \<le> 255" and "b \<le> 255" and "c \<le> 255" and "d \<le> 255"
    and "w = \<lparr>rw_type = 28, rw_text = v4_string [a, b, c, d]\<rparr>" and "q_type q = 28"
  shows "rewrite_record L q w = Some (rr_header (q_name q) 28 (AddrAAAA (v4_prefix @ [a, b, c, d])))"
  using assms parse_ip_v4_string [of a b c d] by (simp add: rewrite_record_def)

theorem aaaa_rewrite_takes_ipv4_witness:
  "rewrite_record sample_lib \<lparr>q_name = ''nas.'', q_type = 28, q_class = 1\<rparr>
     \<lparr>rw_type = 28, rw_text = v4_string [10, 0, 0, 2]\<rparr> =
   Some (rr_header ''nas.'' 28 (AddrAAAA (v4_prefix @ [10, 0, 0, 2])))"
  using aaaa_rewrite_takes_ipv4 [of 10 0 0 2 _ "\<lparr>q_name = ''nas.'', q_type = 28, q_class = 1\<rparr>" sample_lib] by simp

end
