(* ===== verification/Forwarding.thy ===== *)
theory Forwarding
  imports Upstreams
begin

section \<open>Forwarding to the upstreams (internal/resolver/forward.go)\<close>

text \<open>
  Both strategies are loops around a \<open>select\<close>: what wakes them is the result of an exchange or
  a timer. An event is one such wake-up with the time it happens at, a strategy is the
  function from event and state to the next state or the value returned
  (\<open>Inl\<close>: still in the loop, \<open>Inr\<close>: \<open>return\<close>). Goroutines are the upstreams whose
  result is still to come.
\<close>

subsection \<open>Settings\<close>

definition default_upstream_timeout_ms :: int where [model]: "default_upstream_timeout_ms = 1500"
definition min_upstream_timeout_ms :: int where [model]: "min_upstream_timeout_ms = 100"
definition max_upstream_timeout_ms :: int where [model]: "max_upstream_timeout_ms = 10000"
definition hedge_delay :: duration where [model]: "hedge_delay = 30 * millisecond"

definition normalize_upstream_strategy :: "string \<Rightarrow> string" where
  [model]: "normalize_upstream_strategy s =
     (if equal_fold (trim_space s) ''hedged'' then ''hedged'' else ''ordered'')"

definition normalize_upstream_timeout_ms :: "int \<Rightarrow> int" where
  [model]: "normalize_upstream_timeout_ms ms =
     (if ms \<le> 0 then default_upstream_timeout_ms
      else if ms < min_upstream_timeout_ms then min_upstream_timeout_ms
      else if ms > max_upstream_timeout_ms then max_upstream_timeout_ms
      else ms)"

subsection \<open>Soft failures\<close>

definition soft_failure :: "msg \<Rightarrow> bool" where
  [model]: "soft_failure m \<longleftrightarrow> m_rcode m = rcode_server_failure \<or> m_rcode m = rcode_refused"

definition better_soft :: "msg option \<Rightarrow> msg \<Rightarrow> bool" where
  [model]: "better_soft cur nxt \<longleftrightarrow>
     (case cur of None \<Rightarrow> True
      | Some c \<Rightarrow> m_rcode c \<noteq> rcode_server_failure \<and> m_rcode nxt = rcode_server_failure)"

text \<open>What forwarding returns: message, round trip, index of the upstream (\<open>-1\<close>: none), error.\<close>

type_synonym fwd_result = "msg option \<times> duration \<times> int \<times> go_error option"

definition exchange_only :: "exchanged \<Rightarrow> fwd_result" where
  [model]: "exchange_only r = (case r of (m, rtt, err) \<Rightarrow>
     if err \<noteq> None \<or> m = None then (m, rtt, -1, err) else (m, rtt, 0, None))"

datatype event =
    Arrived (ev_idx: nat) (ev_result: exchanged) (ev_time: time)
  | Timer (ev_time: time)

type_synonym soft_best = "(msg \<times> duration \<times> nat) option"

definition note_soft :: "soft_best \<Rightarrow> msg \<Rightarrow> duration \<Rightarrow> nat \<Rightarrow> soft_best" where
  [model]: "note_soft cur m rtt i =
     (if better_soft (map_option fst cur) m then Some (m, rtt, i) else cur)"

definition give_up :: "soft_best \<Rightarrow> go_error option \<Rightarrow> go_error \<Rightarrow> fwd_result" where
  [model]: "give_up soft last_err fallback =
     (case soft of
        Some (m, rtt, i) \<Rightarrow> (Some m, rtt, int i, None)
      | None \<Rightarrow> (None, 0, -1, Some (case last_err of None \<Rightarrow> fallback | Some e \<Rightarrow> e)))"

subsection \<open>Strict ordered failover\<close>

record ordered =
  o_next :: nat
  o_pending :: int
  o_soft :: soft_best
  o_last_err :: "go_error option"
  o_timer :: time

record ordered_cfg =
  oc_ups :: nat
  oc_per :: duration
  oc_deadline :: time

definition advance :: "ordered_cfg \<Rightarrow> time \<Rightarrow> ordered \<Rightarrow> ordered option" where
  [model]: "advance c now s =
     (let remaining = oc_deadline c - now in
      if o_next s \<ge> oc_ups c \<or> remaining \<le> 0 then None
      else let wait = (if o_next s + 1 = oc_ups c \<or> oc_per c > remaining then remaining else oc_per c) in
           Some (s\<lparr>o_next := o_next s + 1, o_pending := o_pending s + 1, o_timer := now + wait\<rparr>))"

fun ordered_step :: "ordered_cfg \<Rightarrow> event \<Rightarrow> ordered \<Rightarrow> ordered + fwd_result" where
  "ordered_step c (Arrived i (m, rtt, err) now) s =
     (let s = s\<lparr>o_pending := o_pending s - 1\<rparr>;
          failed = s\<lparr>o_last_err := Some (case err of None \<Rightarrow> ErrNoUpstreams | Some e \<Rightarrow> e)\<rparr>;
          carry_on = (\<lambda>s. if i + 1 \<noteq> o_next s then Inl s
             else case advance c now s of
               Some s' \<Rightarrow> Inl s'
             | None \<Rightarrow> if o_pending s = 0 then Inr (give_up (o_soft s) (o_last_err s) ErrUpstreamTimeout)
                       else Inl (s\<lparr>o_timer := now + (oc_deadline c - now)\<rparr>))
      in case (m, err) of
           (Some x, None) \<Rightarrow>
             if \<not> soft_failure x then Inr (Some x, rtt, int i, None)
             else carry_on (s\<lparr>o_soft := note_soft (o_soft s) x rtt i\<rparr>)
         | _ \<Rightarrow> carry_on failed)"
| "ordered_step c (Timer now) s =
     (case advance c now s of
        Some s' \<Rightarrow> Inl s'
      | None \<Rightarrow> Inr (give_up (o_soft s) (o_last_err s) ErrUpstreamTimeout))"

definition ordered_start :: "ordered_cfg \<Rightarrow> time \<Rightarrow> ordered" where
  [model]: "ordered_start c now =
     (let s = \<lparr>o_next = 0, o_pending = 0, o_soft = None, o_last_err = None, o_timer = now + 3600 * second\<rparr> in
      case advance c now s of Some s' \<Rightarrow> s' | None \<Rightarrow> s)"

fun run_events :: "(event \<Rightarrow> 's \<Rightarrow> 's + 'r) \<Rightarrow> event list \<Rightarrow> 's \<Rightarrow> 's + 'r" where
  "run_events step [] s = Inl s"
| "run_events step (e # es) s = (case step e s of Inl s' \<Rightarrow> run_events step es s' | Inr r \<Rightarrow> Inr r)"

text \<open>
  \<open>forwardOrdered\<close>: with one upstream its exchange is the result; \<open>first\<close> is that exchange, the
  events are those of the loop.
\<close>

definition ordered_cfg_for :: "nat \<Rightarrow> duration \<Rightarrow> duration \<Rightarrow> time \<Rightarrow> ordered_cfg" where
  [model]: "ordered_cfg_for n per timeout now =
     \<lparr>oc_ups = n, oc_per = (if per \<le> 0 then default_upstream_timeout_ms * millisecond else per),
      oc_deadline = now + timeout\<rparr>"

definition forward_ordered ::
  "nat \<Rightarrow> duration \<Rightarrow> duration \<Rightarrow> exchanged \<Rightarrow> time \<Rightarrow> event list \<Rightarrow> ordered + fwd_result" where
  [model]: "forward_ordered n per timeout first now es =
     (if n = 0 then Inr (None, 0, -1, Some ErrNoUpstreams)
      else if n = 1 then Inr (exchange_only first)
      else let c = ordered_cfg_for n per timeout now in
           run_events (ordered_step c) es (ordered_start c now))"

subsection \<open>Hedged\<close>

record hedged =
  h_pending :: int
  h_launched :: bool
  h_soft :: soft_best
  h_last_err :: "go_error option"

definition launch_rest :: "nat \<Rightarrow> hedged \<Rightarrow> hedged" where
  [model]: "launch_rest n s =
     (if h_launched s then s
      else s\<lparr>h_pending := h_pending s + (int n - 1), h_launched := True\<rparr>)"

fun hedged_step :: "nat \<Rightarrow> event \<Rightarrow> hedged \<Rightarrow> hedged + fwd_result" where
  "hedged_step n (Timer now) s = Inl (launch_rest n s)"
| "hedged_step n (Arrived i (m, rtt, err) now) s =
     (let s = s\<lparr>h_pending := h_pending s - 1\<rparr>;
          check = (\<lambda>s. if h_pending s = 0 then Inr (give_up (h_soft s) (h_last_err s) ErrNoUpstreams) else Inl s)
      in case (m, err) of
           (Some x, None) \<Rightarrow>
             if \<not> soft_failure x then Inr (Some x, rtt, int i, None)
             else check (launch_rest n (s\<lparr>h_soft := note_soft (h_soft s) x rtt i\<rparr>))
         | _ \<Rightarrow> check (launch_rest n (s\<lparr>h_last_err := err\<rparr>)))"

definition hedged_start :: hedged where
  [model]: "hedged_start = \<lparr>h_pending = 1, h_launched = False, h_soft = None, h_last_err = None\<rparr>"

definition forward_hedged :: "nat \<Rightarrow> exchanged \<Rightarrow> event list \<Rightarrow> hedged + fwd_result" where
  [model]: "forward_hedged n first es =
     (if n = 0 then Inr (None, 0, -1, Some ErrNoUpstreams)
      else if n = 1 then Inr (exchange_only first)
      else run_events (hedged_step n) es hedged_start)"

text \<open>\<open>forward\<close>: the runtime's strategy; \<open>None\<close> while the loop still waits.\<close>

definition forward ::
  "bool \<Rightarrow> nat \<Rightarrow> duration \<Rightarrow> duration \<Rightarrow> exchanged \<Rightarrow> time \<Rightarrow> event list \<Rightarrow> fwd_result option" where
  [model]: "forward use_hedged n per timeout first now es =
     (if use_hedged then (case forward_hedged n first es of Inl _ \<Rightarrow> None | Inr r \<Rightarrow> Some r)
      else (case forward_ordered n per timeout first now es of Inl _ \<Rightarrow> None | Inr r \<Rightarrow> Some r))"

subsection \<open>What a failover strategy promises\<close>

text \<open>The value the loop returns at once on an event, if the event is a real answer.\<close>

fun real_answer :: "event \<Rightarrow> fwd_result option" where
  "real_answer (Arrived i (Some m, rtt, None) t) = (if soft_failure m then None else Some (Some m, rtt, int i, None))"
| "real_answer e = None"

fun soft_answer :: "event \<Rightarrow> (msg \<times> duration \<times> nat) option" where
  "soft_answer (Arrived i (Some m, rtt, None) t) = (if soft_failure m then Some (m, rtt, i) else None)"
| "soft_answer e = None"

text \<open>
  The abstract specification of both strategies, on the events the loop has seen: the first real
  answer; failing that the first SERVFAIL, failing that the first REFUSED; failing that an error.
\<close>

definition is_servfail :: "msg \<times> duration \<times> nat \<Rightarrow> bool" where
  "is_servfail x \<longleftrightarrow> m_rcode (fst x) = rcode_server_failure"

definition best_soft :: "event list \<Rightarrow> soft_best" where
  "best_soft es = (let softs = List.map_filter soft_answer es in
     case filter is_servfail softs of x # _ \<Rightarrow> Some x | [] \<Rightarrow> (case softs of x # _ \<Rightarrow> Some x | [] \<Rightarrow> None))"

definition verdict :: "event list \<Rightarrow> fwd_result \<Rightarrow> bool" where
  "verdict es r \<longleftrightarrow>
     (case first_some real_answer es of
        Some a \<Rightarrow> r = a
      | None \<Rightarrow> (case best_soft es of
          Some (m, rtt, i) \<Rightarrow> r = (Some m, rtt, int i, None)
        | None \<Rightarrow> (\<exists>x. r = (None, 0, -1, Some x))))"

definition note_event :: "event \<Rightarrow> soft_best \<Rightarrow> soft_best" where
  "note_event e b = (case soft_answer e of None \<Rightarrow> b | Some (m, rtt, i) \<Rightarrow> note_soft b m rtt i)"

lemma note_event_snoc: "best_soft (es @ [e]) = note_event e (best_soft es)"
proof (cases "soft_answer e")
  case None
  then show ?thesis by (simp add: best_soft_def note_event_def map_filter_def)
next
  case (Some x)
  obtain m rtt i where x: "x = (m, rtt, i)" by (rule prod_cases3)
  let ?softs = "List.map_filter soft_answer es"
  have snoc: "List.map_filter soft_answer (es @ [e]) = ?softs @ [x]"
    using Some by (simp add: map_filter_def x)
  have n: "note_event e b = (if better_soft (map_option fst b) m then Some x else b)" for b
    using Some x by (simp add: note_event_def note_soft_def)
  show ?thesis
  proof (cases "filter is_servfail ?softs")
    case (Cons y ys)
    then have "is_servfail y" using filter_eq_ConsD [of is_servfail ?softs y ys] by blast
    then show ?thesis unfolding n best_soft_def snoc using Cons
      by (simp add: Let_def better_soft_def is_servfail_def)
  next
    case Nil
    show ?thesis
    proof (cases ?softs)
      case Nil
      then show ?thesis unfolding n best_soft_def snoc by (simp add: Let_def better_soft_def)
    next
      case (Cons y ys)
      then have "\<not> is_servfail y" using Nil by (auto split: if_splits)
      then show ?thesis unfolding n best_soft_def snoc using Nil Cons
        by (simp add: Let_def better_soft_def is_servfail_def x)
    qed
  qed
qed

text \<open>
  \<open>failover\<close> is the contract the resolver relies on, whichever strategy is configured: the loop
  stops at once on a real answer, remembers soft failures by \<open>betterSoft\<close>, and when it stops
  without a real answer returns the one it remembers or an error.
\<close>

locale failover =
  fixes step :: "event \<Rightarrow> 's \<Rightarrow> 's + fwd_result"
    and best :: "'s \<Rightarrow> soft_best"
  assumes step_real: "real_answer e = Some r \<Longrightarrow> step e s = Inr r"
    and step_more: "step e s = Inl s' \<Longrightarrow> best s' = note_event e (best s)"
    and step_end: "real_answer e = None \<Longrightarrow> step e s = Inr r \<Longrightarrow>
      (case note_event e (best s) of
         Some (m, rtt, i) \<Rightarrow> r = (Some m, rtt, int i, None)
       | None \<Rightarrow> (\<exists>x. r = (None, 0, -1, Some x)))"
begin

lemma run_more:
  "run_events step es s = Inl s' \<Longrightarrow> best s = best_soft pre \<Longrightarrow>
     best s' = best_soft (pre @ es) \<and> first_some real_answer es = None"
proof (induction es arbitrary: s pre)
  case (Cons e es)
  then obtain s1 where s1: "step e s = Inl s1" and run: "run_events step es s1 = Inl s'"
    by (auto split: sum.splits)
  have "real_answer e = None"
  proof (rule ccontr)
    assume "real_answer e \<noteq> None"
    then obtain r where "real_answer e = Some r" by blast
    from step_real [OF this] s1 show False by simp
  qed
  moreover have "best s1 = best_soft (pre @ [e])"
    using step_more [OF s1] Cons.prems(2) by (simp add: note_event_snoc)
  note Cons.IH [OF run this]
  ultimately show ?case by simp
qed simp

lemma run_verdict:
  assumes "run_events step es s = Inl s'" and "best s = None" and "step e s' = Inr r"
  shows "verdict (es @ [e]) r"
proof -
  have b: "best s = best_soft []" using assms(2) by (simp add: best_soft_def map_filter_def)
  note m = run_more [OF assms(1) b]
  show ?thesis
  proof (cases "real_answer e")
    case (Some a)
    with assms(3) have "r = a" using step_real [OF Some, of s'] by simp
    with Some m show ?thesis by (simp add: verdict_def first_some_append)
  next
    case None
    from step_end [OF None assms(3)] m None show ?thesis
      by (simp add: verdict_def first_some_append note_event_snoc)
  qed
qed

lemma run_returns:
  assumes "run_events step es s = Inr r" and "best s = None"
  shows "\<exists>pre e post. es = pre @ e # post \<and> verdict (pre @ [e]) r"
proof -
  have "\<exists>pre e post s'. es = pre @ e # post \<and> run_events step pre s = Inl s' \<and> step e s' = Inr r"
    using assms(1)
  proof (induction es arbitrary: s)
    case (Cons e es)
    show ?case
    proof (cases "step e s")
      case (Inl s1)
      then have "run_events step es s1 = Inr r" using Cons.prems by simp
      from Cons.IH [OF this] obtain pre x post s' where
        p: "es = pre @ x # post" "run_events step pre s1 = Inl s'" "step x s' = Inr r" by blast
      with Inl have "e # es = (e # pre) @ x # post \<and> run_events step (e # pre) s = Inl s' \<and> step x s' = Inr r"
        by simp
      then show ?thesis by blast
    next
      case (Inr r')
      with Cons.prems have "e # es = [] @ e # es \<and> run_events step [] s = Inl s \<and> step e s = Inr r" by simp
      then show ?thesis by blast
    qed
  qed simp
  then show ?thesis using run_verdict [OF _ assms(2)] by blast
qed

end

lemma advance_keeps: "advance c now s = Some s' \<Longrightarrow> o_soft s' = o_soft s \<and> o_last_err s' = o_last_err s"
  by (auto simp: advance_def Let_def split: if_splits)

interpretation of: failover "ordered_step c" o_soft for c
proof
  fix e r and s :: ordered
  assume "real_answer e = Some r"
  then show "ordered_step c e s = Inr r"
    by (cases e rule: real_answer.cases) (auto simp: Let_def split: if_splits)
next
  fix e and s s' :: ordered
  assume "ordered_step c e s = Inl s'"
  then show "o_soft s' = note_event e (o_soft s)"
    by (cases e rule: real_answer.cases)
      (auto simp: Let_def note_event_def split: if_splits option.splits dest!: advance_keeps)
next
  fix e r and s :: ordered
  assume "real_answer e = None" and "ordered_step c e s = Inr r"
  then show "case note_event e (o_soft s) of Some (m, rtt, i) \<Rightarrow> r = (Some m, rtt, int i, None)
     | None \<Rightarrow> (\<exists>x. r = (None, 0, -1, Some x))"
    by (cases e rule: real_answer.cases)
      (auto simp: Let_def note_event_def give_up_def split: if_splits option.splits)
qed

interpretation hf: failover "hedged_step n" h_soft for n
proof
  fix e r and s :: hedged
  assume "real_answer e = Some r"
  then show "hedged_step n e s = Inr r"
    by (cases e rule: real_answer.cases) (auto simp: Let_def split: if_splits)
next
  fix e and s s' :: hedged
  assume "hedged_step n e s = Inl s'"
  then show "h_soft s' = note_event e (h_soft s)"
    by (cases e rule: real_answer.cases)
      (auto simp: Let_def note_event_def launch_rest_def split: if_splits option.splits)
next
  fix e r and s :: hedged
  assume "real_answer e = None" and "hedged_step n e s = Inr r"
  then show "case note_event e (h_soft s) of Some (m, rtt, i) \<Rightarrow> r = (Some m, rtt, int i, None)
     | None \<Rightarrow> (\<exists>x. r = (None, 0, -1, Some x))"
    by (cases e rule: real_answer.cases)
      (auto simp: Let_def note_event_def launch_rest_def give_up_def split: if_splits option.splits)
qed

subsection \<open>Ordered failover, event by event\<close>

fun arrived_idx :: "event \<Rightarrow> nat list" where
  "arrived_idx (Arrived i r t) = [i]"
| "arrived_idx (Timer t) = []"

definition arrived :: "event list \<Rightarrow> nat list" where
  "arrived es = concat (map arrived_idx es)"

definition timers :: "event list \<Rightarrow> nat" where
  "timers es = length (filter (\<lambda>e. arrived_idx e = []) es)"

text \<open>
  What can happen to the loop: an upstream that was started and has not answered yet answers, or
  the timer fires, not before it was set to. \<open>ordered_trace c es s\<close>: after \<open>es\<close> the loop still
  runs, in state \<open>s\<close>.
\<close>

inductive ordered_trace :: "ordered_cfg \<Rightarrow> event list \<Rightarrow> ordered \<Rightarrow> bool" for c where
  started: "t < oc_deadline c \<Longrightarrow> ordered_trace c [] (ordered_start c t)"
| answered: "\<lbrakk>ordered_trace c es s; i < o_next s; i \<notin> set (arrived es);
    ordered_step c (Arrived i r t) s = Inl s'\<rbrakk> \<Longrightarrow> ordered_trace c (es @ [Arrived i r t]) s'"
| timed_out: "\<lbrakk>ordered_trace c es s; o_timer s \<le> t; ordered_step c (Timer t) s = Inl s'\<rbrakk>
    \<Longrightarrow> ordered_trace c (es @ [Timer t]) s'"

inductive_cases ordered_trace_snocE: "ordered_trace c (es @ [e]) s"
inductive_simps ordered_trace_nil: "ordered_trace c [] s"

lemma advance_Some:
  "advance c now s = Some s' \<longleftrightarrow> o_next s < oc_ups c \<and> now < oc_deadline c \<and>
     s' = s\<lparr>o_next := o_next s + 1, o_pending := o_pending s + 1,
       o_timer := (if o_next s + 1 = oc_ups c then oc_deadline c else min (oc_deadline c) (now + oc_per c))\<rparr>"
  by (auto simp: advance_def Let_def min_def)

lemma advance_None: "advance c now s = None \<longleftrightarrow> oc_ups c \<le> o_next s \<or> oc_deadline c \<le> now"
  by (auto simp: advance_def Let_def)

text \<open>Every step that stays in the loop either starts the next upstream or starts none.\<close>

definition started_one :: "ordered_cfg \<Rightarrow> time \<Rightarrow> ordered \<Rightarrow> ordered \<Rightarrow> bool" where
  "started_one c now s s' \<longleftrightarrow> o_next s < oc_ups c \<and> now < oc_deadline c \<and> o_next s' = o_next s + 1 \<and>
     o_timer s' \<le> oc_deadline c"

lemma timer_step:
  assumes "ordered_step c (Timer t) s = Inl s'"
  shows "started_one c t s s' \<and> o_pending s' = o_pending s + 1"
  using assms by (auto simp: advance_Some started_one_def split: option.splits)

lemma arrived_step:
  assumes "ordered_step c (Arrived i r t) s = Inl s'"
  shows "(i + 1 = o_next s \<and> started_one c t s s' \<and> o_pending s' = o_pending s) \<or>
    (o_next s' = o_next s \<and> o_pending s' = o_pending s - 1 \<and>
     (o_timer s' = o_timer s \<and> i + 1 \<noteq> o_next s \<or>
      o_timer s' = oc_deadline c \<and> i + 1 = o_next s \<and> advance c t s = None \<and> o_pending s' \<noteq> 0))"
proof -
  obtain m rtt err where r: "r = (m, rtt, err)" by (rule prod_cases3)
  show ?thesis
    using assms by (cases m; cases err)
      (auto simp: r Let_def advance_Some advance_None started_one_def split: if_splits option.splits)
qed

lemma ordered_trace_invariant:
  assumes "ordered_trace c es s" and "1 \<le> oc_ups c"
  shows "1 \<le> o_next s \<and> o_next s \<le> oc_ups c \<and> distinct (arrived es) \<and> set (arrived es) \<subseteq> {..<o_next s} \<and>
    o_pending s = int (o_next s) - int (length (arrived es)) \<and> timers es < o_next s \<and> o_timer s \<le> oc_deadline c"
  using assms
proof induction
  case (started t)
  then show ?case by (simp add: ordered_start_def advance_def arrived_def timers_def Let_def)
next
  case (answered es s i r t s')
  then show ?case
    using arrived_step [OF answered.hyps(4)]
    by (auto simp: arrived_def timers_def started_one_def less_Suc_eq)
next
  case (timed_out es s t s')
  then show ?case
    using timer_step [OF timed_out.hyps(3)]
    by (auto simp: arrived_def timers_def started_one_def less_Suc_eq)
qed

lemma length_arrived_timers: "length es = length (arrived es) + timers es"
proof (induction es)
  case (Cons e es)
  then show ?case by (cases e) (simp_all add: arrived_def timers_def)
qed (simp add: arrived_def timers_def)

subsection \<open>Properties\<close>

definition demo_cfg :: ordered_cfg where
  "demo_cfg = ordered_cfg_for 2 (100 * millisecond) second 0"

abbreviation (input) failing :: exchanged where
  "failing \<equiv> (None, 0, Some ErrEOF)"

text \<open>C6: ordered failover answers as specified. With two or more upstreams, what it returns is the
  first real answer to arrive (NXDOMAIN included); when none arrives, the first SERVFAIL, else the
  first REFUSED, with the index of the upstream that gave it; else an error: never neither a message
  nor an error. With a single upstream its answer is passed on as it came, a SERVFAIL or REFUSED
  included, with index 0, and when there is no message or an error, these two with index -1; with no
  upstream the result is the error that says so.\<close>

theorem forward_ordered_verdict:
  assumes "forward_ordered n per timeout (m, rtt, err) now es = Inr r"
  shows "if n = 0 then r = (None, 0, -1, Some ErrNoUpstreams)
    else if n = 1 then r = (if m \<noteq> None \<and> err = None then (m, rtt, 0, None) else (m, rtt, -1, err))
    else (\<exists>pre e post. es = pre @ e # post \<and> verdict (pre @ [e]) r)"
proof (cases "2 \<le> n")
  case True
  let ?c = "ordered_cfg_for n per timeout now"
  have "run_events (ordered_step ?c) es (ordered_start ?c now) = Inr r"
    using assms True by (auto simp: forward_ordered_def Let_def split: if_splits)
  moreover have "o_soft (ordered_start ?c now) = None"
    by (auto simp: ordered_start_def Let_def dest!: advance_keeps split: option.split)
  ultimately have "\<exists>pre e post. es = pre @ e # post \<and> verdict (pre @ [e]) r" by (rule of.run_returns)
  with True show ?thesis by simp
next
  case False
  then have "n = 0 \<or> n = 1" by linarith
  with assms show ?thesis by (auto simp: forward_ordered_def exchange_only_def)
qed

theorem forward_ordered_verdict_witness:
  "\<exists>pre e post. [Arrived 0 failing 5, Arrived 1 (Some blank_msg, 7, None) 9] = pre @ e # post \<and>
     verdict (pre @ [e]) (Some blank_msg, 7, 1, None)"
proof -
  have "forward_ordered 2 0 second failing 0 [Arrived 0 failing 5, Arrived 1 (Some blank_msg, 7, None) 9]
      = Inr (Some blank_msg, 7, 1, None)"
    by code_simp
  from forward_ordered_verdict [OF this] show ?thesis by simp
qed

text \<open>The hedged strategy returns by the same rule.\<close>

theorem forward_hedged_verdict:
  assumes "2 \<le> n" and "forward_hedged n first es = Inr r"
  shows "\<exists>pre e post. es = pre @ e # post \<and> verdict (pre @ [e]) r"
proof -
  have "run_events (hedged_step n) es hedged_start = Inr r"
    using assms by (auto simp: forward_hedged_def split: if_splits)
  moreover have "h_soft hedged_start = None" by (simp add: hedged_start_def)
  ultimately show ?thesis by (rule hf.run_returns)
qed

theorem forward_hedged_verdict_witness:
  "\<exists>pre e post. [Timer 3, Arrived 1 (Some blank_msg, 7, None) 9] = pre @ e # post \<and>
     verdict (pre @ [e]) (Some blank_msg, 7, 1, None)"
proof (rule forward_hedged_verdict)
  show "forward_hedged 2 failing [Timer 3, Arrived 1 (Some blank_msg, 7, None) 9] = Inr (Some blank_msg, 7, 1, None)"
    by code_simp
qed simp

text \<open>C7: ordered failover returns: whatever the upstreams do, the loop wakes up at most
  \<open>2 n - 1\<close> times without returning, its timer is never set past the query's deadline, and a
  timer that fires at the deadline makes it return.\<close>

theorem ordered_returns:
  assumes "ordered_trace c es s" and "1 \<le> oc_ups c"
  shows "length es \<le> 2 * oc_ups c - 1 \<and> o_timer s \<le> oc_deadline c \<and>
    (oc_deadline c \<le> t \<longrightarrow> (\<exists>r. ordered_step c (Timer t) s = Inr r))"
proof -
  note inv = ordered_trace_invariant [OF assms]
  then have "length (arrived es) \<le> o_next s"
    using card_mono [of "{..<o_next s}" "set (arrived es)"] by (simp add: distinct_card)
  with inv have "length (arrived es) + timers es < oc_ups c + oc_ups c" by linarith
  then have "length es \<le> 2 * oc_ups c - 1" by (simp add: length_arrived_timers)
  moreover have "\<exists>r. ordered_step c (Timer t) s = Inr r" if "oc_deadline c \<le> t"
  proof -
    have "advance c t s = None" using that by (simp add: advance_None)
    then have "ordered_step c (Timer t) s = Inr (give_up (o_soft s) (o_last_err s) ErrUpstreamTimeout)" by simp
    then show ?thesis by blast
  qed
  ultimately show ?thesis using inv by blast
qed

theorem ordered_returns_witness:
  "length ([] :: event list) \<le> 2 * oc_ups demo_cfg - 1 \<and> o_timer (ordered_start demo_cfg 0) \<le> oc_deadline demo_cfg \<and>
    (\<exists>r. ordered_step demo_cfg (Timer second) (ordered_start demo_cfg 0) = Inr r)"
proof -
  have tr: "ordered_trace demo_cfg [] (ordered_start demo_cfg 0)"
    by (rule ordered_trace.started) (simp add: demo_cfg_def ordered_cfg_for_def)
  have "1 \<le> oc_ups demo_cfg" and "oc_deadline demo_cfg \<le> second" by (simp_all add: demo_cfg_def ordered_cfg_for_def)
  then show ?thesis using ordered_returns [OF tr, of second] by simp
qed

text \<open>Failover is strict: an event starts at most one upstream, the next in the list, and only
  when the timer of the current one fires or the current one fails or answers
  SERVFAIL/REFUSED; nothing is started once the query's budget is spent.\<close>

theorem ordered_one_at_a_time:
  assumes "ordered_step c e s = Inl s'"
  shows "o_next s' = o_next s \<or>
    (o_next s' = o_next s + 1 \<and> o_next s < oc_ups c \<and> ev_time e < oc_deadline c \<and>
     (\<forall>i r t. e = Arrived i r t \<longrightarrow> i + 1 = o_next s \<and> real_answer e = None))"
proof (cases e)
  case (Timer t)
  with assms timer_step [of c t s s'] show ?thesis by (simp add: started_one_def)
next
  case (Arrived i r t)
  have "real_answer e = None"
  proof (rule ccontr)
    assume "real_answer e \<noteq> None"
    then obtain x where "real_answer e = Some x" by blast
    from of.step_real [OF this, of c s] assms show False by simp
  qed
  with Arrived assms arrived_step [of c i r t s s'] show ?thesis by (auto simp: started_one_def)
qed

theorem ordered_one_at_a_time_witness:
  "\<exists>s'. ordered_step demo_cfg (Arrived 0 failing 5) (ordered_start demo_cfg 0) = Inl s' \<and> o_next s' = 2 \<and>
     (o_next s' = o_next (ordered_start demo_cfg 0) \<or> o_next (ordered_start demo_cfg 0) < oc_ups demo_cfg)"
proof -
  have "\<exists>s'. ordered_step demo_cfg (Arrived 0 failing 5) (ordered_start demo_cfg 0) = Inl s' \<and> o_next s' = 2"
    by (simp add: ordered_start_def demo_cfg_def ordered_cfg_for_def advance_def Let_def)
  then obtain s' where s': "ordered_step demo_cfg (Arrived 0 failing 5) (ordered_start demo_cfg 0) = Inl s'"
    and n: "o_next s' = 2" by blast
  from ordered_one_at_a_time [OF s'] s' n show ?thesis by blast
qed

text \<open>When the last upstream fails while an earlier one is still out, and the earlier one then
  fails too, the loop keeps waiting with nothing in flight until the query's deadline.\<close>

theorem ordered_waits_for_nothing:
  assumes "t1 < oc_deadline c" and "oc_ups c = 2" and "t0 < oc_deadline c"
  shows "\<exists>s. run_events (ordered_step c) [Timer t1, Arrived 1 (None, r1, Some e1) t2, Arrived 0 (None, r0, Some e0) t3]
       (ordered_start c t0) = Inl s \<and> o_pending s = 0 \<and> o_next s = oc_ups c \<and> o_timer s = oc_deadline c"
  using assms by (simp add: ordered_start_def advance_def Let_def)

theorem ordered_waits_for_nothing_witness:
  "\<exists>s. run_events (ordered_step demo_cfg)
      [Timer (100 * millisecond), Arrived 1 (None, 0, Some ErrEOF) (101 * millisecond),
       Arrived 0 (None, 0, Some ErrEOF) (102 * millisecond)] (ordered_start demo_cfg 0) = Inl s \<and>
     o_pending s = 0 \<and> o_next s = oc_ups demo_cfg \<and> o_timer s = oc_deadline demo_cfg"
  by (rule ordered_waits_for_nothing) (simp_all add: demo_cfg_def ordered_cfg_for_def)

end
