(* ===== verification/Dns_Cache.thy ===== *)
theory Dns_Cache
  imports Dns_Msg
begin

section \<open>The answer cache (internal/cache/cache.go)\<close>

text \<open>
  Sixteen shards of entries keyed by question and DNSSEC variant. A locked section of the code
  is one function on the shard; the clock is an argument, and so is the order in which Go's
  map iteration visits a shard when an entry has to be evicted. \<open>Get\<close> reads under the read
  lock and, past the stale window, deletes under the write lock after looking again: these are
  \<open>cache_get\<close> and the step \<open>drop_expired\<close> it ends with.
\<close>

record entry =
  e_msg :: msg
  e_expires :: time
  e_ttl :: duration

type_synonym cshard = "(string \<times> entry) list"

record cache =
  c_shards :: "cshard list"
  c_max :: int
  c_min_ttl :: duration
  c_max_ttl :: duration

definition cache_shards :: nat where [go_string]: "cache_shards = 16"
definition eviction_sample :: nat where [go_string]: "eviction_sample = 8"
definition stale_grace :: duration where [go_string]: "stale_grace = 30 * second"
definition stale_ttl :: u32 where [go_string]: "stale_ttl = 30"
definition refresh_ahead_divisor :: int where [go_string]: "refresh_ahead_divisor = 10"

definition new_cache :: "int \<Rightarrow> duration \<Rightarrow> duration \<Rightarrow> cache" where
  [model]: "new_cache max_items min_ttl max_ttl =
     (let n = (if max_items \<le> 0 then 10000 else max_items) in
      \<lparr>c_shards = replicate cache_shards [], c_max = (n + int cache_shards - 1) div int cache_shards,
       c_min_ttl = min_ttl, c_max_ttl = max_ttl\<rparr>)"

subsection \<open>Keys\<close>

definition append_lower :: "string \<Rightarrow> string \<Rightarrow> string" where
  [go_string]: "append_lower buf s = buf @ map lower_char s"

definition key_for :: "question \<Rightarrow> bool \<Rightarrow> string" where
  [go_string]: "key_for q dnssec =
     append_lower ((if dnssec then ''+'' else []) @ format_nat (unat (q_class q)) @ ''/''
        @ format_nat (unat (q_type q)) @ ''/'') (q_name q)"

definition shard_for :: "cache \<Rightarrow> string \<Rightarrow> cshard" where
  [model]: "shard_for c k = at_shard shard_index (c_shards c) k"

subsection \<open>TTLs\<close>

definition adjust_section :: "u32 \<Rightarrow> rr list \<Rightarrow> rr list" where
  [model]: "adjust_section ttl rrs = map (\<lambda>r. r\<lparr>rr_ttl := ttl\<rparr>) rrs"

definition adjust_ttl :: "u32 \<Rightarrow> msg \<Rightarrow> msg" where
  [model]: "adjust_ttl ttl m = m\<lparr>
     m_answer := adjust_section ttl (m_answer m),
     m_ns := adjust_section ttl (m_ns m),
     m_extra := map (\<lambda>r. if rr_type r \<noteq> type_OPT then r\<lparr>rr_ttl := ttl\<rparr> else r) (m_extra m)\<rparr>"

fun lowest :: "u32 list \<Rightarrow> u32 \<times> bool \<Rightarrow> u32 \<times> bool" where
  "lowest [] (mn, found) = (mn, found)"
| "lowest (t # ts) (mn, found) = lowest ts (if t < mn then (t, True) else (mn, found))"

fun soa_minimum :: "rr \<Rightarrow> u32 list" where
  "soa_minimum r = (case rr_data r of SoaData _ _ _ _ _ _ mt \<Rightarrow> [mt] | _ \<Rightarrow> [])"

definition ttl_for :: "cache \<Rightarrow> msg \<Rightarrow> duration" where
  [model]: "ttl_for c m =
     (let (mn, found) = lowest (map rr_ttl (m_answer m)) (-1, False);
          (mn, found) = (if found then (mn, found) else lowest (concat (map soa_minimum (m_ns m))) (mn, found))
      in if \<not> found then 0
         else let d = uint mn * second;
                  d = (if d < c_min_ttl c then c_min_ttl c else d)
              in if c_max_ttl c > 0 \<and> d > c_max_ttl c then c_max_ttl c else d)"

subsection \<open>Get\<close>

definition drop_expired :: "string \<Rightarrow> time \<Rightarrow> cshard \<Rightarrow> cshard" where
  [model]: "drop_expired k now items =
     (case map_of items k of
        Some e2 \<Rightarrow> if now > e_expires e2 + stale_grace then AList.delete k items else items
      | None \<Rightarrow> items)"

definition serve :: "entry \<Rightarrow> time \<Rightarrow> (msg \<times> bool) option" where
  [model]: "serve e now =
     (if now > e_expires e + stale_grace then None
      else if now > e_expires e then Some (adjust_ttl stale_ttl (e_msg e), True)
      else let left = e_expires e - now in
           Some (adjust_ttl (word_of_int (left div second)) (e_msg e),
                 e_ttl e > 0 \<and> left \<le> e_ttl e div refresh_ahead_divisor))"

definition cache_get :: "cache \<Rightarrow> question \<Rightarrow> bool \<Rightarrow> time \<Rightarrow> (msg \<times> bool) option \<times> cache" where
  [model]: "cache_get c q dnssec now =
     (let k = key_for q dnssec in
      case map_of (shard_for c k) k of
        None \<Rightarrow> (None, c)
      | Some e \<Rightarrow>
          if now > e_expires e + stale_grace
          then (None, c\<lparr>c_shards := upd_shard shard_index k (drop_expired k now) (c_shards c)\<rparr>)
          else (serve e now, c))"

subsection \<open>Set\<close>

text \<open>\<open>visit\<close> is the order in which Go iterates over the shard's map.\<close>

fun pick_victim :: "cshard \<Rightarrow> string \<times> time \<Rightarrow> string" where
  "pick_victim [] (victim, soonest) = victim"
| "pick_victim ((k, e) # rest) (victim, soonest) =
     pick_victim rest (if victim = [] \<or> e_expires e < soonest then (k, e_expires e) else (victim, soonest))"

definition evict_locked :: "(cshard \<Rightarrow> cshard) \<Rightarrow> cshard \<Rightarrow> cshard" where
  [model]: "evict_locked visit items =
     (let victim = pick_victim (take eviction_sample (visit items)) ([], 0) in
      if victim = [] then items else AList.delete victim items)"

definition set_locked :: "int \<Rightarrow> (cshard \<Rightarrow> cshard) \<Rightarrow> string \<Rightarrow> entry \<Rightarrow> cshard \<Rightarrow> cshard" where
  [model]: "set_locked cap visit k e items =
     AList.update k e
       (if map_of items k = None \<and> int (length items) \<ge> cap then evict_locked visit items else items)"

definition cache_set ::
  "cache \<Rightarrow> question \<Rightarrow> bool \<Rightarrow> msg option \<Rightarrow> time \<Rightarrow> (cshard \<Rightarrow> cshard) \<Rightarrow> cache" where
  [model]: "cache_set c q dnssec msg now visit =
     (case msg of
        None \<Rightarrow> c
      | Some m \<Rightarrow>
          let ttl = ttl_for c m in
          if ttl \<le> 0 then c
          else let k = key_for q dnssec in
               c\<lparr>c_shards := upd_shard shard_index k
                   (set_locked (c_max c) visit k \<lparr>e_msg = m, e_expires = now + ttl, e_ttl = ttl\<rparr>)
                   (c_shards c)\<rparr>)"

definition cache_len :: "cache \<Rightarrow> nat" where
  "cache_len c = sum_list (map length (c_shards c))"

subsection \<open>Well-formed caches\<close>

text \<open>Every shard is a map with non-empty keys and holds at most its share of the entries.\<close>

definition shard_ok :: "int \<Rightarrow> cshard \<Rightarrow> bool" where
  "shard_ok cap s \<longleftrightarrow> is_map s \<and> [] \<notin> fst ` set s \<and> int (length s) \<le> cap"

definition cache_ok :: "cache \<Rightarrow> bool" where
  "cache_ok c \<longleftrightarrow> length (c_shards c) = 16 \<and> 1 \<le> c_max c \<and> (\<forall>s\<in>set (c_shards c). shard_ok (c_max c) s)"

lemma new_cache_ok: "cache_ok (new_cache n mn mx)"
  by (auto simp: cache_ok_def new_cache_def cache_shards_def shard_ok_def Let_def)

lemma key_for_nonempty [simp]: "key_for q dnssec \<noteq> []"
  by (simp add: key_for_def append_lower_def)

lemma pick_victim_in: "pick_victim xs (v, t) = v \<or> pick_victim xs (v, t) \<in> fst ` set xs"
proof (induction xs arbitrary: v t)
  case (Cons x xs)
  obtain k e where x: "x = (k, e)" by (cases x)
  show ?case
    using Cons.IH [of k "e_expires e"] Cons.IH [of v t] by (auto simp: x)
qed simp

lemma pick_victim_nonempty: "[] \<notin> fst ` set xs \<Longrightarrow> v \<noteq> [] \<Longrightarrow> pick_victim xs (v, t) \<noteq> []"
  using pick_victim_in [of xs v t] by metis

text \<open>The sample is not empty when the shard is not, so an eviction really frees a place.\<close>

lemma evict_locked_frees:
  assumes "visits visit" and "shard_ok cap s" and "s \<noteq> []"
  shows "length (evict_locked visit s) = length s - 1"
    and "\<exists>k\<in>fst ` set s. evict_locked visit s = AList.delete k s"
proof -
  let ?xs = "take eviction_sample (visit s)"
  have sub: "fst ` set ?xs \<subseteq> fst ` set s"
    using visits_set [OF assms(1), of s] set_take_subset [of eviction_sample "visit s"] by auto
  have "visit s \<noteq> []"
    using assms(1,3) unfolding visits_def by (metis mset_zero_iff)
  then have xs: "?xs \<noteq> []" by (simp add: eviction_sample_def)
  have ne: "[] \<notin> fst ` set s" using assms(2) by (simp add: shard_ok_def)
  let ?v = "pick_victim ?xs ([], 0)"
  obtain x e r where xs': "?xs = (x, e) # r" using xs by (cases ?xs) auto
  have "x \<noteq> []" and "[] \<notin> fst ` set r" using sub ne unfolding xs' by force+
  then have v: "?v \<noteq> []"
    using pick_victim_nonempty [of r x "e_expires e"] by (simp add: xs')
  then have vin: "?v \<in> fst ` set s"
    using pick_victim_in [of ?xs "[]" 0] sub by blast
  have ev: "evict_locked visit s = AList.delete ?v s"
    using v by (simp add: evict_locked_def Let_def)
  show "\<exists>k\<in>fst ` set s. evict_locked visit s = AList.delete k s"
    using ev vin by blast
  show "length (evict_locked visit s) = length s - 1"
    using ev vin assms(2) length_delete_map [of s ?v] by (simp add: shard_ok_def)
qed

lemma shard_ok_delete: "shard_ok cap s \<Longrightarrow> shard_ok cap (AList.delete k s)"
  using length_delete_le [of k s] is_map_delete [of s k] set_delete_subset [of k s]
  unfolding shard_ok_def by fastforce

lemma shard_ok_evict: "shard_ok cap s \<Longrightarrow> shard_ok cap (evict_locked visit s)"
  by (simp add: evict_locked_def Let_def shard_ok_delete)

lemma set_locked_ok:
  assumes "visits visit" and "shard_ok cap s" and "1 \<le> cap" and "k \<noteq> []"
  shows "shard_ok cap (set_locked cap visit k e s)"
proof (cases "map_of s k = None \<and> int (length s) \<ge> cap")
  case True
  then have "s \<noteq> []" using assms(3) by auto
  from evict_locked_frees [OF assms(1,2) this]
  have "int (length (evict_locked visit s)) + 1 \<le> cap"
    using True \<open>s \<noteq> []\<close> assms(2) by (cases s) (auto simp: shard_ok_def)
  with True shard_ok_evict [OF assms(2), of visit] assms(4) show ?thesis
    by (auto simp: set_locked_def shard_ok_def is_map_update length_update dom_update)
next
  case False
  with assms show ?thesis
    by (auto simp: set_locked_def shard_ok_def is_map_update length_update dom_update
        map_of_eq_None_iff)
qed

lemma shard_for_ok: "cache_ok c \<Longrightarrow> shard_ok (c_max c) (shard_for c k)"
  unfolding cache_ok_def shard_for_def using fnv.at_shard_in by blast

lemma cache_set_ok:
  assumes ok: "cache_ok c" and v: "visits visit"
  shows "cache_ok (cache_set c q dnssec msg now visit)"
proof -
  let ?k = "key_for q dnssec"
  have "\<forall>s\<in>set (upd_shard shard_index ?k (set_locked (c_max c) visit ?k e) (c_shards c)). shard_ok (c_max c) s"
    for e
    using ok v by (intro fnv.all_shards_upd) (auto simp: cache_ok_def intro: set_locked_ok)
  with ok show ?thesis
    by (simp add: cache_set_def Let_def cache_ok_def split: option.split)
qed

lemma drop_expired_ok: "shard_ok cap s \<Longrightarrow> shard_ok cap (drop_expired k now s)"
  by (auto simp: drop_expired_def shard_ok_delete split: option.split)

lemma cache_get_ok: "cache_ok c \<Longrightarrow> cache_ok (snd (cache_get c q dnssec now))"
proof -
  assume ok: "cache_ok c"
  have "\<forall>s\<in>set (upd_shard shard_index k (drop_expired k now) (c_shards c)). shard_ok (c_max c) s" for k
    using ok by (intro fnv.all_shards_upd) (auto simp: cache_ok_def intro: drop_expired_ok)
  with ok show ?thesis
    by (simp add: cache_get_def Let_def cache_ok_def split: option.split)
qed

subsection \<open>What an answer store promises\<close>

text \<open>
  The resolver only uses the cache through \<open>Get\<close> and \<open>Set\<close>. \<open>answer_store\<close> is that
  interface: \<open>stored\<close> is the entry held for a question, and two questions are the same when
  class, type, DNSSEC variant and name up to ASCII case agree.
\<close>

definition same_question :: "question \<Rightarrow> bool \<Rightarrow> question \<Rightarrow> bool \<Rightarrow> bool" where
  "same_question q d q' d' \<longleftrightarrow>
     d = d' \<and> q_class q = q_class q' \<and> q_type q = q_type q' \<and> to_lower (q_name q) = to_lower (q_name q')"

datatype store_op =
    OpGet question bool time
  | OpSet question bool "msg option" time "cshard \<Rightarrow> cshard"

fun store_step ::
  "('c \<Rightarrow> question \<Rightarrow> bool \<Rightarrow> time \<Rightarrow> (msg \<times> bool) option \<times> 'c)
   \<Rightarrow> ('c \<Rightarrow> question \<Rightarrow> bool \<Rightarrow> msg option \<Rightarrow> time \<Rightarrow> (cshard \<Rightarrow> cshard) \<Rightarrow> 'c)
   \<Rightarrow> store_op \<Rightarrow> 'c \<Rightarrow> 'c" where
  "store_step get put (OpGet q d t) c = snd (get c q d t)"
| "store_step get put (OpSet q d m t visit) c = put c q d m t visit"

fun op_fair :: "store_op \<Rightarrow> bool" where
  "op_fair (OpSet q d m t visit) = visits visit"
| "op_fair (OpGet q d t) = True"

definition put_by :: "(msg \<Rightarrow> duration) \<Rightarrow> store_op \<Rightarrow> question \<Rightarrow> bool \<Rightarrow> entry \<Rightarrow> bool" where
  "put_by life op q d e =
     (case op of
        OpSet q' d' (Some m) t v \<Rightarrow>
          same_question q' d' q d \<and> life m > 0 \<and>
          e = \<lparr>e_msg = m, e_expires = t + life m, e_ttl = life m\<rparr>
      | _ \<Rightarrow> False)"

locale answer_store =
  fixes ok :: "'c \<Rightarrow> bool"
    and stored :: "'c \<Rightarrow> question \<Rightarrow> bool \<Rightarrow> entry option"
    and get :: "'c \<Rightarrow> question \<Rightarrow> bool \<Rightarrow> time \<Rightarrow> (msg \<times> bool) option \<times> 'c"
    and put :: "'c \<Rightarrow> question \<Rightarrow> bool \<Rightarrow> msg option \<Rightarrow> time \<Rightarrow> (cshard \<Rightarrow> cshard) \<Rightarrow> 'c"
    and life :: "'c \<Rightarrow> msg \<Rightarrow> duration"
  assumes get_serves: "fst (get c q d t) = Option.bind (stored c q d) (\<lambda>e. serve e t)"
    and get_keeps: "ok c \<Longrightarrow> stored (snd (get c q d t)) q' d' \<in> {stored c q' d', None}"
    and get_ok: "ok c \<Longrightarrow> ok (snd (get c q d t))"
    and get_life: "life (snd (get c q d t)) m = life c m"
    and put_same: "ok c \<Longrightarrow> life c m > 0 \<Longrightarrow> same_question q d q' d' \<Longrightarrow>
      stored (put c q d (Some m) t v) q' d' = Some \<lparr>e_msg = m, e_expires = t + life c m, e_ttl = life c m\<rparr>"
    and put_other: "ok c \<Longrightarrow> \<not> same_question q d q' d' \<Longrightarrow>
      stored (put c q d mo t v) q' d' \<in> {stored c q' d', None}"
    and put_none: "put c q d None t v = c"
    and put_uncached: "life c m \<le> 0 \<Longrightarrow> put c q d (Some m) t v = c"
    and put_ok: "ok c \<Longrightarrow> visits v \<Longrightarrow> ok (put c q d mo t v)"
    and put_life: "life (put c q d mo t v) m = life c m"
begin

lemma step_ok: "ok c \<Longrightarrow> op_fair op \<Longrightarrow> ok (store_step get put op c)"
  by (cases op) (auto intro: get_ok put_ok)

lemma step_life: "life (store_step get put op c) m = life c m"
  by (cases op) (auto simp: get_life put_life)

lemma run_ok: "ok c \<Longrightarrow> \<forall>op\<in>set ops. op_fair op \<Longrightarrow> ok (fold (store_step get put) ops c)"
  by (induction ops arbitrary: c) (auto simp: step_ok)

lemma run_life: "life (fold (store_step get put) ops c) m = life c m"
  by (induction ops arbitrary: c) (auto simp: step_life)

text \<open>What is stored for a question was put there for the same question.\<close>

lemma step_stored:
  assumes "ok c" and "stored (store_step get put op c) q d = Some e"
  shows "stored c q d = Some e \<or> put_by (life c) op q d e"
proof (cases op)
  case (OpGet q' d' t)
  then show ?thesis using assms get_keeps [OF assms(1), of q' d' t q d] by auto
next
  case (OpSet q' d' mo t v)
  show ?thesis
  proof (cases mo)
    case None
    then show ?thesis using assms(2) by (simp add: OpSet put_none)
  next
    case (Some m)
    consider "life c m \<le> 0" | "life c m > 0" "same_question q' d' q d" | "\<not> same_question q' d' q d"
      by fastforce
    then show ?thesis
    proof cases
      case 1
      then show ?thesis using assms(2) by (simp add: OpSet Some put_uncached)
    next
      case 2
      then show ?thesis
        using put_same [OF assms(1) 2, of t v] assms(2) by (simp add: OpSet Some put_by_def)
    next
      case 3
      then show ?thesis
        using put_other [OF assms(1) 3, of mo t v] assms(2) by (simp add: OpSet)
    qed
  qed
qed

lemma run_stored:
  assumes "ok c" and "\<forall>op\<in>set ops. op_fair op"
    and "stored (fold (store_step get put) ops c) q d = Some e"
  shows "stored c q d = Some e \<or> (\<exists>op\<in>set ops. put_by (life c) op q d e)"
  using assms
proof (induction ops arbitrary: c)
  case (Cons op ops)
  let ?c = "store_step get put op c"
  have "ok ?c" using Cons.prems(1,2) step_ok by simp
  moreover have "life ?c = life c" by (rule ext) (rule step_life)
  ultimately have "stored ?c q d = Some e \<or> (\<exists>op\<in>set ops. put_by (life c) op q d e)"
    using Cons.IH [of ?c] Cons.prems(2,3) by simp
  then show ?case
    using step_stored [OF Cons.prems(1), of op q d e] by auto
qed simp

end

subsection \<open>The cache keeps the promises\<close>

lemma first_slash_eq:
  assumes "CHR ''/'' \<notin> set x" and "CHR ''/'' \<notin> set x'"
  shows "x @ CHR ''/'' # y = x' @ CHR ''/'' # y' \<longleftrightarrow> x = x' \<and> y = y'"
proof
  assume eq: "x @ CHR ''/'' # y = x' @ CHR ''/'' # y'"
  have "length x = length x'"
    using index_byte_append_left [OF assms(1), of y] index_byte_append_left [OF assms(2), of y'] eq
    by simp
  with eq show "x = x' \<and> y = y'" by simp
qed simp

lemma key_for_eq_iff: "key_for q d = key_for q' d' \<longleftrightarrow> same_question q d q' d'"
proof -
  define rest where "rest q = format_nat (unat (q_class q)) @ ''/'' @ format_nat (unat (q_type q))
      @ ''/'' @ map lower_char (q_name q)" for q :: question
  have key: "key_for q d = (if d then CHR ''+'' # rest q else rest q)" for q d
    by (simp add: key_for_def append_lower_def rest_def)
  have plus: "CHR ''+'' # r \<noteq> rest q" for r q
    using format_nat_no_plus [of "unat (q_class q)"]
    by (cases "format_nat (unat (q_class q))") (auto simp: rest_def)
  have "rest q = rest q' \<longleftrightarrow> same_question q d q' d" for d
    by (simp add: rest_def first_slash_eq format_nat_no_slash same_question_def to_lower_def word_unat_eq_iff)
  then show ?thesis
    using plus plus [symmetric] by (auto simp: key same_question_def)
qed

definition stored_entry :: "cache \<Rightarrow> question \<Rightarrow> bool \<Rightarrow> entry option" where
  "stored_entry c q d = map_of (shard_for c (key_for q d)) (key_for q d)"

lemma ttl_for_shards [simp]: "ttl_for (c\<lparr>c_shards := x\<rparr>) m = ttl_for c m"
  by (simp add: ttl_for_def Let_def split: prod.split)

lemma map_of_evict: "j \<noteq> k \<Longrightarrow> map_of (evict_locked visit s) j \<in> {map_of s j, None}"
  by (simp add: evict_locked_def Let_def delete_conv')

lemma map_of_set_locked:
  "map_of (set_locked cap visit k e s) j = (if j = k then Some e
     else map_of (if map_of s k = None \<and> int (length s) \<ge> cap then evict_locked visit s else s) j)"
  by (simp add: set_locked_def update_conv')

lemma map_of_drop_expired: "map_of (drop_expired k now s) j \<in> {map_of s j, None}"
  by (auto simp: drop_expired_def delete_conv' split: option.split)

lemma shard_for_upd:
  assumes "length (c_shards c) = 16"
  shows "shard_for (c\<lparr>c_shards := upd_shard shard_index k f (c_shards c)\<rparr>) j =
    (if shard_index j = shard_index k then f (shard_for c k) else shard_for c j)"
  using fnv.at_upd [OF assms, of k f j] by (simp add: shard_for_def)

lemma shard_for_cong: "shard_index j = shard_index k \<Longrightarrow> shard_for c j = shard_for c k"
  by (simp add: shard_for_def at_shard_def)

interpretation ac: answer_store cache_ok stored_entry cache_get cache_set ttl_for
proof
  fix c q d t
  show "fst (cache_get c q d t) = Option.bind (stored_entry c q d) (\<lambda>e. serve e t)"
    by (auto simp: cache_get_def stored_entry_def serve_def Let_def split: option.split)
next
  fix c q d t q' d'
  assume ok: "cache_ok c"
  have len: "length (c_shards c) = 16" using ok by (simp add: cache_ok_def)
  have "stored_entry (c\<lparr>c_shards := upd_shard shard_index k (drop_expired k t) (c_shards c)\<rparr>) q' d'
      \<in> {stored_entry c q' d', None}" for k
    using map_of_drop_expired [of k t "shard_for c k" "key_for q' d'"]
      shard_for_cong [of "key_for q' d'" k c]
    by (auto simp: stored_entry_def shard_for_upd [OF len])
  then show "stored_entry (snd (cache_get c q d t)) q' d' \<in> {stored_entry c q' d', None}"
    by (auto simp: cache_get_def Let_def split: option.split)
next
  fix c q d t
  show "cache_ok c \<Longrightarrow> cache_ok (snd (cache_get c q d t))" by (rule cache_get_ok)
next
  fix c q d t m
  show "ttl_for (snd (cache_get c q d t)) m = ttl_for c m"
    by (simp add: cache_get_def Let_def split: option.split)
next
  fix c m q d q' d' t v
  assume "cache_ok c" and "ttl_for c m > 0" and same: "same_question q d q' d'"
  moreover have "key_for q' d' = key_for q d"
    using same by (simp add: key_for_eq_iff [symmetric])
  ultimately show "stored_entry (cache_set c q d (Some m) t v) q' d' =
      Some \<lparr>e_msg = m, e_expires = t + ttl_for c m, e_ttl = ttl_for c m\<rparr>"
    by (simp add: stored_entry_def cache_set_def Let_def shard_for_upd cache_ok_def map_of_set_locked)
next
  fix c q d q' d' mo t v
  assume ok: "cache_ok c" and diff: "\<not> same_question q d q' d'"
  then have k: "key_for q' d' \<noteq> key_for q d" and len: "length (c_shards c) = 16"
    using key_for_eq_iff [of q d q' d'] by (auto simp: cache_ok_def)
  have "stored_entry (c\<lparr>c_shards := upd_shard shard_index (key_for q d)
        (set_locked (c_max c) v (key_for q d) e) (c_shards c)\<rparr>) q' d' \<in> {stored_entry c q' d', None}" for e
    using map_of_evict [OF k, of v "shard_for c (key_for q d)"]
      shard_for_cong [of "key_for q' d'" "key_for q d" c] k
    by (auto simp: stored_entry_def shard_for_upd [OF len] map_of_set_locked)
  then show "stored_entry (cache_set c q d mo t v) q' d' \<in> {stored_entry c q' d', None}"
    by (auto simp: cache_set_def Let_def split: option.split)
next
  fix c q d mo t v m
  show "ttl_for (cache_set c q d mo t v) m = ttl_for c m"
    by (simp add: cache_set_def Let_def split: option.split)
next
  show "cache_ok c \<Longrightarrow> visits v \<Longrightarrow> cache_ok (cache_set c q d mo t v)" for c q d mo t v
    by (rule cache_set_ok)
qed (simp_all add: cache_set_def)

subsection \<open>Properties\<close>

definition cache_run :: "cache \<Rightarrow> store_op list \<Rightarrow> cache" where
  "cache_run c ops = fold (store_step cache_get cache_set) ops c"

lemma cache_run_max: "c_max (cache_run c ops) = c_max c"
proof -
  have "c_max (store_step cache_get cache_set op c) = c_max c" for op c
    by (cases op) (simp_all add: cache_get_def cache_set_def Let_def split: option.split)
  then show ?thesis
    unfolding cache_run_def by (induction ops arbitrary: c) auto
qed

lemma cache_run_ok: "cache_ok c \<Longrightarrow> \<forall>op\<in>set ops. op_fair op \<Longrightarrow> cache_ok (cache_run c ops)"
  unfolding cache_run_def by (rule ac.run_ok)

lemma sum_list_bounded: "\<forall>x\<in>set xs. int (f x) \<le> b \<Longrightarrow> int (sum_list (map f xs)) \<le> int (length xs) * b"
  by (induction xs) (auto simp: algebra_simps)

text \<open>KeyFor and the shard hash separate exactly the questions that differ in class, type,
  DNSSEC variant or name (ASCII letters folded), so a signed answer never meets an unsigned query.\<close>

theorem cache_key_separates: "key_for q d = key_for q' d' \<longleftrightarrow> same_question q d q' d'"
  by (rule key_for_eq_iff)

text \<open>C5: after any sequence of Gets and Sets on a new cache, a hit is a message that was Set for
  the same question and DNSSEC variant, with only its TTLs rewritten, and it is served no later
  than 30 seconds after its (clamped) TTL ran out.\<close>

theorem cache_hit_was_set:
  assumes "\<forall>op\<in>set ops. op_fair op"
    and "fst (cache_get (cache_run (new_cache n mn mx) ops) q d t) = Some (m, refresh)"
  shows "\<exists>q' d' m' t' v ttl. OpSet q' d' (Some m') t' v \<in> set ops \<and> same_question q' d' q d \<and>
    m = adjust_ttl ttl m' \<and> t \<le> t' + ttl_for (new_cache n mn mx) m' + 30 * second"
proof -
  let ?c = "new_cache n mn mx"
  obtain e where e: "stored_entry (cache_run ?c ops) q d = Some e" and s: "serve e t = Some (m, refresh)"
    using assms(2) by (auto simp: ac.get_serves bind_eq_Some_conv)
  have "stored_entry ?c q d = None"
    by (simp add: stored_entry_def shard_for_def at_shard_def new_cache_def cache_shards_def Let_def)
  then obtain op where op: "op \<in> set ops" and put: "put_by (ttl_for ?c) op q d e"
    using ac.run_stored [OF new_cache_ok assms(1), of n mn mx q d e] e by (auto simp: cache_run_def)
  then obtain q' d' m' t' v where o: "op = OpSet q' d' (Some m') t' v" and same: "same_question q' d' q d"
    and em: "e_msg e = m'" and ee: "e_expires e = t' + ttl_for ?c m'"
    by (auto simp: put_by_def split: store_op.splits option.splits)
  obtain ttl where "m = adjust_ttl ttl m'" and "t \<le> e_expires e + 30 * second"
    using s em by (auto simp: serve_def stale_grace_def Let_def split: if_splits)
  then have "OpSet q' d' (Some m') t' v \<in> set ops \<and> same_question q' d' q d \<and>
      m = adjust_ttl ttl m' \<and> t \<le> t' + ttl_for ?c m' + 30 * second"
    using op o same ee by simp
  then show ?thesis by (intro exI)
qed

definition demo_question :: question where
  "demo_question = \<lparr>q_name = ''a.'', q_type = 1, q_class = 1\<rparr>"

definition demo_answer :: msg where
  "demo_answer = blank_msg\<lparr>m_answer := [\<lparr>rr_name = ''a.'', rr_type = 1, rr_class = 1, rr_ttl = 60,
     rr_data = AddrA [1,2,3,4]\<rparr>]\<rparr>"

definition demo_ops :: "store_op list" where
  "demo_ops = [OpSet demo_question False (Some demo_answer) 0 (\<lambda>s. s)]"

lemma demo_get:
  "fst (cache_get (cache_run (new_cache 100 0 0) demo_ops) demo_question False (50 * second))
     = Some (adjust_ttl 10 demo_answer, False)"
  by code_simp

theorem cache_hit_was_set_witness:
  "\<exists>q' d' m' t' v ttl. OpSet q' d' (Some m') t' v \<in> set demo_ops \<and>
    same_question q' d' demo_question False \<and> adjust_ttl 10 demo_answer = adjust_ttl ttl m' \<and>
    50 * second \<le> t' + ttl_for (new_cache 100 0 0) m' + 30 * second"
  by (rule cache_hit_was_set [OF _ demo_get]) (simp add: demo_ops_def)

text \<open>Get right after Set, by elapsed time: fresh answers carry the whole seconds left and ask
  for a refresh in the last tenth of their TTL; for 30 seconds past expiry the answer is stale,
  carries TTL 30 and asks for a refresh; later the entry is gone.\<close>

theorem cache_get_after_set:
  assumes "cache_ok c" and "ttl_for c m > 0" and "same_question q d q' d'"
  shows "fst (cache_get (cache_set c q d (Some m) t0 v) q' d' t) =
    (let age = t - t0; ttl = ttl_for c m in
     if age > ttl + 30 * second then None
     else if age > ttl then Some (adjust_ttl 30 m, True)
     else Some (adjust_ttl (word_of_int ((ttl - age) div second)) m, ttl - age \<le> ttl div 10))"
  using assms
  by (simp add: ac.get_serves ac.put_same serve_def Let_def stale_grace_def stale_ttl_def
      refresh_ahead_divisor_def algebra_simps)

theorem cache_get_after_set_witness:
  "fst (cache_get (cache_set (new_cache 100 0 0) demo_question False (Some demo_answer) 0 (\<lambda>s. s))
      demo_question False (70 * second)) = Some (adjust_ttl 30 demo_answer, True)"
proof -
  have ttl: "ttl_for (new_cache 100 0 0) demo_answer = 60 * second" by code_simp
  show ?thesis
    using cache_get_after_set [OF new_cache_ok, of 100 0 0 demo_answer demo_question False demo_question False 0
        "\<lambda>s. s" "70 * second"]
    by (simp add: ttl same_question_def)
qed

text \<open>No sequence of operations lets a shard exceed its share, so the cache never holds more
  than 15 entries over the configured size.\<close>

theorem cache_capacity:
  assumes "\<forall>op\<in>set ops. op_fair op" and "0 < n"
  shows "int (cache_len (cache_run (new_cache n mn mx) ops)) \<le> n + 15"
proof -
  let ?c = "cache_run (new_cache n mn mx) ops"
  have ok: "cache_ok ?c" using assms(1) by (intro cache_run_ok new_cache_ok)
  then have "int (cache_len ?c) \<le> 16 * c_max ?c"
    using sum_list_bounded [of "c_shards ?c" length "c_max ?c"]
    by (auto simp: cache_ok_def shard_ok_def cache_len_def)
  also have "c_max ?c = (n + 15) div 16"
    using assms(2) by (simp add: cache_run_max new_cache_def cache_shards_def Let_def)
  finally show ?thesis by simp
qed

theorem cache_capacity_witness: "int (cache_len (cache_run (new_cache 1 0 0) demo_ops)) \<le> 1 + 15"
  by (rule cache_capacity) (simp_all add: demo_ops_def)

lemma pick_victim_soonest:
  "\<lbrakk>[] \<notin> fst ` set xs; v \<noteq> []\<rbrakk> \<Longrightarrow>
   \<exists>t'. (pick_victim xs (v, t) = v \<and> t' = t \<or>
        (\<exists>e. (pick_victim xs (v, t), e) \<in> set xs \<and> e_expires e = t')) \<and>
       t' \<le> t \<and> (\<forall>x\<in>set xs. t' \<le> e_expires (snd x))"
proof (induction xs arbitrary: v t)
  case (Cons x xs)
  obtain k e where x: "x = (k, e)" by (cases x)
  have k: "k \<noteq> []" "[] \<notin> fst ` set xs" using Cons.prems x by auto
  show ?case
  proof (cases "e_expires e < t")
    case True
    then have p: "pick_victim (x # xs) (v, t) = pick_victim xs (k, e_expires e)" by (simp add: x)
    obtain t' where "pick_victim xs (k, e_expires e) = k \<and> t' = e_expires e \<or>
        (\<exists>e'. (pick_victim xs (k, e_expires e), e') \<in> set xs \<and> e_expires e' = t')"
      and "t' \<le> e_expires e" "\<forall>x\<in>set xs. t' \<le> e_expires (snd x)"
      using Cons.IH [OF k(2,1), of "e_expires e"] by blast
    with True show ?thesis unfolding p by (intro exI [of _ t']) (auto simp: x)
  next
    case False
    then have p: "pick_victim (x # xs) (v, t) = pick_victim xs (v, t)" using Cons.prems by (simp add: x)
    obtain t' where "pick_victim xs (v, t) = v \<and> t' = t \<or>
        (\<exists>e'. (pick_victim xs (v, t), e') \<in> set xs \<and> e_expires e' = t')"
      and "t' \<le> t" "\<forall>x\<in>set xs. t' \<le> e_expires (snd x)"
      using Cons.IH [OF k(2) Cons.prems(2), of t] by blast
    with False show ?thesis unfolding p by (intro exI [of _ t']) (auto simp: x)
  qed
qed simp

text \<open>A full shard makes room by dropping exactly one entry: of the at most eight entries
  sampled, one that expires first.\<close>

theorem cache_evicts_soonest:
  assumes "visits visit" and "shard_ok cap s" and "s \<noteq> []"
  shows "\<exists>k e. (k, e) \<in> set (take 8 (visit s)) \<and>
    (\<forall>x\<in>set (take 8 (visit s)). e_expires e \<le> e_expires (snd x)) \<and>
    evict_locked visit s = AList.delete k s \<and> length (evict_locked visit s) = length s - 1"
proof -
  have set: "set (visit s) = set s" by (rule visits_set [OF assms(1)])
  then have "take 8 (visit s) \<noteq> []" using assms(3) by auto
  then obtain x e r where xs: "take 8 (visit s) = (x, e) # r" by (metis neq_Nil_conv surj_pair)
  have sub: "set ((x, e) # r) \<subseteq> set s"
    unfolding xs [symmetric] set [symmetric] by (rule set_take_subset)
  then have ne: "x \<noteq> []" "[] \<notin> fst ` set r"
    using assms(2) unfolding shard_ok_def by force+
  let ?v = "pick_victim r (x, e_expires e)"
  obtain t' where t': "?v = x \<and> t' = e_expires e \<or> (\<exists>e'. (?v, e') \<in> set r \<and> e_expires e' = t')"
    and min: "t' \<le> e_expires e" "\<forall>x\<in>set r. t' \<le> e_expires (snd x)"
    using pick_victim_soonest [OF ne(2,1), of "e_expires e"] by blast
  then obtain e' where e': "(?v, e') \<in> set ((x, e) # r)" "e_expires e' = t'" by auto
  have "?v \<noteq> []" by (rule pick_victim_nonempty [OF ne(2,1)])
  then have ev: "evict_locked visit s = AList.delete ?v s"
    by (simp add: evict_locked_def eviction_sample_def xs Let_def)
  show ?thesis
    unfolding xs by (rule exI [of _ ?v], rule exI [of _ e'])
      (use e' min ev evict_locked_frees(1) [OF assms] in auto)
qed

definition demo_shard :: cshard where
  "demo_shard = [(''k'', \<lparr>e_msg = demo_answer, e_expires = 5, e_ttl = 1\<rparr>)]"

theorem cache_evicts_soonest_witness:
  "\<exists>k e. (k, e) \<in> set (take 8 demo_shard) \<and> (\<forall>x\<in>set (take 8 demo_shard). e_expires e \<le> e_expires (snd x)) \<and>
    evict_locked (\<lambda>s. s) demo_shard = AList.delete k demo_shard \<and>
    length (evict_locked (\<lambda>s. s) demo_shard) = length demo_shard - 1"
  by (rule cache_evicts_soonest [where cap = 1]) (simp_all add: demo_shard_def shard_ok_def)

end
