(* ===== verification/Single_Flight.thy ===== *)
theory Single_Flight
  imports Dns_Cache
begin

section \<open>Coalescing concurrent forwards (internal/resolver/singleflight.go)\<close>

text \<open>
  \<open>Do\<close> is three sections with the exchange in between: entering under the shard's lock
  (joining the call that is in the map, or putting a new one there), publishing the result
  (\<open>wg.Done\<close>), and taking the call out of the map again. Calls are shared objects, so they
  have references; \<open>sf_res\<close> is what a call's fields hold once it is done. \<open>sf_key\<close> and
  \<open>sf_open\<close> record what the leaders' stack frames know: the key each call is for, and the
  calls whose leader has not returned yet.
\<close>

record 'r flights =
  sf_shards :: "(string \<times> nat) list list"
  sf_res :: "nat \<Rightarrow> 'r option"
  sf_fresh :: nat
  sf_key :: "nat \<Rightarrow> string"
  sf_open :: "nat list"

definition forward_key :: "question \<Rightarrow> bool \<Rightarrow> string" where
  [go_string]: "forward_key q dnssec =
     (if dnssec then ''+'' else []) @ format_nat (unat (q_class q)) @ ''/''
       @ format_nat (unat (q_type q)) @ ''/'' @ map lower_char (q_name q)"

definition new_flights :: "'r flights" where
  [model]: "new_flights = \<lparr>sf_shards = replicate 16 [], sf_res = (\<lambda>_. None), sf_fresh = 0,
     sf_key = (\<lambda>_. []), sf_open = []\<rparr>"

text \<open>The call joined, and whether the caller leads it.\<close>

definition sf_enter :: "string \<Rightarrow> 'r flights \<Rightarrow> (nat \<times> bool) \<times> 'r flights" where
  [model]: "sf_enter key s =
     (case map_of (at_shard shard_index (sf_shards s) key) key of
        Some c \<Rightarrow> ((c, False), s)
      | None \<Rightarrow>
          let c = sf_fresh s in
          ((c, True),
           s\<lparr>sf_shards := upd_shard shard_index key (AList.update key c) (sf_shards s),
             sf_fresh := c + 1, sf_key := (sf_key s)(c := key), sf_open := sf_open s @ [c],
             sf_res := (sf_res s)(c := None)\<rparr>))"

definition sf_publish :: "nat \<Rightarrow> 'r \<Rightarrow> 'r flights \<Rightarrow> 'r flights" where
  [model]: "sf_publish c r s = s\<lparr>sf_res := (sf_res s)(c := Some r)\<rparr>"

definition sf_leave :: "nat \<Rightarrow> 'r flights \<Rightarrow> 'r flights" where
  [model]: "sf_leave c s =
     s\<lparr>sf_shards := upd_shard shard_index (sf_key s c) (AList.delete (sf_key s c)) (sf_shards s),
       sf_open := remove1 c (sf_open s)\<rparr>"

text \<open>Any number of callers, interleaved; a leader publishes once and then leaves.\<close>

inductive sf_step :: "'r flights \<Rightarrow> 'r flights \<Rightarrow> bool" where
  entered: "sf_step s (snd (sf_enter key s))"
| published: "c \<in> set (sf_open s) \<Longrightarrow> sf_res s c = None \<Longrightarrow> sf_step s (sf_publish c r s)"
| left: "c \<in> set (sf_open s) \<Longrightarrow> sf_res s c \<noteq> None \<Longrightarrow> sf_step s (sf_leave c s)"

inductive_cases sf_stepE: "sf_step s s'"

definition in_flight :: "'r flights \<Rightarrow> string \<Rightarrow> nat option" where
  "in_flight s key = map_of (at_shard shard_index (sf_shards s) key) key"

text \<open>The map holds exactly the calls whose leaders are still running, one per key.\<close>

definition sf_ok :: "'r flights \<Rightarrow> bool" where
  "sf_ok s \<longleftrightarrow> length (sf_shards s) = 16 \<and> distinct (sf_open s) \<and> (\<forall>c\<in>set (sf_open s). c < sf_fresh s) \<and>
     (\<forall>key c. in_flight s key = Some c \<longleftrightarrow> c \<in> set (sf_open s) \<and> sf_key s c = key) \<and>
     (\<forall>c. c < sf_fresh s \<longrightarrow> c \<in> set (sf_open s) \<or> sf_res s c \<noteq> None)"

lemma new_flights_ok: "sf_ok new_flights"
  by (simp add: sf_ok_def new_flights_def in_flight_def at_shard_def)

lemma in_flight_upd:
  assumes "length (sf_shards s) = 16" and "sf_shards s' = upd_shard shard_index key f (sf_shards s)"
    and "\<And>m j. j \<noteq> key \<Longrightarrow> map_of (f m) j = map_of m j"
  shows "in_flight s' j = (if j = key then map_of (f (at_shard shard_index (sf_shards s) key)) key else in_flight s j)"
  using fnv.at_upd_same [OF assms(1), of key f]
    fnv.lookup_upd_other [OF assms(1), of map_of f key j] assms(2,3)
  by (auto simp: in_flight_def)

lemma sf_enter_ok:
  assumes "sf_ok s"
  shows "sf_ok (snd (sf_enter key s))"
proof (cases "in_flight s key")
  case (Some c)
  with assms show ?thesis by (simp add: sf_enter_def in_flight_def)
next
  case None
  let ?c = "sf_fresh s"
  let ?s = "snd (sf_enter key s)"
  have s: "?s = s\<lparr>sf_shards := upd_shard shard_index key (AList.update key ?c) (sf_shards s),
      sf_fresh := ?c + 1, sf_key := (sf_key s)(?c := key), sf_open := sf_open s @ [?c],
      sf_res := (sf_res s)(?c := None)\<rparr>"
    using None by (simp add: sf_enter_def in_flight_def Let_def)
  have look: "in_flight ?s j = (if j = key then Some ?c else in_flight s j)" for j
    using assms unfolding s
    by (subst in_flight_upd [where key = key and f = "AList.update key ?c"])
      (auto simp: sf_ok_def update_conv')
  have free: "\<not> (c \<in> set (sf_open s) \<and> sf_key s c = key)" for c
    using assms None unfolding sf_ok_def by (metis option.distinct(1))
  show ?thesis
    using assms free unfolding sf_ok_def look by (auto simp: s less_Suc_eq)
qed

lemma sf_publish_ok: "sf_ok s \<Longrightarrow> sf_ok (sf_publish c r s)"
  by (simp add: sf_ok_def sf_publish_def in_flight_def)

lemma sf_leave_ok:
  assumes "sf_ok s" and "c \<in> set (sf_open s)" and "sf_res s c \<noteq> None"
  shows "sf_ok (sf_leave c s)"
proof -
  let ?s = "sf_leave c s"
  have look: "in_flight ?s j = (if j = sf_key s c then None else in_flight s j)" for j
    using assms(1)
    by (subst in_flight_upd [where key = "sf_key s c" and f = "AList.delete (sf_key s c)"])
      (auto simp: sf_ok_def sf_leave_def delete_conv')
  have only: "d = c" if "d \<in> set (sf_open s)" "sf_key s d = sf_key s c" for d
    using assms(1,2) that unfolding sf_ok_def by (metis option.inject)
  show ?thesis
    using assms only unfolding sf_ok_def look by (auto simp: sf_leave_def set_remove1_eq distinct_remove1)
qed

lemma sf_step_ok: "sf_step s s' \<Longrightarrow> sf_ok s \<Longrightarrow> sf_ok s'"
  by (induction rule: sf_step.induct) (simp_all add: sf_enter_ok sf_publish_ok sf_leave_ok)

lemma sf_reach_ok: "sf_step\<^sup>*\<^sup>* new_flights s \<Longrightarrow> sf_ok s"
  by (induction rule: rtranclp_induct) (auto simp: new_flights_ok sf_step_ok)

subsection \<open>Properties\<close>

text \<open>Forwards are coalesced under the cache's own keys, so two queries share an exchange
  exactly when they would share a cache entry.\<close>

theorem forward_key_is_cache_key: "forward_key q d = key_for q d"
  by (simp add: forward_key_def key_for_def append_lower_def)

text \<open>C11: at any moment at most one exchange runs for a key, and a caller that arrives while one
  runs joins it instead of starting another.\<close>

theorem one_exchange_per_key:
  assumes "sf_step\<^sup>*\<^sup>* new_flights s"
  shows "(\<forall>c\<in>set (sf_open s). \<forall>d\<in>set (sf_open s). sf_key s c = sf_key s d \<longrightarrow> c = d) \<and>
    (snd (fst (sf_enter key s)) \<longleftrightarrow> \<not> (\<exists>c\<in>set (sf_open s). sf_key s c = key)) \<and>
    (\<not> snd (fst (sf_enter key s)) \<longrightarrow> fst (fst (sf_enter key s)) \<in> set (sf_open s) \<and>
       sf_key s (fst (fst (sf_enter key s))) = key \<and> snd (sf_enter key s) = s)"
proof -
  have ok: "sf_ok s" by (rule sf_reach_ok [OF assms])
  then have look: "in_flight s k = Some c \<longleftrightarrow> c \<in> set (sf_open s) \<and> sf_key s c = k" for k c
    by (simp add: sf_ok_def)
  have "c = d" if "c \<in> set (sf_open s)" "d \<in> set (sf_open s)" "sf_key s c = sf_key s d" for c d
    using look [of "sf_key s c" c] look [of "sf_key s c" d] that by simp
  moreover have "snd (fst (sf_enter key s)) \<longleftrightarrow> in_flight s key = None"
    by (simp add: sf_enter_def in_flight_def Let_def split: option.split)
  moreover have "in_flight s key = Some c \<Longrightarrow> sf_enter key s = ((c, False), s)" for c
    by (simp add: sf_enter_def in_flight_def)
  moreover have "in_flight s key = None \<longleftrightarrow> \<not> (\<exists>c\<in>set (sf_open s). sf_key s c = key)"
    using look [of key] by (cases "in_flight s key") fastforce+
  ultimately show ?thesis using look by (cases "in_flight s key") (auto 0 3)
qed

theorem one_exchange_per_key_witness:
  "\<not> snd (fst (sf_enter ''k'' (snd (sf_enter ''k'' (new_flights :: nat flights)))))"
proof -
  let ?s = "snd (sf_enter ''k'' (new_flights :: nat flights))"
  have "sf_step\<^sup>*\<^sup>* new_flights ?s" by (rule r_into_rtranclp) (rule sf_step.entered)
  from one_exchange_per_key [OF this, of "''k''"]
  have "snd (fst (sf_enter ''k'' ?s)) \<longleftrightarrow> \<not> (\<exists>c\<in>set (sf_open ?s). sf_key ?s c = ''k'')" by blast
  moreover have "sf_open ?s = [0] \<and> sf_key ?s 0 = ''k''"
    by (simp add: sf_enter_def new_flights_def at_shard_def Let_def)
  ultimately show ?thesis by simp
qed

text \<open>A caller that waits gets what its leader published: the result of a call, once there, never
  changes, and a call that has left the map has one.\<close>

theorem flight_result_final:
  assumes "sf_step\<^sup>*\<^sup>* new_flights s" and "c < sf_fresh s" and "sf_step\<^sup>*\<^sup>* s s'"
  shows "(sf_res s c = Some r \<longrightarrow> sf_res s' c = Some r) \<and> sf_key s' c = sf_key s c \<and>
    (c \<notin> set (sf_open s) \<longrightarrow> sf_res s c \<noteq> None)"
proof -
  have one: "sf_fresh x \<le> sf_fresh y \<and> (c < sf_fresh x \<longrightarrow> sf_key y c = sf_key x c \<and>
      (sf_res x c = Some r \<longrightarrow> sf_res y c = Some r))" if "sf_step x y" for x y :: "'a flights"
    using that
    by (induction rule: sf_step.induct)
      (auto simp: sf_enter_def sf_publish_def sf_leave_def Let_def split: option.splits)
  have "sf_fresh s \<le> sf_fresh s' \<and> (sf_res s c = Some r \<longrightarrow> sf_res s' c = Some r) \<and> sf_key s' c = sf_key s c"
    using assms(3)
  proof (induction rule: rtranclp_induct)
    case (step y z)
    then show ?case using one [OF step.hyps(2)] assms(2) by force
  qed simp
  moreover have "c \<notin> set (sf_open s) \<Longrightarrow> sf_res s c \<noteq> None"
    using sf_reach_ok [OF assms(1)] assms(2) unfolding sf_ok_def by blast
  ultimately show ?thesis by blast
qed

theorem flight_result_final_witness:
  "sf_res (sf_leave 0 (sf_publish 0 (7 :: nat) (snd (sf_enter ''k'' new_flights)))) 0 = Some 7"
proof -
  let ?a = "snd (sf_enter ''k'' (new_flights :: nat flights))"
  let ?b = "sf_publish 0 7 ?a"
  have o: "sf_open ?a = [0]" "sf_res ?a 0 = None" "sf_fresh ?a = 1" "sf_res ?b 0 = Some 7" "sf_open ?b = [0]" "sf_fresh ?b = 1"
    by (simp_all add: sf_enter_def new_flights_def at_shard_def Let_def sf_publish_def)
  have ab: "sf_step ?a ?b" by (rule sf_step.published) (simp_all add: o)
  have "sf_step new_flights ?a" by (rule sf_step.entered)
  with ab have r: "sf_step\<^sup>*\<^sup>* new_flights ?b" by (meson r_into_rtranclp rtranclp.rtrancl_into_rtrancl)
  have "sf_step\<^sup>*\<^sup>* ?b (sf_leave 0 ?b)"
    by (rule r_into_rtranclp, rule sf_step.left) (simp_all add: o)
  from flight_result_final [OF r _ this, of 0 7] show ?thesis by (simp add: o)
qed

end
