(* ===== verification/Health.thy ===== *)
theory Health
  imports Upstreams
begin

section \<open>Activity timestamps and the readiness probe (internal/resolver/health.go)\<close>

text \<open>
  The resolver remembers, in unix milliseconds, when it last answered a query and when a
  forward last succeeded and failed. The probe name is answered by every node itself.
\<close>

definition health_resolution_ms :: int where [model]: "health_resolution_ms = 1000"

definition probe_name :: string where [go_string]: "probe_name = ''probe.mazedns.internal.''"

record health_state =
  hs_last_query :: int
  hs_last_fwd_ok :: int
  hs_last_fwd_err :: int
  hs_last_err_text :: "string option"

definition new_health :: health_state where
  [model]: "new_health = \<lparr>hs_last_query = 0, hs_last_fwd_ok = 0, hs_last_fwd_err = 0, hs_last_err_text = None\<rparr>"

definition unix_milli :: "time \<Rightarrow> int" where
  [model]: "unix_milli t = t div millisecond"

definition touch :: "int \<Rightarrow> time \<Rightarrow> int" where
  [model]: "touch a now = (let ms = unix_milli now in if ms - a \<ge> health_resolution_ms then ms else a)"

definition forward_failed :: "go_error option \<Rightarrow> time \<Rightarrow> health_state \<Rightarrow> health_state" where
  [model]: "forward_failed err now h =
     h\<lparr>hs_last_err_text := Some (case err of None \<Rightarrow> ''no answer'' | Some e \<Rightarrow> err_text e),
       hs_last_fwd_err := unix_milli now\<rparr>"

text \<open>The zero time of Go is \<open>None\<close>.\<close>

definition ms_time :: "int \<Rightarrow> time option" where
  [model]: "ms_time ms = (if ms = 0 then None else Some (ms * millisecond))"

record health_view =
  hv_last_query :: "time option"
  hv_last_forward_ok :: "time option"
  hv_last_forward_error :: "time option"
  hv_forward_error :: string

definition health_of :: "health_state \<Rightarrow> health_view" where
  [model]: "health_of h = \<lparr>hv_last_query = ms_time (hs_last_query h),
     hv_last_forward_ok = ms_time (hs_last_fwd_ok h), hv_last_forward_error = ms_time (hs_last_fwd_err h),
     hv_forward_error = (case hs_last_err_text h of None \<Rightarrow> [] | Some t \<Rightarrow> t)\<rparr>"

definition is_probe :: "msg \<Rightarrow> bool" where
  [model]: "is_probe req \<longleftrightarrow> (case m_question req of [q] \<Rightarrow> equal_fold (q_name q) probe_name | _ \<Rightarrow> False)"

definition probe_response :: "dns_lib \<Rightarrow> msg \<Rightarrow> msg" where
  [model]: "probe_response L req =
     (let m = (lib_set_reply L req)\<lparr>m_authoritative := True\<rparr>; q = hd (m_question req) in
      if q_type q = type_A
      then m\<lparr>m_answer := m_answer m @ [\<lparr>rr_name = q_name q, rr_type = type_A, rr_class = class_INET, rr_ttl = 0,
             rr_data = AddrA [127, 0, 0, 1]\<rparr>]\<rparr>
      else m)"

subsection \<open>Properties\<close>

fun touches :: "int \<Rightarrow> time list \<Rightarrow> int" where
  "touches a [] = a"
| "touches a (t # ts) = touches (touch a t) ts"

text \<open>The timestamp lags the last event by less than a second and never runs ahead of it.\<close>

lemma touch_bounds:
  "a \<le> unix_milli t \<Longrightarrow> touch a t \<le> unix_milli t \<and> unix_milli t - touch a t < 1000 \<and> a \<le> touch a t"
  by (auto simp: touch_def Let_def health_resolution_ms_def)

text \<open>Over any sequence of events in the order of time, a health timestamp, refreshed at most once a
  second, is never later than the last event and less than a second behind it.\<close>

theorem touches_lag:
  assumes "sorted (a0 # map unix_milli (ts @ [t]))"
  shows "touches a0 (ts @ [t]) \<le> unix_milli t \<and> unix_milli t - touches a0 (ts @ [t]) < 1000"
  using assms
proof (induction ts arbitrary: a0)
  case Nil
  then show ?case using touch_bounds [of a0 t] by simp
next
  case (Cons u us)
  then have "sorted (touch a0 u # map unix_milli (us @ [t]))"
    using touch_bounds [of a0 u] by (auto intro: order_trans)
  from Cons.IH [OF this] show ?case by simp
qed

theorem touches_lag_witness:
  "touches 0 ([5 * second] @ [5 * second + 3 * millisecond]) \<le> unix_milli (5 * second + 3 * millisecond)"
proof -
  have "sorted (0 # map unix_milli ([5 * second] @ [5 * second + 3 * millisecond]))"
    by (simp add: unix_milli_def)
  from touches_lag [OF this] show ?thesis by blast
qed

end
