(* ===== verification/Rate_Limit.thy ===== *)
theory Rate_Limit
  imports Go_Prelude
begin

section \<open>The per-client rate limiter (internal/resolver/ratelimit.go)\<close>

text \<open>
  A fixed window of one minute per client: the first query of a window opens it, and later
  queries count up to the limit. The windows live in 16 shards; opening a window in a
  shard of more than 625 clients sweeps up to 256 of them, in the order of Go's map
  iteration, and drops those that are over. A nil limiter is \<open>None\<close>.
\<close>

record rl_entry =
  rl_start :: time
  rl_count :: int

type_synonym rl_shard = "(string \<times> rl_entry) list"

record rate_limiter =
  rl_limit :: int
  rl_window :: duration
  rl_shards :: "rl_shard list"

definition new_rate_limiter :: "int \<Rightarrow> rate_limiter" where
  [model]: "new_rate_limiter qpm = \<lparr>rl_limit = qpm, rl_window = minute, rl_shards = replicate 16 []\<rparr>"

definition sweep_entry :: "duration \<Rightarrow> time \<Rightarrow> string \<times> rl_entry \<Rightarrow> rl_shard \<Rightarrow> rl_shard" where
  [model]: "sweep_entry w now kv s = (if now - rl_start (snd kv) \<ge> w then AList.delete (fst kv) s else s)"

definition rl_sweep :: "duration \<Rightarrow> time \<Rightarrow> (rl_shard \<Rightarrow> rl_shard) \<Rightarrow> rl_shard \<Rightarrow> rl_shard" where
  [model]: "rl_sweep w now visit s = fold (sweep_entry w now) (take 256 (visit s)) s"

definition allow_locked ::
  "int \<Rightarrow> duration \<Rightarrow> string \<Rightarrow> time \<Rightarrow> (rl_shard \<Rightarrow> rl_shard) \<Rightarrow> rl_shard \<Rightarrow> bool \<times> rl_shard" where
  [model]: "allow_locked limit w client now visit s =
     (let open_window =
        (let s' = AList.update client \<lparr>rl_start = now, rl_count = 1\<rparr> s in
         (True, if length s' > 10000 div 16 then rl_sweep w now visit s' else s')) in
      case map_of s client of
        None \<Rightarrow> open_window
      | Some e \<Rightarrow>
          if now - rl_start e \<ge> w then open_window
          else if rl_count e \<ge> limit then (False, s)
          else (True, AList.update client (e\<lparr>rl_count := rl_count e + 1\<rparr>) s))"

definition allow ::
  "rate_limiter option \<Rightarrow> string \<Rightarrow> time \<Rightarrow> (rl_shard \<Rightarrow> rl_shard) \<Rightarrow> bool \<times> rate_limiter option" where
  [model]: "allow lim client now visit =
     (case lim of
        None \<Rightarrow> (True, None)
      | Some rl \<Rightarrow>
          if rl_limit rl \<le> 0 \<or> client = [] then (True, Some rl)
          else
            let locked = allow_locked (rl_limit rl) (rl_window rl) client now visit in
            (fst (locked (at_shard shard_index (rl_shards rl) client)),
             Some (rl\<lparr>rl_shards := upd_shard shard_index client (\<lambda>s. snd (locked s)) (rl_shards rl)\<rparr>)))"

subsection \<open>One client's window\<close>

text \<open>What a client sees of the limiter: its own window, whatever the sweeps do to the others.\<close>

definition window_of :: "rate_limiter \<Rightarrow> string \<Rightarrow> rl_entry option" where
  "window_of rl c = map_of (at_shard shard_index (rl_shards rl) c) c"

definition rl_ok :: "rate_limiter \<Rightarrow> bool" where
  "rl_ok rl \<longleftrightarrow> length (rl_shards rl) = 16 \<and> rl_limit rl > 0 \<and> rl_window rl > 0 \<and>
     (\<forall>s\<in>set (rl_shards rl). is_map s \<and> (\<forall>e\<in>snd ` set s. 0 < rl_count e \<and> rl_count e \<le> rl_limit rl))"

lemma new_rate_limiter_ok: "0 < n \<Longrightarrow> rl_ok (new_rate_limiter n)"
  by (simp add: rl_ok_def new_rate_limiter_def)

lemma sweep_entry_map: "is_map s \<Longrightarrow> is_map (sweep_entry w now kv s)"
  by (simp add: sweep_entry_def is_map_delete)

lemma sweep_entry_subset: "set (sweep_entry w now kv s) \<subseteq> set s"
  using set_delete_subset [of "fst kv" s] by (simp add: sweep_entry_def)

lemma sweep_entry_lookup:
  "map_of (sweep_entry w now (k', e') s) k =
     (if k = k' \<and> now - rl_start e' \<ge> w then None else map_of s k)"
  by (simp add: sweep_entry_def delete_conv')

lemma sweep_fold_map: "is_map s \<Longrightarrow> is_map (fold (sweep_entry w now) kvs s)"
  by (induction kvs arbitrary: s) (simp_all add: sweep_entry_map)

lemma sweep_fold_subset: "set (fold (sweep_entry w now) kvs s) \<subseteq> set s"
proof (induction kvs arbitrary: s)
  case (Cons kv kvs)
  show ?case using Cons.IH [of "sweep_entry w now kv s"] sweep_entry_subset [of w now kv s] by auto
qed simp

lemma sweep_fold_lookup:
  "map_of (fold (sweep_entry w now) kvs s) k =
     (if \<exists>e. (k, e) \<in> set kvs \<and> now - rl_start e \<ge> w then None else map_of s k)"
proof (induction kvs arbitrary: s)
  case (Cons kv kvs)
  obtain k' e' where kv: "kv = (k', e')" by (cases kv)
  have "map_of (fold (sweep_entry w now) (kv # kvs) s) k =
      (if \<exists>e. (k, e) \<in> set kvs \<and> now - rl_start e \<ge> w then None
       else if k = k' \<and> now - rl_start e' \<ge> w then None else map_of s k)"
    by (simp only: fold_simps Cons.IH kv sweep_entry_lookup)
  also have "\<dots> = (if \<exists>e. (k, e) \<in> set (kv # kvs) \<and> now - rl_start e \<ge> w then None else map_of s k)"
    unfolding kv by auto
  finally show ?case .
qed simp

lemma rl_sweep_fresh:
  assumes "visits visit" and "is_map s" and "map_of s k = Some e" and "now - rl_start e < w"
  shows "map_of (rl_sweep w now visit s) k = Some e"
proof -
  have "e' = e" if "(k, e') \<in> set (take 256 (visit s))" for e'
  proof -
    have "(k, e') \<in> set s"
      using that set_take_subset [of 256 "visit s"] visits_set [OF assms(1), of s] by auto
    then show "e' = e" using assms(2,3) by (simp add: map_of_is_SomeI)
  qed
  then have "\<not> (\<exists>e'. (k, e') \<in> set (take 256 (visit s)) \<and> now - rl_start e' \<ge> w)"
    using assms(4) by fastforce
  then show ?thesis
    unfolding rl_sweep_def sweep_fold_lookup using assms(3) by simp
qed

lemma rl_sweep_stale:
  "map_of (rl_sweep w now visit s) k \<in> {map_of s k, None}"
  by (simp add: rl_sweep_def sweep_fold_lookup)

text \<open>Every locked section keeps the shard a map of counts within the limit.\<close>

definition rl_shard_ok :: "int \<Rightarrow> rl_shard \<Rightarrow> bool" where
  "rl_shard_ok limit s \<longleftrightarrow> is_map s \<and> (\<forall>e\<in>snd ` set s. 0 < rl_count e \<and> rl_count e \<le> limit)"

lemma rl_shard_ok_update:
  "rl_shard_ok limit s \<Longrightarrow> 0 < rl_count e \<Longrightarrow> rl_count e \<le> limit \<Longrightarrow> rl_shard_ok limit (AList.update c e s)"
  using set_alist_update [of c e s] by (fastforce simp: rl_shard_ok_def is_map_update)

lemma rl_shard_ok_sweep: "rl_shard_ok limit s \<Longrightarrow> rl_shard_ok limit (rl_sweep w now visit s)"
  using sweep_fold_subset [of w now "take 256 (visit s)" s]
  by (auto simp: rl_shard_ok_def rl_sweep_def sweep_fold_map)

lemma rl_shard_ok_lookup: "rl_shard_ok limit s \<Longrightarrow> map_of s c = Some e \<Longrightarrow> 0 < rl_count e \<and> rl_count e \<le> limit"
  by (force simp: rl_shard_ok_def dest: map_of_SomeD)

lemma allow_locked_ok:
  assumes "0 < limit" and "rl_shard_ok limit s"
  shows "rl_shard_ok limit (snd (allow_locked limit w client now visit s))"
  using assms rl_shard_ok_lookup [OF assms(2), of client]
  by (auto simp: allow_locked_def Let_def rl_shard_ok_update rl_shard_ok_sweep split: option.split)

lemma rl_ok_shards: "rl_ok rl \<longleftrightarrow> length (rl_shards rl) = 16 \<and> rl_limit rl > 0 \<and> rl_window rl > 0 \<and>
    (\<forall>s\<in>set (rl_shards rl). rl_shard_ok (rl_limit rl) s)"
  by (simp add: rl_ok_def rl_shard_ok_def)

lemma allow_keeps:
  assumes ok: "rl_ok rl" and v: "visits v" and c: "c \<noteq> []"
  obtains rl' where "allow (Some rl) c t v =
      (fst (allow_locked (rl_limit rl) (rl_window rl) c t v (at_shard shard_index (rl_shards rl) c)), Some rl')"
    and "rl_ok rl'" and "rl_limit rl' = rl_limit rl" and "rl_window rl' = rl_window rl"
    and "\<And>d. window_of rl' d = map_of (if shard_index d = shard_index c
        then snd (allow_locked (rl_limit rl) (rl_window rl) c t v (at_shard shard_index (rl_shards rl) c))
        else at_shard shard_index (rl_shards rl) d) d"
proof -
  let ?f = "\<lambda>s. snd (allow_locked (rl_limit rl) (rl_window rl) c t v s)"
  let ?rl = "rl\<lparr>rl_shards := upd_shard shard_index c ?f (rl_shards rl)\<rparr>"
  have len: "length (rl_shards rl) = 16" and pos: "0 < rl_limit rl" using ok by (auto simp: rl_ok_def)
  have "rl_ok ?rl"
    using ok len fnv.all_shards_upd [OF len, of "rl_shard_ok (rl_limit rl)" ?f c] allow_locked_ok [OF pos]
    unfolding rl_ok_shards by simp
  moreover have "window_of ?rl d = map_of (if shard_index d = shard_index c
      then ?f (at_shard shard_index (rl_shards rl) c) else at_shard shard_index (rl_shards rl) d) d" for d
    using fnv.at_upd [OF len, of c ?f d] by (simp add: window_of_def)
  moreover have "allow (Some rl) c t v = (fst (allow_locked (rl_limit rl) (rl_window rl) c t v
      (at_shard shard_index (rl_shards rl) c)), Some ?rl)"
    using pos c by (simp add: allow_def Let_def)
  ultimately show ?thesis by (intro that [of ?rl]) simp_all
qed

lemma shard_is_map: "rl_ok rl \<Longrightarrow> is_map (at_shard shard_index (rl_shards rl) c)"
  using fnv.at_shard_in [of "rl_shards rl" c] by (auto simp: rl_ok_def)

lemma locked_open:
  assumes "map_of s c = None \<or> (\<exists>e. map_of s c = Some e \<and> t - rl_start e \<ge> w)"
    and "visits v" and "is_map s" and "0 < w"
  shows "fst (allow_locked limit w c t v s)"
    and "map_of (snd (allow_locked limit w c t v s)) c = Some \<lparr>rl_start = t, rl_count = 1\<rparr>"
proof -
  let ?s = "AList.update c \<lparr>rl_start = t, rl_count = 1\<rparr> s"
  have r: "allow_locked limit w c t v s = (True, if length ?s > 10000 div 16 then rl_sweep w t v ?s else ?s)"
    using assms(1) by (auto simp: allow_locked_def Let_def)
  show "fst (allow_locked limit w c t v s)" by (simp add: r)
  have "map_of (rl_sweep w t v ?s) c = Some \<lparr>rl_start = t, rl_count = 1\<rparr>"
    by (rule rl_sweep_fresh) (simp_all add: assms is_map_update update_conv')
  then show "map_of (snd (allow_locked limit w c t v s)) c = Some \<lparr>rl_start = t, rl_count = 1\<rparr>"
    by (simp add: r update_conv')
qed

lemma locked_count:
  assumes "map_of s c = Some e" and "t - rl_start e < w"
  shows "fst (allow_locked limit w c t v s) = (rl_count e < limit)"
    and "map_of (snd (allow_locked limit w c t v s)) c =
      Some (if rl_count e < limit then e\<lparr>rl_count := rl_count e + 1\<rparr> else e)"
  using assms by (simp_all add: allow_locked_def Let_def update_conv')

lemma locked_other_fresh:
  assumes "d \<noteq> c" and "map_of s d = Some e" and "t - rl_start e < w" and "visits v" and "is_map s"
  shows "map_of (snd (allow_locked limit w c t v s)) d = Some e"
proof -
  have "map_of (rl_sweep w t v (AList.update c x s)) d = Some e" for x
    by (rule rl_sweep_fresh) (simp_all add: assms is_map_update update_conv')
  then show ?thesis
    using assms(1,2) by (simp add: allow_locked_def Let_def update_conv' split: option.split)
qed

lemma locked_other_none:
  assumes "d \<noteq> c"
  shows "map_of (snd (allow_locked limit w c t v s)) d \<in> {map_of s d, None}"
  using assms rl_sweep_stale [of w t v "AList.update c x s" d for x]
  by (auto simp: allow_locked_def Let_def update_conv' split: option.split)

subsection \<open>How many queries a client gets\<close>

fun allowed :: "string \<Rightarrow> rate_limiter option \<Rightarrow> (string \<times> time \<times> (rl_shard \<Rightarrow> rl_shard)) list \<Rightarrow> int" where
  "allowed c lim [] = 0"
| "allowed c lim ((c', t, v) # calls) =
     (case allow lim c' t v of (yes, lim') \<Rightarrow> (if yes \<and> c' = c then 1 else 0) + allowed c lim' calls)"

fun asked :: "string \<Rightarrow> (string \<times> time \<times> (rl_shard \<Rightarrow> rl_shard)) list \<Rightarrow> int" where
  "asked c [] = 0"
| "asked c ((c', t, v) # calls) = (if c' = c then 1 else 0) + asked c calls"

definition calls_in :: "time \<Rightarrow> time \<Rightarrow> (string \<times> time \<times> (rl_shard \<Rightarrow> rl_shard)) list \<Rightarrow> bool" where
  "calls_in a b calls \<longleftrightarrow> (\<forall>(c, t, v)\<in>set calls. a \<le> t \<and> t < b \<and> visits v \<and> c \<noteq> [])"

lemma calls_in_Cons [simp]:
  "calls_in a b ((c, t, v) # calls) \<longleftrightarrow> a \<le> t \<and> t < b \<and> visits v \<and> c \<noteq> [] \<and> calls_in a b calls"
  by (simp add: calls_in_def)

lemma asked_nonneg [simp]: "0 \<le> asked c calls"
  by (induction calls) auto

text \<open>In an open window a client gets what is left of its limit, neither more nor less.\<close>

lemma allowed_in_window:
  assumes "rl_ok rl" and "window_of rl c = Some e" and "calls_in a (rl_start e + rl_window rl) calls"
  shows "allowed c (Some rl) calls = min (rl_limit rl - rl_count e) (asked c calls)"
  using assms
proof (induction calls arbitrary: rl e)
  case Nil
  then have "rl_count e \<le> rl_limit rl"
    using shard_is_map [of rl c] rl_shard_ok_lookup fnv.at_shard_in [of "rl_shards rl" c]
    unfolding rl_ok_shards window_of_def by blast
  then show ?case by simp
next
  case (Cons call calls)
  obtain c' t v where call: "call = (c', t, v)" by (cases call)
  have vis: "visits v" and c': "c' \<noteq> []" and t: "t - rl_start e < rl_window rl"
    using Cons.prems(3) by (auto simp: call)
  obtain rl' where al: "allow (Some rl) c' t v = (fst (allow_locked (rl_limit rl) (rl_window rl) c' t v
        (at_shard shard_index (rl_shards rl) c')), Some rl')"
    and ok': "rl_ok rl'" and same: "rl_limit rl' = rl_limit rl" "rl_window rl' = rl_window rl"
    and win: "\<And>d. window_of rl' d = map_of (if shard_index d = shard_index c'
        then snd (allow_locked (rl_limit rl) (rl_window rl) c' t v (at_shard shard_index (rl_shards rl) c'))
        else at_shard shard_index (rl_shards rl) d) d"
    by (rule allow_keeps [OF Cons.prems(1) vis c', of t]) blast
  have look: "map_of (at_shard shard_index (rl_shards rl) c) c = Some e"
    using Cons.prems(2) by (simp add: window_of_def)
  show ?case
  proof (cases "c' = c")
    case True
    note lc = locked_count [OF look t, of "rl_limit rl" v]
    let ?e = "if rl_count e < rl_limit rl then e\<lparr>rl_count := rl_count e + 1\<rparr> else e"
    have w: "window_of rl' c = Some ?e" using win [of c] lc(2) by (simp add: True)
    have "allowed c (Some rl') calls = min (rl_limit rl - rl_count ?e) (asked c calls)"
      using Cons.IH [OF ok' w] Cons.prems(3) by (simp add: call same)
    then show ?thesis using lc(1)
      by (cases "rl_count e < rl_limit rl")
        (use asked_nonneg [of c calls] in \<open>auto simp: call al [unfolded True] True min_def simp del: asked_nonneg\<close>)
  next
    case False
    have "window_of rl' c = Some e"
      using win [of c] look locked_other_fresh [OF False [symmetric] _ t vis shard_is_map [OF Cons.prems(1)]]
      by (auto simp: at_shard_def)
    from Cons.IH [OF ok' this] show ?thesis
      using Cons.prems(3) False by (simp add: call al same)
  qed
qed

lemma allowed_new_window:
  assumes "rl_ok rl" and "window_of rl c = None" and "calls_in a (a + rl_window rl) calls"
  shows "allowed c (Some rl) calls = min (rl_limit rl) (asked c calls)"
  using assms
proof (induction calls arbitrary: rl)
  case Nil
  then show ?case by (simp add: rl_ok_def)
next
  case (Cons call calls)
  obtain c' t v where call: "call = (c', t, v)" by (cases call)
  have vis: "visits v" and c': "c' \<noteq> []" and t: "a \<le> t"
    using Cons.prems(3) by (auto simp: call)
  obtain rl' where al: "allow (Some rl) c' t v = (fst (allow_locked (rl_limit rl) (rl_window rl) c' t v
        (at_shard shard_index (rl_shards rl) c')), Some rl')"
    and ok': "rl_ok rl'" and same: "rl_limit rl' = rl_limit rl" "rl_window rl' = rl_window rl"
    and win: "\<And>d. window_of rl' d = map_of (if shard_index d = shard_index c'
        then snd (allow_locked (rl_limit rl) (rl_window rl) c' t v (at_shard shard_index (rl_shards rl) c'))
        else at_shard shard_index (rl_shards rl) d) d"
    by (rule allow_keeps [OF Cons.prems(1) vis c', of t]) blast
  have look: "map_of (at_shard shard_index (rl_shards rl) c) c = None"
    using Cons.prems(2) by (simp add: window_of_def)
  have lim: "0 < rl_limit rl" "0 < rl_window rl" using Cons.prems(1) by (auto simp: rl_ok_def)
  show ?case
  proof (cases "c' = c")
    case True
    note lo = locked_open [OF disjI1 [OF look] vis shard_is_map [OF Cons.prems(1)] lim(2), of "rl_limit rl"]
    have w: "window_of rl' c = Some \<lparr>rl_start = t, rl_count = 1\<rparr>" using win [of c] lo(2) by (simp add: True)
    have "calls_in a (t + rl_window rl) calls"
      using Cons.prems(3) t by (fastforce simp: call calls_in_def)
    then have "allowed c (Some rl') calls = min (rl_limit rl - 1) (asked c calls)"
      using allowed_in_window [OF ok' w, of a calls] by (simp add: same)
    then show ?thesis using lo(1) lim by (simp add: call al [unfolded True] True)
  next
    case False
    have "window_of rl' c = None"
      using win [of c] look locked_other_none [OF False [symmetric], of "rl_limit rl" "rl_window rl" t v
          "at_shard shard_index (rl_shards rl) c'"]
      by (auto simp: at_shard_def)
    from Cons.IH [OF ok' this] show ?thesis
      using Cons.prems(3) False by (simp add: call al same)
  qed
qed

text \<open>From any state: at most what is left of an old window and one new window.\<close>

lemma allowed_any_window:
  assumes "rl_ok rl" and "calls_in a (a + rl_window rl) calls"
  shows "allowed c (Some rl) calls \<le>
    rl_limit rl + (case window_of rl c of Some e \<Rightarrow> rl_limit rl - rl_count e | None \<Rightarrow> 0)"
  using assms
proof (induction calls arbitrary: rl)
  case Nil
  have "0 < rl_limit rl" "\<And>e. window_of rl c = Some e \<Longrightarrow> rl_count e \<le> rl_limit rl"
    using Nil.prems rl_shard_ok_lookup fnv.at_shard_in [of "rl_shards rl" c]
    unfolding rl_ok_shards window_of_def by blast+
  then show ?case by (force split: option.split)
next
  case (Cons call calls)
  obtain c' t v where call: "call = (c', t, v)" by (cases call)
  have vis: "visits v" and c': "c' \<noteq> []" and t: "a \<le> t"
    using Cons.prems(2) by (auto simp: call)
  obtain rl' where al: "allow (Some rl) c' t v = (fst (allow_locked (rl_limit rl) (rl_window rl) c' t v
        (at_shard shard_index (rl_shards rl) c')), Some rl')"
    and ok': "rl_ok rl'" and same: "rl_limit rl' = rl_limit rl" "rl_window rl' = rl_window rl"
    and win: "\<And>d. window_of rl' d = map_of (if shard_index d = shard_index c'
        then snd (allow_locked (rl_limit rl) (rl_window rl) c' t v (at_shard shard_index (rl_shards rl) c'))
        else at_shard shard_index (rl_shards rl) d) d"
    by (rule allow_keeps [OF Cons.prems(1) vis c', of t]) blast
  have lim: "0 < rl_limit rl" "0 < rl_window rl" using Cons.prems(1) by (auto simp: rl_ok_def)
  have small: "rl_count e \<le> rl_limit rl" if "window_of rl c = Some e" for e
    using Cons.prems(1) that rl_shard_ok_lookup fnv.at_shard_in [of "rl_shards rl" c]
    unfolding rl_ok_shards window_of_def by blast
  have IH: "allowed c (Some rl') calls \<le> rl_limit rl +
      (case window_of rl' c of Some e \<Rightarrow> rl_limit rl - rl_count e | None \<Rightarrow> 0)"
    using Cons.IH [OF ok'] Cons.prems(2) by (simp add: call same split: option.splits)
  let ?s = "at_shard shard_index (rl_shards rl) c"
  show ?case
  proof (cases "c' = c")
    case True
    note [simp] = True and al = al [unfolded True]
    show ?thesis
    proof (cases "\<exists>e. window_of rl c = Some e \<and> t - rl_start e < rl_window rl")
      case True
      then obtain e where e: "window_of rl c = Some e" and fresh: "t - rl_start e < rl_window rl" by blast
      have "map_of ?s c = Some e" using e by (simp add: window_of_def)
      note lc = locked_count [OF this fresh, of "rl_limit rl" v]
      have "window_of rl' c = Some (if rl_count e < rl_limit rl then e\<lparr>rl_count := rl_count e + 1\<rparr> else e)"
        using win [of c] lc(2) by simp
      then show ?thesis using IH lc(1)
        by (cases "rl_count e < rl_limit rl") (auto simp: call al e)
    next
      case False
      then have "map_of ?s c = None \<or> (\<exists>e. map_of ?s c = Some e \<and> t - rl_start e \<ge> rl_window rl)"
        by (cases "map_of ?s c") (auto simp: window_of_def not_less)
      note lo = locked_open [OF this vis shard_is_map [OF Cons.prems(1)] lim(2), of "rl_limit rl"]
      have w: "window_of rl' c = Some \<lparr>rl_start = t, rl_count = 1\<rparr>" using win [of c] lo(2) by simp
      have "calls_in a (t + rl_window rl) calls"
        using Cons.prems(2) t by (fastforce simp: call calls_in_def)
      then have "allowed c (Some rl') calls \<le> rl_limit rl - 1"
        using allowed_in_window [OF ok' w, of a calls] by (simp add: same)
      then show ?thesis using lo(1) small by (auto simp: call al split: option.split)
    qed
  next
    case False
    have "window_of rl' c \<in> {window_of rl c, None}"
      using win [of c] locked_other_none [OF False [symmetric], of "rl_limit rl" "rl_window rl" t v
          "at_shard shard_index (rl_shards rl) c'"]
      by (auto simp: at_shard_def window_of_def)
    then show ?thesis using IH False small by (auto simp: call al split: option.splits)
  qed
qed

subsection \<open>Properties\<close>

definition demo_calls :: "(string \<times> time \<times> (rl_shard \<Rightarrow> rl_shard)) list" where
  "demo_calls = [(''a'', 0, \<lambda>s. s), (''b'', 1, \<lambda>s. s), (''a'', 2, \<lambda>s. s), (''a'', 3, \<lambda>s. s)]"

text \<open>On a new limiter, of the queries of one minute a client gets exactly the first
  \<open>qpm\<close>, whatever the other clients do and whatever the sweeps drop.\<close>

theorem rate_limit_exact:
  assumes "0 < qpm" and "calls_in start (start + minute) calls"
  shows "allowed c (Some (new_rate_limiter qpm)) calls = min qpm (asked c calls)"
proof -
  have "window_of (new_rate_limiter qpm) c = None"
    by (simp add: window_of_def new_rate_limiter_def at_shard_def)
  from allowed_new_window [OF new_rate_limiter_ok [OF assms(1)] this, of start calls] assms(2)
  show ?thesis by (simp add: new_rate_limiter_def)
qed

theorem rate_limit_exact_witness:
  "allowed ''a'' (Some (new_rate_limiter 2)) demo_calls = min 2 (asked ''a'' demo_calls)"
  by (rule rate_limit_exact [where start = 0]) (simp_all add: demo_calls_def calls_in_def)

text \<open>C33: in any minute, from any state the limiter can be in, no client gets more than twice its
  limit.\<close>

theorem rate_limit_any_minute:
  assumes "rl_ok rl" and "calls_in start (start + rl_window rl) calls"
  shows "allowed c (Some rl) calls \<le> 2 * rl_limit rl"
proof -
  have "rl_count e > 0" if "window_of rl c = Some e" for e
    using assms(1) that rl_shard_ok_lookup fnv.at_shard_in [of "rl_shards rl" c]
    unfolding rl_ok_shards window_of_def by blast
  moreover have "0 < rl_limit rl" using assms(1) by (simp add: rl_ok_def)
  ultimately show ?thesis
    using allowed_any_window [OF assms, of c] by (force split: option.splits)
qed

theorem rate_limit_any_minute_witness:
  "allowed ''a'' (Some (new_rate_limiter 1)) demo_calls \<le> 2 * rl_limit (new_rate_limiter 1)"
  by (rule rate_limit_any_minute [where start = 0, OF new_rate_limiter_ok])
    (simp_all add: demo_calls_def calls_in_def new_rate_limiter_def)

end
