(* ===== verification/Categories.thy ===== *)
theory Categories
  imports Builtin_Domains
begin

section \<open>Domain categories (internal/categories)\<close>

text \<open>
  The taxonomy and its precedence, the compact index (sorted 64-bit hashes whose low byte is the
  category) with its builder and its lookup, the list of common platforms, and the holder that
  keeps an index loaded. Downloading and unpacking an archive is the environment: a load is
  given the index it yields or its error.
\<close>

unbundle bit_operations_syntax

subsection \<open>Taxonomy (taxonomy.go)\<close>

record category =
  cat_id :: string
  cat_label :: string
  cat_security :: bool

definition cat_row :: "string \<Rightarrow> string \<Rightarrow> bool \<Rightarrow> category" where
  "cat_row i l s = \<lparr>cat_id = i, cat_label = l, cat_security = s\<rparr>"

definition all_categories :: "category list" where
  "all_categories = [
     cat_row ''phishing'' ''Phishing'' True, cat_row ''malware'' ''Malware'' True, cat_row ''ads'' ''Ads'' True,
     cat_row ''trackers'' ''Trackers'' True, cat_row ''adult'' ''Adult'' False, cat_row ''gambling'' ''Gambling'' False,
     cat_row ''dating'' ''Dating'' False, cat_row ''social'' ''Social'' False, cat_row ''chat'' ''Chat & messaging'' False,
     cat_row ''streaming'' ''Streaming'' False, cat_row ''gaming'' ''Gaming'' False, cat_row ''shopping'' ''Shopping'' False,
     cat_row ''news'' ''News'' False, cat_row ''sports'' ''Sports'' False, cat_row ''finance'' ''Finance'' False,
     cat_row ''jobs'' ''Jobs'' False, cat_row ''education'' ''Education'' False, cat_row ''email'' ''Email'' False,
     cat_row ''search'' ''Search'' False, cat_row ''productivity'' ''Productivity'' False,
     cat_row ''technology'' ''Technology'' False, cat_row ''ai'' ''AI'' False, cat_row ''vpn'' ''VPN & proxies'' False,
     cat_row ''filesharing'' ''File sharing'' False, cat_row ''cdn'' ''CDN'' False, cat_row ''local'' ''Local network'' False,
     cat_row ''other'' ''Other'' False]"

definition cat_other :: string where "cat_other = ''other''"
definition cat_local :: string where "cat_local = ''local''"

definition precedence :: "string list" where
  "precedence = [
     ''adult'', ''gambling'', ''dating'', ''chat'', ''social'', ''streaming'', ''gaming'', ''shopping'',
     ''news'', ''sports'', ''finance'', ''jobs'', ''education'', ''email'', ''search'', ''productivity'',
     ''technology'', ''ai'', ''vpn'', ''filesharing'', ''cdn'',
     ''ads'', ''trackers'', ''malware'', ''phishing'', ''local'', ''other'']"

fun position :: "'a \<Rightarrow> 'a list \<Rightarrow> nat option" where
  "position x [] = None"
| "position x (y # ys) = (if x = y then Some 0 else map_option Suc (position x ys))"

definition rank_of :: "string \<Rightarrow> nat option" where
  "rank_of c = position c precedence"

definition by_id :: "string \<Rightarrow> category option" where
  "by_id i = find (\<lambda>c. cat_id c = i) all_categories"

definition cat_valid :: "string \<Rightarrow> bool" where
  "cat_valid i \<longleftrightarrow> by_id i \<noteq> None"

definition is_security :: "string \<Rightarrow> bool" where
  "is_security i = (case by_id i of None \<Rightarrow> False | Some c \<Rightarrow> cat_security c)"

definition label_of :: "string \<Rightarrow> string" where
  "label_of i = (case by_id i of None \<Rightarrow> i | Some c \<Rightarrow> cat_label c)"

definition content_categories :: "string list" where
  "content_categories = map cat_id (filter (\<lambda>c. \<not> cat_security c \<and> cat_id c \<noteq> cat_local) all_categories)"

subsection \<open>The index (index.go)\<close>

definition fnv64 :: "string \<Rightarrow> u64" where
  "fnv64 s = fold (\<lambda>c h. (h XOR of_nat (byte c)) * 1099511628211) s 14695981039346656037"

definition cat_key :: "string \<Rightarrow> u64" where
  "cat_key domain = fnv64 domain AND NOT 255"

definition normalize_cat :: "string \<Rightarrow> string" where
  [go_string]: "normalize_cat d = to_lower (trim_prefix (trim_suffix (trim_space d) ''.'') ''*.'')"

definition builder_add :: "string \<Rightarrow> string \<Rightarrow> u64 list \<Rightarrow> u64 list" where
  [model]: "builder_add domain category b =
     (case rank_of category of
        None \<Rightarrow> b
      | Some i \<Rightarrow> let d = normalize_cat domain in
          if d = [] then b else b @ [cat_key d OR of_nat (i + 1)])"

definition build_index :: "u64 list \<Rightarrow> u64 list" where
  [model]: "build_index b = remdups_adj (sort b)"

text \<open>\<open>slices.BinarySearch\<close>: the least position whose entry is not below the target.\<close>

function bsearch :: "u64 list \<Rightarrow> u64 \<Rightarrow> nat \<Rightarrow> nat \<Rightarrow> nat" where
  "bsearch xs k i j =
     (if i < j then let h = (i + j) div 2 in
        if xs ! h < k then bsearch xs k (h + 1) j else bsearch xs k i h
      else i)"
  by pat_completeness auto
termination
  by (relation "measure (\<lambda>(xs, k, i, j). j - i)") auto

declare bsearch.simps [simp del]

fun scan_ids :: "u64 \<Rightarrow> u64 list \<Rightarrow> u64 \<Rightarrow> u64" where
  "scan_ids k [] best = best"
| "scan_ids k (e # es) best =
     (if e AND NOT 255 = k
      then let i = e AND 255 in scan_ids k es (if best = 0 \<or> i < best then i else best)
      else best)"

definition lookup_exact :: "u64 list \<Rightarrow> string \<Rightarrow> u64 option" where
  [model]: "lookup_exact x name =
     (let k = cat_key name; i = bsearch x k 0 (length x); best = scan_ids k (drop i x) 0 in
      if best \<noteq> 0 then Some best else None)"

function index_walk :: "u64 list \<Rightarrow> string \<Rightarrow> string option" where
  "index_walk x name =
     (if name = [] \<or> CHR ''.'' \<notin> set name then None
      else case lookup_exact x name of
        Some i \<Rightarrow> Some (precedence ! (unat i - 1))
      | None \<Rightarrow> (case index_byte CHR ''.'' name of
          None \<Rightarrow> index_walk x []
        | Some i \<Rightarrow> index_walk x (drop (i + 1) name)))"
  by pat_completeness auto
termination
  by (relation "measure (\<lambda>(x, name). length name)") (auto simp: index_byte_Some)

declare index_walk.simps [simp del]

text \<open>A nil index is \<open>None\<close>.\<close>

definition index_lookup :: "u64 list option \<Rightarrow> string \<Rightarrow> string option" where
  [model]: "index_lookup idx name =
     (case idx of None \<Rightarrow> None
      | Some x \<Rightarrow> if x = [] then None else index_walk x (normalize_cat name))"

definition index_len :: "u64 list option \<Rightarrow> nat" where
  [model]: "index_len idx = (case idx of None \<Rightarrow> 0 | Some x \<Rightarrow> length x)"

definition count_entry :: "u64 \<Rightarrow> (string \<times> nat) list \<Rightarrow> (string \<times> nat) list" where
  [model]: "count_entry e out =
     (let i = unat (e AND 255) in
      if i \<ge> 1 \<and> i \<le> length precedence
      then let c = precedence ! (i - 1) in
           AList.update c ((case map_of out c of None \<Rightarrow> 0 | Some n \<Rightarrow> n) + 1) out
      else out)"

definition index_counts :: "u64 list option \<Rightarrow> (string \<times> nat) list" where
  [model]: "index_counts idx = (case idx of None \<Rightarrow> [] | Some x \<Rightarrow> fold count_entry x [])"

subsection \<open>Folders of the database (ut1.go)\<close>

definition ut1_folders :: "(string \<times> string) list" where
  "ut1_folders = [
     (''phishing'', ''phishing''), (''malware'', ''malware''), (''cryptojacking'', ''malware''),
     (''stalkerware'', ''malware''), (''publicite'', ''ads''), (''marketingware'', ''ads''),
     (''adult'', ''adult''), (''mixed_adult'', ''adult''), (''lingerie'', ''adult''),
     (''gambling'', ''gambling''), (''arjel'', ''gambling''), (''dating'', ''dating''),
     (''social_networks'', ''social''), (''forums'', ''social''), (''chat'', ''chat''),
     (''audio-video'', ''streaming''), (''radio'', ''streaming''), (''games'', ''gaming''),
     (''shopping'', ''shopping''), (''press'', ''news''), (''sports'', ''sports''),
     (''bank'', ''finance''), (''financial'', ''finance''), (''bitcoin'', ''finance''),
     (''jobsearch'', ''jobs''), (''educational_games'', ''education''), (''sexual_education'', ''education''),
     (''webmail'', ''email''), (''ai'', ''ai''), (''vpn'', ''vpn''), (''residential-proxies'', ''vpn''),
     (''filehosting'', ''filesharing''), (''download'', ''filesharing''), (''warez'', ''filesharing'')]"

definition folders_for :: "string list \<Rightarrow> string list" where
  [model]: "folders_for cats = map fst (filter (\<lambda>(f, c). c \<in> set cats) ut1_folders)"

text \<open>One file of an archive (source.go, \<open>parseArchive\<close>): its folder and the lines of its list.\<close>

definition skip_line :: "(string \<Rightarrow> bool) \<Rightarrow> string \<Rightarrow> bool" where
  [model]: "skip_line is_ip line \<longleftrightarrow> line = [] \<or> hd line = CHR ''#'' \<or> is_ip line"

definition add_folder ::
  "(string \<Rightarrow> bool) \<Rightarrow> string list option \<Rightarrow> string \<times> string list \<Rightarrow> u64 list \<Rightarrow> u64 list" where
  [model]: "add_folder is_ip want fl b =
     (case map_of ut1_folders (fst fl) of
        None \<Rightarrow> b
      | Some c \<Rightarrow>
          if (case want of None \<Rightarrow> False | Some ws \<Rightarrow> c \<notin> set ws) then b
          else fold (\<lambda>l b. let line = trim_space l in if skip_line is_ip line then b else builder_add line c b)
                 (snd fl) b)"

subsection \<open>Common platforms (builtin.go)\<close>

function builtin_walk :: "(string \<times> string) list \<Rightarrow> string \<Rightarrow> string option" where
  "builtin_walk m name =
     (if name = [] then None
      else case map_of m name of
        Some c \<Rightarrow> Some c
      | None \<Rightarrow> (case index_byte CHR ''.'' name of
                   None \<Rightarrow> None | Some i \<Rightarrow> builtin_walk m (drop (i + 1) name)))"
  by pat_completeness auto
termination
  by (relation "measure (\<lambda>(m, name). length name)") (auto simp: index_byte_Some)

declare builtin_walk.simps [simp del]

definition builtin_of :: "string \<Rightarrow> string option" where
  [model]: "builtin_of name = builtin_walk builtin (trim_suffix (to_lower (trim_space name)) ''.'')"

function covered_by :: "(string \<Rightarrow> bool) \<Rightarrow> (string \<times> string) list \<Rightarrow> string \<Rightarrow> bool" where
  "covered_by cats out d =
     (case index_byte CHR ''.'' d of
        None \<Rightarrow> False
      | Some i \<Rightarrow>
          let r = drop (i + 1) d in
          (case map_of out r of Some c \<Rightarrow> cats c | None \<Rightarrow> False) \<or> covered_by cats out r)"
  by pat_completeness auto
termination
  by (relation "measure (\<lambda>(cats, out, d). length d)") (auto simp: index_byte_Some)

declare covered_by.simps [simp del]

text \<open>\<open>m\<close> is the table, \<open>visit1\<close> and \<open>visit2\<close> the orders in which the two loops visit it.\<close>

definition keep_wanted :: "(string \<Rightarrow> bool) \<Rightarrow> string \<times> string \<Rightarrow> (string \<times> string) list \<Rightarrow> (string \<times> string) list" where
  [model]: "keep_wanted cats dc out = (if cats (snd dc) then AList.update (fst dc) (snd dc) out else out)"

definition add_covered :: "(string \<Rightarrow> bool) \<Rightarrow> string \<times> string \<Rightarrow> (string \<times> string) list \<Rightarrow> (string \<times> string) list" where
  [model]: "add_covered cats dc out =
     (if map_of out (fst dc) \<noteq> None then out
      else if covered_by cats out (fst dc) then AList.update (fst dc) (snd dc) out else out)"

definition builtin_domains ::
  "((string \<times> string) list \<Rightarrow> (string \<times> string) list) \<Rightarrow> ((string \<times> string) list \<Rightarrow> (string \<times> string) list)
   \<Rightarrow> (string \<times> string) list \<Rightarrow> (string \<Rightarrow> bool) \<Rightarrow> (string \<times> string) list" where
  [model]: "builtin_domains visit1 visit2 m cats =
     fold (add_covered cats) (visit2 m) (fold (keep_wanted cats) (visit1 m) [])"

subsection \<open>The holder (holder.go)\<close>

record cat_status =
  st_categories :: "string list option"
  st_domains :: nat
  st_counts :: "(string \<times> nat) list"
  st_updated :: int
  st_loading :: bool
  st_error :: string

record holder =
  ho_all :: bool
  ho_idx :: "u64 list option"
  ho_kick :: bool
  ho_wanted :: "string list"
  ho_status :: cat_status

definition new_holder :: "bool \<Rightarrow> holder" where
  [model]: "new_holder everything = \<lparr>ho_all = everything, ho_idx = None, ho_kick = False, ho_wanted = [],
     ho_status = \<lparr>st_categories = None, st_domains = 0, st_counts = [], st_updated = 0, st_loading = False, st_error = []\<rparr>\<rparr>"

definition refresh_every :: duration where [model]: "refresh_every = 24 * 60 * minute"
definition retry_every :: duration where [model]: "retry_every = 60 * minute"

definition set_wanted :: "string list \<Rightarrow> holder \<Rightarrow> holder" where
  [model]: "set_wanted cats h =
     (let cs = remdups_adj (sort cats) in
      h\<lparr>ho_wanted := cs, ho_kick := ho_kick h \<or> cs \<noteq> ho_wanted h\<rparr>)"

definition holder_lookup :: "holder \<Rightarrow> string \<Rightarrow> string option" where
  [model]: "holder_lookup h name = index_lookup (ho_idx h) name"

text \<open>\<open>load\<close> up to the download: what to load (\<open>None\<close>: everything), or nothing to do.\<close>

definition load_begin :: "holder \<Rightarrow> (string list option + duration) \<times> holder" where
  [model]: "load_begin h =
     (let h1 = h\<lparr>ho_status := (ho_status h)\<lparr>st_loading := True\<rparr>\<rparr> in
      if \<not> ho_all h \<and> ho_wanted h = []
      then (Inr refresh_every, h1\<lparr>ho_idx := None, ho_status := \<lparr>st_categories = Some [], st_domains = 0, st_counts = [],
              st_updated = 0, st_loading = False, st_error = []\<rparr>\<rparr>)
      else (Inl (if ho_all h then None else Some (ho_wanted h)), h1))"

definition load_end :: "string list option \<Rightarrow> u64 list + string \<Rightarrow> int \<Rightarrow> holder \<Rightarrow> duration \<times> holder" where
  [model]: "load_end cats r now h =
     (let h1 = h\<lparr>ho_status := (ho_status h)\<lparr>st_loading := False\<rparr>\<rparr> in
      case r of
        Inr err \<Rightarrow> (retry_every, h1\<lparr>ho_status := (ho_status h1)\<lparr>st_error := err\<rparr>\<rparr>)
      | Inl idx \<Rightarrow>
          if \<not> ho_all h \<and> cats \<noteq> Some (ho_wanted h) then (0, h1)
          else (refresh_every, h1\<lparr>ho_idx := Some idx, ho_status := \<lparr>st_categories = cats,
                  st_domains = length idx, st_counts = index_counts (Some idx), st_updated = now, st_loading = False, st_error = []\<rparr>\<rparr>))"

subsection \<open>The walks\<close>

interpretation catdb: suffix_walk
  "\<lambda>n. if CHR ''.'' \<in> set n then map_option (\<lambda>i. precedence ! (unat i - 1)) (lookup_exact x n) else None"
  "index_walk x" for x
proof
  fix n
  have e: "index_walk x [] = None" by (simp add: index_walk.simps)
  show "index_walk x n =
      (case if CHR ''.'' \<in> set n then map_option (\<lambda>i. precedence ! (unat i - 1)) (lookup_exact x n) else None of
         Some v \<Rightarrow> Some v
       | None \<Rightarrow> (case parent_name n of None \<Rightarrow> None | Some p \<Rightarrow> index_walk x p))"
  proof (cases "CHR ''.'' \<in> set n")
    case False
    then have "parent_name n = None" by (simp add: parent_name_None)
    with False show ?thesis by (simp add: index_walk.simps [of x n])
  next
    case True
    then have "n \<noteq> []" by auto
    obtain i where i: "index_byte CHR ''.'' n = Some i"
      using True index_byte_None [of "CHR ''.''" n] by auto
    have "index_walk x n = (case lookup_exact x n of Some i \<Rightarrow> Some (precedence ! (unat i - 1))
        | None \<Rightarrow> index_walk x (drop (i + 1) n))"
      using True \<open>n \<noteq> []\<close> i by (simp add: index_walk.simps [of x n] split: option.split)
    with True i show ?thesis by (simp add: parent_name_def split: option.split)
  qed
qed

interpretation common: suffix_walk "\<lambda>n. if n = [] then None else map_of m n" "builtin_walk m" for m
proof
  fix n
  show "builtin_walk m n = (case if n = [] then None else map_of m n of Some v \<Rightarrow> Some v
      | None \<Rightarrow> (case parent_name n of None \<Rightarrow> None | Some p \<Rightarrow> builtin_walk m p))"
  proof (cases "n = []")
    case True
    then show ?thesis by (simp add: parent_name_def builtin_walk.simps [of m "[]"])
  next
    case False
    then show ?thesis
      by (cases "index_byte CHR ''.'' n")
        (simp_all add: parent_name_def builtin_walk.simps [of m n] split: option.split)
  qed
qed

subsection \<open>Entries of the index\<close>

lemma low_byte_nat: "unat (e AND 255 :: u64) = unat e mod 256"
proof -
  have "e AND 255 = take_bit 8 e" by (simp add: take_bit_eq_mask mask_numeral)
  then show ?thesis by (simp add: take_bit_eq_mod unat_mod_distrib)
qed

lemma mask_parts:
  fixes a w :: u64
  shows "(a AND w) AND (a AND NOT w) = 0" and "(a AND w) OR (a AND NOT w) = a"
    and "(a AND NOT w) AND w = 0" and "(a AND NOT w) AND NOT w = a AND NOT w"
  by (rule bit_eqI; auto simp: bit_and_iff bit_or_iff bit_not_iff)+

lemma high_part_nat: "unat (e AND NOT 255 :: u64) = unat e div 256 * 256"
proof -
  have "(e AND 255) + (e AND NOT 255) = (e AND 255) OR (e AND NOT 255)"
    by (rule disjunctive_add_eq_or) (rule mask_parts)
  also have "\<dots> = e" by (rule mask_parts)
  finally have "e AND NOT 255 = e - (e AND 255)" by (metis add_diff_cancel_left')
  moreover have "e AND 255 \<le> e" by (simp add: word_le_nat_alt low_byte_nat)
  ultimately have "unat (e AND NOT 255) = unat e - unat e mod 256"
    by (simp add: unat_sub low_byte_nat)
  then show ?thesis using div_mult_mod_eq [of "unat e" 256] by linarith
qed

lemma entry_parts:
  assumes "i < 256"
  shows "(cat_key d OR of_nat i) AND NOT 255 = cat_key d" and "(cat_key d OR of_nat i) AND 255 = (of_nat i :: u64)"
proof -
  have u: "unat (of_nat i :: u64) = i" using assms by (simp add: unat_of_nat take_bit_eq_mod)
  have "unat ((of_nat i :: u64) AND 255) = i" unfolding low_byte_nat u using assms by simp
  then have i: "(of_nat i :: u64) AND 255 = of_nat i" by (simp only: word_unat_eq_iff u)
  have "unat ((of_nat i :: u64) AND NOT 255) = 0" unfolding high_part_nat u using assms by simp
  then have z: "(of_nat i :: u64) AND NOT 255 = 0" by (simp only: word_unat_eq_iff unat_0)
  have k: "cat_key d AND 255 = 0" "cat_key d AND NOT 255 = cat_key d"
    unfolding cat_key_def by (rule mask_parts)+
  show "(cat_key d OR of_nat i) AND NOT 255 = cat_key d"
    unfolding bit.conj_disj_distrib2 z k by simp
  show "(cat_key d OR of_nat i) AND 255 = (of_nat i :: u64)"
    unfolding bit.conj_disj_distrib2 i k by simp
qed

subsection \<open>Searching the index\<close>

lemma bsearch_spec:
  assumes "sorted xs" and "i \<le> j" and "j \<le> length xs"
    and "\<forall>e\<in>set (take i xs). e < k" and "\<forall>e\<in>set (drop j xs). k \<le> e"
  shows "bsearch xs k i j \<le> length xs \<and> (\<forall>e\<in>set (take (bsearch xs k i j) xs). e < k) \<and>
    (\<forall>e\<in>set (drop (bsearch xs k i j) xs). k \<le> e)"
  using assms
proof (induction xs k i j rule: bsearch.induct)
  case (1 xs k i j)
  show ?case
  proof (cases "i < j")
    case False
    with "1.prems" show ?thesis by (subst (1 2 3) bsearch.simps) auto
  next
    case True
    let ?h = "(i + j) div 2"
    have h: "i \<le> ?h" "?h < j" "?h < length xs" using True "1.prems"(3) by auto
    show ?thesis
    proof (cases "xs ! ?h < k")
      case lt: True
      have "\<forall>e\<in>set (take (?h + 1) xs). e < k"
      proof
        fix e assume "e \<in> set (take (?h + 1) xs)"
        then obtain n where "n \<le> ?h" "e = xs ! n" by (auto simp: in_set_conv_nth less_Suc_eq_le)
        with sorted_nth_mono [OF "1.prems"(1)] h(3) lt show "e < k" by (meson le_less_trans)
      qed
      with "1.IH"(1) [OF True refl lt] "1.prems" h True lt show ?thesis
        by (subst (1 2 3) bsearch.simps) (simp add: Let_def)
    next
      case ge: False
      have "\<forall>e\<in>set (drop ?h xs). k \<le> e"
      proof
        fix e assume "e \<in> set (drop ?h xs)"
        then obtain n where "n < length xs - ?h" and e: "e = xs ! (?h + n)" by (auto simp: in_set_conv_nth)
        then have "?h + n < length xs" by linarith
        with e sorted_nth_mono [OF "1.prems"(1), of ?h "?h + n"] ge show "k \<le> e" by simp
      qed
      with "1.IH"(2) [OF True refl ge] "1.prems" h True ge show ?thesis
        by (subst (1 2 3) bsearch.simps) (simp add: Let_def)
    qed
  qed
qed

lemma scan_ids_spec:
  "scan_ids k es b =
     (let ids = map (\<lambda>e. e AND 255) (takeWhile (\<lambda>e. e AND NOT 255 = k) es) in
      foldl (\<lambda>b i. if b = 0 \<or> i < b then i else b) b ids)"
  by (induction es arbitrary: b) (simp_all add: Let_def)

lemma takeWhile_filter:
  assumes "sorted ys" and "\<forall>e\<in>set ys. \<forall>e'\<in>set ys. e' \<le> e \<and> P e \<longrightarrow> P e'"
  shows "takeWhile P ys = filter P ys"
  using assms
proof (induction ys)
  case (Cons y ys)
  show ?case
  proof (cases "P y")
    case True
    have "takeWhile P ys = filter P ys"
    proof (rule Cons.IH)
      show "sorted ys" using Cons.prems(1) by simp
      show "\<forall>e\<in>set ys. \<forall>e'\<in>set ys. e' \<le> e \<and> P e \<longrightarrow> P e'"
        using Cons.prems(2) by (meson list.set_intros(2))
    qed
    with True show ?thesis by simp
  next
    case False
    have "\<not> P e" if "e \<in> set ys" for e
      using Cons.prems that False by (metis list.set_intros sorted_simps(2))
    then have "filter P ys = []" by (simp add: filter_empty_conv)
    with False show ?thesis by simp
  qed
qed simp

lemma same_key_below:
  assumes "cat_key n \<le> e'" and "e' \<le> e" and "e AND NOT 255 = cat_key n"
  shows "e' AND NOT 255 = cat_key n"
proof -
  have k: "unat (cat_key n) = unat e div 256 * 256" using assms(3) high_part_nat [of e] by simp
  have "unat (cat_key n) \<le> unat e'" and "unat e' \<le> unat e" using assms(1,2) by (simp_all add: word_le_nat_alt)
  then have "unat e' div 256 = unat e div 256"
    using div_le_mono [of "unat e div 256 * 256" "unat e'" 256] div_le_mono [of "unat e'" "unat e" 256] k by simp
  then have "unat (e' AND NOT 255) = unat (cat_key n)" unfolding high_part_nat k by simp
  then show ?thesis by (simp only: word_unat_eq_iff)
qed

definition ids_at :: "u64 list \<Rightarrow> string \<Rightarrow> u64 set" where
  "ids_at x n = (\<lambda>e. e AND 255) ` {e \<in> set x. e AND NOT 255 = cat_key n}"

lemma best_id:
  "\<forall>i\<in>set ids. i \<noteq> 0 \<Longrightarrow> b \<noteq> 0 \<Longrightarrow>
     foldl (\<lambda>b i. if b = 0 \<or> i < b then i else b) (b :: u64) ids = Min (insert b (set ids))"
proof (induction ids arbitrary: b)
  case (Cons i ids)
  then have "foldl (\<lambda>b i. if b = 0 \<or> i < b then i else b) b (i # ids) = Min (insert (min b i) (set ids))"
    by (auto simp: min_def)
  also have "\<dots> = Min (insert b (set (i # ids)))"
    by (cases "ids = []") (auto simp: min.assoc min.left_commute)
  finally show ?case .
qed simp

lemma best_id_0:
  assumes "\<forall>i\<in>set ids. i \<noteq> 0"
  shows "foldl (\<lambda>b i. if b = 0 \<or> i < b then i else b) (0 :: u64) ids = (if ids = [] then 0 else Min (set ids))"
  using assms best_id [of "tl ids" "hd ids"] by (cases ids) auto

text \<open>The search finds the least of the ids stored under a name's hash.\<close>

lemma lookup_exact_spec:
  assumes "sorted x" and ids: "0 \<notin> ids_at x n"
  shows "lookup_exact x n = (if ids_at x n = {} then None else Some (Min (ids_at x n)))"
proof -
  let ?k = "cat_key n"
  let ?i = "bsearch x ?k 0 (length x)"
  let ?P = "\<lambda>e. e AND NOT 255 = ?k"
  have b: "\<forall>e\<in>set (take ?i x). e < ?k" "\<forall>e\<in>set (drop ?i x). ?k \<le> e"
    using bsearch_spec [OF assms(1), of 0 "length x" ?k] by auto
  have "\<not> ?P e" if "e < ?k" for e
  proof
    assume "?P e"
    moreover have "unat (e AND NOT 255) \<le> unat e" unfolding high_part_nat by simp
    ultimately have "?k \<le> e" by (simp add: word_le_nat_alt)
    with that show False by simp
  qed
  then have none: "filter ?P (take ?i x) = []" using b(1) by (auto simp: filter_empty_conv)
  have tw: "takeWhile ?P (drop ?i x) = filter ?P (drop ?i x)"
    by (rule takeWhile_filter) (use assms(1) b(2) same_key_below in \<open>auto simp: sorted_wrt_drop\<close>)
  have "filter ?P x = filter ?P (take ?i x @ drop ?i x)" by simp
  then have f: "filter ?P (drop ?i x) = filter ?P x" unfolding filter_append none by simp
  let ?ids = "map (\<lambda>e. e AND 255) (filter ?P x)"
  have set: "set ?ids = ids_at x n" by (auto simp: ids_at_def)
  have "scan_ids ?k (drop ?i x) 0 = (if ?ids = [] then 0 else Min (set ?ids))"
    unfolding scan_ids_spec Let_def tw f
    by (rule best_id_0) (use ids set in auto)
  moreover have "Min (set ?ids) \<noteq> 0" if "?ids \<noteq> []"
  proof -
    have "set ?ids \<noteq> {}" using that unfolding set_empty .
    then have "Min (set ?ids) \<in> set ?ids" by (intro Min_in finite_set)
    then show ?thesis using ids unfolding set by metis
  qed
  moreover have "?ids = [] \<longleftrightarrow> ids_at x n = {}" unfolding set [symmetric] by (simp only: set_empty)
  ultimately show ?thesis
    unfolding lookup_exact_def Let_def set by auto
qed

subsection \<open>What an index holds\<close>

lemma position_Some: "position x xs = Some i \<longleftrightarrow> i < length xs \<and> xs ! i = x \<and> x \<notin> set (take i xs)"
proof (induction xs arbitrary: i)
  case (Cons y ys)
  then show ?case by (cases i) auto
qed simp

lemma precedence_distinct: "distinct precedence"
  by (simp add: precedence_def)

lemma precedence_length: "length precedence = 27"
  by (simp add: precedence_def)

lemma rank_of_Some: "rank_of c = Some r \<longleftrightarrow> r < 27 \<and> precedence ! r = c"
proof -
  have "r < 27 \<Longrightarrow> precedence ! r \<notin> set (take r precedence)"
    using precedence_distinct precedence_length by (auto simp: in_set_conv_nth nth_eq_iff_index_eq)
  then show ?thesis by (auto simp: rank_of_def position_Some precedence_length)
qed

text \<open>The category a list of (domain, category) pairs gives a domain: the first in precedence.\<close>

definition best_listed :: "(string \<times> string) list \<Rightarrow> string \<Rightarrow> string option" where
  "best_listed ps a = (if a = [] then None
     else find (\<lambda>c. \<exists>p\<in>set ps. normalize_cat (fst p) = a \<and> snd p = c) precedence)"

definition index_of :: "(string \<times> string) list \<Rightarrow> u64 list" where
  "index_of ps = build_index (fold (\<lambda>p. builder_add (fst p) (snd p)) ps [])"

definition cat_word :: "nat \<Rightarrow> u64" where
  "cat_word r = of_nat (r + 1)"

definition cat_entry :: "string \<times> string \<Rightarrow> u64 option" where
  "cat_entry p = (case rank_of (snd p) of None \<Rightarrow> None
     | Some r \<Rightarrow> if normalize_cat (fst p) = [] then None else Some (cat_key (normalize_cat (fst p)) OR cat_word r))"

lemma cat_word_nat: "r < 27 \<Longrightarrow> unat (cat_word r) = r + 1"
  unfolding cat_word_def by (subst unat_of_nat) (simp add: take_bit_eq_mod)

lemma cat_entry_Some:
  assumes "cat_entry p = Some e"
  obtains r where "rank_of (snd p) = Some r" and "r < 27" and "normalize_cat (fst p) \<noteq> []"
    and "e AND NOT 255 = cat_key (normalize_cat (fst p))" and "e AND 255 = cat_word r"
proof -
  obtain r where r: "rank_of (snd p) = Some r" "normalize_cat (fst p) \<noteq> []"
    "e = cat_key (normalize_cat (fst p)) OR cat_word r"
    using assms by (auto simp: cat_entry_def split: option.splits if_splits)
  then have "r < 27" by (simp add: rank_of_Some)
  then have "r + 1 < 256" by simp
  with r entry_parts [OF this, of "normalize_cat (fst p)"] \<open>r < 27\<close> show ?thesis
    by (intro that [of r]) (simp_all only: cat_word_def not_False_eq_True)
qed

lemma builder_add_entry:
  "builder_add (fst p) (snd p) b = b @ (case cat_entry p of None \<Rightarrow> [] | Some e \<Rightarrow> [e])"
  by (simp add: builder_add_def cat_entry_def cat_word_def Let_def split: option.split)

lemma set_builder:
  "set (fold (\<lambda>p. builder_add (fst p) (snd p)) ps b) = set b \<union> {e. \<exists>p\<in>set ps. cat_entry p = Some e}"
  by (induction ps arbitrary: b) (auto simp: builder_add_entry split: option.split)

lemma index_of_set: "set (index_of ps) = {e. \<exists>p\<in>set ps. cat_entry p = Some e}"
  by (simp add: index_of_def build_index_def set_builder)

lemma index_of_sorted: "sorted (index_of ps)"
  by (simp add: index_of_def build_index_def sorted_remdups_adj)

definition no_collision :: "(string \<times> string) list \<Rightarrow> string \<Rightarrow> bool" where
  "no_collision ps n \<longleftrightarrow> (\<forall>p\<in>set ps. \<forall>a\<in>set (ancestors n).
     cat_key (normalize_cat (fst p)) = cat_key a \<longrightarrow> normalize_cat (fst p) = a)"

definition ranks_at :: "(string \<times> string) list \<Rightarrow> string \<Rightarrow> nat set" where
  "ranks_at ps a = {r. a \<noteq> [] \<and> (\<exists>p\<in>set ps. rank_of (snd p) = Some r \<and> normalize_cat (fst p) = a)}"

lemma ids_index_of:
  assumes "no_collision ps n" and "in_domain n a"
  shows "ids_at (index_of ps) a = cat_word ` ranks_at ps a"
proof -
  have same: "normalize_cat (fst p) = a" if "p \<in> set ps" "cat_key (normalize_cat (fst p)) = cat_key a" for p
    using assms that by (auto simp: no_collision_def set_ancestors)
  show ?thesis
  proof (intro equalityI subsetI)
    fix i assume "i \<in> ids_at (index_of ps) a"
    then obtain e p where e: "p \<in> set ps" "cat_entry p = Some e" "e AND NOT 255 = cat_key a" "i = e AND 255"
      by (auto simp: ids_at_def index_of_set)
    obtain r where "rank_of (snd p) = Some r" "normalize_cat (fst p) \<noteq> []"
      "e AND NOT 255 = cat_key (normalize_cat (fst p))" "e AND 255 = cat_word r"
      by (rule cat_entry_Some [OF e(2)])
    with e same [OF e(1)] show "i \<in> cat_word ` ranks_at ps a" by (auto simp: ranks_at_def)
  next
    fix i assume "i \<in> cat_word ` ranks_at ps a"
    then obtain r p where r: "i = cat_word r" "p \<in> set ps" "rank_of (snd p) = Some r" "normalize_cat (fst p) = a" "a \<noteq> []"
      by (auto simp: ranks_at_def)
    then obtain e where e: "cat_entry p = Some e" by (simp add: cat_entry_def)
    obtain r' where "rank_of (snd p) = Some r'"
      "e AND NOT 255 = cat_key (normalize_cat (fst p))" "e AND 255 = cat_word r'"
      by (rule cat_entry_Some [OF e])
    with e r show "i \<in> ids_at (index_of ps) a" unfolding ids_at_def index_of_set by (auto simp: image_iff)
  qed
qed

lemma lookup_index_of:
  assumes "no_collision ps n" and "in_domain n a"
  shows "map_option (\<lambda>i. precedence ! (unat i - 1)) (lookup_exact (index_of ps) a) = best_listed ps a"
proof -
  let ?R = "ranks_at ps a"
  let ?Q = "\<lambda>c. \<exists>p\<in>set ps. normalize_cat (fst p) = a \<and> snd p = c"
  note ids = ids_index_of [OF assms]
  have sub: "r < 27" if "r \<in> ?R" for r using that by (auto simp: ranks_at_def rank_of_Some)
  then have fin: "finite ?R" by (intro finite_subset [of ?R "{..<27}"]) auto
  have "0 \<notin> ids_at (index_of ps) a"
  proof
    assume "0 \<in> ids_at (index_of ps) a"
    then obtain r where "cat_word r = 0" "r \<in> ?R" unfolding ids by force
    with cat_word_nat [OF sub] show False by force
  qed
  note look = lookup_exact_spec [OF index_of_sorted this]
  show ?thesis
  proof (cases "?R = {}")
    case True
    then have "lookup_exact (index_of ps) a = None" using look unfolding ids by simp
    moreover have "\<not> ?Q c" if c: "a \<noteq> []" "c \<in> set precedence" for c
    proof
      assume "?Q c"
      moreover obtain r where "rank_of c = Some r"
        using c(2) by (auto simp: in_set_conv_nth rank_of_Some precedence_length)
      ultimately show False using True c(1) by (auto simp: ranks_at_def)
    qed
    then have "best_listed ps a = None" unfolding best_listed_def by (auto simp: find_None_iff)
    ultimately show ?thesis by simp
  next
    case False
    define m where "m = Min ?R"
    have m: "m \<in> ?R" "\<And>r. r \<in> ?R \<Longrightarrow> m \<le> r" using fin False by (simp_all add: m_def)
    have "Min (cat_word ` ?R) = cat_word m"
      by (rule Min_eqI) (use fin m sub in \<open>auto simp: word_le_nat_alt cat_word_nat\<close>)
    then have l: "lookup_exact (index_of ps) a = Some (cat_word m)" using look False unfolding ids by simp
    obtain p where p: "p \<in> set ps" "rank_of (snd p) = Some m" "normalize_cat (fst p) = a" "a \<noteq> []"
      using m(1) by (auto simp: ranks_at_def)
    have "find ?Q precedence = Some (precedence ! m)"
      unfolding find_Some_iff
    proof (intro exI conjI allI impI)
      show "m < length precedence" "?Q (precedence ! m)"
        using p by (auto simp: rank_of_Some precedence_length)
      fix j assume j: "j < m"
      show "\<not> ?Q (precedence ! j)"
      proof
        assume "?Q (precedence ! j)"
        then obtain p' where p': "p' \<in> set ps" "normalize_cat (fst p') = a" "snd p' = precedence ! j" by blast
        have "rank_of (snd p') = Some j" unfolding p'(3) using j p(2) by (simp add: rank_of_Some)
        with p' p(4) have "j \<in> ?R" unfolding ranks_at_def by blast
        with m(2) [of j] j show False by simp
      qed
    qed simp
    then show ?thesis using l cat_word_nat [OF sub [OF m(1)]] p by (simp add: best_listed_def)
  qed
qed

subsection \<open>The platforms an agent is given\<close>

lemma covered_by_iff:
  "covered_by cats out d \<longleftrightarrow> (\<exists>a c. in_domain d a \<and> a \<noteq> d \<and> map_of out a = Some c \<and> cats c)"
proof (induction d rule: ancestors.induct)
  case (1 d)
  show ?case
  proof (cases "parent_name d")
    case None
    then have "index_byte CHR ''.'' d = None" by (simp add: parent_name_def)
    then show ?thesis using None by (simp add: covered_by.simps [of cats out d] in_domain_no_dot)
  next
    case (Some p)
    then obtain i where i: "index_byte CHR ''.'' d = Some i" "p = drop (Suc i) d" by (auto simp: parent_name_def)
    have "a \<noteq> d" if "in_domain p a" for a
      using in_domain_length [of p a] parent_name_shorter [OF Some] that by fastforce
    then have "(\<exists>a c. in_domain d a \<and> a \<noteq> d \<and> map_of out a = Some c \<and> cats c) \<longleftrightarrow>
        (\<exists>a c. in_domain p a \<and> map_of out a = Some c \<and> cats c)"
      by (auto simp: in_domain_parent [OF Some])
    also have "\<dots> \<longleftrightarrow> (case map_of out p of Some c \<Rightarrow> cats c | None \<Rightarrow> False) \<or> covered_by cats out p"
    proof -
      have p: "in_domain p p" by simp
      have e: "(case map_of out p of Some c \<Rightarrow> cats c | None \<Rightarrow> False) \<longleftrightarrow> (\<exists>c. map_of out p = Some c \<and> cats c)"
        by (auto split: option.split)
      show ?thesis unfolding 1 [OF Some] e using p by blast
    qed
    finally show ?thesis using i by (simp add: covered_by.simps [of cats out d] Let_def)
  qed
qed

lemma keep_wanted_fold:
  "is_map xs \<Longrightarrow> map_of (fold (keep_wanted cats) xs out) d =
     (case map_of xs d of Some c \<Rightarrow> if cats c then Some c else map_of out d | None \<Rightarrow> map_of out d)"
proof (induction xs arbitrary: out)
  case (Cons x xs)
  have "fst x = d \<Longrightarrow> map_of xs d = None" using Cons.prems by (auto simp: map_of_eq_None_iff)
  with Cons show ?case by (cases x) (auto simp: keep_wanted_def update_conv' split: option.split)
qed simp

definition agrees_on :: "(string \<Rightarrow> bool) \<Rightarrow> (string \<times> string) list \<Rightarrow> (string \<times> string) list \<Rightarrow> bool" where
  "agrees_on cats m out \<longleftrightarrow> (\<forall>a c. cats c \<longrightarrow> (map_of out a = Some c \<longleftrightarrow> map_of m a = Some c))"

lemma agrees_covered: "agrees_on cats m out \<Longrightarrow> covered_by cats out d = covered_by cats m d"
  by (auto simp: agrees_on_def covered_by_iff)

lemma add_covered_agrees:
  "agrees_on cats m out \<Longrightarrow> map_of m d = Some c \<Longrightarrow> agrees_on cats m (add_covered cats (d, c) out)"
  by (auto simp: agrees_on_def add_covered_def update_conv')

lemma add_covered_fold:
  assumes "agrees_on cats m out" and "\<forall>x\<in>set xs. map_of m (fst x) = Some (snd x)"
  shows "map_of (fold (add_covered cats) xs out) d =
    (case map_of out d of Some c \<Rightarrow> Some c
     | None \<Rightarrow> if covered_by cats m d \<and> d \<in> fst ` set xs then map_of m d else None)"
  using assms
proof (induction xs arbitrary: out)
  case (Cons x xs)
  obtain k c where x: "x = (k, c)" by (cases x)
  let ?out = "add_covered cats x out"
  have m: "map_of m k = Some c" and ag: "agrees_on cats m ?out"
    using Cons.prems add_covered_agrees by (auto simp: x)
  have "map_of ?out d = (case map_of out d of Some c \<Rightarrow> Some c
      | None \<Rightarrow> if d = k \<and> covered_by cats m k then Some c else None)"
    using agrees_covered [OF Cons.prems(1), of k]
    by (auto simp: x add_covered_def update_conv' split: option.split)
  then show ?case
    using Cons.IH [OF ag] Cons.prems(2) m by (auto simp: x split: option.split)
qed (simp split: option.split)

lemma builtin_domains_lookup:
  assumes "visits v1" and "visits v2" and "is_map m"
  shows "map_of (builtin_domains v1 v2 m cats) d =
    (case map_of m d of None \<Rightarrow> None | Some c \<Rightarrow> if cats c \<or> covered_by cats m d then Some c else None)"
proof -
  have same: "mset (v1 m) = mset m" "set (v2 m) = set m"
    using assms(1,2) visits_set [OF assms(2)] by (auto simp: visits_def)
  have im: "is_map (v1 m)" and look: "map_of (v1 m) = map_of m"
    using same(1) assms(3) by (metis mset_eq_imp_distinct_iff mset_map, metis map_of_inject_set mset_eq_setD assms(3) mset_eq_imp_distinct_iff mset_map same(1))
  let ?out = "fold (keep_wanted cats) (v1 m) []"
  have out: "map_of ?out a = (case map_of m a of Some c \<Rightarrow> if cats c then Some c else None | None \<Rightarrow> None)" for a
    using keep_wanted_fold [OF im, of cats "[]" a] by (simp add: look split: option.split)
  then have "agrees_on cats m ?out" by (auto simp: agrees_on_def split: option.splits if_splits)
  moreover have "\<forall>x\<in>set (v2 m). map_of m (fst x) = Some (snd x)"
    using assms(3) same(2) by simp
  ultimately have "map_of (builtin_domains v1 v2 m cats) d =
      (case map_of ?out d of Some c \<Rightarrow> Some c
       | None \<Rightarrow> if covered_by cats m d \<and> d \<in> fst ` set (v2 m) then map_of m d else None)"
    unfolding builtin_domains_def by (rule add_covered_fold)
  moreover have "map_of m d = None \<longleftrightarrow> d \<notin> fst ` set m" by (rule map_of_eq_None_iff)
  ultimately show ?thesis unfolding same(2) out by (cases "map_of m d") auto
qed

subsection \<open>Loads and changes of what is wanted, interleaved\<close>

text \<open>
  Between its steps: the load that is running and for what, whether one is due at once, whether the
  last one failed, and the index the last successful one gave.
\<close>

record holder_run =
  hr_holder :: holder
  hr_flight :: "string list option option"
  hr_due :: bool
  hr_failed :: bool
  hr_loaded :: "u64 list option"

text \<open>
  \<open>SetWanted\<close> may come at any time; \<open>Run\<close> starts a load when the timer fires or when it is kicked,
  taking the kick, and a load that returns 0 makes the next one due at once.
\<close>

definition hr_begin :: "holder_run \<Rightarrow> holder_run" where
  [model]: "hr_begin s =
     (case load_begin ((hr_holder s)\<lparr>ho_kick := False\<rparr>) of
        (Inl cats, h) \<Rightarrow> s\<lparr>hr_holder := h, hr_flight := Some cats, hr_due := False\<rparr>
      | (Inr d, h) \<Rightarrow> s\<lparr>hr_holder := h, hr_due := False, hr_failed := False\<rparr>)"

definition hr_end :: "string list option \<Rightarrow> u64 list + string \<Rightarrow> int \<Rightarrow> holder_run \<Rightarrow> holder_run" where
  [model]: "hr_end cats r now s =
     (case load_end cats r now (hr_holder s) of
        (d, h) \<Rightarrow> s\<lparr>hr_holder := h, hr_flight := None, hr_due := (d = 0), hr_failed := (\<not> isl r),
                   hr_loaded := (case r of Inl idx \<Rightarrow> Some idx | Inr _ \<Rightarrow> hr_loaded s)\<rparr>)"

text \<open>\<open>made cats idx\<close>: \<open>idx\<close> is an index the source may build for these categories, at any time.\<close>

inductive holder_step :: "(string list option \<Rightarrow> u64 list \<Rightarrow> bool) \<Rightarrow> holder_run \<Rightarrow> holder_run \<Rightarrow> bool" for made where
  wanted: "holder_step made s (s\<lparr>hr_holder := set_wanted cs (hr_holder s)\<rparr>)"
| began: "hr_flight s = None \<Longrightarrow> holder_step made s (hr_begin s)"
| ended: "hr_flight s = Some cats \<Longrightarrow> made cats idx \<Longrightarrow> holder_step made s (hr_end cats (Inl idx) now s)"
| failed: "hr_flight s = Some cats \<Longrightarrow> holder_step made s (hr_end cats (Inr err) now s)"

inductive_cases holder_stepE: "holder_step made s s'"

definition agent_start :: holder_run where
  "agent_start = \<lparr>hr_holder = new_holder False, hr_flight = None, hr_due = False, hr_failed = False, hr_loaded = None\<rparr>"

definition settled :: "holder_run \<Rightarrow> bool" where
  "settled s \<longleftrightarrow> hr_flight s = None \<and> \<not> ho_kick (hr_holder s) \<and> \<not> hr_due s \<and> \<not> hr_failed s"

text \<open>Nothing for nothing, or the index of the last load, which was made for what is wanted.\<close>

definition holds_wanted :: "(string list option \<Rightarrow> u64 list \<Rightarrow> bool) \<Rightarrow> holder_run \<Rightarrow> bool" where
  "holds_wanted made s \<longleftrightarrow>
     (if ho_wanted (hr_holder s) = [] then ho_idx (hr_holder s) = None
      else \<exists>idx. ho_idx (hr_holder s) = Some idx \<and> hr_loaded s = Some idx \<and> made (Some (ho_wanted (hr_holder s))) idx
        \<and> st_categories (ho_status (hr_holder s)) = Some (ho_wanted (hr_holder s))
        \<and> st_domains (ho_status (hr_holder s)) = length idx)"

definition holder_ok :: "(string list option \<Rightarrow> u64 list \<Rightarrow> bool) \<Rightarrow> holder_run \<Rightarrow> bool" where
  "holder_ok made s \<longleftrightarrow> \<not> ho_all (hr_holder s) \<and> (settled s \<longrightarrow> holds_wanted made s) \<and>
     (\<forall>cats. hr_flight s = Some cats \<longrightarrow> (\<exists>ws. cats = Some ws \<and> ws \<noteq> [])
        \<and> (cats = Some (ho_wanted (hr_holder s)) \<or> ho_kick (hr_holder s)))"

lemmas holder_run_defs = holder_ok_def settled_def holds_wanted_def Let_def

lemma holder_step_ok: "holder_step made s s' \<Longrightarrow> holder_ok made s \<Longrightarrow> holder_ok made s'"
proof (induction rule: holder_step.induct)
  case (wanted s cs)
  then show ?case by (auto simp: holder_run_defs set_wanted_def)
next
  case (began s)
  then show ?case by (auto simp: holder_run_defs hr_begin_def load_begin_def)
next
  case (ended s cats idx now)
  then show ?case by (auto simp: holder_run_defs hr_end_def load_end_def refresh_every_def)
next
  case (failed s cats err now)
  then show ?case by (auto simp: holder_run_defs hr_end_def load_end_def retry_every_def)
qed

subsection \<open>Properties\<close>

lemma first_some_cong: "(\<And>x. x \<in> set xs \<Longrightarrow> f x = g x) \<Longrightarrow> first_some f xs = first_some g xs"
  by (induction xs) (auto split: option.split)

text \<open>The compact index labels a name as the list it was built from does: by the most specific
  listed domain with a dot that the name is or is under, with the first of that domain's
  categories in precedence. It relies on no two of the domains involved having the same
  56-bit hash.\<close>

theorem index_lookup_correct:
  assumes "no_collision ps (normalize_cat name)"
  shows "index_lookup (Some (index_of ps)) name =
    first_some (\<lambda>a. if CHR ''.'' \<in> set a then best_listed ps a else None) (ancestors (normalize_cat name))"
proof -
  let ?x = "index_of ps"
  have "first_some (\<lambda>n. if CHR ''.'' \<in> set n then map_option (\<lambda>i. precedence ! (unat i - 1)) (lookup_exact ?x n) else None)
      (ancestors (normalize_cat name)) =
    first_some (\<lambda>a. if CHR ''.'' \<in> set a then best_listed ps a else None) (ancestors (normalize_cat name))"
    by (rule first_some_cong) (simp add: set_ancestors lookup_index_of [OF assms] del: One_nat_def)
  then have w: "index_walk ?x (normalize_cat name) =
      first_some (\<lambda>a. if CHR ''.'' \<in> set a then best_listed ps a else None) (ancestors (normalize_cat name))"
    by (simp add: catdb.walk_first)
  have "lookup_exact [] n = None" for n
    by (simp add: lookup_exact_def bsearch.simps Let_def)
  then have "index_walk [] n = None" for n
    by (simp add: catdb.walk_first first_some_None)
  with w show ?thesis by (cases "?x = []") (auto simp: index_lookup_def)
qed

theorem index_lookup_correct_witness:
  "index_lookup (Some (index_of [(''example.com'', ''phishing''), (''example.com'', ''gambling'')])) ''WWW.example.com.''
     = Some ''gambling''"
proof -
  let ?ps = "[(''example.com'', ''phishing''), (''example.com'', ''gambling'')]"
  have "normalize_cat ''WWW.example.com.'' = ''www.example.com''" by code_simp
  moreover have "no_collision ?ps ''www.example.com''" by code_simp
  moreover have "first_some (\<lambda>a. if CHR ''.'' \<in> set a then best_listed ?ps a else None) (ancestors ''www.example.com'')
      = Some ''gambling''" by code_simp
  ultimately show ?thesis using index_lookup_correct [of ?ps "''WWW.example.com.''"] by simp
qed

text \<open>An agent given only \<open>BuiltinDomains\<close> of the blocked categories labels every name with a
  blocked category exactly when the control plane, which has the whole table, does.\<close>

theorem agent_labels_agree:
  assumes "visits v1" and "visits v2" and "is_map m"
  shows "builtin_walk (builtin_domains v1 v2 m cats) n = Some c \<and> cats c \<longleftrightarrow> builtin_walk m n = Some c \<and> cats c"
proof -
  let ?o = "builtin_domains v1 v2 m cats"
  let ?m = "\<lambda>n. if n = [] then None else map_of m n" and ?e = "\<lambda>n. if n = [] then None else map_of ?o n"
  note look = builtin_domains_lookup [OF assms]
  have sub: "?e a = Some x \<Longrightarrow> ?m a = Some x" for a x
    by (auto simp: look split: if_splits option.splits)
  have keep: "?m a = Some x \<Longrightarrow> cats x \<Longrightarrow> ?e a = Some x" for a x
    by (auto simp: look split: if_splits)
  have below: "?e b \<noteq> None" if b: "?m b \<noteq> None" and a: "?m a = Some c" "cats c" and n: "in_domain n a" "in_domain n b" "length a < length b" for a b
  proof -
    have "in_domain b a" using n by (auto simp: in_domain_iff append_eq_append_conv2 append_eq_Cons_conv Cons_eq_append_conv)
    moreover have "a \<noteq> b" using n by auto
    ultimately have "covered_by cats m b" using a by (auto simp: covered_by_iff split: if_splits)
    then show ?thesis using b by (auto simp: look split: option.splits if_splits)
  qed
  show ?thesis
  proof (intro iffI conjI; (elim conjE)?)
    assume w: "builtin_walk ?o n = Some c" and c: "cats c"
    then obtain a where a: "in_domain n a" "?e a = Some c" "\<forall>b. in_domain n b \<and> length a < length b \<longrightarrow> ?e b = None"
      unfolding common.walk_most_specific by blast
    then have "?m a = Some c" using sub by blast
    moreover have "?m b = None" if "in_domain n b" "length a < length b" for b
      using below [OF _ \<open>?m a = Some c\<close> c a(1) that] a(3) that by (metis (no_types, lifting))
    ultimately show "builtin_walk m n = Some c" unfolding common.walk_most_specific using a(1) by blast
  next
    assume w: "builtin_walk m n = Some c" and c: "cats c"
    then obtain a where a: "in_domain n a" "?m a = Some c" "\<forall>b. in_domain n b \<and> length a < length b \<longrightarrow> ?m b = None"
      unfolding common.walk_most_specific by blast
    then have "?e a = Some c" using keep c by blast
    moreover have "?e b = None" if "in_domain n b" "length a < length b" for b
      using a(3) that sub by (metis not_Some_eq)
    ultimately show "builtin_walk ?o n = Some c" unfolding common.walk_most_specific using a(1) by blast
  qed
qed

theorem agent_labels_agree_witness:
  "builtin_walk (builtin_domains (\<lambda>m. m) (\<lambda>m. m) [(''google.com'', ''search''), (''gemini.google.com'', ''ai'')]
     (\<lambda>c. c = ''search'')) ''gemini.google.com'' \<noteq> Some ''search''"
proof -
  let ?m = "[(''google.com'', ''search''), (''gemini.google.com'', ''ai'')]"
  have "builtin_walk ?m ''gemini.google.com'' = Some ''ai''" by code_simp
  moreover have "is_map ?m" by simp
  ultimately show ?thesis
    using agent_labels_agree [OF visits_id visits_id, of ?m "\<lambda>c. c = ''search''" "''gemini.google.com''" "''search''"] by auto
qed

text \<open>C34: no change of what an agent should hold is lost: however changes of the wanted categories,
  loads and failures interleave, an agent at rest (nothing loading, due, kicked or to be retried)
  holds, when no category is wanted, no index, and otherwise the very index that the last successful
  load gave, made for exactly the categories last wanted, which is what the status says.\<close>

theorem holder_settles:
  assumes "(holder_step made)\<^sup>*\<^sup>* agent_start s" and "settled s"
  shows "holds_wanted made s"
proof -
  have "holder_ok made agent_start"
    by (simp add: holder_run_defs agent_start_def new_holder_def)
  with assms(1) have "holder_ok made s"
    by (induction rule: rtranclp_induct) (auto intro: holder_step_ok)
  with assms(2) show ?thesis by (simp add: holder_ok_def)
qed

text \<open>A run: \<open>ads\<close> is wanted, its load ends with an index of one entry.\<close>

definition holder_demo :: holder_run where
  "holder_demo = hr_end (Some [''ads'']) (Inl [7]) 5
     (hr_begin (agent_start\<lparr>hr_holder := set_wanted [''ads'', ''ads''] (new_holder False)\<rparr>))"

theorem holder_settles_witness: "ho_idx (hr_holder holder_demo) = Some [7]"
proof -
  let ?made = "\<lambda>cats idx. cats = Some [''ads''] \<and> idx = [7 :: u64]"
  let ?s1 = "agent_start\<lparr>hr_holder := set_wanted [''ads'', ''ads''] (new_holder False)\<rparr>"
  have sw: "set_wanted [''ads'', ''ads''] (new_holder False) = (new_holder False)\<lparr>ho_wanted := [''ads''], ho_kick := True\<rparr>"
    by (simp add: set_wanted_def new_holder_def Let_def)
  note sw' = sw [unfolded new_holder_def, simplified]
  have "holder_step ?made agent_start ?s1"
    using holder_step.wanted [of ?made agent_start "[''ads'', ''ads'']"] by (simp add: agent_start_def)
  moreover have "holder_step ?made ?s1 (hr_begin ?s1)" by (rule holder_step.began) (simp add: agent_start_def)
  moreover have "holder_step ?made (hr_begin ?s1) holder_demo"
    unfolding holder_demo_def by (rule holder_step.ended)
      (simp_all add: hr_begin_def load_begin_def sw' new_holder_def agent_start_def Let_def)
  ultimately have run: "(holder_step ?made)\<^sup>*\<^sup>* agent_start holder_demo" by auto
  have "settled holder_demo" "ho_wanted (hr_holder holder_demo) = [''ads'']"
    by (simp_all add: settled_def holder_demo_def hr_end_def load_end_def hr_begin_def load_begin_def sw' new_holder_def agent_start_def
        refresh_every_def Let_def)
  with holder_settles [OF run] show ?thesis by (simp add: holds_wanted_def)
qed

end
