(* ===== verification/Resolver.thy ===== *)
theory Resolver
  imports Zones Local_Records Forwarding Single_Flight Health Rate_Limit Categories
begin

section \<open>The resolver (internal/resolver/resolver.go)\<close>

text \<open>
  Settings are turned into a runtime that is swapped as a whole; a query then goes through the
  pipeline: rate limit, own zones, rewrites, block rules, blocked categories, cache, forward.
  A cache and an upstream object outlive the runtime that made them, so the resolver keeps
  caches in a store (\<open>r_caches\<close>) under their references and upstreams under their spec and
  timeout. What the environment decides is an argument: the clocks, the orders of Go's map
  iterations, and what a forward returned.
\<close>

subsection \<open>Settings and state\<close>

record forward_group =
  fg_suffix :: string
  fg_upstreams :: "string list"

record cache_settings =
  cs_enabled :: bool
  cs_max_entries :: int
  cs_min_ttl_sec :: int
  cs_max_ttl_sec :: int

record settings =
  se_upstreams :: "string list"
  se_forwarders :: "forward_group list"
  se_block_response :: string
  se_rate_limit_qpm :: int
  se_dnssec :: bool
  se_cache :: cache_settings
  se_upstream_strategy :: string
  se_upstream_timeout_ms :: int
  se_blocked_categories :: "string list"
  se_category_domains :: "(string \<times> string) list"
  se_privacy_level :: int
  se_privacy_detail_hours :: int
  se_privacy_domain_k :: int

type_synonym answer_settings = "string list \<times> forward_group list \<times> bool \<times> cache_settings"

text \<open>The JSON of these fields, which is only compared: here the fields themselves.\<close>

definition answer_key :: "settings \<Rightarrow> answer_settings" where
  [model]: "answer_key s = (se_upstreams s, se_forwarders s, se_dnssec s, se_cache s)"

definition normalize_upstreams :: "settings \<Rightarrow> settings" where
  [model]: "normalize_upstreams s = s\<lparr>
     se_upstream_strategy := normalize_upstream_strategy (se_upstream_strategy s),
     se_upstream_timeout_ms := normalize_upstream_timeout_ms (se_upstream_timeout_ms s)\<rparr>"

record runtime =
  rt_default_ups :: "up_ref list"
  rt_default_labels :: "string list"
  rt_conditional :: "cond_forward list"
  rt_rate :: "rate_limiter option"
  rt_block_mode :: string
  rt_force_dnssec :: bool
  rt_cache :: "nat option"
  rt_hedged :: bool
  rt_upstream_timeout :: duration
  rt_cache_key :: "answer_settings option"
  rt_blocked_cats :: "string list"
  rt_cat_domains :: "(string \<times> string) list"
  rt_privacy_level :: int
  rt_privacy_detail_hours :: int
  rt_privacy_domain_k :: int

record route =
  via_upstream :: string
  via_forwarder :: string

record stats =
  n_total :: u64
  n_blocked :: u64
  n_cached :: u64
  n_forwarded :: u64
  n_rewritten :: u64
  n_errors :: u64

record resolver =
  r_timeout :: duration
  r_zones :: zones
  r_query_log :: bool
  r_stats :: stats
  r_rt :: runtime
  r_pol :: policy
  r_refreshing :: "string list"
  r_pause_until :: int
  r_maintenance :: bool
  r_control_plane_only :: bool
  r_health :: health_state
  r_cat_db :: "holder option"
  r_upstreams :: "((string \<times> duration) \<times> up_ref) list"
  r_next_up :: nat
  r_caches :: "nat \<Rightarrow> cache"
  r_next_cache :: nat

definition empty_runtime :: runtime where
  [model]: "empty_runtime = \<lparr>rt_default_ups = [], rt_default_labels = [], rt_conditional = [], rt_rate = None,
     rt_block_mode = ''nxdomain'', rt_force_dnssec = False, rt_cache = None, rt_hedged = False,
     rt_upstream_timeout = 0, rt_cache_key = None, rt_blocked_cats = [], rt_cat_domains = [],
     rt_privacy_level = 0, rt_privacy_detail_hours = 0, rt_privacy_domain_k = 0\<rparr>"

definition new_resolver :: "dns_lib \<Rightarrow> duration \<Rightarrow> zones \<Rightarrow> bool \<Rightarrow> resolver" where
  [model]: "new_resolver L timeout zs query_log =
     \<lparr>r_timeout = (if timeout \<le> 0 then 5 * second else timeout), r_zones = zs, r_query_log = query_log,
      r_stats = \<lparr>n_total = 0, n_blocked = 0, n_cached = 0, n_forwarded = 0, n_rewritten = 0, n_errors = 0\<rparr>,
      r_rt = empty_runtime,
      r_pol = \<lparr>p_block = new_engine, p_allow = new_engine, p_rewrites = [], p_wildcards = [], p_reverse = []\<rparr>,
      r_refreshing = [], r_pause_until = 0, r_maintenance = False, r_control_plane_only = False,
      r_health = new_health, r_cat_db = None, r_upstreams = [], r_next_up = 0,
      r_caches = (\<lambda>_. new_cache 0 0 0), r_next_cache = 0\<rparr>"

subsection \<open>Applying settings\<close>

text \<open>
  The upstreams of one list: an unchanged (spec, timeout) keeps its object. With ordered failover
  all but the last get the per-upstream timeout as their own.
\<close>

record parse_state =
  ps_ups :: "up_ref list"
  ps_labels :: "string list"
  ps_used :: "((string \<times> duration) \<times> up_ref) list"
  ps_next :: nat

definition parse_one ::
  "url_parser \<Rightarrow> duration \<Rightarrow> ((string \<times> duration) \<times> up_ref) list \<Rightarrow> duration \<Rightarrow> nat
   \<Rightarrow> nat \<times> string \<Rightarrow> parse_state \<Rightarrow> parse_state" where
  [model]: "parse_one url full existing per n is st =
     (let (i, s) = is;
          timeout = (if per > 0 \<and> per < full \<and> i + 1 < n then per else full);
          key = (s, timeout);
          (u, nxt) = (case map_of existing key of
             Some u \<Rightarrow> (u, ps_next st)
           | None \<Rightarrow> ((ps_next st, parse_upstream s timeout), ps_next st + 1))
      in \<lparr>ps_ups = ps_ups st @ [u], ps_labels = ps_labels st @ [upstream_label url s],
          ps_used = AList.update key u (ps_used st), ps_next = nxt\<rparr>)"

definition parse_upstreams ::
  "url_parser \<Rightarrow> duration \<Rightarrow> ((string \<times> duration) \<times> up_ref) list \<Rightarrow> string list \<Rightarrow> duration
   \<Rightarrow> ((string \<times> duration) \<times> up_ref) list \<Rightarrow> nat \<Rightarrow> parse_state" where
  [model]: "parse_upstreams url full existing specs per used nxt =
     fold (parse_one url full existing per (length specs)) (enumerate 0 specs)
       \<lparr>ps_ups = [], ps_labels = [], ps_used = used, ps_next = nxt\<rparr>"

definition add_group ::
  "url_parser \<Rightarrow> duration \<Rightarrow> ((string \<times> duration) \<times> up_ref) list \<Rightarrow> duration \<Rightarrow> forward_group
   \<Rightarrow> cond_forward list \<times> ((string \<times> duration) \<times> up_ref) list \<times> nat
   \<Rightarrow> cond_forward list \<times> ((string \<times> duration) \<times> up_ref) list \<times> nat" where
  [model]: "add_group url full existing per f st =
     (case st of (cfs, used, nxt) \<Rightarrow>
        let suf = to_lower (trim_suffix (trim_space (fg_suffix f)) ''.'') in
        if suf = [] then (cfs, used, nxt)
        else let ps = parse_upstreams url full existing (fg_upstreams f) per used nxt in
             (cfs @ [\<lparr>cf_suffix = suf, cf_dot_suffix = ''.'' @ suf, cf_ups = ps_ups ps, cf_labels = ps_labels ps\<rparr>],
              ps_used ps, ps_next ps))"

definition block_mode_of :: "string \<Rightarrow> string" where
  [model]: "block_mode_of s = (if s \<noteq> ''zeroip'' then ''nxdomain'' else s)"

definition add_correction :: "string \<times> string \<Rightarrow> (string \<times> string) list \<Rightarrow> (string \<times> string) list" where
  [model]: "add_correction dc m = AList.update (to_lower (trim_suffix (fst dc) ''.'')) (snd dc) m"

record orders =
  od_conditional :: "cond_forward list \<Rightarrow> cond_forward list"
  od_corrections :: "(string \<times> string) list \<Rightarrow> (string \<times> string) list"

definition apply_settings :: "url_parser \<Rightarrow> orders \<Rightarrow> settings \<Rightarrow> resolver \<Rightarrow> resolver" where
  [model]: "apply_settings url od s r =
     (let hedged = (normalize_upstream_strategy (se_upstream_strategy s) = ''hedged'');
          up_timeout = (if hedged then 0
                        else normalize_upstream_timeout_ms (se_upstream_timeout_ms s) * millisecond);
          per = up_timeout;
          ps = parse_upstreams url (r_timeout r) (r_upstreams r) (se_upstreams s) per [] (r_next_up r);
          (cfs, used, next_up) = fold (add_group url (r_timeout r) (r_upstreams r) per) (se_forwarders s)
             ([], ps_used ps, ps_next ps);
          rate = (if se_rate_limit_qpm s > 0 then Some (new_rate_limiter (se_rate_limit_qpm s)) else None);
          prev = r_rt r;
          cs = se_cache s;
          keep = (rt_cache prev \<noteq> None \<and> rt_cache_key prev = Some (answer_key s));
          fresh = new_cache (cs_max_entries cs) (cs_min_ttl_sec cs * second) (cs_max_ttl_sec cs * second);
          cats = se_blocked_categories s;
          rt = \<lparr>rt_default_ups = ps_ups ps, rt_default_labels = ps_labels ps,
            rt_conditional = od_conditional od cfs, rt_rate = rate,
            rt_block_mode = block_mode_of (se_block_response s), rt_force_dnssec = se_dnssec s,
            rt_cache = (if \<not> cs_enabled cs then None else if keep then rt_cache prev else Some (r_next_cache r)),
            rt_hedged = hedged, rt_upstream_timeout = up_timeout,
            rt_cache_key = (if cs_enabled cs then Some (answer_key s) else None),
            rt_blocked_cats = cats,
            rt_cat_domains = (if cats = [] then []
              else fold add_correction (od_corrections od (se_category_domains s)) []),
            rt_privacy_level = se_privacy_level s, rt_privacy_detail_hours = se_privacy_detail_hours s,
            rt_privacy_domain_k = se_privacy_domain_k s\<rparr>
      in r\<lparr>r_rt := rt, r_upstreams := used, r_next_up := next_up,
           r_caches := (if cs_enabled cs \<and> \<not> keep then (r_caches r)(r_next_cache r := fresh) else r_caches r),
           r_next_cache := (if cs_enabled cs \<and> \<not> keep then r_next_cache r + 1 else r_next_cache r),
           r_cat_db := map_option (set_wanted cats) (r_cat_db r)\<rparr>)"

text \<open>A nil policy is \<open>None\<close>, a nil engine an empty one.\<close>

definition set_policy ::
  "dns_lib \<Rightarrow> ((string \<times> rewrite_rr list) list \<Rightarrow> (string \<times> rewrite_rr list) list)
   \<Rightarrow> policy option \<Rightarrow> resolver \<Rightarrow> resolver" where
  [model]: "set_policy L visit p r =
     (case p of None \<Rightarrow> r
      | Some p \<Rightarrow> r\<lparr>r_pol := p\<lparr>p_reverse := build_reverse L visit (p_rewrites p)\<rparr>\<rparr>)"

definition block_paused :: "time \<Rightarrow> resolver \<Rightarrow> bool" where
  [model]: "block_paused now r \<longleftrightarrow> r_pause_until r > now div second"

subsection \<open>Blocked categories\<close>

function correction_walk :: "(string \<times> string) list \<Rightarrow> string \<Rightarrow> string option" where
  "correction_walk m n =
     (case map_of m n of
        Some c \<Rightarrow> Some c
      | None \<Rightarrow> (case index_byte CHR ''.'' n of
                   None \<Rightarrow> None | Some i \<Rightarrow> correction_walk m (drop (i + 1) n)))"
  by pat_completeness auto
termination
  by (relation "measure (\<lambda>(m, n). length n)") (auto simp: index_byte_Some)

declare correction_walk.simps [simp del]

text \<open>The category, and whether it is blocked.\<close>

definition blocked_category :: "resolver \<Rightarrow> string \<Rightarrow> string \<times> bool" where
  [model]: "blocked_category r name =
     (let rt = r_rt r in
      if rt_blocked_cats rt = [] then ([], False)
      else case (if rt_cat_domains rt = [] then None else correction_walk (rt_cat_domains rt) name) of
        Some c \<Rightarrow> (c, c \<in> set (rt_blocked_cats rt))
      | None \<Rightarrow> (case Option.bind (r_cat_db r) (\<lambda>h. holder_lookup h name) of
          Some c \<Rightarrow> if c \<in> set (rt_blocked_cats rt) then (c, True) else ([], False)
        | None \<Rightarrow> ([], False)))"

subsection \<open>Answers and hygiene\<close>

definition blocked_response :: "dns_lib \<Rightarrow> msg \<Rightarrow> question \<Rightarrow> string \<Rightarrow> msg" where
  [model]: "blocked_response L req q mode =
     (let m = (lib_set_reply L req)\<lparr>m_authoritative := True\<rparr> in
      if mode = ''zeroip'' \<and> q_type q = type_A then
        m\<lparr>m_answer := m_answer m @ [rr_header (q_name q) type_A (AddrA ipv4_zero)]\<rparr>
      else if mode = ''zeroip'' \<and> q_type q = type_AAAA then
        m\<lparr>m_answer := m_answer m @ [rr_header (q_name q) type_AAAA (AddrAAAA ipv6_zero)]\<rparr>
      else m\<lparr>m_rcode := rcode_name_error\<rparr>)"

definition is_dnssec_type :: "u16 \<Rightarrow> bool" where
  [model]: "is_dnssec_type t \<longleftrightarrow> t \<in> {type_RRSIG, type_NSEC, type_NSEC3, type_NSEC3PARAM,
     type_DNSKEY, type_DS, type_CDS, type_CDNSKEY}"

definition strip_dnssec :: "dns_lib \<Rightarrow> msg \<Rightarrow> msg" where
  [model]: "strip_dnssec L m =
     (let keep = filter (\<lambda>r. \<not> is_dnssec_type (rr_type r)) in
      upd_opt L (lib_set_do L False)
        (m\<lparr>m_answer := keep (m_answer m), m_ns := keep (m_ns m), m_extra := keep (m_extra m)\<rparr>))"

fun drop_first :: "('a \<Rightarrow> bool) \<Rightarrow> 'a list \<Rightarrow> 'a list" where
  "drop_first P [] = []"
| "drop_first P (x # xs) = (if P x then xs else x # drop_first P xs)"

definition remove_opt :: "msg \<Rightarrow> msg" where
  [model]: "remove_opt m = m\<lparr>m_extra := drop_first (\<lambda>r. rr_type r = type_OPT) (m_extra m)\<rparr>"

definition ensure_do :: "dns_lib \<Rightarrow> msg \<Rightarrow> msg" where
  [model]: "ensure_do L m =
     (case opt_record L m of
        None \<Rightarrow> lib_set_edns0 L large_udp_size True m
      | Some _ \<Rightarrow> upd_opt L (\<lambda>o1. let o2 = lib_set_do L True o1 in
           if lib_udp_size L o2 < large_udp_size then lib_set_udp_size L large_udp_size o2 else o2) m)"

definition finalize :: "dns_lib \<Rightarrow> bool \<Rightarrow> bool \<Rightarrow> msg \<Rightarrow> msg" where
  [model]: "finalize L client_edns client_do resp =
     (let resp = resp\<lparr>m_rec_available := True\<rparr>;
          resp = (if \<not> client_do then strip_dnssec L resp else resp) in
      if client_edns
      then (if opt_record L resp = None then lib_set_edns0 L large_udp_size client_do resp else resp)
      else remove_opt resp)"

subsection \<open>The pipeline\<close>

text \<open>What a query comes with: its client, the clock, and the orders of map iterations.\<close>

record call =
  c_client :: string
  c_now :: time
  c_done :: time
  c_rl_visit :: "rl_shard \<Rightarrow> rl_shard"
  c_cache_visit :: "cshard \<Rightarrow> cshard"

type_synonym flight_result = "msg option \<times> duration \<times> route \<times> go_error option"

text \<open>
  Up to the forward: an answer with action and category (and, for a cache hit to be renewed, the
  refresh to start), or the request to forward with its key.
\<close>

datatype front =
    Answered msg string string "(string \<times> msg) option"
  | ToForward msg string bool

definition want_signed :: "dns_lib \<Rightarrow> runtime \<Rightarrow> msg \<Rightarrow> bool" where
  [model]: "want_signed L rt req \<longleftrightarrow>
     rt_force_dnssec rt \<or> (case opt_record L req of None \<Rightarrow> False | Some o1 \<Rightarrow> lib_do L o1)"

definition query_name :: "question \<Rightarrow> string" where
  [model]: "query_name q = to_lower (trim_suffix (q_name q) ''.'')"

text \<open>Step 2: the rewrite, unless a more specific conditional forwarder overrides a wildcard.\<close>

definition rewrite_step :: "dns_lib \<Rightarrow> runtime \<Rightarrow> policy \<Rightarrow> msg \<Rightarrow> question \<Rightarrow> string \<Rightarrow> msg option" where
  [model]: "rewrite_step L rt pol req q name =
     (case lookup_rewrite pol name of
        None \<Rightarrow> None
      | Some (rrs, wild_suffix) \<Rightarrow>
          let override = (wild_suffix \<noteq> [] \<and>
            (case conditional_for (rt_conditional rt) name of
               None \<Rightarrow> False | Some cf \<Rightarrow> length (cf_suffix cf) > length wild_suffix)) in
          if override then None else rewrite_response L req q rrs)"

definition ptr_step :: "dns_lib \<Rightarrow> runtime \<Rightarrow> policy \<Rightarrow> msg \<Rightarrow> question \<Rightarrow> string \<Rightarrow> msg option" where
  [model]: "ptr_step L rt pol req q name =
     (if q_type q = type_PTR then rewrite_ptr L (rt_conditional rt) pol req q name else None)"

text \<open>Step 3: the category to block under, if the name is blocked.\<close>

definition block_step :: "time \<Rightarrow> resolver \<Rightarrow> string \<Rightarrow> string option" where
  [model]: "block_step now r name =
     (if block_paused now r then None
      else let pol = r_pol r; allowed = is_blocked_normalized (p_allow pol) name in
        case match_normalized (p_block pol) name of
          Some c \<Rightarrow> if \<not> allowed then Some c
                    else (case blocked_category r name of (c, b) \<Rightarrow> if b \<and> \<not> allowed then Some c else None)
        | None \<Rightarrow> (case blocked_category r name of (c, b) \<Rightarrow> if b \<and> \<not> allowed then Some c else None))"

definition refresh_stale :: "dns_lib \<Rightarrow> runtime \<Rightarrow> msg \<Rightarrow> question \<Rightarrow> bool \<Rightarrow> resolver
    \<Rightarrow> (string \<times> msg) option \<times> resolver" where
  [model]: "refresh_stale L rt req q dsec r =
     (let key = forward_key q dsec in
      if key \<in> set (r_refreshing r) then (None, r)
      else (Some (key, if rt_force_dnssec rt then ensure_do L req else req),
            r\<lparr>r_refreshing := key # r_refreshing r\<rparr>))"

definition refresh_done :: "string \<Rightarrow> resolver \<Rightarrow> resolver" where
  [model]: "refresh_done key r = r\<lparr>r_refreshing := removeAll key (r_refreshing r)\<rparr>"

abbreviation count_total :: "resolver \<Rightarrow> resolver" where
  "count_total r \<equiv> r\<lparr>r_stats := (r_stats r)\<lparr>n_total := n_total (r_stats r) + 1\<rparr>\<rparr>"

abbreviation count_blocked :: "resolver \<Rightarrow> resolver" where
  "count_blocked r \<equiv> r\<lparr>r_stats := (r_stats r)\<lparr>n_blocked := n_blocked (r_stats r) + 1\<rparr>\<rparr>"

abbreviation count_cached :: "resolver \<Rightarrow> resolver" where
  "count_cached r \<equiv> r\<lparr>r_stats := (r_stats r)\<lparr>n_cached := n_cached (r_stats r) + 1\<rparr>\<rparr>"

abbreviation count_forwarded :: "resolver \<Rightarrow> resolver" where
  "count_forwarded r \<equiv> r\<lparr>r_stats := (r_stats r)\<lparr>n_forwarded := n_forwarded (r_stats r) + 1\<rparr>\<rparr>"

abbreviation count_rewritten :: "resolver \<Rightarrow> resolver" where
  "count_rewritten r \<equiv> r\<lparr>r_stats := (r_stats r)\<lparr>n_rewritten := n_rewritten (r_stats r) + 1\<rparr>\<rparr>"

abbreviation count_error :: "resolver \<Rightarrow> resolver" where
  "count_error r \<equiv> r\<lparr>r_stats := (r_stats r)\<lparr>n_errors := n_errors (r_stats r) + 1\<rparr>\<rparr>"

definition rate_step :: "call \<Rightarrow> resolver \<Rightarrow> bool \<times> resolver" where
  [model]: "rate_step c r =
     (case rt_rate (r_rt r) of
        None \<Rightarrow> (True, r)
      | Some rl \<Rightarrow> (case allow (Some rl) (c_client c) (c_now c) (c_rl_visit c) of
          (ok, rl') \<Rightarrow> (ok, r\<lparr>r_rt := (r_rt r)\<lparr>rt_rate := rl'\<rparr>\<rparr>)))"

definition cache_step :: "dns_lib \<Rightarrow> call \<Rightarrow> msg \<Rightarrow> question \<Rightarrow> resolver \<Rightarrow> front option \<times> resolver" where
  [model]: "cache_step L c req q r =
     (let rt = r_rt r; dsec = want_signed L rt req in
      case rt_cache rt of
        None \<Rightarrow> (None, r)
      | Some k \<Rightarrow>
          (case cache_get (r_caches r k) q dsec (c_now c) of
             (hit, cch) \<Rightarrow>
               let r = r\<lparr>r_caches := (r_caches r)(k := cch)\<rparr> in
               case hit of
                 None \<Rightarrow> (None, r)
               | Some (m, refresh) \<Rightarrow>
                   let r = count_cached r;
                       (job, r) = (if refresh then refresh_stale L rt req q dsec r else (None, r)) in
                   (Some (Answered (m\<lparr>m_id := m_id req\<rparr>) ''cache'' [] job), r)))"

definition resolve_front :: "dns_lib \<Rightarrow> call \<Rightarrow> msg \<Rightarrow> resolver \<Rightarrow> front \<times> resolver" where
  [model]: "resolve_front L c req r0 =
     (let r1 = count_total r0 in
      case m_question req of
        [] \<Rightarrow> (Answered (lib_set_rcode L req rcode_format_error) ''error'' [] None, r1)
      | q # _ \<Rightarrow>
          (case rate_step c r1 of (ok, r) \<Rightarrow>
            if \<not> ok then (Answered (lib_set_rcode L req rcode_refused) ''refused'' [] None, r)
            else
              let rt = r_rt r; name = query_name q; pol = r_pol r in
              case match_zone (r_zones r) name of
                Some z \<Rightarrow> (Answered (zone_answer L z req q name) ''authoritative'' [] None, r)
              | None \<Rightarrow>
                (case rewrite_step L rt pol req q name of
                   Some m \<Rightarrow> (Answered m ''rewrite'' [] None, count_rewritten r)
                 | None \<Rightarrow>
                   (case ptr_step L rt pol req q name of
                      Some m \<Rightarrow> (Answered m ''rewrite'' [] None, count_rewritten r)
                    | None \<Rightarrow>
                      (case block_step (c_now c) r name of
                         Some cat \<Rightarrow> (Answered (blocked_response L req q (rt_block_mode rt)) ''blocked'' cat None,
                                      count_blocked r)
                       | None \<Rightarrow>
                         (case cache_step L c req q r of
                            (Some a, r) \<Rightarrow> (a, r)
                          | (None, r) \<Rightarrow>
                              (ToForward (if rt_force_dnssec rt then ensure_do L req else req)
                                 (forward_key q (want_signed L rt req)) (want_signed L rt req), r)))))))"

subsection \<open>Forwarding\<close>

definition upstreams_for :: "runtime \<Rightarrow> string \<Rightarrow> up_ref list \<times> string list \<times> string" where
  [model]: "upstreams_for rt name =
     (case conditional_for (rt_conditional rt) name of
        Some cf \<Rightarrow> (cf_ups cf, cf_labels cf, cf_suffix cf)
      | None \<Rightarrow> (rt_default_ups rt, rt_default_labels rt, []))"

definition no_route :: route where
  [model]: "no_route = \<lparr>via_upstream = [], via_forwarder = []\<rparr>"

text \<open>
  What the leader of a flight does; \<open>fwd\<close> is what \<open>forward\<close> returned for these upstreams (the two
  strategies are in \<open>Forwarding\<close>).
\<close>

definition forward_and_cache ::
  "call \<Rightarrow> question \<Rightarrow> string \<Rightarrow> bool \<Rightarrow> (up_ref list \<Rightarrow> fwd_result) \<Rightarrow> resolver \<Rightarrow> flight_result \<times> resolver" where
  [model]: "forward_and_cache c q name dsec fwd r =
     (let rt = r_rt r; (ups, labels, forwarder) = upstreams_for rt name in
      case fwd ups of (m, rtt, idx, err) \<Rightarrow>
        (case (m, err) of
           (Some a, None) \<Rightarrow>
             let r1 = r\<lparr>r_health := (r_health r)\<lparr>hs_last_fwd_ok := touch (hs_last_fwd_ok (r_health r)) (c_done c)\<rparr>\<rparr>;
                 r2 = (case rt_cache rt of
                         None \<Rightarrow> r1
                       | Some k \<Rightarrow> r1\<lparr>r_caches := (r_caches r1)
                            (k := cache_set (r_caches r1 k) q dsec (Some a) (c_done c) (c_cache_visit c))\<rparr>)
             in ((m, rtt, \<lparr>via_upstream = (if 0 \<le> idx \<and> idx < int (length labels) then labels ! nat idx else []),
                          via_forwarder = forwarder\<rparr>, None), r2)
         | _ \<Rightarrow> ((m, rtt, no_route, err), r\<lparr>r_health := forward_failed err (c_done c) (r_health r)\<rparr>)))"

text \<open>The flight of a cache miss: led by this query, or joined (then with its leader's result).\<close>

datatype flight = Lead "up_ref list \<Rightarrow> fwd_result" | Join flight_result

definition run_flight :: "call \<Rightarrow> question \<Rightarrow> string \<Rightarrow> bool \<Rightarrow> flight \<Rightarrow> resolver \<Rightarrow> flight_result \<times> resolver" where
  [model]: "run_flight c q name dsec f r =
     (case f of Lead fwd \<Rightarrow> forward_and_cache c q name dsec fwd r | Join res \<Rightarrow> (res, r))"

definition resolve_back ::
  "dns_lib \<Rightarrow> msg \<Rightarrow> flight_result \<Rightarrow> resolver \<Rightarrow> (msg \<times> string \<times> string \<times> route) \<times> resolver" where
  [model]: "resolve_back L req res r =
     (case res of (m, rtt, answered, err) \<Rightarrow>
        (case (m, err) of
           (Some a, None) \<Rightarrow> ((a\<lparr>m_id := m_id req\<rparr>, ''forward'', [], answered), count_forwarded r)
         | _ \<Rightarrow> ((lib_set_rcode L req rcode_server_failure, ''error'', [], no_route), count_error r)))"

definition resolve ::
  "dns_lib \<Rightarrow> call \<Rightarrow> flight \<Rightarrow> msg \<Rightarrow> resolver \<Rightarrow> (msg \<times> string \<times> string \<times> route) \<times> resolver" where
  [model]: "resolve L c f req r =
     (case resolve_front L c req r of
        (Answered m action cat job, r) \<Rightarrow> ((m, action, cat, no_route), r)
      | (ToForward req' key dsec, r) \<Rightarrow>
          let q = hd (m_question req) in
          case run_flight c q (query_name q) dsec f r of (res, r) \<Rightarrow> resolve_back L req' res r)"

text \<open>The background fetch of a refresh: through the same flights, with the runtime of the query that
  started it, which a reload may have replaced meanwhile; then the key is free again.\<close>

definition refresh_fetch ::
  "call \<Rightarrow> runtime \<Rightarrow> question \<Rightarrow> string \<Rightarrow> bool \<Rightarrow> flight \<Rightarrow> resolver \<Rightarrow> resolver" where
  [model]: "refresh_fetch c rt q name dsec f r =
     refresh_done (forward_key q dsec) ((snd (run_flight c q name dsec f (r\<lparr>r_rt := rt\<rparr>)))\<lparr>r_rt := r_rt r\<rparr>)"

subsection \<open>Handling a query\<close>

record query_event =
  qe_ts :: time
  qe_client :: string
  qe_name :: string
  qe_type :: u16
  qe_action :: string
  qe_category :: string
  qe_rcode :: nat
  qe_elapsed :: duration
  qe_upstream :: string
  qe_forwarder :: string

text \<open>The line of the process log, if one is written: name and client as logged.\<close>

definition log_line :: "int \<Rightarrow> string \<Rightarrow> string \<Rightarrow> (string \<times> string) option" where
  [model]: "log_line level name client =
     (if level < 3 then Some (if level \<ge> 1 then ''hidden'' else name, if level \<ge> 2 then ''hidden'' else client)
      else None)"

definition record_query ::
  "call \<Rightarrow> msg \<Rightarrow> msg \<Rightarrow> string \<Rightarrow> string \<Rightarrow> route \<Rightarrow> resolver
   \<Rightarrow> query_event option \<times> (string \<times> string) option \<times> resolver" where
  [model]: "record_query c req resp action category via r =
     (case m_question req of
        [] \<Rightarrow> (None, None, r)
      | q # _ \<Rightarrow>
          let r = r\<lparr>r_health := (r_health r)\<lparr>hs_last_query := touch (hs_last_query (r_health r)) (c_now c)\<rparr>\<rparr> in
          (Some \<lparr>qe_ts = c_now c, qe_client = c_client c, qe_name = q_name q, qe_type = q_type q,
             qe_action = action, qe_category = category, qe_rcode = m_rcode resp,
             qe_elapsed = c_done c - c_now c, qe_upstream = via_upstream via, qe_forwarder = via_forwarder via\<rparr>,
           if r_query_log r then log_line (rt_privacy_level (r_rt r)) (q_name q) (c_client c) else None,
           r))"

record handled =
  hd_reply :: msg
  hd_event :: "query_event option"
  hd_log :: "(string \<times> string) option"

definition handle :: "dns_lib \<Rightarrow> bool \<Rightarrow> call \<Rightarrow> flight \<Rightarrow> msg \<Rightarrow> resolver \<Rightarrow> handled \<times> resolver" where
  [model]: "handle L udp c f req r =
     (if is_probe req then (\<lparr>hd_reply = probe_response L req, hd_event = None, hd_log = None\<rparr>, r)
      else if r_control_plane_only r
      then (\<lparr>hd_reply = lib_set_rcode L req rcode_refused, hd_event = None, hd_log = None\<rparr>, r)
      else if r_maintenance r
      then (\<lparr>hd_reply = lib_set_rcode L req rcode_server_failure, hd_event = None, hd_log = None\<rparr>, r)
      else
        let client_edns = (opt_record L req \<noteq> None);
            client_do = (case opt_record L req of None \<Rightarrow> False | Some o1 \<Rightarrow> lib_do L o1) in
        case resolve L c f req r of ((resp, action, category, via), r) \<Rightarrow>
          let resp = finalize L client_edns client_do resp;
              resp = (if udp then lib_truncate L large_udp_size resp else resp) in
          case record_query c req resp action category via r of (ev, line, r) \<Rightarrow>
            (\<lparr>hd_reply = resp, hd_event = ev, hd_log = line\<rparr>, r))"

definition client_ip :: "string option \<Rightarrow> string" where
  [model]: "client_ip a = (case a of None \<Rightarrow> []
     | Some s \<Rightarrow> (case split_host_port s of Some (host, _) \<Rightarrow> host | None \<Rightarrow> s))"

subsection \<open>Message hygiene\<close>

lemma drop_first_subset: "set (drop_first P xs) \<subseteq> set xs"
  by (induction xs) auto

lemma drop_first_only: "length (filter P xs) \<le> 1 \<Longrightarrow> \<forall>x\<in>set (drop_first P xs). \<not> P x"
  by (induction xs) (auto simp: filter_empty_conv)

definition no_dnssec :: "msg \<Rightarrow> bool" where
  "no_dnssec m \<longleftrightarrow> (\<forall>r\<in>set (m_answer m) \<union> set (m_ns m) \<union> set (m_extra m). \<not> is_dnssec_type (rr_type r))"

definition opts :: "msg \<Rightarrow> rr list" where
  "opts m = filter (\<lambda>r. rr_type r = type_OPT) (m_extra m)"

lemma map_types_update: "rr_type x = rr_type (xs ! i) \<Longrightarrow> i < length xs \<Longrightarrow> map rr_type (xs[i := x]) = map rr_type xs"
  by (simp add: map_update list_update_same_conv)

lemma upd_opt_types:
  assumes "dns_lib_ok L" and "\<And>r. rr_type (f r) = rr_type r"
  shows "map rr_type (m_extra (upd_opt L f m)) = map rr_type (m_extra m)"
proof (cases "lib_opt L m")
  case None
  then show ?thesis by (simp add: upd_opt_def)
next
  case (Some i)
  with lib_opt_Some [OF assms(1) Some] show ?thesis
    by (simp add: upd_opt_def assms(2) map_types_update)
qed

lemma opts_types: "map rr_type (m_extra m) = map rr_type (m_extra m') \<Longrightarrow> length (opts m) = length (opts m')"
proof -
  assume eq: "map rr_type (m_extra m) = map rr_type (m_extra m')"
  have "length (opts x) = length (filter (\<lambda>t. t = type_OPT) (map rr_type (m_extra x)))" for x
    by (simp add: opts_def filter_map comp_def)
  then show ?thesis by (simp only: eq)
qed

lemma strip_dnssec_frame [simp]:
  "m_id (strip_dnssec L m) = m_id m" "m_rcode (strip_dnssec L m) = m_rcode m"
  "m_answer (strip_dnssec L m) = filter (\<lambda>r. \<not> is_dnssec_type (rr_type r)) (m_answer m)"
  "m_ns (strip_dnssec L m) = filter (\<lambda>r. \<not> is_dnssec_type (rr_type r)) (m_ns m)"
  by (simp_all add: strip_dnssec_def Let_def)

lemma strip_dnssec_types:
  assumes "dns_lib_ok L"
  shows "map rr_type (m_extra (strip_dnssec L m)) = filter (\<lambda>t. \<not> is_dnssec_type t) (map rr_type (m_extra m))"
  using upd_opt_types [OF assms, of "lib_set_do L False"] lib_setters(1) [OF assms]
  by (simp add: strip_dnssec_def Let_def filter_map comp_def)

lemma OPT_not_dnssec: "\<not> is_dnssec_type 41"
  by (simp add: is_dnssec_type_def)

lemma strip_dnssec_opts: "dns_lib_ok L \<Longrightarrow> length (opts (strip_dnssec L m)) = length (opts m)"
proof -
  assume lib: "dns_lib_ok L"
  have l: "length (opts x) = length (filter (\<lambda>t. t = type_OPT) (map rr_type (m_extra x)))" for x
    by (simp add: opts_def filter_map comp_def)
  have "filter (\<lambda>t. t = type_OPT) (filter (\<lambda>t. \<not> is_dnssec_type t) ts) = filter (\<lambda>t. t = type_OPT) ts" for ts
    using OPT_not_dnssec by (induction ts) auto
  then show ?thesis unfolding l strip_dnssec_types [OF lib] by simp
qed

lemma opts_none: "dns_lib_ok L \<Longrightarrow> opt_record L m = None \<longleftrightarrow> opts m = []"
  using lib_opt_None [of L m] by (auto simp: opt_record_def opts_def filter_empty_conv)

lemma finalize_id: "dns_lib_ok L \<Longrightarrow> m_id (finalize L e d m) = m_id m \<and> m_rcode (finalize L e d m) = m_rcode m"
  by (simp add: finalize_def Let_def remove_opt_def lib_edns0_frame)

lemma ensure_do_id: "dns_lib_ok L \<Longrightarrow> m_id (ensure_do L m) = m_id m"
  by (simp add: ensure_do_def lib_edns0_frame split: option.split)

subsection \<open>What leaves the pipeline\<close>

lemma zone_answer_id: "dns_lib_ok L \<Longrightarrow> m_id (zone_answer L z req q name) = m_id req"
  using lib_reply_ok [of L req] by (simp add: zone_answer_def Let_def empty_reply_def)

lemma rewrite_response_id: "dns_lib_ok L \<Longrightarrow> rewrite_response L req q rrs = Some m \<Longrightarrow> m_id m = m_id req"
  using lib_reply_ok [of L req] by (auto simp: rewrite_response_def Let_def empty_reply_def split: if_splits)

lemma rewrite_step_id: "dns_lib_ok L \<Longrightarrow> rewrite_step L rt pol req q name = Some m \<Longrightarrow> m_id m = m_id req"
  by (auto simp: rewrite_step_def Let_def rewrite_response_id split: option.splits if_splits)

lemma ptr_step_id: "dns_lib_ok L \<Longrightarrow> ptr_step L rt pol req q name = Some m \<Longrightarrow> m_id m = m_id req"
  using lib_reply_ok [of L req]
  by (auto simp: ptr_step_def rewrite_ptr_def Let_def empty_reply_def split: option.splits if_splits)

lemma blocked_response_id: "dns_lib_ok L \<Longrightarrow> m_id (blocked_response L req q mode) = m_id req"
  using lib_reply_ok [of L req] by (simp add: blocked_response_def Let_def empty_reply_def)

lemma rcode_id: "dns_lib_ok L \<Longrightarrow> m_id (lib_set_rcode L req rc) = m_id req"
  using lib_rcode_ok [of L req rc] by (simp add: empty_reply_def)

lemmas reply_ids = zone_answer_id rewrite_step_id ptr_step_id blocked_response_id rcode_id

lemma cache_step_id:
  "cache_step L c req q r = (Some a, r') \<Longrightarrow> \<exists>m job. a = Answered m ''cache'' [] job \<and> m_id m = m_id req"
  by (auto simp: cache_step_def Let_def split: option.splits prod.splits if_splits)

lemma resolve_front_id:
  assumes "dns_lib_ok L" and "resolve_front L c req r = (f, r')"
  shows "case f of Answered m action cat job \<Rightarrow> m_id m = m_id req | ToForward req' key dsec \<Rightarrow> m_id req' = m_id req"
proof (cases "m_question req")
  case Nil
  with assms show ?thesis by (auto simp: resolve_front_def Let_def rcode_id)
next
  case (Cons q qs)
  obtain ok r1 where rate: "rate_step c (count_total r) = (ok, r1)" by (metis surj_pair)
  show ?thesis
    using assms Cons reply_ids [OF assms(1)] cache_step_id [of L c req q r1] ensure_do_id [OF assms(1), of req]
    by (auto simp: resolve_front_def Let_def rate split: if_splits option.splits prod.splits)
qed

lemma resolve_back_id: "dns_lib_ok L \<Longrightarrow> m_id (fst (fst (resolve_back L req res r))) = m_id req"
  by (auto simp: resolve_back_def rcode_id split: prod.split option.split)

lemma resolve_id:
  assumes "dns_lib_ok L"
  shows "m_id (fst (fst (resolve L c f req r))) = m_id req"
proof -
  obtain fr r1 where fr: "resolve_front L c req r = (fr, r1)" by (metis surj_pair)
  note ids = resolve_front_id [OF assms fr]
  show ?thesis
  proof (cases fr)
    case (Answered m action cat job)
    with ids show ?thesis by (simp add: resolve_def fr)
  next
    case (ToForward req' key dsec)
    obtain res r2 where "run_flight c (hd (m_question req)) (query_name (hd (m_question req))) dsec f r1 = (res, r2)"
      by (metis surj_pair)
    with ids ToForward resolve_back_id [OF assms, of req' res r2] show ?thesis
      by (simp add: resolve_def fr Let_def)
  qed
qed

text \<open>The order of the steps, as one case distinction on what each of them says.\<close>

lemma resolve_front_order:
  assumes "m_question req = q # qs" and "rate_step c (count_total r) = (ok, r1)"
  shows "resolve_front L c req r =
    (if \<not> ok then (Answered (lib_set_rcode L req rcode_refused) ''refused'' [] None, r1)
     else case match_zone (r_zones r1) (query_name q) of
       Some z \<Rightarrow> (Answered (zone_answer L z req q (query_name q)) ''authoritative'' [] None, r1)
     | None \<Rightarrow>
       (case rewrite_step L (r_rt r1) (r_pol r1) req q (query_name q) of
          Some m \<Rightarrow> (Answered m ''rewrite'' [] None, count_rewritten r1)
        | None \<Rightarrow>
          (case ptr_step L (r_rt r1) (r_pol r1) req q (query_name q) of
             Some m \<Rightarrow> (Answered m ''rewrite'' [] None, count_rewritten r1)
           | None \<Rightarrow>
             (case block_step (c_now c) r1 (query_name q) of
                Some cat \<Rightarrow> (Answered (blocked_response L req q (rt_block_mode (r_rt r1))) ''blocked'' cat None,
                  count_blocked r1)
              | None \<Rightarrow>
                (case cache_step L c req q r1 of
                   (Some a, r2) \<Rightarrow> (a, r2)
                 | (None, r2) \<Rightarrow> (ToForward (if rt_force_dnssec (r_rt r1) then ensure_do L req else req)
                      (forward_key q (want_signed L (r_rt r1) req)) (want_signed L (r_rt r1) req), r2))))))"
  using assms by (simp add: resolve_front_def Let_def)

text \<open>Nothing before the block step changes what it reads.\<close>

lemma rate_step_frame:
  assumes "rate_step c r = (ok, r1)"
  shows "r_pol r1 = r_pol r" "r_zones r1 = r_zones r" "r_pause_until r1 = r_pause_until r"
    "r_cat_db r1 = r_cat_db r" "rt_blocked_cats (r_rt r1) = rt_blocked_cats (r_rt r)"
    "rt_cat_domains (r_rt r1) = rt_cat_domains (r_rt r)" "rt_block_mode (r_rt r1) = rt_block_mode (r_rt r)"
    "r_stats r1 = r_stats r" "rt_conditional (r_rt r1) = rt_conditional (r_rt r)"
    "r_refreshing r1 = r_refreshing r"
  using assms by (auto simp: rate_step_def split: option.splits prod.splits)

lemma block_step_frame:
  assumes "rate_step c (count_total r) = (ok, r1)"
  shows "block_step now r1 name = block_step now r name"
proof -
  have fr: "r_pol r1 = r_pol r" "r_pause_until r1 = r_pause_until r" "r_cat_db r1 = r_cat_db r"
    "rt_blocked_cats (r_rt r1) = rt_blocked_cats (r_rt r)" "rt_cat_domains (r_rt r1) = rt_cat_domains (r_rt r)"
    using rate_step_frame [OF assms] by simp_all
  have bc: "blocked_category r1 name = blocked_category r name"
    unfolding blocked_category_def Let_def fr ..
  show ?thesis unfolding block_step_def block_paused_def Let_def fr bc ..
qed

interpretation corrections: suffix_walk "map_of m" "correction_walk m" for m
proof
  fix n
  show "correction_walk m n = (case map_of m n of Some v \<Rightarrow> Some v
      | None \<Rightarrow> (case parent_name n of None \<Rightarrow> None | Some p \<Rightarrow> correction_walk m p))"
    by (subst correction_walk.simps, cases "index_byte CHR ''.'' n")
      (auto simp: parent_name_def split: option.split)
qed

subsection \<open>Reused upstreams\<close>

definition key_at :: "duration \<Rightarrow> duration \<Rightarrow> nat \<Rightarrow> nat \<Rightarrow> string \<Rightarrow> string \<times> duration" where
  "key_at full per n i s = (s, if per > 0 \<and> per < full \<and> i + 1 < n then per else full)"

lemma parse_one_used:
  "dom (map_of (ps_used (parse_one url full ex per n (i, s) st))) =
     insert (key_at full per n i s) (dom (map_of (ps_used st)))"
  by (auto simp: parse_one_def key_at_def Let_def update_conv' split: option.split prod.split if_splits)

lemma parse_one_next:
  "ps_next (parse_one url full ex per n (i, s) st) =
     (if map_of ex (key_at full per n i s) = None then ps_next st + 1 else ps_next st)"
  by (auto simp: parse_one_def key_at_def Let_def split: option.split)

lemma parse_fold_used:
  "dom (map_of (ps_used (fold (parse_one url full ex per n) xs st))) =
     (\<lambda>(i, s). key_at full per n i s) ` set xs \<union> dom (map_of (ps_used st))"
proof (induction xs arbitrary: st)
  case (Cons x xs)
  obtain i s where x: "x = (i, s)" by (metis surj_pair)
  show ?case unfolding x fold_simps(2) Cons.IH parse_one_used by auto
qed simp

lemma parse_fold_next:
  "\<forall>(i, s)\<in>set xs. map_of ex (key_at full per n i s) \<noteq> None \<Longrightarrow>
     ps_next (fold (parse_one url full ex per n) xs st) = ps_next st"
  by (induction xs arbitrary: st) (auto simp: parse_one_next)

definition list_keys :: "duration \<Rightarrow> duration \<Rightarrow> string list \<Rightarrow> (string \<times> duration) set" where
  "list_keys full per specs = (\<lambda>(i, s). key_at full per (length specs) i s) ` set (enumerate 0 specs)"

lemma parse_upstreams_used:
  "dom (map_of (ps_used (parse_upstreams url full ex specs per used nxt))) =
     list_keys full per specs \<union> dom (map_of used)"
  by (simp add: parse_upstreams_def parse_fold_used list_keys_def)

lemma parse_upstreams_next:
  "list_keys full per specs \<subseteq> dom (map_of ex) \<Longrightarrow> ps_next (parse_upstreams url full ex specs per used nxt) = nxt"
proof -
  assume sub: "list_keys full per specs \<subseteq> dom (map_of ex)"
  have "map_of ex (key_at full per (length specs) i s) \<noteq> None" if "(i, s) \<in> set (enumerate 0 specs)" for i s
  proof -
    have "key_at full per (length specs) i s \<in> list_keys full per specs"
      unfolding list_keys_def using that by (rule rev_image_eqI) simp
    with sub show ?thesis by blast
  qed
  then have "\<forall>(i, s)\<in>set (enumerate 0 specs). map_of ex (key_at full per (length specs) i s) \<noteq> None" by blast
  then show ?thesis unfolding parse_upstreams_def by (simp add: parse_fold_next)
qed

definition group_keys :: "duration \<Rightarrow> duration \<Rightarrow> forward_group \<Rightarrow> (string \<times> duration) set" where
  "group_keys full per f = (if to_lower (trim_suffix (trim_space (fg_suffix f)) ''.'') = [] then {}
     else list_keys full per (fg_upstreams f))"

lemma add_group_used:
  "dom (map_of (fst (snd (add_group url full ex per f st)))) = group_keys full per f \<union> dom (map_of (fst (snd st)))"
  by (cases st) (simp add: add_group_def group_keys_def Let_def parse_upstreams_used)

lemma add_group_next:
  "group_keys full per f \<subseteq> dom (map_of ex) \<Longrightarrow> snd (snd (add_group url full ex per f st)) = snd (snd st)"
  by (cases st) (auto simp: add_group_def group_keys_def Let_def parse_upstreams_next)

lemma add_groups_used:
  "dom (map_of (fst (snd (fold (add_group url full ex per) fs st)))) =
     (\<Union>f\<in>set fs. group_keys full per f) \<union> dom (map_of (fst (snd st)))"
  by (induction fs arbitrary: st) (auto simp: add_group_used)

lemma add_groups_next:
  "(\<Union>f\<in>set fs. group_keys full per f) \<subseteq> dom (map_of ex) \<Longrightarrow>
     snd (snd (fold (add_group url full ex per) fs st)) = snd (snd st)"
  by (induction fs arbitrary: st) (auto simp: add_group_next)

definition failover_per :: "settings \<Rightarrow> duration" where
  "failover_per s = (if normalize_upstream_strategy (se_upstream_strategy s) = ''hedged'' then 0
     else normalize_upstream_timeout_ms (se_upstream_timeout_ms s) * millisecond)"

definition settings_keys :: "duration \<Rightarrow> settings \<Rightarrow> (string \<times> duration) set" where
  "settings_keys full s = list_keys full (failover_per s) (se_upstreams s) \<union>
     (\<Union>f\<in>set (se_forwarders s). group_keys full (failover_per s) f)"

lemma apply_upstreams:
  shows "dom (map_of (r_upstreams (apply_settings url od s r))) = settings_keys (r_timeout r) s"
    and "settings_keys (r_timeout r) s \<subseteq> dom (map_of (r_upstreams r)) \<Longrightarrow>
      r_next_up (apply_settings url od s r) = r_next_up r"
    and "r_timeout (apply_settings url od s r) = r_timeout r"
proof -
  let ?per = "failover_per s"
  let ?ps = "parse_upstreams url (r_timeout r) (r_upstreams r) (se_upstreams s) ?per [] (r_next_up r)"
  let ?g = "fold (add_group url (r_timeout r) (r_upstreams r) ?per) (se_forwarders s) ([], ps_used ?ps, ps_next ?ps)"
  have u: "r_upstreams (apply_settings url od s r) = fst (snd ?g)"
    and n: "r_next_up (apply_settings url od s r) = snd (snd ?g)"
    and t: "r_timeout (apply_settings url od s r) = r_timeout r"
    by (simp_all add: apply_settings_def failover_per_def Let_def split: prod.split)
  show "dom (map_of (r_upstreams (apply_settings url od s r))) = settings_keys (r_timeout r) s"
    unfolding u add_groups_used by (auto simp: settings_keys_def parse_upstreams_used)
  show "r_timeout (apply_settings url od s r) = r_timeout r" by (rule t)
  assume sub: "settings_keys (r_timeout r) s \<subseteq> dom (map_of (r_upstreams r))"
  then have "snd (snd ?g) = ps_next ?ps" by (subst add_groups_next) (auto simp: settings_keys_def)
  also have "\<dots> = r_next_up r" using sub by (intro parse_upstreams_next) (auto simp: settings_keys_def)
  finally show "r_next_up (apply_settings url od s r) = r_next_up r" unfolding n .
qed

end
