(* ===== verification/Resolver_Facts.thy ===== *)
theory Resolver_Facts
  imports Resolver
begin

section \<open>What the resolver promises\<close>

text \<open>
  The properties of \<open>Resolver\<close>: which queries reach the network, what every reply looks like,
  what is counted and logged, what a reload of unchanged settings keeps, and how refreshes of
  stale answers exclude each other.
\<close>

subsection \<open>Blocking\<close>

definition enforced :: "time \<Rightarrow> resolver \<Rightarrow> string \<Rightarrow> bool" where
  "enforced now r name \<longleftrightarrow> \<not> block_paused now r \<and> \<not> is_blocked_normalized (p_allow (r_pol r)) name \<and>
     (match_normalized (p_block (r_pol r)) name \<noteq> None \<or> snd (blocked_category r name))"

lemma block_step_iff: "block_step now r name \<noteq> None \<longleftrightarrow> enforced now r name"
  by (auto simp: block_step_def enforced_def Let_def split: option.split prod.split)

text \<open>What a front may leave: a blocked name never gets past the block step.\<close>

lemma front_blocked:
  assumes "m_question req = q # qs" and "enforced (c_now c) r (query_name q)"
    and "resolve_front L c req r = (fr, r')"
  shows "\<exists>m action cat. fr = Answered m action cat None \<and>
    action \<in> {''refused'', ''authoritative'', ''rewrite'', ''blocked''} \<and> r_caches r' = r_caches r"
proof -
  obtain ok r1 where rate: "rate_step c (count_total r) = (ok, r1)" by (metis surj_pair)
  have caches: "r_caches r1 = r_caches r"
    using rate by (auto simp: rate_step_def split: option.splits prod.splits)
  obtain cat where "block_step (c_now c) r1 (query_name q) = Some cat"
    using assms(2) block_step_frame [OF rate] block_step_iff [of "c_now c" r "query_name q"] by auto
  with assms(3) caches show ?thesis
    by (auto simp: resolve_front_order [OF assms(1) rate] split: option.splits if_splits)
qed

lemma front_unblocked:
  assumes "m_question req = q # qs" and "resolve_front L c req r = (Answered m ''blocked'' cat job, r')"
  shows "enforced (c_now c) r (query_name q) \<and> m = blocked_response L req q (rt_block_mode (r_rt r))"
proof -
  obtain ok r1 where rate: "rate_step c (count_total r) = (ok, r1)" by (metis surj_pair)
  have "block_step (c_now c) r1 (query_name q) \<noteq> None \<and> m = blocked_response L req q (rt_block_mode (r_rt r1))"
    using assms(2) by (auto simp: resolve_front_order [OF assms(1) rate] dest!: cache_step_id
        split: option.splits if_splits prod.splits)
  then show ?thesis
    using block_step_frame [OF rate] block_step_iff [of "c_now c" r "query_name q"] rate_step_frame(7) [OF rate]
    by simp
qed

text \<open>C1: a name that is blocked (by a list or a category, not allowed, blocking not paused) is never
  looked up in the cache or upstream: whatever the upstreams would answer, the reply comes from
  the node itself and the cache is untouched; and only such a name is answered as blocked.\<close>

theorem blocked_stays_local:
  assumes "m_question req = q # qs"
  shows "(enforced (c_now c) r (query_name q) \<longrightarrow>
      fst (snd (fst (resolve L c f req r))) \<in> {''refused'', ''authoritative'', ''rewrite'', ''blocked''} \<and>
      resolve L c f req r = resolve L c f' req r \<and> r_caches (snd (resolve L c f req r)) = r_caches r) \<and>
    (fst (snd (fst (resolve L c f req r))) = ''blocked'' \<longrightarrow>
      enforced (c_now c) r (query_name q) \<and>
      fst (fst (resolve L c f req r)) = blocked_response L req q (rt_block_mode (r_rt r)))"
proof (intro conjI impI)
  obtain fr r' where fr: "resolve_front L c req r = (fr, r')" by (metis surj_pair)
  assume "enforced (c_now c) r (query_name q)"
  from front_blocked [OF assms this fr] fr
  show "fst (snd (fst (resolve L c f req r))) \<in> {''refused'', ''authoritative'', ''rewrite'', ''blocked''}"
    and "resolve L c f req r = resolve L c f' req r" and "r_caches (snd (resolve L c f req r)) = r_caches r"
    by (auto simp: resolve_def)
next
  obtain fr r' where fr: "resolve_front L c req r = (fr, r')" by (metis surj_pair)
  assume "fst (snd (fst (resolve L c f req r))) = ''blocked''"
  with fr obtain m cat job where a: "fr = Answered m ''blocked'' cat job"
    by (cases fr) (auto simp: resolve_def resolve_back_def Let_def split: prod.splits option.splits)
  from front_unblocked [OF assms] fr a
  show "enforced (c_now c) r (query_name q)"
    and "fst (fst (resolve L c f req r)) = blocked_response L req q (rt_block_mode (r_rt r))"
    by (auto simp: resolve_def)
qed

subsection \<open>Hygiene of every reply\<close>

lemma upd_opt_one:
  assumes "dns_lib_ok L" and "\<And>r. rr_type (f r) = rr_type r" and "opts m = [o1]"
  shows "opts (upd_opt L f m) = [f o1]"
proof -
  obtain i where i: "lib_opt L m = Some i"
    using assms(3) lib_opt_None [OF assms(1), of m] by (cases "lib_opt L m") (auto simp: opts_def filter_eq_Cons_iff)
  from lib_opt_Some [OF assms(1) i] have le: "i < length (m_extra m)" and ty: "rr_type (m_extra m ! i) = type_OPT"
    by simp_all
  let ?P = "\<lambda>r. rr_type r = type_OPT"
  have split: "m_extra m = take i (m_extra m) @ m_extra m ! i # drop (Suc i) (m_extra m)"
    using id_take_nth_drop [OF le] .
  have "filter ?P (take i (m_extra m) @ m_extra m ! i # drop (Suc i) (m_extra m)) = [o1]"
    using assms(3) split by (simp add: opts_def)
  with ty have parts: "filter ?P (take i (m_extra m)) = []" "filter ?P (drop (Suc i) (m_extra m)) = []"
    "m_extra m ! i = o1" by (auto simp: append_eq_Cons_conv)
  have "m_extra (upd_opt L f m) = take i (m_extra m) @ f (m_extra m ! i) # drop (Suc i) (m_extra m)"
    using i le by (simp add: upd_opt_def upd_conv_take_nth_drop)
  then show ?thesis using ty parts by (simp add: opts_def assms(2))
qed

lemma strip_keeps_opts: "filter (\<lambda>r. \<not> is_dnssec_type (rr_type r) \<and> rr_type r = type_OPT) xs =
    filter (\<lambda>r. rr_type r = type_OPT) xs"
  by (rule filter_cong) (use OPT_not_dnssec in auto)

lemma strip_dnssec_one:
  assumes "dns_lib_ok L"
  shows "opts m = [o1] \<Longrightarrow> opts (strip_dnssec L m) = [lib_set_do L False o1]"
    and "opts m = [] \<Longrightarrow> opts (strip_dnssec L m) = []"
proof -
  assume "opts m = [o1]"
  then show "opts (strip_dnssec L m) = [lib_set_do L False o1]"
    unfolding strip_dnssec_def Let_def
    by (intro upd_opt_one) (simp_all add: opts_def strip_keeps_opts lib_setters [OF assms] assms)
next
  assume "opts m = []"
  then show "opts (strip_dnssec L m) = []" using strip_dnssec_opts [OF assms, of m] by simp
qed

lemma strip_dnssec_none: "dns_lib_ok L \<Longrightarrow> no_dnssec (strip_dnssec L m)"
proof -
  assume "dns_lib_ok L"
  have "\<forall>t\<in>set (map rr_type (m_extra (strip_dnssec L m))). \<not> is_dnssec_type t"
    unfolding strip_dnssec_types [OF \<open>dns_lib_ok L\<close>] by auto
  then show ?thesis by (auto simp: no_dnssec_def)
qed

lemma edns0_opts:
  assumes "dns_lib_ok L" and "opts m = []"
  shows "\<exists>o1. opts (lib_set_edns0 L n d m) = [o1] \<and> lib_do L o1 = d \<and> lib_udp_size L o1 = n"
  by (rule lib_edns0 [OF assms(1), of n d m]) (use assms(2) in \<open>auto simp: opts_def\<close>)

lemma edns0_no_dnssec: "dns_lib_ok L \<Longrightarrow> no_dnssec m \<Longrightarrow> no_dnssec (lib_set_edns0 L n d m)"
  by (rule lib_edns0 [of L n d m]) (use OPT_not_dnssec in \<open>auto simp: no_dnssec_def\<close>)

lemma remove_opt_none: "length (opts m) \<le> 1 \<Longrightarrow> opts (remove_opt m) = []"
proof -
  assume "length (opts m) \<le> 1"
  from drop_first_only [OF this [unfolded opts_def]] show ?thesis
    unfolding opts_def remove_opt_def by (simp add: filter_empty_conv)
qed

lemma remove_opt_no_dnssec: "no_dnssec m \<Longrightarrow> no_dnssec (remove_opt m)"
  using drop_first_subset [of "\<lambda>r. rr_type r = type_OPT" "m_extra m"]
  by (auto simp: no_dnssec_def remove_opt_def)

lemma few_opts: "length (opts m) \<le> 1 \<longleftrightarrow> opts m = [] \<or> (\<exists>o1. opts m = [o1])"
  by (cases "opts m") auto

lemma recursion_frame [simp]:
  "opts (m\<lparr>m_rec_available := b\<rparr>) = opts m" "m_rec_available (strip_dnssec L m) = m_rec_available m"
  "m_rec_available (remove_opt m) = m_rec_available m"
  by (simp_all add: opts_def strip_dnssec_def Let_def upd_opt_def remove_opt_def split: option.split)

text \<open>The hygiene every reply goes through: it advertises recursion and keeps its ID and code; a
  client without EDNS gets no OPT record; a client with EDNS gets exactly one, which for a client
  without DO has the DO bit clear, and a new one has the DO bit of the client and the size 1232;
  and a client without DO gets no DNSSEC record of any section.\<close>

theorem finalize_hygiene:
  fixes client_edns client_do :: bool
  assumes "dns_lib_ok L" and "length (opts m) \<le> 1"
  defines "m' \<equiv> finalize L client_edns client_do m"
  shows "m_rec_available m' \<and> m_id m' = m_id m \<and> m_rcode m' = m_rcode m \<and>
    (client_edns \<longrightarrow> (\<exists>o1. opts m' = [o1] \<and> (\<not> client_do \<longrightarrow> \<not> lib_do L o1) \<and>
       (opts m = [] \<longrightarrow> lib_do L o1 = client_do \<and> lib_udp_size L o1 = 1232))) \<and>
    (\<not> client_edns \<longrightarrow> opts m' = []) \<and>
    (\<not> client_do \<longrightarrow> no_dnssec m')"
proof -
  note lib = assms(1)
  let ?m1 = "m\<lparr>m_rec_available := True\<rparr>"
  let ?m2 = "if \<not> client_do then strip_dnssec L ?m1 else ?m1"
  have m': "m' = (if client_edns then if opt_record L ?m2 = None then lib_set_edns0 L large_udp_size client_do ?m2
      else ?m2 else remove_opt ?m2)"
    by (simp only: m'_def finalize_def Let_def)
  have ra: "m_rec_available m'" unfolding m' by (simp add: lib_edns0_frame lib)
  have few: "length (opts ?m2) \<le> 1" using assms(2) by (simp add: strip_dnssec_opts lib)
  have clean: "no_dnssec m'" if "\<not> client_do"
    unfolding m' using that by (simp add: edns0_no_dnssec remove_opt_no_dnssec strip_dnssec_none lib)
  have one: "\<exists>o1. opts m' = [o1] \<and> (\<not> client_do \<longrightarrow> \<not> lib_do L o1) \<and>
      (opts m = [] \<longrightarrow> lib_do L o1 = client_do \<and> lib_udp_size L o1 = 1232)" if client_edns
  proof (cases "opts m = []")
    case True
    then have "opts ?m2 = []" by (simp add: strip_dnssec_one lib)
    then have "m' = lib_set_edns0 L large_udp_size client_do ?m2" unfolding m' using that by (simp add: opts_none lib)
    moreover obtain o1 where "opts (lib_set_edns0 L large_udp_size client_do ?m2) = [o1]"
      and "lib_do L o1 = client_do" and "lib_udp_size L o1 = large_udp_size"
      using edns0_opts [OF lib \<open>opts ?m2 = []\<close>] by blast
    ultimately show ?thesis by (simp add: large_udp_size_def)
  next
    case False
    with assms(2) obtain o1 where o1: "opts m = [o1]" unfolding few_opts by blast
    then have o2: "opts ?m2 = [if client_do then o1 else lib_set_do L False o1]" by (simp add: strip_dnssec_one lib)
    then have "m' = ?m2" unfolding m' using that by (simp add: opts_none lib)
    with o1 o2 show ?thesis by (simp add: lib_setters lib)
  qed
  have "opts m' = []" if "\<not> client_edns" unfolding m' using that few by (simp add: remove_opt_none)
  with ra clean one finalize_id [OF lib, of client_edns client_do m] show ?thesis
    unfolding m'_def by blast
qed

definition demo_rr :: "u16 \<Rightarrow> rr" where
  "demo_rr t = \<lparr>rr_name = ''example.com.'', rr_type = t, rr_class = 1, rr_ttl = 60, rr_data = OtherData ''x''\<rparr>"

theorem finalize_hygiene_witness:
  "opts (finalize sample_lib False False (blank_msg\<lparr>m_answer := [demo_rr 1, demo_rr 46],
     m_extra := [opt_rr 4096 True]\<rparr>)) = []"
  using finalize_hygiene [OF sample_lib_ok, of "blank_msg\<lparr>m_answer := [demo_rr 1, demo_rr 46],
     m_extra := [opt_rr 4096 True]\<rparr>" False False]
  by (simp add: opts_def opt_rr_def)

subsection \<open>Every reply\<close>

definition wants_dnssec :: "dns_lib \<Rightarrow> msg \<Rightarrow> bool" where
  "wants_dnssec L req \<longleftrightarrow> (case opt_record L req of None \<Rightarrow> False | Some o1 \<Rightarrow> lib_do L o1)"

definition in_pipeline :: "msg \<Rightarrow> resolver \<Rightarrow> bool" where
  "in_pipeline req r \<longleftrightarrow> \<not> is_probe req \<and> \<not> r_control_plane_only r \<and> \<not> r_maintenance r"

lemma empty_no_dnssec: "empty_reply req rc m \<Longrightarrow> no_dnssec m"
  by (simp add: empty_reply_def no_dnssec_def)

lemma probe_response_ok:
  assumes "dns_lib_ok L"
  shows "m_id (probe_response L req) = m_id req" and "no_dnssec (probe_response L req)"
  using lib_reply_ok [OF assms, of req]
  by (auto simp: probe_response_def Let_def empty_reply_def no_dnssec_def is_dnssec_type_def)

lemma finalize_no_dnssec: "dns_lib_ok L \<Longrightarrow> no_dnssec (finalize L e False m)"
  by (simp add: finalize_def Let_def edns0_no_dnssec remove_opt_no_dnssec strip_dnssec_none)

lemma truncate_no_dnssec: "dns_lib_ok L \<Longrightarrow> no_dnssec m \<Longrightarrow> no_dnssec (lib_truncate L n m)"
  using lib_truncated [of L n m] unfolding no_dnssec_def by blast

lemma handle_pipeline:
  assumes "in_pipeline req r" and "resolve L c f req r = ((resp, action, cat, via), r')"
  shows "hd_reply (fst (handle L udp c f req r)) =
    (let m = finalize L (opt_record L req \<noteq> None) (wants_dnssec L req) resp
     in if udp then lib_truncate L large_udp_size m else m)"
  using assms by (simp add: handle_def in_pipeline_def wants_dnssec_def Let_def split: prod.split)

lemma handle_outside:
  assumes "\<not> in_pipeline req r"
  shows "handle L udp c f req r = (\<lparr>hd_reply =
      (if is_probe req then probe_response L req
       else lib_set_rcode L req (if r_control_plane_only r then rcode_refused else rcode_server_failure)),
      hd_event = None, hd_log = None\<rparr>, r)"
  using assms by (auto simp: handle_def in_pipeline_def)

text \<open>C2: whatever the state of the node, the policy and the upstreams, a reply carries the ID of the
  query, and a client that did not set DO gets no DNSSEC record in any section of it.\<close>

theorem handle_reply_sound:
  assumes "dns_lib_ok L"
  shows "m_id (hd_reply (fst (handle L udp c f req r))) = m_id req \<and>
    (\<not> wants_dnssec L req \<longrightarrow> no_dnssec (hd_reply (fst (handle L udp c f req r))))"
proof (cases "in_pipeline req r")
  case False
  then show ?thesis
    by (simp add: handle_outside probe_response_ok rcode_id empty_no_dnssec [OF lib_rcode_ok] assms)
next
  case True
  obtain resp action cat via r' where res: "resolve L c f req r = ((resp, action, cat, via), r')"
    by (metis surj_pair)
  then have "m_id resp = m_id req" using resolve_id [OF assms, of c f req r] by simp
  then show ?thesis
    by (simp add: handle_pipeline [OF True res] Let_def lib_truncated finalize_id finalize_no_dnssec
        truncate_no_dnssec assms)
qed

definition demo_call :: call where
  "demo_call = \<lparr>c_client = ''10.0.0.9'', c_now = 0, c_done = 0, c_rl_visit = (\<lambda>s. s), c_cache_visit = (\<lambda>s. s)\<rparr>"

definition demo_node :: resolver where
  "demo_node = new_resolver sample_lib 0 [] True"

definition ds_query :: msg where
  "ds_query = blank_msg\<lparr>m_id := 7, m_question := [\<lparr>q_name = ''example.com.'', q_type = 43, q_class = 1\<rparr>]\<rparr>"

theorem handle_reply_sound_witness:
  "m_id (hd_reply (fst (handle sample_lib True demo_call (Lead (\<lambda>_. (Some ds_query, 0, 0, None))) ds_query demo_node))) = 7"
  using handle_reply_sound [OF sample_lib_ok, of True demo_call "Lead (\<lambda>_. (Some ds_query, 0, 0, None))" ds_query demo_node]
  by (simp add: ds_query_def)

text \<open>A client that asks for DNSSEC records themselves (a DS or DNSKEY query) without setting DO gets
  none of them: the whole answer section the upstream gave is removed, and the reply says
  NOERROR with no data.\<close>

theorem explicit_dnssec_query_emptied:
  assumes "dns_lib_ok L" and "in_pipeline req r" and "\<not> wants_dnssec L req"
    and "resolve L c f req r = ((resp, ''forward'', cat, via), r')"
    and "\<forall>a\<in>set (m_answer resp). is_dnssec_type (rr_type a)" and "m_rcode resp = rcode_success"
  shows "m_answer (hd_reply (fst (handle L udp c f req r))) = [] \<and>
    m_rcode (hd_reply (fst (handle L udp c f req r))) = rcode_success"
proof -
  have "m_answer (finalize L e False resp) = []" for e
    using assms(5) by (simp add: finalize_def Let_def remove_opt_def lib_edns0_frame assms(1) filter_empty_conv)
  moreover have "m_answer (lib_truncate L n m) = []" if "m_answer m = []" for n m
    using lib_truncated(3) [OF assms(1), of n m] that by simp
  ultimately show ?thesis
    using assms(3,6) by (simp add: handle_pipeline [OF assms(2,4)] Let_def lib_truncated finalize_id assms(1))
qed

definition ds_answer :: "up_ref list \<Rightarrow> fwd_result" where
  "ds_answer ups = (Some (ds_query\<lparr>m_answer := [demo_rr 43]\<rparr>), 0, 0, None)"

theorem explicit_dnssec_query_emptied_witness:
  "m_answer (hd_reply (fst (handle sample_lib False demo_call (Lead ds_answer) ds_query demo_node))) = []"
proof -
  have "in_pipeline ds_query demo_node" by code_simp
  moreover have "\<not> wants_dnssec sample_lib ds_query" by code_simp
  moreover obtain resp action cat via r' where
    res: "resolve sample_lib demo_call (Lead ds_answer) ds_query demo_node = ((resp, action, cat, via), r')"
    by (metis surj_pair)
  have "(let ((m, a, _), _) = resolve sample_lib demo_call (Lead ds_answer) ds_query demo_node
    in a = ''forward'' \<and> map rr_type (m_answer m) = [43] \<and> m_rcode m = 0)" by code_simp
  with res have "action = ''forward''" "map rr_type (m_answer resp) = [43]" "m_rcode resp = 0" by simp_all
  moreover then have "\<forall>a\<in>set (m_answer resp). is_dnssec_type (rr_type a)"
    by (auto simp: is_dnssec_type_def map_eq_Cons_conv)
  ultimately show ?thesis
    using explicit_dnssec_query_emptied [OF sample_lib_ok, of ds_query demo_node demo_call "Lead ds_answer"] res
    by blast
qed

subsection \<open>Counters\<close>

definition counted :: "string \<Rightarrow> stats \<Rightarrow> stats" where
  "counted action s = (let s = s\<lparr>n_total := n_total s + 1\<rparr> in
     if action = ''blocked'' then s\<lparr>n_blocked := n_blocked s + 1\<rparr>
     else if action = ''cache'' then s\<lparr>n_cached := n_cached s + 1\<rparr>
     else if action = ''forward'' then s\<lparr>n_forwarded := n_forwarded s + 1\<rparr>
     else if action = ''rewrite'' then s\<lparr>n_rewritten := n_rewritten s + 1\<rparr>
     else if action = ''error'' then s\<lparr>n_errors := n_errors s + 1\<rparr>
     else s)"

lemma refresh_stale_frame:
  "refresh_stale L rt req q dsec r = (job, r') \<Longrightarrow> r_stats r' = r_stats r \<and> r_caches r' = r_caches r \<and> r_rt r' = r_rt r"
  by (auto simp: refresh_stale_def Let_def split: if_splits)

lemma cache_step_frame:
  assumes "cache_step L c req q r = (a, r')"
  shows "r_rt r' = r_rt r"
    and "r_stats r' = (if a = None then r_stats r else (r_stats r)\<lparr>n_cached := n_cached (r_stats r) + 1\<rparr>)"
  using assms by (auto simp: cache_step_def Let_def dest!: refresh_stale_frame split: option.splits prod.splits if_splits)

lemma front_counts:
  assumes "m_question req = q # qs" and "resolve_front L c req r = (fr, r')"
  shows "r_stats r' = (case fr of Answered m action cat job \<Rightarrow> counted action (r_stats r)
      | ToForward req' key dsec \<Rightarrow> (r_stats r)\<lparr>n_total := n_total (r_stats r) + 1\<rparr>)"
proof -
  obtain ok r1 where rate: "rate_step c (count_total r) = (ok, r1)" by (metis surj_pair)
  have r1: "r_stats r1 = (r_stats r)\<lparr>n_total := n_total (r_stats r) + 1\<rparr>"
    using rate_step_frame(8) [OF rate] by simp
  obtain a r2 where cs: "cache_step L c req q r1 = (a, r2)" by (metis surj_pair)
  note cf = cache_step_frame(2) [OF cs]
  show ?thesis
    using assms(2) r1 cf cs cache_step_id [of L c req q r1 _ r2]
    by (auto simp: resolve_front_order [OF assms(1) rate] counted_def Let_def split: if_splits option.splits)
qed

lemma run_flight_frame:
  "run_flight c q name dsec f r = (res, r') \<Longrightarrow> r_stats r' = r_stats r \<and> r_rt r' = r_rt r \<and> r_refreshing r' = r_refreshing r"
  by (auto simp: run_flight_def forward_and_cache_def Let_def split: flight.splits prod.splits option.splits)

text \<open>Every query with a question is counted once in the total and once under the action it
  ended with, except that authoritative and refused queries are only in the total.\<close>

theorem resolve_counts:
  assumes "m_question req \<noteq> []"
  shows "r_stats (snd (resolve L c f req r)) = counted (fst (snd (fst (resolve L c f req r)))) (r_stats r)"
proof -
  obtain q qs where q: "m_question req = q # qs" using assms by (cases "m_question req") auto
  obtain fr r1 where fr: "resolve_front L c req r = (fr, r1)" by (metis surj_pair)
  note fc = front_counts [OF q fr]
  show ?thesis
  proof (cases fr)
    case (Answered m action cat job)
    with fc fr show ?thesis by (simp add: resolve_def)
  next
    case (ToForward req' key dsec)
    obtain res r2 where fl: "run_flight c (hd (m_question req)) (query_name (hd (m_question req))) dsec f r1 = (res, r2)"
      by (metis surj_pair)
    from run_flight_frame [OF fl] fc ToForward
    have "r_stats r2 = (r_stats r)\<lparr>n_total := n_total (r_stats r) + 1\<rparr>" by simp
    with ToForward fl fr show ?thesis
      by (auto simp: resolve_def resolve_back_def counted_def Let_def split: prod.split option.split)
  qed
qed

theorem resolve_counts_witness:
  "r_stats (snd (resolve sample_lib demo_call (Lead ds_answer) ds_query demo_node)) =
     \<lparr>n_total = 1, n_blocked = 0, n_cached = 0, n_forwarded = 1, n_rewritten = 0, n_errors = 0\<rparr>"
proof -
  have "fst (snd (fst (resolve sample_lib demo_call (Lead ds_answer) ds_query demo_node))) = ''forward''" by code_simp
  moreover have "m_question ds_query \<noteq> []" by (simp add: ds_query_def)
  ultimately show ?thesis
    using resolve_counts [of ds_query sample_lib demo_call "Lead ds_answer" demo_node]
    by (simp add: counted_def Let_def demo_node_def new_resolver_def)
qed

subsection \<open>What the process log shows\<close>

lemma rate_step_privacy:
  "rate_step c r = (ok, r') \<Longrightarrow> rt_privacy_level (r_rt r') = rt_privacy_level (r_rt r) \<and> r_query_log r' = r_query_log r"
  by (auto simp: rate_step_def split: option.splits prod.splits)

lemma front_privacy:
  assumes "resolve_front L c req r = (fr, r')"
  shows "rt_privacy_level (r_rt r') = rt_privacy_level (r_rt r)"
proof (cases "m_question req")
  case Nil
  with assms show ?thesis by (auto simp: resolve_front_def Let_def)
next
  case (Cons q qs)
  obtain ok r1 where rate: "rate_step c (count_total r) = (ok, r1)" by (metis surj_pair)
  have r1: "rt_privacy_level (r_rt r1) = rt_privacy_level (r_rt r)" using rate_step_privacy [OF rate] by simp
  obtain a r2 where cs: "cache_step L c req q r1 = (a, r2)" by (metis surj_pair)
  show ?thesis
    using assms r1 cs cache_step_frame(1) [OF cs]
    by (auto simp: resolve_front_order [OF Cons rate] split: if_splits option.splits)
qed

lemma resolve_privacy: "rt_privacy_level (r_rt (snd (resolve L c f req r))) = rt_privacy_level (r_rt r)"
proof -
  obtain fr r1 where fr: "resolve_front L c req r = (fr, r1)" by (metis surj_pair)
  have "r_rt (snd (resolve_back L req' res r2)) = r_rt r2" for req' res r2
    by (auto simp: resolve_back_def split: prod.split option.split)
  then show ?thesis
    using front_privacy [OF fr] fr
    by (auto simp: resolve_def Let_def dest!: run_flight_frame split: front.split prod.split)
qed

text \<open>The line a query leaves in the process log respects the privacy level set by the last applied
  settings: at level 3 there is none, from level 2 the client is hidden, from level 1 the name.\<close>

theorem log_respects_privacy:
  assumes "hd_log (fst (handle L udp c f req r)) = Some (shown_name, shown_client)"
  shows "rt_privacy_level (r_rt r) < 3 \<and> r_query_log (snd (resolve L c f req r)) \<and>
    (rt_privacy_level (r_rt r) \<ge> 1 \<longrightarrow> shown_name = ''hidden'') \<and>
    (rt_privacy_level (r_rt r) \<ge> 2 \<longrightarrow> shown_client = ''hidden'')"
proof -
  have "in_pipeline req r"
    using assms handle_outside [of req r L udp c f] by (cases "in_pipeline req r") auto
  then show ?thesis
    using assms resolve_privacy [of L c f req r]
    by (auto simp: handle_def in_pipeline_def record_query_def log_line_def Let_def
        split: prod.splits list.splits if_splits)
qed

definition private_node :: resolver where
  "private_node = demo_node\<lparr>r_rt := empty_runtime\<lparr>rt_privacy_level := 2\<rparr>\<rparr>"

theorem log_respects_privacy_witness:
  "hd_log (fst (handle sample_lib False demo_call (Lead ds_answer) ds_query private_node)) = Some (''hidden'', ''hidden'')
   \<and> rt_privacy_level (r_rt private_node) < 3"
proof
  show l: "hd_log (fst (handle sample_lib False demo_call (Lead ds_answer) ds_query private_node)) =
    Some (''hidden'', ''hidden'')" by code_simp
  show "rt_privacy_level (r_rt private_node) < 3"
    using log_respects_privacy [OF l] by simp
qed

subsection \<open>Forwards and the cache\<close>

text \<open>What a led flight leaves, by the outcome of the forward.\<close>

lemma forward_failed_outcome:
  assumes "fwd (fst (upstreams_for (r_rt r) name)) = (m, rtt, idx, err)" and "m = None \<or> err \<noteq> None"
  shows "forward_and_cache c q name dsec fwd r =
    ((m, rtt, no_route, err), r\<lparr>r_health := forward_failed err (c_done c) (r_health r)\<rparr>)"
  using assms by (auto simp: forward_and_cache_def Let_def split: prod.split option.split)

lemma forward_ok_outcome:
  assumes "fwd (fst (upstreams_for (r_rt r) name)) = (Some a, rtt, idx, None)"
  shows "fst (fst (forward_and_cache c q name dsec fwd r)) = Some a"
    and "snd (snd (snd (fst (forward_and_cache c q name dsec fwd r)))) = None"
    and "r_caches (snd (forward_and_cache c q name dsec fwd r)) =
      (case rt_cache (r_rt r) of None \<Rightarrow> r_caches r
       | Some k \<Rightarrow> (r_caches r)(k := cache_set (r_caches r k) q dsec (Some a) (c_done c) (c_cache_visit c)))"
    and "r_rt (snd (forward_and_cache c q name dsec fwd r)) = r_rt r"
  using assms by (auto simp: forward_and_cache_def Let_def split: prod.split option.split)

lemma resolve_back_frame [simp]:
  "r_caches (snd (resolve_back L req res r)) = r_caches r" "r_rt (snd (resolve_back L req res r)) = r_rt r"
  "r_refreshing (snd (resolve_back L req res r)) = r_refreshing r"
  "r_health (snd (resolve_back L req res r)) = r_health r"
  by (auto simp: resolve_back_def split: prod.split option.split)

text \<open>C36: when no upstream answers, the client gets SERVFAIL for its own ID under the action error,
  nothing is cached, and the failure with its text is what the health report shows.\<close>

theorem failed_forward_is_servfail:
  assumes "dns_lib_ok L" and "resolve_front L c req r = (ToForward req' key dsec, r1)"
    and "fwd (fst (upstreams_for (r_rt r1) (query_name (hd (m_question req))))) = (m, rtt, idx, err)"
    and "m = None \<or> err \<noteq> None"
  shows "case resolve L c (Lead fwd) req r of ((reply, action, _), r') \<Rightarrow>
    empty_reply req rcode_server_failure reply \<and> action = ''error'' \<and> r_caches r' = r_caches r1 \<and>
    hv_forward_error (health_of (r_health r')) = (case err of None \<Rightarrow> ''no answer'' | Some e \<Rightarrow> err_text e) \<and>
    hs_last_fwd_err (r_health r') = unix_milli (c_done c)"
proof -
  have "m_id req' = m_id req" using resolve_front_id [OF assms(1,2)] by simp
  then have "empty_reply req rcode_server_failure (lib_set_rcode L req' rcode_server_failure)"
    using lib_rcode_ok [OF assms(1), of req' rcode_server_failure] by (simp add: empty_reply_def)
  then show ?thesis
    using forward_failed_outcome [of fwd r1, OF assms(3,4)] assms(2,4)
    by (auto simp: resolve_def run_flight_def resolve_back_def Let_def health_of_def forward_failed_def
        split: option.split)
qed

definition no_upstream :: "up_ref list \<Rightarrow> fwd_result" where
  "no_upstream ups = (None, 0, -1, Some ErrNoUpstreams)"

theorem failed_forward_is_servfail_witness:
  "fst (snd (fst (resolve sample_lib demo_call (Lead no_upstream) ds_query demo_node))) = ''error''"
proof -
  have "(case resolve_front sample_lib demo_call ds_query demo_node of (ToForward _ _ _, _) \<Rightarrow> True | _ \<Rightarrow> False)"
    by code_simp
  then obtain req' key dsec r1 where
    front: "resolve_front sample_lib demo_call ds_query demo_node = (ToForward req' key dsec, r1)"
    by (auto split: prod.splits front.splits)
  show ?thesis
    using failed_forward_is_servfail [OF sample_lib_ok front, of no_upstream None 0 "-1" "Some ErrNoUpstreams"]
    by (auto simp: no_upstream_def split: prod.splits)
qed

lemma serve_fresh:
  "t \<le> e_expires e \<Longrightarrow>
     \<exists>b. serve e t = Some (adjust_ttl (word_of_int ((e_expires e - t) div second)) (e_msg e), b)"
  by (simp add: serve_def Let_def stale_grace_def)

text \<open>C4: an answer that was forwarded is served to the next client from the cache: until its TTL runs
  out, the same question (in any case, with the same wish for signatures) that reaches the cache
  is answered with that message under the new query's ID, its TTLs cut to the seconds left.\<close>

theorem forwarded_answer_is_cached:
  assumes "resolve_front L c req r = (ToForward req' key dsec, r1)" and "rt_cache (r_rt r1) = Some k"
    and "fwd (fst (upstreams_for (r_rt r1) (query_name (hd (m_question req))))) = (Some a, rtt, idx, None)"
    and "cache_ok (r_caches r1 k)"
    and "same_question (hd (m_question req)) dsec q2 (want_signed L (r_rt r1) req2)"
  defines "r' \<equiv> snd (resolve L c (Lead fwd) req r)" and "life \<equiv> ttl_for (r_caches r1 k) a"
  assumes "c_done c \<le> c_now c2" and "c_now c2 \<le> c_done c + life" and "0 < life"
  shows "\<exists>job. fst (cache_step L c2 req2 q2 r') =
    Some (Answered ((adjust_ttl (word_of_int ((life - (c_now c2 - c_done c)) div second)) a)\<lparr>m_id := m_id req2\<rparr>)
      ''cache'' [] job)"
proof -
  let ?q = "hd (m_question req)" and ?cch = "r_caches r1 k"
  let ?cs = "cache_set ?cch ?q dsec (Some a) (c_done c) (c_cache_visit c)"
  obtain res r2 where fl: "forward_and_cache c ?q (query_name ?q) dsec fwd r1 = (res, r2)" by (metis surj_pair)
  note ok = forward_ok_outcome [where c = c and q = ?q and dsec = dsec and r = r1 and fwd = fwd, OF assms(3), unfolded fl]
  have r': "r' = snd (resolve_back L req' res r2)"
    by (simp add: r'_def resolve_def assms(1) run_flight_def fl Let_def)
  have rt: "r_rt r' = r_rt r1" and cs: "r_caches r' k = ?cs" using ok assms(2) by (simp_all add: r')
  have "stored_entry ?cs q2 (want_signed L (r_rt r1) req2) =
      Some \<lparr>e_msg = a, e_expires = c_done c + life, e_ttl = life\<rparr>"
    unfolding life_def by (rule ac.put_same) (use assms in \<open>simp_all add: life_def\<close>)
  moreover have "fst (cache_get ?cs q2 (want_signed L (r_rt r1) req2) (c_now c2)) =
      Option.bind (stored_entry ?cs q2 (want_signed L (r_rt r1) req2)) (\<lambda>e. serve e (c_now c2))"
    by (rule ac.get_serves)
  moreover have "\<exists>b. serve \<lparr>e_msg = a, e_expires = c_done c + life, e_ttl = life\<rparr> (c_now c2) =
      Some (adjust_ttl (word_of_int ((life - (c_now c2 - c_done c)) div second)) a, b)"
    using serve_fresh [of "c_now c2" "\<lparr>e_msg = a, e_expires = c_done c + life, e_ttl = life\<rparr>"] assms(9)
    by (simp add: algebra_simps)
  ultimately have "\<exists>b. fst (cache_get ?cs q2 (want_signed L (r_rt r1) req2) (c_now c2)) =
      Some (adjust_ttl (word_of_int ((life - (c_now c2 - c_done c)) div second)) a, b)" by simp
  then show ?thesis
    using assms(2) rt cs
    by (auto simp: cache_step_def Let_def split: prod.split)
qed

definition cached_node :: resolver where
  "cached_node = demo_node\<lparr>r_rt := empty_runtime\<lparr>rt_cache := Some 0\<rparr>, r_caches := (\<lambda>_. new_cache 100 0 0)\<rparr>"

definition a_query :: "u16 \<Rightarrow> msg" where
  "a_query i = blank_msg\<lparr>m_id := i, m_question := [\<lparr>q_name = ''example.com.'', q_type = 1, q_class = 1\<rparr>]\<rparr>"

definition a_answer :: "up_ref list \<Rightarrow> fwd_result" where
  "a_answer ups = (Some ((a_query 7)\<lparr>m_answer := [demo_rr 1]\<rparr>), 0, 0, None)"

lemma cached_node_front:
  "\<exists>req' key r1. resolve_front sample_lib demo_call (a_query 7) cached_node = (ToForward req' key False, r1) \<and>
     rt_cache (r_rt r1) = Some 0 \<and> \<not> want_signed sample_lib (r_rt r1) (a_query 8) \<and>
     r_caches r1 0 = new_cache 100 0 0"
proof -
  have "(case resolve_front sample_lib demo_call (a_query 7) cached_node of
      (ToForward _ _ d, r1) \<Rightarrow> \<not> d \<and> rt_cache (r_rt r1) = Some 0 \<and> \<not> want_signed sample_lib (r_rt r1) (a_query 8) \<and>
         c_max (r_caches r1 0) = 7 \<and> c_min_ttl (r_caches r1 0) = 0 \<and> c_max_ttl (r_caches r1 0) = 0 \<and>
         c_shards (r_caches r1 0) = replicate 16 []
    | _ \<Rightarrow> False)" by code_simp
  then show ?thesis
    by (auto simp: new_cache_def cache_shards_def Let_def split: prod.splits front.splits)
qed

theorem forwarded_answer_is_cached_witness:
  "\<exists>job. fst (cache_step sample_lib (demo_call\<lparr>c_now := 20 * second\<rparr>) (a_query 8) (hd (m_question (a_query 8)))
      (snd (resolve sample_lib demo_call (Lead a_answer) (a_query 7) cached_node))) =
    Some (Answered ((adjust_ttl 40 ((a_query 7)\<lparr>m_answer := [demo_rr 1]\<rparr>))\<lparr>m_id := 8\<rparr>) ''cache'' [] job)"
proof -
  let ?a = "(a_query 7)\<lparr>m_answer := [demo_rr 1]\<rparr>"
  obtain req' key r1 where front:
    "resolve_front sample_lib demo_call (a_query 7) cached_node = (ToForward req' key False, r1)"
    and k: "rt_cache (r_rt r1) = Some 0" and dsec: "\<not> want_signed sample_lib (r_rt r1) (a_query 8)"
    and cch: "r_caches r1 0 = new_cache 100 0 0" using cached_node_front by blast
  have life: "ttl_for (new_cache 100 0 0) ?a = 60 * second" by code_simp
  have fwd: "a_answer (fst (upstreams_for (r_rt r1) (query_name (hd (m_question (a_query 7)))))) = (Some ?a, 0, 0, None)"
    by (simp add: a_answer_def)
  have same: "same_question (hd (m_question (a_query 7))) False (hd (m_question (a_query 8))) False"
    and "m_id (a_query 8) = 8"
    by (simp_all add: same_question_def a_query_def)
  then show ?thesis
    using forwarded_answer_is_cached [OF front k, where fwd = a_answer, OF fwd,
        where ?q2.0 = "hd (m_question (a_query 8))" and ?req2.0 = "a_query 8"
          and ?c2.0 = "demo_call\<lparr>c_now := 20 * second\<rparr>"] dsec
    by (simp add: cch new_cache_ok life same demo_call_def)
qed

subsection \<open>Categories and corrections\<close>

text \<open>A blocked category takes effect in this order: the correction of the name or of its closest
  corrected parent decides alone (a category that is not blocked exempts the name); without one
  the category list does; and with no category blocked nothing is.\<close>

theorem category_precedence:
  "blocked_category r name =
    (if rt_blocked_cats (r_rt r) = [] then ([], False)
     else case first_some (map_of (rt_cat_domains (r_rt r))) (ancestors name) of
       Some c \<Rightarrow> (c, c \<in> set (rt_blocked_cats (r_rt r)))
     | None \<Rightarrow> (case Option.bind (r_cat_db r) (\<lambda>h. holder_lookup h name) of
         None \<Rightarrow> ([], False)
       | Some c \<Rightarrow> if c \<in> set (rt_blocked_cats (r_rt r)) then (c, True) else ([], False)))"
proof -
  have "first_some (\<lambda>x :: string. None :: string option) xs = None" for xs by (induction xs) auto
  then have "(if rt_cat_domains (r_rt r) = [] then None else correction_walk (rt_cat_domains (r_rt r)) name) =
      first_some (map_of (rt_cat_domains (r_rt r))) (ancestors name)"
    by (simp add: corrections.walk_first)
  then show ?thesis unfolding blocked_category_def Let_def
    by (simp split: option.split)
qed

subsection \<open>Refreshes\<close>

text \<open>
  What the node does with refreshes, as a sequence of settings applied, queries and finished
  fetches; \<open>out\<close> holds the keys whose background fetch has been started and has not finished. A fetch may use any runtime, the one in use when it was
  started among them.
\<close>

datatype serving =
    Reload url_parser orders settings
  | Ask call flight msg
  | Fetched call runtime question string bool flight

definition started :: "front \<Rightarrow> string list" where
  "started fr = (case fr of Answered m action cat (Some (key, rc)) \<Rightarrow> [key] | _ \<Rightarrow> [])"

fun serve_one :: "dns_lib \<Rightarrow> serving \<Rightarrow> string list \<times> resolver \<Rightarrow> string list \<times> resolver" where
  "serve_one L (Reload url od s) (out, r) = (out, apply_settings url od s r)"
| "serve_one L (Ask c f req) (out, r) =
     (started (fst (resolve_front L c req r)) @ out, snd (resolve L c f req r))"
| "serve_one L (Fetched c rt q name dsec f) (out, r) =
     (if forward_key q dsec \<in> set out
      then (remove1 (forward_key q dsec) out, refresh_fetch c rt q name dsec f r) else (out, r))"

lemma front_refreshing:
  assumes "resolve_front L c req r = (fr, r')"
  shows "r_refreshing r' = started fr @ r_refreshing r \<and> set (started fr) \<inter> set (r_refreshing r) = {}"
proof (cases "m_question req")
  case Nil
  with assms show ?thesis by (auto simp: resolve_front_def started_def Let_def)
next
  case (Cons q qs)
  obtain ok r1 where rate: "rate_step c (count_total r) = (ok, r1)" by (metis surj_pair)
  have r1: "r_refreshing r1 = r_refreshing r" using rate_step_frame(10) [OF rate] by simp
  obtain a r2 where cs: "cache_step L c req q r1 = (a, r2)" by (metis surj_pair)
  have "case a of None \<Rightarrow> r_refreshing r2 = r_refreshing r1
      | Some fr \<Rightarrow> r_refreshing r2 = started fr @ r_refreshing r1 \<and> set (started fr) \<inter> set (r_refreshing r1) = {}"
    using cs by (auto simp: cache_step_def refresh_stale_def started_def Let_def split: option.splits prod.splits if_splits)
  then show ?thesis
    using assms r1 cs
    by (auto simp: resolve_front_order [OF Cons rate] started_def split: if_splits option.splits)
qed

lemma resolve_refreshing: "r_refreshing (snd (resolve L c f req r)) = r_refreshing (snd (resolve_front L c req r))"
  by (auto simp: resolve_def Let_def dest!: run_flight_frame split: prod.split front.split)

lemma apply_refreshing: "r_refreshing (apply_settings url od s r) = r_refreshing r"
  by (simp add: apply_settings_def Let_def split: prod.split)

lemma serve_one_inv:
  assumes "distinct out" and "r_refreshing r = out" and "serve_one L ev (out, r) = (out', r')"
  shows "distinct out' \<and> r_refreshing r' = out'"
proof (cases ev)
  case (Reload url od s)
  with assms show ?thesis by (auto simp: apply_refreshing)
next
  case (Ask c f req)
  obtain fr r1 where fr: "resolve_front L c req r = (fr, r1)" by (metis surj_pair)
  have "distinct (started fr)" by (simp add: started_def split: front.split option.split prod.split)
  moreover have "out' = started fr @ out" "r' = snd (resolve L c f req r)" using fr assms(3) by (simp_all add: Ask)
  ultimately show ?thesis using front_refreshing [OF fr] fr assms(1,2) by (simp add: resolve_refreshing)
next
  case (Fetched c rt q name dsec f)
  obtain res r1 where fl: "run_flight c q name dsec f (r\<lparr>r_rt := rt\<rparr>) = (res, r1)" by (metis surj_pair)
  from run_flight_frame [OF fl] fl assms show ?thesis
    by (auto simp: Fetched refresh_fetch_def refresh_done_def distinct_remove1_removeAll distinct_removeAll split: if_splits)
qed

text \<open>C37: Over any sequence of settings applied, queries and finished fetches, at most one background refresh per cache
  key is in flight, and exactly the keys with one in flight are marked.\<close>

theorem one_refresh_per_key:
  assumes "fold (serve_one L) evs ([], new_resolver L timeout zs query_log) = (out, r)"
  shows "distinct out \<and> r_refreshing r = out"
proof -
  have "distinct (fst (fold (serve_one L) evs s)) \<and> r_refreshing (snd (fold (serve_one L) evs s)) =
      fst (fold (serve_one L) evs s)" if "distinct (fst s)" and "r_refreshing (snd s) = fst s" for s
    using that
  proof (induction evs arbitrary: s)
    case (Cons ev evs)
    obtain out r out' r' where s: "s = (out, r)" "serve_one L ev (out, r) = (out', r')" by (metis surj_pair)
    with serve_one_inv [of out r L ev out' r'] Cons show ?case by simp
  qed simp
  from this [of "([], new_resolver L timeout zs query_log)"] assms show ?thesis by (simp add: new_resolver_def)
qed

definition demo_settings :: settings where
  "demo_settings = \<lparr>se_upstreams = [''udp://1.1.1.1''], se_forwarders = [], se_block_response = ''nxdomain'',
     se_rate_limit_qpm = 0, se_dnssec = False,
     se_cache = \<lparr>cs_enabled = True, cs_max_entries = 100, cs_min_ttl_sec = 0, cs_max_ttl_sec = 0\<rparr>,
     se_upstream_strategy = ''hedged'', se_upstream_timeout_ms = 0, se_blocked_categories = [],
     se_category_domains = [], se_privacy_level = 0, se_privacy_detail_hours = 0, se_privacy_domain_k = 0\<rparr>"

definition demo_orders :: orders where
  "demo_orders = \<lparr>od_conditional = (\<lambda>c. c), od_corrections = (\<lambda>m. m)\<rparr>"

definition demo_evs :: "serving list" where
  "demo_evs = [Reload (\<lambda>_. None) demo_orders demo_settings, Ask demo_call (Lead a_answer) (a_query 7),
     Ask (demo_call\<lparr>c_now := 58 * second\<rparr>) (Lead a_answer) (a_query 8),
     Ask (demo_call\<lparr>c_now := 59 * second\<rparr>) (Lead a_answer) (a_query 9)]"

theorem one_refresh_per_key_witness:
  "r_refreshing (snd (fold (serve_one sample_lib) demo_evs ([], new_resolver sample_lib 0 [] False))) =
     [forward_key (hd (m_question (a_query 7))) False]"
proof -
  obtain out r where run: "fold (serve_one sample_lib) demo_evs ([], new_resolver sample_lib 0 [] False) = (out, r)"
    by (metis surj_pair)
  have "fst (fold (serve_one sample_lib) demo_evs ([], new_resolver sample_lib 0 [] False)) =
      [forward_key (hd (m_question (a_query 7))) False]" by code_simp
  with one_refresh_per_key [OF run] run show ?thesis by simp
qed

subsection \<open>Reloading settings\<close>

lemma apply_cache:
  "rt_cache (r_rt (apply_settings url od s r)) =
     (if \<not> cs_enabled (se_cache s) then None
      else if rt_cache (r_rt r) \<noteq> None \<and> rt_cache_key (r_rt r) = Some (answer_key s) then rt_cache (r_rt r)
      else Some (r_next_cache r))"
  "rt_cache_key (r_rt (apply_settings url od s r)) = (if cs_enabled (se_cache s) then Some (answer_key s) else None)"
  "cs_enabled (se_cache s) \<longrightarrow> rt_cache (r_rt r) \<noteq> None \<and> rt_cache_key (r_rt r) = Some (answer_key s) \<Longrightarrow>
     r_caches (apply_settings url od s r) = r_caches r \<and> r_next_cache (apply_settings url od s r) = r_next_cache r"
  by (auto simp: apply_settings_def Let_def split: prod.split)

text \<open>Applying the settings in force again makes no new upstream object and no new cache: the
  objects in use are those of exactly the configured (spec, timeout) pairs, no fresh one is
  numbered, and the cache in use and every cached answer stay as they were.\<close>

theorem reload_keeps_objects:
  fixes url :: url_parser and od od' :: orders and s :: settings and r :: resolver
  defines "r1 \<equiv> apply_settings url od s r"
  defines "r2 \<equiv> apply_settings url od' s r1"
  shows "dom (map_of (r_upstreams r2)) = settings_keys (r_timeout r) s \<and>
    dom (map_of (r_upstreams r2)) = dom (map_of (r_upstreams r1)) \<and> r_next_up r2 = r_next_up r1 \<and>
    rt_cache (r_rt r2) = rt_cache (r_rt r1) \<and> r_caches r2 = r_caches r1 \<and> r_next_cache r2 = r_next_cache r1"
proof (intro conjI)
  have t: "r_timeout r1 = r_timeout r" unfolding r1_def by (rule apply_upstreams)
  have d1: "dom (map_of (r_upstreams r1)) = settings_keys (r_timeout r) s"
    unfolding r1_def by (rule apply_upstreams)
  have "dom (map_of (r_upstreams r2)) = settings_keys (r_timeout r1) s"
    unfolding r2_def by (rule apply_upstreams)
  with t d1 show "dom (map_of (r_upstreams r2)) = settings_keys (r_timeout r) s"
    and "dom (map_of (r_upstreams r2)) = dom (map_of (r_upstreams r1))" by simp_all
  show "r_next_up r2 = r_next_up r1"
    unfolding r2_def by (rule apply_upstreams) (simp add: t d1)
  have key: "cs_enabled (se_cache s) \<longrightarrow> rt_cache (r_rt r1) \<noteq> None \<and> rt_cache_key (r_rt r1) = Some (answer_key s)"
    by (auto simp: r1_def apply_cache)
  have off: "rt_cache (r_rt r1) = None" if "\<not> cs_enabled (se_cache s)" using that by (simp add: r1_def apply_cache)
  show "rt_cache (r_rt r2) = rt_cache (r_rt r1)"
    unfolding r2_def apply_cache(1) [where r = r1] using key off by (cases "cs_enabled (se_cache s)") simp_all
  show "r_caches r2 = r_caches r1" and "r_next_cache r2 = r_next_cache r1"
    using apply_cache(3) [OF key] by (simp_all add: r2_def)
qed

definition sorts_forwarders :: "(cond_forward list \<Rightarrow> cond_forward list) \<Rightarrow> bool" where
  "sorts_forwarders f \<longleftrightarrow> (\<forall>cs. set (f cs) = set cs \<and>
     sorted_wrt (\<lambda>a b. length (cf_suffix a) \<ge> length (cf_suffix b)) (f cs))"

lemma add_groups_suffixes:
  "\<forall>cf\<in>set (fst st). cf_dot_suffix cf = CHR ''.'' # cf_suffix cf \<and> cf_suffix cf \<noteq> [] \<Longrightarrow>
   \<forall>cf\<in>set (fst (fold (add_group url full ex per) fs st)). cf_dot_suffix cf = CHR ''.'' # cf_suffix cf \<and> cf_suffix cf \<noteq> []"
proof (induction fs arbitrary: st)
  case (Cons f fs)
  have "\<forall>cf\<in>set (fst (add_group url full ex per f st)). cf_dot_suffix cf = CHR ''.'' # cf_suffix cf \<and> cf_suffix cf \<noteq> []"
    using Cons.prems by (auto simp: add_group_def Let_def split: prod.split)
  from Cons.IH [OF this] show ?case by simp
qed simp

text \<open>After settings are applied, a query goes to the upstreams of the configured forwarder with the
  longest suffix its name lies in, among those with a usable upstream, and to the default
  upstreams when there is none.\<close>

theorem applied_routing:
  fixes url :: url_parser and s :: settings and r :: resolver
  assumes "sorts_forwarders (od_conditional od)"
  defines "rt \<equiv> r_rt (apply_settings url od s r)"
  shows "(\<exists>cf\<in>set (rt_conditional rt). cf_ups cf \<noteq> [] \<and> in_domain name (cf_suffix cf) \<and>
      upstreams_for rt name = (cf_ups cf, cf_labels cf, cf_suffix cf) \<and>
      (\<forall>c\<in>set (rt_conditional rt). cf_ups c \<noteq> [] \<and> in_domain name (cf_suffix c) \<longrightarrow>
         length (cf_suffix c) \<le> length (cf_suffix cf))) \<or>
    (upstreams_for rt name = (rt_default_ups rt, rt_default_labels rt, []) \<and>
      (\<forall>c\<in>set (rt_conditional rt). cf_ups c \<noteq> [] \<longrightarrow> \<not> in_domain name (cf_suffix c)))"
proof -
  let ?ps = "parse_upstreams url (r_timeout r) (r_upstreams r) (se_upstreams s) (failover_per s) [] (r_next_up r)"
  let ?g = "fold (add_group url (r_timeout r) (r_upstreams r) (failover_per s)) (se_forwarders s)
    ([], ps_used ?ps, ps_next ?ps)"
  have c: "rt_conditional rt = od_conditional od (fst ?g)"
    by (simp add: rt_def apply_settings_def failover_per_def Let_def split: prod.split)
  have ok: "forwarders_ok (rt_conditional rt)"
    using add_groups_suffixes [of "([], ps_used ?ps, ps_next ?ps)" url "r_timeout r" "r_upstreams r" "failover_per s"
        "se_forwarders s"] assms(1)
    by (simp add: c forwarders_ok_def sorts_forwarders_def)
  show ?thesis
  proof (cases "conditional_for (rt_conditional rt) name")
    case None
    have "\<not> in_domain name (cf_suffix cf)" if "cf \<in> set (rt_conditional rt)" and "cf_ups cf \<noteq> []" for cf
      using None that ok unfolding conditional_for_None by (auto simp: forwarders_ok_def in_domain_def)
    with None show ?thesis by (simp add: upstreams_for_def)
  next
    case (Some cf)
    from conditional_for_longest [OF Some ok] Some show ?thesis
      by (intro disjI1) (auto simp: upstreams_for_def intro!: bexI [of _ cf])
  qed
qed

lemma sorts_forwarders_key: "sorts_forwarders (\<lambda>cs. rev (sort_key (\<lambda>c. length (cf_suffix c)) cs))"
proof -
  have "sorted_wrt (\<lambda>a b. length (cf_suffix a) \<le> length (cf_suffix b)) (sort_key (\<lambda>c. length (cf_suffix c)) cs)"
    for cs :: "cond_forward list"
    using sorted_sort_key [of "\<lambda>c. length (cf_suffix c)" cs] by (simp add: sorted_wrt_map)
  then show ?thesis by (simp add: sorts_forwarders_def sorted_wrt_rev)
qed

definition routing_orders :: orders where
  "routing_orders = demo_orders\<lparr>od_conditional := (\<lambda>cs. rev (sort_key (\<lambda>c. length (cf_suffix c)) cs))\<rparr>"

definition routing_settings :: settings where
  "routing_settings = demo_settings\<lparr>se_forwarders := [\<lparr>fg_suffix = ''lan'', fg_upstreams = [''udp://10.0.0.1'']\<rparr>,
     \<lparr>fg_suffix = ''nas.lan'', fg_upstreams = [''udp://10.0.0.2'']\<rparr>]\<rparr>"

definition routing_runtime :: runtime where
  "routing_runtime = r_rt (apply_settings (\<lambda>_. None) routing_orders routing_settings demo_node)"

theorem applied_routing_witness:
  "\<exists>cf\<in>set (rt_conditional routing_runtime). cf_suffix cf = ''nas.lan'' \<and> in_domain ''nas.lan'' (cf_suffix cf)"
proof -
  have via: "snd (snd (upstreams_for routing_runtime ''nas.lan'')) = ''nas.lan''" by code_simp
  have "sorts_forwarders (od_conditional routing_orders)" by (simp add: routing_orders_def sorts_forwarders_key)
  from applied_routing [OF this, of "\<lambda>_. None" routing_settings demo_node "''nas.lan''", folded routing_runtime_def]
  show ?thesis
  proof (elim disjE bexE conjE)
    fix cf
    assume "cf \<in> set (rt_conditional routing_runtime)" and "in_domain ''nas.lan'' (cf_suffix cf)"
      and "upstreams_for routing_runtime ''nas.lan'' = (cf_ups cf, cf_labels cf, cf_suffix cf)"
    with via show ?thesis by (intro bexI [of _ cf]) simp_all
  next
    assume "upstreams_for routing_runtime ''nas.lan'' =
      (rt_default_ups routing_runtime, rt_default_labels routing_runtime, [])"
    with via show ?thesis by simp
  qed
qed

definition blocking_node :: resolver where
  "blocking_node = demo_node\<lparr>r_pol := (r_pol demo_node)\<lparr>p_block := add_domain ''example.com'' ''ads'' new_engine\<rparr>\<rparr>"

theorem blocked_stays_local_witness:
  "enforced 0 blocking_node ''example.com'' \<and>
   resolve sample_lib demo_call (Lead a_answer) (a_query 7) blocking_node =
     resolve sample_lib demo_call (Lead no_upstream) (a_query 7) blocking_node"
proof -
  let ?q = "\<lparr>q_name = ''example.com.'', q_type = 1, q_class = 1\<rparr>"
  have q: "m_question (a_query 7) = [?q]" by (simp add: a_query_def)
  have name: "query_name ?q = ''example.com''" and now: "c_now demo_call = 0" by code_simp+
  have e: "enforced 0 blocking_node ''example.com''" by code_simp
  with blocked_stays_local [OF q, where c = demo_call and r = blocking_node and L = sample_lib
      and f = "Lead a_answer" and f' = "Lead no_upstream"]
  show ?thesis by (simp only: name now simp_thms)
qed

theorem reload_keeps_objects_witness:
  "r_next_up (apply_settings (\<lambda>_. None) routing_orders routing_settings
      (apply_settings (\<lambda>_. None) routing_orders routing_settings demo_node)) =
    r_next_up (apply_settings (\<lambda>_. None) routing_orders routing_settings demo_node)"
  using reload_keeps_objects [of "\<lambda>_. None" routing_orders routing_settings routing_orders demo_node] by simp

end
