(* ===== verification/Pipe_Pool.thy ===== *)
theory Pipe_Pool
  imports Upstreams
begin

section \<open>Pipelined connections to stream upstreams (internal/resolver/pipeline.go)\<close>

text \<open>
  A connection carries several queries at once, each under its own message ID; the pool of an
  upstream's connections learns how many queries the server lets share one. A section of the
  code under a mutex is one function here. A query that waits on a connection's channel is
  a number, its token. Connections are objects the pool and the queries share, so the
  pool keeps them in a store (\<open>pp_store\<close>) under their references, and its list of open
  connections holds references. Writes to the socket, dials and timers are arguments.
\<close>

definition pipe_start_inflight :: int where [model]: "pipe_start_inflight = 2"
definition pipe_max_inflight :: int where [model]: "pipe_max_inflight = 64"
definition pipe_capacity :: int where [model]: "pipe_capacity = 64"
definition pipe_min_conns :: int where [model]: "pipe_min_conns = 8"
definition pipe_max_dials :: int where [model]: "pipe_max_dials = 8"
definition pipe_dial_backoff :: duration where [model]: "pipe_dial_backoff = second"
definition pipe_ceiling_ttl :: duration where [model]: "pipe_ceiling_ttl = 10 * minute"
definition pipe_default_timeout :: duration where [model]: "pipe_default_timeout = 5 * second"
definition pipe_suspect_after :: duration where [model]: "pipe_suspect_after = dot_keepalive_interval + second"
definition pipe_attempts :: nat where [model]: "pipe_attempts = 3"

subsection \<open>One connection\<close>

record pconn =
  pc_load :: int
  pc_counted :: bool
  pc_pending :: "(u16 \<times> nat) list"
  pc_next_id :: u16
  pc_dead :: bool
  pc_err :: "go_error option"
  pc_last_read :: time

definition new_conn :: "u16 \<Rightarrow> time \<Rightarrow> pconn" where
  [model]: "new_conn rnd now = \<lparr>pc_load = 0, pc_counted = False, pc_pending = [], pc_next_id = rnd,
     pc_dead = False, pc_err = None, pc_last_read = now\<rparr>"

definition quiet_for :: "time \<Rightarrow> pconn \<Rightarrow> duration" where
  [model]: "quiet_for now c = now - pc_last_read c"

text \<open>The search for a free ID, which does not end when all 65536 are taken.\<close>

partial_function (option) free_id :: "(u16 \<times> nat) list \<Rightarrow> u16 \<Rightarrow> u16 option" where
  "free_id pending i = (if map_of pending i = None then Some i else free_id pending (i + 1))"

definition conn_enroll :: "nat \<Rightarrow> pconn \<Rightarrow> (go_error option + u16 \<times> pconn) option" where
  [model]: "conn_enroll tok c =
     (if pc_dead c then Some (Inl (pc_err c))
      else case free_id (pc_pending c) (pc_next_id c) of
        None \<Rightarrow> None
      | Some i \<Rightarrow> Some (Inr (i, c\<lparr>pc_next_id := i + 1, pc_pending := AList.update i tok (pc_pending c)\<rparr>)))"

definition conn_expire :: "u16 \<Rightarrow> pconn \<Rightarrow> pconn" where
  [model]: "conn_expire i c = c\<lparr>pc_pending := AList.delete i (pc_pending c)\<rparr>"

definition conn_deliver :: "msg \<Rightarrow> time \<Rightarrow> pconn \<Rightarrow> nat option \<times> pconn" where
  [model]: "conn_deliver m now c =
     (map_of (pc_pending c) (m_id m),
      c\<lparr>pc_pending := AList.delete (m_id m) (pc_pending c), pc_last_read := now\<rparr>)"

definition conn_fail :: "go_error option \<Rightarrow> pconn \<Rightarrow> nat list \<times> pconn" where
  [model]: "conn_fail err c =
     (if pc_dead c then ([], c)
      else (map snd (pc_pending c),
        c\<lparr>pc_dead := True,
          pc_err := (if err = None \<or> err_is err ErrDeadlineExceeded then Some ErrPipeClosed else err),
          pc_pending := []\<rparr>))"

text \<open>What the query on the channel returns: a delivered answer under its own ID, or the
  connection's error when the channel was closed with nil.\<close>

definition conn_answer :: "msg \<Rightarrow> msg option \<Rightarrow> pconn \<Rightarrow> msg option \<times> go_error option" where
  [model]: "conn_answer req resp c =
     (case resp of None \<Rightarrow> (None, pc_err c) | Some m \<Rightarrow> (Some (m\<lparr>m_id := m_id req\<rparr>), None))"

definition conn_write_failed :: "go_error \<Rightarrow> pconn \<Rightarrow> go_error option \<times> nat list \<times> pconn" where
  [model]: "conn_write_failed err c = (case conn_fail (Some err) c of (woken, c') \<Rightarrow> (pc_err c', woken, c'))"

subsection \<open>The pool\<close>

record pool =
  pp_store :: "nat \<Rightarrow> pconn"
  pp_conns :: "nat list"
  pp_fresh :: nat
  pp_dialing :: int
  pp_dial_err :: "go_error option"
  pp_dial_err_at :: time
  pp_limit :: int
  pp_learned :: bool
  pp_grown :: int
  pp_ceiling :: int
  pp_ceiling_until :: "time option"

definition new_pool :: pool where
  [model]: "new_pool = \<lparr>pp_store = (\<lambda>_. new_conn 0 0), pp_conns = [], pp_fresh = 0, pp_dialing = 0,
     pp_dial_err = None, pp_dial_err_at = 0, pp_limit = pipe_start_inflight, pp_learned = False,
     pp_grown = 0, pp_ceiling = 0, pp_ceiling_until = None\<rparr>"

definition pool_probe :: "duration \<Rightarrow> duration" where
  [model]: "pool_probe client_timeout =
     (if client_timeout > 0 \<and> client_timeout < dot_probe_timeout then client_timeout else dot_probe_timeout)"

definition pool_timeout :: "duration \<Rightarrow> duration" where
  [model]: "pool_timeout client_timeout = (if client_timeout > 0 then client_timeout else pipe_default_timeout)"

definition upd_conn :: "nat \<Rightarrow> (pconn \<Rightarrow> pconn) \<Rightarrow> pool \<Rightarrow> pool" where
  [model]: "upd_conn r f p = p\<lparr>pp_store := (pp_store p)(r := f (pp_store p r))\<rparr>"

definition max_limit :: "time \<Rightarrow> pool \<Rightarrow> int" where
  [model]: "max_limit now p =
     (case pp_ceiling_until p of
        Some t \<Rightarrow> if now < t then pp_ceiling p else pipe_max_inflight
      | None \<Rightarrow> pipe_max_inflight)"

definition limit_locked :: "time \<Rightarrow> pool \<Rightarrow> int" where
  [model]: "limit_locked now p = min (pp_limit p) (max_limit now p)"

definition max_conns :: "int \<Rightarrow> int" where
  [model]: "max_conns limit = max pipe_min_conns (min pipe_capacity (pipe_capacity div max 1 limit))"

text \<open>
  Dropping the dead and the long idle connections; the queries woken by closing one are none,
  since only a connection with no load is closed. The result is the least loaded one.
\<close>

fun keep_live :: "time \<Rightarrow> (nat \<Rightarrow> pconn) \<Rightarrow> nat list \<Rightarrow> nat option \<Rightarrow> nat list \<times> nat option \<times> (nat \<Rightarrow> pconn)" where
  "keep_live now st [] best = ([], best, st)"
| "keep_live now st (r # rs) best =
     (let c = st r in
      if pc_dead c then keep_live now st rs best
      else if pc_load c = 0 \<and> quiet_for now c > dot_idle_timeout
      then keep_live now (st(r := snd (conn_fail (Some ErrPipeClosed) c))) rs best
      else
        let best' = (case best of
               None \<Rightarrow> Some r
             | Some b \<Rightarrow> if pc_load c < pc_load (st b) then Some r else best);
            (live, best'', st') = keep_live now st rs best'
        in (r # live, best'', st'))"

definition least_loaded :: "time \<Rightarrow> pool \<Rightarrow> nat option \<times> pool" where
  [model]: "least_loaded now p =
     (case keep_live now (pp_store p) (pp_conns p) None of
        (live, best, st) \<Rightarrow> (best, p\<lparr>pp_conns := live, pp_store := st\<rparr>))"

text \<open>One turn of \<open>get\<close> up to where it unlocks: a slot on a connection (and whether it fills it),
  an error, a dial to make at this limit, or waiting for a slot.\<close>

datatype got = Slot nat bool | Unreachable go_error | Dial int | AwaitSlot

definition get_turn :: "time \<Rightarrow> pool \<Rightarrow> got \<times> pool" where
  [model]: "get_turn now p0 =
     (let limit = limit_locked now p0;
          (best, p) = least_loaded now p0;
          roomy = (case best of None \<Rightarrow> False | Some r \<Rightarrow> pc_load (pp_store p r) < limit) in
      if roomy then
        let r = the best; p' = upd_conn r (\<lambda>c. c\<lparr>pc_load := pc_load c + 1\<rparr>) p in
        (Slot r (pc_load (pp_store p' r) \<ge> limit), p')
      else if best = None \<and> pp_dial_err p \<noteq> None \<and> pp_dialing p = 0 \<and> now - pp_dial_err_at p < pipe_dial_backoff
      then (Unreachable (the (pp_dial_err p)), p)
      else if int (length (pp_conns p)) + pp_dialing p < max_conns limit \<and> pp_dialing p < pipe_max_dials
      then (Dial limit, p\<lparr>pp_dialing := pp_dialing p + 1\<rparr>)
      else (AwaitSlot, p))"

definition dial_ok :: "int \<Rightarrow> u16 \<Rightarrow> time \<Rightarrow> pool \<Rightarrow> got \<times> pool" where
  [model]: "dial_ok limit rnd now p =
     (let r = pp_fresh p in
      (Slot r (limit \<le> 1),
       p\<lparr>pp_dialing := pp_dialing p - 1, pp_dial_err := None, pp_fresh := r + 1,
         pp_store := (pp_store p)(r := (new_conn rnd now)\<lparr>pc_load := 1\<rparr>), pp_conns := pp_conns p @ [r]\<rparr>))"

definition dial_failed :: "go_error \<Rightarrow> time \<Rightarrow> pool \<Rightarrow> got \<times> pool" where
  [model]: "dial_failed err now p =
     (let p' = p\<lparr>pp_dialing := pp_dialing p - 1, pp_dial_err := Some err, pp_dial_err_at := now\<rparr> in
      (if pp_conns p' = [] then Unreachable err else AwaitSlot, p'))"

definition release :: "nat \<Rightarrow> bool \<Rightarrow> bool \<Rightarrow> bool \<Rightarrow> time \<Rightarrow> pool \<Rightarrow> pool" where
  [model]: "release r ok at_limit dropped now p =
     (let inflight = pc_load (pp_store p r);
          counted = pc_counted (pp_store p r);
          p = upd_conn r (\<lambda>c. c\<lparr>pc_load := pc_load c - 1\<rparr>) p in
      if dropped \<and> inflight \<ge> 2 \<and> \<not> counted then
        (upd_conn r (\<lambda>c. c\<lparr>pc_counted := True\<rparr>) p)
          \<lparr>pp_learned := True, pp_limit := max 1 (inflight div 2), pp_ceiling := max 1 (inflight - 1),
           pp_ceiling_until := Some (now + pipe_ceiling_ttl), pp_grown := 0\<rparr>
      else if \<not> ok \<or> \<not> at_limit then p
      else if pp_grown p + 1 < pp_limit p then p\<lparr>pp_grown := pp_grown p + 1\<rparr>
      else
        let nxt = (if \<not> pp_learned p then pp_limit p * 2 else pp_limit p + 1) in
        p\<lparr>pp_grown := 0, pp_limit := min nxt (max_limit now p)\<rparr>)"

subsection \<open>The retries of one query\<close>

text \<open>The read budget of an attempt; \<open>left\<close> is what is left of the query's own.\<close>

definition attempt_timeout :: "nat \<Rightarrow> duration \<Rightarrow> duration \<Rightarrow> duration \<Rightarrow> bool \<Rightarrow> duration" where
  [model]: "attempt_timeout attempt left full probe suspect =
     (let t = (if attempt > 0 \<or> left \<le> 0 then full else left) in if suspect \<and> probe < t then probe else t)"

definition is_suspect :: "bool \<Rightarrow> pconn \<Rightarrow> time \<Rightarrow> bool" where
  [model]: "is_suspect fresh c now \<longleftrightarrow> \<not> fresh \<and> quiet_for now c > pipe_suspect_after"

datatype attempt = NoSlot go_error | Tried bool "msg + go_error"

definition retryable :: "bool \<Rightarrow> go_error \<Rightarrow> bool" where
  [model]: "retryable suspect err \<longleftrightarrow>
     conn_dropped (Some err) \<or> err_is (Some err) ErrPipeClosed \<or>
     (suspect \<and> err_is (Some err) ErrDeadlineExceeded)"

fun attempts :: "nat \<Rightarrow> (nat \<Rightarrow> attempt) \<Rightarrow> nat \<Rightarrow> go_error option \<Rightarrow> nat \<times> msg option \<times> go_error option" where
  "attempts 0 try_nr k err = (k, None, err)"
| "attempts (Suc n) try_nr k err =
     (case try_nr k of
        NoSlot e \<Rightarrow> (Suc k, None, Some e)
      | Tried suspect (Inl m) \<Rightarrow> (Suc k, Some m, None)
      | Tried suspect (Inr e) \<Rightarrow>
          if retryable suspect e then attempts n try_nr (Suc k) (Some e) else (Suc k, None, Some e))"

definition pipe_exchange :: "(nat \<Rightarrow> attempt) \<Rightarrow> nat \<times> msg option \<times> go_error option" where
  [model]: "pipe_exchange try_nr = attempts pipe_attempts try_nr 0 None"

subsection \<open>Message IDs\<close>

declare free_id.simps [code]

lemma free_id_step: "map_of pending i = None \<Longrightarrow> free_id pending i = Some i"
  by (simp add: free_id.simps [of pending i])

lemma free_id_skip: "map_of pending i \<noteq> None \<Longrightarrow> free_id pending i = free_id pending (i + 1)"
  using free_id.simps [of pending i] by auto

lemma free_id_unused: "free_id pending i = Some j \<Longrightarrow> map_of pending j = None"
  by (rule free_id.raw_induct [where P = "\<lambda>pending i j. map_of pending j = None"])
    (auto split: if_splits)

text \<open>With an ID free the search ends, by counting how far away the next free one is.\<close>

lemma free_id_distance:
  assumes "map_of pending (i + of_nat k) = None"
  shows "\<exists>j. free_id pending i = Some j"
  using assms
proof (induction k arbitrary: i)
  case 0
  then show ?case using free_id_step [of pending i] by simp
next
  case (Suc k)
  show ?case
  proof (cases "map_of pending i")
    case None
    then show ?thesis using free_id_step by blast
  next
    case (Some x)
    then show ?thesis using Suc.IH [of "i + 1"] Suc.prems free_id_skip [of pending i]
      by (simp add: add.commute add.left_commute)
  qed
qed

lemma free_id_total:
  assumes "length pending < 65536"
  shows "\<exists>j. free_id pending i = Some j"
proof -
  have "\<exists>j :: u16. map_of pending j = None"
  proof (rule ccontr)
    assume "\<not> ?thesis"
    then have "fst ` set pending = (UNIV :: u16 set)" by (auto simp: map_of_eq_None_iff)
    moreover have "card (UNIV :: u16 set) = 65536" by (simp add: card_word)
    ultimately show False using assms card_image_le [of "set pending" fst] card_length [of pending] by simp
  qed
  then obtain j :: u16 where j: "map_of pending j = None" by blast
  have "j = i + of_nat (unat (j - i))" by simp
  with j show ?thesis using free_id_distance [of pending i "unat (j - i)"] by simp
qed

subsection \<open>Who waits for what\<close>

definition conn_ok :: "pconn \<Rightarrow> bool" where
  "conn_ok c \<longleftrightarrow> is_map (pc_pending c) \<and> (pc_dead c \<longrightarrow> pc_pending c = [] \<and> pc_err c \<noteq> None)"

lemma map_snd_update_fresh: "map_of m k = None \<Longrightarrow> map snd (AList.update k v m) = map snd m @ [v]"
  by (induction m) auto

lemma mset_snd_delete:
  "is_map m \<Longrightarrow> map_of m k = Some v \<Longrightarrow>
     mset (map snd m) = add_mset v (mset (map snd (AList.delete k m)))"
proof (induction m)
  case (Cons x m)
  then show ?case by (cases "fst x = k") (auto simp: delete_absent)
qed simp

text \<open>
  The life of a connection as its queries see it. \<open>conn_run used done c\<close>: tokens \<open>used\<close> were
  sent so far, \<open>done\<close> lists who was told what: an answer, or that the connection failed,
  or that its own timer expired.
\<close>

datatype told = GotAnswer msg | GotFailure | GotTimeout

inductive conn_run :: "nat \<Rightarrow> (nat \<times> told) list \<Rightarrow> pconn \<Rightarrow> bool" where
  opened: "conn_run 0 [] (new_conn rnd now)"
| sent: "conn_run n ts c \<Longrightarrow> conn_enroll n c = Some (Inr (i, c')) \<Longrightarrow> conn_run (n + 1) ts c'"
| received: "conn_run n ts c \<Longrightarrow> conn_deliver m now c = (who, c') \<Longrightarrow> \<not> pc_dead c \<Longrightarrow>
    conn_run n (ts @ (case who of None \<Rightarrow> [] | Some tok \<Rightarrow> [(tok, GotAnswer m)])) c'"
| expired: "conn_run n ts c \<Longrightarrow> map_of (pc_pending c) i = Some tok \<Longrightarrow>
    conn_run n (ts @ [(tok, GotTimeout)]) (conn_expire i c)"
| broken: "conn_run n ts c \<Longrightarrow> conn_fail err c = (woken, c') \<Longrightarrow>
    conn_run n (ts @ map (\<lambda>tok. (tok, GotFailure)) woken) c'"

lemma enroll_Inr:
  assumes "conn_enroll tok c = Some (Inr (i, c'))"
  shows "\<not> pc_dead c \<and> map_of (pc_pending c) i = None \<and>
    c' = c\<lparr>pc_next_id := i + 1, pc_pending := AList.update i tok (pc_pending c)\<rparr>"
  using assms free_id_unused by (auto simp: conn_enroll_def split: if_splits option.splits)

text \<open>Every token sent is either still waiting or was told something, once.\<close>

lemma conn_run_invariant:
  "conn_run n ts c \<Longrightarrow> conn_ok c \<and> mset (map fst ts) + mset (map snd (pc_pending c)) = mset [0..<n]"
proof (induction rule: conn_run.induct)
  case (opened rnd now)
  then show ?case by (simp add: conn_ok_def new_conn_def)
next
  case (sent n ts c i c')
  note e = enroll_Inr [OF sent.hyps(2)]
  then have "conn_ok c'"
    using sent.IH by (auto simp: conn_ok_def is_map_update)
  moreover have "map snd (pc_pending c') = map snd (pc_pending c) @ [n]"
    using e by (simp add: map_snd_update_fresh)
  ultimately show ?case using sent.IH by simp
next
  case (received n ts c m now who c')
  then have c': "c' = c\<lparr>pc_pending := AList.delete (m_id m) (pc_pending c), pc_last_read := now\<rparr>"
    and who: "who = map_of (pc_pending c) (m_id m)" by (auto simp: conn_deliver_def)
  have im: "is_map (pc_pending c)" using received.IH by (simp add: conn_ok_def)
  have "conn_ok c'" using received.IH received.hyps(3) im unfolding c' by (simp add: conn_ok_def is_map_delete)
  moreover have "mset (map snd (pc_pending c)) =
      mset (case who of None \<Rightarrow> [] | Some tok \<Rightarrow> [tok]) + mset (map snd (pc_pending c'))"
  proof (cases who)
    case None
    then have "AList.delete (m_id m) (pc_pending c) = pc_pending c"
      using who by (simp add: delete_absent map_of_eq_None_iff)
    with None show ?thesis by (simp add: c')
  next
    case (Some tok)
    then show ?thesis using mset_snd_delete [OF im, of "m_id m" tok] who by (simp add: c')
  qed
  ultimately show ?case using received.IH by (cases who) simp_all
next
  case (expired n ts c i tok)
  have im: "is_map (pc_pending c)" using expired.IH by (simp add: conn_ok_def)
  then show ?case
    using expired.IH mset_snd_delete [OF im expired.hyps(2)]
    by (auto simp: conn_expire_def conn_ok_def is_map_delete)
next
  case (broken n ts c err woken c')
  show ?case
  proof (cases "pc_dead c")
    case True
    with broken show ?thesis by (simp add: conn_fail_def)
  next
    case False
    with broken.hyps(2) have "woken = map snd (pc_pending c)" and "pc_pending c' = []" and "conn_ok c'"
      by (auto simp: conn_fail_def conn_ok_def)
    with broken.IH show ?thesis by (simp add: comp_def)
  qed
qed

subsection \<open>The pool's bounds\<close>

definition pool_ok :: "pool \<Rightarrow> bool" where
  "pool_ok p \<longleftrightarrow>
     1 \<le> pp_limit p \<and> pp_limit p \<le> 64 \<and> (pp_ceiling_until p \<noteq> None \<longrightarrow> 1 \<le> pp_ceiling p \<and> pp_ceiling p \<le> 63) \<and>
     0 \<le> pp_dialing p \<and> pp_dialing p \<le> 8 \<and> int (length (pp_conns p)) + pp_dialing p \<le> 64 \<and>
     distinct (pp_conns p) \<and> (\<forall>r\<in>set (pp_conns p). r < pp_fresh p) \<and>
     (\<forall>r. 0 \<le> pc_load (pp_store p r) \<and> pc_load (pp_store p r) \<le> 64)"

lemma max_limit_bounds: "pool_ok p \<Longrightarrow> 1 \<le> max_limit now p \<and> max_limit now p \<le> 64"
  by (auto simp: pool_ok_def max_limit_def pipe_max_inflight_def split: option.split)

lemma limit_locked_bounds: "pool_ok p \<Longrightarrow> 1 \<le> limit_locked now p \<and> limit_locked now p \<le> 64"
  using max_limit_bounds [of p now] by (auto simp: pool_ok_def limit_locked_def)

lemma max_conns_bounds: "8 \<le> max_conns l \<and> max_conns l \<le> 64"
  by (auto simp: max_conns_def pipe_min_conns_def pipe_capacity_def)

lemma conn_fail_load [simp]: "pc_load (snd (conn_fail e c)) = pc_load c"
  by (simp add: conn_fail_def)

lemma keep_live_spec:
  assumes "keep_live now st rs best = (live, best', st')"
  shows "set live \<subseteq> set rs \<and> length live \<le> length rs \<and> (distinct rs \<longrightarrow> distinct live) \<and>
    (\<forall>r. pc_load (st' r) = pc_load (st r)) \<and> (\<forall>b. best' = Some b \<longrightarrow> b \<in> set live \<or> best = Some b) \<and>
    (best' = None \<longleftrightarrow> best = None \<and> live = []) \<and>
    (\<forall>b. best' = Some b \<longrightarrow> (\<forall>r\<in>set live \<union> set_option best. pc_load (st b) \<le> pc_load (st r)))"
  using assms
proof (induction rs arbitrary: st best live best' st')
  case (Cons r rs)
  show ?case
  proof (cases "pc_dead (st r)")
    case True
    then have "keep_live now st rs best = (live, best', st')" using Cons.prems by simp
    from Cons.IH [OF this] show ?thesis by auto
  next
    case alive: False
    show ?thesis
    proof (cases "pc_load (st r) = 0 \<and> quiet_for now (st r) > dot_idle_timeout")
      case True
      let ?st = "st(r := snd (conn_fail (Some ErrPipeClosed) (st r)))"
      have k: "keep_live now ?st rs best = (live, best', st')"
        using Cons.prems alive True by (simp add: Let_def)
      have l: "pc_load (?st x) = pc_load (st x)" for x by simp
      show ?thesis using Cons.IH [OF k] unfolding l by auto
    next
      case False
      define b1 where "b1 = (case best of None \<Rightarrow> Some r
         | Some b \<Rightarrow> if pc_load (st r) < pc_load (st b) then Some r else best)"
      obtain l1 where k: "keep_live now st rs b1 = (l1, best', st')" and live: "live = r # l1"
        using Cons.prems alive False by (auto simp: Let_def b1_def [symmetric] split: prod.splits)
      note IH = Cons.IH [OF k]
      have b1: "\<exists>b. b1 = Some b \<and> (b = r \<or> best = Some b) \<and> pc_load (st b) \<le> pc_load (st r) \<and>
          (\<forall>x\<in>set_option best. pc_load (st b) \<le> pc_load (st x))"
        by (auto simp: b1_def split: option.split)
      then obtain b where b: "b1 = Some b" "b = r \<or> best = Some b" "pc_load (st b) \<le> pc_load (st r)"
          "\<forall>x\<in>set_option best. pc_load (st b) \<le> pc_load (st x)" by blast
      show ?thesis
        unfolding live using IH b by (auto intro: order_trans)
    qed
  qed
qed auto

lemma least_loaded_spec:
  assumes "least_loaded now p = (best, p')"
  shows "\<exists>live st'. p' = p\<lparr>pp_conns := live, pp_store := st'\<rparr> \<and> set live \<subseteq> set (pp_conns p) \<and>
    length live \<le> length (pp_conns p) \<and> (distinct (pp_conns p) \<longrightarrow> distinct live) \<and>
    (\<forall>r. pc_load (st' r) = pc_load (pp_store p r)) \<and> (best = None \<longleftrightarrow> live = []) \<and>
    (\<forall>b. best = Some b \<longrightarrow> b \<in> set live \<and> (\<forall>r\<in>set live. pc_load (st' b) \<le> pc_load (st' r)))"
proof -
  obtain live best1 st' where k: "keep_live now (pp_store p) (pp_conns p) None = (live, best1, st')"
    by (rule prod_cases3)
  with assms have "best = best1" and p': "p' = p\<lparr>pp_conns := live, pp_store := st'\<rparr>"
    by (auto simp: least_loaded_def)
  with keep_live_spec [OF k] show ?thesis by (intro exI [of _ live] exI [of _ st']) auto
qed

lemma least_loaded_ok:
  assumes "pool_ok p" and "least_loaded now p = (best, p')"
  shows "pool_ok p' \<and> pp_limit p' = pp_limit p \<and> pp_dialing p' = pp_dialing p"
proof -
  obtain live st' where "p' = p\<lparr>pp_conns := live, pp_store := st'\<rparr>" and "set live \<subseteq> set (pp_conns p)"
    "length live \<le> length (pp_conns p)" "distinct (pp_conns p) \<longrightarrow> distinct live"
    "\<forall>r. pc_load (st' r) = pc_load (pp_store p r)"
    using least_loaded_spec [OF assms(2)] by blast
  with assms(1) show ?thesis by (auto simp: pool_ok_def)
qed

lemma get_turn_ok:
  assumes "pool_ok p"
  shows "pool_ok (snd (get_turn now p))"
proof -
  obtain best p1 where ll: "least_loaded now p = (best, p1)" by (metis surj_pair)
  note ok1 = least_loaded_ok [OF assms ll]
  have lim: "limit_locked now p \<le> 64" using limit_locked_bounds [OF assms] by blast
  show ?thesis
  proof (cases "case best of None \<Rightarrow> False | Some r \<Rightarrow> pc_load (pp_store p1 r) < limit_locked now p")
    case True
    then obtain r where "best = Some r" and "pc_load (pp_store p1 r) < limit_locked now p"
      by (auto split: option.splits)
    with ok1 lim True show ?thesis
      by (auto simp: get_turn_def ll Let_def upd_conn_def pool_ok_def)
  next
    case False
    with ok1 max_conns_bounds [of "limit_locked now p"] show ?thesis
      by (auto simp: get_turn_def ll Let_def pool_ok_def pipe_max_dials_def)
  qed
qed

lemma dial_ok_ok: "pool_ok p \<Longrightarrow> 0 < pp_dialing p \<Longrightarrow> pool_ok (snd (dial_ok limit rnd now p))"
  by (auto simp: dial_ok_def pool_ok_def Let_def new_conn_def less_Suc_eq)

lemma dial_failed_ok: "pool_ok p \<Longrightarrow> 0 < pp_dialing p \<Longrightarrow> pool_ok (snd (dial_failed e now p))"
  by (auto simp: dial_failed_def pool_ok_def Let_def)

lemma upd_conn_ok:
  "pool_ok p \<Longrightarrow> 0 \<le> pc_load (f (pp_store p r)) \<Longrightarrow> pc_load (f (pp_store p r)) \<le> 64 \<Longrightarrow> pool_ok (upd_conn r f p)"
  by (auto simp: pool_ok_def upd_conn_def)

lemma release_ok:
  assumes ok: "pool_ok p" and held: "1 \<le> pc_load (pp_store p r)"
  shows "pool_ok (release r good at_limit dropped now p)"
proof -
  let ?n = "pc_load (pp_store p r)"
  let ?p = "upd_conn r (\<lambda>c. c\<lparr>pc_load := pc_load c - 1\<rparr>) p"
  have n: "?n \<le> 64" using ok by (simp add: pool_ok_def)
  have ok1: "pool_ok ?p" using ok held n by (intro upd_conn_ok) auto
  have m: "1 \<le> max_limit now ?p \<and> max_limit now ?p \<le> 64" by (rule max_limit_bounds [OF ok1])
  have l: "1 \<le> pp_limit ?p" using ok1 by (simp add: pool_ok_def)
  have "pc_load (pp_store ?p r) = ?n - 1" by (simp add: upd_conn_def)
  then have "pool_ok (upd_conn r (\<lambda>c. c\<lparr>pc_counted := True\<rparr>) ?p)"
    using held n by (intro upd_conn_ok [OF ok1]) simp_all
  then have A: "?n \<ge> 2 \<Longrightarrow> pool_ok ((upd_conn r (\<lambda>c. c\<lparr>pc_counted := True\<rparr>) ?p)
      \<lparr>pp_learned := True, pp_limit := max 1 (?n div 2), pp_ceiling := max 1 (?n - 1),
       pp_ceiling_until := Some (now + pipe_ceiling_ttl), pp_grown := 0\<rparr>)"
    using n unfolding pool_ok_def by auto
  have B: "pool_ok (?p\<lparr>pp_grown := g\<rparr>)" for g
    using ok1 by (simp add: pool_ok_def)
  have C: "pool_ok (?p\<lparr>pp_grown := 0, pp_limit := min x (max_limit now ?p)\<rparr>)" if "1 \<le> x" for x
    using ok1 m that by (auto simp: pool_ok_def)
  have C': "pool_ok (?p\<lparr>pp_grown := 0, pp_limit := min (if \<not> pp_learned ?p then pp_limit ?p * 2 else pp_limit ?p + 1)
      (max_limit now ?p)\<rparr>)"
    by (rule C) (use l in auto)
  show ?thesis
    unfolding release_def Let_def
    by (split if_split, intro conjI impI A, simp, split if_split, intro conjI impI ok1,
        split if_split, intro conjI impI B C')
qed

text \<open>
  What can happen to a pool: a turn of \<open>get\<close>, the end of a dial, a query giving its slot back, and
  whatever happens on a connection.
\<close>

inductive pool_step :: "pool \<Rightarrow> pool \<Rightarrow> bool" where
  turn: "pool_step p (snd (get_turn now p))"
| dialled: "0 < pp_dialing p \<Longrightarrow> pool_step p (snd (dial_ok limit rnd now p))"
| not_dialled: "0 < pp_dialing p \<Longrightarrow> pool_step p (snd (dial_failed e now p))"
| released: "1 \<le> pc_load (pp_store p r) \<Longrightarrow> pool_step p (release r good at_limit dropped now p)"
| enrolled: "conn_enroll tok (pp_store p r) = Some (Inr (i, c)) \<Longrightarrow> pool_step p (upd_conn r (\<lambda>_. c) p)"
| delivered: "pool_step p (upd_conn r (\<lambda>c. snd (conn_deliver m now c)) p)"
| gave_up: "pool_step p (upd_conn r (conn_expire i) p)"
| failed: "pool_step p (upd_conn r (\<lambda>c. snd (conn_fail e c)) p)"

inductive_cases pool_stepE: "pool_step p p'"

lemma new_pool_ok: "pool_ok new_pool"
  by (simp add: pool_ok_def new_pool_def pipe_start_inflight_def new_conn_def)

lemma pool_step_ok: "pool_step p p' \<Longrightarrow> pool_ok p \<Longrightarrow> pool_ok p'"
proof (induction rule: pool_step.induct)
  case (enrolled tok p r i c)
  then have "pc_load c = pc_load (pp_store p r)" using enroll_Inr [OF enrolled.hyps] by simp
  with enrolled.prems show ?case by (intro upd_conn_ok) (auto simp: pool_ok_def)
next
  case (delivered p r m now)
  then show ?case by (intro upd_conn_ok) (auto simp: pool_ok_def conn_deliver_def)
next
  case (gave_up p r i)
  then show ?case by (intro upd_conn_ok) (auto simp: pool_ok_def conn_expire_def)
next
  case (failed p r e)
  then show ?case by (intro upd_conn_ok) (auto simp: pool_ok_def)
qed (simp_all add: get_turn_ok dial_ok_ok dial_failed_ok release_ok)

subsection \<open>Properties\<close>

text \<open>A query on a live connection with an ID free is always given an ID no other waiting query
  has, and the search for it ends.\<close>

theorem enroll_fresh_id:
  assumes "\<not> pc_dead c" and "length (pc_pending c) < 65536"
  shows "\<exists>i c'. conn_enroll tok c = Some (Inr (i, c')) \<and> map_of (pc_pending c) i = None \<and>
    map_of (pc_pending c') i = Some tok \<and> (\<forall>j. j \<noteq> i \<longrightarrow> map_of (pc_pending c') j = map_of (pc_pending c) j)"
proof -
  obtain i where i: "free_id (pc_pending c) (pc_next_id c) = Some i" using free_id_total [OF assms(2)] by blast
  with free_id_unused [OF i] assms(1) show ?thesis
    by (auto simp: conn_enroll_def update_conv')
qed

theorem enroll_fresh_id_witness:
  "\<exists>i c'. conn_enroll 7 ((new_conn 65535 0)\<lparr>pc_pending := [(65535, 3)]\<rparr>) = Some (Inr (i, c')) \<and> i \<noteq> 65535"
proof -
  let ?c = "(new_conn 65535 0)\<lparr>pc_pending := [(65535, 3)]\<rparr>"
  have "\<not> pc_dead ?c" and "length (pc_pending ?c) < 65536" by (simp_all add: new_conn_def)
  then obtain i c' where "conn_enroll 7 ?c = Some (Inr (i, c'))" and "map_of (pc_pending ?c) i = None"
    using enroll_fresh_id [of ?c 7] by blast
  then show ?thesis by (auto split: if_splits)
qed

text \<open>C10: over the whole life of a connection, every query sent on it is either still waiting or was
  told exactly one thing (its answer, the connection's failure, or its own timeout); once the
  connection is dead none is left waiting.\<close>

theorem every_query_told_once:
  assumes "conn_run n ts c"
  shows "distinct (map fst ts) \<and> set (map fst ts) \<subseteq> {..<n} \<and>
    set (map fst ts) \<inter> snd ` set (pc_pending c) = {} \<and> (pc_dead c \<longrightarrow> set (map fst ts) = {..<n})"
proof -
  have inv: "conn_ok c" "mset (map fst ts @ map snd (pc_pending c)) = mset [0..<n]"
    using conn_run_invariant [OF assms] by auto
  have d: "distinct (map fst ts @ map snd (pc_pending c))"
    using inv(2) by (metis distinct_upt mset_eq_imp_distinct_iff)
  have s: "set (map fst ts @ map snd (pc_pending c)) = {..<n}"
    using mset_eq_setD [OF inv(2)] by auto
  show ?thesis using d s inv(1) by (auto simp: conn_ok_def)
qed

theorem every_query_told_once_witness:
  "distinct (map fst [(0, GotFailure)]) \<and> set (map fst [(0 :: nat, GotFailure)]) \<subseteq> {..<1}"
proof -
  let ?c = "(new_conn 5 0)\<lparr>pc_next_id := 6, pc_pending := [(5, 0)]\<rparr>"
  have "conn_enroll 0 (new_conn 5 0) = Some (Inr (5, ?c))"
    using free_id_step [of "[]" 5] by (simp add: conn_enroll_def new_conn_def)
  from conn_run.sent [OF conn_run.opened this] have "conn_run 1 [] ?c" by simp
  from conn_run.broken [where err = "Some ErrEOF", OF this surjective_pairing] have
    "conn_run 1 [(0, GotFailure)] (snd (conn_fail (Some ErrEOF) ?c))"
    by (simp add: conn_fail_def new_conn_def)
  from every_query_told_once [OF this] show ?thesis by simp
qed

text \<open>Whatever happens, the limit in force stays between 1 and 64 queries per connection, no
  connection carries more than 64, and no more than 64 connections exist or are being opened,
  at most 8 of them at once.\<close>

theorem pool_bounds:
  assumes "pool_step\<^sup>*\<^sup>* new_pool p"
  shows "1 \<le> limit_locked now p \<and> limit_locked now p \<le> 64 \<and>
    (\<forall>r. 0 \<le> pc_load (pp_store p r) \<and> pc_load (pp_store p r) \<le> 64) \<and>
    0 \<le> pp_dialing p \<and> pp_dialing p \<le> 8 \<and> int (length (pp_conns p)) + pp_dialing p \<le> 64"
proof -
  have "pool_ok p" using assms by (induction rule: rtranclp_induct) (auto simp: new_pool_ok pool_step_ok)
  with limit_locked_bounds [OF this, of now] show ?thesis by (simp add: pool_ok_def)
qed

theorem pool_bounds_witness:
  "1 \<le> limit_locked 9 (snd (get_turn 5 new_pool)) \<and> pp_dialing (snd (get_turn 5 new_pool)) \<le> 8"
proof -
  have "pool_step\<^sup>*\<^sup>* new_pool (snd (get_turn 5 new_pool))" by (rule r_into_rtranclp) (rule pool_step.turn)
  from pool_bounds [OF this, of 9] show ?thesis by blast
qed

text \<open>A slot is only given on a live connection the pool still holds, one with the fewest
  queries in flight, and only while it is under the limit.\<close>

theorem slot_least_loaded:
  assumes "get_turn now p = (Slot r full, p')"
  shows "r \<in> set (pp_conns p') \<and> pc_load (pp_store p' r) = pc_load (pp_store p r) + 1 \<and>
    pc_load (pp_store p r) < limit_locked now p \<and> (full \<longleftrightarrow> limit_locked now p \<le> pc_load (pp_store p' r)) \<and>
    (\<forall>x\<in>set (pp_conns p'). pc_load (pp_store p r) \<le> pc_load (pp_store p x))"
proof -
  obtain best p1 where ll: "least_loaded now p = (best, p1)" by (metis surj_pair)
  obtain live st' where p1: "p1 = p\<lparr>pp_conns := live, pp_store := st'\<rparr>"
    and same: "\<forall>r. pc_load (st' r) = pc_load (pp_store p r)"
    and best: "\<forall>b. best = Some b \<longrightarrow> b \<in> set live \<and> (\<forall>r\<in>set live. pc_load (st' b) \<le> pc_load (st' r))"
    using least_loaded_spec [OF ll] by blast
  obtain b where b: "best = Some b" "pc_load (pp_store p1 b) < limit_locked now p"
    using assms by (auto simp: get_turn_def ll Let_def split: option.splits if_splits)
  then have "r = b" and "p' = upd_conn b (\<lambda>c. c\<lparr>pc_load := pc_load c + 1\<rparr>) p1"
    and "full \<longleftrightarrow> limit_locked now p \<le> pc_load (pp_store p' b)"
    using assms by (auto simp: get_turn_def ll Let_def)
  with b best same show ?thesis by (auto simp: p1 upd_conn_def)
qed

definition demo_pool :: pool where
  "demo_pool = snd (dial_ok 2 7 0 (snd (get_turn 0 new_pool)))"

theorem slot_least_loaded_witness:
  "\<exists>r full p'. get_turn 1 demo_pool = (Slot r full, p') \<and> r \<in> set (pp_conns p')"
proof -
  have "\<exists>p'. get_turn 1 demo_pool = (Slot 0 True, p')"
    by (simp add: demo_pool_def get_turn_def dial_ok_def least_loaded_def new_pool_def limit_locked_def max_limit_def
        Let_def pipe_start_inflight_def pipe_max_inflight_def new_conn_def max_conns_def pipe_min_conns_def
        pipe_max_dials_def upd_conn_def quiet_for_def)
  then obtain p' where p': "get_turn 1 demo_pool = (Slot 0 True, p')" by blast
  with slot_least_loaded [OF p'] show ?thesis by blast
qed

text \<open>A query is tried at most three times; it returns the first answer, and otherwise the last
  error, after trying again only when the connection was dropped, had been closed or was
  silently dead.\<close>

theorem pipe_exchange_result:
  assumes "pipe_exchange try_nr = (k, m, err)"
  shows "1 \<le> k \<and> k \<le> 3 \<and> (m = None \<longleftrightarrow> err \<noteq> None) \<and>
    (\<forall>j < k - 1. \<exists>s e. try_nr j = Tried s (Inr e) \<and> retryable s e) \<and>
    (case try_nr (k - 1) of NoSlot e \<Rightarrow> err = Some e | Tried s (Inl a) \<Rightarrow> m = Some a | Tried s (Inr e) \<Rightarrow> err = Some e)"
  using assms
  by (auto simp: pipe_exchange_def pipe_attempts_def numeral_3_eq_3 less_Suc_eq
      split: attempt.splits sum.splits if_splits)

theorem pipe_exchange_result_witness:
  "pipe_exchange (\<lambda>k. if k = 0 then Tried False (Inr ErrEOF) else Tried False (Inl blank_msg)) = (2, Some blank_msg, None)
   \<and> (2 :: nat) \<le> 3"
proof -
  let ?t = "\<lambda>k :: nat. if k = 0 then Tried False (Inr ErrEOF) else Tried False (Inl blank_msg)"
  have r: "pipe_exchange ?t = (2, Some blank_msg, None)" by code_simp
  from pipe_exchange_result [OF r] r show ?thesis by blast
qed

text \<open>When the server drops a connection with \<open>n\<close> queries in flight, the limit becomes half of
  \<open>n\<close>, and it stays below \<open>n\<close> for ten minutes however many queries succeed.\<close>

theorem drop_lowers_limit:
  assumes "n = pc_load (pp_store p r)" and "2 \<le> n" and "\<not> pc_counted (pp_store p r)"
    and "p' = release r good at_limit True now p" and "later < now + 10 * minute"
  shows "limit_locked now p' = max 1 (n div 2) \<and> limit_locked later p' < n \<and>
    limit_locked later (release r' good' at_limit' False later p') < n"
proof -
  have p': "pp_limit p' = max 1 (n div 2)" "pp_ceiling p' = max 1 (n - 1)"
    "pp_ceiling_until p' = Some (now + 10 * minute)"
    using assms(1-4) by (auto simp: release_def Let_def pipe_ceiling_ttl_def)
  have ceil: "max_limit later q = n - 1" if "pp_ceiling q = pp_ceiling p'" "pp_ceiling_until q = pp_ceiling_until p'" for q
    using that p' assms(2,5) by (simp add: max_limit_def)
  have "limit_locked later q \<le> n - 1" if "pp_ceiling q = pp_ceiling p'" "pp_ceiling_until q = pp_ceiling_until p'" for q
    using ceil [OF that] by (simp add: limit_locked_def)
  moreover have "pp_ceiling (release r' good' at_limit' False later p') = pp_ceiling p' \<and>
      pp_ceiling_until (release r' good' at_limit' False later p') = pp_ceiling_until p'"
    by (simp add: release_def Let_def upd_conn_def)
  moreover have "limit_locked now p' = max 1 (n div 2)"
    using p' assms(2) by (simp add: limit_locked_def max_limit_def)
  ultimately show ?thesis by force
qed

definition busy_pool :: "int \<Rightarrow> int \<Rightarrow> pool" where
  "busy_pool limit load = new_pool\<lparr>pp_limit := limit, pp_learned := True, pp_conns := [0], pp_fresh := 1,
     pp_store := (\<lambda>_. (new_conn 0 0)\<lparr>pc_load := load\<rparr>)\<rparr>"

theorem drop_lowers_limit_witness:
  "limit_locked 0 (release 0 False False True 0 (busy_pool 64 30)) = 15"
proof -
  have "limit_locked 0 (release 0 False False True 0 (busy_pool 64 30)) = max 1 (30 div 2) \<and>
      limit_locked 1 (release 0 False False True 0 (busy_pool 64 30)) < 30 \<and>
      limit_locked 1 (release 0 True True False 1 (release 0 False False True 0 (busy_pool 64 30))) < 30"
    by (rule drop_lowers_limit) (simp_all add: busy_pool_def new_conn_def new_pool_def)
  then show ?thesis by simp
qed

text \<open>A drop does not always lower the limit: on a connection that carries more than twice the
  queries of a limit learned meanwhile, it raises it.\<close>

theorem drop_can_raise_limit:
  assumes "pool_ok p" and "2 * pp_limit p + 2 \<le> pc_load (pp_store p r)" and "\<not> pc_counted (pp_store p r)"
  shows "limit_locked now p < limit_locked now (release r False at_limit True now p)"
proof -
  let ?n = "pc_load (pp_store p r)"
  have "1 \<le> pp_limit p" using assms(1) by (simp add: pool_ok_def)
  then have n: "?n \<ge> 2" and big: "pp_limit p + 1 \<le> ?n div 2" using assms(2) by auto
  then have "limit_locked now (release r False at_limit True now p) = max 1 (?n div 2)"
    using assms(3) by (simp add: release_def Let_def limit_locked_def max_limit_def pipe_ceiling_ttl_def)
  then show ?thesis using big by (simp add: limit_locked_def)
qed

theorem drop_can_raise_limit_witness:
  "limit_locked 0 (busy_pool 2 30) < limit_locked 0 (release 0 False False True 0 (busy_pool 2 30))"
  by (rule drop_can_raise_limit)
    (simp_all add: busy_pool_def new_conn_def new_pool_def pool_ok_def)

end
