(* ===== verification/Listeners.thy ===== *)
theory Listeners
  imports Go_Prelude
begin

section \<open>The DNS listeners (internal/resolver/server.go)\<close>

text \<open>
  How many UDP sockets to open, and the life of the server: sockets are handed over and started
  one by one while \<open>Shutdown\<close> may be called at any moment. A socket is a number; \<open>sv_closed_socks\<close>
  records the ones closed and \<open>sv_shutdown\<close> the listeners \<open>ShutdownContext\<close> was called on. \<open>start\<close> and the locked
  part of \<open>Shutdown\<close> run under the server's mutex, so each is one step.
\<close>

definition max_udp_listeners :: int where [model]: "max_udp_listeners = 8"

definition udp_listeners :: "int \<Rightarrow> string \<Rightarrow> int" where
  [model]: "udp_listeners gomaxprocs env =
     (let auto = (if gomaxprocs > max_udp_listeners then max_udp_listeners else gomaxprocs);
          auto = (if auto < 1 then 1 else auto);
          raw = trim_space env in
      if raw = [] then auto
      else case atoi raw of
        None \<Rightarrow> auto
      | Some v \<Rightarrow> if v < 1 then auto else if v > max_udp_listeners then max_udp_listeners else v)"

record server =
  sv_udp_up :: bool
  sv_tcp_up :: bool
  sv_closed :: bool
  sv_running :: "nat list"
  sv_closed_socks :: "nat list"
  sv_shutdown :: "nat list"

definition new_server :: server where
  [model]: "new_server = \<lparr>sv_udp_up = False, sv_tcp_up = False, sv_closed = False, sv_running = [],
     sv_closed_socks = [], sv_shutdown = []\<rparr>"

definition start_listener :: "nat \<Rightarrow> bool \<Rightarrow> server \<Rightarrow> bool \<times> server" where
  [model]: "start_listener sock tcp s =
     (if sv_closed s then (False, s\<lparr>sv_closed_socks := sv_closed_socks s @ [sock]\<rparr>)
      else (True, (if tcp then s\<lparr>sv_tcp_up := True\<rparr> else s\<lparr>sv_udp_up := True\<rparr>)
                    \<lparr>sv_running := sv_running s @ [sock]\<rparr>))"

text \<open>\<open>stuck\<close> are the listeners that are not serving yet, whose socket is closed instead.\<close>

definition shutdown_server :: "(nat \<Rightarrow> bool) \<Rightarrow> server \<Rightarrow> server" where
  [model]: "shutdown_server stuck s =
     (let running = sv_running s in
      s\<lparr>sv_closed := True, sv_udp_up := False, sv_tcp_up := False,
        sv_shutdown := sv_shutdown s @ running,
        sv_closed_socks := sv_closed_socks s @ filter stuck running\<rparr>)"

text \<open>
  The UDP part of \<open>ListenAndServe\<close>: the first socket must bind, later failures end the loop, and
  a shutdown while starting ends it with no error. \<open>binds\<close> tells which binds succeed, \<open>downs\<close> before which
  start a shutdown comes.
\<close>

datatype listen_end = BindError | ShutDown | Up nat

fun listen_udp :: "(nat \<Rightarrow> bool) \<Rightarrow> (nat \<Rightarrow> bool) \<Rightarrow> nat list \<Rightarrow> nat \<Rightarrow> server \<Rightarrow> listen_end \<times> server" where
  "listen_udp binds downs [] bound s = (Up bound, s)"
| "listen_udp binds downs (i # is) bound s =
     (if \<not> binds i then (if bound = 0 then (BindError, s) else (Up bound, s))
      else
        let s1 = (if downs i then shutdown_server (\<lambda>_. True) s else s) in
        case start_listener i False s1 of
          (ok, s2) \<Rightarrow> if \<not> ok then (ShutDown, s2) else listen_udp binds downs is (bound + 1) s2)"

subsection \<open>The life of a server\<close>

inductive server_step :: "server \<Rightarrow> server \<Rightarrow> bool" where
  "server_step s (snd (start_listener sock tcp s))"
| "server_step s (shutdown_server stuck s)"

inductive_cases server_stepE: "server_step s s'"

definition server_ok :: "server \<Rightarrow> bool" where
  "server_ok s \<longleftrightarrow>
     (sv_closed s \<longrightarrow> \<not> sv_udp_up s \<and> \<not> sv_tcp_up s \<and> set (sv_running s) \<subseteq> set (sv_shutdown s)) \<and>
     (sv_udp_up s \<or> sv_tcp_up s \<longrightarrow> sv_running s \<noteq> [])"

lemma server_step_ok: "server_step s s' \<Longrightarrow> server_ok s \<Longrightarrow> server_ok s'"
  by (erule server_stepE) (simp_all add: server_ok_def start_listener_def shutdown_server_def Let_def)

lemma server_reach_ok: "server_step\<^sup>*\<^sup>* new_server s \<Longrightarrow> server_ok s"
proof (induction rule: rtranclp_induct)
  case base
  then show ?case by (simp add: server_ok_def new_server_def)
next
  case (step y z)
  then show ?case by (blast intro: server_step_ok)
qed

lemma server_step_closed: "server_step s s' \<Longrightarrow> sv_closed s \<Longrightarrow> sv_closed s' \<and> sv_running s' = sv_running s"
  by (erule server_stepE) (simp_all add: start_listener_def shutdown_server_def Let_def)

lemma server_closed_stays: "server_step\<^sup>*\<^sup>* s s' \<Longrightarrow> sv_closed s \<Longrightarrow> sv_closed s' \<and> sv_running s' = sv_running s"
  by (induction rule: rtranclp_induct) (auto dest: server_step_closed)

subsection \<open>Properties\<close>

text \<open>The number of UDP sockets is between 1 and 8 whatever the host and the environment
  variable say, and a number from 1 to 8 in the variable is taken as it is.\<close>

theorem udp_listeners_bounds:
  "1 \<le> udp_listeners cpus env \<and> udp_listeners cpus env \<le> 8 \<and>
   (\<forall>v. atoi (trim_space env) = Some v \<and> 1 \<le> v \<and> v \<le> 8 \<longrightarrow> udp_listeners cpus env = v)"
proof -
  define auto_nr where "auto_nr = (if (if cpus > 8 then 8 else cpus) < 1 then 1 else if cpus > 8 then 8 else cpus)"
  have nr: "1 \<le> auto_nr \<and> auto_nr \<le> 8" by (auto simp: auto_nr_def)
  have def: "udp_listeners cpus env = (if trim_space env = [] then auto_nr
      else case atoi (trim_space env) of None \<Rightarrow> auto_nr
        | Some v \<Rightarrow> if v < 1 then auto_nr else if v > 8 then 8 else v)"
    unfolding udp_listeners_def max_udp_listeners_def Let_def auto_nr_def by (rule refl)
  show ?thesis
  proof (cases "trim_space env = []")
    case True
    have "atoi (trim_space env) = None" unfolding True by (simp add: atoi_def)
    with True nr show ?thesis unfolding def by simp
  next
    case False
    with nr show ?thesis unfolding def by (cases "atoi (trim_space env)") auto
  qed
qed

theorem udp_listeners_bounds_witness: "udp_listeners 64 '' 3 '' = 3"
proof -
  have "atoi (trim_space '' 3 '') = Some 3" by code_simp
  moreover have "1 \<le> (3 :: int)" and "(3 :: int) \<le> 8" by simp_all
  ultimately show ?thesis using udp_listeners_bounds [of 64 "'' 3 ''"] by blast
qed

text \<open>After a shutdown, however far startup had got, no listener is reported up, every listener
  ever started has been shut down, and a socket that comes later is closed, not served.\<close>

theorem shutdown_is_final:
  assumes "server_step\<^sup>*\<^sup>* new_server s" and "server_step\<^sup>*\<^sup>* (shutdown_server stuck s) s'"
  shows "\<not> sv_udp_up s' \<and> \<not> sv_tcp_up s' \<and> set (sv_running s') \<subseteq> set (sv_shutdown s') \<and>
    sv_running s' = sv_running s \<and> \<not> fst (start_listener sock tcp s') \<and>
    sock \<in> set (sv_closed_socks (snd (start_listener sock tcp s')))"
proof -
  have c: "sv_closed (shutdown_server stuck s)" "sv_running (shutdown_server stuck s) = sv_running s"
    by (simp_all add: shutdown_server_def Let_def)
  then have c': "sv_closed s'" "sv_running s' = sv_running s"
    using server_closed_stays [OF assms(2)] by simp_all
  have "server_step s (shutdown_server stuck s)" by (rule server_step.intros)
  then have "server_step\<^sup>*\<^sup>* new_server s'"
    using assms by (meson rtranclp.rtrancl_into_rtrancl rtranclp_trans)
  from server_reach_ok [OF this] c' show ?thesis by (simp add: start_listener_def server_ok_def)
qed

theorem shutdown_is_final_witness:
  "\<not> sv_udp_up (snd (start_listener 2 False (shutdown_server (\<lambda>_. False) (snd (start_listener 1 False new_server)))))"
proof -
  let ?s = "snd (start_listener 1 False new_server)"
  have "server_step\<^sup>*\<^sup>* new_server ?s" by (rule r_into_rtranclp) (rule server_step.intros)
  moreover have "server_step\<^sup>*\<^sup>* (shutdown_server (\<lambda>_. False) ?s)
      (snd (start_listener 2 False (shutdown_server (\<lambda>_. False) ?s)))"
    by (rule r_into_rtranclp) (rule server_step.intros)
  ultimately show ?thesis using shutdown_is_final by blast
qed

end
