(* ===== verification/Log_Buffer.thy ===== *)
theory Log_Buffer
  imports Go_Prelude
begin

section \<open>Process logs (internal/logbuf, internal/api/logs.go, internal/cluster/agent.go)\<close>

text \<open>
  Every process keeps its last log lines in a ring; an agent ships the new ones to the control
  plane on each poll, which keeps one ring per agent and shows them. A ring is an array used
  circularly: \<open>lb_entries\<close> has the capacity as its length, the unused places hold zero entries.
  \<open>log_all\<close> is what the ring stands for, a list with the oldest line first, and the operations
  are shown to refine operations on such lists. Sequence numbers are \<open>uint64\<close>.
\<close>

subsection \<open>The ring\<close>

record log_entry =
  le_seq :: u64
  le_ts :: int
  le_level :: string
  le_msg :: string

record log_buffer =
  lb_entries :: "log_entry list"
  lb_start :: nat
  lb_count :: nat
  lb_next :: u64

definition max_msg_len :: nat where [model]: "max_msg_len = 8192"

text \<open>The cut is marked with an ellipsis, three bytes in UTF-8.\<close>

definition cut_mark :: string where
  "cut_mark = [char_of (226 :: nat), char_of (128 :: nat), char_of (166 :: nat)] @ ''[truncated]''"

definition truncate_line :: "string \<Rightarrow> string" where
  [model]: "truncate_line msg = (if length msg \<le> max_msg_len then msg else take max_msg_len msg @ cut_mark)"

definition zero_entry :: log_entry where
  "zero_entry = \<lparr>le_seq = 0, le_ts = 0, le_level = [], le_msg = []\<rparr>"

definition new_log_buffer :: "int \<Rightarrow> log_buffer" where
  [model]: "new_log_buffer capacity =
     (let n = nat (if capacity \<le> 0 then 1 else capacity) in
      \<lparr>lb_entries = replicate n zero_entry, lb_start = 0, lb_count = 0, lb_next = 0\<rparr>)"

definition log_put :: "log_entry \<Rightarrow> log_buffer \<Rightarrow> log_buffer" where
  [model]: "log_put e b =
     (let n = length (lb_entries b) in
      if lb_count b < n
      then b\<lparr>lb_entries := (lb_entries b)[(lb_start b + lb_count b) mod n := e], lb_count := lb_count b + 1\<rparr>
      else b\<lparr>lb_entries := (lb_entries b)[lb_start b := e], lb_start := (lb_start b + 1) mod n\<rparr>)"

definition log_append :: "int \<Rightarrow> string \<Rightarrow> string \<Rightarrow> log_buffer \<Rightarrow> log_buffer" where
  [model]: "log_append ts level msg b =
     (let b = b\<lparr>lb_next := lb_next b + 1\<rparr> in
      log_put \<lparr>le_seq = lb_next b, le_ts = ts, le_level = level, le_msg = msg\<rparr> b)"

definition log_append_entry :: "log_entry \<Rightarrow> log_buffer \<Rightarrow> log_buffer" where
  [model]: "log_append_entry e b =
     (let b = b\<lparr>lb_next := lb_next b + 1\<rparr> in log_put (e\<lparr>le_seq := lb_next b\<rparr>) b)"

definition log_at :: "log_buffer \<Rightarrow> nat \<Rightarrow> log_entry" where
  [model]: "log_at b i = lb_entries b ! ((lb_start b + i) mod length (lb_entries b))"

definition log_all :: "log_buffer \<Rightarrow> log_entry list" where
  [model]: "log_all b = map (log_at b) [0..<lb_count b]"

text \<open>The loop of \<open>Since\<close> from the \<open>i\<close>-th line on, with what it collected.\<close>

function since_loop :: "log_buffer \<Rightarrow> u64 \<Rightarrow> int \<Rightarrow> nat \<Rightarrow> log_entry list \<Rightarrow> log_entry list" where
  "since_loop b after mx i out =
     (if i < lb_count b \<and> int (length out) < mx
      then since_loop b after mx (i + 1)
        (if le_seq (log_at b i) > after then out @ [log_at b i] else out)
      else out)"
  by pat_completeness auto
termination
  by (relation "measure (\<lambda>(b, after, mx, i, out). lb_count b - i)") auto

declare since_loop.simps [simp del]

definition log_since :: "u64 \<Rightarrow> int \<Rightarrow> log_buffer \<Rightarrow> log_entry list" where
  [model]: "log_since after mx b = since_loop b after mx 0 []"

subsection \<open>Levels and the handler\<close>

definition level_string :: "int \<Rightarrow> string" where
  [model]: "level_string l =
     (if l \<ge> 8 then ''error'' else if l \<ge> 4 then ''warn'' else if l \<ge> 0 then ''info'' else ''debug'')"

definition level_rank :: "string \<Rightarrow> int" where
  [model]: "level_rank label =
     (if label = ''error'' then 3 else if label = ''warn'' then 2 else if label = ''info'' then 1 else 0)"

text \<open>An attribute: its key, its value resolved and printed, and whether the value is the nil one.\<close>

record log_attr =
  at_key :: string
  at_text :: string
  at_nil :: bool

record log_handler =
  lh_attrs :: "log_attr list"
  lh_group :: string

definition append_attr :: "string \<Rightarrow> log_attr \<Rightarrow> string \<Rightarrow> string" where
  [model]: "append_attr grp a sb =
     (if at_key a = [] \<and> at_nil a then sb
      else sb @ '' '' @ (if grp \<noteq> [] then grp @ ''.'' else []) @ at_key a @ ''='' @ at_text a)"

definition handle_record ::
  "log_handler \<Rightarrow> int \<Rightarrow> int \<Rightarrow> string \<Rightarrow> log_attr list \<Rightarrow> log_buffer \<Rightarrow> log_buffer" where
  [model]: "handle_record h ts level msg attrs b =
     (let sb = fold (append_attr []) (lh_attrs h) msg;
          sb = fold (append_attr (lh_group h)) attrs sb
      in log_append ts (level_string level) (truncate_line sb) b)"

definition with_attrs :: "log_attr list \<Rightarrow> log_handler \<Rightarrow> log_handler" where
  [model]: "with_attrs attrs h = h\<lparr>lh_attrs := lh_attrs h @
     map (\<lambda>a. if lh_group h \<noteq> [] then a\<lparr>at_key := lh_group h @ ''.'' @ at_key a\<rparr> else a) attrs\<rparr>"

definition with_group :: "string \<Rightarrow> log_handler \<Rightarrow> log_handler" where
  [model]: "with_group name h =
     (if name = [] then h
      else h\<lparr>lh_group := (if lh_group h \<noteq> [] then lh_group h @ ''.'' @ name else name)\<rparr>)"

subsection \<open>What the ring stands for\<close>

definition buffer_ok :: "log_buffer \<Rightarrow> bool" where
  "buffer_ok b \<longleftrightarrow> lb_entries b \<noteq> [] \<and> lb_start b < length (lb_entries b) \<and> lb_count b \<le> length (lb_entries b)"

lemma length_log_all [simp]: "length (log_all b) = lb_count b"
  by (simp add: log_all_def)

lemma new_log_buffer_ok: "buffer_ok (new_log_buffer c)" "log_all (new_log_buffer c) = []"
    "lb_next (new_log_buffer c) = 0" "length (lb_entries (new_log_buffer c)) = (if c \<le> 0 then 1 else nat c)"
  by (auto simp: new_log_buffer_def buffer_ok_def log_all_def Let_def)

lemma log_put_ok: "buffer_ok b \<Longrightarrow> buffer_ok (log_put e b)"
  by (auto simp: log_put_def buffer_ok_def Let_def)

lemma log_put_frame [simp]: "length (lb_entries (log_put e b)) = length (lb_entries b)" "lb_next (log_put e b) = lb_next b"
  by (auto simp: log_put_def Let_def)

lemma ring_index: "a < n \<Longrightarrow> i \<le> n \<Longrightarrow> (a + i) mod n = (if a + i < n then a + i else a + i - n)" for a i n :: nat
  by (simp add: mod_if)

text \<open>Adding an entry to the ring appends it to the list and drops the oldest when it is full.\<close>

lemma log_put_all:
  assumes "buffer_ok b"
  shows "log_all (log_put e b) =
    (if lb_count b < length (lb_entries b) then log_all b @ [e] else tl (log_all b) @ [e])"
proof -
  let ?n = "length (lb_entries b)"
  have n: "0 < ?n" "lb_start b < ?n" "lb_count b \<le> ?n" using assms by (auto simp: buffer_ok_def)
  have inj: "(lb_start b + i) mod ?n \<noteq> (lb_start b + j) mod ?n" if "i < j" "j < ?n" for i j
    using ring_index [OF n(2), of i] ring_index [OF n(2), of j] that by auto
  show ?thesis
  proof (cases "lb_count b < ?n")
    case True
    have "log_at (log_put e b) i = (if i = lb_count b then e else log_at b i)" if "i \<le> lb_count b" for i
      using True n that inj [of i "lb_count b"] by (auto simp: log_put_def log_at_def nth_list_update)
    then show ?thesis using True by (simp add: log_all_def log_put_def)
  next
    case False
    then have full: "lb_count b = ?n" using n by simp
    obtain k where k: "?n = Suc k" using n by (cases ?n) auto
    have step: "(Suc (lb_start b) mod ?n + i) mod ?n = (lb_start b + Suc i) mod ?n" for i
      by (simp add: mod_add_left_eq)
    have wrap: "(lb_start b + ?n) mod ?n = lb_start b" using n by simp
    have "log_at (log_put e b) i = (if Suc i = ?n then e else log_at b (Suc i))" if "i < ?n" for i
    proof (cases "Suc i = ?n")
      case True
      then show ?thesis using full n wrap by (simp add: log_put_def log_at_def step)
    next
      case False
      then have "(lb_start b + Suc i) mod ?n \<noteq> (lb_start b + 0) mod ?n" using inj [of 0 "Suc i"] that by simp
      then have "(lb_start b + Suc i) mod ?n \<noteq> lb_start b" using n by simp
      with False show ?thesis using full n by (simp add: log_put_def log_at_def step)
    qed
    then have "log_all (log_put e b) = map (\<lambda>i. if Suc i = ?n then e else log_at b (Suc i)) [0..<?n]"
      using full by (simp add: log_all_def log_put_def)
    also have "\<dots> = map (\<lambda>i. log_at b (Suc i)) [0..<k] @ [e]"
      unfolding k upt_Suc by (auto intro: map_cong)
    also have "map (\<lambda>i. log_at b (Suc i)) [0..<k] = tl (log_all b)"
      unfolding log_all_def full k by (simp add: upt_rec [of 0] map_Suc_upt [symmetric] comp_def del: upt_Suc map_Suc_upt)
    finally show ?thesis using False by simp
  qed
qed

definition last_of :: "nat \<Rightarrow> 'a list \<Rightarrow> 'a list" where
  "last_of n xs = drop (length xs - n) xs"

lemma last_of_short: "length xs \<le> n \<Longrightarrow> last_of n xs = xs"
  by (simp add: last_of_def)

lemma last_of_snoc: "0 < n \<Longrightarrow> last_of n (last_of n xs @ [x]) = last_of n (xs @ [x])"
  by (cases "length xs < n") (auto simp: last_of_def Suc_diff_le)

lemma map_last_of: "map f (last_of n xs) = last_of n (map f xs)"
  by (simp add: last_of_def drop_map)

lemma log_put_last:
  assumes "buffer_ok b"
  shows "log_all (log_put e b) = last_of (length (lb_entries b)) (log_all b @ [e])"
proof (cases "lb_count b < length (lb_entries b)")
  case True
  then show ?thesis using log_put_all [OF assms] by (simp add: last_of_def)
next
  case False
  then have full: "lb_count b = length (lb_entries b)" and "0 < length (lb_entries b)"
    using assms by (auto simp: buffer_ok_def)
  then obtain k where "length (lb_entries b) = Suc k" by (cases "length (lb_entries b)") auto
  then show ?thesis using log_put_all [OF assms, of e] full by (simp add: last_of_def drop_Suc)
qed

text \<open>\<open>Since\<close> is the first \<open>max\<close> of the lines past the cursor.\<close>

lemma since_loop_spec:
  "i \<le> lb_count b \<Longrightarrow> length out \<le> mx \<Longrightarrow>
   since_loop b after (int mx) i out =
     take mx (out @ filter (\<lambda>e. le_seq e > after) (map (log_at b) [i..<lb_count b]))"
proof (induction "lb_count b - i" arbitrary: i out)
  case 0
  then show ?case by (simp add: since_loop.simps [of b _ _ i])
next
  case (Suc d)
  then have i: "[i..<lb_count b] = i # [Suc i..<lb_count b]" by (simp add: upt_conv_Cons)
  show ?case
  proof (cases "length out < mx")
    case True
    let ?out = "if le_seq (log_at b i) > after then out @ [log_at b i] else out"
    have "since_loop b after (int mx) i out = since_loop b after (int mx) (Suc i) ?out"
      using Suc.hyps(2) True by (subst since_loop.simps) auto
    also have "\<dots> = take mx (?out @ filter (\<lambda>e. le_seq e > after) (map (log_at b) [Suc i..<lb_count b]))"
      using Suc.hyps(2) Suc.prems True by (intro Suc.hyps(1)) auto
    finally show ?thesis unfolding i by (simp del: take_append)
  next
    case False
    then have "length out = mx" using Suc.prems by simp
    then show ?thesis by (subst since_loop.simps) simp
  qed
qed

lemma log_since_filter: "log_since after (int mx) b = take mx (filter (\<lambda>e. le_seq e > after) (log_all b))"
  unfolding log_since_def log_all_def by (subst since_loop_spec) simp_all

subsection \<open>The contract of a line log\<close>

text \<open>
  What the agent and the control plane rely on: a log keeps the last \<open>cap\<close> of the lines added,
  numbers them one by one, and \<open>since\<close> resumes behind a number.
\<close>

fun log_numbered :: "nat \<Rightarrow> log_entry list \<Rightarrow> log_entry list" where
  "log_numbered k [] = []"
| "log_numbered k (e # es) = e\<lparr>le_seq := of_nat (k + 1)\<rparr> # log_numbered (k + 1) es"

lemma length_numbered [simp]: "length (log_numbered k es) = length es"
  by (induction es arbitrary: k) auto

lemma numbered_append: "log_numbered k (xs @ ys) = log_numbered k xs @ log_numbered (k + length xs) ys"
  by (induction xs arbitrary: k) auto

lemma take_numbered: "take m (log_numbered k es) = log_numbered k (take m es)"
  by (induction es arbitrary: k m) (auto simp: take_Cons split: nat.split)

lemma drop_numbered: "drop m (log_numbered k es) = log_numbered (k + m) (drop m es)"
  by (induction es arbitrary: k m) (auto simp: drop_Cons split: nat.split)

locale line_log =
  fixes ok :: "'b \<Rightarrow> bool"
    and all :: "'b \<Rightarrow> log_entry list"
    and cap :: "'b \<Rightarrow> nat"
    and nxt :: "'b \<Rightarrow> u64"
    and add :: "log_entry \<Rightarrow> 'b \<Rightarrow> 'b"
    and since :: "u64 \<Rightarrow> int \<Rightarrow> 'b \<Rightarrow> log_entry list"
  assumes cap_pos: "ok b \<Longrightarrow> 0 < cap b"
    and all_cap: "ok b \<Longrightarrow> length (all b) \<le> cap b"
    and add_ok: "ok b \<Longrightarrow> ok (add e b)"
    and add_cap: "cap (add e b) = cap b"
    and add_nxt: "nxt (add e b) = nxt b + 1"
    and add_all: "ok b \<Longrightarrow> all (add e b) = last_of (cap b) (all b @ [e\<lparr>le_seq := nxt b + 1\<rparr>])"
    and since_all: "ok b \<Longrightarrow> since after (int mx) b = take mx (filter (\<lambda>e. le_seq e > after) (all b))"
begin

lemma adds_frame: "ok b \<Longrightarrow> ok (fold add es b) \<and> cap (fold add es b) = cap b"
  by (induction es arbitrary: b) (auto simp: add_ok add_cap)

lemma adds_nxt: "nxt b = of_nat k \<Longrightarrow> nxt (fold add es b) = of_nat (k + length es)"
proof (induction es arbitrary: b k)
  case (Cons e es)
  have "nxt (add e b) = of_nat (k + 1)" by (simp add: add_nxt Cons.prems add.commute)
  from Cons.IH [OF this] show ?case by (simp add: add.commute add.left_commute)
qed simp

lemma adds_all:
  "ok b \<Longrightarrow> nxt b = of_nat k \<Longrightarrow> all (fold add es b) = last_of (cap b) (all b @ log_numbered k es)"
proof (induction es rule: rev_induct)
  case Nil
  then show ?case by (simp add: last_of_short all_cap)
next
  case (snoc e es)
  let ?b = "fold add es b"
  have b: "ok ?b" "cap ?b = cap b" using adds_frame [OF snoc.prems(1), of es] by simp_all
  have "nxt ?b + 1 = of_nat (k + length es + 1)"
    by (simp add: adds_nxt [OF snoc.prems(2)] ac_simps)
  then have "all (fold add (es @ [e]) b) =
      last_of (cap b) (last_of (cap b) (all b @ log_numbered k es) @ log_numbered (k + length es) [e])"
    by (simp add: add_all [OF b(1)] b(2) snoc ac_simps)
  also have "\<dots> = last_of (cap b) (all b @ log_numbered k (es @ [e]))"
    using last_of_snoc [OF cap_pos [OF snoc.prems(1)], of "all b @ log_numbered k es"] by (simp add: numbered_append)
  finally show ?case .
qed

end

lemma log_append_entry_def2: "log_append ts level msg b =
    log_append_entry \<lparr>le_seq = 0, le_ts = ts, le_level = level, le_msg = msg\<rparr> b"
  by (simp add: log_append_def log_append_entry_def Let_def)

interpretation ring: line_log buffer_ok log_all "\<lambda>b. length (lb_entries b)" lb_next log_append_entry log_since
proof
  fix b e
  have "buffer_ok (b\<lparr>lb_next := x\<rparr>) = buffer_ok b" "log_all (b\<lparr>lb_next := x\<rparr>) = log_all b" for x
    by (simp_all add: buffer_ok_def log_all_def log_at_def)
  then show "buffer_ok b \<Longrightarrow> log_all (log_append_entry e b) =
      last_of (length (lb_entries b)) (log_all b @ [e\<lparr>le_seq := lb_next b + 1\<rparr>])"
    and "buffer_ok b \<Longrightarrow> buffer_ok (log_append_entry e b)"
    by (simp_all add: log_append_entry_def Let_def log_put_last log_put_ok)
qed (auto simp: buffer_ok_def log_append_entry_def Let_def log_since_filter)

subsection \<open>The control plane's rings\<close>

record node_proc_log =
  np_buf :: log_buffer
  np_boot :: string
  np_last :: u64

record proc_log_store =
  ps_self :: "log_buffer option"
  ps_nodes :: "(string \<times> node_proc_log) list"

definition node_proc_log_cap :: int where [model]: "node_proc_log_cap = 1000"

definition new_node_log :: node_proc_log where
  [model]: "new_node_log = \<lparr>np_buf = new_log_buffer node_proc_log_cap, np_boot = [], np_last = 0\<rparr>"

definition ingest_entry :: "log_entry \<Rightarrow> node_proc_log \<times> nat \<Rightarrow> node_proc_log \<times> nat" where
  [model]: "ingest_entry e st =
     (case st of (nl, n) \<Rightarrow>
        if le_seq e \<le> np_last nl then (nl, n)
        else (nl\<lparr>np_last := le_seq e,
                np_buf := log_append_entry (e\<lparr>le_msg := truncate_line (le_msg e)\<rparr>) (np_buf nl)\<rparr>, n + 1))"

definition ingest_node :: "string \<Rightarrow> log_entry list \<Rightarrow> node_proc_log \<Rightarrow> node_proc_log \<times> nat" where
  [model]: "ingest_node boot entries nl =
     (let nl = (if np_boot nl \<noteq> boot then nl\<lparr>np_boot := boot, np_last := 0\<rparr> else nl)
      in fold ingest_entry entries (nl, 0))"

definition ingest :: "string \<Rightarrow> string \<Rightarrow> log_entry list \<Rightarrow> proc_log_store \<Rightarrow> nat \<times> proc_log_store" where
  [model]: "ingest node boot entries p =
     (let nl = (case map_of (ps_nodes p) node of None \<Rightarrow> new_node_log | Some nl \<Rightarrow> nl);
          (nl', n) = ingest_node boot entries nl
      in (n, p\<lparr>ps_nodes := AList.update node nl' (ps_nodes p)\<rparr>))"

definition logs_of :: "string \<Rightarrow> proc_log_store \<Rightarrow> log_entry list" where
  [model]: "logs_of source p =
     (if source = ''control-plane'' then (case ps_self p of None \<Rightarrow> [] | Some b \<Rightarrow> log_all b)
      else case map_of (ps_nodes p) source of None \<Rightarrow> [] | Some nl \<Rightarrow> log_all (np_buf nl))"

definition forget_node :: "string \<Rightarrow> proc_log_store \<Rightarrow> proc_log_store" where
  [model]: "forget_node node p = p\<lparr>ps_nodes := AList.delete node (ps_nodes p)\<rparr>"

text \<open>The lines a request for the logs is answered with; its limit is already a number in range.\<close>

definition show_logs :: "string \<Rightarrow> string \<Rightarrow> nat \<Rightarrow> log_entry list \<Rightarrow> log_entry list" where
  [model]: "show_logs level search_text limit entries =
     (let min_rank = (if level \<noteq> [] then level_rank level else 0);
          search = to_lower (trim_space search_text);
          kept = filter (\<lambda>e. \<not> level_rank (le_level e) < min_rank \<and>
                             \<not> (search \<noteq> [] \<and> \<not> contains_sub (to_lower (le_msg e)) search)) entries;
          kept = (if length kept > limit then drop (length kept - limit) kept else kept)
      in rev kept)"

definition logs_limit :: "string \<Rightarrow> nat" where
  [model]: "logs_limit raw = (case atoi raw of Some v \<Rightarrow> if v > 0 then nat (min v 1000) else 300 | None \<Rightarrow> 300)"

subsection \<open>Shipping\<close>

definition proc_log_batch :: int where [model]: "proc_log_batch = 1000"
definition proc_log_byte_budget :: nat where [model]: "proc_log_byte_budget = 512 * 1024"

fun fit_batch :: "nat \<Rightarrow> nat \<Rightarrow> log_entry list \<Rightarrow> log_entry list" where
  "fit_batch i bytes [] = []"
| "fit_batch i bytes (e # es) =
     (let bytes = bytes + length (le_msg e) + 64 in
      if i > 0 \<and> bytes > proc_log_byte_budget then [] else e # fit_batch (i + 1) bytes es)"

definition ship_batch :: "log_buffer \<Rightarrow> u64 \<Rightarrow> log_entry list" where
  [model]: "ship_batch b cursor = fit_batch 0 0 (log_since cursor proc_log_batch b)"

text \<open>The cursor after a batch was posted: the status of the response, or none.\<close>

definition next_cursor :: "log_entry list \<Rightarrow> nat option \<Rightarrow> u64 \<Rightarrow> u64" where
  [model]: "next_cursor batch status cursor =
     (case status of
        Some code \<Rightarrow> if code = 200 \<or> code \<in> {404, 400, 413} then le_seq (last batch) else cursor
      | None \<Rightarrow> cursor)"

record shipping_state =
  sh_ring :: log_buffer
  sh_cursor :: u64
  sh_node :: node_proc_log

text \<open>One round: the agent posts its batch; \<open>taken\<close> tells whether the control plane ingested it.\<close>

definition ship_round :: "string \<Rightarrow> nat option \<Rightarrow> bool \<Rightarrow> shipping_state \<Rightarrow> shipping_state" where
  [model]: "ship_round boot status taken s =
     (let batch = ship_batch (sh_ring s) (sh_cursor s) in
      if batch = [] then s
      else s\<lparr>sh_cursor := next_cursor batch status (sh_cursor s),
             sh_node := (if taken then fst (ingest_node boot batch (sh_node s)) else sh_node s)\<rparr>)"

subsection \<open>Shipping loses and repeats nothing\<close>

lemma u64_less: "a < 2 ^ 64 \<Longrightarrow> b < 2 ^ 64 \<Longrightarrow> (of_nat a :: u64) < of_nat b \<longleftrightarrow> a < b"
  by (simp add: word_less_nat_alt unat_of_nat)

lemma numbered_newer: "k \<le> k0 \<Longrightarrow> k0 + length es < 2 ^ 64 \<Longrightarrow>
    filter (\<lambda>e. le_seq e > of_nat k) (log_numbered k0 es) = log_numbered k0 es"
proof (induction es arbitrary: k0)
  case (Cons e es)
  then have "(of_nat k :: u64) < of_nat (k0 + 1)" by (subst u64_less) auto
  with Cons show ?case by simp
qed simp

lemma filter_numbered: "k0 \<le> k \<Longrightarrow> k \<le> k0 + length es \<Longrightarrow> k0 + length es < 2 ^ 64 \<Longrightarrow>
    filter (\<lambda>e. le_seq e > of_nat k) (log_numbered k0 es) = drop (k - k0) (log_numbered k0 es)"
proof (induction es arbitrary: k0)
  case (Cons e es)
  show ?case
  proof (cases "k = k0")
    case True
    with Cons.prems show ?thesis using numbered_newer [of k k0 "e # es"] by simp
  next
    case False
    with Cons.prems have le: "k0 + 1 \<le> k" by simp
    then have "\<not> (of_nat k :: u64) < of_nat (k0 + 1)" using Cons.prems by (subst u64_less) auto
    moreover have "drop (k - k0) (log_numbered k0 (e # es)) = drop (k - (k0 + 1)) (log_numbered (k0 + 1) es)"
      using le by (simp add: drop_Cons' Suc_diff_le)
    ultimately show ?thesis using Cons.IH [of "k0 + 1"] Cons.prems le by simp
  qed
qed simp

lemma fit_batch_prefix: "\<exists>j. fit_batch i bytes es = take j es \<and> (i = 0 \<and> es \<noteq> [] \<longrightarrow> 0 < j)"
proof (induction es arbitrary: i bytes)
  case (Cons e es)
  let ?bytes = "bytes + length (le_msg e) + 64"
  obtain j where "fit_batch (i + 1) ?bytes es = take j es" using Cons.IH by blast
  then have "fit_batch i bytes (e # es) = take (if i > 0 \<and> ?bytes > proc_log_byte_budget then 0 else Suc j) (e # es)"
    by (simp add: Let_def)
  then show ?case by (intro exI [of _ "if i > 0 \<and> ?bytes > proc_log_byte_budget then 0 else Suc j"]) auto
qed auto

lemma ship_batch_numbered:
  assumes "b = fold log_append_entry es (new_log_buffer c)" and "k \<le> length es" and "length es < 2 ^ 64"
    and "length es - k \<le> length (lb_entries b)"
  obtains j where "ship_batch b (of_nat k) = log_numbered k (take j (drop k es))" and "k < length es \<longrightarrow> 0 < j"
proof -
  let ?n = "length (lb_entries b)" and ?new = "new_log_buffer c"
  have n: "?n = length (lb_entries ?new)" using ring.adds_frame [OF new_log_buffer_ok(1), of es c] by (simp add: assms(1))
  have ok: "buffer_ok b" using ring.adds_frame [OF new_log_buffer_ok(1), of es c] by (simp add: assms(1))
  have "log_all b = last_of ?n (log_numbered 0 es)"
    using ring.adds_all [OF new_log_buffer_ok(1), of c 0 es] by (simp add: assms(1) new_log_buffer_ok n [unfolded assms(1)])
  then have all: "log_all b = log_numbered (length es - ?n) (drop (length es - ?n) es)"
    by (simp add: last_of_def drop_numbered)
  have "filter (\<lambda>e. le_seq e > of_nat k) (log_all b) = drop (k - (length es - ?n)) (log_all b)"
    unfolding all by (rule filter_numbered) (use assms in auto)
  also have "\<dots> = log_numbered k (drop k es)"
    unfolding all drop_numbered drop_drop using assms(4) by simp
  finally have since: "log_since (of_nat k) proc_log_batch b = log_numbered k (take 1000 (drop k es))"
    using log_since_filter [of "of_nat k" 1000 b] by (simp add: proc_log_batch_def take_numbered)
  obtain j where "ship_batch b (of_nat k) = take j (log_numbered k (take 1000 (drop k es)))"
    and "k < length es \<longrightarrow> 0 < j"
    using fit_batch_prefix [of 0 0 "log_numbered k (take 1000 (drop k es))"]
    unfolding ship_batch_def since by (auto simp flip: length_greater_0_conv)
  then show ?thesis using that [of "min j 1000"] by (simp add: take_numbered)
qed

abbreviation cut_line :: "log_entry \<Rightarrow> log_entry" where
  "cut_line e \<equiv> e\<lparr>le_msg := truncate_line (le_msg e)\<rparr>"

lemma ingest_numbered:
  "k \<le> m \<Longrightarrow> m < 2 ^ 64 \<Longrightarrow> k + length xs < 2 ^ 64 \<Longrightarrow> np_last nl = of_nat m \<Longrightarrow>
   fst (fold ingest_entry (log_numbered k xs) (nl, n)) =
     nl\<lparr>np_last := of_nat (max m (k + length xs)),
        np_buf := fold log_append_entry (map cut_line (drop (m - k) (log_numbered k xs))) (np_buf nl)\<rparr>"
proof (induction xs arbitrary: k m nl n)
  case (Cons e xs)
  let ?e = "e\<lparr>le_seq := of_nat (k + 1)\<rparr>"
  have cmp: "(of_nat (k + 1) :: u64) \<le> of_nat m \<longleftrightarrow> k + 1 \<le> m"
    using Cons.prems u64_less [of m "k + 1"] by (auto simp: not_less [symmetric] simp del: of_nat_add)
  show ?case
  proof (cases "k + 1 \<le> m")
    case True
    then have "fold ingest_entry (log_numbered k (e # xs)) (nl, n) = fold ingest_entry (log_numbered (k + 1) xs) (nl, n)"
      using cmp Cons.prems by (simp add: ingest_entry_def del: of_nat_add of_nat_Suc)
    moreover have "drop (m - k) (log_numbered k (e # xs)) = drop (m - (k + 1)) (log_numbered (k + 1) xs)"
      using True by (simp add: drop_Cons' Suc_diff_le)
    ultimately show ?thesis using Cons.IH [of "k + 1" m nl n] Cons.prems True by simp
  next
    case False
    then have km: "m = k" using Cons.prems by simp
    let ?nl = "nl\<lparr>np_last := of_nat (k + 1), np_buf := log_append_entry (cut_line ?e) (np_buf nl)\<rparr>"
    have "fold ingest_entry (log_numbered k (e # xs)) (nl, n) = fold ingest_entry (log_numbered (k + 1) xs) (?nl, n + 1)"
      using cmp False Cons.prems by (simp add: ingest_entry_def del: of_nat_add of_nat_Suc)
    then show ?thesis using Cons.IH [of "k + 1" "k + 1" ?nl "n + 1"] Cons.prems km
      by (simp del: of_nat_add of_nat_Suc)
  qed
qed simp

text \<open>The same when lines before the batch were lost, so that its numbers do not follow on.\<close>

lemma ingest_batch:
  assumes "xs \<noteq> []" "m < 2 ^ 64" "k + length xs < 2 ^ 64" "np_last nl = of_nat m"
  shows "fst (fold ingest_entry (log_numbered k xs) (nl, n)) =
     nl\<lparr>np_last := of_nat (max m (k + length xs)),
        np_buf := fold log_append_entry (map cut_line (drop (m - k) (log_numbered k xs))) (np_buf nl)\<rparr>"
proof (cases "k \<le> m")
  case True
  then show ?thesis by (rule ingest_numbered) (use assms in simp_all)
next
  case False
  obtain e ys where xs: "xs = e # ys" using assms(1) by (cases xs) auto
  let ?e = "e\<lparr>le_seq := of_nat (k + 1)\<rparr>"
  let ?nl = "nl\<lparr>np_last := of_nat (k + 1), np_buf := log_append_entry (cut_line ?e) (np_buf nl)\<rparr>"
  have "\<not> (of_nat (k + 1) :: u64) \<le> of_nat m"
    using False assms(2,3) xs u64_less [of m "k + 1"] by (auto simp: not_less [symmetric] simp del: of_nat_add)
  then have "fold ingest_entry (log_numbered k xs) (nl, n) = fold ingest_entry (log_numbered (k + 1) ys) (?nl, n + 1)"
    using assms(4) xs by (simp add: ingest_entry_def del: of_nat_add of_nat_Suc)
  then show ?thesis
    using ingest_numbered [of "k + 1" "k + 1" ys ?nl "n + 1"] assms(2-4) False xs
    by (simp add: max_def del: of_nat_add of_nat_Suc)
qed

text \<open>
  Every line is logged, and rounds of shipping happen, in any order. A round may fail at any
  point; an OK means the control plane took the batch. With 400, 404 and 413 the control plane
  refuses the batch for good and the agent goes on behind it: \<open>lost\<close> collects the
  positions of the lines that were skipped so without having been taken before. The rules for a
  round ask that the agent did not log more than its ring holds since the last shipped line.
\<close>

inductive shipping :: "int \<Rightarrow> string \<Rightarrow> log_entry list \<Rightarrow> nat set \<Rightarrow> shipping_state \<Rightarrow> bool" for c boot where
  booted: "shipping c boot [] {} \<lparr>sh_ring = new_log_buffer c, sh_cursor = 0, sh_node = new_node_log\<rparr>"
| logged: "shipping c boot es lost s \<Longrightarrow> length es + 1 < 2 ^ 64 \<Longrightarrow>
    shipping c boot (es @ [e]) lost (s\<lparr>sh_ring := log_append_entry e (sh_ring s)\<rparr>)"
| round: "shipping c boot es lost s \<Longrightarrow> length es - unat (sh_cursor s) \<le> length (lb_entries (sh_ring s)) \<Longrightarrow>
    status \<notin> {Some 404, Some 400, Some 413} \<Longrightarrow> status = Some 200 \<longrightarrow> taken \<Longrightarrow>
    shipping c boot es lost (ship_round boot status taken s)"
| refused: "shipping c boot es lost s \<Longrightarrow> length es - unat (sh_cursor s) \<le> length (lb_entries (sh_ring s)) \<Longrightarrow>
    status \<in> {Some 404, Some 400, Some 413} \<Longrightarrow> s' = ship_round boot status False s \<Longrightarrow>
    shipping c boot es (lost \<union> {unat (np_last (sh_node s))..<unat (sh_cursor s')}) s'"

definition shipped_to :: "int \<Rightarrow> string \<Rightarrow> log_entry list \<Rightarrow> nat set \<Rightarrow> shipping_state \<Rightarrow> nat \<Rightarrow> nat \<Rightarrow> bool" where
  "shipped_to c boot es lost s k m \<longleftrightarrow>
     k \<le> length es \<and> m \<le> length es \<and> length es < 2 ^ 64 \<and> (m > 0 \<longrightarrow> np_boot (sh_node s) = boot) \<and>
     {m..<k} \<subseteq> lost \<and> lost \<subseteq> {..<max k m} \<and>
     sh_ring s = fold log_append_entry es (new_log_buffer c) \<and>
     sh_cursor s = of_nat k \<and> np_last (sh_node s) = of_nat m \<and>
     np_buf (sh_node s) = fold log_append_entry (map cut_line (nths (take m (log_numbered 0 es)) (- lost))) (new_log_buffer 1000)"

lemma last_numbered: "xs \<noteq> [] \<Longrightarrow> le_seq (last (log_numbered k xs)) = of_nat (k + length xs)"
  by (induction xs arbitrary: k rule: rev_induct) (auto simp: numbered_append)

lemma nths_take_Suc:
  "m < length xs \<Longrightarrow> nths (take (Suc m) xs) A = nths (take m xs) A @ (if m \<in> A then [xs ! m] else [])"
  by (simp add: take_Suc_conv_app_nth nths_append)

lemma nths_none: "m \<le> n \<Longrightarrow> n \<le> length xs \<Longrightarrow> {m..<n} \<inter> A = {} \<Longrightarrow> nths (take n xs) A = nths (take m xs) A"
proof (induction n)
  case (Suc n)
  show ?case
  proof (cases "m = Suc n")
    case False
    then have le: "m \<le> n" using Suc.prems(1) by simp
    moreover have "{m..<n} \<subseteq> {m..<Suc n}" "n \<in> {m..<Suc n}" using le by auto
    ultimately have "n \<notin> A" "{m..<n} \<inter> A = {}" using Suc.prems(3) by blast+
    then have "nths (take n xs) A = nths (take m xs) A" "n \<notin> A" using Suc.IH [OF le] Suc.prems(2) by simp_all
    then show ?thesis using nths_take_Suc [of n xs A] Suc.prems by simp
  qed simp
qed simp

lemma nths_all: "m \<le> n \<Longrightarrow> n \<le> length xs \<Longrightarrow> {m..<n} \<subseteq> A \<Longrightarrow> nths (take n xs) A = nths (take m xs) A @ drop m (take n xs)"
proof (induction n)
  case (Suc n)
  show ?case
  proof (cases "m = Suc n")
    case False
    then have le: "m \<le> n" using Suc.prems(1) by simp
    then have "n \<in> A" "{m..<n} \<subseteq> A" using Suc.prems(3) by auto
    then have "nths (take n xs) A = nths (take m xs) A @ drop m (take n xs)" "n \<in> A"
      using Suc.IH [OF le] Suc.prems(2) by simp_all
    then show ?thesis using nths_take_Suc [of n xs A] Suc.prems le by (simp add: take_Suc_conv_app_nth)
  qed simp
qed simp

lemma nths_same: "\<forall>i<length xs. i \<in> A \<longleftrightarrow> i \<in> B \<Longrightarrow> nths xs A = nths xs B"
  unfolding nths_def by (rule arg_cong [of _ _ "map fst"], rule filter_cong) (auto simp: set_zip)

text \<open>What a round has at hand, and what a taken batch does.\<close>

lemma round_batch:
  assumes "shipped_to c boot es lost s k m" "length es - unat (sh_cursor s) \<le> length (lb_entries (sh_ring s))"
  obtains j where "ship_batch (sh_ring s) (sh_cursor s) = log_numbered k (take j (drop k es))"
    and "k + length (take j (drop k es)) \<le> length es" and "unat (sh_cursor s) = k"
proof -
  note inv = assms(1) [unfolded shipped_to_def]
  have k: "k \<le> length es" "length es < 2 ^ 64" and ring: "sh_ring s = fold log_append_entry es (new_log_buffer c)"
    and cursor: "sh_cursor s = of_nat k" using inv by blast+
  then have u: "unat (sh_cursor s) = k" by (simp add: unat_of_nat)
  obtain j where "ship_batch (sh_ring s) (of_nat k) = log_numbered k (take j (drop k es))"
    by (rule ship_batch_numbered [OF ring k assms(2) [unfolded u]])
  moreover have "k + length (take j (drop k es)) \<le> length es" using k(1) by simp
  ultimately show ?thesis using that [of j] u unfolding cursor by blast
qed

lemma taken_batch:
  assumes "shipped_to c boot es lost s k m" "xs = take j (drop k es)" "xs \<noteq> []" "k \<le> k'" "k' \<le> k + length xs"
  shows "shipped_to c boot es lost (s\<lparr>sh_cursor := of_nat k',
      sh_node := fst (ingest_node boot (log_numbered k xs) (sh_node s))\<rparr>) k' (max m (k + length xs))"
proof -
  note inv = assms(1) [unfolded shipped_to_def]
  let ?L = "log_numbered 0 es" and ?m = "max m (k + length xs)" and ?M = "max m k"
  let ?nl = "if np_boot (sh_node s) \<noteq> boot then (sh_node s)\<lparr>np_boot := boot, np_last := 0\<rparr> else sh_node s"
  have nl: "np_last ?nl = of_nat m" "np_buf ?nl = np_buf (sh_node s)" "np_boot ?nl = boot" using inv by auto
  have "k \<le> length es" using inv by blast
  then have len: "k + length xs \<le> length es" unfolding assms(2) by simp
  have took: "fst (ingest_node boot (log_numbered k xs) (sh_node s)) =
      ?nl\<lparr>np_last := of_nat ?m,
          np_buf := fold log_append_entry (map cut_line (drop (m - k) (log_numbered k xs))) (np_buf (sh_node s))\<rparr>"
    unfolding ingest_node_def Let_def nl(2) [symmetric]
    by (rule ingest_batch) (use inv len nl(1) assms(3) in auto)
  have "log_numbered k xs = drop k (take (k + length xs) ?L)"
    using assms(2) len by (simp add: take_numbered drop_numbered drop_take min_def)
  then have tail: "drop (m - k) (log_numbered k xs) = drop ?M (take ?m ?L)"
    by (cases "m \<le> k"; cases "m \<le> k + length xs") (auto simp: max_def)
  have "nths (take ?M ?L) (- lost) = nths (take m ?L) (- lost)"
  proof (rule nths_none)
    have "{m..<?M} = {m..<k}" by auto
    then show "{m..<?M} \<inter> - lost = {}" using inv by blast
  qed (use inv in auto)
  moreover have "nths (take ?m ?L) (- lost) = nths (take ?M ?L) (- lost) @ drop ?M (take ?m ?L)"
  proof (rule nths_all)
    have "lost \<subseteq> {..<?M}" using inv by (simp add: max.commute)
    then show "{?M..<?m} \<subseteq> - lost" by fastforce
  qed (use inv len in auto)
  ultimately have buf: "np_buf (fst (ingest_node boot (log_numbered k xs) (sh_node s))) =
      fold log_append_entry (map cut_line (nths (take ?m ?L) (- lost))) (new_log_buffer 1000)"
    using inv unfolding took tail by simp
  have "{?m..<k'} \<subseteq> lost" "lost \<subseteq> {..<max k' ?m}" using inv assms(4,5) by auto
  moreover have "np_boot (fst (ingest_node boot (log_numbered k xs) (sh_node s))) = boot"
    "np_last (fst (ingest_node boot (log_numbered k xs) (sh_node s))) = of_nat ?m"
    unfolding took using nl(3) by simp_all
  ultimately show ?thesis using inv buf len assms(5) by (simp add: shipped_to_def)
qed

lemma ship_round_invariant:
  assumes "shipped_to c boot es lost s k m"
    and "length es - unat (sh_cursor s) \<le> length (lb_entries (sh_ring s))"
    and "status \<notin> {Some 404, Some 400, Some 413}" and "status = Some 200 \<longrightarrow> taken"
  shows "\<exists>k m. shipped_to c boot es lost (ship_round boot status taken s) k m"
proof -
  obtain j where batch: "ship_batch (sh_ring s) (sh_cursor s) = log_numbered k (take j (drop k es))"
    by (rule round_batch [OF assms(1,2)])
  let ?xs = "take j (drop k es)"
  show ?thesis
  proof (cases "?xs = [] \<or> \<not> taken")
    case True
    then have "ship_round boot status taken s = s"
      using batch assms(3,4) by (auto simp: ship_round_def next_cursor_def Let_def split: option.split)
    with assms(1) show ?thesis by metis
  next
    case False
    let ?k = "if status = Some 200 then k + length ?xs else k"
    have nonempty: "log_numbered k ?xs \<noteq> []" using False by (metis length_numbered length_0_conv)
    have "next_cursor (log_numbered k ?xs) status (sh_cursor s) = of_nat ?k"
      using last_numbered [of ?xs k] assms(1,3) False
      by (auto simp: next_cursor_def shipped_to_def split: option.split)
    then have "ship_round boot status taken s = s\<lparr>sh_cursor := of_nat ?k,
        sh_node := fst (ingest_node boot (log_numbered k ?xs) (sh_node s))\<rparr>"
      using nonempty batch False by (simp add: ship_round_def Let_def)
    moreover have "shipped_to c boot es lost (s\<lparr>sh_cursor := of_nat ?k,
        sh_node := fst (ingest_node boot (log_numbered k ?xs) (sh_node s))\<rparr>) ?k (max m (k + length ?xs))"
      by (rule taken_batch [OF assms(1) refl]) (use False in auto)
    ultimately show ?thesis by metis
  qed
qed

lemma refused_round_invariant:
  assumes "shipped_to c boot es lost s k m"
    and "length es - unat (sh_cursor s) \<le> length (lb_entries (sh_ring s))"
    and "status \<in> {Some 404, Some 400, Some 413}" and "s' = ship_round boot status False s"
  shows "\<exists>k. shipped_to c boot es (lost \<union> {unat (np_last (sh_node s))..<unat (sh_cursor s')}) s' k m"
proof -
  note inv = assms(1) [unfolded shipped_to_def]
  obtain j where batch: "ship_batch (sh_ring s) (sh_cursor s) = log_numbered k (take j (drop k es))"
    and len: "k + length (take j (drop k es)) \<le> length es" and u: "unat (sh_cursor s) = k"
    by (rule round_batch [OF assms(1,2)])
  let ?xs = "take j (drop k es)"
  let ?k = "k + length ?xs"
  have k64: "?k < 2 ^ 64" using inv len by linarith
  have um: "unat (np_last (sh_node s)) = m" using inv by (simp add: unat_of_nat)
  have s': "s' = s\<lparr>sh_cursor := of_nat ?k\<rparr>"
  proof (cases "?xs = []")
    case True
    have "ship_batch (sh_ring s) (sh_cursor s) = []" unfolding batch True by simp
    moreover have "?k = k" unfolding True by simp
    moreover have "sh_cursor s = of_nat k" using inv by blast
    ultimately show ?thesis unfolding assms(4) ship_round_def Let_def by (simp only: if_True) simp
  next
    case False
    then have "log_numbered k ?xs \<noteq> []" by (metis length_numbered length_0_conv)
    then show ?thesis using assms(3,4) batch last_numbered [OF False, of k]
      by (auto simp: ship_round_def next_cursor_def Let_def)
  qed
  then have uk: "unat (sh_cursor s') = ?k" using k64 by (simp add: unat_of_nat del: of_nat_add)
  have "nths (take m (log_numbered 0 es)) (- lost) = nths (take m (log_numbered 0 es)) (- (lost \<union> {m..<?k}))"
    by (rule nths_same) auto
  then have "shipped_to c boot es (lost \<union> {m..<?k}) s' ?k m"
    unfolding shipped_to_def s' using inv len by auto
  then show ?thesis unfolding um uk by blast
qed

lemma shipping_invariant: "shipping c boot es lost s \<Longrightarrow> \<exists>k m. shipped_to c boot es lost s k m"
proof (induction rule: shipping.induct)
  case booted
  then show ?case by (intro exI [of _ 0]) (simp add: shipped_to_def new_node_log_def node_proc_log_cap_def)
next
  case (logged es lost s e)
  then obtain k m where "shipped_to c boot es lost s k m" by blast
  then have "shipped_to c boot (es @ [e]) lost (s\<lparr>sh_ring := log_append_entry e (sh_ring s)\<rparr>) k m"
    using logged.hyps(2) by (auto simp: shipped_to_def numbered_append)
  then show ?case by blast
next
  case (round es lost s status taken)
  then show ?case using ship_round_invariant by blast
next
  case (refused es lost s status s')
  then show ?case using refused_round_invariant by blast
qed

subsection \<open>Properties\<close>

lemma ring_holds_lines:
  "log_all (fold log_append_entry es (new_log_buffer c)) = last_of (if c \<le> 0 then 1 else nat c) (log_numbered 0 es)"
  using ring.adds_all [OF new_log_buffer_ok(1), of c 0 es] by (simp add: new_log_buffer_ok)

text \<open>C38: The ring refines a list: after any lines logged, it holds the last \<open>capacity\<close> of them (one for a
  capacity that is not positive), oldest first, log_numbered from 1 in the order they were logged.\<close>

theorem ring_holds_last:
  "log_all (fold log_append_entry es (new_log_buffer c)) = last_of (if c \<le> 0 then 1 else nat c) (log_numbered 0 es)"
  using ring.adds_all [OF new_log_buffer_ok(1), of c 0 es] by (simp add: new_log_buffer_ok)

text \<open>C39: Shipping process logs repeats and reorders nothing, and loses only what the control plane
  refused. Let an agent keep up (never log more lines than its ring holds between two rounds that
  reach them), and let logging, rounds that fail at any point, also after the control plane took the
  batch, and rounds refused for good (400, 404, 413) interleave in any way. Then the control
  plane's ring for the agent holds the last 1000 of those of the first \<open>m\<close> lines the agent logged
  that no refusal skipped (\<open>lost\<close>), each once, in order and cut to the maximum length, and the
  agent's cursor is past the last line taken only by lines that a refusal skipped: without a refusal
  it never is, and nothing is lost.\<close>

theorem shipping_exactly_once:
  assumes "shipping c boot es lost s"
  shows "\<exists>m\<le>length es. np_last (sh_node s) = of_nat m \<and> {m..<unat (sh_cursor s)} \<subseteq> lost \<and>
    (lost = {} \<longrightarrow> sh_cursor s \<le> np_last (sh_node s)) \<and>
    map (\<lambda>e. (le_ts e, le_level e, le_msg e)) (log_all (np_buf (sh_node s))) =
      last_of 1000 (map (\<lambda>e. (le_ts e, le_level e, truncate_line (le_msg e))) (nths (take m es) (- lost)))"
proof -
  let ?line = "\<lambda>e :: log_entry. (le_ts e, le_level e, le_msg e)"
  have lines: "map ?line (log_numbered k xs) = map ?line xs" for k xs by (induction xs arbitrary: k) auto
  obtain k m where inv: "shipped_to c boot es lost s k m" using shipping_invariant [OF assms] by blast
  let ?kept = "nths (take m (log_numbered 0 es)) (- lost)"
  have "log_all (np_buf (sh_node s)) = last_of 1000 (log_numbered 0 (map cut_line ?kept))"
    using inv ring_holds_lines [of "map cut_line ?kept" 1000] by (simp add: shipped_to_def)
  then have "map ?line (log_all (np_buf (sh_node s))) =
      last_of 1000 (map ?line (map cut_line ?kept))" by (simp only: map_last_of lines)
  also have "map ?line (map cut_line ?kept) = map (\<lambda>(t, l, x). (t, l, truncate_line x)) (map ?line ?kept)"
    by simp
  also have "map ?line ?kept = nths (map ?line (take m es)) (- lost)"
    by (simp only: nths_map [symmetric] take_numbered lines)
  also have "map (\<lambda>(t, l, x). (t, l, truncate_line x)) (nths (map ?line (take m es)) (- lost)) =
      map (\<lambda>e. (le_ts e, le_level e, truncate_line (le_msg e))) (nths (take m es) (- lost))"
    by (simp add: nths_map)
  finally have "map ?line (log_all (np_buf (sh_node s))) =
      last_of 1000 (map (\<lambda>e. (le_ts e, le_level e, truncate_line (le_msg e))) (nths (take m es) (- lost)))" .
  moreover have "unat (sh_cursor s) = k" using inv by (auto simp: shipped_to_def unat_of_nat)
  moreover have "(of_nat k :: u64) \<le> of_nat m" if "lost = {}"
    using inv that u64_less [of m k] by (auto simp: shipped_to_def not_less [symmetric])
  ultimately show ?thesis using inv by (intro exI [of _ m]) (simp add: shipped_to_def)
qed

definition demo_line :: "string \<Rightarrow> log_entry" where
  "demo_line m = \<lparr>le_seq = 0, le_ts = 5, le_level = ''info'', le_msg = m\<rparr>"

lemmas shipping_eval = ship_round_def ship_batch_def log_since_def log_append_entry_def log_put_def
  new_log_buffer_def new_node_log_def node_proc_log_cap_def proc_log_batch_def proc_log_byte_budget_def
  next_cursor_def ingest_node_def ingest_entry_def truncate_line_def demo_line_def log_all_def log_at_def since_loop.simps Let_def max_msg_len_def

text \<open>The first line is taken although its response was lost; the batch with both is refused.\<close>

theorem shipping_exactly_once_witness:
  "\<exists>s. shipping 2 ''boot'' [demo_line ''a'', demo_line ''b''] {1} s \<and>
    map le_msg (log_all (np_buf (sh_node s))) = [''a''] \<and> {1..<unat (sh_cursor s)} \<subseteq> {1}"
proof -
  let ?s0 = "\<lparr>sh_ring = new_log_buffer 2, sh_cursor = 0, sh_node = new_node_log\<rparr>"
  let ?s1 = "?s0\<lparr>sh_ring := log_append_entry (demo_line ''a'') (sh_ring ?s0)\<rparr>"
  let ?s2 = "ship_round ''boot'' None True ?s1"
  let ?s3 = "?s2\<lparr>sh_ring := log_append_entry (demo_line ''b'') (sh_ring ?s2)\<rparr>"
  let ?s4 = "ship_round ''boot'' (Some 413) False ?s3"
  have "shipping 2 ''boot'' ([] @ [demo_line ''a'']) {} ?s1" by (intro shipping.logged shipping.booted) simp
  then have "shipping 2 ''boot'' [demo_line ''a''] {} ?s2"
    by (intro shipping.round) (simp_all add: log_append_entry_def log_put_def new_log_buffer_def Let_def)
  then have "shipping 2 ''boot'' ([demo_line ''a''] @ [demo_line ''b'']) {} ?s3"
    by (intro shipping.logged) simp_all
  moreover have "unat (sh_cursor ?s3) = 0" "length (lb_entries (sh_ring ?s3)) = 2"
    "unat (np_last (sh_node ?s3)) = 1" "unat (sh_cursor ?s4) = 2" by (simp_all add: shipping_eval)
  moreover have "{1..<2} = {1 :: nat}" by auto
  ultimately have run: "shipping 2 ''boot'' ([demo_line ''a''] @ [demo_line ''b'']) {1} ?s4"
    using shipping.refused [of 2 "''boot''" _ "{}" ?s3 "Some 413" ?s4] by simp
  moreover have "map le_msg (log_all (np_buf (sh_node ?s4))) = [''a'']" "np_last (sh_node ?s4) = 1" by (simp_all add: shipping_eval)
  moreover have "{1..<unat (sh_cursor ?s4)} \<subseteq> {1}"
    using shipping_exactly_once [OF run] \<open>unat (sh_cursor ?s4) = 2\<close> by auto
  ultimately show ?thesis by (intro exI [of _ ?s4]) simp
qed

text \<open>A line is cut to at most 14 bytes over the maximum, and cutting it again, as the control plane does
  with what an agent ships, changes nothing.\<close>

theorem truncate_line_stable:
  "length (truncate_line msg) \<le> max_msg_len + 14 \<and> truncate_line (truncate_line msg) = truncate_line msg \<and>
   take max_msg_len (truncate_line msg) = take max_msg_len msg"
  by (auto simp: truncate_line_def cut_mark_def min_def)

text \<open>A line with a level the console does not know counts as debug, so any minimum level hides it.\<close>

theorem unknown_level_hidden:
  assumes "le_level e \<notin> {''error'', ''warn'', ''info''}" and "level \<in> {''error'', ''warn'', ''info''}"
  shows "e \<notin> set (show_logs level search_text limit entries)"
proof -
  have "set (drop n xs) \<subseteq> set xs" for n and xs :: "log_entry list" by (rule set_drop_subset)
  moreover have "level_rank (le_level e) < level_rank level" and "level \<noteq> []"
    using assms by (auto simp: level_rank_def)
  ultimately show ?thesis by (auto simp: show_logs_def Let_def dest: in_set_dropD split: if_splits)
qed

theorem unknown_level_hidden_witness:
  "(demo_line ''x'')\<lparr>le_level := ''ERROR''\<rparr> \<notin> set (show_logs ''info'' [] 300 [(demo_line ''x'')\<lparr>le_level := ''ERROR''\<rparr>])"
  by (rule unknown_level_hidden) simp_all

end
