(* ===== verification/Rule_Import.thy ===== *)
theory Rule_Import
  imports Ip_Addr
begin

section \<open>Importing block and allow lists (internal/ruleimport/ruleimport.go)\<close>

text \<open>
  Lists in AdGuard, hosts and plain-domain form become allow and deny rules. The text is read
  line by line as Go's \<open>bufio.Scanner\<close> does it with the program's buffer of 1 MB: a line that
  does not fit ends the import there, without an error. The set of rules already seen is the
  set of the rules already added.
\<close>

record rule =
  ru_action :: string
  ru_domain :: string

subsection \<open>Lines\<close>

definition max_line :: nat where [model]: "max_line = 1048576"

definition drop_cr :: "string \<Rightarrow> string" where
  "drop_cr l = (if l \<noteq> [] \<and> last l = CHR 0x0D then butlast l else l)"

definition scan_lines :: "string \<Rightarrow> string list" where
  [model]: "scan_lines text =
     (let raw = split_byte CHR 0x0A text;
          raw = (if last raw = [] then butlast raw else raw)
      in map drop_cr (takeWhile (\<lambda>l. length l < max_line) raw))"

subsection \<open>Hosts and domains\<close>

definition cut_at :: "char set \<Rightarrow> string \<Rightarrow> string" where
  "cut_at cs s = takeWhile (\<lambda>c. c \<notin> cs) s"

definition contains_any :: "string \<Rightarrow> string \<Rightarrow> bool" where
  "contains_any s cs \<longleftrightarrow> list_ex (\<lambda>c. c \<in> set cs) s"

definition adguard_domain :: "string \<Rightarrow> string option" where
  [model]: "adguard_domain body =
     (let body = cut_at {CHR ''^''} body; body = cut_at {CHR ''$''} body; body = trim_space body in
      if body = [] \<or> contains_any body ''/*?=:|'' then None else Some body)"

definition host_from_token :: "string \<Rightarrow> string" where
  [model]: "host_from_token tok =
     (let tok = (case index_sub ''://'' tok of None \<Rightarrow> tok | Some i \<Rightarrow> drop (i + 3) tok);
          tok = (case last_index_byte CHR ''@'' tok of None \<Rightarrow> tok | Some i \<Rightarrow> drop (i + 1) tok);
          tok = cut_at (set ''/?#'') tok
      in case last_index_byte CHR '':'' tok of
           Some i \<Rightarrow> if \<not> contains_sub tok '']'' then take i tok else tok
         | None \<Rightarrow> tok)"

definition normalize_domain :: "string \<Rightarrow> string" where
  [model]: "normalize_domain domain = to_lower (trim_suffix (trim_space domain) ''.'')"

definition domain_char :: "char \<Rightarrow> bool" where
  "domain_char c \<longleftrightarrow> is_lower c \<or> is_digit c \<or> c = CHR ''.'' \<or> c = CHR ''-'' \<or> c = CHR ''_''"

definition valid_domain :: "string \<Rightarrow> bool" where
  [model]: "valid_domain domain \<longleftrightarrow>
     \<not> (domain = [] \<or> domain = ''localhost'' \<or> CHR ''.'' \<notin> set domain) \<and> list_all domain_char domain"

subsection \<open>Rules\<close>

definition add_rule :: "string \<Rightarrow> string \<Rightarrow> rule list \<Rightarrow> rule list" where
  [model]: "add_rule action domain out =
     (let domain = normalize_domain domain; r = \<lparr>ru_action = action, ru_domain = domain\<rparr> in
      if \<not> valid_domain domain then out else if r \<in> set out then out else out @ [r])"

definition parse_line :: "string \<Rightarrow> rule list \<Rightarrow> rule list" where
  [model]: "parse_line raw out =
     (let line = trim_space raw in
      if line = [] \<or> has_prefix line ''#'' \<or> has_prefix line ''!'' \<or> has_prefix line ''['' then out
      else if has_prefix line ''@@||''
      then (case adguard_domain (drop 4 line) of Some d \<Rightarrow> add_rule ''allow'' d out | None \<Rightarrow> out)
      else if has_prefix line ''||''
      then (case adguard_domain (drop 2 line) of Some d \<Rightarrow> add_rule ''deny'' d out | None \<Rightarrow> out)
      else
        let fs = str_fields line in
        if length fs \<ge> 2 \<and> parse_ip (fs ! 0) \<noteq> None then add_rule ''deny'' (host_from_token (fs ! 1)) out
        else if length fs = 1 then add_rule ''deny'' (host_from_token (fs ! 0)) out
        else out)"

definition parse_rules :: "string \<Rightarrow> rule list" where
  [model]: "parse_rules text = fold parse_line (scan_lines text) []"

subsection \<open>What an import adds\<close>

definition rule_ok :: "rule \<Rightarrow> bool" where
  "rule_ok r \<longleftrightarrow> ru_action r \<in> {''allow'', ''deny''} \<and> valid_domain (ru_domain r)"

definition rules_ok :: "rule list \<Rightarrow> bool" where
  "rules_ok rs \<longleftrightarrow> distinct rs \<and> list_all rule_ok rs"

lemma add_rule_ok: "rules_ok out \<Longrightarrow> action \<in> {''allow'', ''deny''} \<Longrightarrow> rules_ok (add_rule action d out)"
  by (auto simp: add_rule_def rules_ok_def rule_ok_def Let_def)

lemma parse_line_ok: "rules_ok out \<Longrightarrow> rules_ok (parse_line l out)"
  by (auto simp: parse_line_def Let_def add_rule_ok split: option.split)

lemma parse_lines_ok: "rules_ok out \<Longrightarrow> rules_ok (fold parse_line ls out)"
  by (induction ls arbitrary: out) (auto simp: parse_line_ok)

subsection \<open>Reading back what was written\<close>

text \<open>The characters of a valid domain mean nothing to the parser.\<close>

lemma domain_char_plain:
  assumes "domain_char c"
  shows "\<not> is_space c" and "lower_char c = c" and "\<not> is_upper c"
    and "c \<noteq> CHR ''^''" and "c \<noteq> CHR ''$''" and "c \<notin> set ''/*?=:|''" and "c \<noteq> CHR 0x0A" and "c \<noteq> CHR 0x0D"
    and "c \<noteq> CHR ''#''" and "c \<noteq> CHR ''@''" and "c \<noteq> CHR ''/''" and "c \<noteq> CHR '':''" and "c \<noteq> CHR '']''"
proof -
  have b: "byte c \<in> {97..122} \<union> {48..57} \<union> {46, 45, 95}"
    using assms by (auto simp: domain_char_def is_lower_def is_digit_def byte_def)
  then show "\<not> is_space c" and "\<not> is_upper c" by (auto simp: is_space_def is_upper_def)
  then show "lower_char c = c" by (simp add: lower_char_def)
  have other: "c \<noteq> d" if "byte d \<notin> {97..122} \<union> {48..57} \<union> {46, 45, 95}" for d using b that by auto
  show "c \<noteq> CHR ''^''" "c \<noteq> CHR ''$''" "c \<noteq> CHR 0x0A" "c \<noteq> CHR 0x0D" "c \<noteq> CHR ''#''" "c \<noteq> CHR ''@''" "c \<noteq> CHR ''/''"
    "c \<noteq> CHR '':''" "c \<noteq> CHR '']''"
    by (rule other, simp add: byte_def)+
  have "c \<noteq> CHR ''*''" "c \<noteq> CHR ''?''" "c \<noteq> CHR ''=''" "c \<noteq> CHR ''|''" "c \<noteq> CHR ''/''" "c \<noteq> CHR '':''"
    by (rule other, simp add: byte_def)+
  then show "c \<notin> set ''/*?=:|''" by simp
qed

definition show_rule :: "rule \<Rightarrow> string" where
  "show_rule r = (if ru_action r = ''allow'' then ''@@||'' else ''||'') @ ru_domain r @ ''^''"

definition show_rules :: "rule list \<Rightarrow> string" where
  "show_rules rs = concat (map (\<lambda>r. show_rule r @ [CHR 0x0A]) rs)"

definition exportable :: "rule \<Rightarrow> bool" where
  "exportable r \<longleftrightarrow> rule_ok r \<and> \<not> has_suffix (ru_domain r) ''.'' \<and> length (show_rule r) < max_line"

lemma valid_domain_chars: "valid_domain d \<Longrightarrow> list_all domain_char d \<and> d \<noteq> []"
  by (simp add: valid_domain_def)

lemma cut_at_plain: "list_all (\<lambda>c. c \<notin> cs) d \<Longrightarrow> c \<in> cs \<Longrightarrow> cut_at cs (d @ c # x) = d"
  by (induction d) (auto simp: cut_at_def)

lemma cut_at_whole: "list_all (\<lambda>c. c \<notin> cs) d \<Longrightarrow> cut_at cs d = d"
  by (induction d) (auto simp: cut_at_def)

lemma no_space_plain: "list_all domain_char d \<Longrightarrow> list_all (\<lambda>c. \<not> is_space c) d"
  by (auto simp: list_all_iff domain_char_plain)

lemma adguard_domain_plain:
  assumes "valid_domain d"
  shows "adguard_domain (d @ CHR ''^'' # x) = Some d"
proof -
  have d: "list_all domain_char d" "d \<noteq> []" using valid_domain_chars [OF assms] by simp_all
  have "cut_at {CHR ''^''} (d @ CHR ''^'' # x) = d"
    by (rule cut_at_plain) (use d in \<open>auto simp: list_all_iff domain_char_plain(4)\<close>)
  moreover have "cut_at {CHR ''$''} d = d"
    by (rule cut_at_whole) (use d in \<open>auto simp: list_all_iff domain_char_plain(5)\<close>)
  moreover have "\<not> contains_any d ''/*?=:|''"
    using d domain_char_plain(6) by (auto simp: contains_any_def list_ex_iff list_all_iff)
  ultimately show ?thesis
    using d by (simp add: adguard_domain_def trim_space_plain [OF no_space_plain] Let_def)
qed

lemma to_lower_plain: "list_all domain_char d \<Longrightarrow> to_lower d = d"
  by (induction d) (simp_all add: to_lower_def domain_char_plain(2))

lemma add_rule_plain:
  assumes "valid_domain d" and "\<not> has_suffix d ''.''"
  shows "add_rule action d out =
    (if \<lparr>ru_action = action, ru_domain = d\<rparr> \<in> set out then out else out @ [\<lparr>ru_action = action, ru_domain = d\<rparr>])"
proof -
  have d: "list_all domain_char d" using valid_domain_chars [OF assms(1)] by simp
  have "normalize_domain d = d"
    by (simp add: normalize_domain_def trim_space_plain [OF no_space_plain [OF d]] trim_suffix_other [OF assms(2)]
        to_lower_plain [OF d])
  with assms(1) show ?thesis by (simp add: add_rule_def Let_def)
qed

lemma not_space: "\<not> is_space CHR ''|''" "\<not> is_space CHR ''@''" "\<not> is_space CHR ''^''" "\<not> is_space CHR ''#''"
  by (simp_all add: is_space_def byte_def)

lemma parse_print_line:
  assumes "exportable r" and "r \<notin> set out"
  shows "parse_line (show_rule r) out = out @ [r]"
proof -
  have ok: "valid_domain (ru_domain r)" "ru_action r \<in> {''allow'', ''deny''}" "\<not> has_suffix (ru_domain r) ''.''"
    using assms(1) by (auto simp: exportable_def rule_ok_def)
  have "list_all (\<lambda>c. \<not> is_space c) (show_rule r)"
    using no_space_plain valid_domain_chars [OF ok(1)] not_space by (simp add: show_rule_def)
  then have line: "trim_space (show_rule r) = show_rule r" by (rule trim_space_plain)
  show ?thesis
  proof (cases "ru_action r = ''allow''")
    case True
    then have p: "show_rule r = ''@@||'' @ ru_domain r @ ''^''" by (simp add: show_rule_def)
    have r: "\<lparr>ru_action = ''allow'', ru_domain = ru_domain r\<rparr> = r" using True by simp
    show ?thesis
      using assms(2) adguard_domain_plain [OF ok(1), of "[]"] add_rule_plain [OF ok(1,3), of "''allow''" out]
      unfolding parse_line_def p line [unfolded p] Let_def by (simp add: has_prefix_def r)
  next
    case False
    then have p: "show_rule r = ''||'' @ ru_domain r @ ''^''" by (simp add: show_rule_def)
    have r: "\<lparr>ru_action = ''deny'', ru_domain = ru_domain r\<rparr> = r" using False ok(2) by auto
    show ?thesis
      using assms(2) adguard_domain_plain [OF ok(1), of "[]"] add_rule_plain [OF ok(1,3), of "''deny''" out]
      unfolding parse_line_def p line [unfolded p] Let_def by (simp add: has_prefix_def r)
  qed
qed

lemma parse_print_lines:
  "\<forall>r\<in>set rs. exportable r \<Longrightarrow> distinct (out @ rs) \<Longrightarrow> fold parse_line (map show_rule rs) out = out @ rs"
proof (induction rs arbitrary: out)
  case (Cons r rs)
  then have "parse_line (show_rule r) out = out @ [r]" by (intro parse_print_line) auto
  with Cons.IH [of "out @ [r]"] Cons.prems show ?case by simp
qed simp

lemma split_byte_plain: "c \<notin> set l \<Longrightarrow> split_byte c (l @ c # x) = l # split_byte c x"
  by (induction l) auto

lemma split_byte_lines:
  "\<forall>l\<in>set ls. c \<notin> set l \<Longrightarrow> split_byte c (concat (map (\<lambda>l. l @ [c]) ls)) = ls @ [[]]"
  by (induction ls) (auto simp: split_byte_plain)

lemma show_rule_chars:
  assumes "exportable r"
  shows "CHR 0x0A \<notin> set (show_rule r)" and "drop_cr (show_rule r) = show_rule r"
proof -
  have "list_all domain_char (ru_domain r)" using assms valid_domain_chars by (auto simp: exportable_def rule_ok_def)
  then have "CHR 0x0A \<notin> set (ru_domain r)" using domain_char_plain(7) by (auto simp: list_all_iff)
  then show "CHR 0x0A \<notin> set (show_rule r)" by (simp add: show_rule_def)
  show "drop_cr (show_rule r) = show_rule r" by (simp add: drop_cr_def show_rule_def)
qed

subsection \<open>Properties\<close>

text \<open>Whatever the text, an import yields each rule once, and every rule allows or denies a valid
  lower-case domain with a dot.\<close>

theorem import_rules_valid: "distinct (parse_rules text) \<and> list_all rule_ok (parse_rules text)"
  using parse_lines_ok [of "[]" "scan_lines text"] by (simp add: rules_ok_def parse_rules_def)

text \<open>C40: Rules written in AdGuard form, one per line, are read back as exactly those rules in that order.\<close>

theorem import_roundtrip:
  assumes "\<forall>r\<in>set rs. exportable r" and "distinct rs"
  shows "parse_rules (show_rules rs) = rs"
proof -
  have "show_rules rs = concat (map (\<lambda>l. l @ [CHR 0x0A]) (map show_rule rs))"
    by (simp add: show_rules_def comp_def)
  then have "split_byte CHR 0x0A (show_rules rs) = map show_rule rs @ [[]]"
    using split_byte_lines [of "map show_rule rs" "CHR 0x0A"] show_rule_chars(1) assms(1) by auto
  then have "scan_lines (show_rules rs) = map drop_cr (takeWhile (\<lambda>l. length l < max_line) (map show_rule rs))"
    by (simp add: scan_lines_def)
  also have "takeWhile (\<lambda>l. length l < max_line) (map show_rule rs) = map show_rule rs"
    unfolding takeWhile_eq_all_conv using assms(1) by (simp add: exportable_def)
  also have "map drop_cr (map show_rule rs) = map show_rule rs"
    using assms(1) show_rule_chars(2) by simp
  finally have "scan_lines (show_rules rs) = map show_rule rs" .
  then show ?thesis using parse_print_lines [of rs "[]"] assms by (simp add: parse_rules_def)
qed

definition demo_rules :: "rule list" where
  "demo_rules = [\<lparr>ru_action = ''deny'', ru_domain = ''ads.example.com''\<rparr>,
     \<lparr>ru_action = ''allow'', ru_domain = ''ok.example.com''\<rparr>]"

theorem import_roundtrip_witness: "parse_rules (show_rules demo_rules) = demo_rules"
proof (rule import_roundtrip)
  have "list_all rule_ok demo_rules" and "list_all (\<lambda>r. \<not> has_suffix (ru_domain r) ''.'') demo_rules" by code_simp+
  moreover have "\<forall>r\<in>set demo_rules. length (show_rule r) < max_line"
    by (simp add: demo_rules_def show_rule_def max_line_def)
  ultimately show "\<forall>r\<in>set demo_rules. exportable r" by (simp add: list_all_iff exportable_def)
qed (simp add: demo_rules_def)

lemma index_sub_absent: "hd p \<notin> set s \<Longrightarrow> p \<noteq> [] \<Longrightarrow> index_sub p s = None"
proof (induction s)
  case Nil
  then show ?case by (simp add: index_sub.simps [of p "[]"] has_prefix_def)
next
  case (Cons c s)
  then have "\<not> has_prefix (c # s) p" by (cases p) (auto simp: has_prefix_def)
  with Cons show ?case by (subst index_sub.simps) simp
qed

lemma str_fields_one: "list_all (\<lambda>c. \<not> is_space c) s \<Longrightarrow> s \<noteq> [] \<Longrightarrow> str_fields s = [s]"
proof -
  have "list_all (\<lambda>c. \<not> is_space c) s \<Longrightarrow> fields_acc is_space s acc = (if acc = [] \<and> s = [] then [] else [rev acc @ s])"
    for acc by (induction s arbitrary: acc) auto
  then show "list_all (\<lambda>c. \<not> is_space c) s \<Longrightarrow> s \<noteq> [] \<Longrightarrow> str_fields s = [s]"
    by (simp add: str_fields_def fields_func_def)
qed

text \<open>A cosmetic (element hiding) rule for a domain is not skipped: it is imported as a rule that blocks the
  whole domain.\<close>

theorem element_hiding_blocks_domain:
  assumes "valid_domain d" and "\<not> has_suffix d ''.''" and "list_all (\<lambda>c. \<not> is_space c \<and> c \<noteq> CHR '':'' \<and> c \<noteq> CHR ''@'') sel"
    and "\<lparr>ru_action = ''deny'', ru_domain = d\<rparr> \<notin> set out"
  shows "parse_line (d @ ''##'' @ sel) out = out @ [\<lparr>ru_action = ''deny'', ru_domain = d\<rparr>]"
proof -
  let ?l = "d @ ''##'' @ sel"
  have d: "list_all domain_char d" "d \<noteq> []" using valid_domain_chars [OF assms(1)] by simp_all
  then obtain c r where c: "d = c # r" "domain_char c" by (cases d) auto
  have "list_all (\<lambda>c. \<not> is_space c) ?l"
    using no_space_plain [OF d(1)] assms(3) not_space(4) by (auto simp: list_all_iff)
  then have line: "trim_space ?l = ?l" and fs: "str_fields ?l = [?l]"
    by (simp_all add: trim_space_plain str_fields_one)
  have start: "\<not> has_prefix ?l ''#''" "\<not> has_prefix ?l ''!''" "\<not> has_prefix ?l ''[''" "\<not> has_prefix ?l ''@@||''"
    "\<not> has_prefix ?l ''||''"
    using c(2) unfolding c(1) by (auto simp: has_prefix_def domain_char_def is_lower_def is_digit_def byte_def)
  have "CHR '':'' \<notin> set d" and "CHR ''@'' \<notin> set d"
    using d(1) domain_char_plain(10) [of "CHR ''@''"] domain_char_plain(12) [of "CHR '':''"] by (auto simp: list_all_iff)
  moreover have "CHR '':'' \<notin> set sel" and "CHR ''@'' \<notin> set sel" using assms(3) by (auto simp: list_all_iff)
  ultimately have colon: "CHR '':'' \<notin> set ?l" and "CHR ''@'' \<notin> set ?l" by simp_all
  then have "index_sub ''://'' ?l = None" and "last_index_byte CHR ''@'' ?l = None"
    using index_sub_absent [of "''://''" ?l] by (simp_all add: last_index_byte_def index_byte_None)
  moreover have cut: "cut_at (set ''/?#'') ?l = d"
  proof -
    have "list_all (\<lambda>c. c \<notin> set ''/?#'') d"
      using d(1) domain_char_plain(6,9) unfolding list_all_iff by fastforce
    then show ?thesis using cut_at_plain [of "set ''/?#''" d "CHR ''#''" "CHR ''#'' # sel"] by simp
  qed
  moreover have "last_index_byte CHR '':'' d = None"
    using colon by (simp add: last_index_byte_def index_byte_None)
  ultimately have "host_from_token ?l = d" by (simp add: host_from_token_def Let_def)
  with start fs d(2) assms(4) add_rule_plain [OF assms(1,2)] show ?thesis
    unfolding parse_line_def line Let_def by simp
qed

theorem element_hiding_blocks_domain_witness:
  "parse_line ''example.com##.banner'' [] = [\<lparr>ru_action = ''deny'', ru_domain = ''example.com''\<rparr>]"
proof -
  have "valid_domain ''example.com''" and "\<not> has_suffix ''example.com'' ''.''"
    and "list_all (\<lambda>c. \<not> is_space c \<and> c \<noteq> CHR '':'' \<and> c \<noteq> CHR ''@'') ''.banner''" by code_simp+
  from element_hiding_blocks_domain [OF this, of "[]"] show ?thesis by simp
qed

end
