(* ===== verification/Config_Store.thy ===== *)
theory Config_Store
  imports Block_Filter
begin

section \<open>The tables of the replicated configuration\<close>

text \<open>
  Package \<open>store\<close>: the tables that feed the configuration version. A table is the list of
  its rows in insertion order with the last id its \<open>AUTOINCREMENT\<close> key gave, and a method
  is the effect of its SQL statements. Statements do not fail for reasons outside the
  program (a full disk), but the \<open>UNIQUE\<close> constraints of the schema are kept: where the code
  can run into one, the model returns the error. \<open>ORDER BY\<close> compares bytes, as SQLite does,
  and keeps the order of equal rows. The time of a statement is an argument.

  The column \<open>scope_values\<close> holds the JSON of a list of strings, written by
  \<open>json.Marshal\<close> only; it is that list here. Every write of a table the version depends on
  moves the generation \<open>configGen\<close>, after it is visible; it is a natural number, because
  2 to the 64 writes are out of reach.
\<close>

subsection \<open>Scopes\<close>

abbreviation scope_all :: string where "scope_all \<equiv> ''all''"
abbreviation scope_nodes :: string where "scope_nodes \<equiv> ''nodes''"
abbreviation scope_sites :: string where "scope_sites \<equiv> ''sites''"

datatype store_error =
    Bad_Scope_Type
  | Scope_Values_Required
  | Rewrite_Conflict int string
  | Unique_Violation
  | Row_Not_Found

definition scope_value :: "string list \<Rightarrow> string \<Rightarrow> string list" where
  [model]: "scope_value out v =
     (let v = trim_space v in if v = [] \<or> v \<in> set out then out else out @ [v])"

definition canonical_scope :: "string \<Rightarrow> string list \<Rightarrow> store_error + string \<times> string list" where
  [model]: "canonical_scope scope_type values =
     (if scope_type = [] \<or> scope_type = scope_all then Inr (scope_all, [])
      else if scope_type \<noteq> scope_nodes \<and> scope_type \<noteq> scope_sites then Inl Bad_Scope_Type
      else (let out = foldl scope_value [] values in
            if out = [] then Inl Scope_Values_Required else Inr (scope_type, sort out)))"

definition scope_rank :: "string \<Rightarrow> nat" where
  [model]: "scope_rank scope_type =
     (if scope_type = scope_nodes then 3 else if scope_type = scope_sites then 2 else 1)"

definition scope_contains :: "string list \<Rightarrow> string \<Rightarrow> bool" where
  [model]: "scope_contains vals want \<longleftrightarrow> want \<in> set vals"

definition scope_matches :: "string \<Rightarrow> string list \<Rightarrow> string \<Rightarrow> string \<Rightarrow> bool" where
  [model]: "scope_matches scope_type vals node_name node_site \<longleftrightarrow>
     (if scope_type = scope_nodes then scope_contains vals node_name
      else if scope_type = scope_sites then node_site \<noteq> [] \<and> scope_contains vals node_site
      else True)"

definition scope_values_intersect :: "string list \<Rightarrow> string list \<Rightarrow> bool" where
  [model]: "scope_values_intersect a b \<longleftrightarrow> list_ex (\<lambda>v. v \<in> set a) b"

subsection \<open>Rows\<close>

record rule_row =
  u_id :: int
  u_action :: string
  u_domain :: string
  u_category :: string
  u_enabled :: bool
  u_list_id :: int
  u_updated_at :: int

record list_row =
  l_id :: int
  l_name :: string
  l_source :: string
  l_url :: string
  l_category :: string
  l_enabled :: bool
  l_interval_sec :: int
  l_last_fetch :: int
  l_last_error :: string
  l_updated_at :: int

record rewrite_row =
  w_id :: int
  w_domain :: string
  w_rrtype :: string
  w_value :: string
  w_enabled :: bool
  w_updated_at :: int
  w_scope_type :: string
  w_scope_values :: "string list"
  w_source :: string
  w_external_id :: string

record forwarder_row =
  f_id :: int
  f_suffix :: string
  f_upstreams :: "string list"
  f_scope_type :: string
  f_scope_values :: "string list"
  f_enabled :: bool
  f_updated_at :: int

text \<open>A verdict of the classifier, without its confidence and the JSON of its score's factors.\<close>

record verdict_row =
  v_domain :: string
  v_category :: string
  v_block :: bool
  v_status :: string
  v_trusted :: bool
  v_threat :: bool
  v_reason :: string
  v_note :: string
  v_score :: int
  v_model :: string
  v_content :: string
  v_content_checked :: bool
  v_updated_at :: int

record config_db =
  db_rules :: "rule_row list"
  db_rules_seq :: int
  db_lists :: "list_row list"
  db_lists_seq :: int
  db_rewrites :: "rewrite_row list"
  db_rewrites_seq :: int
  db_forwarders :: "forwarder_row list"
  db_forwarders_seq :: int
  db_verdicts :: "verdict_row list"
  db_meta :: "(string \<times> string) list"
  db_meta_int :: "(string \<times> int) list"
  db_gen :: nat

definition empty_db :: config_db where
  "empty_db = \<lparr>db_rules = [], db_rules_seq = 0, db_lists = [], db_lists_seq = 0, db_rewrites = [],
     db_rewrites_seq = 0, db_forwarders = [], db_forwarders_seq = 0, db_verdicts = [], db_meta = [], db_meta_int = [], db_gen = 0\<rparr>"

text \<open>\<open>dbh.bumpIf\<close> and \<open>txh.Commit\<close> after a write of a tracked table.\<close>

definition bump :: "config_db \<Rightarrow> config_db" where
  [model]: "bump db = db\<lparr>db_gen := Suc (db_gen db)\<rparr>"

subsection \<open>A table with a unique key\<close>

text \<open>
  \<open>INSERT ... ON CONFLICT(key) DO UPDATE\<close>: the row with the key of the new one is updated in
  place and keeps its id; a new key is a new row with the next id. The second value is the
  last id given.
\<close>

definition upsert ::
    "('r \<Rightarrow> 'k) \<Rightarrow> ('r \<Rightarrow> 'r \<Rightarrow> 'r) \<Rightarrow> (int \<Rightarrow> 'r) \<Rightarrow> 'r list \<times> int \<Rightarrow> 'r list \<times> int" where
  [model]: "upsert key merge new t =
     (let (rows, seq) = t; row = new (seq + 1) in
      if list_ex (\<lambda>r. key r = key row) rows
      then (map (\<lambda>r. if key r = key row then merge r row else r) rows, seq)
      else (rows @ [row], seq + 1))"

locale unique_table =
  fixes key :: "'r \<Rightarrow> 'k"
    and ident :: "'r \<Rightarrow> int"
    and merge :: "'r \<Rightarrow> 'r \<Rightarrow> 'r"
    and new :: "'a \<Rightarrow> int \<Rightarrow> 'r"
  assumes key_merge: "key (merge r n) = key r"
    and ident_merge: "ident (merge r n) = ident r"
    and ident_new: "ident (new a i) = i"
    and key_new: "key (new a i) = key (new a j)"
begin

definition good :: "'r list \<times> int \<Rightarrow> bool" where
  "good t \<longleftrightarrow> distinct (map key (fst t)) \<and> distinct (map ident (fst t))
     \<and> (\<forall>r\<in>set (fst t). 0 < ident r \<and> ident r \<le> snd t) \<and> 0 \<le> snd t"

lemma good_upsert:
  assumes "good t"
  shows "good (upsert key merge (new a) t)"
proof (cases t)
  case (Pair rows seq)
  have 1: "key (if P r then merge r n else r) = key r" "ident (if P r then merge r n else r) = ident r" for P r n
    by (simp_all add: key_merge ident_merge)
  have 2: "map key (map (\<lambda>r. if P r then merge r n else r) rows) = map key rows"
    "map ident (map (\<lambda>r. if P r then merge r n else r) rows) = map ident rows" for P n
    by (simp_all add: 1)
  show ?thesis
  proof (cases "list_ex (\<lambda>r. key r = key (new a (seq + 1))) rows")
    case True
    with assms Pair 2 show ?thesis
      by (auto simp: good_def upsert_def Let_def 1 ident_merge simp del: map_map)
  next
    case False
    have k: "key (new a (seq + 1)) \<notin> key ` set rows"
    proof
      assume "key (new a (seq + 1)) \<in> key ` set rows"
      then obtain r where "r \<in> set rows" "key r = key (new a (seq + 1))" by (metis imageE)
      with False show False by (simp add: list_ex_iff)
    qed
    have "seq + 1 \<notin> ident ` set rows"
    proof
      assume "seq + 1 \<in> ident ` set rows"
      then obtain r where "r \<in> set rows" "ident r = seq + 1" by (metis imageE)
      with assms Pair show False by (auto simp: good_def)
    qed
    with assms Pair False k show ?thesis
      by (auto simp: good_def upsert_def Let_def ident_new)
  qed
qed

lemma good_filter:
  assumes "good (rows, seq)"
  shows "good (filter P rows, seq)"
  using assms by (auto simp: good_def distinct_map_filter)

text \<open>What the code does next: it reads the id of the row with that key back.\<close>

lemma upsert_has_key:
  "\<exists>r\<in>set (fst (upsert key merge (new a) t)). key r = key (new a 0)"
proof (cases t)
  case (Pair rows seq)
  have n: "key (new a (seq + 1)) = key (new a 0)" by (rule key_new)
  show ?thesis
  proof (cases "list_ex (\<lambda>r. key r = key (new a (seq + 1))) rows")
    case True
    then obtain r where r: "r \<in> set rows" "key r = key (new a 0)"
      by (auto simp: list_ex_iff n)
    then have "merge r (new a (seq + 1)) \<in> set (fst (upsert key merge (new a) t))"
      using True Pair n by (auto simp: upsert_def Let_def image_iff intro!: bexI [of _ r])
    then show ?thesis using r(2) by (metis key_merge)
  next
    case False
    with Pair n show ?thesis by (auto simp: upsert_def Let_def)
  qed
qed

lemma upsert_other_rows:
  assumes "key r \<noteq> key (new a 0)"
  shows "r \<in> set (fst (upsert key merge (new a) t)) \<longleftrightarrow> r \<in> set (fst t)"
proof (cases t)
  case (Pair rows seq)
  have n: "key (new a (seq + 1)) = key (new a 0)" by (rule key_new)
  from assms Pair show ?thesis
    by (auto simp: upsert_def Let_def n key_merge image_iff list_ex_iff split: if_splits)
qed

end

subsection \<open>Rewrites\<close>

definition w_key :: "rewrite_row \<Rightarrow> string \<times> string \<times> string \<times> string list" where
  [model]: "w_key r = (w_domain r, w_rrtype r, w_scope_type r, w_scope_values r)"

definition list_rewrites :: "config_db \<Rightarrow> rewrite_row list" where
  [model]: "list_rewrites db = sort_key w_domain (db_rewrites db)"

definition get_rewrite :: "int \<Rightarrow> config_db \<Rightarrow> rewrite_row option" where
  [model]: "get_rewrite rid db = find (\<lambda>r. w_id r = rid) (db_rewrites db)"

definition source_char :: "char \<Rightarrow> bool" where
  [model]: "source_char c \<longleftrightarrow> is_lower c \<or> is_digit c \<or> c = CHR ''-''"

definition valid_rewrite_source :: "string \<Rightarrow> bool" where
  [model]: "valid_rewrite_source src \<longleftrightarrow> 1 \<le> length src \<and> length src \<le> 32 \<and> list_all source_char src"

text \<open>A row other than the one being written that already holds its external id.\<close>

definition external_holder :: "rewrite_row \<Rightarrow> rewrite_row list \<Rightarrow> rewrite_row option" where
  [model]: "external_holder row rows =
     find (\<lambda>r. w_source r = w_source row \<and> w_external_id r = w_external_id row \<and> w_rrtype r = w_rrtype row
            \<and> \<not> (w_domain r = w_domain row \<and> w_scope_type r = w_scope_type row
                 \<and> w_scope_values r = w_scope_values row)) rows"

definition merge_rewrite :: "rewrite_row \<Rightarrow> rewrite_row \<Rightarrow> rewrite_row" where
  [model]: "merge_rewrite r n =
     (if w_source r = w_source n
      then r\<lparr>w_value := w_value n, w_external_id := w_external_id n,
             w_enabled := (if w_source r = [] then True else w_enabled r), w_updated_at := w_updated_at n\<rparr>
      else r)"

definition with_id :: "rewrite_row \<Rightarrow> int \<Rightarrow> rewrite_row" where
  [model]: "with_id row i = row\<lparr>w_id := i\<rparr>"

definition upsert_rewrite :: "int \<Rightarrow> rewrite_row \<Rightarrow> config_db \<Rightarrow> (store_error + int) \<times> config_db" where
  [model]: "upsert_rewrite now rw db =
     (case canonical_scope (w_scope_type rw) (w_scope_values rw) of
        Inl e \<Rightarrow> (Inl e, db)
      | Inr (st, vals) \<Rightarrow>
          (let row = rw\<lparr>w_enabled := True, w_updated_at := now, w_scope_type := st, w_scope_values := vals\<rparr> in
           case (if w_external_id rw = [] then None else external_holder row (db_rewrites db)) of
             Some r \<Rightarrow> (Inl (Rewrite_Conflict (w_id r) (w_source rw)), db)
           | None \<Rightarrow>
               (let (rows, seq) = upsert w_key merge_rewrite (with_id row) (db_rewrites db, db_rewrites_seq db);
                    db = bump (db\<lparr>db_rewrites := rows, db_rewrites_seq := seq\<rparr>) in
                case find (\<lambda>r. w_key r = w_key row) rows of
                  None \<Rightarrow> (Inl Row_Not_Found, db)
                | Some r \<Rightarrow> if w_source r = w_source rw then (Inr (w_id r), db)
                            else (Inl (Rewrite_Conflict (w_id r) (w_source r)), db))))"

definition manual_rewrite :: "string \<Rightarrow> string \<Rightarrow> string \<Rightarrow> string \<Rightarrow> string list \<Rightarrow> rewrite_row" where
  [model]: "manual_rewrite domain rrtype val scope_type vals =
     \<lparr>w_id = 0, w_domain = domain, w_rrtype = rrtype, w_value = val, w_enabled = False, w_updated_at = 0,
      w_scope_type = scope_type, w_scope_values = vals, w_source = [], w_external_id = []\<rparr>"

definition add_rewrite_scoped ::
    "int \<Rightarrow> string \<Rightarrow> string \<Rightarrow> string \<Rightarrow> string \<Rightarrow> string list \<Rightarrow> config_db \<Rightarrow> (store_error + int) \<times> config_db" where
  [model]: "add_rewrite_scoped now domain rrtype val scope_type vals db =
     upsert_rewrite now (manual_rewrite domain rrtype val scope_type vals) db"

definition add_rewrite :: "int \<Rightarrow> string \<Rightarrow> string \<Rightarrow> string \<Rightarrow> config_db \<Rightarrow> (store_error + int) \<times> config_db" where
  [model]: "add_rewrite now domain rrtype val db = add_rewrite_scoped now domain rrtype val scope_all [] db"

definition detach_rewrite :: "int \<Rightarrow> int \<Rightarrow> config_db \<Rightarrow> store_error option \<times> config_db" where
  [model]: "detach_rewrite now rid db =
     (if list_ex (\<lambda>r. w_id r = rid) (db_rewrites db) then None else Some Row_Not_Found,
      bump (db\<lparr>db_rewrites :=
        map (\<lambda>r. if w_id r = rid then r\<lparr>w_source := [], w_external_id := [], w_updated_at := now\<rparr> else r)
          (db_rewrites db)\<rparr>))"

text \<open>\<open>UPDATE\<close> of a scope can run into the \<open>UNIQUE\<close> key: then no row changes.\<close>

definition update_rewrite ::
    "int \<Rightarrow> int \<Rightarrow> string \<Rightarrow> bool \<Rightarrow> string \<Rightarrow> string list \<Rightarrow> config_db \<Rightarrow> store_error option \<times> config_db" where
  [model]: "update_rewrite now rid val enabled scope_type vals db =
     (case canonical_scope scope_type vals of
        Inl e \<Rightarrow> (Some e, db)
      | Inr (st, vals) \<Rightarrow>
          (let rows = map (\<lambda>r. if w_id r = rid then r\<lparr>w_value := val, w_enabled := enabled, w_scope_type := st,
                              w_scope_values := vals, w_updated_at := now\<rparr> else r) (db_rewrites db) in
           if \<not> distinct (map w_key rows) then (Some Unique_Violation, bump db)
           else (if list_ex (\<lambda>r. w_id r = rid) (db_rewrites db) then None else Some Row_Not_Found,
                 bump (db\<lparr>db_rewrites := rows\<rparr>))))"

definition rewrite_scope_conflict :: "string \<Rightarrow> string \<Rightarrow> string \<Rightarrow> string list \<Rightarrow> int \<Rightarrow> config_db \<Rightarrow> bool" where
  [model]: "rewrite_scope_conflict domain rrtype scope_type vals exclude_id db \<longleftrightarrow>
     (if scope_type = scope_all then False
      else list_ex (\<lambda>r. w_domain r = domain \<and> w_rrtype r = rrtype \<and> w_scope_type r = scope_type
             \<and> w_id r \<noteq> exclude_id \<and> w_scope_values r \<noteq> vals \<and> scope_values_intersect (w_scope_values r) vals)
             (db_rewrites db))"

definition merge_imported :: "rewrite_row \<Rightarrow> rewrite_row \<Rightarrow> rewrite_row" where
  [model]: "merge_imported r n = r\<lparr>w_value := w_value n, w_enabled := True, w_updated_at := w_updated_at n,
     w_source := w_source n, w_external_id := w_external_id n\<rparr>"

definition import_rewrite :: "int \<Rightarrow> rewrite_row list \<times> int \<Rightarrow> rewrite_row \<Rightarrow> rewrite_row list \<times> int" where
  [model]: "import_rewrite now t rw =
     (let (st, vals) = (case canonical_scope (w_scope_type rw) (w_scope_values rw) of
                          Inl _ \<Rightarrow> (scope_all, []) | Inr sv \<Rightarrow> sv);
          (src, ext) = (if valid_rewrite_source (w_source rw) then (w_source rw, w_external_id rw) else ([], []));
          row = rw\<lparr>w_enabled := True, w_updated_at := now, w_scope_type := st, w_scope_values := vals,
                   w_source := src, w_external_id := ext\<rparr>;
          ext = (if ext \<noteq> [] \<and> external_holder row (fst t) \<noteq> None then [] else ext) in
      upsert w_key merge_imported (with_id (row\<lparr>w_external_id := ext\<rparr>)) t)"

definition add_rewrites_bulk :: "int \<Rightarrow> rewrite_row list \<Rightarrow> config_db \<Rightarrow> nat \<times> config_db" where
  [model]: "add_rewrites_bulk now rws db =
     (if rws = [] then (0, db)
      else (let (rows, seq) = foldl (import_rewrite now) (db_rewrites db, db_rewrites_seq db) rws in
            (length rws, bump (db\<lparr>db_rewrites := rows, db_rewrites_seq := seq\<rparr>))))"

definition delete_rewrite :: "int \<Rightarrow> config_db \<Rightarrow> config_db" where
  [model]: "delete_rewrite rid db = bump (db\<lparr>db_rewrites := filter (\<lambda>r. w_id r \<noteq> rid) (db_rewrites db)\<rparr>)"

definition clear_rewrites :: "config_db \<Rightarrow> config_db" where
  [model]: "clear_rewrites db = bump (db\<lparr>db_rewrites := []\<rparr>)"

interpretation rewrite_table: unique_table w_key w_id merge_rewrite with_id
  by unfold_locales (simp_all add: w_key_def merge_rewrite_def with_id_def)

interpretation rewrite_import: unique_table w_key w_id merge_imported with_id
  by unfold_locales (simp_all add: w_key_def merge_imported_def with_id_def)

subsection \<open>Forwarders\<close>

definition f_key :: "forwarder_row \<Rightarrow> string \<times> string \<times> string list" where
  [model]: "f_key r = (f_suffix r, f_scope_type r, f_scope_values r)"

definition list_forwarders :: "config_db \<Rightarrow> forwarder_row list" where
  [model]: "list_forwarders db = sort_key f_suffix (db_forwarders db)"

definition merge_forwarder :: "forwarder_row \<Rightarrow> forwarder_row \<Rightarrow> forwarder_row" where
  [model]: "merge_forwarder r n =
     r\<lparr>f_upstreams := f_upstreams n, f_enabled := f_enabled n, f_updated_at := f_updated_at n\<rparr>"

definition forwarder_with_id :: "forwarder_row \<Rightarrow> int \<Rightarrow> forwarder_row" where
  [model]: "forwarder_with_id row i = row\<lparr>f_id := i\<rparr>"

definition add_forwarder ::
    "int \<Rightarrow> string \<Rightarrow> string list \<Rightarrow> string \<Rightarrow> string list \<Rightarrow> config_db \<Rightarrow> (store_error + int) \<times> config_db" where
  [model]: "add_forwarder now sfx ups scope_type vals db =
     (case canonical_scope scope_type vals of
        Inl e \<Rightarrow> (Inl e, db)
      | Inr (st, vals) \<Rightarrow>
          (let row = \<lparr>f_id = 0, f_suffix = sfx, f_upstreams = ups, f_scope_type = st, f_scope_values = vals,
                      f_enabled = True, f_updated_at = now\<rparr>;
               (rows, seq) = upsert f_key merge_forwarder (forwarder_with_id row)
                               (db_forwarders db, db_forwarders_seq db);
               db = bump (db\<lparr>db_forwarders := rows, db_forwarders_seq := seq\<rparr>) in
           case find (\<lambda>r. f_key r = f_key row) rows of
             None \<Rightarrow> (Inl Row_Not_Found, db)
           | Some r \<Rightarrow> (Inr (f_id r), db)))"

definition import_forwarder :: "int \<Rightarrow> forwarder_row list \<times> int \<Rightarrow> forwarder_row \<Rightarrow> forwarder_row list \<times> int" where
  [model]: "import_forwarder now t f =
     (let (st, vals) = (case canonical_scope (f_scope_type f) (f_scope_values f) of
                          Inl _ \<Rightarrow> (scope_all, []) | Inr sv \<Rightarrow> sv) in
      upsert f_key merge_forwarder
        (forwarder_with_id (f\<lparr>f_scope_type := st, f_scope_values := vals, f_updated_at := now\<rparr>)) t)"

definition add_forwarders_bulk :: "int \<Rightarrow> forwarder_row list \<Rightarrow> config_db \<Rightarrow> nat \<times> config_db" where
  [model]: "add_forwarders_bulk now fws db =
     (if fws = [] then (0, db)
      else (let (rows, seq) = foldl (import_forwarder now) (db_forwarders db, db_forwarders_seq db) fws in
            (length fws, bump (db\<lparr>db_forwarders := rows, db_forwarders_seq := seq\<rparr>))))"

definition update_forwarder ::
    "int \<Rightarrow> int \<Rightarrow> string list \<Rightarrow> bool \<Rightarrow> string \<Rightarrow> string list \<Rightarrow> config_db \<Rightarrow> store_error option \<times> config_db" where
  [model]: "update_forwarder now rid ups enabled scope_type vals db =
     (case canonical_scope scope_type vals of
        Inl e \<Rightarrow> (Some e, db)
      | Inr (st, vals) \<Rightarrow>
          (let rows = map (\<lambda>r. if f_id r = rid then r\<lparr>f_upstreams := ups, f_enabled := enabled, f_scope_type := st,
                              f_scope_values := vals, f_updated_at := now\<rparr> else r) (db_forwarders db) in
           if \<not> distinct (map f_key rows) then (Some Unique_Violation, bump db)
           else (if list_ex (\<lambda>r. f_id r = rid) (db_forwarders db) then None else Some Row_Not_Found,
                 bump (db\<lparr>db_forwarders := rows\<rparr>))))"

definition forwarder_scope_conflict :: "string \<Rightarrow> string \<Rightarrow> string list \<Rightarrow> int \<Rightarrow> config_db \<Rightarrow> bool" where
  [model]: "forwarder_scope_conflict sfx scope_type vals exclude_id db \<longleftrightarrow>
     (if scope_type = scope_all then False
      else list_ex (\<lambda>r. f_suffix r = sfx \<and> f_scope_type r = scope_type
             \<and> f_id r \<noteq> exclude_id \<and> f_scope_values r \<noteq> vals \<and> scope_values_intersect (f_scope_values r) vals)
             (db_forwarders db))"

definition delete_forwarder :: "int \<Rightarrow> config_db \<Rightarrow> config_db" where
  [model]: "delete_forwarder rid db = bump (db\<lparr>db_forwarders := filter (\<lambda>r. f_id r \<noteq> rid) (db_forwarders db)\<rparr>)"

definition clear_forwarders :: "config_db \<Rightarrow> config_db" where
  [model]: "clear_forwarders db = bump (db\<lparr>db_forwarders := []\<rparr>)"

interpretation forwarder_table: unique_table f_key f_id merge_forwarder forwarder_with_id
  by unfold_locales (simp_all add: f_key_def merge_forwarder_def forwarder_with_id_def)

subsection \<open>Rules\<close>

definition u_key :: "rule_row \<Rightarrow> string \<times> string" where
  [model]: "u_key r = (u_action r, u_domain r)"

definition or_custom :: "string \<Rightarrow> string" where
  [model]: "or_custom category = (if category = [] then ''custom'' else category)"

definition list_rules :: "config_db \<Rightarrow> rule_row list" where
  [model]: "list_rules db = sort_key u_domain (db_rules db)"

text \<open>A manual rule for a domain that is there keeps the list the row belongs to.\<close>

definition merge_rule :: "rule_row \<Rightarrow> rule_row \<Rightarrow> rule_row" where
  [model]: "merge_rule r n = r\<lparr>u_category := u_category n, u_enabled := True, u_updated_at := u_updated_at n\<rparr>"

definition merge_listed :: "rule_row \<Rightarrow> rule_row \<Rightarrow> rule_row" where
  [model]: "merge_listed r n = r\<lparr>u_category := u_category n, u_enabled := True, u_list_id := u_list_id n,
     u_updated_at := u_updated_at n\<rparr>"

definition new_rule :: "string \<times> string \<times> string \<times> int \<times> int \<Rightarrow> int \<Rightarrow> rule_row" where
  [model]: "new_rule a i = (case a of (action, domain, category, list_id, now) \<Rightarrow>
     \<lparr>u_id = i, u_action = action, u_domain = domain, u_category = category, u_enabled = True,
      u_list_id = list_id, u_updated_at = now\<rparr>)"

definition add_rule_row :: "int \<Rightarrow> string \<Rightarrow> string \<Rightarrow> string \<Rightarrow> config_db \<Rightarrow> (store_error + int) \<times> config_db" where
  [model]: "add_rule_row now action domain category db =
     (let (rows, seq) = upsert u_key merge_rule (new_rule (action, domain, or_custom category, 0, now))
                          (db_rules db, db_rules_seq db);
          db = bump (db\<lparr>db_rules := rows, db_rules_seq := seq\<rparr>) in
      case find (\<lambda>r. u_action r = action \<and> u_domain r = domain) rows of
        None \<Rightarrow> (Inl Row_Not_Found, db)
      | Some r \<Rightarrow> (Inr (u_id r), db))"

definition import_rule :: "int \<Rightarrow> rule_row list \<times> int \<Rightarrow> rule_row \<Rightarrow> rule_row list \<times> int" where
  [model]: "import_rule now t r =
     upsert u_key merge_rule (new_rule (u_action r, u_domain r, or_custom (u_category r), 0, now)) t"

definition add_rules_bulk :: "int \<Rightarrow> rule_row list \<Rightarrow> config_db \<Rightarrow> nat \<times> config_db" where
  [model]: "add_rules_bulk now rs db =
     (if rs = [] then (0, db)
      else (let (rows, seq) = foldl (import_rule now) (db_rules db, db_rules_seq db) rs in
            (length rs, bump (db\<lparr>db_rules := rows, db_rules_seq := seq\<rparr>))))"

definition delete_rule :: "int \<Rightarrow> config_db \<Rightarrow> config_db" where
  [model]: "delete_rule rid db = bump (db\<lparr>db_rules := filter (\<lambda>r. u_id r \<noteq> rid) (db_rules db)\<rparr>)"

definition clear_rules :: "config_db \<Rightarrow> config_db" where
  [model]: "clear_rules db = bump (db\<lparr>db_rules := []\<rparr>)"

interpretation rule_table: unique_table u_key u_id merge_rule new_rule
  by unfold_locales (auto simp: u_key_def merge_rule_def new_rule_def split: prod.splits)

interpretation listed_table: unique_table u_key u_id merge_listed new_rule
  by unfold_locales (auto simp: u_key_def merge_listed_def new_rule_def split: prod.splits)

subsection \<open>Lists of rules\<close>

definition create_list ::
    "int \<Rightarrow> string \<Rightarrow> string \<Rightarrow> string \<Rightarrow> string \<Rightarrow> int \<Rightarrow> config_db \<Rightarrow> int \<times> config_db" where
  [model]: "create_list now name source url category interval_sec db =
     (let i = db_lists_seq db + 1;
          row = \<lparr>l_id = i, l_name = name, l_source = source, l_url = url, l_category = or_custom category,
                 l_enabled = True, l_interval_sec = interval_sec, l_last_fetch = 0, l_last_error = [],
                 l_updated_at = now\<rparr> in
      (i, bump (db\<lparr>db_lists := db_lists db @ [row], db_lists_seq := i\<rparr>)))"

definition list_lists :: "config_db \<Rightarrow> (list_row \<times> nat) list" where
  [model]: "list_lists db =
     map (\<lambda>l. (l, length (filter (\<lambda>r. u_list_id r = l_id l) (db_rules db)))) (sort_key l_name (db_lists db))"

definition get_list :: "int \<Rightarrow> config_db \<Rightarrow> list_row option" where
  [model]: "get_list rid db = find (\<lambda>l. l_id l = rid) (db_lists db)"

definition due_url_lists :: "int \<Rightarrow> config_db \<Rightarrow> list_row list" where
  [model]: "due_url_lists now db =
     filter (\<lambda>l. l_source l = ''url'' \<and> l_enabled l \<and> 0 < l_interval_sec l \<and> l_last_fetch l + l_interval_sec l \<le> now)
       (db_lists db)"

definition change_list :: "int \<Rightarrow> (list_row \<Rightarrow> list_row) \<Rightarrow> config_db \<Rightarrow> config_db" where
  [model]: "change_list rid f db =
     bump (db\<lparr>db_lists := map (\<lambda>l. if l_id l = rid then f l else l) (db_lists db)\<rparr>)"

definition set_list_enabled :: "int \<Rightarrow> int \<Rightarrow> bool \<Rightarrow> config_db \<Rightarrow> config_db" where
  [model]: "set_list_enabled now rid enabled db =
     change_list rid (\<lambda>l. l\<lparr>l_enabled := enabled, l_updated_at := now\<rparr>) db"

definition update_list_interval :: "int \<Rightarrow> int \<Rightarrow> int \<Rightarrow> config_db \<Rightarrow> config_db" where
  [model]: "update_list_interval now rid interval_sec db =
     change_list rid (\<lambda>l. l\<lparr>l_interval_sec := interval_sec, l_updated_at := now\<rparr>) db"

definition mark_list_fetched :: "int \<Rightarrow> int \<Rightarrow> string \<Rightarrow> config_db \<Rightarrow> config_db" where
  [model]: "mark_list_fetched now rid err db =
     change_list rid (\<lambda>l. l\<lparr>l_last_fetch := now, l_last_error := err, l_updated_at := now\<rparr>) db"

definition delete_list :: "int \<Rightarrow> config_db \<Rightarrow> config_db" where
  [model]: "delete_list rid db =
     bump (db\<lparr>db_rules := filter (\<lambda>r. u_list_id r \<noteq> rid) (db_rules db),
              db_lists := filter (\<lambda>l. l_id l \<noteq> rid) (db_lists db)\<rparr>)"

definition replace_rule :: "int \<Rightarrow> int \<Rightarrow> string \<Rightarrow> rule_row list \<times> int \<Rightarrow> rule_row \<Rightarrow> rule_row list \<times> int" where
  [model]: "replace_rule now list_id category t r =
     upsert u_key merge_listed (new_rule (u_action r, u_domain r, category, list_id, now)) t"

definition replace_list_rules ::
    "int \<Rightarrow> int \<Rightarrow> string \<Rightarrow> rule_row list \<Rightarrow> config_db \<Rightarrow> nat \<times> config_db" where
  [model]: "replace_list_rules now list_id category rs db =
     (let (rows, seq) = foldl (replace_rule now list_id (or_custom category))
                          (filter (\<lambda>r. u_list_id r \<noteq> list_id) (db_rules db), db_rules_seq db) rs in
      (length rs, bump (db\<lparr>db_rules := rows, db_rules_seq := seq\<rparr>)))"

definition rules_by_list :: "int \<Rightarrow> config_db \<Rightarrow> rule_row list" where
  [model]: "rules_by_list list_id db = sort_key u_domain (filter (\<lambda>r. u_list_id r = list_id) (db_rules db))"

definition manual_rules :: "config_db \<Rightarrow> rule_row list" where
  [model]: "manual_rules db = rules_by_list 0 db"

text \<open>The \<open>LEFT JOIN\<close>: a rule of a list that is gone has no list row, and is not active.\<close>

definition active_rule :: "config_db \<Rightarrow> rule_row \<Rightarrow> bool" where
  [model]: "active_rule db r \<longleftrightarrow> u_enabled r
     \<and> (u_list_id r = 0 \<or> (case get_list (u_list_id r) db of None \<Rightarrow> False | Some l \<Rightarrow> l_enabled l))"

definition active_rules :: "config_db \<Rightarrow> rule_row list" where
  [model]: "active_rules db = sort_key u_domain (filter (active_rule db) (db_rules db))"

subsection \<open>Verdicts of the classifier\<close>

abbreviation class_approved :: string where "class_approved \<equiv> ''approved''"
abbreviation class_rejected :: string where "class_rejected \<equiv> ''rejected''"
abbreviation class_auto :: string where "class_auto \<equiv> ''auto''"
abbreviation class_suggested :: string where "class_suggested \<equiv> ''suggested''"
abbreviation class_clean :: string where "class_clean \<equiv> ''clean''"

definition enforced :: "verdict_row \<Rightarrow> bool" where
  [model]: "enforced c \<longleftrightarrow> v_block c \<and> (v_status c = class_approved \<or> v_status c = class_auto)"

definition is_classified :: "string \<Rightarrow> config_db \<Rightarrow> bool" where
  [model]: "is_classified domain db \<longleftrightarrow> list_ex (\<lambda>c. v_domain c = domain) (db_verdicts db)"

text \<open>An insert of a verdict that is not enforced does not move the generation.\<close>

definition insert_classification :: "int \<Rightarrow> verdict_row \<Rightarrow> config_db \<Rightarrow> bool \<times> config_db" where
  [model]: "insert_classification now c db =
     (let present = is_classified (v_domain c) db;
          db = (if present then db else db\<lparr>db_verdicts := db_verdicts db @ [c\<lparr>v_updated_at := now\<rparr>]\<rparr>) in
      (\<not> present, if enforced c then bump db else db))"

definition clean_domains :: "config_db \<Rightarrow> string list" where
  [model]: "clean_domains db =
     map v_domain (filter (\<lambda>c. v_status c = class_clean \<and> \<not> v_trusted c) (db_verdicts db))"

definition trusted_clean_verdicts :: "config_db \<Rightarrow> (string \<times> string) list" where
  [model]: "trusted_clean_verdicts db =
     map (\<lambda>c. (v_domain c, v_reason c)) (filter (\<lambda>c. v_status c = class_clean \<and> v_trusted c) (db_verdicts db))"

definition drop_verdicts :: "(verdict_row \<Rightarrow> bool) \<Rightarrow> config_db \<Rightarrow> nat \<times> config_db" where
  [model]: "drop_verdicts P db =
     (length (filter P (db_verdicts db)), bump (db\<lparr>db_verdicts := filter (\<lambda>c. \<not> P c) (db_verdicts db)\<rparr>))"

definition delete_trusted_clean_verdict :: "string \<Rightarrow> config_db \<Rightarrow> bool \<times> config_db" where
  [model]: "delete_trusted_clean_verdict domain db =
     (let (n, db) = drop_verdicts (\<lambda>c. v_domain c = domain \<and> v_status c = class_clean \<and> v_trusted c) db in
      (0 < n, db))"

definition change_verdict ::
    "(verdict_row \<Rightarrow> bool) \<Rightarrow> (verdict_row \<Rightarrow> verdict_row) \<Rightarrow> config_db \<Rightarrow> bool \<times> config_db" where
  [model]: "change_verdict P f db =
     (list_ex P (db_verdicts db), bump (db\<lparr>db_verdicts := map (\<lambda>c. if P c then f c else c) (db_verdicts db)\<rparr>))"

definition flag_threat :: "int \<Rightarrow> string \<Rightarrow> string \<Rightarrow> string \<Rightarrow> config_db \<Rightarrow> bool \<times> config_db" where
  [model]: "flag_threat now domain status reason db =
     change_verdict (\<lambda>c. v_domain c = domain \<and> v_status c = class_clean \<and> \<not> v_trusted c)
       (\<lambda>c. c\<lparr>v_block := True, v_threat := True, v_status := status, v_category := ''malware'',
             v_reason := reason, v_updated_at := now\<rparr>) db"

definition set_classification_status :: "int \<Rightarrow> string \<Rightarrow> string \<Rightarrow> config_db \<Rightarrow> config_db" where
  [model]: "set_classification_status now domain status db =
     snd (change_verdict (\<lambda>c. v_domain c = domain) (\<lambda>c. c\<lparr>v_status := status, v_updated_at := now\<rparr>) db)"

definition set_classification_decision ::
    "int \<Rightarrow> string \<Rightarrow> string \<Rightarrow> string \<Rightarrow> string \<Rightarrow> config_db \<Rightarrow> config_db" where
  [model]: "set_classification_decision now domain status category note_text db =
     snd (change_verdict (\<lambda>c. v_domain c = domain)
       (\<lambda>c. c\<lparr>v_status := status, v_block := (status = class_approved), v_note := note_text,
             v_category := (if category = [] then v_category c else category), v_updated_at := now\<rparr>) db)"

definition delete_classification :: "string \<Rightarrow> config_db \<Rightarrow> config_db" where
  [model]: "delete_classification domain db = snd (drop_verdicts (\<lambda>c. v_domain c = domain) db)"

definition delete_all_classifications :: "config_db \<Rightarrow> nat \<times> config_db" where
  [model]: "delete_all_classifications db = drop_verdicts (\<lambda>c. True) db"

definition active_ai_blocked :: "config_db \<Rightarrow> (string \<times> string) list" where
  [model]: "active_ai_blocked db = map (\<lambda>c. (v_domain c, v_category c)) (filter enforced (db_verdicts db))"

text \<open>The content category of a scored domain: \<open>content_checked\<close> says that it was asked for.\<close>

definition set_content_category :: "string \<Rightarrow> string \<Rightarrow> config_db \<Rightarrow> config_db" where
  [model]: "set_content_category domain category db =
     db\<lparr>db_verdicts := map (\<lambda>c. if v_domain c = domain then c\<lparr>v_content := category, v_content_checked := True\<rparr> else c)
          (db_verdicts db)\<rparr>"

definition unchecked_content :: "nat \<Rightarrow> config_db \<Rightarrow> string list" where
  [model]: "unchecked_content limit db =
     map v_domain (take limit (rev (sort_key v_updated_at (rev (filter (\<lambda>c. \<not> v_content_checked c) (db_verdicts db))))))"

subsection \<open>Settings kept by key\<close>

definition get_meta :: "string \<Rightarrow> config_db \<Rightarrow> string" where
  [model]: "get_meta key db = (case map_of (db_meta db) key of None \<Rightarrow> [] | Some v \<Rightarrow> v)"

definition set_meta :: "string \<Rightarrow> string \<Rightarrow> config_db \<Rightarrow> config_db" where
  [model]: "set_meta key val db = db\<lparr>db_meta := AList.update key val (db_meta db)\<rparr>"

definition delete_meta :: "string \<Rightarrow> config_db \<Rightarrow> config_db" where
  [model]: "delete_meta key db = db\<lparr>db_meta := AList.delete key (db_meta db)\<rparr>"

definition get_meta_int :: "string \<Rightarrow> config_db \<Rightarrow> int" where
  [model]: "get_meta_int key db = (case map_of (db_meta_int db) key of None \<Rightarrow> 0 | Some v \<Rightarrow> v)"

definition set_meta_int :: "string \<Rightarrow> int \<Rightarrow> config_db \<Rightarrow> config_db" where
  [model]: "set_meta_int key val db = db\<lparr>db_meta_int := AList.update key val (db_meta_int db)\<rparr>"

definition get_block_paused_until :: "config_db \<Rightarrow> int" where
  [model]: "get_block_paused_until db = get_meta_int ''block_paused_until'' db"

definition set_block_paused_until :: "int \<Rightarrow> config_db \<Rightarrow> config_db" where
  [model]: "set_block_paused_until ts db = set_meta_int ''block_paused_until'' ts db"

end
