(* ===== verification/Config_Scopes.thy ===== *)
theory Config_Scopes
  imports Config_Store
begin

section \<open>Scoped entries and the handlers that write them\<close>

text \<open>
  The handlers of package \<open>api\<close> that create, edit and delete rewrites, and the invariant
  they keep on the rewrites table: unique ids and keys, canonical scopes, an external id per
  integration and record type at most once, and no two rows of the same domain and type that
  reach a common node through scopes of the same kind. A handler returns the status of its
  answer, whether it reloads the policy (\<open>afterChange\<close>), and the tables after it.
\<close>

subsection \<open>Canonical scopes\<close>

definition scope_set :: "string list \<Rightarrow> string set" where
  "scope_set vs = {v. v \<noteq> [] \<and> (\<exists>w\<in>set vs. v = trim_space w)}"

lemma scope_vals_fold:
  "set (foldl scope_value out vs) = set out \<union> scope_set vs
   \<and> (distinct out \<longrightarrow> distinct (foldl scope_value out vs))"
proof (induction vs arbitrary: out)
  case Nil
  then show ?case by (simp add: scope_set_def)
next
  case (Cons v us)
  have "set (scope_value out v) = set out \<union> scope_set [v]" "distinct out \<longrightarrow> distinct (scope_value out v)"
    by (auto simp: scope_value_def scope_set_def Let_def)
  moreover have "scope_set (v # us) = scope_set [v] \<union> scope_set us"
    by (auto simp: scope_set_def)
  ultimately show ?case using Cons.IH [of "scope_value out v"] by auto
qed

definition canonical :: "string \<Rightarrow> string list \<Rightarrow> bool" where
  "canonical st vals \<longleftrightarrow> (st = scope_all \<and> vals = [])
     \<or> ((st = scope_nodes \<or> st = scope_sites) \<and> vals \<noteq> [] \<and> sorted vals \<and> distinct vals
        \<and> scope_set vals = set vals)"

lemma canonical_scope_Inr:
  assumes "canonical_scope st vs = Inr (s, vals)"
  shows "canonical s vals" and "set vals = (if s = scope_all then {} else scope_set vs)"
    and "s = (if st = [] then scope_all else st)"
proof -
  let ?out = "foldl scope_value [] vs"
  have out: "set ?out = scope_set vs" "distinct ?out"
    using scope_vals_fold [of "[]" vs] by simp_all
  consider (all) "st = [] \<or> st = scope_all" "s = scope_all" "vals = []"
    | (some) "st = scope_nodes \<or> st = scope_sites" "s = st" "?out \<noteq> []" "vals = sort ?out"
    using assms by (auto simp: canonical_scope_def Let_def split: if_splits)
  then have "canonical s vals \<and> set vals = (if s = scope_all then {} else scope_set vs)
      \<and> s = (if st = [] then scope_all else st)"
  proof cases
    case all
    then show ?thesis by (auto simp: canonical_def)
  next
    case some
    have "scope_set vals = set vals"
      using some(4) out(1) by (auto simp: scope_set_def)
    moreover have "sorted vals" "distinct vals" "set vals = scope_set vs"
      using some(4) out by simp_all
    moreover have "vals \<noteq> []"
      using some(3,4) by (metis set_empty set_sort)
    ultimately show ?thesis
      using some(1,2) by (auto simp: canonical_def)
  qed
  then show "canonical s vals" and "set vals = (if s = scope_all then {} else scope_set vs)"
    and "s = (if st = [] then scope_all else st)"
    by blast+
qed

lemma canonical_scope_canonical:
  assumes "canonical st vals"
  shows "canonical_scope st vals = Inr (st, vals)"
proof (cases "st = scope_all")
  case True
  with assms show ?thesis by (auto simp: canonical_def canonical_scope_def)
next
  case False
  have out: "set (foldl scope_value [] vals) = scope_set vals" "distinct (foldl scope_value [] vals)"
    using scope_vals_fold [of "[]" vals] by simp_all
  have vals: "vals \<noteq> []" "sorted vals" "distinct vals" "scope_set vals = set vals"
    and st: "st = scope_nodes \<or> st = scope_sites"
    using assms False by (auto simp: canonical_def)
  have "sort (foldl scope_value [] vals) = vals"
    by (rule sorted_distinct_set_unique) (simp_all add: out vals)
  moreover have "foldl scope_value [] vals \<noteq> []"
    using out(1) vals by auto
  ultimately show ?thesis
    using st by (auto simp: canonical_scope_def Let_def)
qed

text \<open>
  \<open>CanonicalScope\<close> is a canonical form: it accepts its own results unchanged, and two
  value lists of the same kind of scope get the same canonical list exactly when they name
  the same set of trimmed, nonempty values. The \<open>UNIQUE\<close> constraints on scoped entries
  rest on this.
\<close>

theorem canonical_scope_is_canonical:
  assumes "canonical_scope st vs = Inr (s, vals)"
    and "canonical_scope st ws = Inr (s, vals')"
  shows "canonical_scope s vals = Inr (s, vals)"
    and "vals = vals' \<longleftrightarrow> s = scope_all \<or> scope_set vs = scope_set ws"
proof -
  note c = canonical_scope_Inr [OF assms(1)] and c' = canonical_scope_Inr [OF assms(2)]
  show "canonical_scope s vals = Inr (s, vals)"
    by (rule canonical_scope_canonical [OF c(1)])
  have "s \<noteq> scope_all \<Longrightarrow> set vals = set vals' \<Longrightarrow> vals = vals'"
    using c(1) c'(1) sorted_distinct_set_unique [of vals vals'] by (auto simp: canonical_def)
  with c c' show "vals = vals' \<longleftrightarrow> s = scope_all \<or> scope_set vs = scope_set ws"
    by (auto simp: canonical_def)
qed

theorem canonical_scope_is_canonical_witness:
  "canonical_scope scope_nodes [''b'', ''a''] = Inr (scope_nodes, [''a'', ''b''])
   \<and> canonical_scope scope_nodes [''a'', ''b''] = Inr (scope_nodes, [''a'', ''b''])"
proof -
  have 1: "canonical_scope scope_nodes [''b'', ''a''] = Inr (scope_nodes, [''a'', ''b''])"
    by code_simp
  show ?thesis
    using canonical_scope_is_canonical(1) [OF 1 1] 1 by simp
qed

subsection \<open>Handlers\<close>

definition max_external_id_len :: nat where
  [model]: "max_external_id_len = 256"

type_synonym reply = "nat \<times> bool \<times> config_db"

definition refuse :: "nat \<Rightarrow> config_db \<Rightarrow> reply" where
  [model]: "refuse status db = (status, False, db)"

definition wildcard_ok :: "string \<Rightarrow> bool" where
  [model]: "wildcard_ok domain \<longleftrightarrow>
     \<not> (CHR ''*'' \<in> set domain \<and> (\<not> has_prefix domain ''*.'' \<or> CHR ''*'' \<in> set (drop 2 domain)))"

definition handle_add_rewrite :: "int \<Rightarrow> rewrite_row \<Rightarrow> config_db \<Rightarrow> reply" where
  [model]: "handle_add_rewrite now inp db =
     (if w_rrtype inp \<noteq> ''A'' \<and> w_rrtype inp \<noteq> ''AAAA'' \<and> w_rrtype inp \<noteq> ''CNAME'' then refuse 400 db
      else (let domain = normalize (w_domain inp) in
        if domain = [] \<or> w_value inp = [] then refuse 400 db
        else if \<not> wildcard_ok domain then refuse 400 db
        else if w_source inp \<noteq> [] \<and> \<not> valid_rewrite_source (w_source inp) then refuse 400 db
        else if w_external_id inp \<noteq> [] \<and> w_source inp = [] then refuse 400 db
        else if length (w_external_id inp) > max_external_id_len then refuse 400 db
        else case canonical_scope (w_scope_type inp) (w_scope_values inp) of
            Inl _ \<Rightarrow> refuse 400 db
          | Inr (st, vals) \<Rightarrow>
              if rewrite_scope_conflict domain (w_rrtype inp) st vals 0 db then refuse 409 db
              else (case upsert_rewrite now (inp\<lparr>w_domain := domain, w_scope_type := st\<rparr>) db of
                      (Inl (Rewrite_Conflict _ _), db) \<Rightarrow> refuse 409 db
                    | (Inl _, db) \<Rightarrow> refuse 500 db
                    | (Inr _, db) \<Rightarrow> (201, True, db))))"

definition handle_update_rewrite ::
    "int \<Rightarrow> int \<Rightarrow> string \<Rightarrow> bool \<Rightarrow> string \<Rightarrow> string list \<Rightarrow> string \<Rightarrow> config_db \<Rightarrow> reply" where
  [model]: "handle_update_rewrite now rid val enabled scope_type vals source db =
     (if val = [] then refuse 400 db
      else case canonical_scope scope_type vals of
        Inl _ \<Rightarrow> refuse 400 db
      | Inr (st, cvals) \<Rightarrow>
          (case find (\<lambda>r. w_id r = rid) (list_rewrites db) of
             None \<Rightarrow> refuse 404 db
           | Some cur \<Rightarrow>
               (let toggle_only = (val = w_value cur \<and> st = w_scope_type cur \<and> cvals = w_scope_values cur) in
                if source \<noteq> w_source cur \<and> \<not> toggle_only then refuse 409 db
                else if list_ex (\<lambda>r. w_id r \<noteq> rid \<and> w_domain r = w_domain cur \<and> w_rrtype r = w_rrtype cur
                          \<and> w_scope_type r = st \<and> w_scope_values r = cvals) (list_rewrites db) then refuse 409 db
                else if rewrite_scope_conflict (w_domain cur) (w_rrtype cur) st cvals rid db then refuse 409 db
                else (case update_rewrite now rid val enabled st vals db of
                        (Some _, db) \<Rightarrow> refuse 500 db
                      | (None, db) \<Rightarrow> (200, True, db)))))"

definition handle_delete_rewrite :: "int \<Rightarrow> string \<Rightarrow> config_db \<Rightarrow> reply" where
  [model]: "handle_delete_rewrite rid named db =
     (case get_rewrite rid db of
        None \<Rightarrow> refuse 204 db
      | Some cur \<Rightarrow>
          if named \<noteq> w_source cur then refuse 409 db
          else (204, True, delete_rewrite rid db))"

subsection \<open>No two rows of one kind reach a common node\<close>

definition overlap :: "rewrite_row \<Rightarrow> rewrite_row \<Rightarrow> bool" where
  "overlap r q \<longleftrightarrow> w_domain r = w_domain q \<and> w_rrtype r = w_rrtype q \<and> w_scope_type r = w_scope_type q
     \<and> (w_scope_type r = scope_all \<or> set (w_scope_values r) \<inter> set (w_scope_values q) \<noteq> {})"

definition rewrites_ok :: "config_db \<Rightarrow> bool" where
  "rewrites_ok db \<longleftrightarrow> rewrite_table.good (db_rewrites db, db_rewrites_seq db)
     \<and> (\<forall>r\<in>set (db_rewrites db). canonical (w_scope_type r) (w_scope_values r))
     \<and> (\<forall>r\<in>set (db_rewrites db). \<forall>q\<in>set (db_rewrites db). overlap r q \<longrightarrow> r = q)"

lemma rewrites_ok_bump [simp]: "rewrites_ok (bump db) = rewrites_ok db"
  by (simp add: rewrites_ok_def bump_def)

lemma db_bump [simp]:
  "db_rewrites (bump db) = db_rewrites db" "db_rewrites_seq (bump db) = db_rewrites_seq db"
  "db_rules (bump db) = db_rules db" "db_rules_seq (bump db) = db_rules_seq db" "db_lists (bump db) = db_lists db" "db_forwarders (bump db) = db_forwarders db"
  "db_verdicts (bump db) = db_verdicts db" "db_meta (bump db) = db_meta db" "db_gen (bump db) = Suc (db_gen db)"
  by (simp_all add: bump_def)

lemma rewrites_okD:
  assumes "rewrites_ok db"
  shows "rewrite_table.good (db_rewrites db, db_rewrites_seq db)"
    and "r \<in> set (db_rewrites db) \<Longrightarrow> canonical (w_scope_type r) (w_scope_values r)"
    and "r \<in> set (db_rewrites db) \<Longrightarrow> q \<in> set (db_rewrites db) \<Longrightarrow> overlap r q \<Longrightarrow> r = q"
    and "r \<in> set (db_rewrites db) \<Longrightarrow> 0 < w_id r"
    and "r \<in> set (db_rewrites db) \<Longrightarrow> w_id r \<le> db_rewrites_seq db"
    and "r \<in> set (db_rewrites db) \<Longrightarrow> q \<in> set (db_rewrites db) \<Longrightarrow> w_id r = w_id q \<Longrightarrow> r = q"
  using assms unfolding rewrites_ok_def rewrite_table.good_def
  by (blast, blast, blast, simp, simp, simp add: distinct_map inj_on_def)

lemma rewrites_okI:
  assumes "rewrite_table.good (db_rewrites db, db_rewrites_seq db)"
    and "\<And>r. r \<in> set (db_rewrites db) \<Longrightarrow> canonical (w_scope_type r) (w_scope_values r)"
    and "\<And>r q. r \<in> set (db_rewrites db) \<Longrightarrow> q \<in> set (db_rewrites db) \<Longrightarrow> overlap r q \<Longrightarrow> r = q"
  shows "rewrites_ok db"
  using assms unfolding rewrites_ok_def by blast

lemma overlap_sym: "overlap r q \<longleftrightarrow> overlap q r"
  by (auto simp: overlap_def)

lemma rewrites_ok_filter:
  "rewrites_ok db \<Longrightarrow> rewrites_ok (db\<lparr>db_rewrites := filter P (db_rewrites db)\<rparr>)"
  using rewrite_table.good_filter [of "db_rewrites db" "db_rewrites_seq db" P]
  unfolding rewrites_ok_def by auto

lemma rewrites_ok_map:
  assumes "rewrites_ok db"
    and f: "\<And>r. w_id (f r) = w_id r" "\<And>r. w_key (f r) = w_key r"
  shows "rewrites_ok (db\<lparr>db_rewrites := map f (db_rewrites db)\<rparr>)"
proof -
  have id: "map w_id (map f rows) = map w_id rows" and key: "map w_key (map f rows) = map w_key rows" for rows
    by (simp_all add: f)
  have over: "overlap (f r) (f q) = overlap r q" and canon: "w_scope_type (f r) = w_scope_type r"
    "w_scope_values (f r) = w_scope_values r" for r q
    using f(2) [of r] f(2) [of q] by (auto simp: overlap_def w_key_def)
  show ?thesis
    unfolding rewrites_ok_def
  proof (intro conjI ballI impI)
    note g = rewrites_okD(1) [OF assms(1)]
    show "rewrite_table.good (db_rewrites (db\<lparr>db_rewrites := map f (db_rewrites db)\<rparr>),
        db_rewrites_seq (db\<lparr>db_rewrites := map f (db_rewrites db)\<rparr>))"
      using g by (simp add: rewrite_table.good_def id key f(1) del: map_map)
  next
    fix r assume "r \<in> set (db_rewrites (db\<lparr>db_rewrites := map f (db_rewrites db)\<rparr>))"
    then obtain r0 where "r0 \<in> set (db_rewrites db)" "r = f r0" by auto
    with rewrites_okD(2) [OF assms(1), of r0] show "canonical (w_scope_type r) (w_scope_values r)"
      by (simp add: canon)
  next
    fix r q assume "r \<in> set (db_rewrites (db\<lparr>db_rewrites := map f (db_rewrites db)\<rparr>))"
      and "q \<in> set (db_rewrites (db\<lparr>db_rewrites := map f (db_rewrites db)\<rparr>))" and o: "overlap r q"
    then obtain r0 q0 where "r0 \<in> set (db_rewrites db)" "r = f r0" "q0 \<in> set (db_rewrites db)" "q = f q0" by auto
    moreover from this o have "overlap r0 q0" by (simp add: over)
    ultimately show "r = q" using rewrites_okD(3) [OF assms(1), of r0 q0] by simp
  qed
qed

lemma rewrites_ok_append:
  assumes ok: "rewrites_ok db"
    and new: "w_id row = db_rewrites_seq db + 1" "canonical (w_scope_type row) (w_scope_values row)"
      "\<And>q. q \<in> set (db_rewrites db) \<Longrightarrow> \<not> overlap row q" "w_key row \<notin> w_key ` set (db_rewrites db)"
  shows "rewrites_ok (db\<lparr>db_rewrites := db_rewrites db @ [row], db_rewrites_seq := db_rewrites_seq db + 1\<rparr>)"
proof -
  have "w_id row \<notin> w_id ` set (db_rewrites db)"
    using rewrites_okD(5) [OF ok] new(1) by force
  with rewrites_okD(1) [OF ok] new(1,4)
  have good: "rewrite_table.good (db_rewrites db @ [row], db_rewrites_seq db + 1)"
    by (auto simp: rewrite_table.good_def)
  show ?thesis
  proof (rule rewrites_okI)
    fix r q
    assume "r \<in> set (db_rewrites (db\<lparr>db_rewrites := db_rewrites db @ [row], db_rewrites_seq := db_rewrites_seq db + 1\<rparr>))"
    then have r: "r = row \<or> r \<in> set (db_rewrites db)" by simp
    then show "canonical (w_scope_type r) (w_scope_values r)"
      using rewrites_okD(2) [OF ok, of r] new(2) by blast
    assume "q \<in> set (db_rewrites (db\<lparr>db_rewrites := db_rewrites db @ [row], db_rewrites_seq := db_rewrites_seq db + 1\<rparr>))"
    then have q: "q = row \<or> q \<in> set (db_rewrites db)" by simp
    assume "overlap r q"
    with r q new(3) [of r] new(3) [of q] show "r = q"
      using rewrites_okD(3) [OF ok, of r q] overlap_sym [of r q] by blast
  qed (use good in simp)
qed

text \<open>What the overlap check says about a row that is not there yet.\<close>

lemma no_conflict_no_overlap:
  assumes ok: "rewrites_ok db" and q: "q \<in> set (db_rewrites db)" "w_id q \<noteq> x"
    and none: "\<not> rewrite_scope_conflict (w_domain row) (w_rrtype row) (w_scope_type row) (w_scope_values row) x db"
    and canon: "canonical (w_scope_type row) (w_scope_values row)"
    and key: "w_key row \<noteq> w_key q"
  shows "\<not> overlap row q"
proof
  assume over: "overlap row q"
  have "canonical (w_scope_type q) (w_scope_values q)"
    by (rule rewrites_okD(2) [OF ok q(1)])
  with over canon key have some: "w_scope_type row \<noteq> scope_all" and vals: "w_scope_values q \<noteq> w_scope_values row"
    and meet: "set (w_scope_values row) \<inter> set (w_scope_values q) \<noteq> {}"
    by (auto simp: overlap_def w_key_def canonical_def)
  have "scope_values_intersect (w_scope_values q) (w_scope_values row)"
    using meet by (auto simp: scope_values_intersect_def list_ex_iff)
  with over q none some vals show False
    by (auto simp: rewrite_scope_conflict_def overlap_def list_ex_iff)
qed

lemma rewrites_ok_upsert:
  assumes ok: "rewrites_ok db"
    and canon: "canonical (w_scope_type row) (w_scope_values row)"
    and none: "\<not> rewrite_scope_conflict (w_domain row) (w_rrtype row) (w_scope_type row) (w_scope_values row) 0 db"
    and up: "upsert w_key merge_rewrite (with_id row) (db_rewrites db, db_rewrites_seq db) = (rows, seq)"
  shows "rewrites_ok (db\<lparr>db_rewrites := rows, db_rewrites_seq := seq\<rparr>)"
proof -
  let ?row = "with_id row (db_rewrites_seq db + 1)"
  have same: "w_key ?row = w_key row" "w_id ?row = db_rewrites_seq db + 1" "w_domain ?row = w_domain row"
    "w_rrtype ?row = w_rrtype row" "w_scope_type ?row = w_scope_type row"
    "w_scope_values ?row = w_scope_values row"
    by (simp_all add: with_id_def w_key_def)
  show ?thesis
  proof (cases "list_ex (\<lambda>r. w_key r = w_key ?row) (db_rewrites db)")
    case True
    have "rewrites_ok (db\<lparr>db_rewrites :=
        map (\<lambda>r. if w_key r = w_key ?row then merge_rewrite r ?row else r) (db_rewrites db)\<rparr>)"
      by (rule rewrites_ok_map [OF ok]) (simp_all add: rewrite_table.key_merge rewrite_table.ident_merge)
    with up True show ?thesis by (auto simp: upsert_def Let_def)
  next
    case False
    have "\<not> overlap ?row q" if q: "q \<in> set (db_rewrites db)" for q
    proof (rule no_conflict_no_overlap [OF ok q, of 0])
      show "w_id q \<noteq> 0"
        using rewrites_okD(4) [OF ok q] by simp
      show "w_key ?row \<noteq> w_key q"
        using False q by (auto simp: list_ex_iff)
    qed (use none canon same in simp_all)
    moreover have "w_key ?row \<notin> w_key ` set (db_rewrites db)"
    proof
      assume "w_key ?row \<in> w_key ` set (db_rewrites db)"
      then obtain q where "q \<in> set (db_rewrites db)" "w_key q = w_key ?row" by (metis imageE)
      with False show False by (auto simp: list_ex_iff)
    qed
    ultimately have "rewrites_ok (db\<lparr>db_rewrites := db_rewrites db @ [?row], db_rewrites_seq := db_rewrites_seq db + 1\<rparr>)"
      using canon same by (intro rewrites_ok_append [OF ok]) simp_all
    with up False show ?thesis by (auto simp: upsert_def Let_def)
  qed
qed

lemma upsert_rewrite_ok:
  assumes ok: "rewrites_ok db"
    and scope: "canonical_scope (w_scope_type rw) (w_scope_values rw) = Inr (st, vals)"
    and none: "\<not> rewrite_scope_conflict (w_domain rw) (w_rrtype rw) st vals 0 db"
  shows "rewrites_ok (snd (upsert_rewrite now rw db))"
proof -
  let ?row = "rw\<lparr>w_enabled := True, w_updated_at := now, w_scope_type := st, w_scope_values := vals\<rparr>"
  obtain rows seq where up: "upsert w_key merge_rewrite (with_id ?row) (db_rewrites db, db_rewrites_seq db) = (rows, seq)"
    by fastforce
  have "rewrites_ok (db\<lparr>db_rewrites := rows, db_rewrites_seq := seq\<rparr>)"
    using canonical_scope_Inr(1) [OF scope] none by (intro rewrites_ok_upsert [OF ok _ _ up]) simp_all
  with ok show ?thesis
    by (simp add: upsert_rewrite_def scope up Let_def split: option.split)
qed

lemma add_rewrite_handler_ok:
  assumes ok: "rewrites_ok db"
  shows "rewrites_ok (snd (snd (handle_add_rewrite now inp db)))"
proof (cases "canonical_scope (w_scope_type inp) (w_scope_values inp)")
  case (Inl e)
  with ok show ?thesis by (simp add: handle_add_rewrite_def refuse_def Let_def)
next
  case (Inr sv)
  obtain st vals where sv: "sv = (st, vals)" by fastforce
  let ?inp = "inp\<lparr>w_domain := normalize (w_domain inp), w_scope_type := st\<rparr>"
  obtain res db' where up: "upsert_rewrite now ?inp db = (res, db')" by fastforce
  have tail: "snd (snd (case upsert_rewrite now ?inp db of
        (Inl (Rewrite_Conflict _ _), db) \<Rightarrow> refuse 409 db
      | (Inl _, db) \<Rightarrow> refuse 500 db
      | (Inr _, db) \<Rightarrow> (201, True, db))) = db'"
    by (simp add: up refuse_def split: sum.split store_error.split)
  have new: "rewrites_ok db'" if "\<not> rewrite_scope_conflict (normalize (w_domain inp)) (w_rrtype inp) st vals 0 db"
  proof -
    have scope: "canonical_scope (w_scope_type ?inp) (w_scope_values ?inp) = Inr (st, vals)"
      using Inr sv by (auto simp: canonical_scope_def Let_def split: if_splits)
    show ?thesis
      using upsert_rewrite_ok [OF ok scope, of now] that up by simp
  qed
  have "snd (snd (handle_add_rewrite now inp db)) \<in>
      (if rewrite_scope_conflict (normalize (w_domain inp)) (w_rrtype inp) st vals 0 db then {db} else {db, db'})"
    unfolding handle_add_rewrite_def Let_def Inr sv sum.case prod.case
    using tail by (simp add: refuse_def)
  with ok new show ?thesis
    by (auto split: if_splits)
qed

lemma update_rewrite_handler_ok:
  assumes ok: "rewrites_ok db"
  shows "rewrites_ok (snd (snd (handle_update_rewrite now rid val enabled scope_type vs source db)))"
proof -
  let ?change = "\<lambda>st vals r. r\<lparr>w_value := val, w_enabled := enabled, w_scope_type := st,
                  w_scope_values := vals, w_updated_at := now\<rparr>"
  have main: "rewrites_ok (db\<lparr>db_rewrites := map (\<lambda>r. if w_id r = rid then ?change st vals r else r) (db_rewrites db)\<rparr>)"
    if canon: "canonical st vals" and cur: "cur \<in> set (db_rewrites db)" "w_id cur = rid"
      and same: "\<not> list_ex (\<lambda>r. w_id r \<noteq> rid \<and> w_domain r = w_domain cur \<and> w_rrtype r = w_rrtype cur
            \<and> w_scope_type r = st \<and> w_scope_values r = vals) (list_rewrites db)"
      and none: "\<not> rewrite_scope_conflict (w_domain cur) (w_rrtype cur) st vals rid db"
      and dist: "distinct (map w_key (map (\<lambda>r. if w_id r = rid then ?change st vals r else r) (db_rewrites db)))"
    for st vals cur
  proof (rule rewrites_okI)
    let ?f = "\<lambda>r. if w_id r = rid then ?change st vals r else r"
    have only: "r = cur" if "r \<in> set (db_rewrites db)" "w_id r = rid" for r
      using rewrites_okD(6) [OF ok that(1) cur(1)] that(2) cur(2) by simp
    have ids: "map w_id (map ?f rows) = map w_id rows" for rows by simp
    show "rewrite_table.good (db_rewrites (db\<lparr>db_rewrites := map ?f (db_rewrites db)\<rparr>),
        db_rewrites_seq (db\<lparr>db_rewrites := map ?f (db_rewrites db)\<rparr>))"
      using rewrites_okD(1) [OF ok] dist rewrites_okD(4,5) [OF ok]
      by (auto simp: rewrite_table.good_def ids simp del: map_map)
    have new: "\<not> overlap (?change st vals cur) q" if q: "q \<in> set (db_rewrites db)" "w_id q \<noteq> rid" for q
    proof (rule no_conflict_no_overlap [OF ok q])
      show "w_key (?change st vals cur) \<noteq> w_key q"
        using same q by (auto simp: w_key_def list_ex_iff list_rewrites_def)
    qed (use none canon in simp_all)
    fix r assume "r \<in> set (db_rewrites (db\<lparr>db_rewrites := map ?f (db_rewrites db)\<rparr>))"
    then obtain r0 where r: "r0 \<in> set (db_rewrites db)" "r = ?f r0" by auto
    then show "canonical (w_scope_type r) (w_scope_values r)"
      using rewrites_okD(2) [OF ok r(1)] canon by simp
    fix q assume "q \<in> set (db_rewrites (db\<lparr>db_rewrites := map ?f (db_rewrites db)\<rparr>))"
    then obtain q0 where q: "q0 \<in> set (db_rewrites db)" "q = ?f q0" by auto
    assume o: "overlap r q"
    show "r = q"
    proof (cases "w_id r0 = rid")
      case True
      then have "r = ?change st vals cur" using only [OF r(1)] r(2) by simp
      with o q new [OF q(1)] only [OF q(1)] show ?thesis by (cases "w_id q0 = rid") auto
    next
      case False
      then have r0: "r = r0" using r(2) by simp
      show ?thesis
      proof (cases "w_id q0 = rid")
        case True
        then have "q = ?change st vals cur" using only [OF q(1)] q(2) by simp
        with o r0 new [OF r(1) False] overlap_sym [of r q] show ?thesis by auto
      next
        case F: False
        with o r0 q(2) rewrites_okD(3) [OF ok r(1) q(1)] show ?thesis by simp
      qed
    qed
  qed
  show ?thesis
  proof (cases "canonical_scope scope_type vs")
    case (Inl e)
    with ok show ?thesis by (simp add: handle_update_rewrite_def refuse_def)
  next
    case (Inr sv)
    obtain st vals where sv: "canonical_scope scope_type vs = Inr (st, vals)" using Inr by (cases sv) auto
    have canon: "canonical st vals" by (rule canonical_scope_Inr(1) [OF sv])
    have again: "canonical_scope st vs = Inr (st, vals)"
      using sv by (auto simp: canonical_scope_def Let_def split: if_splits)
    show ?thesis
    proof (cases "find (\<lambda>r. w_id r = rid) (list_rewrites db)")
      case None
      with ok sv show ?thesis by (simp add: handle_update_rewrite_def refuse_def)
    next
      case (Some cur)
      then have cur: "cur \<in> set (db_rewrites db)" "w_id cur = rid"
        by (auto simp: find_Some_iff list_rewrites_def set_conv_nth)
          (metis in_set_conv_nth length_sort nth_mem set_sort)
      let ?rows = "map (\<lambda>r. if w_id r = rid then ?change st vals r else r) (db_rewrites db)"
      let ?same = "list_ex (\<lambda>r. w_id r \<noteq> rid \<and> w_domain r = w_domain cur \<and> w_rrtype r = w_rrtype cur
          \<and> w_scope_type r = st \<and> w_scope_values r = vals) (list_rewrites db)"
      let ?conflict = "rewrite_scope_conflict (w_domain cur) (w_rrtype cur) st vals rid db"
      obtain res db' where up: "update_rewrite now rid val enabled st vs db = (res, db')" by fastforce
      have db': "db' = bump db \<or> distinct (map w_key ?rows) \<and> db' = bump (db\<lparr>db_rewrites := ?rows\<rparr>)"
        using up unfolding update_rewrite_def again sum.case prod.case Let_def
        by (simp del: map_map split: if_split_asm)
      have tail: "snd (snd (case update_rewrite now rid val enabled st vs db of
            (Some _, db) \<Rightarrow> refuse 500 db | (None, db) \<Rightarrow> (200, True, db))) = db'"
        by (simp add: up refuse_def split: option.split)
      have "snd (snd (handle_update_rewrite now rid val enabled scope_type vs source db)) \<in>
          (if ?same \<or> ?conflict then {db} else {db, db'})"
        unfolding handle_update_rewrite_def sv sum.case prod.case Some option.case Let_def
        using tail by (simp add: refuse_def)
      moreover have "rewrites_ok db'" if "\<not> ?same" "\<not> ?conflict"
        using db' main [OF canon cur that] ok by auto
      ultimately show ?thesis using ok by (auto split: if_splits)
    qed
  qed
qed

lemma delete_rewrite_ok: "rewrites_ok db \<Longrightarrow> rewrites_ok (delete_rewrite rid db)"
  by (simp add: delete_rewrite_def rewrites_ok_filter)

lemma detach_rewrite_ok: "rewrites_ok db \<Longrightarrow> rewrites_ok (snd (detach_rewrite now rid db))"
  by (auto simp: detach_rewrite_def intro!: rewrites_ok_map) (simp add: w_key_def)

text \<open>The writes of the rewrites table that the dashboard and the integrations make.\<close>

inductive rewrite_write :: "config_db \<Rightarrow> config_db \<Rightarrow> bool" where
  add: "rewrite_write db (snd (snd (handle_add_rewrite now inp db)))"
| edit: "rewrite_write db (snd (snd (handle_update_rewrite now rid val enabled scope_type vs source db)))"
| remove: "rewrite_write db (snd (snd (handle_delete_rewrite rid named db)))"
| detach: "rewrite_write db (snd (detach_rewrite now rid db))"
| wipe: "rewrite_write db (clear_rewrites db)"

lemma rewrite_write_ok: "rewrite_write db db' \<Longrightarrow> rewrites_ok db \<Longrightarrow> rewrites_ok db'"
proof (induction rule: rewrite_write.induct)
  case (remove db rid named)
  then show ?case
    by (simp add: handle_delete_rewrite_def refuse_def delete_rewrite_ok split: option.split)
next
  case (wipe db)
  then show ?case
    using rewrites_ok_filter [of db "\<lambda>_. False"] by (simp add: clear_rewrites_def)
qed (simp_all add: add_rewrite_handler_ok update_rewrite_handler_ok detach_rewrite_ok)

lemma rewrites_ok_empty: "rewrites_ok empty_db"
  by (simp add: rewrites_ok_def empty_db_def rewrite_table.good_def)

text \<open>
  C13: whatever sequence of creations, edits, deletions and detachments the API performs on
  the rewrites, ids and the unique key stay unique, every stored scope is canonical, and two
  rows of the same domain and record type whose scopes are of the same kind never share a
  node or site. This is what makes the winner of the per-node filtering unique.
\<close>

theorem rewrites_never_overlap:
  assumes "rewrite_write\<^sup>*\<^sup>* empty_db db"
  shows "rewrites_ok db"
  using assms by (induction rule: rtranclp_induct) (auto simp: rewrites_ok_empty rewrite_write_ok)

definition demo_rewrite :: rewrite_row where
  "demo_rewrite = manual_rewrite ''nas.lan'' ''A'' ''10.0.0.2'' scope_nodes [''n1'', ''n2'']"

theorem rewrites_never_overlap_witness:
  "rewrites_ok (snd (snd (handle_add_rewrite 5 demo_rewrite empty_db)))"
  by (rule rewrites_never_overlap) (rule r_into_rtranclp, rule rewrite_write.add)

text \<open>
  The import of a configuration bundle does not check scopes against each other: two
  imported rewrites of one name, scoped to node lists that share a node, are both stored, so
  a tie that the filtering takes for impossible is possible. It also enables every imported
  row, whatever its flag says.
\<close>

definition tied_rewrites :: "rewrite_row list" where
  "tied_rewrites =
     [(manual_rewrite ''nas.lan'' ''A'' ''10.0.0.2'' scope_nodes [''n1'', ''n2'']),
      (manual_rewrite ''nas.lan'' ''A'' ''10.0.0.3'' scope_nodes [''n1'', ''n3''])]"

theorem import_can_overlap:
  "\<not> rewrites_ok (snd (add_rewrites_bulk 5 tied_rewrites empty_db))
   \<and> map w_enabled tied_rewrites = [False, False]
   \<and> map w_enabled (db_rewrites (snd (add_rewrites_bulk 5 tied_rewrites empty_db))) = [True, True]"
proof -
  let ?db = "snd (add_rewrites_bulk 5 tied_rewrites empty_db)"
  let ?row = "\<lambda>i v vals. (manual_rewrite ''nas.lan'' ''A'' v scope_nodes vals)\<lparr>w_id := i, w_enabled := True, w_updated_at := 5\<rparr>"
  have rows: "db_rewrites ?db = [?row 1 ''10.0.0.2'' [''n1'', ''n2''], ?row 2 ''10.0.0.3'' [''n1'', ''n3'']]"
    by code_simp
  have "?row 1 ''10.0.0.2'' [''n1'', ''n2''] \<noteq> ?row 2 ''10.0.0.3'' [''n1'', ''n3'']"
    "overlap (?row 1 ''10.0.0.2'' [''n1'', ''n2'']) (?row 2 ''10.0.0.3'' [''n1'', ''n3''])"
    by (simp_all add: manual_rewrite_def overlap_def)
  with rewrites_okD(3) [of ?db] rows have "\<not> rewrites_ok ?db" by (metis list.set_intros(1,2))
  with rows show ?thesis by (simp add: tied_rewrites_def manual_rewrite_def)
qed

end
