(* ===== verification/Config_Versions.thy ===== *)
theory Config_Versions
  imports Config_Scopes
begin

section \<open>What a node is served, and its version\<close>

text \<open>
  Package \<open>store\<close>, \<open>cluster.go\<close>: the rules, rewrites and forwarders the control plane serves
  to one node, and the content hash by which an agent detects drift. SHA-256 is a parameter:
  \<open>dig\<close> stands for the first 12 hex digits of the hash of the bytes written to it. The two
  maps \<open>best\<close> and \<open>rank\<close> of the filters have the same keys and are one map here.
\<close>

subsection \<open>The enforced rules\<close>

definition verdict_rule :: "string \<times> string \<Rightarrow> rule_row" where
  [model]: "verdict_rule c =
     \<lparr>u_id = 0, u_action = ''deny'', u_domain = fst c,
      u_category = (if snd c = [] then ''ai'' else snd c), u_enabled = True, u_list_id = 0, u_updated_at = 0\<rparr>"

definition add_verdict :: "rule_row list \<times> string list \<Rightarrow> string \<times> string \<Rightarrow> rule_row list \<times> string list" where
  [model]: "add_verdict st c =
     (let (rules, seen) = st in
      if fst c \<in> set seen then (rules, seen) else (rules @ [verdict_rule c], fst c # seen))"

definition replicated_rules :: "config_db \<Rightarrow> rule_row list" where
  [model]: "replicated_rules db =
     (let rules = active_rules db; ai = active_ai_blocked db in
      if ai = [] then rules
      else (let ai_domains = map fst ai;
                seen = map u_domain (filter (\<lambda>r. u_action r = ''deny'' \<and> u_domain r \<in> set ai_domains) rules) in
            fst (foldl add_verdict (rules, seen) ai)))"

subsection \<open>One winner per name and type\<close>

definition effective_rank :: "rewrite_row \<Rightarrow> nat" where
  [model]: "effective_rank rw = scope_rank (w_scope_type rw) + (if w_enabled rw then 3 else 0)"

definition serves :: "string \<Rightarrow> string \<Rightarrow> rewrite_row \<Rightarrow> bool" where
  [model]: "serves node_name node_site rw \<longleftrightarrow>
     scope_matches (w_scope_type rw) (w_scope_values rw) node_name node_site"

definition scope_free :: "rewrite_row \<Rightarrow> rewrite_row" where
  [model]: "scope_free rw = rw\<lparr>w_scope_type := [], w_scope_values := [], w_source := [], w_external_id := []\<rparr>"

text \<open>The record with the highest rank of its key so far; the first one of equals.\<close>

definition keep_best ::
    "('r \<Rightarrow> 'k) \<Rightarrow> ('r \<Rightarrow> nat) \<Rightarrow> ('k \<times> nat \<times> 'r) list \<Rightarrow> 'r \<Rightarrow> ('k \<times> nat \<times> 'r) list" where
  [model]: "keep_best key rank best r =
     (if (case map_of best (key r) of None \<Rightarrow> 0 | Some (n, _) \<Rightarrow> n) < rank r
      then AList.update (key r) (rank r, r) best else best)"

definition rewrite_name :: "rewrite_row \<Rightarrow> string \<times> string" where
  [model]: "rewrite_name rw = (w_domain rw, w_rrtype rw)"

definition filter_rewrites_for_node :: "rewrite_row list \<Rightarrow> string \<Rightarrow> string \<Rightarrow> rewrite_row list" where
  [model]: "filter_rewrites_for_node all node_name node_site =
     (let best = foldl (keep_best rewrite_name effective_rank) [] (filter (serves node_name node_site) all) in
      sort_key rewrite_name (map (\<lambda>e. scope_free (snd (snd e))) best))"

definition list_rewrites_for_node :: "config_db \<Rightarrow> string \<Rightarrow> string \<Rightarrow> rewrite_row list" where
  [model]: "list_rewrites_for_node db node_name node_site =
     filter_rewrites_for_node (list_rewrites db) node_name node_site"

type_synonym forward_spec = "string \<times> string list"

definition forwarder_serves :: "string \<Rightarrow> string \<Rightarrow> forwarder_row \<Rightarrow> bool" where
  [model]: "forwarder_serves node_name node_site f \<longleftrightarrow>
     f_enabled f \<and> scope_matches (f_scope_type f) (f_scope_values f) node_name node_site"

definition filter_forwarders_for_node :: "forwarder_row list \<Rightarrow> string \<Rightarrow> string \<Rightarrow> forward_spec list" where
  [model]: "filter_forwarders_for_node all node_name node_site =
     (let best = foldl (keep_best f_suffix (\<lambda>f. scope_rank (f_scope_type f))) []
                   (filter (forwarder_serves node_name node_site) all) in
      sort_key fst (map (\<lambda>e. (f_suffix (snd (snd e)), f_upstreams (snd (snd e)))) best))"

definition list_forwarders_for_node :: "config_db \<Rightarrow> string \<Rightarrow> string \<Rightarrow> forward_spec list" where
  [model]: "list_forwarders_for_node db node_name node_site =
     filter_forwarders_for_node (list_forwarders db) node_name node_site"

subsection \<open>The hash\<close>

definition format_bool :: "bool \<Rightarrow> string" where
  [model]: "format_bool b = (if b then ''true'' else ''false'')"

definition rule_line :: "rule_row \<Rightarrow> string" where
  [model]: "rule_line r =
     ''R|'' @ u_action r @ ''|'' @ u_domain r @ ''|'' @ u_category r @ ''|'' @ format_bool (u_enabled r)"

definition rewrite_line :: "rewrite_row \<Rightarrow> string" where
  [model]: "rewrite_line rw =
     ''W|'' @ w_domain rw @ ''|'' @ w_rrtype rw @ ''|'' @ w_value rw @ ''|'' @ format_bool (w_enabled rw)"

definition forward_line :: "forward_spec \<Rightarrow> string" where
  [model]: "forward_line f = ''F|'' @ fst f @ ''|'' @ join_with '','' (snd f)"

text \<open>
  The lines are streamed through a buffer of 64 KiB: \<open>sent\<close> is what was written to the hash,
  \<open>buf\<close> what is buffered and \<open>cap\<close> the capacity, which grows with a line that is longer.
\<close>

definition newline :: char where "newline = CHR 0x0A"

fun stream_lines :: "bool \<Rightarrow> string list \<Rightarrow> string \<Rightarrow> string \<Rightarrow> nat \<Rightarrow> string" where
  "stream_lines first [] sent buf cap = sent @ buf"
| "stream_lines first (l # ls) sent buf cap =
     (let flush = buf \<noteq> [] \<and> length buf + length l + 1 > cap;
          sent = (if flush then sent @ buf else sent);
          buf = (if flush then [] else buf) @ (if first then [] else [newline]) @ l in
      stream_lines False ls sent buf (max cap (length buf)))"

definition hash_lines :: "(string \<Rightarrow> string) \<Rightarrow> string list \<Rightarrow> string" where
  [model]: "hash_lines dig lines = dig (stream_lines True (sort lines) [] [] 65536)"

definition config_lines :: "rule_row list \<Rightarrow> rewrite_row list \<Rightarrow> forward_spec list \<Rightarrow> string list" where
  [model]: "config_lines rules rewrites fws =
     map rule_line rules @ map rewrite_line rewrites @ map forward_line fws"

definition config_hash ::
    "(string \<Rightarrow> string) \<Rightarrow> rule_row list \<Rightarrow> rewrite_row list \<Rightarrow> forward_spec list \<Rightarrow> string" where
  [model]: "config_hash dig rules rewrites fws = hash_lines dig (config_lines rules rewrites fws)"

definition config_version_for_node :: "(string \<Rightarrow> string) \<Rightarrow> config_db \<Rightarrow> string \<Rightarrow> string \<Rightarrow> string" where
  [model]: "config_version_for_node dig db node_name node_site =
     config_hash dig (replicated_rules db) (list_rewrites_for_node db node_name node_site)
       (list_forwarders_for_node db node_name node_site)"

text \<open>All nodes in one pass: nodes with the same node-specific lines share one hash.\<close>

definition node_lines :: "config_db \<Rightarrow> string \<times> string \<Rightarrow> string list" where
  [model]: "node_lines db n =
     map rewrite_line (filter_rewrites_for_node (list_rewrites db) (fst n) (snd n))
     @ map forward_line (filter_forwarders_for_node (list_forwarders db) (fst n) (snd n))"

definition version_step ::
    "(string \<Rightarrow> string) \<Rightarrow> config_db \<Rightarrow> string list \<Rightarrow> (string \<times> string) list \<times> (string \<times> string) list
     \<Rightarrow> string \<times> string \<Rightarrow> (string \<times> string) list \<times> (string \<times> string) list" where
  [model]: "version_step dig db rule_lines st n =
     (let (memo, out) = st; lines = node_lines db n; memo_key = join_with [newline] lines in
      case map_of memo memo_key of
        Some h \<Rightarrow> (memo, AList.update (fst n) h out)
      | None \<Rightarrow> (let h = hash_lines dig (rule_lines @ lines) in
                 (AList.update memo_key h memo, AList.update (fst n) h out)))"

definition config_versions_for_nodes ::
    "(string \<Rightarrow> string) \<Rightarrow> config_db \<Rightarrow> (string \<times> string) list \<Rightarrow> (string \<times> string) list" where
  [model]: "config_versions_for_nodes dig db nodes =
     snd (foldl (version_step dig db (map rule_line (replicated_rules db))) ([], []) nodes)"

subsection \<open>The hash does not depend on the order\<close>

lemma stream_lines_join:
  "sent @ buf = join_with [newline] pre \<Longrightarrow>
     stream_lines (pre = []) ls sent buf cap = join_with [newline] (pre @ ls)"
proof (induction ls arbitrary: pre sent buf cap)
  case Nil
  then show ?case by simp
next
  case (Cons l ls)
  let ?flush = "buf \<noteq> [] \<and> length buf + length l + 1 > cap"
  let ?sent = "if ?flush then sent @ buf else sent"
  let ?buf = "(if ?flush then [] else buf) @ (if pre = [] then [] else [newline]) @ l"
  have all: "?sent @ ?buf = join_with [newline] (pre @ [l])"
    using Cons.prems by (cases "pre = []") (auto simp: join_snoc)
  have "stream_lines ((pre @ [l]) = []) ls ?sent ?buf (max cap (length ?buf))
      = join_with [newline] ((pre @ [l]) @ ls)"
    by (rule Cons.IH [OF all])
  then show ?case by (simp add: Let_def cong: if_cong)
qed

lemma hash_lines_join: "hash_lines dig lines = dig (join_with [newline] (sort lines))"
  using stream_lines_join [of "[]" "[]" "[]" "sort lines" 65536] by (simp add: hash_lines_def)

lemma hash_lines_mset: "mset ls = mset ls' \<Longrightarrow> hash_lines dig ls = hash_lines dig ls'"
proof -
  assume "mset ls = mset ls'"
  then have "sort ls = sort ls'" by (simp add: properties_for_sort)
  then show ?thesis by (simp add: hash_lines_def)
qed

subsection \<open>The winner of a key\<close>

text \<open>What the loop with the maps \<open>best\<close> and \<open>rank\<close> computes, for rewrites and forwarders.\<close>

locale best_per_key =
  fixes key :: "'r \<Rightarrow> 'k" and rank :: "'r \<Rightarrow> nat"
  assumes rank_pos: "0 < rank r"
begin

definition winners :: "'r list \<Rightarrow> ('k \<times> nat \<times> 'r) list" where
  "winners rows = foldl (keep_best key rank) [] rows"

lemma winners_invariant:
  "distinct (map fst (winners rows))
   \<and> (\<forall>k n r. map_of (winners rows) k = Some (n, r) \<longrightarrow>
        key r = k \<and> n = rank r \<and> r \<in> set rows \<and> (\<forall>q\<in>set rows. key q = k \<longrightarrow> rank q \<le> n))
   \<and> (\<forall>q\<in>set rows. map_of (winners rows) (key q) \<noteq> None)"
proof (induction rows rule: rev_induct)
  case Nil
  then show ?case by (simp add: winners_def)
next
  case (snoc x rows)
  have D: "distinct (map fst (winners rows))"
    using snoc.IH by blast
  have C: "q \<in> set rows \<Longrightarrow> map_of (winners rows) (key q) \<noteq> None" for q
    using snoc.IH by blast
  have S: "map_of (winners rows) k = Some (n, r) \<Longrightarrow>
      key r = k \<and> n = rank r \<and> r \<in> set rows \<and> (\<forall>q\<in>set rows. key q = k \<longrightarrow> rank q \<le> n)" for k n r
    using snoc.IH by blast
  have step: "winners (rows @ [x]) = keep_best key rank (winners rows) x"
    by (simp add: winners_def)
  show ?case
  proof (cases "(case map_of (winners rows) (key x) of None \<Rightarrow> 0 | Some (n, _) \<Rightarrow> n) < rank x")
    case True
    then have new: "winners (rows @ [x]) = AList.update (key x) (rank x, x) (winners rows)"
      by (simp add: step keep_best_def)
    have top: "rank q \<le> rank x" if q: "q \<in> set rows" "key q = key x" for q
    proof -
      obtain n r where nr: "map_of (winners rows) (key x) = Some (n, r)"
        using C [OF q(1)] q(2) by auto
      with S [OF nr] q have "rank q \<le> n" by blast
      with True nr show ?thesis by simp
    qed
    have look: "map_of (winners (rows @ [x])) k = (if k = key x then Some (rank x, x) else map_of (winners rows) k)" for k
      by (simp add: new update_conv')
    show ?thesis
    proof (intro conjI allI impI ballI)
      show "distinct (map fst (winners (rows @ [x])))"
        unfolding new by (rule distinct_update [OF D])
    next
      fix q assume "q \<in> set (rows @ [x])"
      then show "map_of (winners (rows @ [x])) (key q) \<noteq> None"
        using C [of q] look [of "key q"] by (cases "q = x") simp_all
    next
      fix k n r assume m: "map_of (winners (rows @ [x])) k = Some (n, r)"
      have "(key r = k \<and> n = rank r \<and> r \<in> set (rows @ [x])) \<and> (\<forall>q\<in>set (rows @ [x]). key q = k \<longrightarrow> rank q \<le> n)"
      proof (cases "k = key x")
        case True
        with m look [of k] top show ?thesis by auto
      next
        case F: False
        with m look [of k] have "map_of (winners rows) k = Some (n, r)" by simp
        from S [OF this] F show ?thesis by auto
      qed
      then show "key r = k" "n = rank r" "r \<in> set (rows @ [x])"
        "\<And>q. q \<in> set (rows @ [x]) \<Longrightarrow> key q = k \<Longrightarrow> rank q \<le> n" by blast+
    qed
  next
    case False
    then have same: "winners (rows @ [x]) = winners rows"
      by (simp add: step keep_best_def)
    obtain n r where nr: "map_of (winners rows) (key x) = Some (n, r)"
      using False rank_pos [of x] by (auto split: option.splits)
    with False have "rank x \<le> n" by simp
    show ?thesis
      unfolding same
    proof (intro conjI allI impI ballI)
      show "distinct (map fst (winners rows))" by (rule D)
    next
      fix q assume "q \<in> set (rows @ [x])"
      then show "map_of (winners rows) (key q) \<noteq> None"
        using C [of q] nr by (cases "q = x") simp_all
    next
      fix k n' r' assume m: "map_of (winners rows) k = Some (n', r')"
      with nr \<open>rank x \<le> n\<close> have "key x = k \<longrightarrow> rank x \<le> n'" by auto
      with S [OF m] show "key r' = k" "n' = rank r'" "r' \<in> set (rows @ [x])"
        "\<And>q. q \<in> set (rows @ [x]) \<Longrightarrow> key q = k \<Longrightarrow> rank q \<le> n'" by auto
    qed
  qed
qed

lemma winners_key: "(k, n, r) \<in> set (winners rows) \<Longrightarrow> key r = k"
  using winners_invariant [of rows] by (metis map_of_eq_Some_iff)

lemma winners_distinct: "distinct (map fst (winners rows))"
  using winners_invariant by blast

lemma winner_iff:
  assumes strict: "\<And>q r. q \<in> set rows \<Longrightarrow> r \<in> set rows \<Longrightarrow> key q = key r \<Longrightarrow> rank q = rank r \<Longrightarrow> q = r"
  shows "r \<in> (snd \<circ> snd) ` set (winners rows) \<longleftrightarrow>
    r \<in> set rows \<and> (\<forall>q\<in>set rows. key q = key r \<longrightarrow> q = r \<or> rank q < rank r)"
proof
  assume "r \<in> (snd \<circ> snd) ` set (winners rows)"
  then obtain k n where "(k, n, r) \<in> set (winners rows)" by force
  then have m: "map_of (winners rows) k = Some (n, r)"
    using winners_distinct by simp
  then have r: "key r = k" "n = rank r" "r \<in> set rows" "\<And>q. q \<in> set rows \<Longrightarrow> key q = k \<Longrightarrow> rank q \<le> n"
    using winners_invariant [of rows] by blast+
  then show "r \<in> set rows \<and> (\<forall>q\<in>set rows. key q = key r \<longrightarrow> q = r \<or> rank q < rank r)"
    using strict [of _ r] by (metis le_neq_implies_less)
next
  assume r: "r \<in> set rows \<and> (\<forall>q\<in>set rows. key q = key r \<longrightarrow> q = r \<or> rank q < rank r)"
  then obtain n q where m: "map_of (winners rows) (key r) = Some (n, q)"
    using winners_invariant [of rows] by (metis not_None_eq surj_pair)
  then have q: "key q = key r" "n = rank q" "q \<in> set rows" "rank r \<le> n"
    using winners_invariant [of rows] r by blast+
  then have "q = r" using r by force
  then show "r \<in> (snd \<circ> snd) ` set (winners rows)"
    using map_of_SomeD [OF m] by force
qed

end

lemma scope_rank_bounds: "1 \<le> scope_rank st" "scope_rank st \<le> 3"
  by (simp_all add: scope_rank_def)

interpretation rewrite_winner: best_per_key rewrite_name effective_rank
  using scope_rank_bounds by unfold_locales (simp add: effective_rank_def Suc_le_eq)

interpretation forwarder_winner: best_per_key f_suffix "\<lambda>f. scope_rank (f_scope_type f)"
  using scope_rank_bounds by unfold_locales (simp add: Suc_le_eq)

definition beats :: "rewrite_row \<Rightarrow> rewrite_row \<Rightarrow> bool" where
  "beats rw q \<longleftrightarrow> (w_enabled rw \<and> \<not> w_enabled q)
     \<or> (w_enabled rw = w_enabled q \<and> scope_rank (w_scope_type q) < scope_rank (w_scope_type rw))"

lemma effective_rank_beats: "effective_rank q < effective_rank rw \<longleftrightarrow> beats rw q"
  using scope_rank_bounds [of "w_scope_type q"] scope_rank_bounds [of "w_scope_type rw"]
  by (auto simp: effective_rank_def beats_def)

lemma effective_rank_eq:
  "effective_rank q = effective_rank rw \<longleftrightarrow>
     w_enabled q = w_enabled rw \<and> scope_rank (w_scope_type q) = scope_rank (w_scope_type rw)"
  using scope_rank_bounds [of "w_scope_type q"] scope_rank_bounds [of "w_scope_type rw"]
  by (auto simp: effective_rank_def)

lemma same_rank_overlap:
  assumes "canonical (w_scope_type q) (w_scope_values q)" "canonical (w_scope_type r) (w_scope_values r)"
    and "rewrite_name q = rewrite_name r" "scope_rank (w_scope_type q) = scope_rank (w_scope_type r)"
    and "serves node site q" "serves node site r"
  shows "overlap q r"
  using assms
  by (auto simp: overlap_def canonical_def serves_def rewrite_name_def scope_rank_def scope_matches_def
      scope_contains_def split: if_splits)

lemma set_list_rewrites [simp]: "set (list_rewrites db) = set (db_rewrites db)"
  by (simp add: list_rewrites_def)

lemma served_names_distinct: "distinct (map rewrite_name (list_rewrites_for_node db node site))"
proof -
  let ?rows = "filter (serves node site) (list_rewrites db)"
  let ?best = "rewrite_winner.winners ?rows"
  have eq: "list_rewrites_for_node db node site = sort_key rewrite_name (map (\<lambda>e. scope_free (snd (snd e))) ?best)"
    by (simp add: list_rewrites_for_node_def filter_rewrites_for_node_def rewrite_winner.winners_def)
  have keys: "map rewrite_name (map (\<lambda>e. scope_free (snd (snd e))) ?best) = map fst ?best"
    using rewrite_winner.winners_key [of _ _ _ ?rows] by (auto simp: rewrite_name_def scope_free_def)
  have "distinct (map rewrite_name (sort_key rewrite_name rows))" if "distinct (map rewrite_name rows)" for rows
    using that by (metis distinct_map distinct_sort set_sort)
  then show ?thesis
    using rewrite_winner.winners_distinct [of ?rows] keys by (simp add: eq del: map_map)
qed

text \<open>
  C14: per domain and record type, a node is served exactly one of the rewrites that reach
  it: the enabled one with the most specific scope; a disabled one only when nothing enabled
  reaches the node, and then again the most specific.
\<close>

theorem node_rewrite_winner:
  assumes ok: "rewrites_ok db"
  shows "distinct (map rewrite_name (list_rewrites_for_node db node site))
    \<and> (r \<in> set (list_rewrites_for_node db node site) \<longleftrightarrow>
      (\<exists>rw\<in>set (db_rewrites db). r = scope_free rw \<and> serves node site rw
        \<and> (\<forall>q\<in>set (db_rewrites db). serves node site q \<and> rewrite_name q = rewrite_name rw
              \<longrightarrow> q = rw \<or> beats rw q)))"
proof -
  let ?rows = "filter (serves node site) (list_rewrites db)"
  let ?best = "rewrite_winner.winners ?rows"
  have eq: "list_rewrites_for_node db node site = sort_key rewrite_name (map (\<lambda>e. scope_free (snd (snd e))) ?best)"
    by (simp add: list_rewrites_for_node_def filter_rewrites_for_node_def rewrite_winner.winners_def)
  have strict: "q = r" if "q \<in> set ?rows" "r \<in> set ?rows" "rewrite_name q = rewrite_name r"
      "effective_rank q = effective_rank r" for q r
    using that same_rank_overlap [of q r node site] rewrites_okD(2,3) [OF ok]
    by (simp add: effective_rank_eq)
  have "set (list_rewrites_for_node db node site) = scope_free ` (snd \<circ> snd) ` set ?best"
    by (simp add: eq image_image)
  then have "r \<in> set (list_rewrites_for_node db node site) \<longleftrightarrow>
      (\<exists>rw. rw \<in> (snd \<circ> snd) ` set ?best \<and> r = scope_free rw)"
    by (simp only: image_iff) blast
  also have "\<dots> \<longleftrightarrow> (\<exists>rw. (rw \<in> set ?rows \<and> (\<forall>q\<in>set ?rows. rewrite_name q = rewrite_name rw
      \<longrightarrow> q = rw \<or> beats rw q)) \<and> r = scope_free rw)"
    by (simp only: rewrite_winner.winner_iff [OF strict] effective_rank_beats)
  finally have "r \<in> set (list_rewrites_for_node db node site) \<longleftrightarrow>
      (\<exists>rw\<in>set (db_rewrites db). r = scope_free rw \<and> serves node site rw
        \<and> (\<forall>q\<in>set (db_rewrites db). serves node site q \<and> rewrite_name q = rewrite_name rw
              \<longrightarrow> q = rw \<or> beats rw q))"
    by (simp only: set_filter mem_Collect_eq set_list_rewrites) blast
  then show ?thesis by (rule conjI [OF served_names_distinct])
qed

theorem node_rewrite_winner_witness:
  "map w_value (list_rewrites_for_node (snd (snd (handle_add_rewrite 5 demo_rewrite empty_db))) ''n1'' [])
     = [''10.0.0.2'']
   \<and> distinct (map rewrite_name
       (list_rewrites_for_node (snd (snd (handle_add_rewrite 5 demo_rewrite empty_db))) ''n1'' []))"
proof -
  let ?db = "snd (snd (handle_add_rewrite 5 demo_rewrite empty_db))"
  have "rewrites_ok ?db"
    by (rule rewrite_write_ok [OF rewrite_write.add rewrites_ok_empty])
  note node_rewrite_winner [OF this, THEN conjunct1, of "''n1''" "[]"]
  moreover have "map w_value (list_rewrites_for_node ?db ''n1'' []) = [''10.0.0.2'']"
    by code_simp
  ultimately show ?thesis by simp
qed

text \<open>With the overlapping rows an import can leave, the first of the tied rows is served.\<close>

lemma tie_first_wins:
  "map w_value (list_rewrites_for_node (snd (add_rewrites_bulk 5 tied_rewrites empty_db)) ''n1'' []) = [''10.0.0.2'']"
  by code_simp

lemma distinct_sort_key: "distinct (map f (sort_key g xs)) \<longleftrightarrow> distinct (map f xs)"
  by (simp add: distinct_map)

lemma list_forwarders_for_node_distinct: "distinct (map fst (list_forwarders_for_node db node site))"
proof -
  let ?rows = "filter (forwarder_serves node site) (list_forwarders db)"
  let ?best = "forwarder_winner.winners ?rows"
  have eq: "list_forwarders_for_node db node site =
      sort_key fst (map (\<lambda>e. (f_suffix (snd (snd e)), f_upstreams (snd (snd e)))) ?best)"
    by (simp add: list_forwarders_for_node_def filter_forwarders_for_node_def forwarder_winner.winners_def)
  have "map fst (map (\<lambda>e. (f_suffix (snd (snd e)), f_upstreams (snd (snd e)))) ?best) = map fst ?best"
    using forwarder_winner.winners_key [of _ _ _ ?rows] by auto
  then show ?thesis
    using forwarder_winner.winners_distinct [of ?rows]
    by (simp add: eq distinct_sort_key del: map_map)
qed

subsection \<open>The replicated rules\<close>

definition rules_ok :: "config_db \<Rightarrow> bool" where
  "rules_ok db \<longleftrightarrow> rule_table.good (db_rules db, db_rules_seq db) \<and> (\<forall>r\<in>set (db_rules db). u_category r \<noteq> [])"

lemma set_active_rules [simp]: "set (active_rules db) = {r \<in> set (db_rules db). active_rule db r}"
  by (simp add: active_rules_def)

lemma active_rules_distinct: "rules_ok db \<Longrightarrow> distinct (map u_key (active_rules db))"
  by (simp add: rules_ok_def rule_table.good_def active_rules_def distinct_sort_key distinct_map_filter)

text \<open>The verdicts that become rules: the first one of each domain not denied already.\<close>

fun fresh_verdicts :: "string list \<Rightarrow> (string \<times> string) list \<Rightarrow> (string \<times> string) list" where
  "fresh_verdicts seen [] = []"
| "fresh_verdicts seen (c # ai) =
     (if fst c \<in> set seen then fresh_verdicts seen ai else c # fresh_verdicts (fst c # seen) ai)"

lemma add_verdicts: "fst (foldl add_verdict (rules, seen) ai) = rules @ map verdict_rule (fresh_verdicts seen ai)"
  by (induction ai arbitrary: rules seen) (auto simp: add_verdict_def Let_def)

lemma fresh_verdicts_seen: "c \<in> set (fresh_verdicts seen ai) \<Longrightarrow> c \<in> set ai \<and> fst c \<notin> set seen"
  by (induction seen ai rule: fresh_verdicts.induct) (auto split: if_splits)

lemma fresh_verdicts_distinct: "distinct (map fst (fresh_verdicts seen ai))"
proof (induction seen ai rule: fresh_verdicts.induct)
  case (2 seen c ai)
  then show ?case by (auto dest: fresh_verdicts_seen)
qed simp

lemma fresh_verdicts_all: "c \<in> set ai \<Longrightarrow> fst c \<in> set seen \<union> fst ` set (fresh_verdicts seen ai)"
  by (induction seen ai rule: fresh_verdicts.induct) auto

definition denied_already :: "config_db \<Rightarrow> string list" where
  "denied_already db = map u_domain (filter (\<lambda>r. u_action r = ''deny''
     \<and> u_domain r \<in> set (map fst (active_ai_blocked db))) (active_rules db))"

lemma set_denied_already:
  "d \<in> set (denied_already db) \<longleftrightarrow> d \<in> fst ` set (active_ai_blocked db)
     \<and> (\<exists>q\<in>set (db_rules db). active_rule db q \<and> u_action q = ''deny'' \<and> u_domain q = d)"
  by (auto simp: denied_already_def)

lemma replicated_rules_append:
  "replicated_rules db =
     active_rules db @ map verdict_rule (fresh_verdicts (denied_already db) (active_ai_blocked db))"
  by (simp add: replicated_rules_def Let_def add_verdicts denied_already_def)

lemma verdict_rule_simps [simp]:
  "u_key (verdict_rule c) = (''deny'', fst c)" "u_action (verdict_rule c) = ''deny''"
  "u_domain (verdict_rule c) = fst c" "u_enabled (verdict_rule c)" "u_category (verdict_rule c) \<noteq> []"
  by (simp_all add: verdict_rule_def u_key_def)

lemma replicated_rules_distinct:
  assumes "rules_ok db"
  shows "distinct (map u_key (replicated_rules db))"
proof -
  let ?new = "fresh_verdicts (denied_already db) (active_ai_blocked db)"
  have "map u_key (map verdict_rule ?new) = map (Pair ''deny'') (map fst ?new)" by simp
  then have "distinct (map u_key (map verdict_rule ?new))"
    using fresh_verdicts_distinct by (simp add: distinct_map inj_on_def del: map_map)
  moreover have "u_key r \<noteq> (''deny'', fst c)" if "r \<in> set (active_rules db)" "c \<in> set ?new" for r c
    using that(1) fresh_verdicts_seen [OF that(2)] by (auto simp: u_key_def set_denied_already)
  ultimately show ?thesis
    using active_rules_distinct [OF assms] by (fastforce simp: replicated_rules_append simp del: map_map)
qed

lemma enforced_verdict_served:
  assumes c: "c \<in> set (db_verdicts db)" "enforced c"
  shows "\<exists>r\<in>set (replicated_rules db). u_action r = ''deny'' \<and> u_domain r = v_domain c \<and> u_enabled r"
proof -
  have "(v_domain c, v_category c) \<in> set (active_ai_blocked db)" using c by (simp add: active_ai_blocked_def)
  from fresh_verdicts_all [OF this, of "denied_already db"]
  consider q where "q \<in> set (db_rules db)" "active_rule db q" "u_action q = ''deny''" "u_domain q = v_domain c"
    | d where "d \<in> set (fresh_verdicts (denied_already db) (active_ai_blocked db))" "fst d = v_domain c"
    by (auto simp: set_denied_already)
  then show ?thesis
  proof cases
    case 1
    then show ?thesis by (auto simp: replicated_rules_append active_rule_def)
  next
    case 2
    then have "verdict_rule d \<in> set (replicated_rules db)" by (simp add: replicated_rules_append)
    with 2(2) show ?thesis by (intro bexI [of _ "verdict_rule d"]) simp_all
  qed
qed

text \<open>
  C15: the rules a node enforces are the active rules plus one deny rule for every enforced
  verdict of the classifier whose domain no active rule denies, tagged with the verdict's
  category; no two of them have the same action and domain.
\<close>

theorem replicated_rules_enforce:
  assumes "rules_ok db"
  shows "distinct (map u_key (replicated_rules db))
    \<and> (\<forall>r\<in>set (db_rules db). active_rule db r \<longrightarrow> r \<in> set (replicated_rules db))
    \<and> (\<forall>c\<in>set (db_verdicts db). enforced c \<longrightarrow>
        (\<exists>r\<in>set (replicated_rules db). u_action r = ''deny'' \<and> u_domain r = v_domain c \<and> u_enabled r))
    \<and> (\<forall>r\<in>set (replicated_rules db). r \<in> set (db_rules db) \<and> active_rule db r
        \<or> (\<exists>c\<in>set (db_verdicts db). enforced c \<and> r = verdict_rule (v_domain c, v_category c)
             \<and> (\<forall>q\<in>set (db_rules db). active_rule db q \<and> u_action q = ''deny'' \<longrightarrow> u_domain q \<noteq> v_domain c)))"
proof (intro conjI ballI impI)
  let ?ai = "active_ai_blocked db"
  show "distinct (map u_key (replicated_rules db))"
    by (rule replicated_rules_distinct [OF assms])
  show "r \<in> set (replicated_rules db)" if "r \<in> set (db_rules db)" "active_rule db r" for r
    using that by (simp add: replicated_rules_append)
  show "\<exists>r\<in>set (replicated_rules db). u_action r = ''deny'' \<and> u_domain r = v_domain c \<and> u_enabled r"
    if "c \<in> set (db_verdicts db)" "enforced c" for c
    using that by (rule enforced_verdict_served)
  {
    fix r
    assume "r \<in> set (replicated_rules db)"
    then consider "r \<in> set (db_rules db)" "active_rule db r"
      | c where "c \<in> set (fresh_verdicts (denied_already db) ?ai)" "r = verdict_rule c"
      by (auto simp: replicated_rules_append)
    then show "r \<in> set (db_rules db) \<and> active_rule db r
      \<or> (\<exists>c\<in>set (db_verdicts db). enforced c \<and> r = verdict_rule (v_domain c, v_category c)
           \<and> (\<forall>q\<in>set (db_rules db). active_rule db q \<and> u_action q = ''deny'' \<longrightarrow> u_domain q \<noteq> v_domain c))"
    proof cases
      case 2
      note f = fresh_verdicts_seen [OF 2(1)]
      then obtain v where v: "v \<in> set (db_verdicts db)" "enforced v" "c = (v_domain v, v_category v)"
        by (auto simp: active_ai_blocked_def)
      have "u_domain q \<noteq> v_domain v" if "q \<in> set (db_rules db)" "active_rule db q" "u_action q = ''deny''" for q
        using f v(3) that set_denied_already [of "v_domain v" db] by force
      with v 2(2) show ?thesis by blast
    qed simp
  }
qed

subsection \<open>What the writes of the rules keep\<close>

lemma rules_ok_bump [simp]: "rules_ok (bump db) = rules_ok db"
  by (simp add: rules_ok_def bump_def)

definition rows_ok :: "rule_row list \<times> int \<Rightarrow> bool" where
  "rows_ok t \<longleftrightarrow> rule_table.good t \<and> (\<forall>r\<in>set (fst t). u_category r \<noteq> [])"

lemma rules_ok_rows: "rules_ok db \<longleftrightarrow> rows_ok (db_rules db, db_rules_seq db)"
  by (simp add: rules_ok_def rows_ok_def)

lemma or_custom_nonempty [simp]: "or_custom c \<noteq> []"
  by (simp add: or_custom_def)

lemma rows_ok_upsert:
  assumes "rows_ok t" and "category \<noteq> []" and m: "m = merge_rule \<or> m = merge_listed"
  shows "rows_ok (upsert u_key m (new_rule (action, domain, category, list_id, now)) t)"
proof -
  have "rule_table.good (upsert u_key m (new_rule (action, domain, category, list_id, now)) t)"
    using m assms(1) rule_table.good_upsert [of t] listed_table.good_upsert [of t] by (auto simp: rows_ok_def)
  moreover have "\<forall>r\<in>set (fst (upsert u_key m (new_rule (action, domain, category, list_id, now)) t)). u_category r \<noteq> []"
    using m assms(1,2)
    by (cases t) (auto simp: rows_ok_def upsert_def Let_def new_rule_def merge_rule_def merge_listed_def)
  ultimately show ?thesis by (simp add: rows_ok_def)
qed

lemma rows_ok_foldl:
  assumes "\<And>t r. rows_ok t \<Longrightarrow> rows_ok (f t r)"
  shows "rows_ok t \<Longrightarrow> rows_ok (foldl f t rs)"
  using assms by (induction rs arbitrary: t) auto

lemma rows_ok_filter: "rows_ok (rows, seq) \<Longrightarrow> rows_ok (filter P rows, seq)"
  by (auto simp: rows_ok_def rule_table.good_filter)

inductive rule_write :: "config_db \<Rightarrow> config_db \<Rightarrow> bool" where
  add: "rule_write db (snd (add_rule_row now action domain category db))"
| bulk: "rule_write db (snd (add_rules_bulk now rs db))"
| remove: "rule_write db (delete_rule rid db)"
| wipe: "rule_write db (clear_rules db)"
| replace: "rule_write db (snd (replace_list_rules now list_id category rs db))"
| drop_list: "rule_write db (delete_list rid db)"

lemma rule_write_ok: "rule_write db db' \<Longrightarrow> rules_ok db \<Longrightarrow> rules_ok db'"
proof (induction rule: rule_write.induct)
  case (add db now action domain category)
  then show ?case
    using rows_ok_upsert [of "(db_rules db, db_rules_seq db)" "or_custom category" merge_rule action domain 0 now]
    by (auto simp: add_rule_row_def rules_ok_rows Let_def split: prod.splits option.splits)
next
  case (bulk db now rs)
  then show ?case
    using rows_ok_foldl [of "import_rule now" "(db_rules db, db_rules_seq db)" rs]
    by (auto simp: add_rules_bulk_def rules_ok_rows import_rule_def rows_ok_upsert split: prod.splits)
next
  case (replace db now list_id category rs)
  then show ?case
    using rows_ok_foldl [of "replace_rule now list_id (or_custom category)"
        "(filter (\<lambda>r. u_list_id r \<noteq> list_id) (db_rules db), db_rules_seq db)" rs]
    by (auto simp: replace_list_rules_def rules_ok_rows replace_rule_def rows_ok_upsert rows_ok_filter
        split: prod.splits)
next
  case (wipe db)
  then show ?case
    using rows_ok_filter [of "db_rules db" "db_rules_seq db" "\<lambda>_. False"] by (simp add: clear_rules_def rules_ok_rows)
qed (simp_all add: delete_rule_def delete_list_def rules_ok_rows rows_ok_filter)

lemma rules_ok_empty: "rules_ok empty_db"
  by (simp add: rules_ok_def empty_db_def rule_table.good_def)

theorem replicated_rules_enforce_witness:
  "distinct (map u_key (replicated_rules (snd (add_rule_row 5 ''deny'' ''ads.example'' [] empty_db))))"
  using replicated_rules_enforce [OF rule_write_ok [OF rule_write.add rules_ok_empty]] by (rule conjunct1)

text \<open>
  A rule that the operator adds by hand for a domain that already belongs to a disabled
  list is stored as enabled and reported as added, but it stays a row of that list: it is not
  active, so it is not enforced.
\<close>

definition listed_db :: config_db where
  "listed_db = set_list_enabled 3 1 False
     (snd (replace_list_rules 2 1 ''ads''
        [\<lparr>u_id = 0, u_action = ''deny'', u_domain = ''ads.example'', u_category = [], u_enabled = True,
          u_list_id = 0, u_updated_at = 0\<rparr>]
        (snd (create_list 1 ''l'' ''paste'' [] ''ads'' 0 empty_db))))"

theorem manual_rule_of_disabled_list:
  "fst (add_rule_row 9 ''deny'' ''ads.example'' [] listed_db) = Inr 1
   \<and> map u_enabled (db_rules (snd (add_rule_row 9 ''deny'' ''ads.example'' [] listed_db))) = [True]
   \<and> replicated_rules (snd (add_rule_row 9 ''deny'' ''ads.example'' [] listed_db)) = []"
  by (intro conjI) code_simp+

end
