(* ===== verification/Version_Cache.thy ===== *)
theory Version_Cache
  imports Config_Versions
begin

section \<open>The cache of configuration versions\<close>

text \<open>
  Package \<open>store\<close>, \<open>configcache.go\<close>: the versions of the nodes, memoized for the current
  generation of the configuration, and the batch that computes them for many nodes. The
  second part is the concurrent program: a write becomes visible and moves the generation
  only later, while polls read the generation, load, hash and store in between.
\<close>

subsection \<open>The operations\<close>

definition config_version_ttl :: duration where
  [model]: "config_version_ttl = 5 * minute"

record version_cache =
  vc_gen :: nat
  vc_entries :: "(string \<times> string \<times> time) list"

definition version_get :: "time \<Rightarrow> nat \<Rightarrow> string \<Rightarrow> version_cache \<Rightarrow> string option \<times> version_cache" where
  [model]: "version_get now cur key c =
     (if vc_gen c \<noteq> cur
      then (None, if vc_gen c < cur then c\<lparr>vc_gen := cur, vc_entries := []\<rparr> else c)
      else case map_of (vc_entries c) key of
             None \<Rightarrow> (None, c)
           | Some (v, at) \<Rightarrow> (if config_version_ttl \<le> now - at then None else Some v, c))"

definition version_put :: "time \<Rightarrow> nat \<Rightarrow> nat \<Rightarrow> string \<Rightarrow> string \<Rightarrow> version_cache \<Rightarrow> version_cache" where
  [model]: "version_put now cur gen key v c =
     (if cur \<noteq> gen then c
      else (let c = (if vc_gen c \<noteq> gen then c\<lparr>vc_gen := gen, vc_entries := []\<rparr> else c) in
            c\<lparr>vc_entries := AList.update key (v, now) (vc_entries c)\<rparr>))"

definition node_version_key :: "string \<Rightarrow> string \<Rightarrow> string" where
  [model]: "node_version_key name site = CHR ''n'' # CHR 0x00 # name @ CHR 0x00 # site"

record node_snapshot =
  ns_rules :: "rule_row list"
  ns_rewrites :: "rewrite_row list"
  ns_forwarders :: "forward_spec list"
  ns_version :: string

definition snapshot_for_node ::
    "(string \<Rightarrow> string) \<Rightarrow> time \<Rightarrow> config_db \<Rightarrow> string \<Rightarrow> string \<Rightarrow> version_cache \<Rightarrow> node_snapshot \<times> version_cache" where
  [model]: "snapshot_for_node dig now db name site c =
     (let gen = db_gen db; rules = replicated_rules db; rws = list_rewrites_for_node db name site;
          fws = list_forwarders_for_node db name site; v = config_hash dig rules rws fws in
      (\<lparr>ns_rules = rules, ns_rewrites = rws, ns_forwarders = fws, ns_version = v\<rparr>,
       version_put now (db_gen db) gen (node_version_key name site) v c))"

definition cached_config_version_for_node ::
    "(string \<Rightarrow> string) \<Rightarrow> time \<Rightarrow> config_db \<Rightarrow> string \<Rightarrow> string \<Rightarrow> version_cache \<Rightarrow> string \<times> version_cache" where
  [model]: "cached_config_version_for_node dig now db name site c =
     (let key = node_version_key name site; gen = db_gen db in
      case version_get now gen key c of
        (Some v, c) \<Rightarrow> (v, c)
      | (None, c) \<Rightarrow>
          (let v = config_version_for_node dig db name site in
           (v, version_put now (db_gen db) gen key v c)))"

definition look_up_node ::
    "time \<Rightarrow> nat \<Rightarrow> (string \<times> string) list \<times> (string \<times> string) list \<times> version_cache \<Rightarrow> string \<times> string
     \<Rightarrow> (string \<times> string) list \<times> (string \<times> string) list \<times> version_cache" where
  [model]: "look_up_node now gen st n =
     (let (out, missing, c) = st in
      case version_get now gen (node_version_key (fst n) (snd n)) c of
        (Some v, c) \<Rightarrow> (AList.update (fst n) v out, missing, c)
      | (None, c) \<Rightarrow> (out, missing @ [n], c))"

definition store_node ::
    "time \<Rightarrow> nat \<Rightarrow> nat \<Rightarrow> (string \<times> string) list \<Rightarrow> (string \<times> string) list \<times> version_cache \<Rightarrow> string \<times> string
     \<Rightarrow> (string \<times> string) list \<times> version_cache" where
  [model]: "store_node now cur gen computed st n =
     (let (out, c) = st; v = (case map_of computed (fst n) of None \<Rightarrow> [] | Some v \<Rightarrow> v) in
      (AList.update (fst n) v out, version_put now cur gen (node_version_key (fst n) (snd n)) v c))"

definition cached_config_versions_for_nodes ::
    "(string \<Rightarrow> string) \<Rightarrow> time \<Rightarrow> config_db \<Rightarrow> (string \<times> string) list \<Rightarrow> version_cache
     \<Rightarrow> (string \<times> string) list \<times> version_cache" where
  [model]: "cached_config_versions_for_nodes dig now db nodes c =
     (let gen = db_gen db; (out, missing, c) = foldl (look_up_node now gen) ([], [], c) nodes in
      if missing = [] then (out, c)
      else foldl (store_node now (db_gen db) gen (config_versions_for_nodes dig db missing)) (out, c) missing)"

subsection \<open>The batch computes what each node's poll computes\<close>

text \<open>Lines without a line break, none empty: what is joined can be told apart.\<close>

definition plain_lines :: "string list \<Rightarrow> bool" where
  "plain_lines ls \<longleftrightarrow> (\<forall>l\<in>set ls. l \<noteq> [] \<and> newline \<notin> set l)"

lemma append_sep_inject:
  "c \<notin> set x \<Longrightarrow> c \<notin> set y \<Longrightarrow> x @ c # r = y @ c # s \<longleftrightarrow> x = y \<and> r = s"
proof (induction x arbitrary: y)
  case Nil
  then show ?case by (cases y) auto
next
  case (Cons a x)
  then show ?case by (cases y) auto
qed

lemma join_with_Cons: "join_with sep (x # xs) = (if xs = [] then x else x @ sep @ join_with sep xs)"
  by (cases xs) auto

lemma join_inject:
  assumes "plain_lines xs" "plain_lines ys" "join_with [newline] xs = join_with [newline] ys"
  shows "xs = ys"
  using assms
proof (induction xs arbitrary: ys)
  case Nil
  then show ?case by (cases ys) (auto simp: join_with_Cons plain_lines_def split: if_splits)
next
  case (Cons x xs)
  then obtain y ys' where ys: "ys = y # ys'"
    by (cases ys) (auto simp: join_with_Cons plain_lines_def split: if_splits)
  have plain: "newline \<notin> set x" "newline \<notin> set y" "plain_lines xs" "plain_lines ys'"
    using Cons.prems ys by (auto simp: plain_lines_def)
  have eq: "join_with [newline] (x # xs) = join_with [newline] (y # ys')"
    using Cons.prems(3) ys by simp
  show ?case
  proof (cases "xs = [] \<or> ys' = []")
    case True
    with eq plain(1,2) have "xs = [] \<and> ys' = [] \<and> x = y"
      by (cases "xs = []"; cases "ys' = []") (auto simp: join_with_Cons)
    with ys show ?thesis by simp
  next
    case False
    with eq have "x @ newline # join_with [newline] xs = y @ newline # join_with [newline] ys'"
      by (simp add: join_with_Cons)
    then have "x = y" "join_with [newline] xs = join_with [newline] ys'"
      by (simp_all only: append_sep_inject [OF plain(1,2)])
    with Cons.IH [OF plain(3,4)] ys show ?thesis by simp
  qed
qed

lemma version_of_lines:
  "config_version_for_node dig db name site =
     hash_lines dig (map rule_line (replicated_rules db) @ node_lines db (name, site))"
  by (simp add: config_version_for_node_def config_hash_def config_lines_def node_lines_def
      list_rewrites_for_node_def list_forwarders_for_node_def)

lemma version_steps:
  assumes "\<And>n. n \<in> set nodes \<Longrightarrow> plain_lines (node_lines db n)"
    and "\<And>k h. map_of memo k = Some h \<Longrightarrow> \<exists>ls. plain_lines ls \<and> k = join_with [newline] ls \<and> h = hash_lines dig (rl @ ls)"
  shows "map_of (snd (foldl (version_step dig db rl) (memo, out) nodes)) name =
    (case filter (\<lambda>n. fst n = name) nodes of
       [] \<Rightarrow> map_of out name
     | ns \<Rightarrow> Some (hash_lines dig (rl @ node_lines db (last ns))))"
  using assms
proof (induction nodes arbitrary: memo out)
  case Nil
  then show ?case by simp
next
  case (Cons n nodes)
  let ?ls = "node_lines db n" and ?h = "hash_lines dig (rl @ node_lines db n)"
  have plain: "plain_lines ?ls" using Cons.prems(1) by simp
  obtain memo' where step: "version_step dig db rl (memo, out) n = (memo', AList.update (fst n) ?h out)"
    and memo': "\<And>k h. map_of memo' k = Some h \<Longrightarrow>
        \<exists>ls. plain_lines ls \<and> k = join_with [newline] ls \<and> h = hash_lines dig (rl @ ls)"
  proof (cases "map_of memo (join_with [newline] ?ls)")
    case None
    have "\<exists>ls. plain_lines ls \<and> k = join_with [newline] ls \<and> h = hash_lines dig (rl @ ls)"
      if m: "map_of (AList.update (join_with [newline] ?ls) ?h memo) k = Some h" for k h
    proof (cases "k = join_with [newline] ?ls")
      case True
      with m plain show ?thesis by (intro exI [of _ ?ls]) (simp add: update_conv')
    next
      case False
      with m Cons.prems(2) show ?thesis by (simp add: update_conv')
    qed
    then show ?thesis
    proof (rule that [rotated])
      show "version_step dig db rl (memo, out) n = (AList.update (join_with [newline] ?ls) ?h memo, AList.update (fst n) ?h out)"
        by (simp add: version_step_def Let_def None)
    qed
  next
    case (Some h)
    then obtain ls where ls: "plain_lines ls" "join_with [newline] ?ls = join_with [newline] ls" "h = hash_lines dig (rl @ ls)"
      using Cons.prems(2) by blast
    then have "ls = ?ls" using join_inject [OF ls(1) plain] by simp
    with Some ls(3) have "version_step dig db rl (memo, out) n = (memo, AList.update (fst n) ?h out)"
      by (simp add: version_step_def Let_def)
    then show ?thesis
      by (rule that) (rule Cons.prems(2))
  qed
  have "map_of (snd (foldl (version_step dig db rl) (memo', AList.update (fst n) ?h out) nodes)) name =
      (case filter (\<lambda>n. fst n = name) nodes of
         [] \<Rightarrow> map_of (AList.update (fst n) ?h out) name
       | ns \<Rightarrow> Some (hash_lines dig (rl @ node_lines db (last ns))))"
    by (rule Cons.IH [OF _ memo']) (simp_all add: Cons.prems(1))
  then show ?case
    by (auto simp: step update_conv' split: list.splits)
qed

text \<open>
  The batch gives every node exactly the version its own poll would compute, although it
  hashes nodes with the same node-specific content once: with names that are unique and
  stored lines that hold no line break, the memo never mixes two nodes up.
\<close>

theorem batch_is_per_node:
  assumes "distinct (map fst nodes)" and "(name, site) \<in> set nodes"
    and "\<And>n. n \<in> set nodes \<Longrightarrow> plain_lines (node_lines db n)"
  shows "map_of (config_versions_for_nodes dig db nodes) name = Some (config_version_for_node dig db name site)"
proof -
  have "filter (\<lambda>n. fst n = name) nodes = [(name, site)]"
    using assms(1,2) by (induction nodes) (force simp: filter_empty_conv)+
  then show ?thesis
    using version_steps [OF assms(3), of nodes "[]" dig "map rule_line (replicated_rules db)" "[]" name]
    by (simp add: config_versions_for_nodes_def version_of_lines)
qed

theorem batch_is_per_node_witness:
  "map_of (config_versions_for_nodes (\<lambda>s. s) empty_db [(''n1'', []), (''n2'', ''s'')]) ''n2''
     = Some (config_version_for_node (\<lambda>s. s) empty_db ''n2'' ''s'')"
proof (rule batch_is_per_node)
  have "node_lines empty_db n = []" for n
    by (simp add: node_lines_def filter_rewrites_for_node_def filter_forwarders_for_node_def list_rewrites_def
        list_forwarders_def empty_db_def)
  then show "plain_lines (node_lines empty_db n)" for n
    by (simp add: plain_lines_def)
qed simp_all

subsection \<open>Polls and writes at the same time\<close>

text \<open>
  A poll that missed reads the tables with separate statements and no lock, then reads the
  generation again and stores what it hashed. A write makes its rows visible, and moves the
  generation in a later step: \<open>cw_pending\<close> counts the writes in between. A look-up uses a
  generation read at any earlier moment.
\<close>

record poll =
  p_node :: "string \<times> string"
  p_gen :: nat
  p_active :: "rule_row list option"
  p_verdicts :: "(string \<times> string) list option"
  p_rewrites :: "rewrite_row list option"
  p_forwarders :: "forwarder_row list option"
  p_checked :: bool

record cache_world =
  cw_db :: config_db
  cw_pending :: nat
  cw_cache :: version_cache
  cw_polls :: "poll list"

definition poll_hash :: "(string \<Rightarrow> string) \<Rightarrow> poll \<Rightarrow> string option" where
  "poll_hash dig p = (case (p_active p, p_verdicts p, p_rewrites p, p_forwarders p) of
     (Some rules, Some ai, Some rws, Some fws) \<Rightarrow>
       Some (config_hash dig
         (rules @ map verdict_rule (fresh_verdicts
            (map u_domain (filter (\<lambda>r. u_action r = ''deny'' \<and> u_domain r \<in> set (map fst ai)) rules)) ai))
         (filter_rewrites_for_node rws (fst (p_node p)) (snd (p_node p)))
         (filter_forwarders_for_node fws (fst (p_node p)) (snd (p_node p))))
   | _ \<Rightarrow> None)"

inductive poll_load :: "config_db \<Rightarrow> poll \<Rightarrow> poll \<Rightarrow> bool" for db where
  active: "p_active p = None \<Longrightarrow> poll_load db p (p\<lparr>p_active := Some (active_rules db)\<rparr>)"
| verdicts: "p_active p \<noteq> None \<Longrightarrow> p_verdicts p = None \<Longrightarrow> poll_load db p (p\<lparr>p_verdicts := Some (active_ai_blocked db)\<rparr>)"
| rewrite_rows: "p_verdicts p \<noteq> None \<Longrightarrow> p_rewrites p = None \<Longrightarrow> poll_load db p (p\<lparr>p_rewrites := Some (list_rewrites db)\<rparr>)"
| forwarders: "p_rewrites p \<noteq> None \<Longrightarrow> p_forwarders p = None \<Longrightarrow>
    poll_load db p (p\<lparr>p_forwarders := Some (list_forwarders db)\<rparr>)"

inductive cache_step :: "(string \<Rightarrow> string) \<Rightarrow> cache_world \<Rightarrow> cache_world \<Rightarrow> bool" for dig where
  commit: "db_gen db' = db_gen (cw_db w) \<Longrightarrow>
    cache_step dig w (w\<lparr>cw_db := db', cw_pending := Suc (cw_pending w)\<rparr>)"
| move_on: "cw_pending w = Suc k \<Longrightarrow>
    cache_step dig w (w\<lparr>cw_db := bump (cw_db w), cw_pending := k\<rparr>)"
| look: "g \<le> db_gen (cw_db w) \<Longrightarrow>
    cache_step dig w (w\<lparr>cw_cache := snd (version_get now g key (cw_cache w))\<rparr>)"
| start: "CHR 0x00 \<notin> set (fst n) \<Longrightarrow>
    cache_step dig w (w\<lparr>cw_polls := \<lparr>p_node = n, p_gen = db_gen (cw_db w), p_active = None, p_verdicts = None,
      p_rewrites = None, p_forwarders = None, p_checked = False\<rparr> # cw_polls w\<rparr>)"
| load: "cw_polls w = ps @ p # qs \<Longrightarrow> poll_load (cw_db w) p p' \<Longrightarrow>
    cache_step dig w (w\<lparr>cw_polls := ps @ p' # qs\<rparr>)"
| check: "cw_polls w = ps @ p # qs \<Longrightarrow> p_gen p = db_gen (cw_db w) \<Longrightarrow>
    cache_step dig w (w\<lparr>cw_polls := ps @ p\<lparr>p_checked := True\<rparr> # qs\<rparr>)"
| drop: "cw_polls w = ps @ p # qs \<Longrightarrow> cache_step dig w (w\<lparr>cw_polls := ps @ qs\<rparr>)"
| store: "cw_polls w = ps @ p # qs \<Longrightarrow> p_checked p \<Longrightarrow> poll_hash dig p = Some v \<Longrightarrow>
    cache_step dig w (w\<lparr>cw_cache := version_put now (p_gen p) (p_gen p)
        (node_version_key (fst (p_node p)) (snd (p_node p))) v (cw_cache w), cw_polls := ps @ qs\<rparr>)"

definition fresh_world :: "config_db \<Rightarrow> cache_world" where
  "fresh_world db = \<lparr>cw_db = db, cw_pending = 0, cw_cache = \<lparr>vc_gen = 0, vc_entries = []\<rparr>, cw_polls = []\<rparr>"

text \<open>What holds of a poll and of the cache: it is exact unless a write is under way or done since.\<close>

definition quiet :: "cache_world \<Rightarrow> nat \<Rightarrow> bool" where
  "quiet w g \<longleftrightarrow> g = db_gen (cw_db w) \<and> cw_pending w = 0"

definition loaded_from :: "config_db \<Rightarrow> poll \<Rightarrow> bool" where
  "loaded_from db p \<longleftrightarrow> p_active p \<in> {None, Some (active_rules db)}
     \<and> p_verdicts p \<in> {None, Some (active_ai_blocked db)} \<and> p_rewrites p \<in> {None, Some (list_rewrites db)}
     \<and> p_forwarders p \<in> {None, Some (list_forwarders db)}"

definition poll_ok :: "cache_world \<Rightarrow> poll \<Rightarrow> bool" where
  "poll_ok w p \<longleftrightarrow> p_gen p \<le> db_gen (cw_db w) \<and> CHR 0x00 \<notin> set (fst (p_node p))
     \<and> (quiet w (p_gen p) \<longrightarrow> loaded_from (cw_db w) p)"

definition cache_ok :: "(string \<Rightarrow> string) \<Rightarrow> cache_world \<Rightarrow> bool" where
  "cache_ok dig w \<longleftrightarrow> vc_gen (cw_cache w) \<le> db_gen (cw_db w)
     \<and> (quiet w (vc_gen (cw_cache w)) \<longrightarrow> (\<forall>name site v at. CHR 0x00 \<notin> set name
          \<longrightarrow> map_of (vc_entries (cw_cache w)) (node_version_key name site) = Some (v, at)
          \<longrightarrow> v = config_version_for_node dig (cw_db w) name site))"

lemma node_version_key_inject:
  "CHR 0x00 \<notin> set name \<Longrightarrow> CHR 0x00 \<notin> set name' \<Longrightarrow>
     node_version_key name site = node_version_key name' site' \<longleftrightarrow> name = name' \<and> site = site'"
  by (simp add: node_version_key_def append_sep_inject)

lemma poll_hash_loaded:
  assumes "loaded_from db p" and "poll_hash dig p = Some v"
  shows "v = config_version_for_node dig db (fst (p_node p)) (snd (p_node p))"
  using assms
  by (auto simp: loaded_from_def poll_hash_def config_version_for_node_def replicated_rules_append
      denied_already_def list_rewrites_for_node_def list_forwarders_for_node_def)

lemma poll_load_keeps: "poll_load db p p' \<Longrightarrow> p_gen p' = p_gen p \<and> p_node p' = p_node p
    \<and> (loaded_from db p \<longrightarrow> loaded_from db p')"
  by (induction rule: poll_load.induct) (auto simp: loaded_from_def)

definition world_ok :: "(string \<Rightarrow> string) \<Rightarrow> cache_world \<Rightarrow> bool" where
  "world_ok dig w \<longleftrightarrow> cache_ok dig w \<and> (\<forall>p\<in>set (cw_polls w). poll_ok w p)"

lemma poll_ok_polls [simp]:
  "poll_ok (w\<lparr>cw_polls := ps\<rparr>) p = poll_ok w p" "poll_ok (w\<lparr>cw_cache := c\<rparr>) p = poll_ok w p"
  "cache_ok dig (w\<lparr>cw_polls := ps\<rparr>) = cache_ok dig w"
  by (simp_all add: poll_ok_def quiet_def cache_ok_def)

lemma cache_ok_get:
  assumes "cache_ok dig w" "g \<le> db_gen (cw_db w)"
  shows "cache_ok dig (w\<lparr>cw_cache := snd (version_get now g key (cw_cache w))\<rparr>)"
  using assms by (auto simp: cache_ok_def version_get_def quiet_def split: option.splits)

lemma cache_ok_put:
  assumes ok: "cache_ok dig w" and p: "poll_ok w p" and v: "poll_hash dig p = Some v"
  shows "cache_ok dig (w\<lparr>cw_cache := version_put now (p_gen p) (p_gen p)
      (node_version_key (fst (p_node p)) (snd (p_node p))) v (cw_cache w)\<rparr>)"
proof -
  let ?key = "node_version_key (fst (p_node p)) (snd (p_node p))"
  let ?c = "version_put now (p_gen p) (p_gen p) ?key v (cw_cache w)"
  have gen: "vc_gen ?c = p_gen p" by (simp add: version_put_def Let_def)
  have entry: "v' = config_version_for_node dig (cw_db w) name site"
    if q: "quiet w (p_gen p)" and n: "CHR 0x00 \<notin> set name"
      and m: "map_of (vc_entries ?c) (node_version_key name site) = Some (v', at)" for name site v' at
  proof (cases "node_version_key name site = ?key")
    case True
    then have same: "name = fst (p_node p)" "site = snd (p_node p)"
      using p n by (simp_all add: poll_ok_def node_version_key_inject)
    from m True have "v' = v" by (auto simp: version_put_def Let_def update_conv' split: if_splits)
    with poll_hash_loaded [OF _ v, of "cw_db w"] p q same show ?thesis
      by (simp add: poll_ok_def)
  next
    case False
    with m have "map_of (vc_entries (cw_cache w)) (node_version_key name site) = Some (v', at)"
      and "vc_gen (cw_cache w) = p_gen p"
      by (auto simp: version_put_def Let_def update_conv' split: if_splits)
    with ok q n show ?thesis by (simp add: cache_ok_def)
  qed
  have "p_gen p \<le> db_gen (cw_db w)" using p by (simp add: poll_ok_def)
  moreover have "quiet (w\<lparr>cw_cache := ?c\<rparr>) g = quiet w g" for g by (simp add: quiet_def)
  ultimately show ?thesis
    unfolding cache_ok_def using gen entry by simp
qed

lemma world_ok_step: "cache_step dig w w' \<Longrightarrow> world_ok dig w \<Longrightarrow> world_ok dig w'"
proof (induction rule: cache_step.induct)
  case (commit db' w)
  then show ?case by (auto simp: world_ok_def cache_ok_def poll_ok_def quiet_def)
next
  case (move_on w k)
  then show ?case by (auto simp: world_ok_def cache_ok_def poll_ok_def quiet_def)
next
  case (look g w now key)
  then show ?case by (auto simp: world_ok_def cache_ok_get)
next
  case (start n w)
  then have "poll_ok w \<lparr>p_node = n, p_gen = db_gen (cw_db w), p_active = None, p_verdicts = None,
      p_rewrites = None, p_forwarders = None, p_checked = False\<rparr>"
    by (simp add: poll_ok_def loaded_from_def)
  with start show ?case by (simp add: world_ok_def)
next
  case (load w ps p qs p')
  have "poll_ok w p'" using load poll_load_keeps [OF load(2)] by (simp add: world_ok_def poll_ok_def)
  with load show ?case by (simp add: world_ok_def)
next
  case (check w ps p qs)
  then have "poll_ok w p" by (simp add: world_ok_def)
  then have "poll_ok w (p\<lparr>p_checked := True\<rparr>)" by (simp add: poll_ok_def loaded_from_def)
  with check show ?case by (simp add: world_ok_def)
next
  case (drop w ps p qs)
  then show ?case by (simp add: world_ok_def)
next
  case (store w ps p qs v now)
  then show ?case by (simp add: world_ok_def cache_ok_put)
qed

text \<open>
  C12: once every write has moved the generation, a poll that hits the cache gets exactly the
  version of the current content, whatever writes and polls went on before and however their
  steps interleaved: no stale version outlives the write that made it stale.
\<close>

theorem version_hit_is_current:
  assumes "(cache_step dig)\<^sup>*\<^sup>* (fresh_world db0) w" and "cw_pending w = 0"
    and "CHR 0x00 \<notin> set name"
    and "version_get now (db_gen (cw_db w)) (node_version_key name site) (cw_cache w) = (Some v, c)"
  shows "v = config_version_for_node dig (cw_db w) name site"
proof -
  have "world_ok dig (fresh_world db0)"
    by (simp add: world_ok_def cache_ok_def fresh_world_def)
  with assms(1) have "world_ok dig w"
    by (induction rule: rtranclp_induct) (auto intro: world_ok_step)
  with assms(2-4) show ?thesis
    by (auto simp: world_ok_def cache_ok_def quiet_def version_get_def split: if_splits option.splits)
qed

definition demo_polled :: cache_world where
  "demo_polled = \<lparr>cw_db = empty_db, cw_pending = 0,
     cw_cache = version_put 7 0 0 (node_version_key ''n1'' [])
       (config_version_for_node (\<lambda>s. ''h'') empty_db ''n1'' []) \<lparr>vc_gen = 0, vc_entries = []\<rparr>,
     cw_polls = []\<rparr>"

lemma demo_polled_reached: "(cache_step (\<lambda>s. ''h''))\<^sup>*\<^sup>* (fresh_world empty_db) demo_polled"
proof -
  let ?dig = "\<lambda>s::string. ''h''"
  let ?p = "\<lparr>p_node = (''n1'', []), p_gen = 0, p_active = None, p_verdicts = None,
      p_rewrites = None, p_forwarders = None, p_checked = False\<rparr>"
  let ?p1 = "?p\<lparr>p_active := Some (active_rules empty_db)\<rparr>"
  let ?p2 = "?p1\<lparr>p_verdicts := Some (active_ai_blocked empty_db)\<rparr>"
  let ?p3 = "?p2\<lparr>p_rewrites := Some (list_rewrites empty_db)\<rparr>"
  let ?p4 = "?p3\<lparr>p_forwarders := Some (list_forwarders empty_db)\<rparr>"
  let ?w = "\<lambda>ps. fresh_world empty_db\<lparr>cw_polls := ps\<rparr>"
  have gen: "db_gen empty_db = 0" by (simp add: empty_db_def)
  have 0: "cache_step ?dig (fresh_world empty_db) (?w [?p])"
    using cache_step.start [of "(''n1'', [])" ?dig "fresh_world empty_db"] by (simp add: fresh_world_def gen)
  have load: "cache_step ?dig (?w [p]) (?w [p'])" if "poll_load empty_db p p'" for p p'
    using cache_step.load [of "?w [p]" "[]" p "[]" p' ?dig] that by (simp add: fresh_world_def)
  have 1: "cache_step ?dig (?w [?p]) (?w [?p1])" by (intro load poll_load.active) simp
  have 2: "cache_step ?dig (?w [?p1]) (?w [?p2])" by (intro load poll_load.verdicts) simp_all
  have 3: "cache_step ?dig (?w [?p2]) (?w [?p3])" by (intro load poll_load.rewrite_rows) simp_all
  have 4: "cache_step ?dig (?w [?p3]) (?w [?p4])" by (intro load poll_load.forwarders) simp_all
  have 5: "cache_step ?dig (?w [?p4]) (?w [?p4\<lparr>p_checked := True\<rparr>])"
    using cache_step.check [of "?w [?p4]" "[]" ?p4 "[]" ?dig] by (simp add: fresh_world_def gen)
  have hash: "poll_hash ?dig (?p4\<lparr>p_checked := True\<rparr>) = Some ''h''"
    by (simp add: poll_hash_def config_hash_def hash_lines_def)
  have 6: "cache_step ?dig (?w [?p4\<lparr>p_checked := True\<rparr>]) demo_polled"
    using cache_step.store [of "?w [?p4\<lparr>p_checked := True\<rparr>]" "[]" "?p4\<lparr>p_checked := True\<rparr>" "[]" ?dig "''h''" 7] hash
    by (simp add: fresh_world_def demo_polled_def config_version_for_node_def config_hash_def hash_lines_def)
  note into = converse_rtranclp_into_rtranclp [where r = "cache_step ?dig"]
  show ?thesis
    by (rule into [OF 0], rule into [OF 1], rule into [OF 2], rule into [OF 3], rule into [OF 4],
        rule into [OF 5], rule into [OF 6], rule rtranclp.rtrancl_refl)
qed

theorem version_hit_is_current_witness:
  "fst (version_get 8 0 (node_version_key ''n1'' []) (cw_cache demo_polled))
     = Some (config_version_for_node (\<lambda>s. ''h'') empty_db ''n1'' [])"
proof -
  have hit: "version_get 8 (db_gen (cw_db demo_polled)) (node_version_key ''n1'' []) (cw_cache demo_polled)
      = (Some ''h'', cw_cache demo_polled)"
    by (simp add: demo_polled_def version_get_def version_put_def empty_db_def config_version_ttl_def
        config_version_for_node_def config_hash_def hash_lines_def)
  have "''h'' = config_version_for_node (\<lambda>s. ''h'') (cw_db demo_polled) ''n1'' []"
    by (rule version_hit_is_current [OF demo_polled_reached _ _ hit]) (simp_all add: demo_polled_def)
  with hit show ?thesis by (simp add: demo_polled_def empty_db_def)
qed

end
