(* ===== verification/Node_Registry.thy ===== *)
theory Node_Registry
  imports Go_Prelude
begin

section \<open>The registry of nodes: keys, enrollment, revocation\<close>

text \<open>
  The tables \<open>nodes\<close>, \<open>revoked_nodes\<close> and \<open>enroll_keys\<close> of package \<open>store\<close>
  (\<open>cluster.go\<close>, \<open>enrollkeys.go\<close>), and the handlers of package \<open>api\<close> that authenticate a
  node, rotate its key and enroll it. SHA-256 is the parameter \<open>hash\<close>; random keys and ids
  are arguments of the handler that draws them. A time is in nanoseconds, \<open>unix\<close> is its
  \<open>Unix()\<close>. Of the audit trail the user and the action of an entry are kept.
\<close>

definition unix :: "time \<Rightarrow> int" where
  [model]: "unix t = t div second"

subsection \<open>Enrollment keys\<close>

record enroll_key =
  e_id :: string
  e_name :: string
  e_key_hash :: string
  e_key_prefix :: string
  e_created_at :: int
  e_created_by :: string
  e_expires_at :: int
  e_max_uses :: int
  e_use_count :: int
  e_revoked :: bool

datatype enroll_status = Enroll_Revoked | Enroll_Expired | Enroll_Exhausted | Enroll_Active

definition enroll_key_status :: "bool \<Rightarrow> int \<Rightarrow> int \<Rightarrow> int \<Rightarrow> int \<Rightarrow> enroll_status" where
  [model]: "enroll_key_status revoked expires_at max_uses use_count now =
     (if revoked then Enroll_Revoked
      else if expires_at \<noteq> 0 \<and> expires_at \<le> now then Enroll_Expired
      else if max_uses \<noteq> 0 \<and> max_uses \<le> use_count then Enroll_Exhausted
      else Enroll_Active)"

definition key_status :: "enroll_key \<Rightarrow> int \<Rightarrow> enroll_status" where
  [model]: "key_status k now =
     enroll_key_status (e_revoked k) (e_expires_at k) (e_max_uses k) (e_use_count k) now"

subsection \<open>Nodes\<close>

record node_stats =
  st_total :: int
  st_blocked :: int
  st_cached :: int
  st_forwarded :: int
  st_rewritten :: int
  st_errors :: int

record node_row =
  n_id :: string
  n_name :: string
  n_key_hash :: string
  n_key_prefix :: string
  n_key_issued_at :: int
  n_prev_key_hash :: string
  n_prev_key_expires_at :: int
  n_address :: string
  n_version :: string
  n_app_version :: string
  n_last_seen :: int
  n_created_at :: int
  n_maintenance :: bool
  n_site :: string
  n_role :: string
  n_approved :: bool
  n_stats :: node_stats

record revoked_node =
  rv_id :: string
  rv_name :: string
  rv_revoked_at :: int
  rv_revoked_by :: string

record registry =
  reg_nodes :: "node_row list"
  reg_revoked :: "revoked_node list"
  reg_enroll :: "enroll_key list"
  reg_audit :: "(string \<times> string) list"

datatype registry_error =
    Key_Hash_Required
  | Node_Not_Found
  | Name_Required
  | Duplicate_Row
  | Enroll_Key_Not_Found
  | Enroll_Key_Active
  | Enroll_Key_Configured

definition append_audit :: "string \<Rightarrow> string \<Rightarrow> registry \<Rightarrow> registry" where
  [model]: "append_audit user action reg = reg\<lparr>reg_audit := reg_audit reg @ [(user, action)]\<rparr>"

subsection \<open>Operations on enrollment keys\<close>

definition create_enroll_key ::
    "int \<Rightarrow> string \<Rightarrow> string \<Rightarrow> string \<Rightarrow> string \<Rightarrow> string \<Rightarrow> int \<Rightarrow> int \<Rightarrow> registry
     \<Rightarrow> registry_error option \<times> registry" where
  [model]: "create_enroll_key now kid name key_hash pfx created_by expires_at max_uses reg =
     (if key_hash = [] then (Some Key_Hash_Required, reg)
      else if list_ex (\<lambda>k. e_id k = kid \<or> e_key_hash k = key_hash) (reg_enroll reg) then (Some Duplicate_Row, reg)
      else (None, reg\<lparr>reg_enroll := reg_enroll reg @ [\<lparr>e_id = kid, e_name = name, e_key_hash = key_hash,
              e_key_prefix = pfx, e_created_at = now, e_created_by = created_by, e_expires_at = expires_at,
              e_max_uses = max_uses, e_use_count = 0, e_revoked = False\<rparr>]\<rparr>))"

definition ensure_enroll_key ::
    "int \<Rightarrow> string \<Rightarrow> string \<Rightarrow> string \<Rightarrow> string \<Rightarrow> registry \<Rightarrow> registry_error option \<times> registry" where
  [model]: "ensure_enroll_key now kid name key_hash pfx reg =
     (if key_hash = [] then (Some Key_Hash_Required, reg)
      else if list_ex (\<lambda>k. e_key_hash k = key_hash) (reg_enroll reg) then (None, reg)
      else create_enroll_key now kid name key_hash pfx ''config'' 0 0 reg)"

definition list_enroll_keys :: "int \<Rightarrow> registry \<Rightarrow> (enroll_key \<times> enroll_status) list" where
  [model]: "list_enroll_keys now reg =
     map (\<lambda>k. (k, key_status k now)) (sort_key (\<lambda>k. - e_created_at k) (reg_enroll reg))"

definition revoke_enroll_key :: "string \<Rightarrow> registry \<Rightarrow> registry_error option \<times> registry" where
  [model]: "revoke_enroll_key kid reg =
     (if list_ex (\<lambda>k. e_id k = kid) (reg_enroll reg) then None else Some Enroll_Key_Not_Found,
      reg\<lparr>reg_enroll := map (\<lambda>k. if e_id k = kid then k\<lparr>e_revoked := True\<rparr> else k) (reg_enroll reg)\<rparr>)"

definition usable :: "string \<Rightarrow> int \<Rightarrow> enroll_key \<Rightarrow> bool" where
  [model]: "usable key_hash now k \<longleftrightarrow> e_key_hash k = key_hash \<and> \<not> e_revoked k
     \<and> (e_expires_at k = 0 \<or> now < e_expires_at k) \<and> (e_max_uses k = 0 \<or> e_use_count k < e_max_uses k)"

definition consume_enroll_key :: "string \<Rightarrow> int \<Rightarrow> registry \<Rightarrow> bool \<times> registry" where
  [model]: "consume_enroll_key key_hash now reg =
     (if key_hash = [] then (False, reg)
      else (length (filter (usable key_hash now) (reg_enroll reg)) = 1,
            reg\<lparr>reg_enroll := map (\<lambda>k. if usable key_hash now k then k\<lparr>e_use_count := e_use_count k + 1\<rparr> else k)
                   (reg_enroll reg)\<rparr>))"

definition enroll_key_valid :: "string \<Rightarrow> int \<Rightarrow> registry \<Rightarrow> bool \<times> string" where
  [model]: "enroll_key_valid key_hash now reg =
     (if key_hash = [] then (False, [])
      else case find (\<lambda>k. e_key_hash k = key_hash) (reg_enroll reg) of
             None \<Rightarrow> (False, [])
           | Some k \<Rightarrow> (key_status k now = Enroll_Active, e_key_prefix k))"

definition delete_enroll_key :: "string \<Rightarrow> string \<Rightarrow> int \<Rightarrow> registry \<Rightarrow> registry_error option \<times> registry" where
  [model]: "delete_enroll_key kid keep_hash now reg =
     (case find (\<lambda>k. e_id k = kid) (reg_enroll reg) of
        None \<Rightarrow> (Some Enroll_Key_Not_Found, reg)
      | Some k \<Rightarrow>
          if keep_hash \<noteq> [] \<and> e_key_hash k = keep_hash then (Some Enroll_Key_Configured, reg)
          else if key_status k now = Enroll_Active then (Some Enroll_Key_Active, reg)
          else (None, reg\<lparr>reg_enroll := filter (\<lambda>k. e_id k \<noteq> kid) (reg_enroll reg)\<rparr>))"

subsection \<open>Operations on nodes\<close>

definition change_node :: "string \<Rightarrow> (node_row \<Rightarrow> node_row) \<Rightarrow> registry \<Rightarrow> registry_error option \<times> registry" where
  [model]: "change_node i f reg =
     (if list_ex (\<lambda>n. n_id n = i) (reg_nodes reg) then None else Some Node_Not_Found,
      reg\<lparr>reg_nodes := map (\<lambda>n. if n_id n = i then f n else n) (reg_nodes reg)\<rparr>)"

definition set_node_maintenance :: "string \<Rightarrow> bool \<Rightarrow> registry \<Rightarrow> registry_error option \<times> registry" where
  [model]: "set_node_maintenance i on reg = change_node i (\<lambda>n. n\<lparr>n_maintenance := on\<rparr>) reg"

definition update_node_key :: "int \<Rightarrow> string \<Rightarrow> string \<Rightarrow> string \<Rightarrow> registry \<Rightarrow> registry_error option \<times> registry" where
  [model]: "update_node_key now i key_hash pfx reg =
     change_node i (\<lambda>n. n\<lparr>n_key_hash := key_hash, n_key_prefix := pfx, n_key_issued_at := now,
                         n_prev_key_hash := [], n_prev_key_expires_at := 0\<rparr>) reg"

definition rotate_node_key ::
    "string \<Rightarrow> string \<Rightarrow> string \<Rightarrow> string \<Rightarrow> int \<Rightarrow> int \<Rightarrow> registry \<Rightarrow> registry_error option \<times> registry" where
  [model]: "rotate_node_key i key_hash pfx prev_hash prev_expires issued_at reg =
     change_node i (\<lambda>n. n\<lparr>n_key_hash := key_hash, n_key_prefix := pfx, n_key_issued_at := issued_at,
                         n_prev_key_hash := prev_hash, n_prev_key_expires_at := prev_expires\<rparr>) reg"

definition confirm_key_rotation :: "string \<Rightarrow> registry \<Rightarrow> registry" where
  [model]: "confirm_key_rotation i reg =
     snd (change_node i (\<lambda>n. n\<lparr>n_prev_key_hash := [], n_prev_key_expires_at := 0\<rparr>) reg)"

definition new_node :: "int \<Rightarrow> string \<Rightarrow> string \<Rightarrow> string \<Rightarrow> string \<Rightarrow> bool \<Rightarrow> node_row" where
  [model]: "new_node now i name key_hash pfx approved =
     \<lparr>n_id = i, n_name = name, n_key_hash = key_hash, n_key_prefix = pfx, n_key_issued_at = now,
      n_prev_key_hash = [], n_prev_key_expires_at = 0, n_address = [], n_version = [], n_app_version = [],
      n_last_seen = 0, n_created_at = now, n_maintenance = False, n_site = [], n_role = [], n_approved = approved,
      n_stats = \<lparr>st_total = 0, st_blocked = 0, st_cached = 0, st_forwarded = 0, st_rewritten = 0, st_errors = 0\<rparr>\<rparr>"

definition create_node_with_id ::
    "int \<Rightarrow> string \<Rightarrow> string \<Rightarrow> string \<Rightarrow> string \<Rightarrow> bool \<Rightarrow> registry \<Rightarrow> registry_error option \<times> registry" where
  [model]: "create_node_with_id now i name key_hash pfx approved reg =
     (if list_ex (\<lambda>n. n_id n = i \<or> n_name n = name) (reg_nodes reg) then (Some Duplicate_Row, reg)
      else (None, reg\<lparr>reg_nodes := reg_nodes reg @ [new_node now i name key_hash pfx approved]\<rparr>))"

definition set_node_approved :: "string \<Rightarrow> bool \<Rightarrow> registry \<Rightarrow> registry_error option \<times> registry" where
  [model]: "set_node_approved i approved reg = change_node i (\<lambda>n. n\<lparr>n_approved := approved\<rparr>) reg"

definition node_by :: "(node_row \<Rightarrow> bool) \<Rightarrow> registry \<Rightarrow> node_row option" where
  [model]: "node_by P reg = find P (reg_nodes reg)"

definition node_by_key_hash :: "string \<Rightarrow> registry \<Rightarrow> node_row option" where
  [model]: "node_by_key_hash h reg = (if h = [] then None else node_by (\<lambda>n. n_key_hash n = h) reg)"

definition node_by_id :: "string \<Rightarrow> registry \<Rightarrow> node_row option" where
  [model]: "node_by_id i reg = (if i = [] then None else node_by (\<lambda>n. n_id n = i) reg)"

definition node_by_name :: "string \<Rightarrow> registry \<Rightarrow> node_row option" where
  [model]: "node_by_name name reg = (if name = [] then None else node_by (\<lambda>n. n_name n = name) reg)"

definition node_by_any_key_hash :: "string \<Rightarrow> int \<Rightarrow> registry \<Rightarrow> (node_row \<times> bool) option" where
  [model]: "node_by_any_key_hash h now reg =
     (if h = [] then None
      else case node_by_key_hash h reg of
             Some n \<Rightarrow> Some (n, True)
           | None \<Rightarrow> map_option (\<lambda>n. (n, False))
                       (node_by (\<lambda>n. n_prev_key_hash n = h \<and> now < n_prev_key_expires_at n) reg))"

definition touch_node ::
    "int \<Rightarrow> string \<Rightarrow> string \<Rightarrow> string \<Rightarrow> string \<Rightarrow> node_stats \<Rightarrow> registry \<Rightarrow> registry" where
  [model]: "touch_node now i address ver app_version st reg =
     snd (change_node i (\<lambda>n. n\<lparr>n_address := address, n_version := ver, n_app_version := app_version,
                              n_last_seen := now, n_stats := st\<rparr>) reg)"

definition list_nodes :: "registry \<Rightarrow> node_row list" where
  [model]: "list_nodes reg = sort_key n_name (reg_nodes reg)"

definition delete_node :: "int \<Rightarrow> string \<Rightarrow> bool \<Rightarrow> string \<Rightarrow> registry \<Rightarrow> registry" where
  [model]: "delete_node now i revoke revoked_by reg =
     (let name = (case node_by (\<lambda>n. n_id n = i) reg of None \<Rightarrow> [] | Some n \<Rightarrow> n_name n);
          reg = reg\<lparr>reg_nodes := filter (\<lambda>n. n_id n \<noteq> i) (reg_nodes reg)\<rparr> in
      if \<not> revoke then reg
      else reg\<lparr>reg_revoked := filter (\<lambda>r. rv_id r \<noteq> i) (reg_revoked reg)
             @ [\<lparr>rv_id = i, rv_name = name, rv_revoked_at = now, rv_revoked_by = revoked_by\<rparr>]\<rparr>)"

definition revoked_node_by_id :: "string \<Rightarrow> registry \<Rightarrow> revoked_node option" where
  [model]: "revoked_node_by_id i reg = find (\<lambda>r. rv_id r = i) (reg_revoked reg)"

definition is_node_revoked :: "string \<Rightarrow> registry \<Rightarrow> bool" where
  [model]: "is_node_revoked i reg \<longleftrightarrow> i \<noteq> [] \<and> list_ex (\<lambda>r. rv_id r = i) (reg_revoked reg)"

definition list_revoked_nodes :: "registry \<Rightarrow> revoked_node list" where
  [model]: "list_revoked_nodes reg = sort_key (\<lambda>r. - rv_revoked_at r) (reg_revoked reg)"

definition unrevoke_node :: "string \<Rightarrow> registry \<Rightarrow> bool \<times> registry" where
  [model]: "unrevoke_node i reg =
     (list_ex (\<lambda>r. rv_id r = i) (reg_revoked reg),
      reg\<lparr>reg_revoked := filter (\<lambda>r. rv_id r \<noteq> i) (reg_revoked reg)\<rparr>)"

subsection \<open>Keys\<close>

text \<open>\<open>hash\<close> is the hex digits of SHA-256; \<open>key_max_age\<close> and \<open>key_grace\<close> are configured.\<close>

record key_config =
  kc_hash :: "string \<Rightarrow> string"
  kc_max_age :: duration
  kc_grace :: duration
  kc_require_approval :: bool

definition key_prefix :: "string \<Rightarrow> string" where
  [model]: "key_prefix key = (if 8 < length key then take 8 key else key)"

text \<open>
  \<open>maybeRotateNodeKey\<close>: \<open>token\<close> is the key \<open>auth.NewToken\<close> returns, \<open>None\<close> when it fails.
  The result is the key to hand out, empty for none. A store call fails only if the node is
  gone.
\<close>

definition maybe_rotate_node_key ::
    "key_config \<Rightarrow> time \<Rightarrow> string option \<Rightarrow> node_row \<Rightarrow> bool \<Rightarrow> registry \<Rightarrow> string \<times> registry" where
  [model]: "maybe_rotate_node_key C now token node via_current reg =
     (if via_current
      then (let reg = (if n_prev_key_hash node \<noteq> [] then confirm_key_rotation (n_id node) reg else reg) in
            if kc_max_age C \<le> 0 \<or> unix now - n_key_issued_at node < kc_max_age C div second then ([], reg)
            else case token of
                None \<Rightarrow> ([], reg)
              | Some new_key \<Rightarrow>
                  (case rotate_node_key (n_id node) (kc_hash C new_key) (key_prefix new_key) (n_key_hash node)
                          (unix (now + kc_grace C)) (unix now) reg of
                     (Some _, reg) \<Rightarrow> ([], reg)
                   | (None, reg) \<Rightarrow> (new_key, reg)))
      else (case token of
              None \<Rightarrow> ([], reg)
            | Some new_key \<Rightarrow>
                (case rotate_node_key (n_id node) (kc_hash C new_key) (key_prefix new_key) (n_prev_key_hash node)
                        (n_prev_key_expires_at node) (unix now) reg of
                   (Some _, reg) \<Rightarrow> ([], reg)
                 | (None, reg) \<Rightarrow> (new_key, reg))))"

definition bearer :: "string \<Rightarrow> string option" where
  [model]: "bearer h = (if has_prefix h ''Bearer '' then Some (trim_prefix h ''Bearer '') else None)"

definition node_from_key :: "key_config \<Rightarrow> int \<Rightarrow> string \<Rightarrow> registry \<Rightarrow> node_row option" where
  [model]: "node_from_key C now h reg =
     (case bearer h of
        None \<Rightarrow> None
      | Some key \<Rightarrow> map_option fst (node_by_any_key_hash (kc_hash C key) now reg))"

text \<open>The manual rotation: the key of the answer, \<open>None\<close> for an error answer.\<close>

definition renew_node_key ::
    "key_config \<Rightarrow> time \<Rightarrow> string option \<Rightarrow> string \<Rightarrow> registry \<Rightarrow> string option \<times> registry" where
  [model]: "renew_node_key C now token i reg =
     (if i = [] then (None, reg)
      else case node_by_id i reg of
             None \<Rightarrow> (None, reg)
           | Some node \<Rightarrow>
               (case token of
                  None \<Rightarrow> (None, reg)
                | Some key \<Rightarrow>
                    (case rotate_node_key i (kc_hash C key) (key_prefix key) (n_key_hash node)
                            (unix (now + kc_grace C)) (unix now) reg of
                       (Some _, reg) \<Rightarrow> (None, reg)
                     | (None, reg) \<Rightarrow> (Some key, reg))))"

subsection \<open>Enrollment\<close>

definition node_reclaim_after :: duration where
  [model]: "node_reclaim_after = 2 * minute"

definition numbered :: "string \<Rightarrow> nat \<Rightarrow> string" where
  [model]: "numbered name i = name @ ''-'' @ format_nat i"

lemma numbered_inject [simp]: "numbered name i = numbered name j \<longleftrightarrow> i = j"
  by (simp add: numbered_def)

definition taken :: "string list \<Rightarrow> string \<Rightarrow> nat \<Rightarrow> nat set" where
  "taken names name i = {j. i \<le> j \<and> numbered name j \<in> set names}"

lemma finite_taken: "finite (taken names name i)"
proof -
  have "taken names name i \<subseteq> numbered name -` set names"
    by (auto simp: taken_def)
  moreover have "finite (numbered name -` set names)"
    by (rule finite_vimageI) (simp_all add: inj_on_def)
  ultimately show ?thesis by (rule finite_subset)
qed

text \<open>The candidates \<open>name-2\<close>, \<open>name-3\<close>, ...: some number is free, because the names are finite.\<close>

function free_name :: "string list \<Rightarrow> string \<Rightarrow> nat \<Rightarrow> string" where
  "free_name names name i =
     (if numbered name i \<in> set names then free_name names name (Suc i) else numbered name i)"
  by pat_completeness auto
termination
proof (relation "measure (\<lambda>(names, name, i). card (taken names name i))")
  fix names name i
  assume "numbered name i \<in> set names"
  then have "i \<in> taken names name i" by (simp add: taken_def)
  moreover have "taken names name (Suc i) \<subseteq> taken names name i - {i}" by (auto simp: taken_def)
  ultimately have "card (taken names name (Suc i)) < card (taken names name i)"
    using finite_taken psubset_card_mono [of "taken names name i" "taken names name (Suc i)"] by blast
  then show "((names, name, Suc i), (names, name, i)) \<in> measure (\<lambda>(names, name, i). card (taken names name i))"
    by simp
qed simp

declare free_name.simps [simp del]

definition unique_node_name :: "string \<Rightarrow> registry \<Rightarrow> string" where
  [model]: "unique_node_name name reg =
     (case node_by_name name reg of
        None \<Rightarrow> name
      | Some _ \<Rightarrow> free_name (map n_name (reg_nodes reg)) name 2)"

fun create_attempts :: "nat \<Rightarrow> int \<Rightarrow> string \<Rightarrow> string \<Rightarrow> string \<Rightarrow> string \<Rightarrow> bool \<Rightarrow> registry \<Rightarrow> string option \<times> registry" where
  "create_attempts 0 now i name key_hash pfx approved reg = (None, reg)"
| "create_attempts (Suc k) now i name key_hash pfx approved reg =
     (let unique = unique_node_name name reg in
      case create_node_with_id now i unique key_hash pfx approved reg of
        (None, reg) \<Rightarrow> (Some unique, reg)
      | (Some _, reg) \<Rightarrow> create_attempts k now i name key_hash pfx approved reg)"

record enroll_request =
  rq_name :: string
  rq_token :: string
  rq_node_id :: string
  rq_node_key :: string
  rq_suffix_ok :: bool

datatype enroll_reply = Enroll_Refused nat | Enrolled nat string string string bool

definition reserved_name :: "string \<Rightarrow> bool" where
  [model]: "reserved_name name \<longleftrightarrow> name = ''master'' \<or> name = ''control-plane''"

definition rotate_enrolled :: "key_config \<Rightarrow> time \<Rightarrow> string \<Rightarrow> node_row \<Rightarrow> registry \<Rightarrow> enroll_reply \<times> registry" where
  [model]: "rotate_enrolled C now key existing reg =
     (case update_node_key (unix now) (n_id existing) (kc_hash C key) (key_prefix key) reg of
        (Some _, reg) \<Rightarrow> (Enroll_Refused 500, reg)
      | (None, reg) \<Rightarrow> (Enrolled 200 (n_id existing) (n_name existing) key (n_approved existing), reg))"

definition enroll_new ::
    "key_config \<Rightarrow> time \<Rightarrow> string \<Rightarrow> string \<Rightarrow> string \<Rightarrow> string \<Rightarrow> registry \<Rightarrow> enroll_reply \<times> registry" where
  [model]: "enroll_new C now name token_hash key uuid reg =
     (case consume_enroll_key token_hash (unix now) reg of
        (False, reg) \<Rightarrow> (Enroll_Refused 401, reg)
      | (True, reg) \<Rightarrow>
          (case create_attempts 5 (unix now) uuid name (kc_hash C key) (key_prefix key)
                  (\<not> kc_require_approval C) reg of
             (None, reg) \<Rightarrow> (Enroll_Refused 500, reg)
           | (Some unique, reg) \<Rightarrow> (Enrolled 201 uuid unique key (\<not> kc_require_approval C), reg)))"

definition enroll_by_name ::
    "key_config \<Rightarrow> time \<Rightarrow> enroll_request \<Rightarrow> string \<Rightarrow> string \<Rightarrow> string \<Rightarrow> string \<Rightarrow> registry \<Rightarrow> enroll_reply \<times> registry" where
  [model]: "enroll_by_name C now inp name token_hash key uuid reg =
     (case node_by_name name reg of
        None \<Rightarrow> enroll_new C now name token_hash key uuid reg
      | Some existing \<Rightarrow>
          if \<not> fst (enroll_key_valid token_hash (unix now) reg) then (Enroll_Refused 401, reg)
          else if node_reclaim_after div second \<le> unix now - n_last_seen existing
          then (case rotate_enrolled C now key existing reg of
                  (Enroll_Refused c, reg) \<Rightarrow> (Enroll_Refused c, reg)
                | (r, reg) \<Rightarrow> (r, append_audit (''node:'' @ n_name existing) ''cluster.node.reclaim'' reg))
          else if \<not> rq_suffix_ok inp then (Enroll_Refused 409, reg)
          else enroll_new C now name token_hash key uuid reg)"

text \<open>\<open>token\<close> is the new node key, \<open>None\<close> when the random source fails; \<open>uuid\<close> the new id.\<close>

definition cluster_enroll ::
    "key_config \<Rightarrow> time \<Rightarrow> enroll_request \<Rightarrow> string option \<Rightarrow> string \<Rightarrow> registry \<Rightarrow> enroll_reply \<times> registry" where
  [model]: "cluster_enroll C now inp token uuid reg =
     (let name = trim_space (rq_name inp) in
      if name = [] then (Enroll_Refused 400, reg)
      else if reserved_name name then (Enroll_Refused 400, reg)
      else (let token_hash = kc_hash C (trim_space (rq_token inp)) in
        case token of
          None \<Rightarrow> (Enroll_Refused 500, reg)
        | Some key \<Rightarrow>
            (let i = trim_space (rq_node_id inp) in
             if i = [] then enroll_by_name C now inp name token_hash key uuid reg
             else case revoked_node_by_id i reg of
                 Some _ \<Rightarrow> (Enroll_Refused 403, reg)
               | None \<Rightarrow>
                   (case node_by_id i reg of
                      None \<Rightarrow> enroll_by_name C now inp name token_hash key uuid reg
                    | Some existing \<Rightarrow>
                        if \<not> fst (enroll_key_valid token_hash (unix now) reg) then (Enroll_Refused 401, reg)
                        else if rq_node_key inp = [] \<or> kc_hash C (rq_node_key inp) \<noteq> n_key_hash existing
                        then (Enroll_Refused 403, reg)
                        else rotate_enrolled C now key existing reg))))"

subsection \<open>Rotation does not lock a node out\<close>

definition node_keys :: "node_row \<Rightarrow> string set" where
  "node_keys n = {n_key_hash n, n_prev_key_hash n} - {[]}"

text \<open>Ids are unique, and no key of a node is a key of another or its own previous key.\<close>

definition registry_ok :: "registry \<Rightarrow> bool" where
  "registry_ok reg \<longleftrightarrow> distinct (map n_id (reg_nodes reg))
     \<and> (\<forall>m\<in>set (reg_nodes reg). \<forall>n\<in>set (reg_nodes reg). m \<noteq> n \<longrightarrow> node_keys m \<inter> node_keys n = {})
     \<and> (\<forall>n\<in>set (reg_nodes reg). n_key_hash n \<noteq> [] \<longrightarrow> n_key_hash n \<noteq> n_prev_key_hash n)"

lemma registry_okD:
  assumes "registry_ok reg"
  shows "m \<in> set (reg_nodes reg) \<Longrightarrow> n \<in> set (reg_nodes reg) \<Longrightarrow> n_id m = n_id n \<Longrightarrow> m = n"
    and "m \<in> set (reg_nodes reg) \<Longrightarrow> n \<in> set (reg_nodes reg) \<Longrightarrow> h \<in> node_keys m \<Longrightarrow> h \<in> node_keys n \<Longrightarrow> m = n"
    and "n \<in> set (reg_nodes reg) \<Longrightarrow> n_key_hash n \<noteq> [] \<Longrightarrow> n_key_hash n \<noteq> n_prev_key_hash n"
  using assms unfolding registry_ok_def
  by (meson distinct_map inj_onD, blast, blast)

lemma find_SomeD: "find P xs = Some x \<Longrightarrow> x \<in> set xs \<and> P x"
  by (induction xs) (auto split: if_splits)

lemma find_unique:
  assumes "x \<in> set xs" "P x" and only: "\<And>y. y \<in> set xs \<Longrightarrow> P y \<Longrightarrow> y = x"
  shows "find P xs = Some x"
proof (cases "find P xs")
  case None
  with assms(1,2) show ?thesis by (simp add: find_None_iff)
next
  case (Some y)
  from find_SomeD [OF Some] have "y = x" by (intro only) simp_all
  with Some show ?thesis by simp
qed

lemma map_ifE:
  assumes "y \<in> set (map (\<lambda>x. if P x then f x else x) xs)"
  obtains x where "x \<in> set xs" "P x" "y = f x" | "y \<in> set xs" "\<not> P y"
  using assms by auto

lemma find_none: "(\<And>y. y \<in> set xs \<Longrightarrow> \<not> P y) \<Longrightarrow> find P xs = None"
  by (auto simp: find_None_iff)

lemma node_by_any_key_hash_found:
  assumes "node_by_any_key_hash h now reg = Some (node, via)"
  shows "node \<in> set (reg_nodes reg)" and "h \<noteq> []"
    and "via \<Longrightarrow> n_key_hash node = h"
    and "\<not> via \<Longrightarrow> n_prev_key_hash node = h \<and> now < n_prev_key_expires_at node
        \<and> (\<forall>n\<in>set (reg_nodes reg). n_key_hash n \<noteq> h)"
  using assms
  by (auto simp: node_by_any_key_hash_def node_by_key_hash_def node_by_def find_None_iff
      split: if_splits option.splits dest: find_SomeD)

text \<open>What a registry answers after the row of one node was replaced by a row with new keys.\<close>

lemma rotated_keys:
  assumes ok: "registry_ok reg" and node: "node \<in> set (reg_nodes reg)"
    and new: "h' \<noteq> []" "\<And>n. n \<in> set (reg_nodes reg) \<Longrightarrow> h' \<notin> node_keys n"
    and old: "h \<in> node_keys node"
    and reg': "reg' = snd (rotate_node_key (n_id node) h' pfx h expires issued reg)"
  shows "\<exists>n. node_by_any_key_hash h' t reg' = Some (n, True) \<and> n_id n = n_id node"
    and "t < expires \<Longrightarrow> \<exists>n. node_by_any_key_hash h t reg' = Some (n, False) \<and> n_id n = n_id node"
proof -
  let ?f = "\<lambda>n. n\<lparr>n_key_hash := h', n_key_prefix := pfx, n_key_issued_at := issued,
              n_prev_key_hash := h, n_prev_key_expires_at := expires\<rparr>"
  let ?rows = "map (\<lambda>n. if n_id n = n_id node then ?f n else n) (reg_nodes reg)"
  have rows: "reg_nodes reg' = ?rows"
    by (simp add: reg' rotate_node_key_def change_node_def)
  have only: "n = node" if "n \<in> set (reg_nodes reg)" "n_id n = n_id node" for n
    using registry_okD(1) [OF ok that(1) node that(2)] .
  have mem: "n \<in> set ?rows \<Longrightarrow> n = ?f node \<or> n \<in> set (reg_nodes reg) \<and> n \<noteq> node" for n
  proof -
    assume "n \<in> set ?rows"
    then show ?thesis
    proof (cases rule: map_ifE)
      case (1 x)
      with only [OF 1(1,2)] show ?thesis by simp
    qed auto
  qed
  have h: "h \<noteq> []" "h \<noteq> h'"
    using old new(2) [OF node] by (auto simp: node_keys_def)
  have "?f node \<in> set ?rows" using node by force
  moreover have "n = ?f node" if "n \<in> set ?rows" "n_key_hash n = h'" for n
    using mem [OF that(1)] that(2) new by (auto simp: node_keys_def)
  ultimately have "find (\<lambda>n. n_key_hash n = h') ?rows = Some (?f node)"
    by (intro find_unique) simp_all
  then show "\<exists>n. node_by_any_key_hash h' t reg' = Some (n, True) \<and> n_id n = n_id node"
    using new(1) by (simp add: node_by_any_key_hash_def node_by_key_hash_def node_by_def rows)
  assume t: "t < expires"
  have other: "h \<notin> node_keys n" if "n \<in> set (reg_nodes reg)" "n \<noteq> node" for n
    using registry_okD(2) [OF ok that(1) node _ old] that(2) by blast
  have "find (\<lambda>n. n_key_hash n = h) ?rows = None"
  proof (rule find_none)
    fix n assume "n \<in> set ?rows"
    from mem [OF this] show "n_key_hash n \<noteq> h"
    proof (elim disjE conjE)
      assume "n = ?f node"
      then show ?thesis using h by simp
    next
      assume "n \<in> set (reg_nodes reg)" "n \<noteq> node"
      from other [OF this] show ?thesis using h by (auto simp: node_keys_def)
    qed
  qed
  moreover have "find (\<lambda>n. n_prev_key_hash n = h \<and> t < n_prev_key_expires_at n) ?rows = Some (?f node)"
  proof (rule find_unique)
    show "?f node \<in> set ?rows" by fact
    show "n = ?f node" if "n \<in> set ?rows" "n_prev_key_hash n = h \<and> t < n_prev_key_expires_at n" for n
      using mem [OF that(1)] other [of n] that(2) h by (auto simp: node_keys_def)
  qed (use t in simp)
  ultimately show "\<exists>n. node_by_any_key_hash h t reg' = Some (n, False) \<and> n_id n = n_id node"
    using h by (simp add: node_by_any_key_hash_def node_by_key_hash_def node_by_def rows)
qed

definition confirmed :: "node_row \<Rightarrow> registry \<Rightarrow> registry" where
  "confirmed node reg = (if n_prev_key_hash node \<noteq> [] then confirm_key_rotation (n_id node) reg else reg)"

lemma confirmed_rows:
  assumes ok: "registry_ok reg" and node: "node \<in> set (reg_nodes reg)"
  shows "registry_ok (confirmed node reg)"
    and "\<exists>n\<in>set (reg_nodes (confirmed node reg)). n_id n = n_id node \<and> n_key_hash n = n_key_hash node"
    and "n \<in> set (reg_nodes (confirmed node reg)) \<Longrightarrow> \<exists>m\<in>set (reg_nodes reg). n_id n = n_id m \<and> n_key_hash n = n_key_hash m
        \<and> node_keys n \<subseteq> node_keys m \<and> n_prev_key_hash n \<in> {n_prev_key_hash m, []}"
proof -
  let ?f = "\<lambda>n. n\<lparr>n_prev_key_hash := [], n_prev_key_expires_at := 0\<rparr>"
  let ?g = "\<lambda>n. if n_prev_key_hash node \<noteq> [] \<and> n_id n = n_id node then ?f n else n"
  have rows: "reg_nodes (confirmed node reg) = map ?g (reg_nodes reg)"
    by (simp add: confirmed_def confirm_key_rotation_def change_node_def)
  have g: "n_id (?g n) = n_id n" "n_key_hash (?g n) = n_key_hash n" "node_keys (?g n) \<subseteq> node_keys n"
    "n_prev_key_hash (?g n) \<in> {n_prev_key_hash n, []}" for n
    by (auto simp: node_keys_def)
  have ids: "map n_id (map ?g ns) = map n_id ns" for ns by simp
  show 1: "n \<in> set (reg_nodes (confirmed node reg)) \<Longrightarrow> \<exists>m\<in>set (reg_nodes reg). n_id n = n_id m
        \<and> n_key_hash n = n_key_hash m \<and> node_keys n \<subseteq> node_keys m \<and> n_prev_key_hash n \<in> {n_prev_key_hash m, []}" for n
    unfolding rows using g by (metis (no_types, lifting) imageE list.set_map)
  show "\<exists>n\<in>set (reg_nodes (confirmed node reg)). n_id n = n_id node \<and> n_key_hash n = n_key_hash node"
    using node g by (intro bexI [of _ "?g node"]) (simp_all add: rows)
  show "registry_ok (confirmed node reg)"
    unfolding registry_ok_def
  proof (intro conjI ballI impI)
    show "distinct (map n_id (reg_nodes (confirmed node reg)))"
      using ok by (simp only: rows ids registry_ok_def)
  next
    fix m n assume "m \<in> set (reg_nodes (confirmed node reg))" "n \<in> set (reg_nodes (confirmed node reg))" and "m \<noteq> n"
    then obtain m0 n0 where mn: "m0 \<in> set (reg_nodes reg)" "m = ?g m0" "n0 \<in> set (reg_nodes reg)" "n = ?g n0"
      by (auto simp: rows)
    with \<open>m \<noteq> n\<close> have "m0 \<noteq> n0" by blast
    with registry_okD(2) [OF ok mn(1,3)] have "node_keys m0 \<inter> node_keys n0 = {}" by blast
    moreover have "node_keys m \<subseteq> node_keys m0" "node_keys n \<subseteq> node_keys n0"
      unfolding mn by (rule g)+
    ultimately show "node_keys m \<inter> node_keys n = {}" by blast
  next
    fix n assume "n \<in> set (reg_nodes (confirmed node reg))" and "n_key_hash n \<noteq> []"
    with 1 [of n] registry_okD(3) [OF ok] show "n_key_hash n \<noteq> n_prev_key_hash n" by fastforce
  qed
qed

lemma current_key_found:
  assumes ok: "registry_ok reg" and n: "n \<in> set (reg_nodes reg)" "n_key_hash n = h" "h \<noteq> []"
  shows "node_by_any_key_hash h t reg = Some (n, True)"
proof -
  have "find (\<lambda>n. n_key_hash n = h) (reg_nodes reg) = Some n"
  proof (rule find_unique)
    show "m = n" if "m \<in> set (reg_nodes reg)" "n_key_hash m = h" for m
      using registry_okD(2) [OF ok that(1) n(1), of h] that(2) n(2,3) by (simp add: node_keys_def)
  qed (use n in simp_all)
  with n(3) show ?thesis by (simp add: node_by_any_key_hash_def node_by_key_hash_def node_by_def)
qed

lemma rotate_node_key_ok:
  "n \<in> set (reg_nodes reg) \<Longrightarrow> n_id n = i \<Longrightarrow>
     rotate_node_key i h pfx prev expires issued reg = (None, snd (rotate_node_key i h pfx prev expires issued reg))"
  by (auto simp: rotate_node_key_def change_node_def list_ex_iff)

lemma rotate_via_current:
  assumes ok: "registry_ok reg"
    and auth: "node_by_any_key_hash h (unix now) reg = Some (node, True)"
    and fresh: "\<And>k. token = Some k \<Longrightarrow> kc_hash C k \<noteq> [] \<and> (\<forall>n\<in>set (reg_nodes reg). kc_hash C k \<notin> node_keys n)"
    and res: "maybe_rotate_node_key C now token node True reg = (nk, reg')"
    and deadline: "deadline = unix (now + kc_grace C)"
  shows "(t < deadline \<longrightarrow> (\<exists>n v. node_by_any_key_hash h t reg' = Some (n, v) \<and> n_id n = n_id node))
    \<and> (nk \<noteq> [] \<longrightarrow> (\<exists>n. node_by_any_key_hash (kc_hash C nk) t reg' = Some (n, True) \<and> n_id n = n_id node))"
proof -
  note found = node_by_any_key_hash_found [OF auth]
  let ?reg = "confirmed node reg"
  have kh: "n_key_hash node = h" using found(3) by simp
  note conf = confirmed_rows [OF ok found(1)]
  obtain n where n: "n \<in> set (reg_nodes ?reg)" "n_id n = n_id node" "n_key_hash n = h"
    using conf(2) kh by auto
  have keep: "node_by_any_key_hash h t ?reg = Some (n, True)"
    by (rule current_key_found [OF conf(1) n(1,3) found(2)])
  have "reg' = ?reg \<and> nk = [] \<or> (\<exists>k. token = Some k \<and> (nk = [] \<or> nk = k) \<and>
      reg' = snd (rotate_node_key (n_id node) (kc_hash C k) (key_prefix k) h (unix (now + kc_grace C)) (unix now) ?reg))"
    using res kh
    by (auto simp: maybe_rotate_node_key_def confirmed_def Let_def split: if_splits option.splits prod.splits)
  then show ?thesis
  proof
    assume "reg' = ?reg \<and> nk = []"
    with keep n(2) show ?thesis by blast
  next
    assume "\<exists>k. token = Some k \<and> (nk = [] \<or> nk = k) \<and>
      reg' = snd (rotate_node_key (n_id node) (kc_hash C k) (key_prefix k) h (unix (now + kc_grace C)) (unix now) ?reg)"
    then obtain k where k: "token = Some k" "nk = [] \<or> nk = k" and
      reg': "reg' = snd (rotate_node_key (n_id n) (kc_hash C k) (key_prefix k) h (unix (now + kc_grace C)) (unix now) ?reg)"
      using n(2) by auto
    have new: "kc_hash C k \<noteq> []" "m \<in> set (reg_nodes ?reg) \<Longrightarrow> kc_hash C k \<notin> node_keys m" for m
      using conf(3) [of m] fresh [OF k(1)] by blast+
    have "h \<in> node_keys n" using n(3) found(2) by (simp add: node_keys_def)
    note rotated = rotated_keys [OF conf(1) n(1) new this reg', of t]
    from rotated k(2) n(2) deadline show ?thesis by auto
  qed
qed

lemma rotate_via_grace:
  assumes ok: "registry_ok reg"
    and auth: "node_by_any_key_hash h (unix now) reg = Some (node, False)"
    and fresh: "\<And>k. token = Some k \<Longrightarrow> kc_hash C k \<noteq> [] \<and> (\<forall>n\<in>set (reg_nodes reg). kc_hash C k \<notin> node_keys n)"
    and res: "maybe_rotate_node_key C now token node False reg = (nk, reg')"
    and deadline: "deadline = n_prev_key_expires_at node"
  shows "(t < deadline \<longrightarrow> (\<exists>n v. node_by_any_key_hash h t reg' = Some (n, v) \<and> n_id n = n_id node))
    \<and> (nk \<noteq> [] \<longrightarrow> (\<exists>n. node_by_any_key_hash (kc_hash C nk) t reg' = Some (n, True) \<and> n_id n = n_id node))"
proof -
  note found = node_by_any_key_hash_found [OF auth]
  have prev: "n_prev_key_hash node = h" "h \<noteq> []" using found(2,4) by simp_all
  show ?thesis
  proof (cases token)
    case None
    with res have "reg' = reg" "nk = []" by (simp_all add: maybe_rotate_node_key_def)
    moreover have "\<exists>n. node_by_any_key_hash h t reg = Some (n, False) \<and> n_id n = n_id node" if "t < n_prev_key_expires_at node"
    proof -
      have "find (\<lambda>n. n_prev_key_hash n = h \<and> t < n_prev_key_expires_at n) (reg_nodes reg) = Some node"
      proof (rule find_unique)
        show "m = node" if "m \<in> set (reg_nodes reg)" "n_prev_key_hash m = h \<and> t < n_prev_key_expires_at m" for m
          using registry_okD(2) [OF ok that(1) found(1), of h] that(2) prev by (simp add: node_keys_def)
      qed (use found(1) prev that in simp_all)
      moreover have "find (\<lambda>n. n_key_hash n = h) (reg_nodes reg) = None"
        using found(4) by (intro find_none) simp
      ultimately show ?thesis
        using prev by (simp add: node_by_any_key_hash_def node_by_key_hash_def node_by_def)
    qed
    ultimately show ?thesis using deadline by auto
  next
    case (Some k)
    note f = fresh [OF Some]
    note rot = rotate_node_key_ok [OF found(1) refl, of "kc_hash C k" "key_prefix k" "n_prev_key_hash node" "n_prev_key_expires_at node" "unix now"]
    have reg': "reg' = snd (rotate_node_key (n_id node) (kc_hash C k) (key_prefix k) h (n_prev_key_expires_at node) (unix now) reg)"
      and nk: "nk = k"
      using res Some rot prev by (auto simp: maybe_rotate_node_key_def split: prod.splits)
    have new: "kc_hash C k \<noteq> []" "m \<in> set (reg_nodes reg) \<Longrightarrow> kc_hash C k \<notin> node_keys m" for m
      using f by blast+
    have "h \<in> node_keys node" using prev by (simp add: node_keys_def)
    note rotated = rotated_keys [OF ok found(1) new this reg', of t]
    from rotated deadline nk show ?thesis by auto
  qed
qed

text \<open>
  C28: a poll never locks its node out. If the presented key is accepted when the poll
  arrives, then whether or not the answer reaches the node, that key is accepted afterwards
  until the grace deadline: a new one when the rotation starts now, the old one when a key
  is issued again. And a key that is handed out is the current key of that same node at once.
\<close>

theorem rotation_never_locks_out:
  assumes ok: "registry_ok reg"
    and auth: "node_by_any_key_hash h (unix now) reg = Some (node, via)"
    and fresh: "\<And>k. token = Some k \<Longrightarrow> kc_hash C k \<noteq> [] \<and> (\<forall>n\<in>set (reg_nodes reg). kc_hash C k \<notin> node_keys n)"
    and res: "maybe_rotate_node_key C now token node via reg = (nk, reg')"
    and deadline: "deadline = (if via then unix (now + kc_grace C) else n_prev_key_expires_at node)"
  shows "(t < deadline \<longrightarrow> (\<exists>n v. node_by_any_key_hash h t reg' = Some (n, v) \<and> n_id n = n_id node))
    \<and> (nk \<noteq> [] \<longrightarrow> (\<exists>n. node_by_any_key_hash (kc_hash C nk) t reg' = Some (n, True) \<and> n_id n = n_id node))"
  using rotate_via_current [OF ok, of h now node token C nk reg' deadline t]
    rotate_via_grace [OF ok, of h now node token C nk reg' deadline t] auth fresh res deadline
  by (cases via) simp_all

definition demo_keys :: key_config where
  "demo_keys = \<lparr>kc_hash = (\<lambda>k. CHR ''#'' # k), kc_max_age = 3600 * second, kc_grace = 60 * second,
     kc_require_approval = False\<rparr>"

definition demo_registry :: registry where
  "demo_registry = \<lparr>reg_nodes = [new_node 0 ''id1'' ''n1'' ''#k0'' [] True], reg_revoked = [],
     reg_enroll = [\<lparr>e_id = ''e'', e_name = [], e_key_hash = ''#join'', e_key_prefix = [], e_created_at = 0,
        e_created_by = [], e_expires_at = 0, e_max_uses = 2, e_use_count = 0, e_revoked = False\<rparr>],
     reg_audit = []\<rparr>"

lemma demo_registry_ok: "registry_ok demo_registry"
  by (simp add: registry_ok_def demo_registry_def new_node_def)

theorem rotation_never_locks_out_witness:
  "\<exists>n v. node_by_any_key_hash ''#k0'' 7205 (snd (maybe_rotate_node_key demo_keys (7200 * second) (Some ''k1'')
     (new_node 0 ''id1'' ''n1'' ''#k0'' [] True) True demo_registry)) = Some (n, v) \<and> n_id n = ''id1''"
proof -
  let ?node = "new_node 0 ''id1'' ''n1'' ''#k0'' [] True"
  let ?res = "maybe_rotate_node_key demo_keys (7200 * second) (Some ''k1'') ?node True demo_registry"
  have auth: "node_by_any_key_hash ''#k0'' (unix (7200 * second)) demo_registry = Some (?node, True)"
    by (simp add: demo_registry_def node_by_any_key_hash_def node_by_key_hash_def node_by_def new_node_def)
  have fresh: "kc_hash demo_keys k \<noteq> [] \<and> (\<forall>n\<in>set (reg_nodes demo_registry). kc_hash demo_keys k \<notin> node_keys n)"
    if "Some ''k1'' = Some k" for k
    using that by (auto simp: demo_keys_def demo_registry_def node_keys_def new_node_def)
  have res: "?res = (fst ?res, snd ?res)" by simp
  have "(7205::int) < (if True then unix (7200 * second + kc_grace demo_keys) else n_prev_key_expires_at ?node)"
    by (simp add: demo_keys_def unix_def)
  from this rotation_never_locks_out [OF demo_registry_ok auth fresh res refl, of 7205]
  show ?thesis by (simp add: new_node_def)
qed

text \<open>
  Renewing a key by hand promises that a running agent is not locked out, but a second
  renewal before the agent's next poll overwrites the only key the agent holds: it is refused
  while both grace windows are open, and so is its attempt to enroll again with that key.
\<close>

definition renewed_twice :: registry where
  "renewed_twice = snd (renew_node_key demo_keys (2 * second) (Some ''k2'') ''id1''
     (snd (renew_node_key demo_keys (1 * second) (Some ''k1'') ''id1'' demo_registry)))"

theorem renew_twice_locks_out:
  "map_option snd (node_by_any_key_hash ''#k0'' 3 (snd (renew_node_key demo_keys (1 * second) (Some ''k1'') ''id1'' demo_registry)))
     = Some False
   \<and> node_by_any_key_hash ''#k0'' 3 renewed_twice = None
   \<and> fst (cluster_enroll demo_keys (3 * second) \<lparr>rq_name = ''n1'', rq_token = ''join'', rq_node_id = ''id1'',
        rq_node_key = ''k0'', rq_suffix_ok = False\<rparr> (Some ''k3'') ''id2'' renewed_twice) = Enroll_Refused 403"
  by (intro conjI) code_simp+

subsection \<open>What enrollment can change\<close>

lemma consume_nodes [simp]: "reg_nodes (snd (consume_enroll_key h now reg)) = reg_nodes reg"
  by (simp add: consume_enroll_key_def)

lemma create_attempts_rows:
  "create_attempts k now i name h pfx approved reg = (res, reg') \<Longrightarrow>
     reg_enroll reg' = reg_enroll reg
     \<and> (case res of None \<Rightarrow> reg_nodes reg' = reg_nodes reg
        | Some u \<Rightarrow> reg_nodes reg' = reg_nodes reg @ [new_node now i u h pfx approved]
            \<and> (\<forall>n\<in>set (reg_nodes reg). n_name n \<noteq> u \<and> n_id n \<noteq> i))"
proof (induction k arbitrary: reg)
  case 0
  then show ?case by simp
next
  case (Suc k)
  show ?case
  proof (cases "list_ex (\<lambda>n. n_id n = i \<or> n_name n = unique_node_name name reg) (reg_nodes reg)")
    case True
    with Suc show ?thesis by (simp add: create_node_with_id_def Let_def)
  next
    case False
    with Suc.prems show ?thesis
      by (auto simp: create_node_with_id_def Let_def list_ex_iff)
  qed
qed

lemma enroll_new_rows: "n \<in> set (reg_nodes reg) \<Longrightarrow> n \<in> set (reg_nodes (snd (enroll_new C now name th key uuid reg)))"
  using create_attempts_rows [of 5 "unix now" uuid name "kc_hash C key" "key_prefix key" "\<not> kc_require_approval C"
      "snd (consume_enroll_key th (unix now) reg)"]
  by (auto simp: enroll_new_def split: prod.splits bool.splits option.splits)
    (metis (no_types, opaque_lifting) consume_nodes snd_conv)+

lemma rotate_enrolled_rows:
  "reg_nodes (snd (rotate_enrolled C now key existing reg)) =
     map (\<lambda>n. if n_id n = n_id existing then n\<lparr>n_key_hash := kc_hash C key, n_key_prefix := key_prefix key,
                 n_key_issued_at := unix now, n_prev_key_hash := [], n_prev_key_expires_at := 0\<rparr> else n)
       (reg_nodes reg)"
  by (simp add: rotate_enrolled_def update_node_key_def change_node_def split: option.split prod.split)

lemma enroll_by_name_rows:
  assumes ok: "registry_ok reg" and n: "n \<in> set (reg_nodes reg)"
    and gone: "n \<notin> set (reg_nodes (snd (enroll_by_name C now inp name th key uuid reg)))"
  shows "fst (enroll_key_valid th (unix now) reg) \<and> n_name n = name
    \<and> node_reclaim_after div second \<le> unix now - n_last_seen n"
proof (cases "node_by_name name reg")
  case None
  with gone enroll_new_rows [OF n] show ?thesis by (simp add: enroll_by_name_def)
next
  case (Some existing)
  have ex: "existing \<in> set (reg_nodes reg)" "n_name existing = name"
    using Some by (auto simp: node_by_name_def node_by_def split: if_splits dest: find_SomeD)
  have valid: "fst (enroll_key_valid th (unix now) reg)"
    and old: "node_reclaim_after div second \<le> unix now - n_last_seen existing"
    using gone n Some enroll_new_rows [OF n] by (auto simp: enroll_by_name_def split: if_splits)
  have "reg_nodes (snd (enroll_by_name C now inp name th key uuid reg)) = reg_nodes (snd (rotate_enrolled C now key existing reg))"
    using Some valid old by (simp add: enroll_by_name_def append_audit_def split: prod.split enroll_reply.split)
  with gone n have "n_id n = n_id existing"
    by (force simp: rotate_enrolled_rows)
  with registry_okD(1) [OF ok n ex(1)] ex(2) valid old show ?thesis by simp
qed

text \<open>
  C30: an enrollment leaves every node that is registered exactly as it is, unless it presents
  a valid enrollment key and either the id of the node together with the node's current key,
  and that id is not revoked, or the name of a node that has been silent for two minutes.
\<close>

theorem enrollment_takeover_guard:
  assumes ok: "registry_ok reg" and n: "n \<in> set (reg_nodes reg)"
    and gone: "n \<notin> set (reg_nodes (snd (cluster_enroll C now inp token uuid reg)))"
  shows "fst (enroll_key_valid (kc_hash C (trim_space (rq_token inp))) (unix now) reg)
    \<and> (n_id n = trim_space (rq_node_id inp) \<and> revoked_node_by_id (n_id n) reg = None
         \<and> rq_node_key inp \<noteq> [] \<and> kc_hash C (rq_node_key inp) = n_key_hash n
       \<or> n_name n = trim_space (rq_name inp) \<and> 120 \<le> unix now - n_last_seen n)"
proof -
  let ?name = "trim_space (rq_name inp)" and ?th = "kc_hash C (trim_space (rq_token inp))" and ?i = "trim_space (rq_node_id inp)"
  obtain key where key: "token = Some key"
    using gone n by (cases token) (auto simp: cluster_enroll_def Let_def split: if_splits)
  show ?thesis
  proof (cases "?i \<noteq> [] \<and> revoked_node_by_id ?i reg = None \<and> node_by_id ?i reg \<noteq> None")
    case True
    then obtain existing where ex: "node_by_id ?i reg = Some existing" by auto
    then have mem: "existing \<in> set (reg_nodes reg)" "n_id existing = ?i"
      by (auto simp: node_by_id_def node_by_def split: if_splits dest: find_SomeD)
    have "fst (enroll_key_valid ?th (unix now) reg)" "rq_node_key inp \<noteq> []" "kc_hash C (rq_node_key inp) = n_key_hash existing"
      "n \<notin> set (reg_nodes (snd (rotate_enrolled C now key existing reg)))"
      using gone n True ex key by (auto simp: cluster_enroll_def Let_def split: if_splits)
    moreover from this(4) n have "n_id n = n_id existing"
      by (force simp: rotate_enrolled_rows)
    ultimately show ?thesis
      using registry_okD(1) [OF ok n mem(1)] mem(2) True by simp
  next
    case False
    have "n \<notin> set (reg_nodes (snd (enroll_by_name C now inp ?name ?th key uuid reg)))"
      using gone n False key by (auto simp: cluster_enroll_def Let_def split: if_splits option.splits)
    from enroll_by_name_rows [OF ok n this] show ?thesis
      by (simp add: node_reclaim_after_def)
  qed
qed

theorem enrollment_takeover_guard_witness:
  "fst (enroll_key_valid (kc_hash demo_keys ''join'') (unix (200 * second)) demo_registry)"
proof -
  let ?n = "new_node 0 ''id1'' ''n1'' ''#k0'' [] True"
  let ?inp = "\<lparr>rq_name = ''n1'', rq_token = ''join'', rq_node_id = [], rq_node_key = [], rq_suffix_ok = False\<rparr>"
  have "map n_key_hash (reg_nodes (snd (cluster_enroll demo_keys (200 * second) ?inp (Some ''k9'') ''id2'' demo_registry))) = [''#k9'']"
    by code_simp
  then have "?n \<notin> set (reg_nodes (snd (cluster_enroll demo_keys (200 * second) ?inp (Some ''k9'') ''id2'' demo_registry)))"
    by (auto simp: new_node_def map_eq_Cons_conv)
  from enrollment_takeover_guard [OF demo_registry_ok _ this]
  have "fst (enroll_key_valid (kc_hash demo_keys (trim_space ''join'')) (unix (200 * second)) demo_registry)"
    by (simp add: demo_registry_def)
  moreover have "trim_space ''join'' = ''join''" by code_simp
  ultimately show ?thesis by simp
qed

text \<open>Enrollment keys: one hash each, and never used more often than allowed.\<close>

definition enroll_keys_ok :: "registry \<Rightarrow> bool" where
  "enroll_keys_ok reg \<longleftrightarrow> distinct (map e_key_hash (reg_enroll reg))
     \<and> (\<forall>k\<in>set (reg_enroll reg). e_max_uses k \<noteq> 0 \<longrightarrow> e_use_count k \<le> e_max_uses k)"

definition total_uses :: "registry \<Rightarrow> int" where
  "total_uses reg = sum_list (map e_use_count (reg_enroll reg))"

lemma usable_count:
  "distinct (map e_key_hash ks) \<Longrightarrow> length (filter (usable h now) ks) \<le> 1
   \<and> sum_list (map e_use_count (map (\<lambda>k. if usable h now k then k\<lparr>e_use_count := e_use_count k + 1\<rparr> else k) ks))
     = sum_list (map e_use_count ks) + int (length (filter (usable h now) ks))"
proof (induction ks)
  case Nil
  then show ?case by simp
next
  case (Cons k ks)
  show ?case
  proof (cases "usable h now k")
    case True
    have "filter (usable h now) ks = []"
    proof (rule ccontr)
      assume "filter (usable h now) ks \<noteq> []"
      then obtain q where "q \<in> set ks" "usable h now q" by (auto simp: filter_empty_conv)
      with True have "e_key_hash k = e_key_hash q" "q \<in> set ks" by (simp_all add: usable_def)
      then have "e_key_hash k \<in> e_key_hash ` set ks" by simp
      with Cons.prems show False by simp
    qed
    with Cons True show ?thesis by simp
  next
    case False
    with Cons show ?thesis by simp
  qed
qed

lemma consume_uses:
  assumes ok: "enroll_keys_ok reg" and res: "consume_enroll_key h now reg = (used, reg')"
  shows "enroll_keys_ok reg'" and "total_uses reg' = total_uses reg + (if used then 1 else 0)"
    and "\<not> used \<Longrightarrow> reg' = reg"
proof -
  note count = usable_count [of "reg_enroll reg" h now]
  have hashes: "map e_key_hash (map (\<lambda>k. if usable h now k then k\<lparr>e_use_count := e_use_count k + 1\<rparr> else k) ks) = map e_key_hash ks" for ks
    by simp
  show "enroll_keys_ok reg'"
  proof (cases "h = []")
    case True
    with ok res show ?thesis by (simp add: consume_enroll_key_def)
  next
    case False
    with res have reg': "reg_enroll reg' =
        map (\<lambda>k. if usable h now k then k\<lparr>e_use_count := e_use_count k + 1\<rparr> else k) (reg_enroll reg)"
      by (auto simp: consume_enroll_key_def)
    have "distinct (map e_key_hash (reg_enroll reg'))"
      unfolding reg' hashes using ok by (simp add: enroll_keys_ok_def)
    moreover have "\<forall>k\<in>set (reg_enroll reg'). e_max_uses k \<noteq> 0 \<longrightarrow> e_use_count k \<le> e_max_uses k"
      using ok by (auto simp: reg' enroll_keys_ok_def usable_def)
    ultimately show ?thesis by (simp add: enroll_keys_ok_def)
  qed
  have le: "length (filter (usable h now) (reg_enroll reg)) \<le> 1"
    using ok count by (simp add: enroll_keys_ok_def)
  have le': "length (filter (usable h now) (reg_enroll reg)) \<noteq> 1 \<Longrightarrow> filter (usable h now) (reg_enroll reg) = []"
    using le by (cases "filter (usable h now) (reg_enroll reg)") auto
  show "total_uses reg' = total_uses reg + (if used then 1 else 0)"
    using ok res count le le'
    by (auto simp: enroll_keys_ok_def consume_enroll_key_def total_uses_def simp del: map_map split: if_splits)
  show "\<not> used \<Longrightarrow> reg' = reg"
  proof -
    assume "\<not> used"
    with res le' have "h = [] \<or> filter (usable h now) (reg_enroll reg) = []"
      by (auto simp: consume_enroll_key_def split: if_splits)
    then have "map (\<lambda>k. if usable h now k then k\<lparr>e_use_count := e_use_count k + 1\<rparr> else k) (reg_enroll reg) = reg_enroll reg \<or> h = []"
      by (auto simp: filter_empty_conv intro!: map_idI)
    with res show ?thesis by (auto simp: consume_enroll_key_def split: if_splits)
  qed
qed

text \<open>
  The contract of an enrollment: a new node (201) is one appended row with the new key and a
  name nobody has, and costs exactly one use; a recovered node (200) costs none and adds no
  row; a refusal other than an internal error changes nothing.
\<close>

definition accounted :: "key_config \<Rightarrow> registry \<Rightarrow> enroll_reply \<Rightarrow> registry \<Rightarrow> bool" where
  "accounted C reg reply reg' \<longleftrightarrow> enroll_keys_ok reg' \<and>
     (case reply of
        Enroll_Refused c \<Rightarrow> c \<noteq> 500 \<longrightarrow> reg' = reg
      | Enrolled c i u key approved \<Rightarrow>
          if c = 201
          then total_uses reg' = total_uses reg + 1 \<and> u \<notin> n_name ` set (reg_nodes reg)
             \<and> (\<exists>n. reg_nodes reg' = reg_nodes reg @ [n] \<and> n_id n = i \<and> n_name n = u
                  \<and> n_key_hash n = kc_hash C key \<and> n_approved n = approved)
          else total_uses reg' = total_uses reg \<and> map n_id (reg_nodes reg') = map n_id (reg_nodes reg))"

lemma enroll_keys_ok_cong: "reg_enroll r = reg_enroll s \<Longrightarrow> enroll_keys_ok r = enroll_keys_ok s"
  "reg_enroll r = reg_enroll s \<Longrightarrow> total_uses r = total_uses s"
  by (simp_all add: enroll_keys_ok_def total_uses_def)

lemma accounted_new:
  assumes ok: "enroll_keys_ok reg" and res: "enroll_new C now name th key uuid reg = (reply, reg')"
  shows "accounted C reg reply reg'"
proof -
  obtain used reg1 where con: "consume_enroll_key th (unix now) reg = (used, reg1)" by fastforce
  note uses = consume_uses [OF ok con]
  have nodes: "reg_nodes reg1 = reg_nodes reg" using consume_nodes [of th "unix now" reg] con by simp
  show ?thesis
  proof (cases used)
    case False
    with uses res con show ?thesis by (auto simp: enroll_new_def accounted_def)
  next
    case True
    obtain u reg2 where att: "create_attempts 5 (unix now) uuid name (kc_hash C key) (key_prefix key)
        (\<not> kc_require_approval C) reg1 = (u, reg2)" by fastforce
    note rows = create_attempts_rows [OF att]
    note same = enroll_keys_ok_cong [of reg2 reg1]
    show ?thesis
    proof (cases u)
      case None
      with res con True att rows same uses show ?thesis by (auto simp: enroll_new_def accounted_def)
    next
      case (Some un)
      have "un \<notin> n_name ` set (reg_nodes reg)"
        using rows Some nodes by auto
      with res con True att rows Some same uses nodes show ?thesis
        by (auto simp: enroll_new_def accounted_def new_node_def)
    qed
  qed
qed

lemma accounted_rotate:
  assumes ok: "enroll_keys_ok reg" and res: "rotate_enrolled C now key existing reg = (reply, reg')"
  shows "accounted C reg reply reg'"
    and "(\<And>c. reply \<noteq> Enroll_Refused c) \<Longrightarrow> accounted C reg reply (append_audit user action reg')"
proof -
  have rows: "map n_id (reg_nodes reg') = map n_id (reg_nodes reg)"
    using rotate_enrolled_rows [of C now key existing reg] res by simp
  have "reg_enroll reg' = reg_enroll reg" and r: "reply = Enroll_Refused 500 \<or> (\<exists>i u k ap. reply = Enrolled 200 i u k ap)"
    using res by (auto simp: rotate_enrolled_def update_node_key_def change_node_def split: if_splits)
  note same = enroll_keys_ok_cong [OF this(1)]
  show "accounted C reg reply reg'"
    using r ok rows same by (auto simp: accounted_def)
  assume that: "\<And>c. reply \<noteq> Enroll_Refused c"
  have "enroll_keys_ok (append_audit user action reg') = enroll_keys_ok reg'"
    "total_uses (append_audit user action reg') = total_uses reg'"
    by (intro enroll_keys_ok_cong; simp add: append_audit_def)+
  with r ok rows same that show "accounted C reg reply (append_audit user action reg')"
    by (auto simp: accounted_def append_audit_def)
qed

lemma accounted_refused: "enroll_keys_ok reg \<Longrightarrow> accounted C reg (Enroll_Refused c) reg"
  by (simp add: accounted_def)

lemma accounted_by_name:
  assumes ok: "enroll_keys_ok reg" and res: "enroll_by_name C now inp name th key uuid reg = (reply, reg')"
  shows "accounted C reg reply reg'"
proof (cases "node_by_name name reg")
  case None
  with res accounted_new [OF ok] show ?thesis by (simp add: enroll_by_name_def)
next
  case (Some existing)
  obtain r reg1 where rot: "rotate_enrolled C now key existing reg = (r, reg1)" by fastforce
  consider "reply = Enroll_Refused 401 \<or> reply = Enroll_Refused 409" "reg' = reg"
    | "enroll_new C now name th key uuid reg = (reply, reg')"
    | "reply = r" "reg' = reg1"
    | "reply = r" "reg' = append_audit (''node:'' @ n_name existing) ''cluster.node.reclaim'' reg1" "\<And>c. r \<noteq> Enroll_Refused c"
  proof (cases r)
    case (Enroll_Refused c)
    with res Some rot that show ?thesis by (simp add: enroll_by_name_def split: if_split_asm)
  next
    case (Enrolled c i u k ap)
    with res Some rot that show ?thesis by (simp add: enroll_by_name_def split: if_split_asm)
  qed
  then show ?thesis
  proof cases
    case 1
    then show ?thesis using accounted_refused [OF ok] by blast
  next
    case 2
    then show ?thesis by (rule accounted_new [OF ok])
  next
    case 3
    then show ?thesis using accounted_rotate(1) [OF ok rot] by simp
  next
    case 4
    from accounted_rotate(2) [OF ok rot 4(3)] show ?thesis by (simp add: 4(1,2))
  qed
qed

text \<open>
  Enrollment keys pay for new nodes: every enrollment keeps each key within its allowed
  number of uses, a new node costs exactly one use and gets a name of its own, recovering a
  node costs none, and what is refused changes nothing.
\<close>

theorem enrollment_accounting:
  assumes ok: "enroll_keys_ok reg"
    and res: "cluster_enroll C now inp token uuid reg = (reply, reg')"
  shows "accounted C reg reply reg'"
proof -
  let ?name = "trim_space (rq_name inp)" and ?th = "kc_hash C (trim_space (rq_token inp))"
  consider c where "reply = Enroll_Refused c" "reg' = reg"
    | key where "enroll_by_name C now inp ?name ?th key uuid reg = (reply, reg')"
    | key existing where "rotate_enrolled C now key existing reg = (reply, reg')"
    using res unfolding cluster_enroll_def Let_def
    by (auto split: if_splits option.splits)
  then show ?thesis
  proof cases
    case 1
    then show ?thesis using accounted_refused [OF ok] by blast
  next
    case 2
    then show ?thesis by (rule accounted_by_name [OF ok])
  next
    case 3
    then show ?thesis by (rule accounted_rotate(1) [OF ok])
  qed
qed

theorem enrollment_accounting_witness:
  "accounted demo_keys demo_registry (Enrolled 201 ''id2'' ''n1-2'' ''k9'' True)
     (snd (cluster_enroll demo_keys (1 * second) \<lparr>rq_name = ''n1'', rq_token = ''join'', rq_node_id = [],
        rq_node_key = [], rq_suffix_ok = True\<rparr> (Some ''k9'') ''id2'' demo_registry))"
proof -
  let ?r = "cluster_enroll demo_keys (1 * second) \<lparr>rq_name = ''n1'', rq_token = ''join'', rq_node_id = [],
        rq_node_key = [], rq_suffix_ok = True\<rparr> (Some ''k9'') ''id2'' demo_registry"
  have "enroll_keys_ok demo_registry" by (simp add: enroll_keys_ok_def demo_registry_def)
  moreover have "?r = (Enrolled 201 ''id2'' ''n1-2'' ''k9'' True, snd ?r)"
    by (rule prod_eqI) (code_simp, simp)
  ultimately show ?thesis by (rule enrollment_accounting)
qed

end
