(* ===== verification/Agent_Sync.thy ===== *)
theory Agent_Sync
  imports Version_Cache Node_Registry Ip_Addr
begin

section \<open>Replication: the control plane's answer and the agent's cycle\<close>

text \<open>
  The handler \<open>clusterSnapshot\<close> of package \<open>api\<close>, which answers a node's poll, and the
  agent of package \<open>cluster\<close>, which polls, applies what it gets to its own tables and ships
  its query log. Hashes and the JSON of the forwarders an agent stores are parameters; the
  theorems use that decoding gives back what was encoded. The callbacks the agent calls are
  installed, as \<open>cmd/dns-resolver\<close> does: \<open>ag_effective_settings\<close> are the central settings
  the last call of \<open>applySettings\<close> read.
\<close>

record sync_lib =
  sl_digest :: "string \<Rightarrow> string"
  sl_short :: "string \<Rightarrow> string"
  sl_settings :: "string \<Rightarrow> string"
  sl_encode :: "forward_spec list \<Rightarrow> string"
  sl_decode :: "string \<Rightarrow> forward_spec list option"

definition sync_lib_ok :: "sync_lib \<Rightarrow> bool" where
  "sync_lib_ok L \<longleftrightarrow> (\<forall>fws. sl_decode L (sl_encode L fws) = Some fws \<and> sl_encode L fws \<noteq> [])"

definition settings_version :: "sync_lib \<Rightarrow> string \<Rightarrow> string" where
  [model]: "settings_version L raw = (if raw = [] then ''none'' else sl_settings L raw)"

record snapshot =
  sn_node_id :: string
  sn_new_node_key :: string
  sn_version :: string
  sn_rules :: "rule_row list"
  sn_rewrites :: "rewrite_row list"
  sn_forwarders :: "forward_spec list"
  sn_paused_until :: int
  sn_maintenance :: bool
  sn_settings :: string

subsection \<open>The agent's tables\<close>

definition meta_forwarders :: string where [model]: "meta_forwarders = ''cluster_forwarders''"
definition meta_settings :: string where [model]: "meta_settings = ''cluster_settings''"
definition meta_version :: string where [model]: "meta_version = ''applied_config_version''"
definition meta_fingerprint :: string where [model]: "meta_fingerprint = ''applied_config_fingerprint''"

definition cluster_forwarders :: "sync_lib \<Rightarrow> config_db \<Rightarrow> forward_spec list option" where
  [model]: "cluster_forwarders L db =
     (let raw = get_meta meta_forwarders db in if raw = [] then Some [] else sl_decode L raw)"

definition set_cluster_forwarders :: "sync_lib \<Rightarrow> forward_spec list \<Rightarrow> config_db \<Rightarrow> config_db" where
  [model]: "set_cluster_forwarders L fws db = bump (set_meta meta_forwarders (sl_encode L fws) db)"

definition config_version :: "sync_lib \<Rightarrow> config_db \<Rightarrow> string option" where
  [model]: "config_version L db =
     map_option (config_hash (sl_digest L) (replicated_rules db) (list_rewrites db)) (cluster_forwarders L db)"

text \<open>The rows of a snapshot as the \<open>INSERT\<close>s store them, from the id after \<open>seq\<close> on.\<close>

definition snapshot_rule :: "int \<Rightarrow> rule_row \<Rightarrow> rule_row" where
  [model]: "snapshot_rule i r = r\<lparr>u_id := i, u_category := or_custom (u_category r), u_list_id := 0\<rparr>"

definition snapshot_rewrite :: "int \<Rightarrow> rewrite_row \<Rightarrow> rewrite_row" where
  [model]: "snapshot_rewrite i rw =
     rw\<lparr>w_id := i, w_scope_type := scope_all, w_scope_values := [], w_source := [], w_external_id := []\<rparr>"

definition number_rows :: "(int \<Rightarrow> 'r \<Rightarrow> 'r) \<Rightarrow> int \<Rightarrow> 'r list \<Rightarrow> 'r list" where
  [model]: "number_rows f seq rows = map2 f (map (\<lambda>k. seq + 1 + int k) [0..<length rows]) rows"

text \<open>One transaction: a row that breaks a \<open>UNIQUE\<close> key rolls everything back.\<close>

definition apply_snapshot :: "rule_row list \<Rightarrow> rewrite_row list \<Rightarrow> config_db \<Rightarrow> store_error option \<times> config_db" where
  [model]: "apply_snapshot rules rewrites db =
     (let rs = number_rows snapshot_rule (db_rules_seq db) rules;
          ws = number_rows snapshot_rewrite (db_rewrites_seq db) rewrites in
      if \<not> distinct (map u_key rs) \<or> \<not> distinct (map w_key ws) then (Some Unique_Violation, db)
      else (None, bump (db\<lparr>db_rules := rs, db_rules_seq := db_rules_seq db + int (length rs),
                          db_rewrites := ws, db_rewrites_seq := db_rewrites_seq db + int (length ws)\<rparr>)))"

definition max_id :: "int list \<Rightarrow> int" where
  [model]: "max_id ids = foldl max 0 ids"

definition local_config_fingerprint :: "sync_lib \<Rightarrow> config_db \<Rightarrow> string" where
  [model]: "local_config_fingerprint L db =
     ''rules:'' @ format_int (max_id (map u_id (db_rules db))) @ '':'' @ format_nat (length (db_rules db)) @ ''|''
     @ ''rewrites:'' @ format_int (max_id (map w_id (db_rewrites db))) @ '':'' @ format_nat (length (db_rewrites db)) @ ''|''
     @ ''fwd:'' @ sl_short L (get_meta meta_forwarders db)"

definition record_version :: "sync_lib \<Rightarrow> string \<Rightarrow> config_db \<Rightarrow> string option \<times> config_db" where
  [model]: "record_version L fp db =
     (case config_version L db of
        None \<Rightarrow> (None, db)
      | Some v \<Rightarrow> (Some v, set_meta meta_fingerprint fp (set_meta meta_version v (set_meta meta_fingerprint [] db))))"

definition record_local_config_version :: "sync_lib \<Rightarrow> config_db \<Rightarrow> string option \<times> config_db" where
  [model]: "record_local_config_version L db = record_version L (local_config_fingerprint L db) db"

definition local_config_version :: "sync_lib \<Rightarrow> config_db \<Rightarrow> string option \<times> config_db" where
  [model]: "local_config_version L db =
     (let fp = local_config_fingerprint L db; v = get_meta meta_version db in
      if v \<noteq> [] \<and> get_meta meta_fingerprint db = fp then (Some v, db) else record_version L fp db)"

subsection \<open>The agent\<close>

record agent =
  ag_db :: config_db
  ag_key :: string
  ag_node_id :: string
  ag_version :: string
  ag_settings_ver :: string
  ag_state_applied :: bool
  ag_paused :: int
  ag_maint :: bool
  ag_effective_settings :: string
  ag_reloads :: nat
  ag_last_ok :: int
  ag_last_error :: "int \<times> string"

datatype fetched = Fetch_Failed string | Fetched_Unchanged | Fetched snapshot

definition local_version :: "sync_lib \<Rightarrow> agent \<Rightarrow> string \<times> agent" where
  [model]: "local_version L a =
     (if ag_version a \<noteq> [] then (ag_version a, a)
      else case local_config_version L (ag_db a) of
             (None, db) \<Rightarrow> ([], a\<lparr>ag_db := db\<rparr>)
           | (Some v, db) \<Rightarrow> (v, a\<lparr>ag_db := db, ag_version := v\<rparr>))"

definition note_fetch :: "int \<Rightarrow> fetched \<Rightarrow> agent \<Rightarrow> agent" where
  [model]: "note_fetch now_ms f a =
     (case f of Fetch_Failed e \<Rightarrow> a\<lparr>ag_last_error := (now_ms, e)\<rparr> | _ \<Rightarrow> a\<lparr>ag_last_ok := now_ms\<rparr>)"

definition adopt_identity :: "snapshot \<Rightarrow> agent \<Rightarrow> agent" where
  [model]: "adopt_identity snap a =
     (let a = (if sn_node_id snap \<noteq> [] \<and> ag_node_id a = [] then a\<lparr>ag_node_id := sn_node_id snap\<rparr> else a) in
      if sn_new_node_key snap \<noteq> [] \<and> sn_new_node_key snap \<noteq> ag_key a
      then a\<lparr>ag_key := sn_new_node_key snap\<rparr> else a)"

definition adopt_state :: "snapshot \<Rightarrow> agent \<Rightarrow> agent" where
  [model]: "adopt_state snap a =
     a\<lparr>ag_paused := sn_paused_until snap, ag_maint := sn_maintenance snap, ag_state_applied := True\<rparr>"

definition adopt_settings :: "sync_lib \<Rightarrow> snapshot \<Rightarrow> agent \<Rightarrow> bool \<times> agent" where
  [model]: "adopt_settings L snap a =
     (let v = settings_version L (sn_settings snap) in
      if v \<noteq> ag_settings_ver a
      then (True, a\<lparr>ag_db := set_meta meta_settings (sn_settings snap) (ag_db a), ag_settings_ver := v\<rparr>)
      else (False, a))"

definition merge_settings :: "agent \<Rightarrow> agent" where
  [model]: "merge_settings a = a\<lparr>ag_effective_settings := get_meta meta_settings (ag_db a)\<rparr>"

definition apply_config :: "sync_lib \<Rightarrow> snapshot \<Rightarrow> agent \<Rightarrow> agent" where
  [model]: "apply_config L snap a =
     (let a = a\<lparr>ag_version := [], ag_db := set_cluster_forwarders L (sn_forwarders snap) (ag_db a)\<rparr> in
      case apply_snapshot (sn_rules snap) (sn_rewrites snap) (ag_db a) of
        (Some _, db) \<Rightarrow> a\<lparr>ag_db := db\<rparr>
      | (None, db) \<Rightarrow>
          (let (v, db) = record_local_config_version L db;
               a = a\<lparr>ag_db := db, ag_version := (case v of None \<Rightarrow> [] | Some v \<Rightarrow> v)\<rparr> in
           (merge_settings a)\<lparr>ag_reloads := Suc (ag_reloads a)\<rparr>))"

definition sync_once :: "sync_lib \<Rightarrow> int \<Rightarrow> fetched \<Rightarrow> agent \<Rightarrow> agent" where
  [model]: "sync_once L now_ms f a =
     (let a = note_fetch now_ms f a in
      case f of
        Fetched snap \<Rightarrow>
          (let (settings_changed, a) = adopt_settings L snap (adopt_state snap (adopt_identity snap a));
               (v, a) = local_version L a in
           if sn_version snap = v then (if settings_changed then merge_settings a else a)
           else apply_config L snap a)
      | _ \<Rightarrow> a)"

subsection \<open>The poll and its answer\<close>

record poll_request =
  pr_auth :: string
  pr_node_version :: string
  pr_accept_not_modified :: string
  pr_node_id :: string
  pr_paused_until :: string
  pr_maintenance :: string
  pr_settings_version :: string
  pr_advertise_addr :: string
  pr_app_version :: string
  pr_stats :: node_stats
  pr_client_ip :: string

definition maintenance_flag :: "bool \<Rightarrow> string" where
  [model]: "maintenance_flag on = (if on then ''1'' else ''0'')"

text \<open>The request of \<open>fetch\<close>; headers that are not set read as empty.\<close>

definition poll_request_of ::
    "sync_lib \<Rightarrow> string \<Rightarrow> string \<Rightarrow> node_stats \<Rightarrow> string \<Rightarrow> agent \<Rightarrow> poll_request \<times> agent" where
  [model]: "poll_request_of L advertise app_version stats ip a =
     (let (v, a) = local_version L a; s = ag_state_applied a in
      (\<lparr>pr_auth = ''Bearer '' @ ag_key a, pr_node_version = v,
        pr_accept_not_modified = (if s then ''1'' else []),
        pr_node_id = (if s then ag_node_id a else []),
        pr_paused_until = (if s then format_int (ag_paused a) else []),
        pr_maintenance = (if s then maintenance_flag (ag_maint a) else []),
        pr_settings_version = (if s then ag_settings_ver a else []),
        pr_advertise_addr = advertise, pr_app_version = app_version, pr_stats = stats, pr_client_ip = ip\<rparr>, a))"

record control =
  cp_db :: config_db
  cp_reg :: registry
  cp_cache :: version_cache

datatype poll_reply = Poll_Refused nat | Poll_Not_Modified | Poll_Snapshot snapshot

definition valid_advertise_addr :: "string \<Rightarrow> bool" where
  [model]: "valid_advertise_addr s \<longleftrightarrow>
     (if parse_ip s \<noteq> None then True
      else case split_host_port s of
             None \<Rightarrow> False
           | Some (host, port) \<Rightarrow> host \<noteq> [] \<and> atoi port \<noteq> None \<and> parse_ip host \<noteq> None)"

definition sanitize_version :: "string \<Rightarrow> string" where
  [model]: "sanitize_version v =
     (let v = trim_space v; v = (if 64 < length v then take 64 v else v) in
      if list_ex (\<lambda>c. byte c < 32 \<or> 126 < byte c) v then [] else v)"

definition agent_holds_snapshot_state :: "poll_request \<Rightarrow> node_row \<Rightarrow> string \<Rightarrow> int \<Rightarrow> string \<Rightarrow> bool" where
  [model]: "agent_holds_snapshot_state r node ver paused_until settings_ver \<longleftrightarrow>
     pr_accept_not_modified r = ''1'' \<and> ver \<noteq> [] \<and> pr_node_id r = n_id node
     \<and> pr_paused_until r = format_int paused_until \<and> pr_maintenance r = maintenance_flag (n_maintenance node)
     \<and> (pr_settings_version r = [] \<or> pr_settings_version r = settings_ver)"

text \<open>
  \<open>settings\<close> is what \<open>replicatedSettings\<close> returns, \<open>None\<close> for its error; \<open>token\<close> the random
  key a rotation would hand out.
\<close>

definition cluster_snapshot ::
    "sync_lib \<Rightarrow> key_config \<Rightarrow> time \<Rightarrow> string option \<Rightarrow> string option \<Rightarrow> poll_request \<Rightarrow> control \<Rightarrow> poll_reply \<times> control" where
  [model]: "cluster_snapshot L C now token settings r cp =
     (case bearer (pr_auth r) of
        None \<Rightarrow> (Poll_Refused 401, cp)
      | Some key \<Rightarrow>
          (case node_by_any_key_hash (kc_hash C key) (unix now) (cp_reg cp) of
             None \<Rightarrow> (Poll_Refused 401, cp)
           | Some (node, via_current) \<Rightarrow>
               if \<not> n_approved node then (Poll_Refused 403, cp)
               else (let (new_key, reg) = maybe_rotate_node_key C now token node via_current (cp_reg cp);
                         ver = pr_node_version r;
                         adv = trim_space (pr_advertise_addr r);
                         addr = (if adv \<noteq> [] \<and> valid_advertise_addr adv then adv else pr_client_ip r);
                         reg = (if n_address node \<noteq> [] \<and> addr \<noteq> n_address node
                                then append_audit (''node:'' @ n_name node) ''cluster.node.address'' reg else reg);
                         reg = touch_node (unix now) (n_id node) addr ver (sanitize_version (pr_app_version r))
                                 (pr_stats r) reg;
                         cp = cp\<lparr>cp_reg := reg\<rparr>;
                         paused = get_block_paused_until (cp_db cp) in
                     case settings of
                       None \<Rightarrow> (Poll_Refused 500, cp)
                     | Some raw \<Rightarrow>
                         (let holds = (new_key = []
                                \<and> agent_holds_snapshot_state r node ver paused (settings_version L raw));
                              (cur, cache) = (if holds
                                then map_prod Some id (cached_config_version_for_node (sl_digest L) now (cp_db cp)
                                       (n_name node) (n_site node) (cp_cache cp))
                                else (None, cp_cache cp));
                              cp = cp\<lparr>cp_cache := cache\<rparr> in
                          if cur = Some ver then (Poll_Not_Modified, cp)
                          else (let (s, cache) = snapshot_for_node (sl_digest L) now (cp_db cp) (n_name node)
                                                   (n_site node) (cp_cache cp) in
                                (Poll_Snapshot \<lparr>sn_node_id = n_id node, sn_new_node_key = new_key,
                                   sn_version = ns_version s, sn_rules = ns_rules s, sn_rewrites = ns_rewrites s,
                                   sn_forwarders = ns_forwarders s, sn_paused_until = paused,
                                   sn_maintenance = n_maintenance node, sn_settings = raw\<rparr>,
                                 cp\<lparr>cp_cache := cache\<rparr>))))))"

subsection \<open>An applied snapshot is the served content\<close>

lemma meta_keys_distinct [simp]:
  "meta_settings \<noteq> meta_forwarders" "meta_forwarders \<noteq> meta_settings"
  "meta_settings \<noteq> meta_version" "meta_version \<noteq> meta_settings"
  "meta_settings \<noteq> meta_fingerprint" "meta_fingerprint \<noteq> meta_settings"
  "meta_forwarders \<noteq> meta_version" "meta_version \<noteq> meta_forwarders"
  "meta_forwarders \<noteq> meta_fingerprint" "meta_fingerprint \<noteq> meta_forwarders"
  "meta_version \<noteq> meta_fingerprint" "meta_fingerprint \<noteq> meta_version"
  by (simp_all add: meta_settings_def meta_forwarders_def meta_version_def meta_fingerprint_def)

definition rule_content :: "rule_row \<Rightarrow> string \<times> string \<times> string \<times> bool" where
  "rule_content r = (u_action r, u_domain r, u_category r, u_enabled r)"

definition rewrite_content :: "rewrite_row \<Rightarrow> string \<times> string \<times> string \<times> bool" where
  "rewrite_content w = (w_domain w, w_rrtype w, w_value w, w_enabled w)"

lemma number_rows_map:
  assumes "\<And>i r. g (f i r) = h r"
  shows "map g (number_rows f seq rows) = map h rows"
  by (rule nth_equalityI) (simp_all add: number_rows_def assms)

lemma length_number_rows [simp]: "length (number_rows f seq rows) = length rows"
  by (simp add: number_rows_def)

lemma set_number_rows: "r \<in> set (number_rows f seq rows) \<Longrightarrow> \<exists>i q. q \<in> set rows \<and> r = f i q"
proof -
  assume "r \<in> set (number_rows f seq rows)"
  then obtain i where "i < length rows" "number_rows f seq rows ! i = r"
    by (auto simp: in_set_conv_nth)
  then have "rows ! i \<in> set rows" "r = f (seq + 1 + int i) (rows ! i)"
    by (auto simp: number_rows_def)
  then show ?thesis by blast
qed

lemma mset_map_sort_key: "mset (map g (sort_key f xs)) = mset (map g xs)"
  by (simp only: mset_map mset_sort)

lemma rule_line_content: "rule_line r = (case rule_content r of (a, d, c, e) \<Rightarrow>
    ''R|'' @ a @ ''|'' @ d @ ''|'' @ c @ ''|'' @ format_bool e)"
  by (simp add: rule_line_def rule_content_def)

lemma rewrite_line_content: "rewrite_line w = (case rewrite_content w of (d, t, v, e) \<Rightarrow>
    ''W|'' @ d @ ''|'' @ t @ ''|'' @ v @ ''|'' @ format_bool e)"
  by (simp add: rewrite_line_def rewrite_content_def)

lemma same_content_hash:
  assumes "mset (map rule_content rs) = mset (map rule_content rs')"
    and "mset (map rewrite_content ws) = mset (map rewrite_content ws')"
  shows "config_hash dig rs ws fws = config_hash dig rs' ws' fws"
proof -
  have lines: "map rule_line xs = map (\<lambda>(a, d, c, e). ''R|'' @ a @ ''|'' @ d @ ''|'' @ c @ ''|'' @ format_bool e) (map rule_content xs)"
    "map rewrite_line ys = map (\<lambda>(d, t, v, e). ''W|'' @ d @ ''|'' @ t @ ''|'' @ v @ ''|'' @ format_bool e) (map rewrite_content ys)"
    for xs ys by (simp_all add: rule_line_content rewrite_line_content)
  have "mset (map rule_line rs) = mset (map rule_line rs')" "mset (map rewrite_line ws) = mset (map rewrite_line ws')"
    unfolding lines using assms by (simp_all only: mset_map)
  then show ?thesis
    by (auto simp: config_hash_def config_lines_def intro!: hash_lines_mset simp del: mset_map)
qed

lemma set_meta_tables [simp]:
  "db_rules (set_meta k v db) = db_rules db" "db_rules_seq (set_meta k v db) = db_rules_seq db"
  "db_lists (set_meta k v db) = db_lists db" "db_rewrites (set_meta k v db) = db_rewrites db"
  "db_rewrites_seq (set_meta k v db) = db_rewrites_seq db" "db_verdicts (set_meta k v db) = db_verdicts db"
  "replicated_rules (set_meta k v db) = replicated_rules db" "list_rewrites (set_meta k v db) = list_rewrites db"
  by (simp_all add: set_meta_def replicated_rules_def active_rules_def active_rule_def [abs_def] get_list_def
      active_ai_blocked_def list_rewrites_def)

lemma get_set_meta [simp]: "get_meta k (set_meta k' v db) = (if k = k' then v else get_meta k db)"
  by (simp add: get_meta_def set_meta_def update_conv')

lemma get_meta_bump [simp]: "get_meta k (bump db) = get_meta k db"
  by (simp add: get_meta_def bump_def)

definition no_verdicts :: "config_db \<Rightarrow> bool" where
  "no_verdicts db \<longleftrightarrow> active_ai_blocked db = []"

lemma no_verdicts_meta [simp]: "no_verdicts (set_meta k v db) = no_verdicts db" "no_verdicts (bump db) = no_verdicts db"
  by (simp_all add: no_verdicts_def active_ai_blocked_def)

text \<open>What a control plane serves fits the constraints of an agent's tables.\<close>

definition servable :: "rule_row list \<Rightarrow> rewrite_row list \<Rightarrow> bool" where
  "servable rules rewrites \<longleftrightarrow> distinct (map u_key rules) \<and> distinct (map rewrite_name rewrites)
     \<and> (\<forall>r\<in>set rules. u_category r \<noteq> [] \<and> u_enabled r)"

lemma snapshot_servable:
  assumes "rules_ok db" "rewrites_ok db"
  shows "servable (replicated_rules db) (list_rewrites_for_node db name site)"
proof -
  have "u_category r \<noteq> [] \<and> u_enabled r" if "r \<in> set (replicated_rules db)" for r
    using that assms(1) by (auto simp: replicated_rules_append rules_ok_def active_rule_def)
  with replicated_rules_distinct [OF assms(1)] served_names_distinct [of db name site]
  show ?thesis by (simp add: servable_def)
qed

lemma apply_snapshot_content:
  assumes s: "servable rules rewrites" and none: "no_verdicts db"
  obtains db' where "apply_snapshot rules rewrites db = (None, db')" and "db_meta db' = db_meta db"
    and "no_verdicts db'"
    and "mset (map rule_content (replicated_rules db')) = mset (map rule_content rules)"
    and "mset (map rewrite_content (list_rewrites db')) = mset (map rewrite_content rewrites)"
proof -
  let ?rs = "number_rows snapshot_rule (db_rules_seq db) rules"
  let ?ws = "number_rows snapshot_rewrite (db_rewrites_seq db) rewrites"
  let ?db = "bump (db\<lparr>db_rules := ?rs, db_rules_seq := db_rules_seq db + int (length ?rs),
      db_rewrites := ?ws, db_rewrites_seq := db_rewrites_seq db + int (length ?ws)\<rparr>)"
  have "map u_key ?rs = map u_key rules"
    by (rule number_rows_map) (simp add: snapshot_rule_def u_key_def)
  moreover have "map w_key ?ws = map (\<lambda>w. (w_domain w, w_rrtype w, scope_all, [])) rewrites"
    by (rule number_rows_map) (simp add: snapshot_rewrite_def w_key_def)
  moreover have "distinct (map (\<lambda>w. (w_domain w, w_rrtype w, scope_all, [] :: string list)) rewrites)"
    using s by (auto simp: servable_def rewrite_name_def distinct_map inj_on_def)
  ultimately have "apply_snapshot rules rewrites db = (None, ?db)"
    using s by (simp add: apply_snapshot_def servable_def Let_def)
  moreover have "db_meta ?db = db_meta db" "no_verdicts ?db"
    using none by (simp_all add: no_verdicts_def active_ai_blocked_def bump_def)
  moreover have "mset (map rule_content (replicated_rules ?db)) = mset (map rule_content rules)"
  proof -
    have act: "active_rule ?db r" if "r \<in> set ?rs" for r
      using set_number_rows [OF that] s by (auto simp: active_rule_def snapshot_rule_def servable_def)
    then have "filter (active_rule ?db) ?rs = ?rs" by simp
    then have "replicated_rules ?db = sort_key u_domain ?rs"
      using none by (simp add: replicated_rules_def active_rules_def no_verdicts_def active_ai_blocked_def Let_def)
    moreover have "map rule_content ?rs = map (\<lambda>r. (u_action r, u_domain r, or_custom (u_category r), u_enabled r)) rules"
      by (rule number_rows_map) (simp add: snapshot_rule_def rule_content_def)
    moreover have "\<dots> = map rule_content rules"
      using s by (auto simp: servable_def rule_content_def or_custom_def)
    ultimately show ?thesis by (simp only: mset_map_sort_key)
  qed
  moreover have "mset (map rewrite_content (list_rewrites ?db)) = mset (map rewrite_content rewrites)"
  proof -
    have "map rewrite_content ?ws = map rewrite_content rewrites"
      by (rule number_rows_map) (simp add: snapshot_rewrite_def rewrite_content_def)
    moreover have "list_rewrites ?db = sort_key w_domain ?ws"
      by (simp add: list_rewrites_def bump_def)
    ultimately show ?thesis by (simp only: mset_map_sort_key)
  qed
  ultimately show thesis by (rule that)
qed

lemma local_version_keeps:
  "no_verdicts (ag_db (snd (local_version L a))) = no_verdicts (ag_db a)"
  "ag_state_applied (snd (local_version L a)) = ag_state_applied a"
  "ag_paused (snd (local_version L a)) = ag_paused a" "ag_maint (snd (local_version L a)) = ag_maint a"
  "ag_settings_ver (snd (local_version L a)) = ag_settings_ver a" "ag_key (snd (local_version L a)) = ag_key a"
  "ag_node_id (snd (local_version L a)) = ag_node_id a"
  "get_meta meta_settings (ag_db (snd (local_version L a))) = get_meta meta_settings (ag_db a)"
  "fst (local_version L a) \<noteq> [] \<Longrightarrow> ag_version (snd (local_version L a)) = fst (local_version L a)"
  by (simp_all add: local_version_def local_config_version_def record_version_def Let_def
      split: option.split prod.split)

lemma apply_config_result:
  assumes L: "sync_lib_ok L" and s: "servable (sn_rules snap) (sn_rewrites snap)" and none: "no_verdicts (ag_db a)"
    and v: "sn_version snap = config_hash (sl_digest L) (sn_rules snap) (sn_rewrites snap) (sn_forwarders snap)"
  shows "ag_version (apply_config L snap a) = sn_version snap"
    and "config_version L (ag_db (apply_config L snap a)) = Some (sn_version snap)"
    and "mset (map rule_content (replicated_rules (ag_db (apply_config L snap a)))) = mset (map rule_content (sn_rules snap))"
    and "mset (map rewrite_content (list_rewrites (ag_db (apply_config L snap a)))) = mset (map rewrite_content (sn_rewrites snap))"
    and "cluster_forwarders L (ag_db (apply_config L snap a)) = Some (sn_forwarders snap)"
    and "ag_effective_settings (apply_config L snap a) = get_meta meta_settings (ag_db a)"
proof -
  let ?db = "set_cluster_forwarders L (sn_forwarders snap) (ag_db a)"
  have nv: "no_verdicts ?db" using none by (simp add: set_cluster_forwarders_def)
  obtain db' where ap: "apply_snapshot (sn_rules snap) (sn_rewrites snap) ?db = (None, db')"
    and meta: "db_meta db' = db_meta ?db"
    and rules: "mset (map rule_content (replicated_rules db')) = mset (map rule_content (sn_rules snap))"
    and rws: "mset (map rewrite_content (list_rewrites db')) = mset (map rewrite_content (sn_rewrites snap))"
    by (rule apply_snapshot_content [OF s nv])
  have get: "get_meta k db' = get_meta k ?db" for k
    using meta by (simp add: get_meta_def)
  have fws: "cluster_forwarders L db = Some (sn_forwarders snap)" if "get_meta meta_forwarders db = sl_encode L (sn_forwarders snap)" for db
    using that L by (simp add: cluster_forwarders_def sync_lib_ok_def)
  have fw': "get_meta meta_forwarders db' = sl_encode L (sn_forwarders snap)"
    by (simp add: get set_cluster_forwarders_def)
  have ver: "config_version L db = Some (sn_version snap)"
    if "get_meta meta_forwarders db = sl_encode L (sn_forwarders snap)" "replicated_rules db = replicated_rules db'"
      "list_rewrites db = list_rewrites db'" for db
    using same_content_hash [OF rules rws] fws [OF that(1)] that(2,3) v by (simp add: config_version_def)
  let ?fin = "set_meta meta_fingerprint (local_config_fingerprint L db')
      (set_meta meta_version (sn_version snap) (set_meta meta_fingerprint [] db'))"
  have rec: "record_local_config_version L db' = (Some (sn_version snap), ?fin)"
    using ver [OF fw'] by (simp add: record_local_config_version_def record_version_def)
  have fin: "ag_db (apply_config L snap a) = ?fin"
    by (simp add: apply_config_def ap rec Let_def merge_settings_def)
  have gfin: "get_meta meta_forwarders ?fin = sl_encode L (sn_forwarders snap)"
    using fw' by simp
  show "ag_version (apply_config L snap a) = sn_version snap"
    by (simp add: apply_config_def ap rec Let_def merge_settings_def)
  show "config_version L (ag_db (apply_config L snap a)) = Some (sn_version snap)"
    unfolding fin by (rule ver [OF gfin]) simp_all
  show "mset (map rule_content (replicated_rules (ag_db (apply_config L snap a)))) = mset (map rule_content (sn_rules snap))"
    "mset (map rewrite_content (list_rewrites (ag_db (apply_config L snap a)))) = mset (map rewrite_content (sn_rewrites snap))"
    unfolding fin using rules rws by (simp_all del: mset_map)
  show "cluster_forwarders L (ag_db (apply_config L snap a)) = Some (sn_forwarders snap)"
    unfolding fin by (rule fws [OF gfin])
  show "ag_effective_settings (apply_config L snap a) = get_meta meta_settings (ag_db a)"
  proof -
    have "ag_effective_settings (apply_config L snap a) = get_meta meta_settings ?fin"
      by (simp add: apply_config_def ap rec Let_def merge_settings_def)
    then show ?thesis by (simp add: get set_cluster_forwarders_def)
  qed
qed

text \<open>The snapshot a control plane serves to a node, whatever the other fields say.\<close>

definition serves_snapshot :: "sync_lib \<Rightarrow> config_db \<Rightarrow> string \<Rightarrow> string \<Rightarrow> snapshot \<Rightarrow> bool" where
  "serves_snapshot L db name site snap \<longleftrightarrow>
     sn_rules snap = replicated_rules db \<and> sn_rewrites snap = list_rewrites_for_node db name site
     \<and> sn_forwarders snap = list_forwarders_for_node db name site
     \<and> sn_version snap = config_version_for_node (sl_digest L) db name site"

lemma note_fetch_keeps [simp]:
  "ag_db (note_fetch t f a) = ag_db a" "ag_key (note_fetch t f a) = ag_key a"
  "ag_node_id (note_fetch t f a) = ag_node_id a" "ag_settings_ver (note_fetch t f a) = ag_settings_ver a"
  "ag_version (note_fetch t f a) = ag_version a"
  by (simp_all add: note_fetch_def split: fetched.split)

lemma adopt_identity_keeps [simp]:
  "ag_db (adopt_identity snap a) = ag_db a" "ag_settings_ver (adopt_identity snap a) = ag_settings_ver a"
  "ag_node_id (adopt_identity snap a) = (if ag_node_id a = [] then sn_node_id snap else ag_node_id a)"
  "ag_key (adopt_identity snap a) = (if sn_new_node_key snap = [] then ag_key a else sn_new_node_key snap)"
  by (auto simp: adopt_identity_def Let_def)

lemma adopted_keeps:
  assumes "adopt_settings L snap (adopt_state snap (adopt_identity snap (note_fetch t f a))) = (c, b)"
  shows "no_verdicts (ag_db b) = no_verdicts (ag_db a)" and "ag_state_applied b" and "ag_paused b = sn_paused_until snap"
    and "ag_maint b = sn_maintenance snap" and "ag_settings_ver b = settings_version L (sn_settings snap)"
    and "ag_node_id b = (if ag_node_id a = [] then sn_node_id snap else ag_node_id a)"
    and "ag_key b = (if sn_new_node_key snap = [] then ag_key a else sn_new_node_key snap)"
  using assms by (auto simp: adopt_settings_def adopt_state_def Let_def split: if_splits)

lemma served_content:
  assumes "rules_ok db" "rewrites_ok db" and "serves_snapshot L db name site snap"
  shows "servable (sn_rules snap) (sn_rewrites snap)"
    and "sn_version snap = config_hash (sl_digest L) (sn_rules snap) (sn_rewrites snap) (sn_forwarders snap)"
  using assms snapshot_servable [OF assms(1,2)] by (simp_all add: serves_snapshot_def config_version_for_node_def)

lemma apply_config_keeps:
  "ag_state_applied (apply_config L snap a) = ag_state_applied a" "ag_paused (apply_config L snap a) = ag_paused a"
  "ag_maint (apply_config L snap a) = ag_maint a" "ag_settings_ver (apply_config L snap a) = ag_settings_ver a"
  "ag_key (apply_config L snap a) = ag_key a" "ag_node_id (apply_config L snap a) = ag_node_id a"
  by (simp_all add: apply_config_def Let_def merge_settings_def split: prod.split option.split)

lemma merge_settings_keeps:
  "ag_state_applied (merge_settings a) = ag_state_applied a" "ag_paused (merge_settings a) = ag_paused a"
  "ag_maint (merge_settings a) = ag_maint a" "ag_settings_ver (merge_settings a) = ag_settings_ver a"
  "ag_key (merge_settings a) = ag_key a" "ag_node_id (merge_settings a) = ag_node_id a"
  "ag_version (merge_settings a) = ag_version a"
  by (simp_all add: merge_settings_def)

lemma synced_state:
  assumes L: "sync_lib_ok L" and ok: "rules_ok db" "rewrites_ok db" and none: "no_verdicts (ag_db a)"
    and snap: "serves_snapshot L db name site snap" and v: "sn_version snap \<noteq> []"
    and a': "a' = sync_once L t (Fetched snap) a"
  shows "ag_version a' = sn_version snap" and "ag_state_applied a'" and "ag_paused a' = sn_paused_until snap"
    and "ag_maint a' = sn_maintenance snap" and "ag_settings_ver a' = settings_version L (sn_settings snap)"
    and "ag_node_id a' = (if ag_node_id a = [] then sn_node_id snap else ag_node_id a)"
    and "ag_key a' = (if sn_new_node_key snap = [] then ag_key a else sn_new_node_key snap)"
proof -
  obtain c b where b: "adopt_settings L snap (adopt_state snap (adopt_identity snap (note_fetch t (Fetched snap) a))) = (c, b)"
    by fastforce
  obtain w b' where w: "local_version L b = (w, b')" by fastforce
  note kb = adopted_keeps [OF b] and kw = local_version_keeps [of L b, unfolded w fst_conv snd_conv]
  have a'': "a' = (if sn_version snap = w then (if c then merge_settings b' else b') else apply_config L snap b')"
    by (simp add: a' sync_once_def b w Let_def)
  have nv: "no_verdicts (ag_db b')" using kb(1) kw(1) none by simp
  note conv = apply_config_result(1) [OF L served_content(1) [OF ok snap] nv served_content(2) [OF ok snap]]
  show "ag_version a' = sn_version snap"
    using a'' kw(9) v conv snap by (simp add: merge_settings_keeps serves_snapshot_def)
  show "ag_state_applied a'" "ag_paused a' = sn_paused_until snap" "ag_maint a' = sn_maintenance snap"
    "ag_settings_ver a' = settings_version L (sn_settings snap)"
    "ag_node_id a' = (if ag_node_id a = [] then sn_node_id snap else ag_node_id a)"
    "ag_key a' = (if sn_new_node_key snap = [] then ag_key a else sn_new_node_key snap)"
    using kb kw by (simp_all add: a'' merge_settings_keeps apply_config_keeps)
qed

lemma bearer_token [simp]: "bearer (''Bearer '' @ k) = Some k"
  by (simp add: bearer_def trim_prefix_def has_prefix_def)

lemma maintenance_flag_refl: "maintenance_flag b \<noteq> []"
  by (simp add: maintenance_flag_def)

text \<open>
  An agent that has taken a snapshot over is at rest: as long as the content, the block
  pause, its maintenance flag and the central settings stay what that snapshot said, and no
  key is rotated, its next poll is answered 304, with no payload.
\<close>

theorem synced_agent_gets_304:
  assumes L: "sync_lib_ok L" and ok: "rules_ok (cp_db cp)" "rewrites_ok (cp_db cp)"
    and none: "no_verdicts (ag_db a)"
    and snap: "serves_snapshot L (cp_db cp) (n_name node) (n_site node) snap" "sn_version snap \<noteq> []"
      "sn_node_id snap = n_id node" "sn_maintenance snap = n_maintenance node"
      "sn_paused_until snap = get_block_paused_until (cp_db cp)"
    and a': "a' = sync_once L t (Fetched snap) a" "ag_node_id a = [] \<or> ag_node_id a = n_id node"
    and auth: "node_by_any_key_hash (kc_hash C (ag_key a')) (unix now) (cp_reg cp) = Some (node, via)" "n_approved node"
    and keep: "fst (maybe_rotate_node_key C now token node via (cp_reg cp)) = []"
    and cache: "\<And>v. fst (version_get now (db_gen (cp_db cp)) (node_version_key (n_name node) (n_site node)) (cp_cache cp)) = Some v
      \<Longrightarrow> v = config_version_for_node (sl_digest L) (cp_db cp) (n_name node) (n_site node)"
  shows "fst (cluster_snapshot L C now token (Some (sn_settings snap))
    (fst (poll_request_of L advertise app_version stats ip a')) cp) = Poll_Not_Modified"
proof -
  note st = synced_state [OF L ok none snap(1,2) a'(1)]
  have lv: "local_version L a' = (sn_version snap, a')"
    using st(1) snap(2) by (simp add: local_version_def)
  let ?r = "fst (poll_request_of L advertise app_version stats ip a')"
  have r: "pr_auth ?r = ''Bearer '' @ ag_key a'" "pr_node_version ?r = sn_version snap"
    "agent_holds_snapshot_state ?r node (sn_version snap) (get_block_paused_until (cp_db cp)) (settings_version L (sn_settings snap))"
    using st lv snap a'(2)
    by (auto simp: poll_request_of_def agent_holds_snapshot_state_def)
  obtain reg where rot: "maybe_rotate_node_key C now token node via (cp_reg cp) = ([], reg)"
    using keep by (cases "maybe_rotate_node_key C now token node via (cp_reg cp)") simp
  obtain cur c' where cc: "cached_config_version_for_node (sl_digest L) now (cp_db cp) (n_name node) (n_site node) (cp_cache cp) = (cur, c')"
    by fastforce
  have "cur = config_version_for_node (sl_digest L) (cp_db cp) (n_name node) (n_site node)"
    using cc cache by (auto simp: cached_config_version_for_node_def Let_def split: prod.splits option.splits)
  then have cur: "cur = sn_version snap" using snap(1) by (simp add: serves_snapshot_def)
  have key: "bearer (pr_auth ?r) = Some (ag_key a')"
    by (simp only: r(1) bearer_token)
  show ?thesis
    by (simp add: cluster_snapshot_def key r(2) auth rot r(3) cc cur Let_def)
qed

subsection \<open>Replication converges\<close>

text \<open>
  What every agent keeps: it has no verdicts of its own (it runs no classifier); a version recorded
  for its tables as they are is the version of its tables; and the version it holds in memory is the
  recorded one.
\<close>

definition version_recorded :: "sync_lib \<Rightarrow> config_db \<Rightarrow> bool" where
  "version_recorded L db \<longleftrightarrow>
     get_meta meta_version db \<noteq> [] \<and> get_meta meta_fingerprint db = local_config_fingerprint L db"

definition agent_sound :: "sync_lib \<Rightarrow> agent \<Rightarrow> bool" where
  "agent_sound L a \<longleftrightarrow> no_verdicts (ag_db a)
     \<and> (version_recorded L (ag_db a) \<longrightarrow> config_version L (ag_db a) = Some (get_meta meta_version (ag_db a)))
     \<and> (ag_version a \<noteq> [] \<longrightarrow> version_recorded L (ag_db a) \<and> get_meta meta_version (ag_db a) = ag_version a)"

text \<open>Statements on other keys leave version and fingerprint of the tables alone.\<close>

lemma version_of_meta [simp]:
  "k \<noteq> meta_forwarders \<Longrightarrow> config_version L (set_meta k v db) = config_version L db"
  "k \<noteq> meta_forwarders \<Longrightarrow> local_config_fingerprint L (set_meta k v db) = local_config_fingerprint L db"
  by (simp_all add: config_version_def cluster_forwarders_def local_config_fingerprint_def)

lemma version_recorded_settings [simp]:
  "version_recorded L (set_meta meta_settings v db) = version_recorded L db"
  by (simp add: version_recorded_def)

lemma version_recorded_local:
  "version_recorded L db \<Longrightarrow> local_config_version L db = (Some (get_meta meta_version db), db)"
  by (simp add: version_recorded_def local_config_version_def Let_def)

lemma record_version_records:
  assumes "record_version L (local_config_fingerprint L db) db = (Some v, db')" "v \<noteq> []"
  shows "version_recorded L db' \<and> get_meta meta_version db' = v \<and> config_version L db' = Some v
    \<and> no_verdicts db' = no_verdicts db"
  using assms by (auto simp: record_version_def version_recorded_def split: option.splits)

lemma local_version_sound:
  assumes "agent_sound L a" "local_version L a = (v, a')" "v \<noteq> []"
  shows "version_recorded L (ag_db a')" and "get_meta meta_version (ag_db a') = v" and "ag_version a' = v"
    and "config_version L (ag_db a') = Some v" and "config_version L (ag_db a) = Some v"
    and "no_verdicts (ag_db a')"
proof -
  have "version_recorded L (ag_db a') \<and> get_meta meta_version (ag_db a') = v \<and> ag_version a' = v
      \<and> config_version L (ag_db a') = Some v \<and> config_version L (ag_db a) = Some v \<and> no_verdicts (ag_db a')"
  proof (cases "ag_version a \<noteq> [] \<or> version_recorded L (ag_db a)")
    case True
    then have rec: "version_recorded L (ag_db a)" using assms(1) by (auto simp: agent_sound_def)
    then show ?thesis using assms version_recorded_local [OF rec]
      by (auto simp: agent_sound_def local_version_def split: if_splits)
  next
    case False
    obtain x db where x: "record_version L (local_config_fingerprint L (ag_db a)) (ag_db a) = (x, db)"
      by (rule prod.exhaust)
    with False have lc: "local_config_version L (ag_db a) = (x, db)"
      by (auto simp: local_config_version_def version_recorded_def Let_def)
    with False assms(2,3) have r: "x = Some v" "a' = a\<lparr>ag_db := db, ag_version := v\<rparr>"
      by (auto simp: local_version_def split: option.splits)
    have "config_version L (ag_db a) = Some v"
      using x r(1) by (auto simp: record_version_def split: option.splits)
    with record_version_records [OF x [unfolded r(1)] assms(3)] assms(1) r(2) show ?thesis
      by (simp add: agent_sound_def)
  qed
  then show "version_recorded L (ag_db a')" and "get_meta meta_version (ag_db a') = v" and "ag_version a' = v"
    and "config_version L (ag_db a') = Some v" and "config_version L (ag_db a) = Some v"
    and "no_verdicts (ag_db a')" by simp_all
qed

lemma local_version_tables:
  "db_rules (ag_db (snd (local_version L a))) = db_rules (ag_db a)"
  "db_rewrites (ag_db (snd (local_version L a))) = db_rewrites (ag_db a)"
  "get_meta meta_forwarders (ag_db (snd (local_version L a))) = get_meta meta_forwarders (ag_db a)"
  by (simp_all add: local_version_def local_config_version_def record_version_def Let_def
      split: option.split prod.split)

lemma apply_config_sound:
  assumes "sync_lib_ok L" "servable (sn_rules snap) (sn_rewrites snap)" "no_verdicts (ag_db a)"
    and "sn_version snap = config_hash (sl_digest L) (sn_rules snap) (sn_rewrites snap) (sn_forwarders snap)"
    and "sn_version snap \<noteq> []"
  shows "agent_sound L (apply_config L snap a)"
    and "local_config_version L (ag_db (apply_config L snap a)) = (Some (sn_version snap), ag_db (apply_config L snap a))"
proof -
  let ?db = "set_cluster_forwarders L (sn_forwarders snap) (ag_db a)" and ?a = "apply_config L snap a"
  have "no_verdicts ?db" using assms(3) by (simp add: set_cluster_forwarders_def)
  then obtain db' where ap: "apply_snapshot (sn_rules snap) (sn_rewrites snap) ?db = (None, db')" and nv: "no_verdicts db'"
    by (rule apply_snapshot_content [OF assms(2)])
  obtain x db'' where rec: "record_version L (local_config_fingerprint L db') db' = (x, db'')" by (rule prod.exhaust)
  have fin: "ag_db ?a = db''" "ag_version ?a = (case x of None \<Rightarrow> [] | Some v \<Rightarrow> v)"
    using rec by (simp_all add: apply_config_def ap record_local_config_version_def Let_def merge_settings_def)
  have ver: "ag_version ?a = sn_version snap" by (rule apply_config_result(1) [OF assms(1-4)])
  then have "x = Some (sn_version snap)" using fin(2) assms(5) by (auto split: option.splits)
  from record_version_records [OF rec [unfolded this] assms(5)] nv fin(1) ver
  have "version_recorded L (ag_db ?a)" "get_meta meta_version (ag_db ?a) = sn_version snap"
    "config_version L (ag_db ?a) = Some (sn_version snap)" "no_verdicts (ag_db ?a)" by simp_all
  with ver show "agent_sound L ?a" "local_config_version L (ag_db ?a) = (Some (sn_version snap), ag_db ?a)"
    using version_recorded_local [of L "ag_db ?a"] by (simp_all add: agent_sound_def)
qed

text \<open>What a poll that is answered with a snapshot is answered with.\<close>

lemma cluster_snapshot_serves:
  assumes "cluster_snapshot L C now token settings r cp = (Poll_Snapshot snap, cp')"
    and "bearer (pr_auth r) = Some key"
    and "node_by_any_key_hash (kc_hash C key) (unix now) (cp_reg cp) = Some (node, via)"
  shows "serves_snapshot L (cp_db cp) (n_name node) (n_site node) snap"
  using assms by (auto simp: cluster_snapshot_def serves_snapshot_def snapshot_for_node_def config_version_for_node_def Let_def
      split: if_splits option.splits prod.splits)

text \<open>The agent's own tables hold what the tables of the control plane have for a node.\<close>

definition holds_content :: "sync_lib \<Rightarrow> config_db \<Rightarrow> config_db \<Rightarrow> string \<Rightarrow> string \<Rightarrow> bool" where
  "holds_content L own db name site \<longleftrightarrow>
     mset (map rule_content (replicated_rules own)) = mset (map rule_content (replicated_rules db))
     \<and> mset (map rewrite_content (list_rewrites own)) = mset (map rewrite_content (list_rewrites_for_node db name site))
     \<and> cluster_forwarders L own = Some (list_forwarders_for_node db name site)"

lemma sync_once_snapshot:
  assumes L: "sync_lib_ok L" and ok: "rules_ok db" "rewrites_ok db" and sound: "agent_sound L a"
    and snap: "serves_snapshot L db name site snap" and v: "sn_version snap \<noteq> []"
    and a': "a' = sync_once L t (Fetched snap) a"
  shows "agent_sound L a'" and "ag_version a' = sn_version snap"
    and "config_version L (ag_db a') = Some (sn_version snap)"
    and "local_config_version L (ag_db a') = (Some (sn_version snap), ag_db a')"
    and "holds_content L (ag_db a') db name site
      \<or> db_rules (ag_db a') = db_rules (ag_db a) \<and> db_rewrites (ag_db a') = db_rewrites (ag_db a)
        \<and> config_version L (ag_db a) = Some (sn_version snap)"
proof -
  obtain c b where b: "adopt_settings L snap (adopt_state snap (adopt_identity snap (note_fetch t (Fetched snap) a))) = (c, b)"
    by fastforce
  obtain w b' where w: "local_version L b = (w, b')" by fastforce
  have bdb: "ag_db b = ag_db a \<or> ag_db b = set_meta meta_settings (sn_settings snap) (ag_db a)" "ag_version b = ag_version a"
    using b by (auto simp: adopt_settings_def adopt_state_def adopt_identity_def note_fetch_def Let_def split: if_splits)
  have bs: "agent_sound L b" "config_version L (ag_db b) = config_version L (ag_db a)"
    "db_rules (ag_db b) = db_rules (ag_db a)" "db_rewrites (ag_db b) = db_rewrites (ag_db a)"
    using bdb sound by (auto simp: agent_sound_def)
  have a'': "a' = (if sn_version snap = w then (if c then merge_settings b' else b') else apply_config L snap b')"
    by (simp add: a' sync_once_def b w Let_def)
  note sc = served_content [OF ok snap]
  have "agent_sound L a' \<and> ag_version a' = sn_version snap \<and> config_version L (ag_db a') = Some (sn_version snap)
    \<and> local_config_version L (ag_db a') = (Some (sn_version snap), ag_db a')
    \<and> (holds_content L (ag_db a') db name site
      \<or> db_rules (ag_db a') = db_rules (ag_db a) \<and> db_rewrites (ag_db a') = db_rewrites (ag_db a)
        \<and> config_version L (ag_db a) = Some (sn_version snap))"
  proof (cases "sn_version snap = w")
    case True
    then have "w \<noteq> []" using v by simp
    note lv = local_version_sound [OF bs(1) w this] and tables = local_version_tables [of L b, unfolded w snd_conv]
    have "agent_sound L a'" "ag_version a' = w" "ag_db a' = ag_db b'"
      using a'' True lv by (auto simp: agent_sound_def merge_settings_def)
    then show ?thesis using True lv tables bs version_recorded_local [OF lv(1)] by simp
  next
    case False
    have nv: "no_verdicts (ag_db b')"
      using local_version_keeps(1) [of L b, unfolded w snd_conv] bs(1) by (simp add: agent_sound_def)
    note res = apply_config_result [OF L sc(1) nv sc(2)] and snd = apply_config_sound [OF L sc(1) nv sc(2) v]
    have "holds_content L (ag_db (apply_config L snap b')) db name site"
      using res(3-5) snap by (simp add: holds_content_def serves_snapshot_def del: mset_map)
    then show ?thesis using a'' False res(1,2) snd by simp
  qed
  then show "agent_sound L a'" and "ag_version a' = sn_version snap"
    and "config_version L (ag_db a') = Some (sn_version snap)"
    and "local_config_version L (ag_db a') = (Some (sn_version snap), ag_db a')"
    and "holds_content L (ag_db a') db name site
      \<or> db_rules (ag_db a') = db_rules (ag_db a) \<and> db_rewrites (ag_db a') = db_rewrites (ag_db a)
        \<and> config_version L (ag_db a) = Some (sn_version snap)" by simp_all
qed

text \<open>
  C3: replication converges in one cycle. When a poll is answered with a snapshot, from tables of
  the control plane that satisfy their invariants, and the agent - which has no verdicts of its own,
  and whose recorded version, if it has one, is that of its tables - synchronises with it, then
  the agent keeps that invariant, and the version it holds, the one computed from its own tables, the one
  recorded with them (and read back after a restart) and the one its next poll reports are all the
  version the control plane computes for that node. Its tables then enforce exactly the
  rules, rewrites and forwarders the control plane has for the node; the only other case is that
  its tables already hashed to that version, and then they are left as they were.
\<close>

theorem replication_converges:
  assumes "sync_lib_ok L" and "\<And>s. sl_digest L s \<noteq> []" and "rules_ok (cp_db cp)" and "rewrites_ok (cp_db cp)"
    and "agent_sound L a"
    and "bearer (pr_auth r) = Some key" "node_by_any_key_hash (kc_hash C key) (unix now) (cp_reg cp) = Some (node, via)"
    and "cluster_snapshot L C now token settings r cp = (Poll_Snapshot snap, cp')"
    and "a' = sync_once L t (Fetched snap) a"
    and "v = config_version_for_node (sl_digest L) (cp_db cp) (n_name node) (n_site node)"
  shows "agent_sound L a' \<and> ag_version a' = v \<and> config_version L (ag_db a') = Some v
    \<and> local_config_version L (ag_db a') = (Some v, ag_db a')
    \<and> pr_node_version (fst (poll_request_of L advertise app_version stats ip a')) = v
    \<and> (holds_content L (ag_db a') (cp_db cp) (n_name node) (n_site node)
      \<or> db_rules (ag_db a') = db_rules (ag_db a) \<and> db_rewrites (ag_db a') = db_rewrites (ag_db a)
        \<and> config_version L (ag_db a) = Some v)"
proof -
  note snap = cluster_snapshot_serves [OF assms(8,6,7)]
  then have v: "sn_version snap = v" using assms(10) by (simp add: serves_snapshot_def)
  have "v \<noteq> []" using assms(2,10) by (simp add: config_version_for_node_def config_hash_def hash_lines_def)
  note res = sync_once_snapshot [OF assms(1,3,4,5) snap _ assms(9), unfolded v, OF this]
  have "pr_node_version (fst (poll_request_of L advertise app_version stats ip a')) = v"
    using res(2) \<open>v \<noteq> []\<close> by (simp add: poll_request_of_def local_version_def Let_def)
  with res show ?thesis by simp
qed

subsection \<open>A concrete library and a concrete cluster\<close>

text \<open>An encoding of forwarders that can be decoded: marked characters, ends of strings and of entries.\<close>

definition demo_string :: "string \<Rightarrow> string" where
  "demo_string s = concat (map (\<lambda>c. [CHR ''c'', c]) s) @ ''u''"

definition demo_encode :: "forward_spec list \<Rightarrow> string" where
  "demo_encode fws = CHR ''J'' # concat (map (\<lambda>f. demo_string (fst f) @ concat (map demo_string (snd f)) @ ''f'') fws)"

fun demo_parse :: "string \<Rightarrow> string \<Rightarrow> string list \<Rightarrow> forward_spec list \<Rightarrow> forward_spec list option" where
  "demo_parse [] cur strs acc = Some acc"
| "demo_parse (t # r) cur strs acc =
     (if t = CHR ''u'' then demo_parse r [] (strs @ [cur]) acc
      else if t = CHR ''f'' then (case strs of [] \<Rightarrow> None | s # us \<Rightarrow> demo_parse r [] [] (acc @ [(s, us)]))
      else (case r of [] \<Rightarrow> None | x # r' \<Rightarrow> demo_parse r' (cur @ [x]) strs acc))"

definition demo_decode :: "string \<Rightarrow> forward_spec list option" where
  "demo_decode s = demo_parse (drop 1 s) [] [] []"

lemma demo_parse_string: "demo_parse (demo_string s @ r) cur strs acc = demo_parse r [] (strs @ [cur @ s]) acc"
  by (induction s arbitrary: cur) (simp_all add: demo_string_def)

lemma demo_parse_strings:
  "demo_parse (concat (map demo_string ss) @ r) [] strs acc = demo_parse r [] (strs @ ss) acc"
  by (induction ss arbitrary: strs) (simp_all add: demo_parse_string)

lemma demo_parse_encoded:
  "demo_parse (concat (map (\<lambda>f. demo_string (fst f) @ concat (map demo_string (snd f)) @ ''f'') fws)) [] [] acc
     = Some (acc @ fws)"
  by (induction fws arbitrary: acc) (simp_all add: demo_parse_string demo_parse_strings)

definition demo_lib :: sync_lib where
  "demo_lib = \<lparr>sl_digest = (\<lambda>s. CHR ''#'' # s), sl_short = (\<lambda>s. s), sl_settings = (\<lambda>s. CHR ''#'' # s),
     sl_encode = demo_encode, sl_decode = demo_decode\<rparr>"

lemma demo_lib_ok: "sync_lib_ok demo_lib"
  by (simp add: sync_lib_ok_def demo_lib_def demo_decode_def demo_parse_encoded demo_encode_def)

definition demo_cp_db :: config_db where
  "demo_cp_db = snd (add_rule_row 5 ''deny'' ''ads.example'' [] empty_db)"

lemma demo_cp_db_ok: "rules_ok demo_cp_db" "rewrites_ok demo_cp_db"
  by (simp_all add: demo_cp_db_def rule_write_ok [OF rule_write.add rules_ok_empty])
    (simp add: add_rule_row_def upsert_def empty_db_def rewrites_ok_def rewrite_table.good_def Let_def split: option.split)

definition demo_snapshot :: snapshot where
  "demo_snapshot = \<lparr>sn_node_id = ''id1'', sn_new_node_key = [],
     sn_version = config_version_for_node (sl_digest demo_lib) demo_cp_db ''n1'' [],
     sn_rules = replicated_rules demo_cp_db, sn_rewrites = list_rewrites_for_node demo_cp_db ''n1'' [],
     sn_forwarders = list_forwarders_for_node demo_cp_db ''n1'' [], sn_paused_until = 0, sn_maintenance = False,
     sn_settings = []\<rparr>"

definition demo_agent :: agent where
  "demo_agent = \<lparr>ag_db = empty_db, ag_key = ''k0'', ag_node_id = [], ag_version = [], ag_settings_ver = [],
     ag_state_applied = False, ag_paused = 0, ag_maint = False, ag_effective_settings = [], ag_reloads = 0,
     ag_last_ok = 0, ag_last_error = (0, [])\<rparr>"

lemma demo_sync:
  "serves_snapshot demo_lib demo_cp_db ''n1'' [] demo_snapshot" "no_verdicts (ag_db demo_agent)"
  "sn_version demo_snapshot \<noteq> []"
  by (simp_all add: serves_snapshot_def demo_snapshot_def no_verdicts_def demo_agent_def empty_db_def
      active_ai_blocked_def config_version_for_node_def config_hash_def hash_lines_def demo_lib_def)

definition demo_control :: control where
  "demo_control = \<lparr>cp_db = demo_cp_db, cp_reg = demo_registry, cp_cache = \<lparr>vc_gen = 0, vc_entries = []\<rparr>\<rparr>"

lemma demo_agent_sound: "agent_sound demo_lib demo_agent"
  by (simp add: agent_sound_def version_recorded_def demo_agent_def no_verdicts_def empty_db_def active_ai_blocked_def
      get_meta_def)

abbreviation demo_poll :: poll_request where
  "demo_poll \<equiv> fst (poll_request_of demo_lib [] [] \<lparr>st_total = 0, st_blocked = 0, st_cached = 0, st_forwarded = 0,
     st_rewritten = 0, st_errors = 0\<rparr> ''10.0.0.9'' demo_agent)"

theorem replication_converges_witness:
  "\<exists>snap cp'. cluster_snapshot demo_lib demo_keys (10 * second) (Some ''k1'') (Some []) demo_poll demo_control
       = (Poll_Snapshot snap, cp')
     \<and> ag_version (sync_once demo_lib 5 (Fetched snap) demo_agent)
       = config_version_for_node (sl_digest demo_lib) demo_cp_db ''n1'' []"
proof -
  let ?node = "new_node 0 ''id1'' ''n1'' ''#k0'' [] True"
  have key: "pr_auth demo_poll = ''Bearer '' @ ''k0''" "pr_accept_not_modified demo_poll = []"
  proof -
    obtain v b where lv: "local_version demo_lib demo_agent = (v, b)" by (rule prod.exhaust)
    with local_version_keeps(2,6) [of demo_lib demo_agent] have "ag_key b = ''k0''" "\<not> ag_state_applied b"
      by (simp_all add: demo_agent_def)
    then show "pr_auth demo_poll = ''Bearer '' @ ''k0''" "pr_accept_not_modified demo_poll = []"
      by (simp_all add: poll_request_of_def lv Let_def)
  qed
  have br: "bearer (pr_auth demo_poll) = Some ''k0''" by (simp only: key(1) bearer_token)
  have auth: "node_by_any_key_hash (kc_hash demo_keys ''k0'') (unix (10 * second)) (cp_reg demo_control) = Some (?node, True)"
    by (simp add: demo_keys_def demo_control_def demo_registry_def node_by_any_key_hash_def node_by_key_hash_def
        node_by_def new_node_def)
  obtain nk reg where rot: "maybe_rotate_node_key demo_keys (10 * second) (Some ''k1'') ?node True (cp_reg demo_control) = (nk, reg)"
    by (rule prod.exhaust)
  have app: "n_approved ?node" by (simp add: new_node_def)
  define t where "t = 10 * second"
  note auth' = auth [folded t_def] and rot' = rot [folded t_def]
  have "\<exists>snap cp'. cluster_snapshot demo_lib demo_keys t (Some ''k1'') (Some []) demo_poll demo_control
      = (Poll_Snapshot snap, cp')"
    by (simp add: cluster_snapshot_def br auth' rot' app agent_holds_snapshot_state_def key(2) Let_def split: prod.split)
  then obtain snap cp' where snap: "cluster_snapshot demo_lib demo_keys (10 * second) (Some ''k1'') (Some []) demo_poll demo_control
      = (Poll_Snapshot snap, cp')"
    unfolding t_def by blast
  have "sl_digest demo_lib s \<noteq> []" for s by (simp add: demo_lib_def)
  from replication_converges [OF demo_lib_ok this _ _ demo_agent_sound br auth snap refl refl] demo_cp_db_ok snap
  show ?thesis by (simp add: demo_control_def new_node_def)
qed

theorem synced_agent_gets_304_witness:
  "fst (cluster_snapshot demo_lib demo_keys (10 * second) (Some ''k1'') (Some [])
     (fst (poll_request_of demo_lib [] [] \<lparr>st_total = 0, st_blocked = 0, st_cached = 0, st_forwarded = 0,
        st_rewritten = 0, st_errors = 0\<rparr> ''10.0.0.9'' (sync_once demo_lib 5 (Fetched demo_snapshot) demo_agent)))
     demo_control) = Poll_Not_Modified"
proof -
  let ?node = "new_node 0 ''id1'' ''n1'' ''#k0'' [] True"
  let ?a = "sync_once demo_lib 5 (Fetched demo_snapshot) demo_agent"
  have key: "ag_key ?a = ''k0''"
    using synced_state(7) [OF demo_lib_ok demo_cp_db_ok demo_sync(2,1,3) refl]
    by (simp add: demo_snapshot_def demo_agent_def)
  have auth: "node_by_any_key_hash (kc_hash demo_keys (ag_key ?a)) (unix (10 * second)) (cp_reg demo_control) = Some (?node, True)"
    by (simp add: key demo_keys_def demo_control_def demo_registry_def node_by_any_key_hash_def node_by_key_hash_def
        node_by_def new_node_def)
  have keep: "fst (maybe_rotate_node_key demo_keys (10 * second) (Some ''k1'') ?node True (cp_reg demo_control)) = []"
    by (simp add: maybe_rotate_node_key_def demo_keys_def new_node_def unix_def)
  have snap: "serves_snapshot demo_lib (cp_db demo_control) (n_name ?node) (n_site ?node) demo_snapshot"
    using demo_sync(1) by (simp add: demo_control_def new_node_def)
  have ok: "rules_ok (cp_db demo_control)" "rewrites_ok (cp_db demo_control)"
    using demo_cp_db_ok by (simp_all add: demo_control_def)
  have fields_ok: "sn_node_id demo_snapshot = n_id ?node" "sn_maintenance demo_snapshot = n_maintenance ?node"
    "sn_paused_until demo_snapshot = get_block_paused_until (cp_db demo_control)" "sn_settings demo_snapshot = []"
    "ag_node_id demo_agent = [] \<or> ag_node_id demo_agent = n_id ?node" "n_approved ?node"
    by (simp_all add: demo_snapshot_def new_node_def demo_control_def demo_cp_db_def demo_agent_def empty_db_def
        get_block_paused_until_def get_meta_int_def add_rule_row_def upsert_def bump_def Let_def split: option.split)
  have cache: "fst (version_get (10 * second) (db_gen (cp_db demo_control)) (node_version_key (n_name ?node) (n_site ?node))
      (cp_cache demo_control)) = Some v \<Longrightarrow> v = config_version_for_node (sl_digest demo_lib) (cp_db demo_control) (n_name ?node) (n_site ?node)" for v
    by (simp add: version_get_def demo_control_def split: if_splits)
  show ?thesis
    using synced_agent_gets_304 [OF demo_lib_ok ok demo_sync(2) snap demo_sync(3) fields_ok(1,2,3) refl fields_ok(5)
        auth fields_ok(6) keep cache] by (simp only: fields_ok(4))
qed

end
