(* ===== verification/Query_Ship.thy ===== *)
theory Query_Ship
  imports Go_Prelude
begin

section \<open>Shipping the query log\<close>

text \<open>
  The agent's \<open>shipLogs\<close> (package \<open>cluster\<close>) over the query log of package \<open>store\<close>: a log
  is the list of its rows, each with the id the table gave it. A post either succeeds, or
  fails, or is received by the control plane while its answer is lost.
\<close>

type_synonym 'e log_rows = "(int \<times> 'e) list"

definition ship_batch_size :: nat where
  [model]: "ship_batch_size = 5000"

definition ship_max_batches :: nat where
  [model]: "ship_max_batches = 20"

definition query_log_since :: "'e log_rows \<Rightarrow> int \<Rightarrow> int \<Rightarrow> 'e log_rows \<times> int" where
  [model]: "query_log_since rows after_id limit =
     (let limit = (if limit \<le> 0 \<or> 10000 < limit then 5000 else limit);
          out = take (nat limit) (sort_key fst (filter (\<lambda>e. after_id < fst e) rows)) in
      (out, foldl (\<lambda>m e. if m < fst e then fst e else m) after_id out))"

definition max_query_log_id :: "'e log_rows \<Rightarrow> int" where
  [model]: "max_query_log_id rows = (if rows = [] then 0 else Max (fst ` set rows))"

definition delete_query_log_through :: "int \<Rightarrow> 'e log_rows \<Rightarrow> 'e log_rows" where
  [model]: "delete_query_log_through i rows = filter (\<lambda>e. i < fst e) rows"

datatype post_result = Post_Ok | Post_Failed | Post_Lost

record 'e outbox =
  ob_rows :: "'e log_rows"
  ob_cursor :: int
  ob_saved_cursor :: int
  ob_received :: "'e list"

text \<open>One batch: \<open>None\<close> when the loop ends, else the box after the batch and whether to go on.\<close>

definition ship_one :: "bool \<Rightarrow> post_result \<Rightarrow> 'e outbox \<Rightarrow> bool \<times> 'e outbox" where
  [model]: "ship_one purge res box =
     (let (entries, max_id) = query_log_since (ob_rows box) (ob_cursor box) (int ship_batch_size) in
      if entries = [] then (False, box)
      else case res of
          Post_Failed \<Rightarrow> (False, box)
        | Post_Lost \<Rightarrow> (False, box\<lparr>ob_received := ob_received box @ map snd entries\<rparr>)
        | Post_Ok \<Rightarrow>
            (\<not> length entries < ship_batch_size,
             box\<lparr>ob_cursor := max_id, ob_saved_cursor := max_id,
                 ob_received := ob_received box @ map snd entries,
                 ob_rows := (if purge then delete_query_log_through max_id (ob_rows box) else ob_rows box)\<rparr>))"

fun ship_batches :: "nat \<Rightarrow> bool \<Rightarrow> (nat \<Rightarrow> post_result) \<Rightarrow> 'e outbox \<Rightarrow> 'e outbox" where
  "ship_batches 0 purge res box = box"
| "ship_batches (Suc k) purge res box =
     (case ship_one purge (res k) box of
        (False, box) \<Rightarrow> box
      | (True, box) \<Rightarrow> ship_batches k purge res box)"

definition ship_logs :: "bool \<Rightarrow> (nat \<Rightarrow> post_result) \<Rightarrow> 'e outbox \<Rightarrow> 'e outbox" where
  [model]: "ship_logs purge res box = ship_batches ship_max_batches purge res box"

definition ordered_log :: "'e log_rows \<Rightarrow> bool" where
  "ordered_log rows \<longleftrightarrow> sorted_wrt (<) (map fst rows)"

definition pending :: "'e outbox \<Rightarrow> 'e log_rows" where
  "pending box = filter (\<lambda>e. ob_cursor box < fst e) (ob_rows box)"

lemma ordered_filter: "ordered_log rows \<Longrightarrow> ordered_log (filter P rows)"
  by (simp add: ordered_log_def sorted_wrt_map sorted_wrt_filter)

lemma ordered_sort: "ordered_log rows \<Longrightarrow> sort_key fst rows = rows"
  unfolding ordered_log_def
  by (intro sort_key_id_if_sorted) (simp add: strict_sorted_imp_sorted)

lemma max_of_batch:
  "ordered_log out \<Longrightarrow> (\<And>e. e \<in> set out \<Longrightarrow> m < fst e) \<Longrightarrow>
     foldl (\<lambda>m e. if m < fst e then fst e else m) m out = (if out = [] then m else fst (last out))"
  by (induction out arbitrary: m) (auto simp: ordered_log_def)

lemma since_ordered:
  assumes "ordered_log (ob_rows box)"
  shows "query_log_since (ob_rows box) (ob_cursor box) (int ship_batch_size) =
    (take ship_batch_size (pending box),
     if pending box = [] then ob_cursor box else fst (last (take ship_batch_size (pending box))))"
proof -
  have p: "ordered_log (pending box)" using assms by (simp add: pending_def ordered_filter)
  have t: "ordered_log (take ship_batch_size (pending box))"
    using p by (simp add: ordered_log_def take_map [symmetric] sorted_wrt_take)
  have "ob_cursor box < fst e" if "e \<in> set (take ship_batch_size (pending box))" for e
    using in_set_takeD [OF that] by (simp add: pending_def)
  from max_of_batch [OF t this] ordered_sort [OF p] show ?thesis
    by (auto simp: query_log_since_def pending_def ship_batch_size_def Let_def)
qed

lemma ordered_split:
  assumes "ordered_log (ys @ zs)" "ys \<noteq> []"
  shows "filter (\<lambda>e. fst (last ys) < fst e) (ys @ zs) = zs"
proof -
  have low: "\<not> fst (last ys) < fst e" if "e \<in> set ys" for e
    using that assms by (cases ys rule: rev_cases) (auto simp: ordered_log_def sorted_wrt_append)
  have high: "fst (last ys) < fst e" if "e \<in> set zs" for e
    using that assms last_in_set [OF assms(2)] by (auto simp: ordered_log_def sorted_wrt_append)
  have "filter (\<lambda>e. fst (last ys) < fst e) ys = []"
    using low by (intro filter_False ballI)
  moreover have "filter (\<lambda>e. fst (last ys) < fst e) zs = zs"
    using high by (intro filter_True ballI)
  ultimately show ?thesis by simp
qed

text \<open>What a batch does to the box: the pending rows lose their first part, which was received.\<close>

lemma ship_one_step:
  assumes ok: "ordered_log (ob_rows box)" and step: "ship_one purge res box = (go, box')"
  shows "ordered_log (ob_rows box')"
    and "\<exists>sent. pending box = sent @ pending box' \<and>
      (res \<noteq> Post_Lost \<longrightarrow> ob_received box' = ob_received box @ map snd sent)
      \<and> (\<exists>x. ob_received box' = ob_received box @ x \<and> set (map snd sent) \<subseteq> set x)"
    and "res = Post_Ok \<Longrightarrow> \<not> go \<Longrightarrow> pending box' = []"
    and "go \<Longrightarrow> length (pending box) = ship_batch_size + length (pending box')"
proof -
  let ?sent = "take ship_batch_size (pending box)"
  have p: "ordered_log (pending box)" using ok by (simp add: pending_def ordered_filter)
  have big: "0 < ship_batch_size" by (simp add: ship_batch_size_def)
  consider (none) "pending box = []" "box' = box" "\<not> go"
    | (failed) "pending box \<noteq> []" "res = Post_Failed" "box' = box" "\<not> go"
    | (lost) "pending box \<noteq> []" "res = Post_Lost" "box' = box\<lparr>ob_received := ob_received box @ map snd ?sent\<rparr>" "\<not> go"
    | (sent) "pending box \<noteq> []" "res = Post_Ok" "go = (\<not> length ?sent < ship_batch_size)"
        "box' = box\<lparr>ob_cursor := fst (last ?sent), ob_saved_cursor := fst (last ?sent),
           ob_received := ob_received box @ map snd ?sent,
           ob_rows := (if purge then delete_query_log_through (fst (last ?sent)) (ob_rows box) else ob_rows box)\<rparr>"
    using step big unfolding ship_one_def since_ordered [OF ok]
    by (cases res) (auto simp: Let_def split: if_splits)
  then have "ordered_log (ob_rows box') \<and> (\<exists>sent. pending box = sent @ pending box' \<and>
      (res \<noteq> Post_Lost \<longrightarrow> ob_received box' = ob_received box @ map snd sent)
      \<and> (\<exists>x. ob_received box' = ob_received box @ x \<and> set (map snd sent) \<subseteq> set x))
    \<and> (res = Post_Ok \<longrightarrow> \<not> go \<longrightarrow> pending box' = [])
    \<and> (go \<longrightarrow> length (pending box) = ship_batch_size + length (pending box'))"
  proof cases
    case lost
    have "pending box = [] @ pending box' \<and> (res \<noteq> Post_Lost \<longrightarrow> ob_received box' = ob_received box @ map snd ([] :: 'a log_rows))
        \<and> (\<exists>x. ob_received box' = ob_received box @ x \<and> set (map snd ([] :: 'a log_rows)) \<subseteq> set x)"
      using lost by (simp add: pending_def)
    moreover have "ordered_log (ob_rows box')" using ok lost by simp
    ultimately show ?thesis using lost by blast
  next
    case okay: sent
    let ?rest = "drop ship_batch_size (pending box)"
    have ne: "?sent \<noteq> []" using okay(1) big by simp
    have low: "ob_cursor box < fst (last ?sent)"
      using in_set_takeD [OF last_in_set [OF ne]] by (simp add: pending_def)
    have "pending box' = filter (\<lambda>e. fst (last ?sent) < fst e) (ob_rows box)"
      using okay(4) by (auto simp: pending_def delete_query_log_through_def)
    also have "\<dots> = filter (\<lambda>e. fst (last ?sent) < fst e) (pending box)"
      using low by (auto simp: pending_def intro!: filter_cong)
    also have "\<dots> = ?rest"
      using ordered_split [of ?sent ?rest] p ne by simp
    finally have rest: "pending box' = ?rest" .
    have rows: "ordered_log (ob_rows box')"
      using ok okay(4) by (simp add: delete_query_log_through_def ordered_filter)
    show ?thesis
      using rows rest okay by (auto intro!: exI [of _ ?sent])
  qed (use ok in \<open>auto simp: pending_def\<close>)
  then show "ordered_log (ob_rows box')"
    and "\<exists>sent. pending box = sent @ pending box' \<and>
      (res \<noteq> Post_Lost \<longrightarrow> ob_received box' = ob_received box @ map snd sent)
      \<and> (\<exists>x. ob_received box' = ob_received box @ x \<and> set (map snd sent) \<subseteq> set x)"
    and "res = Post_Ok \<Longrightarrow> \<not> go \<Longrightarrow> pending box' = []"
    and "go \<Longrightarrow> length (pending box) = ship_batch_size + length (pending box')"
    by blast+
qed

lemma ship_batches_result:
  assumes "ordered_log (ob_rows box)"
  shows "\<exists>sent. pending box = sent @ pending (ship_batches k purge res box)
    \<and> ((\<forall>i<k. res i \<noteq> Post_Lost) \<longrightarrow>
         ob_received (ship_batches k purge res box) = ob_received box @ map snd sent)
    \<and> (\<exists>x. ob_received (ship_batches k purge res box) = ob_received box @ x \<and> set (map snd sent) \<subseteq> set x)
    \<and> ((\<forall>i<k. res i = Post_Ok) \<longrightarrow> length (pending box) < k * ship_batch_size \<longrightarrow>
         pending (ship_batches k purge res box) = [])"
  using assms
proof (induction k arbitrary: box)
  case 0
  then show ?case by simp
next
  case (Suc k)
  obtain go box' where step: "ship_one purge (res k) box = (go, box')" by fastforce
  note one = ship_one_step [OF Suc.prems step]
  obtain s1 x1 where s1: "pending box = s1 @ pending box'"
    "res k \<noteq> Post_Lost \<longrightarrow> ob_received box' = ob_received box @ map snd s1"
    "ob_received box' = ob_received box @ x1" "set (map snd s1) \<subseteq> set x1"
    using one(2) by blast
  show ?case
  proof (cases go)
    case False
    with s1 step one(3) show ?thesis by auto
  next
    case True
    obtain s2 x2 where s2: "pending box' = s2 @ pending (ship_batches k purge res box')"
      "(\<forall>i<k. res i \<noteq> Post_Lost) \<longrightarrow> ob_received (ship_batches k purge res box') = ob_received box' @ map snd s2"
      "ob_received (ship_batches k purge res box') = ob_received box' @ x2" "set (map snd s2) \<subseteq> set x2"
      "(\<forall>i<k. res i = Post_Ok) \<longrightarrow> length (pending box') < k * ship_batch_size \<longrightarrow>
         pending (ship_batches k purge res box') = []"
      using Suc.IH [OF one(1)] by blast
    have run: "ship_batches (Suc k) purge res box = ship_batches k purge res box'"
      using step True by simp
    show ?thesis
      unfolding run
    proof (intro exI [of _ "s1 @ s2"] conjI impI)
      show "pending box = (s1 @ s2) @ pending (ship_batches k purge res box')" using s1(1) s2(1) by simp
      show "ob_received (ship_batches k purge res box') = ob_received box @ map snd (s1 @ s2)"
        if "\<forall>i<Suc k. res i \<noteq> Post_Lost" using that s1(2) s2(2) by simp
      show "\<exists>x. ob_received (ship_batches k purge res box') = ob_received box @ x \<and> set (map snd (s1 @ s2)) \<subseteq> set x"
        using s1(3,4) s2(3,4) by (intro exI [of _ "x1 @ x2"]) auto
      show "pending (ship_batches k purge res box') = []"
        if "\<forall>i<Suc k. res i = Post_Ok" "length (pending box) < Suc k * ship_batch_size"
        using that s2(5) one(4) [OF True] by simp
    qed
  qed
qed

text \<open>
  C31: a shipping cycle sends the rows after the cursor in the order of their ids and skips
  none: what is no longer pending was received, whatever posts failed. Unless an answer was
  lost it was received exactly once. And when every post succeeds, a backlog of fewer than
  100,000 rows is drained completely.
\<close>

theorem query_log_shipping:
  assumes "ordered_log (ob_rows box)"
  shows "\<exists>sent. pending box = sent @ pending (ship_logs purge res box)
    \<and> ((\<forall>i < ship_max_batches. res i \<noteq> Post_Lost) \<longrightarrow> ob_received (ship_logs purge res box) = ob_received box @ map snd sent)
    \<and> (\<exists>x. ob_received (ship_logs purge res box) = ob_received box @ x \<and> set (map snd sent) \<subseteq> set x)
    \<and> ((\<forall>i < ship_max_batches. res i = Post_Ok) \<longrightarrow> length (pending box) < 100000 \<longrightarrow> pending (ship_logs purge res box) = [])"
  using ship_batches_result [OF assms, of ship_max_batches purge res]
  by (simp add: ship_logs_def ship_max_batches_def ship_batch_size_def)

definition demo_box :: "nat outbox" where
  "demo_box = \<lparr>ob_rows = [(1, 10), (2, 20), (3, 30)], ob_cursor = 1, ob_saved_cursor = 1, ob_received = []\<rparr>"

theorem query_log_shipping_witness:
  "pending (ship_logs True (\<lambda>_. Post_Ok) demo_box) = [] \<and> ob_received (ship_logs True (\<lambda>_. Post_Ok) demo_box) = [20, 30]"
proof -
  have "ordered_log (ob_rows demo_box)" by (simp add: ordered_log_def demo_box_def)
  from query_log_shipping [OF this, of True "\<lambda>_. Post_Ok"]
  show ?thesis by (auto simp: pending_def demo_box_def)
qed

end
