(* ===== verification/Domain_Names.thy ===== *)
theory Domain_Names
  imports Rule_Import
begin

section \<open>Names the classifier looks at (internal/classifier: classifier.go, cdn.go, exclude.go, nscheck.go)\<close>

text \<open>
  Registered domains and hosting platforms come from the Public Suffix List, a library: its
  two functions are a parameter. This theory holds what the program makes of them: reserved
  and local names, the CDN allowlist, the shared DNS hosts, the exclusion list of the
  operator and the test whether a name is excluded.
\<close>

subsection \<open>Registered domains\<close>

text \<open>\<open>PublicSuffix\<close> (the suffix, and whether ICANN manages it) and \<open>EffectiveTLDPlusOne\<close>.\<close>

record suffix_lib =
  public_suffix :: "string \<Rightarrow> string \<times> bool"
  etld_plus_one :: "string \<Rightarrow> string option"

definition clean_name :: "string \<Rightarrow> string" where
  [model]: "clean_name name = to_lower (trim_suffix (trim_space name) ''.'')"

definition registered_domain :: "suffix_lib \<Rightarrow> string \<Rightarrow> string" where
  [model]: "registered_domain P name =
     (let name = clean_name name in
      if name = [] then [] else (case etld_plus_one P name of None \<Rightarrow> [] | Some reg \<Rightarrow> reg))"

definition hosting_platform :: "suffix_lib \<Rightarrow> string \<Rightarrow> string" where
  [model]: "hosting_platform P name =
     (let name = clean_name name; (sfx, icann) = public_suffix P name in
      if icann \<or> CHR ''.'' \<notin> set sfx \<or> sfx = name then [] else sfx)"

definition reserved_tlds :: "string list" where
  "reserved_tlds =
     [''invalid'', ''test'', ''example'', ''localhost'', ''local'',
      ''onion'', ''alt'', ''internal'', ''arpa'', ''lan'',
      ''home'', ''corp'', ''localdomain'']"

definition last_label :: "string \<Rightarrow> string" where
  [model]: "last_label name =
     (case last_index_byte CHR ''.'' name of None \<Rightarrow> name | Some i \<Rightarrow> drop (i + 1) name)"

definition is_reserved_name :: "suffix_lib \<Rightarrow> string \<Rightarrow> bool" where
  [model]: "is_reserved_name P name \<longleftrightarrow>
     (let name = clean_name name in
      last_label name \<in> set reserved_tlds
      \<or> registered_domain P name \<in> {''example.com'', ''example.net'', ''example.org''})"

definition is_local_name :: "string \<Rightarrow> bool" where
  [model]: "is_local_name name \<longleftrightarrow>
     (let name = clean_name name in
      if name = [] then False
      else if CHR ''.'' \<notin> set name then True
      else (let tld = last_label name in
            tld \<in> set reserved_tlds \<and> tld \<noteq> ''example'' \<and> tld \<noteq> ''test'' \<and> tld \<noteq> ''invalid''))"

subsection \<open>CDN and cloud-edge providers\<close>

definition cdn_trusted_domains :: "string list" where
  "cdn_trusted_domains =
     [''cloudflare.com'', ''cloudflare.net'', ''cloudflarestream.com'', ''cloudflare-dns.com'', ''cloudflareinsights.com'',
      ''cloudflareclient.com'', ''cloudflareaccess.com'', ''cdnjs.com'', ''akamai.net'', ''akamaiedge.net'',
      ''akamaihd.net'', ''akamaitechnologies.com'', ''akamaized.net'', ''edgekey.net'', ''edgesuite.net'',
      ''akadns.net'', ''akamaistream.net'', ''fastly.net'', ''fastlylb.net'', ''fastly-edge.com'',
      ''cloudfront.net'', ''amazonaws.com'', ''awsstatic.com'', ''amplifyapp.com'', ''awsglobalaccelerator.com'',
      ''elasticbeanstalk.com'', ''azurefd.net'', ''azureedge.net'', ''azureedge.com'', ''azure.com'',
      ''azurewebsites.net'', ''windows.net'', ''trafficmanager.net'', ''msecnd.net'', ''aspnetcdn.com'',
      ''azure-api.net'', ''azurestaticapps.net'', ''cloudapp.net'', ''azure-dns.com'', ''azurefd.com'',
      ''microsoft.com'', ''msftconnecttest.com'', ''s-microsoft.com'', ''msft.net'', ''msauth.net'',
      ''googleusercontent.com'', ''gstatic.com'', ''googleapis.com'', ''ggpht.com'', ''googlevideo.com'',
      ''google.com'', ''withgoogle.com'', ''appspot.com'', ''web.app'', ''firebaseapp.com'',
      ''gvt1.com'', ''gvt2.com'', ''ytimg.com'', ''mzstatic.com'', ''cdn-apple.com'',
      ''aaplimg.com'', ''jsdelivr.net'', ''unpkg.com'', ''stackpathdns.com'', ''stackpathcdn.com'',
      ''bunny.net'', ''b-cdn.net'', ''bunnycdn.com'', ''cdn77.org'', ''cdn77.com'',
      ''kxcdn.com'', ''cachefly.net'', ''edgecastcdn.net'', ''hwcdn.net'', ''llnwd.net'',
      ''lldns.net'', ''footprint.net'', ''keycdn.com'', ''gcore.com'', ''gcdn.co'',
      ''netdna-ssl.com'', ''netdna-cdn.com'', ''maxcdn.com'', ''swiftcdn.com'', ''fbcdn.net'',
      ''cdninstagram.com'', ''twimg.com'', ''licdn.com'', ''pinimg.com'', ''redditstatic.com'',
      ''redditmedia.com'', ''wp.com'', ''gravatar.com'', ''vimeocdn.com'']"

function cdn_walk :: "string \<Rightarrow> bool" where
  "cdn_walk name =
     (if name = [] then False
      else if name \<in> set cdn_trusted_domains then True
      else (case index_byte CHR ''.'' name of None \<Rightarrow> False | Some i \<Rightarrow> cdn_walk (drop (i + 1) name)))"
  by pat_completeness auto
termination
  by (relation "measure length") (auto simp: index_byte_Some)

declare cdn_walk.simps [simp del]

definition is_cdn :: "string \<Rightarrow> bool" where
  [model]: "is_cdn name = cdn_walk (clean_name name)"

definition cdn_infrastructure :: "suffix_lib \<Rightarrow> string \<Rightarrow> bool" where
  [model]: "cdn_infrastructure P domain \<longleftrightarrow> is_cdn domain \<and> hosting_platform P domain = []"

definition shared_dns_hosts :: "string list" where
  "shared_dns_hosts =
     [''cloudflare.com'', ''akam.net'', ''akamaiedge.net'', ''akadns.net'', ''azure-dns.com'',
      ''azure-dns.net'', ''azure-dns.org'', ''azure-dns.info'', ''googledomains.com'', ''domaincontrol.com'',
      ''registrar-servers.com'', ''nsone.net'', ''dynect.net'', ''ultradns.com'', ''ultradns.net'',
      ''ultradns.org'', ''ultradns.biz'', ''ultradns.info'', ''dnsmadeeasy.com'', ''dnsimple.com'',
      ''dnsimple-edge.net'', ''dnsimple-edge.org'', ''digitalocean.com'', ''linode.com'', ''hetzner.com'',
      ''hetzner.de'', ''ovh.net'', ''gandi.net'', ''name.com'', ''porkbun.com'',
      ''cloudns.net'', ''he.net'', ''wixdns.net'', ''squarespacedns.com'', ''vercel-dns.com'',
      ''wordpress.com'', ''bluehost.com'', ''hostgator.com'', ''siteground.net'', ''ui-dns.com'',
      ''ui-dns.de'', ''ui-dns.org'', ''ui-dns.biz'', ''one.com'', ''afraid.org'',
      ''dns-parking.com'', ''worldnic.com'', ''name-services.com'', ''dnsowl.com'', ''dreamhost.com'',
      ''sedoparking.com'', ''bodis.com'', ''parkingcrew.net'', ''above.com'', ''namebrightdns.com'',
      ''hostinger.com'', ''netlify.com'', ''shopify.com'']"

definition shared_dns_host :: "string \<Rightarrow> bool" where
  [model]: "shared_dns_host ns_reg \<longleftrightarrow> ns_reg \<in> set shared_dns_hosts \<or> has_prefix ns_reg ''awsdns-''"

subsection \<open>Excluded names\<close>

definition hostname_char :: "char \<Rightarrow> bool" where
  [model]: "hostname_char c \<longleftrightarrow> is_lower c \<or> is_digit c \<or> c = CHR ''-'' \<or> c = CHR ''.'' \<or> c = CHR ''_''"

definition hostnameish :: "string \<Rightarrow> bool" where
  [model]: "hostnameish d \<longleftrightarrow> length d \<le> 253 \<and> list_all hostname_char d"

definition clean_exclude :: "string \<Rightarrow> string" where
  [model]: "clean_exclude d = trim_char CHR ''.'' (trim_prefix (to_lower (trim_space d)) ''*.'')"

definition add_exclude :: "string list \<Rightarrow> string \<Rightarrow> string list" where
  [model]: "add_exclude out d =
     (let d = clean_exclude d in
      if d = [] \<or> d \<in> set out \<or> \<not> hostnameish d then out else out @ [d])"

definition normalize_excludes :: "string list \<Rightarrow> string list" where
  [model]: "normalize_excludes ds = foldl add_exclude [] ds"

definition under_any :: "string \<Rightarrow> string list \<Rightarrow> bool" where
  [model]: "under_any name sfxs \<longleftrightarrow>
     list_ex (\<lambda>s. s \<noteq> [] \<and> (name = s \<or> has_suffix name (CHR ''.'' # s))) sfxs"

text \<open>The cached domains of the conditional forwarders: \<open>fc_at\<close> is when they were last read.\<close>

record forwarder_cache =
  fc_suffixes :: "string list"
  fc_at :: time

definition fwd_refresh :: duration where [model]: "fwd_refresh = minute"

text \<open>\<open>fws\<close> is the answer of \<open>ListForwarders\<close>, \<open>None\<close> an error of the database.\<close>

definition forwarder_suffixes ::
    "time \<Rightarrow> string list option \<Rightarrow> forwarder_cache \<Rightarrow> string list \<times> forwarder_cache" where
  [model]: "forwarder_suffixes now fws c =
     (if now - fc_at c < fwd_refresh then (fc_suffixes c, c)
      else (let c = c\<lparr>fc_at := now\<rparr> in
        case fws of
          None \<Rightarrow> (fc_suffixes c, c)
        | Some fs \<Rightarrow> (let out = map (\<lambda>f. to_lower (trim_char CHR ''.'' f)) fs in (out, c\<lparr>fc_suffixes := out\<rparr>))))"

definition excluded ::
    "string list \<Rightarrow> time \<Rightarrow> string list option \<Rightarrow> string \<Rightarrow> forwarder_cache \<Rightarrow> bool \<times> forwarder_cache" where
  [model]: "excluded exclude_domains now fws name c =
     (let name = to_lower (trim_char CHR ''.'' (trim_space name)) in
      if name = [] then (False, c)
      else if under_any name exclude_domains then (True, c)
      else (case forwarder_suffixes now fws c of (sfxs, c) \<Rightarrow> (under_any name sfxs, c)))"

subsection \<open>What the names satisfy\<close>

interpretation cdn_names: suffix_walk
  "\<lambda>n. if n \<in> set cdn_trusted_domains then Some () else None"
  "\<lambda>n. if cdn_walk n then Some () else None"
proof
  fix n
  have e: "[] \<notin> set cdn_trusted_domains"
    by (simp add: cdn_trusted_domains_def)
  show "(if cdn_walk n then Some () else None) =
      (case if n \<in> set cdn_trusted_domains then Some () else None of
         None \<Rightarrow> (case parent_name n of None \<Rightarrow> None | Some p \<Rightarrow> if cdn_walk p then Some () else None)
       | Some v \<Rightarrow> Some v)"
    by (cases "n = []") (subst cdn_walk.simps, simp add: parent_name_def e split: option.split)+
qed

text \<open>A name is CDN infrastructure exactly if it lies in the domain of a listed provider.\<close>

lemma is_cdn_iff: "is_cdn name \<longleftrightarrow> (\<exists>d\<in>set cdn_trusted_domains. in_domain (clean_name name) d)"
  using cdn_names.walk_None [of "clean_name name"] by (auto simp: is_cdn_def split: if_splits)

lemma under_any_iff: "under_any name sfxs \<longleftrightarrow> (\<exists>s\<in>set sfxs. s \<noteq> [] \<and> in_domain name s)"
  by (auto simp: under_any_def list_ex_iff in_domain_def)

lemma under_any_trans: "under_any name sfxs \<Longrightarrow> in_domain sub name \<Longrightarrow> under_any sub sfxs"
  by (auto simp: under_any_iff intro: in_domain_trans)

text \<open>An entry of a cleaned list: a lower-case host name without a dot at either end.\<close>

definition exclude_entry :: "string \<Rightarrow> bool" where
  "exclude_entry d \<longleftrightarrow> d \<noteq> [] \<and> hostnameish d \<and> hd d \<noteq> CHR ''.'' \<and> last d \<noteq> CHR ''.''"

lemma trim_char_ends:
  assumes "trim_char c s \<noteq> []"
  shows "hd (trim_char c s) \<noteq> c" and "last (trim_char c s) \<noteq> c"
proof -
  let ?t = "dropWhile (\<lambda>x. x = c) s"
  let ?u = "dropWhile (\<lambda>x. x = c) (rev ?t)"
  have u: "?u \<noteq> []" using assms by (simp add: trim_char_def)
  then have "hd ?u \<noteq> c" by (rule hd_dropWhile)
  then show "last (trim_char c s) \<noteq> c" using u by (simp add: trim_char_def last_rev)
  have t: "?t \<noteq> []" using u by (cases "?t = []") simp_all
  then have h: "hd ?t \<noteq> c" by (rule hd_dropWhile)
  obtain x where "rev ?t = x @ ?u"
    by (metis takeWhile_dropWhile_id)
  then have "?t = rev ?u @ rev x" by (metis rev_append rev_rev_ident)
  with h u show "hd (trim_char c s) \<noteq> c" by (metis trim_char_def hd_append2 rev_is_Nil_conv)
qed

lemma trim_char_id: "s \<noteq> [] \<Longrightarrow> hd s \<noteq> c \<Longrightarrow> last s \<noteq> c \<Longrightarrow> trim_char c s = s"
proof -
  assume s: "s \<noteq> []" "hd s \<noteq> c" "last s \<noteq> c"
  have "dropWhile (\<lambda>x. x = c) s = s" using s by (cases s) simp_all
  moreover have "dropWhile (\<lambda>x. x = c) (rev s) = rev s" using s by (cases s rule: rev_cases) simp_all
  ultimately show ?thesis by (simp add: trim_char_def)
qed

lemma hostname_char_facts:
  assumes "hostname_char c"
  shows "\<not> is_space c" and "\<not> is_upper c" and "c \<noteq> CHR ''*''"
  using assms by (auto simp: hostname_char_def is_space_def is_upper_def is_lower_def is_digit_def byte_def)

lemma clean_exclude_id:
  assumes "exclude_entry d"
  shows "clean_exclude d = d"
proof -
  have cs: "\<not> is_space c \<and> \<not> is_upper c \<and> c \<noteq> CHR ''*''" if "c \<in> set d" for c
    using assms that hostname_char_facts by (auto simp: exclude_entry_def hostnameish_def list_all_iff)
  obtain x r where d: "d = x # r" using assms by (cases d) (auto simp: exclude_entry_def)
  have "dropWhile is_space d = d" using cs d by simp
  moreover have "dropWhile is_space (rev d) = rev d"
  proof (cases d rule: rev_cases)
    case (snoc ys y)
    with cs show ?thesis by simp
  qed simp
  ultimately have "trim_space d = d" by (simp add: trim_space_def)
  moreover have "to_lower d = d"
    using cs by (auto simp: to_lower_def lower_char_def intro: map_idI)
  moreover have "trim_prefix d ''*.'' = d"
    using cs d by (simp add: trim_prefix_def has_prefix_def)
  moreover have "trim_char CHR ''.'' d = d"
    using assms by (intro trim_char_id) (simp_all add: exclude_entry_def)
  ultimately show ?thesis by (simp add: clean_exclude_def)
qed

lemma add_exclude_entries:
  "\<forall>d\<in>set out. exclude_entry d \<Longrightarrow> distinct out \<Longrightarrow>
     (\<forall>d\<in>set (add_exclude out d). exclude_entry d) \<and> distinct (add_exclude out d)"
  using trim_char_ends [of "CHR ''.''"]
  by (auto simp: add_exclude_def Let_def exclude_entry_def clean_exclude_def)

lemma normalize_excludes_entries:
  "(\<forall>d\<in>set (normalize_excludes ds). exclude_entry d) \<and> distinct (normalize_excludes ds)"
proof -
  have "(\<forall>d\<in>set (foldl add_exclude out ds). exclude_entry d) \<and> distinct (foldl add_exclude out ds)"
    if "\<forall>d\<in>set out. exclude_entry d" "distinct out" for out
    using that by (induction ds arbitrary: out) (simp, metis add_exclude_entries foldl_Cons)
  from this [of "[]"] show ?thesis by (simp add: normalize_excludes_def)
qed

lemma normalize_excludes_id:
  assumes "\<forall>d\<in>set ds. exclude_entry d" and "distinct ds"
  shows "normalize_excludes ds = ds"
proof -
  have "foldl add_exclude out ds = out @ ds"
    if "\<forall>d\<in>set ds. exclude_entry d" "distinct (out @ ds)" for out
    using that
  proof (induction ds arbitrary: out)
    case (Cons d ds)
    then have "add_exclude out d = out @ [d]"
      by (simp add: add_exclude_def clean_exclude_id) (simp add: exclude_entry_def)
    with Cons show ?case by simp
  qed simp
  from this [of "[]"] assms show ?thesis by (simp add: normalize_excludes_def)
qed

text \<open>
  Cleaning the exclusion list gives lower-case host names without wildcard, without a dot
  at either end and without repetitions; cleaning the result again changes nothing.
\<close>

theorem excludes_normal_form:
  "list_all (\<lambda>d. exclude_entry d \<and> clean_exclude d = d) (normalize_excludes ds)
   \<and> distinct (normalize_excludes ds)
   \<and> normalize_excludes (normalize_excludes ds) = normalize_excludes ds"
  using normalize_excludes_entries [of ds]
  by (auto simp: list_all_iff clean_exclude_id intro: normalize_excludes_id)

end
