(* ===== verification/Legitimacy.thy ===== *)
theory Legitimacy
  imports Domain_Names Complex_Main
begin

section \<open>The legitimacy score of a domain (internal/classifier/score.go)\<close>

text \<open>
  A domain starts at 85; risk factors deduct, trust factors add. \<open>compute_score\<close> is the code's
  sequence of blocks, each a function on the running score, the list of factors and the sum of
  the positive evidence. A factor is its label and its delta: the sentence that explains it
  (\<open>Detail\<close>) is left out. Floating-point numbers are real numbers, so the entropy of a label is
  the exact Shannon entropy; \<open>entropy_exceeds\<close> decides a comparison with it in integers. The
  clock and the parser of registration dates (a list of layouts for \<open>time.Parse\<close>) are arguments.
\<close>

subsection \<open>Evidence\<close>

record factor =
  fa_label :: string
  fa_delta :: int

record whois_info =
  wi_domain :: string
  wi_registrar :: string
  wi_registrant :: string
  wi_created :: string
  wi_expires :: string
  wi_updated :: string
  wi_age_days :: int
  wi_status :: "string list"
  wi_nameservers :: "string list"
  wi_dnssec :: bool
  wi_source :: string

definition no_whois :: whois_info where
  [model]: "no_whois = \<lparr>wi_domain = [], wi_registrar = [], wi_registrant = [], wi_created = [], wi_expires = [],
     wi_updated = [], wi_age_days = 0, wi_status = [], wi_nameservers = [], wi_dnssec = False, wi_source = []\<rparr>"

record reputation =
  re_vt_checked :: bool
  re_vt_malicious :: int
  re_vt_suspicious :: int
  re_vt_harmless :: int
  re_abuse_checked :: bool
  re_abuse_score :: int
  re_abuse_reports :: int
  re_abuse_ip :: string
  re_kaspersky_checked :: bool
  re_kaspersky_zone :: string

definition no_reputation :: reputation where
  [model]: "no_reputation = \<lparr>re_vt_checked = False, re_vt_malicious = 0, re_vt_suspicious = 0, re_vt_harmless = 0,
     re_abuse_checked = False, re_abuse_score = 0, re_abuse_reports = 0, re_abuse_ip = [],
     re_kaspersky_checked = False, re_kaspersky_zone = []\<rparr>"

definition rep_any :: "reputation \<Rightarrow> bool" where
  [model]: "rep_any r \<longleftrightarrow> re_vt_checked r \<or> re_abuse_checked r \<or> re_kaspersky_checked r"

definition rep_malicious :: "reputation \<Rightarrow> bool" where
  [model]: "rep_malicious r \<longleftrightarrow>
     2 \<le> re_vt_malicious r \<or> re_abuse_checked r \<and> 50 \<le> re_abuse_score r \<or> re_kaspersky_zone r = ''Red''"

record model_verdict =
  mv_category :: string
  mv_confidence :: real
  mv_reason :: string

definition no_verdict :: model_verdict where
  [model]: "no_verdict = \<lparr>mv_category = [], mv_confidence = 0, mv_reason = []\<rparr>"

definition block_categories :: "string list" where
  [model]: "block_categories = [''ads'', ''trackers'', ''malware'', ''phishing'']"

definition should_block :: "model_verdict \<Rightarrow> bool" where
  [model]: "should_block v \<longleftrightarrow> mv_category v \<in> set block_categories"

record score_input =
  si_domain :: string
  si_platform :: string
  si_list_trusted :: bool
  si_cdn :: bool
  si_ns_trusted_on :: string
  si_threat :: bool
  si_threat_hits :: int
  si_whois :: whois_info
  si_rep :: reputation
  si_verdict :: model_verdict

definition threat_hits :: "score_input \<Rightarrow> int" where
  [model]: "threat_hits i = (if 0 < si_threat_hits i then si_threat_hits i else if si_threat i then 1 else 0)"

definition strong_threat :: "score_input \<Rightarrow> bool" where
  [model]: "strong_threat i \<longleftrightarrow> 2 \<le> threat_hits i \<or> rep_malicious (si_rep i)"

definition base_legitimacy :: int where [model]: "base_legitimacy = 85"
definition trust_cap :: int where [model]: "trust_cap = 40"
definition strong_trust_cap :: int where [model]: "strong_trust_cap = 10"
definition block_threshold :: int where [model]: "block_threshold = 50"
definition auto_threshold :: int where [model]: "auto_threshold = 35"
definition established_floor :: int where [model]: "established_floor = 55"
definition reputation_floor :: int where [model]: "reputation_floor = 65"
definition established_days :: int where [model]: "established_days = 730"

subsection \<open>The running score\<close>

text \<open>The locals of \<open>computeScore\<close> and its closures \<open>add\<close>, \<open>note\<close>, \<open>vouch\<close> and \<open>vouchWhois\<close>.\<close>

record tally =
  ta_legit :: int
  ta_factors :: "factor list"
  ta_trust :: int

definition add_factor :: "string \<Rightarrow> int \<Rightarrow> tally \<Rightarrow> tally" where
  [model]: "add_factor l d t =
     t\<lparr>ta_factors := ta_factors t @ [\<lparr>fa_label = l, fa_delta = d\<rparr>], ta_legit := ta_legit t + d\<rparr>"

definition note_factor :: "string \<Rightarrow> tally \<Rightarrow> tally" where
  [model]: "note_factor l t = t\<lparr>ta_factors := ta_factors t @ [\<lparr>fa_label = l, fa_delta = 0\<rparr>]\<rparr>"

definition vouch :: "string \<Rightarrow> int \<Rightarrow> tally \<Rightarrow> tally" where
  [model]: "vouch l d t = (let t = add_factor l d t in t\<lparr>ta_trust := ta_trust t + d\<rparr>)"

definition plain_whois :: "score_input \<Rightarrow> bool" where
  [model]: "plain_whois i \<longleftrightarrow> wi_source (si_whois i) = ''whois''"

definition vouch_whois :: "score_input \<Rightarrow> string \<Rightarrow> int \<Rightarrow> tally \<Rightarrow> tally" where
  [model]: "vouch_whois i l d t = (if plain_whois i then note_factor l t else vouch l d t)"

definition threat_step :: "score_input \<Rightarrow> tally \<Rightarrow> tally" where
  [model]: "threat_step i t =
     (let hits = threat_hits i in
      if 0 < hits then add_factor ''Threat intel'' (if 3 \<le> hits then -90 else if hits = 2 then -70 else -45) t
      else t)"

definition age_step :: "score_input \<Rightarrow> tally \<Rightarrow> tally" where
  [model]: "age_step i t =
     (let age = wi_age_days (si_whois i) in
      if si_platform i \<noteq> [] then add_factor ''Hosting platform'' (-10) t
      else if age \<le> 0 then note_factor ''Domain age'' t
      else if age < 30 then add_factor ''Domain age'' (-45) t
      else if age < 90 then add_factor ''Domain age'' (-28) t
      else if age < 180 then add_factor ''Domain age'' (-15) t
      else if age < 365 then add_factor ''Domain age'' (-6) t
      else if age < established_days then note_factor ''Domain age'' t
      else if age < 5 * 365 then vouch_whois i ''Domain age'' 8 t
      else if age < 10 * 365 then vouch_whois i ''Domain age'' 14 t
      else vouch_whois i ''Domain age'' 20 t)"

definition nameserver_step :: "score_input \<Rightarrow> tally \<Rightarrow> tally" where
  [model]: "nameserver_step i t = (if si_ns_trusted_on i \<noteq> [] then vouch ''Own nameservers'' 15 t else t)"

subsection \<open>Registration details\<close>

definition privacy_words :: "string list" where
  [model]: "privacy_words = [''privacy'', ''redacted'', ''proxy'', ''protected'', ''withheld'', ''not disclosed'',
     ''whoisguard'', ''data protection'', ''statutory masking'', ''anonymous'']"

definition privacy_registrant :: "string \<Rightarrow> bool" where
  [model]: "privacy_registrant org \<longleftrightarrow> list_ex (\<lambda>s. contains_sub (to_lower org) s) privacy_words"

definition status_set :: "whois_info \<Rightarrow> string list" where
  [model]: "status_set w = map (\<lambda>st. filter (\<lambda>c. c \<noteq> CHR '' '') (to_lower st)) (wi_status w)"

text \<open>\<open>parse_date\<close> is \<open>parseRDAPDate\<close>: the point in time a date stands for, if it can be read.\<close>

definition registration_factors :: "(string \<Rightarrow> time option) \<Rightarrow> whois_info \<Rightarrow> time \<Rightarrow> factor list" where
  [model]: "registration_factors parse_date w now =
     (let status = status_set w; org = trim_space (wi_registrant w) in
      (if list_ex (\<lambda>st. st \<in> set status) [''serverhold'', ''clienthold'', ''pendingdelete'', ''redemptionperiod'']
       then [\<lparr>fa_label = ''Registration status'', fa_delta = -20\<rparr>] else [])
      @ (if ''servertransferprohibited'' \<in> set status
            \<and> (''serverdeleteprohibited'' \<in> set status \<or> ''serverupdateprohibited'' \<in> set status)
         then [\<lparr>fa_label = ''Registry lock'', fa_delta = 8\<rparr>] else [])
      @ (if org \<noteq> [] \<and> \<not> privacy_registrant org then [\<lparr>fa_label = ''Registrant'', fa_delta = 5\<rparr>] else [])
      @ (case parse_date (wi_expires w) of
           Some t \<Rightarrow> if 400 * 24 * 60 * minute < t - now then [\<lparr>fa_label = ''Registration term'', fa_delta = 5\<rparr>] else []
         | None \<Rightarrow> [])
      @ (if wi_dnssec w then [\<lparr>fa_label = ''DNSSEC'', fa_delta = 4\<rparr>] else []))"

definition registration_step :: "(string \<Rightarrow> time option) \<Rightarrow> time \<Rightarrow> score_input \<Rightarrow> tally \<Rightarrow> tally" where
  [model]: "registration_step parse_date now i t =
     foldl (\<lambda>t f. if 0 < fa_delta f then vouch_whois i (fa_label f) (fa_delta f) t
                   else add_factor (fa_label f) (fa_delta f) t)
       t (registration_factors parse_date (si_whois i) now)"

subsection \<open>The shape of the name\<close>

definition risky_tlds :: "string list" where
  "risky_tlds =
     [''zip'', ''mov'', ''top'', ''xyz'', ''tk'', ''ml'', ''ga'', ''cf'',
      ''gq'', ''work'', ''click'', ''link'', ''loan'', ''men'', ''gdn'', ''icu'',
      ''cam'', ''buzz'', ''rest'', ''fit'', ''cyou'', ''sbs'', ''quest'', ''country'',
      ''kim'', ''monster'', ''bar'', ''casa'', ''cfd'', ''wang'']"

definition risky_tld :: "string \<Rightarrow> bool" where
  [model]: "risky_tld domain \<longleftrightarrow>
     (case last_index_byte CHR ''.'' domain of None \<Rightarrow> False | Some i \<Rightarrow> drop (i + 1) domain \<in> set risky_tlds)"

definition tld_step :: "score_input \<Rightarrow> tally \<Rightarrow> tally" where
  [model]: "tld_step i t = (if risky_tld (si_domain i) then add_factor ''Risky TLD'' (-15) t else t)"

definition byte_freq :: "string \<Rightarrow> nat \<Rightarrow> nat" where
  [model]: "byte_freq s b = length (filter (\<lambda>c. byte c = b) s)"

definition entropy :: "string \<Rightarrow> real" where
  [model]: "entropy s =
     (if s = [] then 0
      else (let n = real (length s) in
        foldl (\<lambda>h c. if c = 0 then h else h - real c / n * log 2 (real c / n)) 0 (map (byte_freq s) [0..<256])))"

definition impersonation_targets :: "string list" where
  "impersonation_targets =
     [''paypal'', ''google'', ''apple'', ''icloud'', ''microsoft'', ''office365'', ''outlook'', ''amazon'',
      ''facebook'', ''instagram'', ''whatsapp'', ''netflix'', ''linkedin'', ''dropbox'', ''coinbase'', ''binance'',
      ''metamask'', ''wellsfargo'', ''chase'', ''bankofamerica'', ''americanexpress'', ''yahoo'', ''gmail'', ''steam'',
      ''roblox'', ''discord'', ''spotify'']"

definition homoglyph :: "char \<Rightarrow> char" where
  [model]: "homoglyph c =
     (if c = CHR ''0'' then CHR ''o'' else if c = CHR ''1'' then CHR ''l'' else if c = CHR ''3'' then CHR ''e''
      else if c = CHR ''4'' then CHR ''a'' else if c = CHR ''5'' then CHR ''s'' else if c = CHR ''7'' then CHR ''t''
      else if c = CHR ''@'' then CHR ''a'' else if c = CHR ''$'' then CHR ''s'' else c)"

definition normalize_homoglyphs :: "string \<Rightarrow> string" where
  [model]: "normalize_homoglyphs s = map homoglyph s"

fun brand_scan :: "string \<Rightarrow> string \<Rightarrow> string list \<Rightarrow> string list \<Rightarrow> factor option" where
  "brand_scan label typed tokens [] = None"
| "brand_scan label typed tokens (b # bs) =
     (if label = b then None
      else if typed = b then Some \<lparr>fa_label = ''Lexical: look-alike'', fa_delta = -28\<rparr>
      else if 1 < length tokens \<and> b \<in> set tokens then Some \<lparr>fa_label = ''Lexical: brand in name'', fa_delta = -22\<rparr>
      else brand_scan label typed tokens bs)"

definition brand_impersonation_factor :: "string \<Rightarrow> factor option" where
  [model]: "brand_impersonation_factor label =
     (if length label < 4 then None
      else brand_scan label (normalize_homoglyphs label)
             (fields_func (\<lambda>c. c = CHR ''-'' \<or> c = CHR ''.'' \<or> c = CHR ''_'') label) impersonation_targets)"

definition lexical_factors :: "string \<Rightarrow> factor list" where
  [model]: "lexical_factors domain =
     (let label = (case index_byte CHR ''.'' domain of None \<Rightarrow> domain | Some i \<Rightarrow> take i domain);
          digits = length (filter is_digit label) in
      (if has_prefix label ''xn--'' then [\<lparr>fa_label = ''Lexical: punycode'', fa_delta = -20\<rparr>] else [])
      @ (if 3 \<le> length (filter (\<lambda>c. c = CHR ''-'') label) then [\<lparr>fa_label = ''Lexical: hyphens'', fa_delta = -8\<rparr>] else [])
      @ (if label \<noteq> [] \<and> (5 \<le> digits \<or> 33 / 100 < real digits / real (length label))
         then [\<lparr>fa_label = ''Lexical: digits'', fa_delta = -8\<rparr>] else [])
      @ (if 25 \<le> length label then [\<lparr>fa_label = ''Lexical: length'', fa_delta = -8\<rparr>] else [])
      @ (if 12 \<le> length label \<and> 38 / 10 < entropy label then [\<lparr>fa_label = ''Lexical: randomness'', fa_delta = -12\<rparr>] else [])
      @ (case brand_impersonation_factor label of None \<Rightarrow> [] | Some f \<Rightarrow> [f]))"

definition lexical_step :: "score_input \<Rightarrow> tally \<Rightarrow> tally" where
  [model]: "lexical_step i t =
     foldl (\<lambda>t f. add_factor (fa_label f) (fa_delta f) t) t (lexical_factors (si_domain i))"

subsection \<open>Reputation services and the model\<close>

text \<open>Division of Go truncates; the deltas here divide numbers that are at least 25.\<close>

definition virustotal_step :: "score_input \<Rightarrow> tally \<Rightarrow> tally" where
  [model]: "virustotal_step i t =
     (let r = si_rep i in
      if \<not> re_vt_checked r then t
      else if 2 \<le> re_vt_malicious r then add_factor ''VirusTotal'' (- min 60 (re_vt_malicious r * 12)) t
      else if 3 \<le> re_vt_suspicious r then add_factor ''VirusTotal'' (- min 30 (re_vt_suspicious r * 6)) t
      else if re_vt_malicious r = 0 \<and> re_vt_suspicious r = 0 \<and> 0 < re_vt_harmless r then vouch ''VirusTotal'' 10 t
      else note_factor ''VirusTotal'' t)"

definition abuse_step :: "score_input \<Rightarrow> tally \<Rightarrow> tally" where
  [model]: "abuse_step i t =
     (let r = si_rep i in
      if \<not> re_abuse_checked r then t
      else if 25 \<le> re_abuse_score r then add_factor ''AbuseIPDB'' (- min 50 (re_abuse_score r div 2)) t
      else if re_abuse_score r = 0 then vouch ''AbuseIPDB'' 3 t
      else t)"

definition kaspersky_step :: "score_input \<Rightarrow> tally \<Rightarrow> tally" where
  [model]: "kaspersky_step i t =
     (let r = si_rep i in
      if \<not> re_kaspersky_checked r then t
      else if re_kaspersky_zone r = ''Red'' then add_factor ''Kaspersky OpenTIP'' (-60) t
      else if re_kaspersky_zone r = ''Orange'' then add_factor ''Kaspersky OpenTIP'' (-25) t
      else if re_kaspersky_zone r = ''Yellow'' then add_factor ''Kaspersky OpenTIP'' (-12) t
      else if re_kaspersky_zone r = ''Green'' then vouch ''Kaspersky OpenTIP'' 10 t
      else note_factor ''Kaspersky OpenTIP'' t)"

text \<open>\<open>math.Round\<close>: half away from zero.\<close>

definition round_away :: "real \<Rightarrow> int" where
  [model]: "round_away x = (if x < 0 then - \<lfloor>1 / 2 - x\<rfloor> else \<lfloor>x + 1 / 2\<rfloor>)"

definition model_step :: "score_input \<Rightarrow> tally \<Rightarrow> tally" where
  [model]: "model_step i t =
     (if should_block (si_verdict i)
      then (let conf = mv_confidence (si_verdict i); conf = (if conf \<le> 0 then 1 / 2 else conf) in
            add_factor ''Model assessment'' (- round_away (conf * 50)) t)
      else note_factor ''Model assessment'' t)"

subsection \<open>Cap, floors and the result\<close>

definition cap_step :: "score_input \<Rightarrow> tally \<Rightarrow> tally" where
  [model]: "cap_step i t =
     (let limit = (if strong_threat i then strong_trust_cap else trust_cap) in
      if limit < ta_trust t then add_factor ''Trust cap'' (limit - ta_trust t) t else t)"

definition established_step :: "score_input \<Rightarrow> tally \<Rightarrow> tally" where
  [model]: "established_step i t =
     (if established_days \<le> wi_age_days (si_whois i) \<and> \<not> plain_whois i \<and> \<not> strong_threat i
         \<and> ta_legit t < established_floor
      then add_factor ''Established floor'' (established_floor - ta_legit t) t else t)"

definition rep_clean :: "reputation \<Rightarrow> bool" where
  [model]: "rep_clean r \<longleftrightarrow>
     re_vt_checked r \<and> re_vt_malicious r = 0 \<and> re_vt_suspicious r = 0 \<and> 0 < re_vt_harmless r"

definition reputation_step :: "score_input \<Rightarrow> tally \<Rightarrow> tally" where
  [model]: "reputation_step i t =
     (if rep_clean (si_rep i) \<and> \<not> strong_threat i \<and> ta_legit t < reputation_floor
      then add_factor ''Reputation floor'' (reputation_floor - ta_legit t) t else t)"

record score =
  sc_legitimacy :: int
  sc_factors :: "factor list"

definition start_tally :: tally where
  [model]: "start_tally = note_factor ''Starting point'' \<lparr>ta_legit = base_legitimacy, ta_factors = [], ta_trust = 0\<rparr>"

definition evidence :: "(string \<Rightarrow> time option) \<Rightarrow> time \<Rightarrow> score_input \<Rightarrow> tally \<Rightarrow> tally" where
  [model]: "evidence parse_date now i t =
     (let t = threat_step i t; t = age_step i t; t = nameserver_step i t;
          t = registration_step parse_date now i t; t = tld_step i t; t = lexical_step i t;
          t = virustotal_step i t; t = abuse_step i t; t = kaspersky_step i t in
      model_step i t)"

definition compute_score :: "(string \<Rightarrow> time option) \<Rightarrow> time \<Rightarrow> score_input \<Rightarrow> score" where
  [model]: "compute_score parse_date now i =
     (if si_list_trusted i \<or> si_cdn i
      then \<lparr>sc_legitimacy = 100, sc_factors = [\<lparr>fa_label = ''Trusted'', fa_delta = 0\<rparr>]\<rparr>
      else (let t = evidence parse_date now i start_tally;
                t = cap_step i t; t = established_step i t; t = reputation_step i t;
                legit = ta_legit t;
                legit = (if legit < 0 then 0 else if 100 < legit then 100 else legit) in
            \<lparr>sc_legitimacy = legit, sc_factors = ta_factors t\<rparr>))"

end
