(* ===== verification/Threat_Sets.thy ===== *)
theory Threat_Sets
  imports Domain_Names
begin

section \<open>Trusted and threat lists (internal/classifier: trusted.go, sets.go, feeds.go)\<close>

text \<open>
  The lists of popular and of malicious domains: reading a list into registered domains, the
  union of several lists with the number of lists that name a domain, and the holder that
  loads a set when its sources change. A list that is downloaded or read is its lines and
  whether reading them ended in an error; \<open>url.Parse(s).Hostname()\<close> is an argument, empty when
  it fails.
\<close>

subsection \<open>Settings\<close>

record cls_settings =
  cs_on :: bool
  cs_ai_enabled :: bool
  cs_provider :: string
  cs_endpoint :: string
  cs_model :: string
  cs_mode :: string
  cs_trusted_list_url :: string
  cs_trusted_top_n :: int
  cs_trusted_disable_default :: bool
  cs_threat_feeds :: "string list option"
  cs_threat_list_url :: string
  cs_threat_disable_default :: bool
  cs_whois_enabled :: bool
  cs_vt_enabled :: bool
  cs_vt_api_key :: string
  cs_abuse_enabled :: bool
  cs_abuse_api_key :: string
  cs_opentip_enabled :: bool
  cs_opentip_api_key :: string
  cs_exclude_domains :: "string list"
  cs_ns_check_disabled :: bool

subsection \<open>Sources\<close>

definition default_trusted_url :: string where
  "default_trusted_url = ''https://downloads.majestic.com/majestic_million.csv''"

definition default_trusted_top_n :: int where "default_trusted_top_n = 100000"

definition default_threat_url :: string where
  "default_threat_url = ''https://urlhaus.abuse.ch/downloads/hostfile/''"

definition threat_feeds :: "(string \<times> string) list" where
  "threat_feeds =
     [(''urlhaus'', default_threat_url),
      (''threatfox'', ''https://threatfox.abuse.ch/downloads/hostfile/''),
      (''phishing_army'', ''https://phishing.army/download/phishing_army_blocklist_extended.txt''),
      (''hagezi_tif'', ''https://raw.githubusercontent.com/hagezi/dns-blocklists/main/wildcard/tif.medium-onlydomains.txt''),
      (''openphish'', ''https://openphish.com/feed.txt'')]"

definition threat_feed_url :: "string \<Rightarrow> string option" where
  [model]: "threat_feed_url key = map_of threat_feeds key"

type_synonym domain_source = "string \<times> int"

definition sources_key :: "domain_source list \<Rightarrow> string" where
  [model]: "sources_key srcs =
     (case map (\<lambda>(url, n). url @ ''#'' @ format_int n) srcs of
        [] \<Rightarrow> [] | p # ps \<Rightarrow> p @ concat (map (\<lambda>q. ''|'' @ q) ps))"

definition custom_source :: "string \<Rightarrow> string" where
  [model]: "custom_source v = (let v = trim_space v in if v = [] \<or> equal_fold v ''off'' then [] else v)"

definition split_sources :: "string \<Rightarrow> string list" where
  [model]: "split_sources v =
     fields_func (\<lambda>c. c = CHR 0x0A \<or> c = CHR '','' \<or> c = CHR '' '' \<or> c = CHR 0x09) v"

definition trusted_sources :: "cls_settings \<Rightarrow> domain_source list" where
  [model]: "trusted_sources s =
     (if cs_trusted_disable_default s then []
      else [(default_trusted_url, if cs_trusted_top_n s \<le> 0 then default_trusted_top_n else cs_trusted_top_n s)])
     @ (let c = custom_source (cs_trusted_list_url s) in if c = [] then [] else [(c, cs_trusted_top_n s)])"

definition add_source :: "domain_source list \<Rightarrow> string \<Rightarrow> domain_source list" where
  [model]: "add_source out url = (if url = [] \<or> url \<in> fst ` set out then out else out @ [(url, 0)])"

definition threat_sources :: "cls_settings \<Rightarrow> domain_source list" where
  [model]: "threat_sources s =
     (let feeds = (case cs_threat_feeds s of
                     Some fs \<Rightarrow> fs | None \<Rightarrow> if cs_threat_disable_default s then [] else [''urlhaus'']);
          out = foldl (\<lambda>out key. case threat_feed_url key of Some url \<Rightarrow> add_source out url | None \<Rightarrow> out) [] feeds in
      foldl (\<lambda>out c. add_source out (custom_source c)) out (split_sources (cs_threat_list_url s)))"

subsection \<open>Reading one list\<close>

record list_text =
  lt_lines :: "string list"
  lt_failed :: bool

definition token_domain :: "suffix_lib \<Rightarrow> (string \<Rightarrow> string) \<Rightarrow> string \<Rightarrow> string option" where
  [model]: "token_domain P url_host tok =
     (if tok = [] \<or> parse_ip tok \<noteq> None then None
      else (let tok = (if contains_sub tok ''://'' \<and> url_host tok \<noteq> [] then url_host tok else tok);
                d = registered_domain P tok in
            if d \<noteq> [] \<and> CHR ''.'' \<in> set d then Some d else None))"

definition list_line :: "suffix_lib \<Rightarrow> (string \<Rightarrow> string) \<Rightarrow> string \<Rightarrow> string option" where
  [model]: "list_line P url_host line =
     first_some (token_domain P url_host) (fields_func (\<lambda>c. c = CHR '','' \<or> c = CHR '' '' \<or> c = CHR 0x09) line)"

fun parse_trusted_lines ::
    "suffix_lib \<Rightarrow> (string \<Rightarrow> string) \<Rightarrow> int \<Rightarrow> string list \<Rightarrow> string list \<Rightarrow> string list" where
  "parse_trusted_lines P url_host top_n found [] = found"
| "parse_trusted_lines P url_host top_n found (l # ls) =
     (let line = trim_space l in
      if line = [] \<or> has_prefix line ''#'' then parse_trusted_lines P url_host top_n found ls
      else (let found = (case list_line P url_host line of
                           Some d \<Rightarrow> if d \<in> set found then found else found @ [d] | None \<Rightarrow> found) in
            if 0 < top_n \<and> top_n \<le> int (length found) then found
            else parse_trusted_lines P url_host top_n found ls))"

text \<open>\<open>LoadTrusted\<close>: \<open>None\<close> when the list cannot be fetched, or reading it ends in an error.
  A list with a limit is taken to fail also when the error comes after the limit was reached; whether
  the scanner had met it by then depends on how the bytes arrived.\<close>

definition load_trusted ::
    "suffix_lib \<Rightarrow> (string \<Rightarrow> string) \<Rightarrow> (string \<Rightarrow> list_text option) \<Rightarrow> domain_source \<Rightarrow> string list option" where
  [model]: "load_trusted P url_host fetch src =
     (case fetch (fst src) of
        None \<Rightarrow> None
      | Some txt \<Rightarrow>
          if lt_failed txt then None
          else Some (parse_trusted_lines P url_host (snd src) [] (lt_lines txt)))"

subsection \<open>Sets\<close>

record trusted_set =
  ts_domains :: "string list"
  ts_counts :: "(string \<times> nat) list option"

definition set_has :: "suffix_lib \<Rightarrow> trusted_set option \<Rightarrow> string \<Rightarrow> bool" where
  [model]: "set_has P t name \<longleftrightarrow>
     (case t of None \<Rightarrow> False
      | Some t \<Rightarrow> (let d = registered_domain P name in d \<noteq> [] \<and> d \<in> set (ts_domains t)))"

definition set_hits :: "suffix_lib \<Rightarrow> trusted_set option \<Rightarrow> string \<Rightarrow> nat" where
  [model]: "set_hits P t name =
     (case t of None \<Rightarrow> 0
      | Some t \<Rightarrow>
          (let d = registered_domain P name in
           if ts_domains t = [] \<or> d = [] then 0
           else case ts_counts t of
               Some m \<Rightarrow> (case map_of m d of Some n \<Rightarrow> n | None \<Rightarrow> 0)
             | None \<Rightarrow> if d \<in> set (ts_domains t) then 1 else 0))"

definition set_count :: "trusted_set option \<Rightarrow> nat" where
  [model]: "set_count t = (case t of None \<Rightarrow> 0 | Some t \<Rightarrow> length (ts_domains t))"

definition count_domain :: "trusted_set \<Rightarrow> string \<Rightarrow> trusted_set" where
  [model]: "count_domain t d =
     t\<lparr>ts_domains := (if d \<in> set (ts_domains t) then ts_domains t else ts_domains t @ [d]),
       ts_counts := (case ts_counts t of
          None \<Rightarrow> None
        | Some m \<Rightarrow> Some (AList.update d (Suc (case map_of m d of Some n \<Rightarrow> n | None \<Rightarrow> 0)) m))\<rparr>"

text \<open>A source that fails is skipped; the union fails only if it is empty and some source failed.\<close>

definition add_loaded ::
    "(domain_source \<Rightarrow> string list option) \<Rightarrow> trusted_set \<times> bool \<Rightarrow> domain_source \<Rightarrow> trusted_set \<times> bool" where
  [model]: "add_loaded load st src =
     (let (t, failed) = st in
      case load src of None \<Rightarrow> (t, True) | Some ds \<Rightarrow> (foldl count_domain t ds, failed))"

definition load_sources ::
    "(domain_source \<Rightarrow> string list option) \<Rightarrow> bool \<Rightarrow> domain_source list \<Rightarrow> trusted_set option" where
  [model]: "load_sources load counting srcs =
     (let (t, failed) = foldl (add_loaded load)
            (\<lparr>ts_domains = [], ts_counts = (if counting then Some [] else None)\<rparr>, False) srcs in
      if ts_domains t = [] \<and> failed then None else Some t)"

subsection \<open>The holder\<close>

record set_holder =
  sh_counting :: bool
  sh_set :: "trusted_set option"
  sh_src :: "string option"
  sh_busy :: bool

definition new_set_holder :: "bool \<Rightarrow> set_holder" where
  [model]: "new_set_holder counting = \<lparr>sh_counting = counting, sh_set = None, sh_src = None, sh_busy = False\<rparr>"

text \<open>
  \<open>ensureSync\<close> and \<open>refresh\<close>: the new holder and whether the set was loaded (then \<open>onChange\<close>
  fires). \<open>sh_busy\<close> is set while another goroutine loads.
\<close>

definition ensure_sync ::
    "(domain_source \<Rightarrow> string list option) \<Rightarrow> domain_source list \<Rightarrow> set_holder \<Rightarrow> bool \<times> set_holder" where
  [model]: "ensure_sync load srcs h =
     (let key = sources_key srcs in
      if (case sh_src h of Some k \<Rightarrow> k | None \<Rightarrow> []) = key then (False, h)
      else if srcs = [] then (False, h\<lparr>sh_set := None, sh_src := Some key\<rparr>)
      else if sh_busy h then (False, h)
      else case load_sources load (sh_counting h) srcs of
          None \<Rightarrow> (False, h)
        | Some t \<Rightarrow> (True, h\<lparr>sh_set := Some t, sh_src := Some key\<rparr>))"

definition refresh_set ::
    "(domain_source \<Rightarrow> string list option) \<Rightarrow> domain_source list \<Rightarrow> set_holder \<Rightarrow> bool \<times> set_holder" where
  [model]: "refresh_set load srcs h =
     (if srcs = [] \<or> sh_busy h then (False, h)
      else case load_sources load (sh_counting h) srcs of
          None \<Rightarrow> (False, h)
        | Some t \<Rightarrow> (True, h\<lparr>sh_set := Some t, sh_src := Some (sources_key srcs)\<rparr>))"

subsection \<open>What a loaded set knows\<close>

lemma parse_trusted_distinct: "distinct found \<Longrightarrow> distinct (parse_trusted_lines P uh n found ls)"
  by (induction P uh n found ls rule: parse_trusted_lines.induct) (simp_all add: Let_def split: option.split)

lemma parse_trusted_bound:
  "0 < n \<Longrightarrow> int (length found) < n \<Longrightarrow> int (length (parse_trusted_lines P uh n found ls)) \<le> n"
  by (induction P uh n found ls rule: parse_trusted_lines.induct) (auto simp: Let_def split: option.split)

lemma list_line_dot: "list_line P uh l = Some d \<Longrightarrow> d \<noteq> [] \<and> CHR ''.'' \<in> set d"
  by (auto simp: list_line_def token_domain_def Let_def dest!: first_some_hit split: if_splits)

lemma parse_trusted_dots:
  "\<forall>d\<in>set found. CHR ''.'' \<in> set d \<Longrightarrow> d \<in> set (parse_trusted_lines P uh n found ls) \<Longrightarrow> CHR ''.'' \<in> set d"
proof (induction P uh n found ls rule: parse_trusted_lines.induct)
  case (2 P uh n found l ls)
  have "CHR ''.'' \<in> set e" if "list_line P uh (trim_space l) = Some e" for e
    using list_line_dot [OF that] by simp
  with 2 show ?case
    by (auto simp: Let_def split: if_splits option.splits)
qed simp

lemma load_trusted_distinct: "load_trusted P uh fetch src = Some ds \<Longrightarrow> distinct ds"
  by (auto simp: load_trusted_def parse_trusted_distinct split: option.splits if_splits)

text \<open>The count of a domain, 0 if it is absent.\<close>

definition counted :: "trusted_set \<Rightarrow> string \<Rightarrow> nat" where
  "counted t d = (case ts_counts t of None \<Rightarrow> 0 | Some m \<Rightarrow> (case map_of m d of Some n \<Rightarrow> n | None \<Rightarrow> 0))"

lemma count_domain_counted:
  assumes "ts_counts t \<noteq> None"
  shows "counted (count_domain t e) d = counted t d + (if d = e then 1 else 0)"
    and "ts_counts (count_domain t e) \<noteq> None"
    and "set (ts_domains (count_domain t e)) = insert e (set (ts_domains t))"
  using assms by (auto simp: count_domain_def counted_def update_conv' split: option.split)

lemma count_list_counted:
  assumes "ts_counts t \<noteq> None" "distinct ds"
  shows "counted (foldl count_domain t ds) d = counted t d + (if d \<in> set ds then 1 else 0)
    \<and> ts_counts (foldl count_domain t ds) \<noteq> None
    \<and> set (ts_domains (foldl count_domain t ds)) = set ds \<union> set (ts_domains t)"
  using assms
proof (induction ds arbitrary: t)
  case (Cons e ds)
  then show ?case
    using Cons.IH [of "count_domain t e"] count_domain_counted [OF Cons.prems(1)] by auto
qed simp

definition lists_domain :: "(domain_source \<Rightarrow> string list option) \<Rightarrow> string \<Rightarrow> domain_source \<Rightarrow> bool" where
  "lists_domain load d src \<longleftrightarrow> (case load src of None \<Rightarrow> False | Some ds \<Rightarrow> d \<in> set ds)"

lemma add_loaded_counted:
  assumes "ts_counts (fst st) \<noteq> None" and "\<And>src ds. load src = Some ds \<Longrightarrow> distinct ds"
  shows "counted (fst (foldl (add_loaded load) st srcs)) d =
      counted (fst st) d + length (filter (lists_domain load d) srcs)
    \<and> (d \<in> set (ts_domains (fst (foldl (add_loaded load) st srcs)))
        \<longleftrightarrow> d \<in> set (ts_domains (fst st)) \<or> (\<exists>src\<in>set srcs. lists_domain load d src))
    \<and> ts_counts (fst (foldl (add_loaded load) st srcs)) \<noteq> None"
  using assms(1)
proof (induction srcs arbitrary: st)
  case (Cons src srcs)
  obtain t b where st: "st = (t, b)" by fastforce
  show ?case
  proof (cases "load src")
    case None
    with Cons st show ?thesis by (simp add: add_loaded_def lists_domain_def)
  next
    case (Some ds)
    with Cons.prems st have c: "ts_counts t \<noteq> None" by simp
    note f = count_list_counted [OF c assms(2) [OF Some], of d]
    from f Cons.IH [of "(foldl count_domain t ds, b)"] show ?thesis
      by (auto simp: st Some add_loaded_def lists_domain_def)
  qed
qed simp

lemma set_hits_counts:
  assumes "load_sources load True srcs = Some t" and "\<And>src ds. load src = Some ds \<Longrightarrow> distinct ds"
  shows "set_hits P (Some t) name =
    (if registered_domain P name = [] then 0
     else length (filter (lists_domain load (registered_domain P name)) srcs))"
proof -
  let ?d = "registered_domain P name" and ?st = "(\<lparr>ts_domains = [], ts_counts = Some []\<rparr>, False)"
  have t: "t = fst (foldl (add_loaded load) ?st srcs)"
    using assms(1) by (auto simp: load_sources_def split: prod.splits if_splits)
  have a: "counted t ?d = length (filter (lists_domain load ?d) srcs)" "ts_counts t \<noteq> None"
    "?d \<in> set (ts_domains t) \<longleftrightarrow> (\<exists>src\<in>set srcs. lists_domain load ?d src)"
    using add_loaded_counted [of ?st load srcs ?d] assms(2) by (auto simp: t counted_def)
  have "filter (lists_domain load ?d) srcs = []" if "ts_domains t = []"
    using a(3) that by (simp add: filter_empty_conv)
  with a(1,2) show ?thesis
    by (auto simp: set_hits_def Let_def counted_def split: option.splits)
qed

lemma add_source_distinct: "distinct (map fst out) \<Longrightarrow> distinct (map fst (add_source out url))"
  by (simp add: add_source_def)

lemma threat_sources_distinct: "distinct (map fst (threat_sources s))"
proof -
  have "distinct (map fst (foldl (\<lambda>out c. add_source out (custom_source c)) out cs))" if "distinct (map fst out)" for out cs
    using that by (induction cs arbitrary: out) (simp_all add: add_source_distinct)
  moreover have "distinct (map fst (foldl (\<lambda>out key. case threat_feed_url key of Some url \<Rightarrow> add_source out url | None \<Rightarrow> out) out ks))"
    if "distinct (map fst out)" for out ks
    using that by (induction ks arbitrary: out) (simp_all add: add_source_distinct split: option.split)
  ultimately show ?thesis by (simp add: threat_sources_def Let_def)
qed

text \<open>
  The corroboration of a domain is the number of different threat feeds that list it. In
  the set loaded from the configured feeds, the hits of a name are exactly the feeds, by their
  addresses, that could be read and list the name's registered domain; a feed that is named
  twice counts once, and a feed that repeats a domain too.
\<close>

theorem hits_count_the_feeds:
  assumes "load_sources (load_trusted P uh fetch) True (threat_sources s) = Some t"
  shows "set_hits P (Some t) name =
    (if registered_domain P name = [] then 0
     else card {url. \<exists>n. (url, n) \<in> set (threat_sources s)
            \<and> lists_domain (load_trusted P uh fetch) (registered_domain P name) (url, n)})"
proof -
  let ?load = "load_trusted P uh fetch" and ?d = "registered_domain P name"
  let ?fs = "filter (lists_domain ?load ?d) (threat_sources s)"
  have "{url. \<exists>n. (url, n) \<in> set (threat_sources s) \<and> lists_domain ?load ?d (url, n)} = set (map fst ?fs)"
    by force
  moreover have "distinct (map fst ?fs)"
    by (rule distinct_map_filter [OF threat_sources_distinct])
  ultimately show ?thesis
    using set_hits_counts [OF assms load_trusted_distinct] by (simp only: distinct_card length_map)
qed

text \<open>
  A set that is loaded is never lost to a failure: refreshing it, or asking for it again
  under the same sources, either replaces it by a complete reading or leaves it as it was.
\<close>

theorem failed_refresh_keeps_the_set:
  assumes "load_sources load (sh_counting h) srcs = None"
  shows "refresh_set load srcs h = (False, h) \<and> (srcs \<noteq> [] \<longrightarrow> ensure_sync load srcs h = (False, h))"
  using assms by (simp add: refresh_set_def ensure_sync_def Let_def)

subsection \<open>A concrete library and concrete feeds\<close>

definition demo_psl :: suffix_lib where
  "demo_psl = \<lparr>public_suffix = (\<lambda>n. (last_label n, True)),
     etld_plus_one = (\<lambda>n. if CHR ''.'' \<in> set n then Some n else None)\<rparr>"

definition demo_settings :: cls_settings where
  "demo_settings = \<lparr>cs_on = True, cs_ai_enabled = False, cs_provider = [], cs_endpoint = [], cs_model = [],
     cs_mode = ''auto'', cs_trusted_list_url = [], cs_trusted_top_n = 0, cs_trusted_disable_default = True,
     cs_threat_feeds = Some [''urlhaus'', ''threatfox'', ''urlhaus''], cs_threat_list_url = [],
     cs_threat_disable_default = False, cs_whois_enabled = False, cs_vt_enabled = False, cs_vt_api_key = [],
     cs_abuse_enabled = False, cs_abuse_api_key = [], cs_opentip_enabled = False, cs_opentip_api_key = [],
     cs_exclude_domains = [], cs_ns_check_disabled = True\<rparr>"

definition demo_fetch :: "string \<Rightarrow> list_text option" where
  "demo_fetch url = Some \<lparr>lt_lines = [''0.0.0.0 evil.example'', ''evil.example''], lt_failed = False\<rparr>"

definition demo_threats :: trusted_set where
  "demo_threats = \<lparr>ts_domains = [''evil.example''], ts_counts = Some [(''evil.example'', 2)]\<rparr>"

lemma demo_threats_loaded:
  "load_sources (load_trusted demo_psl (\<lambda>s. s) demo_fetch) True (threat_sources demo_settings) = Some demo_threats"
  by code_simp

theorem hits_count_the_feeds_witness:
  "card {url. \<exists>n. (url, n) \<in> set (threat_sources demo_settings)
     \<and> lists_domain (load_trusted demo_psl (\<lambda>s. s) demo_fetch) (registered_domain demo_psl ''evil.example'') (url, n)} = 2"
proof -
  have "set_hits demo_psl (Some demo_threats) ''evil.example'' = 2" "registered_domain demo_psl ''evil.example'' \<noteq> []"
    by code_simp+
  with hits_count_the_feeds [OF demo_threats_loaded, of "''evil.example''"] show ?thesis
    by (simp only: if_False)
qed

theorem failed_refresh_keeps_the_set_witness:
  "refresh_set (\<lambda>_. None) [(''a'', 0)] (new_set_holder True) = (False, new_set_holder True)"
proof -
  have "load_sources (\<lambda>_. None) (sh_counting (new_set_holder True)) [(''a'', 0)] = None"
    by code_simp
  from failed_refresh_keeps_the_set [OF this] show ?thesis by simp
qed

end
