(* ===== verification/Classify_Worker.thy ===== *)
theory Classify_Worker
  imports Legitimacy Threat_Sets Config_Versions Categories
begin

section \<open>The classification worker (internal/classifier: worker.go, nscheck.go, content.go, rescore.go, reputation.go)\<close>

text \<open>
  The worker takes a domain from its queue, collects signals, scores it and records a verdict
  once. What the services it asks would answer for the domain is a record of arguments
  (\<open>signals\<close>); every question to a third party is noted in \<open>wo_asked\<close>. Settings are read once
  per domain. Not modelled: errors of the database, the accounting of tokens and quotas, the
  text of the prompt, and the confidence and the factors a verdict stores for display.
\<close>

subsection \<open>Settings and categories\<close>

datatype cls_mode = Mode_Off | Mode_Suggest | Mode_Auto

definition parse_mode :: "string \<Rightarrow> cls_mode" where
  [model]: "parse_mode s = (if s = ''suggest'' then Mode_Suggest else if s = ''auto'' then Mode_Auto else Mode_Off)"

definition normalize_provider :: "string \<Rightarrow> string" where
  [model]: "normalize_provider p = (if to_lower (trim_space p) = ''anthropic'' then ''anthropic'' else ''openai'')"

definition ai_configured :: "cls_settings \<Rightarrow> bool" where
  [model]: "ai_configured s \<longleftrightarrow>
     (if \<not> cs_ai_enabled s \<or> trim_space (cs_model s) = [] then False
      else if normalize_provider (cs_provider s) = ''anthropic'' then True
      else trim_space (cs_endpoint s) \<noteq> [])"

definition valid_categories :: "string list" where
  [model]: "valid_categories = ''other'' # block_categories @ content_categories"

definition is_content_category :: "string \<Rightarrow> bool" where
  [model]: "is_content_category c \<longleftrightarrow> c \<in> set valid_categories \<and> c \<notin> set block_categories"

text \<open>\<open>parseVerdict\<close>: \<open>decode\<close> is \<open>json.Unmarshal\<close> into a verdict.\<close>

definition parse_verdict :: "(string \<Rightarrow> model_verdict option) \<Rightarrow> string \<Rightarrow> model_verdict option" where
  [model]: "parse_verdict decode content =
     (case (index_byte CHR ''{'' content, last_index_byte CHR ''}'' content) of
        (Some a, Some b) \<Rightarrow>
          if b \<le> a then None
          else (case decode (take (b + 1 - a) (drop a content)) of
                  None \<Rightarrow> None
                | Some v \<Rightarrow>
                    (let cat = to_lower (trim_space (mv_category v)) in
                     Some (v\<lparr>mv_category := (if cat \<in> set valid_categories then cat else ''other'')\<rparr>)))
      | _ \<Rightarrow> None)"

subsection \<open>Signals\<close>

datatype question_to = Ask_Whois | Ask_Zone | Ask_Reputation | Ask_Model

text \<open>
  What would be answered for the domain: registration data, whether its zone resolves, the
  counts of VirusTotal, the address to check at AbuseIPDB (empty: none) and its score and
  reports, the zone of OpenTIP, the model's verdict; whether the category database knows the
  domain and has loaded (no database: not known, loaded); the lists and the forwarders.
\<close>

record signals =
  sg_whois :: "whois_info option"
  sg_zone :: bool
  sg_vt :: "(int \<times> int \<times> int) option"
  sg_ip :: string
  sg_abuse :: "(int \<times> int) option"
  sg_opentip :: "string option"
  sg_verdict :: "model_verdict option"
  sg_known :: bool
  sg_cat_ready :: bool
  sg_load :: "domain_source \<Rightarrow> string list option"
  sg_forwarders :: "string list option"

text \<open>\<open>RepCache.Lookup\<close>. The key of the cache spells the domain and the three switches.\<close>

type_synonym rep_cache = "((string \<times> bool \<times> bool \<times> bool) \<times> reputation \<times> time) list"

definition rep_fetch :: "cls_settings \<Rightarrow> signals \<Rightarrow> reputation" where
  [model]: "rep_fetch s g =
     (let r = no_reputation;
          r = (if cs_vt_enabled s \<and> cs_vt_api_key s \<noteq> []
               then (case sg_vt g of None \<Rightarrow> r
                     | Some (mal, susp, harm) \<Rightarrow> r\<lparr>re_vt_checked := True, re_vt_malicious := mal,
                         re_vt_suspicious := susp, re_vt_harmless := harm\<rparr>) else r);
          r = (if cs_abuse_enabled s \<and> cs_abuse_api_key s \<noteq> [] \<and> sg_ip g \<noteq> []
               then (case sg_abuse g of None \<Rightarrow> r
                     | Some (n, reports) \<Rightarrow> r\<lparr>re_abuse_checked := True, re_abuse_score := n,
                         re_abuse_reports := reports, re_abuse_ip := sg_ip g\<rparr>) else r);
          r = (if cs_opentip_enabled s \<and> cs_opentip_api_key s \<noteq> []
               then (case sg_opentip g of None \<Rightarrow> r
                     | Some z \<Rightarrow> r\<lparr>re_kaspersky_checked := True, re_kaspersky_zone := z\<rparr>) else r) in r)"

text \<open>The result: the reputation, whether a service was asked, and the cache after it.\<close>

definition rep_lookup ::
    "suffix_lib \<Rightarrow> cls_settings \<Rightarrow> time \<Rightarrow> signals \<Rightarrow> string \<Rightarrow> rep_cache \<Rightarrow> reputation \<times> bool \<times> rep_cache" where
  [model]: "rep_lookup P s now g domain c =
     (let domain = registered_domain P domain in
      if domain = [] then (no_reputation, False, c)
      else if \<not> cs_vt_enabled s \<and> \<not> cs_abuse_enabled s \<and> \<not> cs_opentip_enabled s then (no_reputation, False, c)
      else (let key = (domain, cs_vt_enabled s, cs_abuse_enabled s, cs_opentip_enabled s);
                hit = (case map_of c key of None \<Rightarrow> None | Some (r, expires) \<Rightarrow> if now < expires then Some r else None) in
        case hit of
          Some r \<Rightarrow> (r, False, c)
        | None \<Rightarrow>
            (let r = rep_fetch s g;
                 ttl = (if rep_any r then 24 * 60 * minute else 30 * minute);
                 c = (if 20000 < length c then [] else c) in
             (r, True, AList.update key (r, now + ttl) c))))"

subsection \<open>Nameserver ownership\<close>

text \<open>The loop over the nameservers: the one owner so far, empty at first.\<close>

fun ns_owner :: "suffix_lib \<Rightarrow> string \<Rightarrow> string list \<Rightarrow> string option" where
  "ns_owner P owner [] = Some owner"
| "ns_owner P owner (ns # nss) =
     (let reg = registered_domain P ns in
      if reg = [] \<or> shared_dns_host reg \<or> owner \<noteq> [] \<and> reg \<noteq> owner then None else ns_owner P reg nss)"

definition trusted_nameservers ::
    "suffix_lib \<Rightarrow> cls_settings \<Rightarrow> trusted_set option \<Rightarrow> bool \<Rightarrow> whois_info \<Rightarrow> string \<times> bool" where
  [model]: "trusted_nameservers P s trusted zone_resolves whois =
     (if cs_ns_check_disabled s \<or> wi_source whois \<noteq> ''rdap'' \<or> wi_nameservers whois = [] then ([], False)
      else case ns_owner P [] (wi_nameservers whois) of
          None \<Rightarrow> ([], False)
        | Some owner \<Rightarrow>
            if \<not> set_has P trusted owner then ([], False)
            else (if zone_resolves then owner else [], True))"

subsection \<open>The worker\<close>

record worker =
  wo_db :: config_db
  wo_trusted :: set_holder
  wo_threat :: set_holder
  wo_rep :: rep_cache
  wo_fwd :: forwarder_cache
  wo_recent :: "(string \<times> time) list"
  wo_queue :: "string list"
  wo_asked :: "(question_to \<times> string) list"
  wo_reloads :: nat

definition new_worker :: "config_db \<Rightarrow> worker" where
  [model]: "new_worker db = \<lparr>wo_db = db, wo_trusted = new_set_holder False, wo_threat = new_set_holder True, wo_rep = [],
     wo_fwd = \<lparr>fc_suffixes = [], fc_at = 0\<rparr>, wo_recent = [], wo_queue = [], wo_asked = [], wo_reloads = 0\<rparr>"

definition ask :: "question_to \<Rightarrow> string \<Rightarrow> worker \<Rightarrow> worker" where
  "ask q domain w = w\<lparr>wo_asked := wo_asked w @ [(q, domain)]\<rparr>"

definition worker_excluded :: "cls_settings \<Rightarrow> time \<Rightarrow> signals \<Rightarrow> string \<Rightarrow> worker \<Rightarrow> bool \<times> worker" where
  [model]: "worker_excluded s now g name w =
     (case excluded (cs_exclude_domains s) now (sg_forwarders g) name (wo_fwd w) of (b, c) \<Rightarrow> (b, w\<lparr>wo_fwd := c\<rparr>))"

definition queue_capacity :: nat where [model]: "queue_capacity = 2048"

definition prune_recent :: "time \<Rightarrow> (string \<times> time) list \<Rightarrow> (string \<times> time) list" where
  [model]: "prune_recent now m = filter (\<lambda>(_, t). \<not> t < now - 60 * minute) m"

definition enqueue :: "suffix_lib \<Rightarrow> cls_settings \<Rightarrow> time \<Rightarrow> signals \<Rightarrow> string \<Rightarrow> worker \<Rightarrow> worker" where
  [model]: "enqueue P s now g name w =
     (if \<not> cs_on s \<or> parse_mode (cs_mode s) = Mode_Off then w
      else (let domain = registered_domain P name in
        if domain = [] \<or> is_reserved_name P domain then w
        else case worker_excluded s now g name w of
            (True, w) \<Rightarrow> w
          | (False, w) \<Rightarrow>
              if (case map_of (wo_recent w) domain of Some t \<Rightarrow> now - t < 60 * minute | None \<Rightarrow> False) then w
              else (let m = AList.update domain now (wo_recent w);
                        m = (if 50000 < length m then prune_recent now m else m);
                        w = w\<lparr>wo_recent := m\<rparr> in
                    if length (wo_queue w) < queue_capacity then w\<lparr>wo_queue := wo_queue w @ [domain]\<rparr> else w)))"

subsection \<open>Checking old verdicts against a reloaded threat set\<close>

abbreviation em_dash :: string where "em_dash \<equiv> [CHR 0xE2, CHR 0x80, CHR 0x94]"

definition threat_reason :: "nat \<Rightarrow> string" where
  [model]: "threat_reason hits =
     (if 2 \<le> hits then ''re-flagged: now listed on '' @ format_nat hits @ '' threat-intel feeds''
      else ''re-flagged: now listed on 1 threat-intel feed '' @ em_dash @ '' review (possible misreport)'')"

definition threat_status :: "cls_mode \<Rightarrow> nat \<Rightarrow> string" where
  [model]: "threat_status m hits = (if 2 \<le> hits \<and> m = Mode_Auto then class_auto else class_suggested)"

text \<open>One clean domain: the tables, and whether a domain has been blocked at once so far.\<close>

definition rescan_domain :: "time \<Rightarrow> cls_mode \<Rightarrow> (string \<Rightarrow> nat) \<Rightarrow> config_db \<times> bool \<Rightarrow> string \<Rightarrow> config_db \<times> bool" where
  [model]: "rescan_domain now m hits st d =
     (let (db, auto) = st; h = hits d in
      if h = 0 then (db, auto)
      else (let status = threat_status m h; (ok, db) = flag_threat (now div millisecond) d status (threat_reason h) db in
            (db, auto \<or> ok \<and> status = class_auto)))"

definition rescan_threat :: "suffix_lib \<Rightarrow> cls_settings \<Rightarrow> time \<Rightarrow> worker \<Rightarrow> worker" where
  [model]: "rescan_threat P s now w =
     (let m = parse_mode (cs_mode s) in
      if \<not> cs_on s \<or> m = Mode_Off then w
      else (let (db, auto) = foldl (rescan_domain now m (set_hits P (sh_set (wo_threat w)))) (wo_db w, False)
                  (clean_domains (wo_db w)) in
            w\<lparr>wo_db := db, wo_reloads := (if auto then Suc (wo_reloads w) else wo_reloads w)\<rparr>))"

definition load_lists :: "suffix_lib \<Rightarrow> cls_settings \<Rightarrow> time \<Rightarrow> signals \<Rightarrow> worker \<Rightarrow> worker" where
  [model]: "load_lists P s now g w =
     (let (_, tr) = ensure_sync (sg_load g) (trusted_sources s) (wo_trusted w);
          (fired, th) = ensure_sync (sg_load g) (threat_sources s) (wo_threat w);
          w = w\<lparr>wo_trusted := tr, wo_threat := th\<rparr> in
      if fired then rescan_threat P s now w else w)"

text \<open>One tick of \<open>refreshThreatLoop\<close>.\<close>

definition refresh_tick :: "suffix_lib \<Rightarrow> cls_settings \<Rightarrow> time \<Rightarrow> signals \<Rightarrow> worker \<Rightarrow> worker" where
  [model]: "refresh_tick P s now g w =
     (if \<not> cs_on s
      then w\<lparr>wo_trusted := snd (ensure_sync (sg_load g) [] (wo_trusted w)),
             wo_threat := snd (ensure_sync (sg_load g) [] (wo_threat w))\<rparr>
      else if parse_mode (cs_mode s) = Mode_Off then w
      else (let (fired, th) = refresh_set (sg_load g) (threat_sources s) (wo_threat w); w = w\<lparr>wo_threat := th\<rparr> in
            if fired then rescan_threat P s now w else w))"

subsection \<open>Content categories\<close>

definition content_of :: "model_verdict \<Rightarrow> string" where
  [model]: "content_of v =
     (if is_content_category (mv_category v) \<and> mv_category v \<noteq> cat_other then mv_category v else [])"

definition categorize :: "cls_settings \<Rightarrow> signals \<Rightarrow> string \<Rightarrow> worker \<Rightarrow> worker" where
  [model]: "categorize s g domain w =
     (if sg_known g then w\<lparr>wo_db := set_content_category domain [] (wo_db w)\<rparr>
      else if \<not> ai_configured s \<or> \<not> sg_cat_ready g then w
      else (let w = ask Ask_Model domain w in
        case sg_verdict g of
          None \<Rightarrow> w
        | Some v \<Rightarrow> w\<lparr>wo_db := set_content_category domain (content_of v) (wo_db w)\<rparr>))"

text \<open>The backfill: \<open>gs d\<close> are the signals of the domain \<open>d\<close>.\<close>

fun backfill_loop :: "cls_settings \<Rightarrow> time \<Rightarrow> (string \<Rightarrow> signals) \<Rightarrow> string list \<Rightarrow> worker \<Rightarrow> worker" where
  "backfill_loop s now gs [] w = w"
| "backfill_loop s now gs (d # ds) w =
     (let (skip, w) = (if sg_known (gs d) then (True, w) else worker_excluded s now (gs d) d w) in
      if skip then backfill_loop s now gs ds (w\<lparr>wo_db := set_content_category d [] (wo_db w)\<rparr>)
      else categorize s (gs d) d w)"

definition backfill_content :: "cls_settings \<Rightarrow> time \<Rightarrow> (string \<Rightarrow> signals) \<Rightarrow> bool \<Rightarrow> worker \<Rightarrow> worker" where
  [model]: "backfill_content s now gs cat_ready w =
     (if \<not> cs_on s \<or> \<not> ai_configured s \<or> \<not> cat_ready then w
      else backfill_loop s now gs (unchecked_content 50 (wo_db w)) w)"

subsection \<open>Verdicts\<close>

definition format_legitimacy :: "int \<Rightarrow> string" where
  [model]: "format_legitimacy n = ''legitimacy '' @ format_int n @ ''%''"

text \<open>The \<open>Detail\<close> of the factor of a trusted domain.\<close>

definition trusted_detail :: "bool \<Rightarrow> string" where
  [model]: "trusted_detail list_trusted =
     (if list_trusted then ''on the trusted top-domains list '' @ em_dash @ '' cannot be malicious''
      else ''CDN / cloud-edge infrastructure '' @ em_dash @ '' trusted (a verdict would apply to the whole provider)'')"

definition record_trusted :: "time \<Rightarrow> string \<Rightarrow> bool \<Rightarrow> worker \<Rightarrow> worker" where
  [model]: "record_trusted now domain list_trusted w =
     w\<lparr>wo_db := snd (insert_classification (now div millisecond)
         \<lparr>v_domain = domain, v_category = ''other'', v_block = False, v_status = class_clean, v_trusted = True,
          v_threat = False, v_reason = format_legitimacy 100 @ ''. '' @ trusted_detail list_trusted, v_note = [],
          v_score = 100, v_model = ''static analysis'', v_content = [], v_content_checked = False, v_updated_at = 0\<rparr>
         (wo_db w))\<rparr>"

text \<open>
  The end of \<open>process\<close>: from the score input to the verdict. \<open>answer\<close> is the model's verdict,
  \<open>None\<close> when the model was not asked; \<open>known\<close> says that the category database has the domain.
\<close>

definition judge ::
    "(string \<Rightarrow> time option) \<Rightarrow> time \<Rightarrow> cls_settings \<Rightarrow> score_input \<Rightarrow> model_verdict option \<Rightarrow> bool \<Rightarrow> verdict_row" where
  [model]: "judge parse_date now s i answer known =
     (let v = si_verdict i;
          legit = sc_legitimacy (compute_score parse_date now i);
          threat = si_threat i;
          candidate = should_block v \<or> threat \<or> rep_malicious (si_rep i);
          block = (candidate \<and> legit < block_threshold);
          category = (if (threat \<or> rep_malicious (si_rep i)) \<and> \<not> should_block v then ''malware'' else mv_category v);
          category = (if \<not> block \<or> category = [] then ''other'' else category);
          status = (if block
                    then (if parse_mode (cs_mode s) = Mode_Auto \<and> legit < auto_threshold then class_auto else class_suggested)
                    else class_clean);
          reason = trim_space (format_legitimacy legit @ ''. '' @ trim_space (mv_reason v));
          model = (if answer = None \<or> cs_model s = [] then ''static analysis'' else cs_model s);
          content = (case answer of None \<Rightarrow> [] | Some a \<Rightarrow> content_of a) in
      \<lparr>v_domain = si_domain i, v_category = category, v_block = block, v_status = status, v_trusted = False,
       v_threat = threat, v_reason = reason, v_note = [], v_score = legit, v_model = model,
       v_content = content, v_content_checked = (answer \<noteq> None \<or> known), v_updated_at = 0\<rparr>)"

definition store_verdict :: "time \<Rightarrow> verdict_row \<Rightarrow> worker \<Rightarrow> worker" where
  [model]: "store_verdict now c w =
     (let (inserted, db) = insert_classification (now div millisecond) c (wo_db w) in
      w\<lparr>wo_db := db, wo_reloads := (if inserted \<and> v_status c = class_auto then Suc (wo_reloads w) else wo_reloads w)\<rparr>)"

text \<open>From the trust shortcuts on: WHOIS, nameservers, threat feeds, reputation and the model.\<close>

definition classify ::
    "suffix_lib \<Rightarrow> (string \<Rightarrow> time option) \<Rightarrow> cls_settings \<Rightarrow> time \<Rightarrow> signals \<Rightarrow> string \<Rightarrow> worker \<Rightarrow> worker" where
  [model]: "classify P parse_date s now g domain w =
     (let platform = hosting_platform P domain;
          look = (cs_whois_enabled s \<and> platform = []);
          w = (if look then ask Ask_Whois domain w else w);
          whois = (if look then (case sg_whois g of Some i \<Rightarrow> i | None \<Rightarrow> no_whois) else no_whois);
          (ns, zone_asked) = trusted_nameservers P s (sh_set (wo_trusted w)) (sg_zone g) whois;
          w = (if zone_asked then ask Ask_Zone domain w else w);
          hits = set_hits P (sh_set (wo_threat w)) domain;
          threat = (0 < hits);
          (rep, asked, cache) = (if 2 \<le> hits then (no_reputation, False, wo_rep w)
                                 else rep_lookup P s now g domain (wo_rep w));
          w = w\<lparr>wo_rep := cache\<rparr>;
          w = (if asked then ask Ask_Reputation domain w else w);
          strong = (2 \<le> hits \<or> rep_malicious rep);
          input = \<lparr>si_domain = domain, si_platform = platform, si_list_trusted = False, si_cdn = False,
            si_ns_trusted_on = ns, si_threat = threat, si_threat_hits = int hits, si_whois = whois,
            si_rep = rep, si_verdict = no_verdict\<rparr> in
      if ai_configured s \<and> \<not> strong
      then (let w = ask Ask_Model domain w in
        case sg_verdict g of
          None \<Rightarrow> w
        | Some v \<Rightarrow> store_verdict now (judge parse_date now s (input\<lparr>si_verdict := v\<rparr>) (Some v) (sg_known g)) w)
      else store_verdict now (judge parse_date now s input None (sg_known g)) w)"

definition process ::
    "suffix_lib \<Rightarrow> (string \<Rightarrow> time option) \<Rightarrow> cls_settings \<Rightarrow> time \<Rightarrow> signals \<Rightarrow> string \<Rightarrow> worker \<Rightarrow> worker" where
  [model]: "process P parse_date s now g domain w =
     (if \<not> cs_on s \<or> parse_mode (cs_mode s) = Mode_Off then w
      else case worker_excluded s now g domain w of
        (True, w) \<Rightarrow> w
      | (False, w) \<Rightarrow>
          (let w = load_lists P s now g w in
           if is_classified domain (wo_db w) then w
           else (let listed = set_has P (sh_set (wo_trusted w)) domain in
             if listed \<or> cdn_infrastructure P domain
             then categorize s g domain (record_trusted now domain listed w)
             else classify P parse_date s now g domain w)))"

subsection \<open>Verdicts of retired shortcuts\<close>

definition legacy_trust_to_rescore :: "suffix_lib \<Rightarrow> string \<Rightarrow> string \<Rightarrow> bool" where
  [model]: "legacy_trust_to_rescore P domain reason \<longleftrightarrow>
     contains_sub reason ''authoritative nameservers on trusted infrastructure''
     \<or> contains_sub reason ''CDN / cloud-edge infrastructure'' \<and> \<not> cdn_infrastructure P domain"

definition rescore_key :: string where [model]: "rescore_key = ''classifier.rescore_trusted_v1''"

definition drop_legacy :: "suffix_lib \<Rightarrow> config_db \<times> string list \<Rightarrow> string \<times> string \<Rightarrow> config_db \<times> string list" where
  [model]: "drop_legacy P st v =
     (let (db, queued) = st in
      if \<not> legacy_trust_to_rescore P (fst v) (snd v) then (db, queued)
      else (let (removed, db) = delete_trusted_clean_verdict (fst v) db in
            (db, if removed then queued @ [fst v] else queued)))"

text \<open>Queueing waits for room, so every domain gets into the queue.\<close>

definition rescore_legacy_trusted :: "suffix_lib \<Rightarrow> cls_settings \<Rightarrow> worker \<Rightarrow> worker" where
  [model]: "rescore_legacy_trusted P s w =
     (if \<not> cs_on s \<or> parse_mode (cs_mode s) = Mode_Off \<or> get_meta rescore_key (wo_db w) \<noteq> [] then w
      else (let (db, queued) = foldl (drop_legacy P) (wo_db w, []) (trusted_clean_verdicts (wo_db w));
                db = set_meta rescore_key ''done'' db in
            w\<lparr>wo_db := db, wo_recent := filter (\<lambda>(d, _). d \<notin> set queued) (wo_recent w),
              wo_queue := wo_queue w @ queued\<rparr>))"

end
