(* ===== verification/Legitimacy_Facts.thy ===== *)
theory Legitimacy_Facts
  imports Legitimacy
begin

section \<open>What the legitimacy score promises\<close>

text \<open>
  Each step of the score is known by what it adds to an empty tally, so the score is a function
  of the points and the trust of the steps (\<open>settle\<close>), which is monotone. From that: the score
  is the sum of its breakdown, a corroborated threat is decisive, soft signals are not, plain
  WHOIS and more feeds never raise a score. The entropy test is decided in whole numbers.
\<close>

subsection \<open>The steps add up\<close>

text \<open>
  Every step up to the cap only appends factors and adds to the score and to the trust: what it
  adds does not depend on the tally. So a step is known by what it does to an empty tally.
\<close>

definition empty_tally :: tally where
  "empty_tally = \<lparr>ta_legit = 0, ta_factors = [], ta_trust = 0\<rparr>"

definition accrues :: "(tally \<Rightarrow> tally) \<Rightarrow> bool" where
  "accrues f \<longleftrightarrow> (\<forall>t. f t = \<lparr>ta_legit = ta_legit t + ta_legit (f empty_tally),
     ta_factors = ta_factors t @ ta_factors (f empty_tally), ta_trust = ta_trust t + ta_trust (f empty_tally)\<rparr>)"

named_theorems accrual_steps

text \<open>What a step gains: its points, and how many of them are trust.\<close>

definition gain :: "(tally \<Rightarrow> tally) \<Rightarrow> int" where "gain f = ta_legit (f empty_tally)"

definition trust_gain :: "(tally \<Rightarrow> tally) \<Rightarrow> int" where "trust_gain f = ta_trust (f empty_tally)"

lemma accruesD:
  assumes "accrues f"
  shows "ta_legit (f t) = ta_legit t + gain f" and "ta_trust (f t) = ta_trust t + trust_gain f"
  using assms [unfolded accrues_def, rule_format, of t] by (simp_all add: gain_def trust_gain_def)

lemma accrues_id [accrual_steps]: "accrues (\<lambda>t. t)"
  by (simp add: accrues_def empty_tally_def)

lemma accrues_factor [accrual_steps]: "accrues (add_factor l d)" "accrues (note_factor l)" "accrues (vouch l d)"
  by (simp_all add: accrues_def add_factor_def note_factor_def vouch_def empty_tally_def Let_def)

lemma accrues_vouch_whois [accrual_steps]: "accrues (vouch_whois i l d)"
  by (simp add: accrues_def vouch_whois_def add_factor_def note_factor_def vouch_def empty_tally_def Let_def)

lemma accrues_comp:
  assumes "accrues f" "accrues g"
  shows "accrues (\<lambda>t. g (f t))"
  unfolding accrues_def
proof
  fix t
  show "g (f t) = \<lparr>ta_legit = ta_legit t + ta_legit (g (f empty_tally)),
     ta_factors = ta_factors t @ ta_factors (g (f empty_tally)), ta_trust = ta_trust t + ta_trust (g (f empty_tally))\<rparr>"
    using assms(1) [unfolded accrues_def, rule_format, of t] assms(2) [unfolded accrues_def, rule_format, of "f t"]
      assms(2) [unfolded accrues_def, rule_format, of "f empty_tally"]
    by simp
qed

lemma accrues_foldl: "(\<And>x. accrues (\<lambda>t. h t x)) \<Longrightarrow> accrues (\<lambda>t. foldl h t xs)"
proof (induction xs)
  case (Cons x xs)
  then have "accrues (\<lambda>t. foldl h (h t x) xs)"
    using accrues_comp [of "\<lambda>t. h t x" "\<lambda>t. foldl h t xs"] by blast
  then show ?case by simp
qed (simp add: accrues_id)

lemma accrues_if [accrual_steps]:
  "accrues f \<Longrightarrow> accrues g \<Longrightarrow> accrues (\<lambda>t. if b then f t else g t)"
  by (cases b) simp_all

lemma accrues_threat: "accrues (threat_step i)"
  and accrues_age: "accrues (age_step i)"
  and accrues_nameserver: "accrues (nameserver_step i)"
  and accrues_tld: "accrues (tld_step i)"
  and accrues_virustotal: "accrues (virustotal_step i)"
  and accrues_abuse: "accrues (abuse_step i)"
  and accrues_kaspersky: "accrues (kaspersky_step i)"
  and accrues_model: "accrues (model_step i)"
  unfolding threat_step_def age_step_def nameserver_step_def tld_step_def virustotal_step_def abuse_step_def
    kaspersky_step_def model_step_def Let_def
  by (intro accrual_steps)+

lemma accrues_registration: "accrues (registration_step parse_date now i)"
  unfolding registration_step_def by (intro accrues_foldl accrual_steps)

lemma accrues_lexical: "accrues (lexical_step i)"
  unfolding lexical_step_def by (intro accrues_foldl accrual_steps)

lemmas step_adds = accrues_threat accrues_age accrues_nameserver accrues_registration accrues_tld
  accrues_lexical accrues_virustotal accrues_abuse accrues_kaspersky accrues_model

lemma evidence_gain:
  "ta_legit (evidence pd now i t) = ta_legit t + gain (threat_step i) + gain (age_step i) + gain (nameserver_step i)
     + gain (registration_step pd now i) + gain (tld_step i) + gain (lexical_step i) + gain (virustotal_step i)
     + gain (abuse_step i) + gain (kaspersky_step i) + gain (model_step i)"
  "ta_trust (evidence pd now i t) = ta_trust t + trust_gain (threat_step i) + trust_gain (age_step i)
     + trust_gain (nameserver_step i) + trust_gain (registration_step pd now i) + trust_gain (tld_step i)
     + trust_gain (lexical_step i) + trust_gain (virustotal_step i) + trust_gain (abuse_step i)
     + trust_gain (kaspersky_step i) + trust_gain (model_step i)"
  by (simp_all add: evidence_def Let_def step_adds [THEN accruesD(1)] step_adds [THEN accruesD(2)])

text \<open>No step gives points that are not trust; the threat step takes at least 70 for two feeds.\<close>

lemmas tally_defs = add_factor_def note_factor_def vouch_def vouch_whois_def empty_tally_def Let_def

lemma round_away_nonneg: "0 \<le> x \<Longrightarrow> 0 \<le> round_away x"
  by (simp add: round_away_def)

named_theorems gains

lemma gain_threat [gains]:
  "gain (threat_step i) \<le> 0" "trust_gain (threat_step i) = 0"
  "2 \<le> threat_hits i \<Longrightarrow> gain (threat_step i) \<le> -70"
  by (simp_all add: gain_def trust_gain_def threat_step_def tally_defs)

lemma gain_age [gains]: "gain (age_step i) \<le> trust_gain (age_step i)" "0 \<le> trust_gain (age_step i)"
  by (simp_all add: gain_def trust_gain_def age_step_def tally_defs)

lemma gain_nameserver [gains]:
  "gain (nameserver_step i) = trust_gain (nameserver_step i)" "0 \<le> trust_gain (nameserver_step i)"
  by (simp_all add: gain_def trust_gain_def nameserver_step_def tally_defs)

lemma gain_tld [gains]: "gain (tld_step i) \<le> 0" "trust_gain (tld_step i) = 0"
  by (simp_all add: gain_def trust_gain_def tld_step_def tally_defs)

lemma gain_virustotal [gains]:
  "gain (virustotal_step i) \<le> trust_gain (virustotal_step i)" "0 \<le> trust_gain (virustotal_step i)"
  by (simp_all add: gain_def trust_gain_def virustotal_step_def tally_defs)

lemma gain_abuse [gains]: "gain (abuse_step i) \<le> trust_gain (abuse_step i)" "0 \<le> trust_gain (abuse_step i)"
  by (simp_all add: gain_def trust_gain_def abuse_step_def tally_defs)

lemma gain_kaspersky [gains]:
  "gain (kaspersky_step i) \<le> trust_gain (kaspersky_step i)" "0 \<le> trust_gain (kaspersky_step i)"
  by (simp_all add: gain_def trust_gain_def kaspersky_step_def tally_defs)

lemma gain_model [gains]: "gain (model_step i) \<le> 0" "trust_gain (model_step i) = 0"
  by (simp_all add: gain_def trust_gain_def model_step_def tally_defs round_away_nonneg)

text \<open>The steps over lists of factors.\<close>

lemma lexical_fold:
  "ta_legit (foldl (\<lambda>t f. add_factor (fa_label f) (fa_delta f) t) t fs) = ta_legit t + sum_list (map fa_delta fs)"
  "ta_trust (foldl (\<lambda>t f. add_factor (fa_label f) (fa_delta f) t) t fs) = ta_trust t"
  by (induction fs arbitrary: t) (simp_all add: add_factor_def)

lemma brand_scan_delta: "brand_scan l n ts bs = Some f \<Longrightarrow> fa_delta f < 0"
  by (induction bs) (auto split: if_splits)

lemma brand_delta: "f \<in> set (case brand_impersonation_factor l of None \<Rightarrow> [] | Some f \<Rightarrow> [f]) \<Longrightarrow> fa_delta f < 0"
  by (cases "brand_impersonation_factor l")
    (auto simp: brand_impersonation_factor_def dest: brand_scan_delta split: if_splits)

lemma lexical_deltas: "f \<in> set (lexical_factors d) \<Longrightarrow> fa_delta f < 0"
  unfolding lexical_factors_def Let_def set_append Un_iff
  by (elim disjE) (erule brand_delta | simp split: if_splits)+

lemma gain_lexical [gains]: "gain (lexical_step i) \<le> 0" "trust_gain (lexical_step i) = 0"
proof -
  have "sum_list (map fa_delta (lexical_factors (si_domain i))) \<le> 0"
    using lexical_deltas [of _ "si_domain i"] by (intro sum_list_nonpos) fastforce
  then show "gain (lexical_step i) \<le> 0" "trust_gain (lexical_step i) = 0"
    by (simp_all add: gain_def trust_gain_def lexical_step_def lexical_fold empty_tally_def)
qed

definition positive_sum :: "factor list \<Rightarrow> int" where
  "positive_sum fs = sum_list (map fa_delta (filter (\<lambda>f. 0 < fa_delta f) fs))"

lemma registration_fold:
  defines "h \<equiv> \<lambda>i t f. if 0 < fa_delta f then vouch_whois i (fa_label f) (fa_delta f) t
      else add_factor (fa_label f) (fa_delta f) t"
  shows "ta_legit (foldl (h i) t fs) = ta_legit t + sum_list (map fa_delta fs) - (if plain_whois i then positive_sum fs else 0)"
    and "ta_trust (foldl (h i) t fs) = ta_trust t + (if plain_whois i then 0 else positive_sum fs)"
  by (induction fs arbitrary: t)
    (simp_all add: h_def positive_sum_def add_factor_def note_factor_def vouch_def vouch_whois_def Let_def)

lemma positive_sum: "0 \<le> positive_sum fs" "sum_list (map fa_delta fs) \<le> positive_sum fs"
  by (induction fs) (auto simp: positive_sum_def)

lemma gain_registration [gains]:
  "gain (registration_step pd now i) \<le> trust_gain (registration_step pd now i)"
  "0 \<le> trust_gain (registration_step pd now i)"
  using positive_sum [of "registration_factors pd (si_whois i) now"]
  by (simp_all add: gain_def trust_gain_def registration_step_def registration_fold empty_tally_def)

subsection \<open>The result\<close>

text \<open>Cap, floors and clamping, as a function of the points and the trust the evidence gave.\<close>

definition capped :: "bool \<Rightarrow> int \<Rightarrow> int \<Rightarrow> int" where
  "capped strong pts tr = pts - max 0 (tr - (if strong then 10 else 40))"

definition floor_at :: "int \<Rightarrow> bool \<Rightarrow> int \<Rightarrow> int" where
  "floor_at n b l = (if b then max n l else l)"

definition settle :: "int \<Rightarrow> int \<Rightarrow> bool \<Rightarrow> bool \<Rightarrow> bool \<Rightarrow> int" where
  "settle pts tr strong est clean =
     max 0 (min 100 (floor_at 65 (clean \<and> \<not> strong) (floor_at 55 (est \<and> \<not> strong) (capped strong pts tr))))"

lemmas settle_defs = settle_def capped_def floor_at_def

lemma floor_at_mono: "l' \<le> l \<Longrightarrow> (b' \<Longrightarrow> b) \<Longrightarrow> floor_at n b' l' \<le> floor_at n b l"
  by (auto simp: floor_at_def)

lemma settle_mono:
  assumes "pts' \<le> pts" and "strong \<Longrightarrow> strong'" and "est' \<Longrightarrow> est" and "clean' \<Longrightarrow> clean"
  shows "settle pts' tr strong' est' clean' \<le> settle pts tr strong est clean"
proof -
  have "capped strong' pts' tr \<le> capped strong pts tr"
    using assms(1,2) by (auto simp: capped_def)
  then have "floor_at 55 (est' \<and> \<not> strong') (capped strong' pts' tr) \<le> floor_at 55 (est \<and> \<not> strong) (capped strong pts tr)"
    using assms(2,3) by (auto intro!: floor_at_mono [of "capped strong' pts' tr"])
  then have "floor_at 65 (clean' \<and> \<not> strong') (floor_at 55 (est' \<and> \<not> strong') (capped strong' pts' tr))
      \<le> floor_at 65 (clean \<and> \<not> strong) (floor_at 55 (est \<and> \<not> strong) (capped strong pts tr))"
    using assms(2,4) by (auto intro!: floor_at_mono [of "floor_at 55 (est' \<and> \<not> strong') (capped strong' pts' tr)"])
  then show ?thesis unfolding settle_def by (intro max.mono min.mono order_refl)
qed

lemmas thresholds = base_legitimacy_def trust_cap_def strong_trust_cap_def established_floor_def
  reputation_floor_def established_days_def block_threshold_def auto_threshold_def

definition established :: "score_input \<Rightarrow> bool" where
  "established i \<longleftrightarrow> 730 \<le> wi_age_days (si_whois i) \<and> \<not> plain_whois i"

lemma cap_legit: "ta_legit (cap_step i t) = capped (strong_threat i) (ta_legit t) (ta_trust t)"
  by (simp add: cap_step_def add_factor_def capped_def thresholds)

lemma floor_legit:
  "ta_legit (established_step i t) = floor_at 55 (established i \<and> \<not> strong_threat i) (ta_legit t)"
  "ta_legit (reputation_step i t) = floor_at 65 (rep_clean (si_rep i) \<and> \<not> strong_threat i) (ta_legit t)"
  by (simp_all add: established_step_def reputation_step_def add_factor_def established_def thresholds floor_at_def)

lemma clamp: "(if l < 0 then 0 else if 100 < l then 100 else l) = max 0 (min 100 l)" for l :: int
  by simp

lemma compute_score_settle:
  assumes "\<not> si_list_trusted i" "\<not> si_cdn i"
  shows "sc_legitimacy (compute_score pd now i) =
    settle (ta_legit (evidence pd now i start_tally)) (ta_trust (evidence pd now i start_tally))
      (strong_threat i) (established i) (rep_clean (si_rep i))"
  using assms by (simp add: compute_score_def settle_def Let_def cap_legit floor_legit clamp split del: if_split)

lemma start_tally: "ta_legit start_tally = 85" "ta_trust start_tally = 0"
  by (simp_all add: start_tally_def note_factor_def base_legitimacy_def)

lemma evidence_bound:
  "ta_legit (evidence pd now i start_tally) \<le> 85 + gain (threat_step i) + ta_trust (evidence pd now i start_tally)"
  "0 \<le> ta_trust (evidence pd now i start_tally)"
  using gain_age [of i] gain_nameserver [of i] gain_registration [of pd now i] gain_tld [of i] gain_lexical [of i]
    gain_virustotal [of i] gain_abuse [of i] gain_kaspersky [of i] gain_model [of i] gain_threat(2) [of i]
  unfolding evidence_gain start_tally by linarith+

definition balance :: "tally \<Rightarrow> int" where
  "balance t = ta_legit t - sum_list (map fa_delta (ta_factors t))"

lemma balance_factor:
  "balance (add_factor l d t) = balance t" "balance (note_factor l t) = balance t"
  "balance (vouch l d t) = balance t" "balance (vouch_whois i l d t) = balance t"
  by (simp_all add: balance_def add_factor_def note_factor_def vouch_def vouch_whois_def Let_def)

lemma balance_foldl: "(\<And>t x. balance (h t x) = balance t) \<Longrightarrow> balance (foldl h t xs) = balance t"
  by (induction xs arbitrary: t) simp_all

lemma balance_steps:
  "balance (threat_step i t) = balance t" "balance (age_step i t) = balance t" "balance (nameserver_step i t) = balance t"
  "balance (registration_step pd now i t) = balance t" "balance (tld_step i t) = balance t"
  "balance (lexical_step i t) = balance t" "balance (virustotal_step i t) = balance t"
  "balance (abuse_step i t) = balance t" "balance (kaspersky_step i t) = balance t" "balance (model_step i t) = balance t"
  "balance (cap_step i t) = balance t" "balance (established_step i t) = balance t" "balance (reputation_step i t) = balance t"
  unfolding threat_step_def age_step_def nameserver_step_def registration_step_def tld_step_def lexical_step_def
    virustotal_step_def abuse_step_def kaspersky_step_def model_step_def cap_step_def established_step_def
    reputation_step_def Let_def
  by (simp_all add: balance_factor balance_foldl)

text \<open>
  A score is the sum of what its breakdown shows. Unless the domain is trusted outright
  (then the score is 100), the legitimacy is 85 plus the deltas of the listed factors, brought
  into the range from 0 to 100.
\<close>

theorem score_is_the_breakdown:
  "sc_legitimacy (compute_score pd now i) =
     (if si_list_trusted i \<or> si_cdn i then 100
      else max 0 (min 100 (85 + sum_list (map fa_delta (sc_factors (compute_score pd now i))))))"
proof -
  let ?t = "reputation_step i (established_step i (cap_step i (evidence pd now i start_tally)))"
  have "balance ?t = 85"
    by (simp add: balance_steps evidence_def Let_def)
      (simp add: balance_def start_tally_def note_factor_def base_legitimacy_def)
  then have "ta_legit ?t = 85 + sum_list (map fa_delta (ta_factors ?t))" by (simp add: balance_def)
  then show ?thesis
    by (simp add: compute_score_def Let_def clamp)
qed

lemma corroborated_score:
  assumes "2 \<le> threat_hits i" and "\<not> si_list_trusted i" and "\<not> si_cdn i"
  shows "sc_legitimacy (compute_score pd now i) \<le> 25"
proof -
  have "strong_threat i" using assms(1) by (simp add: strong_threat_def)
  with evidence_bound [where i = i and pd = pd and now = now] gain_threat(3) [OF assms(1)] show ?thesis
    unfolding compute_score_settle [OF assms(2,3)] by (simp add: settle_defs)
qed

text \<open>
  A corroborated threat is decisive. A domain on two or more threat feeds scores at most 25,
  whatever the registration, the reputation services, the name or the model say, unless it is
  on the trusted list or is CDN infrastructure: below the threshold to block and below the one
  to block without review.
\<close>

theorem corroborated_threat_decides:
  assumes "2 \<le> threat_hits i" and "\<not> si_list_trusted i" and "\<not> si_cdn i"
  shows "sc_legitimacy (compute_score pd now i) \<le> 25 \<and> 25 < auto_threshold \<and> auto_threshold < block_threshold"
  using corroborated_score [OF assms, of pd now] by (simp add: thresholds)

text \<open>
  C24: soft signals never block an old or clean domain. Without a corroborated threat, a domain
  registered for two years (by a source that cannot be forged in transit) keeps at least 55
  points, one that VirusTotal reports clean at least 65: neither is below the threshold to
  block, whatever the name looks like and whatever the model says.
\<close>

theorem soft_signals_never_block:
  assumes "\<not> strong_threat i" and "established i \<or> rep_clean (si_rep i)"
  shows "block_threshold < sc_legitimacy (compute_score pd now i)
    \<and> (established i \<longrightarrow> 55 \<le> sc_legitimacy (compute_score pd now i))
    \<and> (rep_clean (si_rep i) \<longrightarrow> 65 \<le> sc_legitimacy (compute_score pd now i))"
proof (cases "si_list_trusted i \<or> si_cdn i")
  case True
  then show ?thesis by (simp add: compute_score_def thresholds)
next
  case False
  with assms show ?thesis
    by (auto simp: compute_score_settle settle_defs thresholds)
qed

text \<open>
  Port-43 WHOIS, which travels in plain text, can only lower a score: with such registration
  data a domain never scores more than with none at all.
\<close>

theorem plain_whois_never_raises:
  assumes "plain_whois i" and "pd [] = None"
  shows "sc_legitimacy (compute_score pd now i) \<le> sc_legitimacy (compute_score pd now (i\<lparr>si_whois := no_whois\<rparr>))"
proof (cases "si_list_trusted i \<or> si_cdn i")
  case False
  let ?j = "i\<lparr>si_whois := no_whois\<rparr>"
  have strong: "strong_threat ?j = strong_threat i" by (simp add: strong_threat_def threat_hits_def)
  have same: "threat_step ?j = threat_step i" "nameserver_step ?j = nameserver_step i" "tld_step ?j = tld_step i"
    "lexical_step ?j = lexical_step i" "virustotal_step ?j = virustotal_step i" "abuse_step ?j = abuse_step i"
    "kaspersky_step ?j = kaspersky_step i" "model_step ?j = model_step i"
    by (simp_all add: fun_eq_iff threat_step_def threat_hits_def nameserver_step_def tld_step_def lexical_step_def
        virustotal_step_def abuse_step_def kaspersky_step_def model_step_def)
  have "gain (age_step i) \<le> gain (age_step ?j)" "trust_gain (age_step i) = trust_gain (age_step ?j)"
    using assms(1) by (simp_all add: gain_def trust_gain_def age_step_def tally_defs no_whois_def)
  moreover have "registration_factors pd no_whois now = []"
    using assms(2) by (simp add: registration_factors_def no_whois_def status_set_def trim_space_def)
  then have "gain (registration_step pd now i) \<le> gain (registration_step pd now ?j)"
    "trust_gain (registration_step pd now i) = trust_gain (registration_step pd now ?j)"
    using assms(1) positive_sum(2) [of "registration_factors pd (si_whois i) now"]
    by (simp_all add: gain_def trust_gain_def registration_step_def registration_fold empty_tally_def)
  ultimately have "ta_legit (evidence pd now i start_tally) \<le> ta_legit (evidence pd now ?j start_tally)"
    "ta_trust (evidence pd now i start_tally) = ta_trust (evidence pd now ?j start_tally)"
    by (simp_all add: evidence_gain same)
  with False assms(1) show ?thesis
    by (simp add: compute_score_settle strong) (rule settle_mono, simp_all add: established_def)
qed (auto simp: compute_score_def)

text \<open>
  More feeds never help. Adding feeds that list a domain, everything else unchanged, never
  raises its score.
\<close>

theorem feeds_never_raise:
  assumes "0 \<le> m" and "m \<le> n"
  shows "sc_legitimacy (compute_score pd now (i\<lparr>si_threat := 0 < n, si_threat_hits := n\<rparr>))
       \<le> sc_legitimacy (compute_score pd now (i\<lparr>si_threat := 0 < m, si_threat_hits := m\<rparr>))"
proof (cases "si_list_trusted i \<or> si_cdn i")
  case False
  let ?i = "\<lambda>n. i\<lparr>si_threat := 0 < n, si_threat_hits := n\<rparr>"
  have hits: "threat_hits (?i n) = n" "threat_hits (?i m) = m" using assms by (simp_all add: threat_hits_def)
  have vw: "vouch_whois (?i k) = vouch_whois i" for k
    by (simp add: fun_eq_iff vouch_whois_def plain_whois_def)
  have same: "age_step (?i k) = age_step i" "nameserver_step (?i k) = nameserver_step i" "tld_step (?i k) = tld_step i"
    "lexical_step (?i k) = lexical_step i" "virustotal_step (?i k) = virustotal_step i" "abuse_step (?i k) = abuse_step i"
    "kaspersky_step (?i k) = kaspersky_step i" "model_step (?i k) = model_step i"
    "registration_step pd now (?i k) = registration_step pd now i" for k
    by (simp_all add: fun_eq_iff age_step_def nameserver_step_def tld_step_def lexical_step_def vw
        virustotal_step_def abuse_step_def kaspersky_step_def model_step_def registration_step_def Let_def
        cong: if_cong)
  have "gain (threat_step (?i n)) \<le> gain (threat_step (?i m))"
    using assms by (simp add: gain_def threat_step_def hits tally_defs)
  then have pts: "ta_legit (evidence pd now (?i n) start_tally) \<le> ta_legit (evidence pd now (?i m) start_tally)"
    by (simp add: evidence_gain same)
  have tr: "ta_trust (evidence pd now (?i n) start_tally) = ta_trust (evidence pd now (?i m) start_tally)"
    by (simp add: evidence_gain same gain_threat(2))
  have "settle (ta_legit (evidence pd now (?i n) start_tally)) (ta_trust (evidence pd now (?i m) start_tally))
      (strong_threat (?i n)) (established (?i n)) (rep_clean (si_rep (?i n)))
    \<le> settle (ta_legit (evidence pd now (?i m) start_tally)) (ta_trust (evidence pd now (?i m) start_tally))
      (strong_threat (?i m)) (established (?i m)) (rep_clean (si_rep (?i m)))"
    by (rule settle_mono [OF pts])
      (use assms in \<open>auto simp: strong_threat_def hits established_def plain_whois_def\<close>)
  with False show ?thesis by (simp add: compute_score_settle tr)
qed (auto simp: compute_score_def)

subsection \<open>The two scores that surprise\<close>

definition plain_input :: score_input where
  "plain_input = \<lparr>si_domain = ''example.com'', si_platform = [], si_list_trusted = False, si_cdn = False,
     si_ns_trusted_on = [], si_threat = False, si_threat_hits = 0, si_whois = no_whois,
     si_rep = no_reputation, si_verdict = no_verdict\<rparr>"

lemma brand_none: "brand_impersonation_factor ''example'' = None"
  by code_simp

lemma plain_lexical: "lexical_factors ''example.com'' = []"
  by (simp add: lexical_factors_def brand_none has_prefix_def is_digit_def byte_def)

lemma plain_tld: "\<not> risky_tld ''example.com''"
  by code_simp

lemma plain_evidence:
  assumes "si_domain i = ''example.com''" "si_whois i = no_whois" "si_platform i = []" "si_ns_trusted_on i = []" "pd [] = None"
  shows "ta_legit (evidence pd now i start_tally) = 85 + gain (threat_step i) + gain (virustotal_step i)
      + gain (abuse_step i) + gain (kaspersky_step i) + gain (model_step i)"
    and "ta_trust (evidence pd now i start_tally) = trust_gain (virustotal_step i)
      + trust_gain (abuse_step i) + trust_gain (kaspersky_step i)"
proof -
  have r: "registration_factors pd no_whois now = []"
    using assms(5) by (simp add: registration_factors_def no_whois_def status_set_def trim_space_def)
  have g: "gain (age_step i) = 0" "trust_gain (age_step i) = 0" "gain (nameserver_step i) = 0"
    "trust_gain (nameserver_step i) = 0" "gain (tld_step i) = 0" "gain (lexical_step i) = 0"
    using assms by (simp_all add: gain_def trust_gain_def age_step_def nameserver_step_def tld_step_def
        lexical_step_def plain_lexical plain_tld tally_defs no_whois_def)
  have "gain (registration_step pd now i) = 0" "trust_gain (registration_step pd now i) = 0"
    using assms r by (simp_all add: gain_def trust_gain_def registration_step_def empty_tally_def)
  with g show "ta_legit (evidence pd now i start_tally) = 85 + gain (threat_step i) + gain (virustotal_step i)
      + gain (abuse_step i) + gain (kaspersky_step i) + gain (model_step i)"
    "ta_trust (evidence pd now i start_tally) = trust_gain (virustotal_step i)
      + trust_gain (abuse_step i) + trust_gain (kaspersky_step i)"
    by (simp_all add: evidence_gain start_tally gains)
qed

text \<open>
  The model is meant to be one bounded factor, worth at most 50 points, but the confidence is
  taken from the model's reply without a bound: a model that answers 95 instead of 0.95 brings
  any domain without a floor to 0, on its word alone.
\<close>

theorem model_alone_can_sink:
  "sc_legitimacy (compute_score (\<lambda>_. None) now
     (plain_input\<lparr>si_verdict := \<lparr>mv_category = ''phishing'', mv_confidence = 95, mv_reason = []\<rparr>\<rparr>)) = 0"
  by (simp add: compute_score_settle plain_input_def plain_evidence settle_defs gain_def trust_gain_def tally_defs
      threat_step_def threat_hits_def virustotal_step_def abuse_step_def kaspersky_step_def model_step_def
      no_reputation_def should_block_def block_categories_def round_away_def established_def no_whois_def rep_clean_def)

text \<open>
  Two vendors of VirusTotal that call a domain malicious count as a definitive signal, for which
  the model is not even asked; but they cost 24 points, so a domain with nothing else against it
  keeps 61 and is recorded as clean.
\<close>

theorem reputation_flag_is_not_blocked:
  "let i = plain_input\<lparr>si_rep := no_reputation\<lparr>re_vt_checked := True, re_vt_malicious := 2\<rparr>\<rparr> in
     strong_threat i \<and> sc_legitimacy (compute_score (\<lambda>_. None) now i) = 61 \<and> block_threshold < 61"
  by (simp add: compute_score_settle plain_input_def plain_evidence settle_defs gain_def trust_gain_def tally_defs
      threat_step_def threat_hits_def virustotal_step_def abuse_step_def kaspersky_step_def model_step_def
      no_reputation_def no_verdict_def should_block_def block_categories_def strong_threat_def rep_malicious_def thresholds
      established_def no_whois_def rep_clean_def)

subsection \<open>Entropy without logarithms\<close>

lemma foldl_entropy:
  "foldl (\<lambda>h c. if c = 0 then h else h - g c) h cs = h - sum_list (map (\<lambda>c. if c = 0 then 0 else g c) cs)"
  for g :: "nat \<Rightarrow> real"
  by (induction cs arbitrary: h) auto

lemma sum_byte_freq: "(\<Sum>b<256. byte_freq s b) = length s"
proof (induction s)
  case (Cons c s)
  have "byte_freq (c # s) b = byte_freq s b + (if b = byte c then 1 else 0)" for b
    by (simp add: byte_freq_def)
  with Cons show ?case by (simp add: sum.distrib)
qed (simp add: byte_freq_def)

lemma entropy_scaled:
  assumes "s \<noteq> []"
  shows "real (length s) * entropy s =
    real (length s) * log 2 (real (length s)) - (\<Sum>b<256. real (byte_freq s b) * log 2 (real (byte_freq s b)))"
proof -
  let ?n = "real (length s)" and ?f = "\<lambda>b. real (byte_freq s b)"
  have n: "0 < ?n" using assms by simp
  have "entropy s = - (\<Sum>b<256. if byte_freq s b = 0 then 0 else ?f b / ?n * log 2 (?f b / ?n))"
    using assms by (simp add: entropy_def Let_def foldl_entropy comp_def interv_sum_list_conv_sum_set_nat atLeast0LessThan)
  then have "?n * entropy s = (\<Sum>b<256. - (?n * (if byte_freq s b = 0 then 0 else ?f b / ?n * log 2 (?f b / ?n))))"
    by (simp add: sum_distrib_left sum_negf)
  also have "\<dots> = (\<Sum>b<256. ?f b * log 2 ?n - ?f b * log 2 (?f b))"
    using n by (intro sum.cong) (auto simp: log_divide field_simps)
  also have "\<dots> = (\<Sum>b<256. ?f b) * log 2 ?n - (\<Sum>b<256. ?f b * log 2 (?f b))"
    by (simp add: sum_subtractf sum_distrib_right)
  also have "(\<Sum>b<256. ?f b) = ?n"
    by (simp flip: of_nat_sum add: sum_byte_freq)
  finally show ?thesis .
qed

text \<open>
  The randomness test \<open>entropy(label) > 3.8\<close> is decided by whole numbers: with n bytes of
  which the byte b occurs f(b) times, it holds exactly if 2 to the 19n times the product of the
  f(b) to the 5f(b) is less than n to the 5n.
\<close>

theorem randomness_in_integers:
  assumes "s \<noteq> []"
  shows "38 / 10 < entropy s \<longleftrightarrow>
    2 ^ (19 * length s) * (\<Prod>b<256. byte_freq s b ^ (5 * byte_freq s b)) < length s ^ (5 * length s)"
proof -
  let ?n = "length s" and ?P = "\<Prod>b<256. byte_freq s b ^ (5 * byte_freq s b)"
  let ?S = "\<Sum>b<256. real (byte_freq s b) * log 2 (real (byte_freq s b))"
  have n: "0 < real ?n" using assms by simp
  have "0 < ?P" by (intro prod_pos) auto
  then have P: "0 < real ?P" by (simp only: of_nat_0_less_iff)
  have "log 2 (real ?P) = (\<Sum>b<256. log 2 (real (byte_freq s b) ^ (5 * byte_freq s b)))"
  proof -
    have "ln (\<Prod>b<256. real (byte_freq s b) ^ (5 * byte_freq s b)) = (\<Sum>b<256. ln (real (byte_freq s b) ^ (5 * byte_freq s b)))"
      by (intro ln_prod) auto
    then show ?thesis by (simp only: log_def of_nat_prod of_nat_power sum_divide_distrib)
  qed
  also have "\<dots> = (\<Sum>b<256. 5 * (real (byte_freq s b) * log 2 (real (byte_freq s b))))"
    by (intro sum.cong refl) (case_tac "byte_freq s x = 0", simp_all add: log_nat_power)
  finally have lP: "log 2 (real ?P) = 5 * ?S" by (simp add: sum_distrib_left)
  have log_left: "log 2 (2 ^ (19 * ?n) * Q) = 19 * real ?n + log 2 Q" if "0 < Q" for Q :: real
    using that by (simp add: log_mult log_nat_power)
  have "38 / 10 < entropy s \<longleftrightarrow> 19 * real ?n < 5 * (real ?n * entropy s)"
    using n by (simp add: field_simps)
  also have "\<dots> \<longleftrightarrow> 19 * real ?n + 5 * ?S < 5 * real ?n * log 2 (real ?n)"
    unfolding entropy_scaled [OF assms] by argo
  also have "\<dots> \<longleftrightarrow> log 2 (2 ^ (19 * ?n) * real ?P) < log 2 (real ?n ^ (5 * ?n))"
    using n unfolding log_left [OF P] lP by (simp add: log_nat_power)
  also have "\<dots> \<longleftrightarrow> 2 ^ (19 * ?n) * real ?P < real ?n ^ (5 * ?n)"
    using n P by (intro log_less_cancel_iff) simp_all
  also have "\<dots> \<longleftrightarrow> real (2 ^ (19 * ?n) * ?P) < real (?n ^ (5 * ?n))"
    by simp
  finally show ?thesis by (simp only: of_nat_less_iff)
qed

subsection \<open>Concrete scores\<close>

theorem corroborated_threat_decides_witness:
  "sc_legitimacy (compute_score (\<lambda>_. None) 0 (plain_input\<lparr>si_threat := True, si_threat_hits := 2\<rparr>)) \<le> 25"
proof -
  have "2 \<le> threat_hits (plain_input\<lparr>si_threat := True, si_threat_hits := 2\<rparr>)"
    by (simp add: threat_hits_def)
  from corroborated_threat_decides [OF this] show ?thesis by (simp add: plain_input_def)
qed

theorem soft_signals_never_block_witness:
  "55 \<le> sc_legitimacy (compute_score (\<lambda>_. None) 0
     (plain_input\<lparr>si_threat := True, si_threat_hits := 1,
        si_whois := no_whois\<lparr>wi_age_days := 800, wi_source := ''rdap''\<rparr>,
        si_verdict := \<lparr>mv_category = ''phishing'', mv_confidence = 1, mv_reason = []\<rparr>\<rparr>))"
proof -
  let ?i = "plain_input\<lparr>si_threat := True, si_threat_hits := 1,
        si_whois := no_whois\<lparr>wi_age_days := 800, wi_source := ''rdap''\<rparr>,
        si_verdict := \<lparr>mv_category = ''phishing'', mv_confidence = 1, mv_reason = []\<rparr>\<rparr>"
  have "\<not> strong_threat ?i" "established ?i \<or> rep_clean (si_rep ?i)"
    by (simp_all add: strong_threat_def threat_hits_def rep_malicious_def plain_input_def no_reputation_def
        established_def plain_whois_def)
  moreover have "established ?i" by (simp add: established_def plain_whois_def)
  ultimately show ?thesis using soft_signals_never_block [of ?i] by blast
qed

theorem plain_whois_never_raises_witness:
  "sc_legitimacy (compute_score (\<lambda>_. None) 0 (plain_input\<lparr>si_whois := no_whois\<lparr>wi_age_days := 4000, wi_source := ''whois''\<rparr>\<rparr>))
   \<le> sc_legitimacy (compute_score (\<lambda>_. None) 0 plain_input)"
proof -
  let ?i = "plain_input\<lparr>si_whois := no_whois\<lparr>wi_age_days := 4000, wi_source := ''whois''\<rparr>\<rparr>"
  have "plain_whois ?i" by (simp add: plain_whois_def)
  from plain_whois_never_raises [OF this, of "\<lambda>_. None" 0] show ?thesis by (simp add: plain_input_def)
qed

theorem feeds_never_raise_witness:
  "sc_legitimacy (compute_score (\<lambda>_. None) 0 (plain_input\<lparr>si_threat := True, si_threat_hits := 3\<rparr>))
   \<le> sc_legitimacy (compute_score (\<lambda>_. None) 0 (plain_input\<lparr>si_threat := True, si_threat_hits := 1\<rparr>))"
  using feeds_never_raise [of 1 3 "\<lambda>_. None" 0 plain_input] by simp

theorem randomness_in_integers_witness:
  "(38 / 10 < entropy ''aab'') = False"
proof -
  have "(\<Prod>b<256. byte_freq ''aab'' b ^ (5 * byte_freq ''aab'' b)) = 2 ^ 10"
  proof -
    have "byte_freq ''aab'' b = (if b = 97 then 2 else if b = 98 then 1 else 0)" for b
      by (simp add: byte_freq_def byte_def)
    then have "byte_freq ''aab'' b ^ (5 * byte_freq ''aab'' b) = (if b = 97 then 2 ^ 10 else 1)" for b
      by simp
    then show ?thesis by simp
  qed
  moreover have "\<not> 2 ^ (19 * 3) * (2 :: nat) ^ 10 < 3 ^ (5 * 3)" by simp
  moreover have "length ''aab'' = 3" by simp
  ultimately show ?thesis
    using randomness_in_integers [of "''aab''"] by (metis list.distinct(1))
qed

end
