(* ===== verification/Classify_Facts.thy ===== *)
theory Classify_Facts
  imports Classify_Worker Legitimacy_Facts
begin

section \<open>What the classification worker promises\<close>

text \<open>
  A verdict blocks only with evidence and a low score; a corroborated threat always ends in a
  rule the nodes enforce; names the operator excludes are never put to a third party, whatever
  the worker does; a reloaded threat set re-flags exactly the clean verdicts it lists.
\<close>

subsection \<open>The verdict\<close>

lemma judge_fields:
  assumes c_def: "c = judge pd now s i answer known"
  shows "v_domain c = si_domain i" and "v_trusted c = False" and "v_threat c = si_threat i"
    and "v_score c = sc_legitimacy (compute_score pd now i)"
    and "v_block c \<longleftrightarrow> (should_block (si_verdict i) \<or> si_threat i \<or> rep_malicious (si_rep i)) \<and> v_score c < block_threshold"
    and "v_status c = (if v_block c then if parse_mode (cs_mode s) = Mode_Auto \<and> v_score c < auto_threshold
           then class_auto else class_suggested else class_clean)"
  by (simp_all add: c_def judge_def Let_def)

lemma judge_category:
  "v_block (judge pd now s i answer known) \<Longrightarrow> v_category (judge pd now s i answer known) =
     (if should_block (si_verdict i) then mv_category (si_verdict i) else ''malware'')"
  by (auto simp: judge_def Let_def should_block_def block_categories_def)

text \<open>
  C23: A block needs evidence. A verdict blocks only if the model named a security category, a
  threat feed lists the domain or a reputation service flags it, and the score is below 50; its
  category is then a security category. It is enforced without review only in automatic mode
  and below 35 points, and a verdict that does not block is clean, in the category other.
\<close>

theorem block_needs_evidence:
  "let c = judge pd now s i answer known; evidence = should_block (si_verdict i) \<or> si_threat i \<or> rep_malicious (si_rep i) in
     (v_block c \<longleftrightarrow> evidence \<and> v_score c < 50)
     \<and> (v_block c \<longrightarrow> v_category c \<in> set block_categories)
     \<and> (v_status c = class_auto \<longleftrightarrow> v_block c \<and> parse_mode (cs_mode s) = Mode_Auto \<and> v_score c < 35)
     \<and> (v_status c = class_clean \<longleftrightarrow> \<not> v_block c)
     \<and> (\<not> v_block c \<longrightarrow> v_category c = ''other'')"
  using judge_fields(5,6) [OF refl, of pd now s i answer known] judge_category [of pd now s i answer known]
  by (auto simp: Let_def thresholds should_block_def block_categories_def)
    (simp_all add: judge_def Let_def thresholds should_block_def block_categories_def split: if_splits)

subsection \<open>Checking old verdicts again\<close>

definition listed_clean :: "(string \<Rightarrow> nat) \<Rightarrow> verdict_row \<Rightarrow> bool" where
  "listed_clean hits c \<longleftrightarrow> v_status c = class_clean \<and> \<not> v_trusted c \<and> 0 < hits (v_domain c)"

definition flagged :: "time \<Rightarrow> cls_mode \<Rightarrow> (string \<Rightarrow> nat) \<Rightarrow> verdict_row \<Rightarrow> verdict_row" where
  "flagged now m hits c = c\<lparr>v_block := True, v_threat := True, v_status := threat_status m (hits (v_domain c)),
     v_category := ''malware'', v_reason := threat_reason (hits (v_domain c)), v_updated_at := now div millisecond\<rparr>"

lemma rescan_fold:
  "db_verdicts (fst (foldl (rescan_domain now m hits) st ds)) =
     map (\<lambda>c. if listed_clean hits c \<and> v_domain c \<in> set ds then flagged now m hits c else c) (db_verdicts (fst st))"
proof (induction ds arbitrary: st)
  case (Cons d ds)
  obtain db b where st: "st = (db, b)" by fastforce
  have step: "db_verdicts (fst (rescan_domain now m hits st d)) =
      map (\<lambda>c. if listed_clean hits c \<and> v_domain c = d then flagged now m hits c else c) (db_verdicts db)"
  proof (cases "hits d = 0")
    case True
    then have "map (\<lambda>c. if listed_clean hits c \<and> v_domain c = d then flagged now m hits c else c) (db_verdicts db) = db_verdicts db"
      by (intro map_idI) (auto simp: listed_clean_def)
    with True show ?thesis by (simp add: st rescan_domain_def)
  next
    case False
    then show ?thesis
      by (auto simp: st rescan_domain_def Let_def flag_threat_def change_verdict_def bump_def listed_clean_def flagged_def)
  qed
  have "\<not> listed_clean hits (flagged now m hits c)" for c
    by (simp add: listed_clean_def flagged_def threat_status_def)
  then show ?case
    using Cons.IH [of "rescan_domain now m hits st d"] by (auto simp: step [unfolded st] st)
qed simp

lemma rescan_verdicts:
  assumes "cs_on s" and "parse_mode (cs_mode s) \<noteq> Mode_Off"
  shows "db_verdicts (wo_db (rescan_threat P s now w)) =
    map (\<lambda>c. if listed_clean (set_hits P (sh_set (wo_threat w))) c then flagged now (parse_mode (cs_mode s)) (set_hits P (sh_set (wo_threat w))) c else c)
        (db_verdicts (wo_db w))"
proof -
  let ?h = "set_hits P (sh_set (wo_threat w))"
  have "v_domain c \<in> set (clean_domains (wo_db w))" if "c \<in> set (db_verdicts (wo_db w))" "listed_clean ?h c" for c
    using that by (auto simp: clean_domains_def listed_clean_def)
  moreover have "wo_db (rescan_threat P s now w) =
      fst (foldl (rescan_domain now (parse_mode (cs_mode s)) ?h) (wo_db w, False) (clean_domains (wo_db w)))"
    using assms by (simp add: rescan_threat_def Let_def split: prod.split)
  ultimately show ?thesis
    by (auto simp: rescan_fold)
qed

text \<open>
  When the threat feeds are loaded again, exactly the verdicts that are clean, not trusted
  and listed now turn into blocks: enforced at once for two feeds in automatic mode, for review
  otherwise. Every other verdict, each decision of the operator among them, stays as it is.
\<close>

theorem rescan_flags_listed:
  assumes "cs_on s" and "parse_mode (cs_mode s) \<noteq> Mode_Off"
  shows "db_verdicts (wo_db (rescan_threat P s now w)) =
    map (\<lambda>c. if v_status c = class_clean \<and> \<not> v_trusted c \<and> 0 < set_hits P (sh_set (wo_threat w)) (v_domain c)
             then flagged now (parse_mode (cs_mode s)) (set_hits P (sh_set (wo_threat w))) c else c)
        (db_verdicts (wo_db w))"
  using rescan_verdicts [OF assms, of P now w] by (simp add: listed_clean_def)

subsection \<open>What the steps keep\<close>

lemma is_classified_iff: "is_classified d db \<longleftrightarrow> d \<in> v_domain ` set (db_verdicts db)"
  by (auto simp: is_classified_def list_ex_iff)

lemma rescan_keeps:
  "is_classified d (wo_db (rescan_threat P s now w)) = is_classified d (wo_db w)"
  "wo_asked (rescan_threat P s now w) = wo_asked w" "wo_queue (rescan_threat P s now w) = wo_queue w"
  "wo_trusted (rescan_threat P s now w) = wo_trusted w" "wo_threat (rescan_threat P s now w) = wo_threat w"
  "wo_fwd (rescan_threat P s now w) = wo_fwd w" "wo_rep (rescan_threat P s now w) = wo_rep w"
  "wo_reloads w \<le> wo_reloads (rescan_threat P s now w)"
proof -
  have v: "v_domain (if b then flagged now m h c else c) = v_domain c" for b m h and c :: verdict_row
    by (simp add: flagged_def)
  show "is_classified d (wo_db (rescan_threat P s now w)) = is_classified d (wo_db w)"
  proof (cases "cs_on s \<and> parse_mode (cs_mode s) \<noteq> Mode_Off")
    case True
    have "v_domain ` set (db_verdicts (wo_db (rescan_threat P s now w))) = v_domain ` set (db_verdicts (wo_db w))"
      by (simp only: rescan_verdicts [OF conjunct1 [OF True] conjunct2 [OF True]] set_map image_image v)
    then show ?thesis by (simp only: is_classified_iff)
  qed (auto simp: rescan_threat_def)
qed (simp_all add: rescan_threat_def Let_def split: prod.split)

lemma load_lists_keeps:
  "is_classified d (wo_db (load_lists P s now g w)) = is_classified d (wo_db w)"
  "wo_asked (load_lists P s now g w) = wo_asked w" "wo_queue (load_lists P s now g w) = wo_queue w"
  "wo_fwd (load_lists P s now g w) = wo_fwd w" "wo_rep (load_lists P s now g w) = wo_rep w"
  "wo_reloads w \<le> wo_reloads (load_lists P s now g w)"
proof -
  have "wo_reloads w \<le> wo_reloads (rescan_threat P s now (w\<lparr>wo_trusted := x, wo_threat := y\<rparr>))" for x y
    using rescan_keeps(8) [of "w\<lparr>wo_trusted := x, wo_threat := y\<rparr>" P s now] by simp
  then show "wo_reloads w \<le> wo_reloads (load_lists P s now g w)"
    by (simp add: load_lists_def Let_def split: prod.split)
qed (simp_all add: load_lists_def Let_def rescan_keeps split: prod.split)

lemma excluded_keeps:
  assumes "worker_excluded s now g name w = (b, w')"
  shows "wo_db w' = wo_db w" and "wo_asked w' = wo_asked w" and "wo_reloads w' = wo_reloads w"
    and "wo_queue w' = wo_queue w" and "wo_trusted w' = wo_trusted w" and "wo_threat w' = wo_threat w"
  using assms by (auto simp: worker_excluded_def split: prod.splits)

lemma store_verdict_keeps:
  "wo_asked (store_verdict now c w) = wo_asked w" "wo_queue (store_verdict now c w) = wo_queue w"
  "wo_fwd (store_verdict now c w) = wo_fwd w"
  by (simp_all add: store_verdict_def Let_def split: prod.split)

lemma store_new_verdict:
  assumes "\<not> is_classified (v_domain c) (wo_db w)"
  shows "db_verdicts (wo_db (store_verdict now c w)) = db_verdicts (wo_db w) @ [c\<lparr>v_updated_at := now div millisecond\<rparr>]"
    and "wo_reloads (store_verdict now c w) = (if v_status c = class_auto then Suc (wo_reloads w) else wo_reloads w)"
  using assms by (auto simp: store_verdict_def insert_classification_def Let_def bump_def)

text \<open>Two feeds: only WHOIS and the zone are asked, and the verdict is judged without the model.\<close>

lemma classify_corroborated:
  assumes "2 \<le> set_hits P (sh_set (wo_threat w)) domain"
  obtains asks i where "classify P pd s now g domain w =
      store_verdict now (judge pd now s i None (sg_known g)) (w\<lparr>wo_asked := wo_asked w @ asks\<rparr>)"
    and "set asks \<subseteq> {(Ask_Whois, domain), (Ask_Zone, domain)}"
    and "si_domain i = domain" and "2 \<le> threat_hits i" and "si_threat i" and "\<not> si_list_trusted i"
    and "\<not> si_cdn i" and "si_verdict i = no_verdict"
proof -
  let ?platform = "hosting_platform P domain"
  let ?look = "cs_whois_enabled s \<and> ?platform = []"
  let ?whois = "if ?look then (case sg_whois g of Some i \<Rightarrow> i | None \<Rightarrow> no_whois) else no_whois"
  obtain ns zone where t: "trusted_nameservers P s (sh_set (wo_trusted w)) (sg_zone g) ?whois = (ns, zone)"
    by fastforce
  have keep: "wo_trusted (ask q domain w) = wo_trusted w" "wo_threat (ask q domain w) = wo_threat w"
    "wo_rep (ask q domain w) = wo_rep w" for q w
    by (simp_all add: ask_def)
  let ?asks = "(if ?look then [(Ask_Whois, domain)] else []) @ (if zone then [(Ask_Zone, domain)] else [])"
  let ?i = "\<lparr>si_domain = domain, si_platform = ?platform, si_list_trusted = False, si_cdn = False,
      si_ns_trusted_on = ns, si_threat = True, si_threat_hits = int (set_hits P (sh_set (wo_threat w)) domain),
      si_whois = ?whois, si_rep = no_reputation, si_verdict = no_verdict\<rparr>"
  have "classify P pd s now g domain w =
      store_verdict now (judge pd now s ?i None (sg_known g)) (w\<lparr>wo_asked := wo_asked w @ ?asks\<rparr>)"
  proof (cases ?look)
    have pos: "0 < set_hits P (sh_set (wo_threat w)) domain" using assms by linarith
    case True
    then have l: "cs_whois_enabled s" "?platform = []" by simp_all
    have t': "trusted_nameservers P s (sh_set (wo_trusted w)) (sg_zone g)
        (case sg_whois g of Some i \<Rightarrow> i | None \<Rightarrow> no_whois) = (ns, zone)"
      using t l by simp
    show ?thesis
      by (cases zone) (simp_all add: classify_def Let_def keep l t' assms pos, simp_all add: ask_def)
  next
    have pos: "0 < set_hits P (sh_set (wo_threat w)) domain" using assms by linarith
    case False
    then have t': "trusted_nameservers P s (sh_set (wo_trusted w)) (sg_zone g) no_whois = (ns, zone)"
      using t by (simp only: if_False)
    show ?thesis
      by (cases zone) (simp_all add: classify_def Let_def keep False t' assms pos, simp_all add: ask_def)
  qed
  then show thesis
    by (rule that) (use assms in \<open>auto simp: threat_hits_def\<close>)
qed

text \<open>
  C21: from the feeds to the nodes. In automatic mode a domain that two threat feeds list, that
  is not excluded, not trusted and has no verdict yet, is recorded as malware that blocks at
  once, the policy is reloaded, the rules replicated to every node then deny the domain, and
  neither a reputation service nor the model was asked about it.
\<close>

theorem corroborated_threat_reaches_nodes:
  assumes "cs_on s" and "parse_mode (cs_mode s) = Mode_Auto"
    and "worker_excluded s now g domain w0 = (False, w1)" and "w = load_lists P s now g w1"
    and "\<not> is_classified domain (wo_db w0)"
    and "\<not> set_has P (sh_set (wo_trusted w)) domain" and "\<not> cdn_infrastructure P domain"
    and "2 \<le> set_hits P (sh_set (wo_threat w)) domain"
    and "w' = process P pd s now g domain w0"
  shows "(\<exists>c\<in>set (db_verdicts (wo_db w')). v_domain c = domain \<and> v_category c = ''malware'' \<and> enforced c)
    \<and> (\<exists>r\<in>set (replicated_rules (wo_db w')). u_action r = ''deny'' \<and> u_domain r = domain \<and> u_enabled r)
    \<and> wo_reloads w0 < wo_reloads w'
    \<and> (Ask_Reputation, domain) \<notin> set (drop (length (wo_asked w0)) (wo_asked w'))
    \<and> (Ask_Model, domain) \<notin> set (drop (length (wo_asked w0)) (wo_asked w'))"
proof -
  have w1: "wo_db w1 = wo_db w0" "wo_asked w1 = wo_asked w0" "wo_reloads w1 = wo_reloads w0"
    by (rule excluded_keeps [OF assms(3)])+
  have cls: "\<not> is_classified domain (wo_db w)" using assms(4,5) w1 by (simp add: load_lists_keeps)
  have proc: "w' = classify P pd s now g domain w"
    using assms cls by (simp add: process_def Let_def)
  obtain asks i where cl: "w' = store_verdict now (judge pd now s i None (sg_known g)) (w\<lparr>wo_asked := wo_asked w @ asks\<rparr>)"
    and asks: "set asks \<subseteq> {(Ask_Whois, domain), (Ask_Zone, domain)}"
    and i: "si_domain i = domain" "2 \<le> threat_hits i" "si_threat i" "\<not> si_list_trusted i" "\<not> si_cdn i"
      "si_verdict i = no_verdict"
    unfolding proc by (rule classify_corroborated [OF assms(8), of pd s now g])
  let ?c = "judge pd now s i None (sg_known g)"
  have low: "sc_legitimacy (compute_score pd now i) < 35" "sc_legitimacy (compute_score pd now i) < 50"
    using corroborated_score [OF i(2,4,5), of pd now] by simp_all
  note f = judge_fields [OF refl, of pd now s i None "sg_known g"]
  have blk: "v_block ?c" unfolding f(5) using f(4) low i(3) by (simp add: thresholds)
  have st: "v_status ?c = class_auto" using f(6) blk f(4) low assms(2) by (simp add: thresholds)
  have cat: "v_category ?c = ''malware''"
    using judge_category [OF blk] i(6) by (simp add: should_block_def no_verdict_def block_categories_def)
  have rows: "db_verdicts (wo_db w') = db_verdicts (wo_db w) @ [?c\<lparr>v_updated_at := now div millisecond\<rparr>]"
    unfolding cl by (subst store_new_verdict) (simp_all add: f(1) i(1) cls)
  then have row: "?c\<lparr>v_updated_at := now div millisecond\<rparr> \<in> set (db_verdicts (wo_db w'))" by simp
  have enf: "enforced (?c\<lparr>v_updated_at := now div millisecond\<rparr>)" using blk st by (simp add: enforced_def)
  have "wo_reloads w' = Suc (wo_reloads w)"
    unfolding cl by (subst store_new_verdict) (simp_all add: f(1) i(1) cls st)
  then have "wo_reloads w0 < wo_reloads w'"
    using load_lists_keeps(6) [of w1 P s now g] w1 assms(4) by simp
  moreover have "wo_asked w' = wo_asked w0 @ asks"
    using w1 assms(4) by (simp add: cl store_verdict_keeps load_lists_keeps)
  moreover have "\<exists>c\<in>set (db_verdicts (wo_db w')). v_domain c = domain \<and> v_category c = ''malware'' \<and> enforced c"
    using row enf cat f(1) i(1) by (intro bexI [OF _ row]) simp
  moreover have "\<exists>r\<in>set (replicated_rules (wo_db w')). u_action r = ''deny'' \<and> u_domain r = domain \<and> u_enabled r"
    using enforced_verdict_served [OF row enf] f(1) i(1) by simp
  ultimately show ?thesis
    using asks by auto
qed

text \<open>
  A list that cannot be loaded does not hold the worker back, although \<open>ensureSync\<close> says that a
  domain is never classified against a list that is not loaded: with no list in memory and
  every download failing, the domain gets its verdict, which is given once.
\<close>

theorem failed_lists_still_classify:
  assumes "cs_on s" and "parse_mode (cs_mode s) \<noteq> Mode_Off" and "\<not> ai_configured s"
    and "\<not> cdn_infrastructure P domain"
    and "worker_excluded s now g domain (new_worker empty_db) = (False, w1)"
    and "sg_load g = (\<lambda>_. None)"
  shows "is_classified domain (wo_db (process P pd s now g domain (new_worker empty_db)))"
proof -
  have loads: "load_sources (\<lambda>_. None) b (x # xs) = None" for b x xs
  proof -
    have "foldl (add_loaded (\<lambda>_. None)) (t, True) xs = (t, True)" for t
      by (induction xs) (simp_all add: add_loaded_def)
    then show ?thesis by (simp add: load_sources_def add_loaded_def)
  qed
  have none: "sh_set (snd (ensure_sync (\<lambda>_. None) srcs h)) = None" if "sh_set h = None" for srcs h
    using that by (cases srcs) (simp_all add: ensure_sync_def loads Let_def split: option.split)
  have e: "sh_set (wo_trusted w1) = None" "sh_set (wo_threat w1) = None" "\<not> is_classified domain (wo_db w1)"
    using excluded_keeps [OF assms(5)] by (simp_all add: new_worker_def new_set_holder_def empty_db_def is_classified_def)
  let ?w = "load_lists P s now g w1"
  have "sh_set (wo_trusted ?w) = sh_set (snd (ensure_sync (\<lambda>_. None) (trusted_sources s) (wo_trusted w1)))"
    by (simp add: load_lists_def assms(6) Let_def rescan_keeps split: prod.split)
  then have q: "sh_set (wo_trusted ?w) = None" "\<not> is_classified domain (wo_db ?w)"
    using none [OF e(1)] e(3) by (simp_all add: load_lists_keeps)
  have c: "process P pd s now g domain (new_worker empty_db) = classify P pd s now g domain ?w"
    using assms q by (simp add: process_def Let_def set_has_def)
  have st: "is_classified (v_domain c) (wo_db (store_verdict now c v))" for c v
    by (auto simp: store_verdict_def insert_classification_def Let_def is_classified_iff bump_def split: if_splits)
  have dom: "is_classified (si_domain i) (wo_db (store_verdict now (judge pd now s i a k) v))" for i a k v
    using st [of "judge pd now s i a k" v] by (simp add: judge_fields(1) [OF refl])
  show ?thesis
    unfolding c classify_def
    by (simp only: Let_def assms(3) simp_thms if_False split: prod.split)
      (intro allI impI, subst dom [where i = "\<lparr>si_domain = domain, si_platform = p, si_list_trusted = b, si_cdn = b',
        si_ns_trusted_on = n, si_threat = t, si_threat_hits = h, si_whois = wi, si_rep = r, si_verdict = v\<rparr>" for p b b' n t h wi r v,
        simplified], simp)
qed

subsection \<open>Excluded names stay inside\<close>

lemma enqueue_keeps: "wo_asked (enqueue P s now g name w) = wo_asked w"
  by (auto simp: enqueue_def Let_def dest: excluded_keeps(2) split: prod.split bool.split)

lemma rescore_keeps: "wo_asked (rescore_legacy_trusted P s w) = wo_asked w"
  by (simp add: rescore_legacy_trusted_def Let_def split: prod.split)

lemma refresh_keeps: "wo_asked (refresh_tick P s now g w) = wo_asked w"
  by (simp add: refresh_tick_def Let_def rescan_keeps split: prod.split)

lemma categorize_asks: "set (wo_asked (categorize s g d w)) \<subseteq> set (wo_asked w) \<union> {(Ask_Model, d)}"
  by (auto simp: categorize_def Let_def ask_def split: option.split)

lemma classify_asks:
  "set (wo_asked (classify P pd s now g d w)) \<subseteq> set (wo_asked w) \<union> range (\<lambda>q. (q, d))"
  by (auto simp: classify_def Let_def ask_def store_verdict_keeps split: prod.split option.split)

text \<open>A name the operator excludes, as the code writes it before it looks it up.\<close>

definition kept_inside :: "string list \<Rightarrow> string \<Rightarrow> bool" where
  "kept_inside excludes name \<longleftrightarrow> under_any (to_lower (trim_char CHR ''.'' (trim_space name))) excludes"

lemma kept_inside_excluded:
  "kept_inside (cs_exclude_domains s) name \<Longrightarrow> worker_excluded s now g name w = (True, w)"
proof -
  assume k: "kept_inside (cs_exclude_domains s) name"
  have "\<not> under_any [] xs" for xs
    by (auto simp: under_any_def list_ex_iff has_suffix_def)
  with k show ?thesis
    by (auto simp: kept_inside_def worker_excluded_def excluded_def Let_def)
qed

lemma process_asks:
  "set (wo_asked (process P pd s now g d w)) \<subseteq>
     set (wo_asked w) \<union> (if kept_inside (cs_exclude_domains s) d then {} else range (\<lambda>q. (q, d)))"
proof (cases "kept_inside (cs_exclude_domains s) d")
  case True
  then show ?thesis by (simp add: process_def kept_inside_excluded)
next
  case False
  obtain b w1 where x: "worker_excluded s now g d w = (b, w1)" by fastforce
  have a: "wo_asked (load_lists P s now g w1) = wo_asked w"
    using excluded_keeps(2) [OF x] by (simp add: load_lists_keeps)
  have "wo_asked (record_trusted now d l v) = wo_asked v" for l v
    by (simp add: record_trusted_def)
  let ?v = "load_lists P s now g w1" and ?R = "set (wo_asked w) \<union> range (\<lambda>q. (q, d))"
  have c: "set (wo_asked (categorize s g d (record_trusted now d l ?v))) \<subseteq> ?R" for l
    using categorize_asks [of s g d "record_trusted now d l ?v"] by (simp add: record_trusted_def a) blast
  have f: "set (wo_asked (classify P pd s now g d ?v)) \<subseteq> ?R"
    using classify_asks [of P pd s now g d ?v] by (simp add: a)
  have "set (wo_asked (process P pd s now g d w)) \<subseteq> ?R"
  proof (cases "\<not> cs_on s \<or> parse_mode (cs_mode s) = Mode_Off \<or> b \<or> is_classified d (wo_db ?v)")
    case True
    then have "wo_asked (process P pd s now g d w) = wo_asked w"
      by (cases b) (auto simp: process_def x Let_def a excluded_keeps(2) [OF x])
    then show ?thesis by simp
  next
    case False
    then have "process P pd s now g d w =
        (if set_has P (sh_set (wo_trusted ?v)) d \<or> cdn_infrastructure P d
         then categorize s g d (record_trusted now d (set_has P (sh_set (wo_trusted ?v)) d) ?v)
         else classify P pd s now g d ?v)"
      by (simp add: process_def x Let_def)
    with c f show ?thesis by simp
  qed
  with False show ?thesis by simp
qed

lemma backfill_asks:
  "(q, d) \<in> set (wo_asked (backfill_loop s now gs ds w)) \<Longrightarrow>
     (q, d) \<in> set (wo_asked w) \<or> \<not> kept_inside (cs_exclude_domains s) d"
proof (induction ds arbitrary: w)
  case (Cons e ds)
  obtain b w1 where x: "(if sg_known (gs e) then (True, w) else worker_excluded s now (gs e) e w) = (b, w1)"
    by fastforce
  then have a: "wo_asked w1 = wo_asked w" by (auto dest: excluded_keeps(2) split: if_splits)
  show ?case
  proof (cases b)
    case True
    with Cons.prems x a Cons.IH [of "w1\<lparr>wo_db := set_content_category e [] (wo_db w1)\<rparr>"] show ?thesis
      by (simp split del: if_split)
  next
    case False
    with x have "\<not> kept_inside (cs_exclude_domains s) e"
      using kept_inside_excluded [of s e now "gs e" w] by (auto split: if_splits)
    with Cons.prems x a False categorize_asks [of s "gs e" e w1] show ?thesis
      by (auto split del: if_split)
  qed
qed simp

text \<open>
  What the worker does, in any order, while its settings stay the same: it takes names, works
  on the head of its queue, reloads the threat lists, fills in content categories and re-scores
  the verdicts of retired shortcuts.
\<close>

inductive worker_step ::
    "suffix_lib \<Rightarrow> (string \<Rightarrow> time option) \<Rightarrow> cls_settings \<Rightarrow> worker \<Rightarrow> worker \<Rightarrow> bool"
  for P pd s where
  take_name: "worker_step P pd s w (enqueue P s now g name w)"
| work: "wo_queue w = d # ds \<Longrightarrow> worker_step P pd s w (process P pd s now g d (w\<lparr>wo_queue := ds\<rparr>))"
| tick: "worker_step P pd s w (refresh_tick P s now g w)"
| backfill: "worker_step P pd s w (backfill_content s now gs ready w)"
| rescore: "worker_step P pd s w (rescore_legacy_trusted P s w)"

lemma step_asks:
  assumes "worker_step P pd s w w'" and "(q, d) \<in> set (wo_asked w')"
  shows "(q, d) \<in> set (wo_asked w) \<or> \<not> kept_inside (cs_exclude_domains s) d"
  using assms
proof cases
  case (work d' ds now g)
  with assms(2) process_asks [of P pd s now g d' "w\<lparr>wo_queue := ds\<rparr>"] show ?thesis
    by (auto split: if_splits)
next
  case (backfill now gs ready)
  with assms(2) backfill_asks [of q d s now gs] show ?thesis
    by (auto simp: backfill_content_def split: if_splits)
qed (simp_all add: enqueue_keeps rescore_keeps refresh_keeps)

text \<open>
  C22: names the operator excludes stay inside the network. Whatever sequence of names, feeds,
  answers and background passes the worker goes through, it never puts a question about an
  excluded domain, or one under it, to WHOIS, the zone check, a reputation service or the model.
\<close>

theorem excluded_names_stay_inside:
  assumes "(worker_step P pd s)\<^sup>*\<^sup>* (new_worker db) w"
    and "e \<in> set (cs_exclude_domains s)" and "e \<noteq> []"
    and "in_domain (to_lower (trim_char CHR ''.'' (trim_space d))) e"
  shows "(q, d) \<notin> set (wo_asked w)"
proof -
  have k: "kept_inside (cs_exclude_domains s) d"
    using assms(2-4) by (auto simp: kept_inside_def under_any_iff)
  from assms(1) show ?thesis
  proof (induction rule: rtranclp_induct)
    case (step y z)
    then show ?case using step_asks [OF step.hyps(2), of q d] k by blast
  qed (simp add: new_worker_def)
qed

subsection \<open>A concrete worker\<close>

definition demo_signals :: signals where
  "demo_signals = \<lparr>sg_whois = None, sg_zone = False, sg_vt = None, sg_ip = [], sg_abuse = None, sg_opentip = None,
     sg_verdict = None, sg_known = False, sg_cat_ready = True,
     sg_load = load_trusted demo_psl (\<lambda>s. s) demo_fetch, sg_forwarders = None\<rparr>"

definition demo_clean :: verdict_row where
  "demo_clean = \<lparr>v_domain = ''evil.example'', v_category = ''other'', v_block = False, v_status = class_clean,
     v_trusted = False, v_threat = False, v_reason = [], v_note = [], v_score = 85, v_model = [], v_content = [],
     v_content_checked = False, v_updated_at = 0\<rparr>"

definition demo_worker :: worker where
  "demo_worker = new_worker (empty_db\<lparr>db_verdicts := [demo_clean]\<rparr>)
     \<lparr>wo_threat := (new_set_holder True)\<lparr>sh_set := Some demo_threats\<rparr>\<rparr>"

lemma demo_settings_on: "cs_on demo_settings" "parse_mode (cs_mode demo_settings) = Mode_Auto"
  by (simp_all add: demo_settings_def parse_mode_def)

theorem block_needs_evidence_witness:
  "v_block (judge (\<lambda>_. None) 0 demo_settings (plain_input\<lparr>si_threat := True, si_threat_hits := 2\<rparr>) None False)"
proof -
  let ?i = "plain_input\<lparr>si_threat := True, si_threat_hits := 2\<rparr>"
  have "sc_legitimacy (compute_score (\<lambda>_. None) 0 ?i) \<le> 25"
    by (rule corroborated_score) (simp_all add: threat_hits_def plain_input_def)
  then have "v_score (judge (\<lambda>_. None) 0 demo_settings ?i None False) < 50"
    by (simp add: judge_fields(4) [OF refl])
  moreover have "v_threat (judge (\<lambda>_. None) 0 demo_settings ?i None False)"
    by (simp add: judge_fields(3) [OF refl])
  ultimately show ?thesis
    using block_needs_evidence [of "\<lambda>_. None" 0 demo_settings ?i None False] by (simp add: Let_def)
qed

theorem rescan_flags_listed_witness:
  "map v_status (db_verdicts (wo_db (rescan_threat demo_psl demo_settings 0 demo_worker))) = [class_auto]"
proof -
  have "parse_mode (cs_mode demo_settings) \<noteq> Mode_Off" by (simp add: demo_settings_on)
  note rescan_flags_listed [OF demo_settings_on(1) this, of demo_psl 0 demo_worker]
  moreover have "set_hits demo_psl (sh_set (wo_threat demo_worker)) ''evil.example'' = 2" by code_simp
  moreover have "db_verdicts (wo_db demo_worker) = [demo_clean]" by (simp add: demo_worker_def new_worker_def)
  ultimately show ?thesis
    by (simp add: flagged_def demo_settings_on threat_status_def) (simp add: demo_clean_def)
qed

theorem corroborated_threat_reaches_nodes_witness:
  "\<exists>r\<in>set (replicated_rules (wo_db (process demo_psl (\<lambda>_. None) demo_settings 0 demo_signals ''evil.example'' (new_worker empty_db)))).
     u_action r = ''deny'' \<and> u_domain r = ''evil.example'' \<and> u_enabled r"
proof -
  let ?d = "''evil.example''" and ?before = "new_worker empty_db"
  let ?asked = "snd (worker_excluded demo_settings 0 demo_signals ?d ?before)"
  let ?loaded = "load_lists demo_psl demo_settings 0 demo_signals ?asked"
  have x: "worker_excluded demo_settings 0 demo_signals ?d ?before = (False, ?asked)"
  proof -
    have "fst (worker_excluded demo_settings 0 demo_signals ?d ?before) = False" by code_simp
    then show ?thesis by (simp add: prod_eq_iff)
  qed
  have l: "sh_set (wo_threat ?loaded) = Some demo_threats" "sh_set (wo_trusted ?loaded) = None"
    by code_simp+
  have "2 \<le> set_hits demo_psl (sh_set (wo_threat ?loaded)) ?d" "\<not> set_has demo_psl (sh_set (wo_trusted ?loaded)) ?d"
    unfolding l by code_simp+
  moreover have "\<not> is_classified ?d (wo_db ?before)" "\<not> cdn_infrastructure demo_psl ?d"
    by code_simp+
  ultimately show ?thesis
    using corroborated_threat_reaches_nodes [where pd = "\<lambda>_. None", OF demo_settings_on x refl _ _ _ _ refl] by blast
qed

theorem excluded_names_stay_inside_witness:
  "(Ask_Model, ''nas.home.example'') \<notin> set (wo_asked (enqueue demo_psl (demo_settings\<lparr>cs_exclude_domains := [''home.example'']\<rparr>) 0
     demo_signals ''nas.home.example'' (new_worker empty_db)))"
proof -
  let ?s = "demo_settings\<lparr>cs_exclude_domains := [''home.example'']\<rparr>"
  have step: "(worker_step demo_psl (\<lambda>_. None) ?s)\<^sup>*\<^sup>* (new_worker empty_db)
      (enqueue demo_psl ?s 0 demo_signals ''nas.home.example'' (new_worker empty_db))"
    by (rule r_into_rtranclp, rule worker_step.take_name)
  have "in_domain (to_lower (trim_char CHR ''.'' (trim_space ''nas.home.example''))) ''home.example''"
    by code_simp
  from excluded_names_stay_inside [OF step _ _ this] show ?thesis by simp
qed

end
