(* ===== verification/Category_Labels.thy ===== *)
theory Category_Labels
  imports Classify_Worker Resolver_Facts
begin

section \<open>Category labels (internal/classifier/categorizer.go, internal/store/categories.go, internal/api/categories.go)\<close>

text \<open>
  What the control plane says a domain is, from the first source that knows it, and what it
  sends to the agents so that they block by category. The overrides are a table of their own;
  the categorizer holds a copy of it and of what the verdicts say, as \<open>Refresh\<close> last read them.
\<close>

subsection \<open>Overrides in the store\<close>

record category_override =
  co_domain :: string
  co_category :: string
  co_set_by :: string
  co_updated_at :: int

definition set_category_override ::
    "int \<Rightarrow> string \<Rightarrow> string \<Rightarrow> string \<Rightarrow> category_override list \<Rightarrow> category_override list" where
  [model]: "set_category_override now domain category set_by t =
     (let row = \<lparr>co_domain = domain, co_category = category, co_set_by = set_by, co_updated_at = now\<rparr> in
      if list_ex (\<lambda>o'. co_domain o' = domain) t
      then map (\<lambda>o'. if co_domain o' = domain then row else o') t else t @ [row])"

definition delete_category_override :: "string \<Rightarrow> category_override list \<Rightarrow> category_override list" where
  [model]: "delete_category_override domain t = filter (\<lambda>o'. co_domain o' \<noteq> domain) t"

definition category_overrides :: "category_override list \<Rightarrow> (string \<times> category_override) list" where
  [model]: "category_overrides t = foldl (\<lambda>m o'. AList.update (co_domain o') o' m) [] t"

text \<open>\<open>VerdictCategories\<close>: what enforced verdicts block a domain as, and what the model says it is.\<close>

record verdict_categories =
  vc_enforced :: "(string \<times> string) list"
  vc_content :: "(string \<times> string) list"

definition note_verdict :: "verdict_categories \<Rightarrow> verdict_row \<Rightarrow> verdict_categories" where
  [model]: "note_verdict vc c =
     vc\<lparr>vc_enforced := (if v_block c \<and> (v_status c = class_auto \<or> v_status c = class_approved)
           then AList.update (v_domain c) (v_category c) (vc_enforced vc) else vc_enforced vc),
        vc_content := (if v_content c \<noteq> [] then AList.update (v_domain c) (v_content c) (vc_content vc) else vc_content vc)\<rparr>"

definition classifier_categories :: "config_db \<Rightarrow> verdict_categories" where
  [model]: "classifier_categories db = foldl note_verdict \<lparr>vc_enforced = [], vc_content = []\<rparr> (db_verdicts db)"

subsection \<open>The categorizer\<close>

record categorizer =
  cz_overrides :: "(string \<times> category_override) list"
  cz_verdicts :: verdict_categories

definition new_categorizer :: categorizer where
  [model]: "new_categorizer = \<lparr>cz_overrides = [], cz_verdicts = \<lparr>vc_enforced = [], vc_content = []\<rparr>\<rparr>"

text \<open>\<open>None\<close> is an error of the database: then nothing is replaced.\<close>

definition cz_refresh :: "category_override list option \<Rightarrow> config_db option \<Rightarrow> categorizer \<Rightarrow> categorizer" where
  [model]: "cz_refresh ovs db cz =
     (case (ovs, db) of
        (Some t, Some db) \<Rightarrow> \<lparr>cz_overrides = category_overrides t, cz_verdicts = classifier_categories db\<rparr>
      | _ \<Rightarrow> cz)"

datatype label_source = Src_Override | Src_Classifier | Src_Database | Src_Builtin | Src_Model | Src_Local | Src_None

definition text_of :: "string option \<Rightarrow> string" where
  "text_of v = (case v of None \<Rightarrow> [] | Some s \<Rightarrow> s)"

definition db_label :: "holder option \<Rightarrow> string \<Rightarrow> string option" where
  [model]: "db_label db name = (case db of None \<Rightarrow> None | Some h \<Rightarrow> holder_lookup h name)"

definition category_of :: "suffix_lib \<Rightarrow> holder option \<Rightarrow> categorizer \<Rightarrow> string \<Rightarrow> string \<times> label_source" where
  [model]: "category_of P db cz name =
     (let domain = registered_domain P name;
          blocks = text_of (map_of (vc_enforced (cz_verdicts cz)) domain);
          says = text_of (map_of (vc_content (cz_verdicts cz)) domain) in
      case map_of (cz_overrides cz) domain of
        Some ov \<Rightarrow> (co_category ov, Src_Override)
      | None \<Rightarrow>
          if is_local_name name then (cat_local, Src_Local)
          else if blocks \<noteq> [] then (blocks, Src_Classifier)
          else (case db_label db name of
            Some c \<Rightarrow> (c, Src_Database)
          | None \<Rightarrow>
              (let on_platform = hosting_platform P name \<noteq> [] in
               case builtin_of name of
                 Some c \<Rightarrow>
                   if \<not> on_platform then (c, Src_Builtin)
                   else if says \<noteq> [] \<and> says \<noteq> cat_other then (says, Src_Model)
                   else (c, Src_Builtin)
               | None \<Rightarrow> if says \<noteq> [] \<and> says \<noteq> cat_other then (says, Src_Model) else (cat_other, Src_None))))"

definition override_of :: "suffix_lib \<Rightarrow> categorizer \<Rightarrow> string \<Rightarrow> category_override option" where
  [model]: "override_of P cz name = map_of (cz_overrides cz) (registered_domain P name)"

definition builtin_covers :: "suffix_lib \<Rightarrow> string \<Rightarrow> bool" where
  [model]: "builtin_covers P name \<longleftrightarrow> hosting_platform P name = [] \<and> builtin_of name \<noteq> None"

definition answered_locally :: "string \<Rightarrow> bool" where
  [model]: "answered_locally action \<longleftrightarrow> action = ''rewrite'' \<or> action = ''authoritative''"

definition query_category :: "suffix_lib \<Rightarrow> holder option \<Rightarrow> categorizer \<Rightarrow> string \<Rightarrow> string \<Rightarrow> string" where
  [model]: "query_category P db cz name action =
     (case category_of P db cz name of
        (c, src) \<Rightarrow> if answered_locally action \<and> src \<noteq> Src_Override \<and> src \<noteq> Src_Classifier then cat_local else c)"

text \<open>\<open>DomainsFor\<close>: \<open>v1\<close> and \<open>v2\<close> are the orders of the loops of \<open>BuiltinDomains\<close>; the two loops here add the same entries in any order.\<close>

definition add_builtin ::
    "holder option \<Rightarrow> string \<times> string \<Rightarrow> (string \<times> string) list \<Rightarrow> (string \<times> string) list" where
  [model]: "add_builtin db dc out =
     (if map_of out (fst dc) = None \<and> db_label db (fst dc) = None then AList.update (fst dc) (snd dc) out else out)"

definition add_content ::
    "suffix_lib \<Rightarrow> holder option \<Rightarrow> string list \<Rightarrow> string \<times> string \<Rightarrow> (string \<times> string) list \<Rightarrow> (string \<times> string) list" where
  [model]: "add_content P db bcats dc out =
     (if snd dc \<notin> set bcats then out
      else if map_of out (fst dc) \<noteq> None \<or> db_label db (fst dc) \<noteq> None then out
      else if builtin_covers P (fst dc) then out
      else AList.update (fst dc) (snd dc) out)"

definition domains_for ::
  "((string \<times> string) list \<Rightarrow> (string \<times> string) list) \<Rightarrow> ((string \<times> string) list \<Rightarrow> (string \<times> string) list)
   \<Rightarrow> suffix_lib \<Rightarrow> holder option \<Rightarrow> categorizer \<Rightarrow> string list \<Rightarrow> (string \<times> string) list" where
  [model]: "domains_for v1 v2 P db cz bcats =
     (if bcats = [] then []
      else (let out = map (\<lambda>(d, ov). (d, co_category ov)) (cz_overrides cz);
                out = fold (add_builtin db) (builtin_domains v1 v2 builtin (\<lambda>c. c \<in> set bcats)) out in
            fold (add_content P db bcats) (vc_content (cz_verdicts cz)) out))"

subsection \<open>The endpoints (internal/api/categories.go)\<close>

text \<open>\<open>ready\<close>: domain categories are turned on. The answer is the status and the table after it.\<close>

definition put_category_override ::
    "suffix_lib \<Rightarrow> bool \<Rightarrow> int \<Rightarrow> string \<Rightarrow> string \<Rightarrow> string \<Rightarrow> category_override list \<Rightarrow> nat \<times> category_override list" where
  [model]: "put_category_override P ready now domain category user t =
     (let domain = registered_domain P domain in
      if domain = [] then (400, t)
      else if \<not> cat_valid category then (400, t)
      else if \<not> ready then (409, t)
      else (200, set_category_override now domain category user t))"

definition remove_category_override ::
    "suffix_lib \<Rightarrow> string \<Rightarrow> category_override list \<Rightarrow> nat \<times> category_override list" where
  [model]: "remove_category_override P domain t =
     (let domain = registered_domain P domain in
      if domain = [] then (400, t) else (204, delete_category_override domain t))"

definition domain_category ::
    "suffix_lib \<Rightarrow> holder option \<Rightarrow> categorizer option \<Rightarrow> string \<Rightarrow> nat \<times> (string \<times> label_source) \<times> category_override option" where
  [model]: "domain_category P db cz name =
     (let name = trim_space name in
      if registered_domain P name = [] then (400, ([], Src_None), None)
      else case cz of
          None \<Rightarrow> (200, (cat_other, Src_None), None)
        | Some cz \<Rightarrow> (200, category_of P db cz name, override_of P cz name))"

definition clean_blocked_categories :: "string list \<Rightarrow> string list option" where
  [model]: "clean_blocked_categories cs =
     (let ws = map trim_space cs in
      if list_ex (\<lambda>c. c = cat_other \<or> c = cat_local \<or> \<not> cat_valid c) ws then None
      else Some (filter (\<lambda>c. c \<in> set ws) (map cat_id all_categories)))"

subsection \<open>The table of platforms names each once\<close>

text \<open>The entries are split by bits of their first characters into small groups without repetition.\<close>

fun split_distinct :: "('a \<Rightarrow> bool) list \<Rightarrow> 'a list \<Rightarrow> bool" where
  "split_distinct [] xs \<longleftrightarrow> distinct xs"
| "split_distinct (p # ps) xs \<longleftrightarrow>
     split_distinct ps (filter p xs) \<and> split_distinct ps (filter (\<lambda>x. \<not> p x) xs)"

lemma distinct_partition: "distinct (filter p xs) \<Longrightarrow> distinct (filter (\<lambda>x. \<not> p x) xs) \<Longrightarrow> distinct xs"
  by (induction xs) (auto split: if_splits)

lemma split_distinct: "split_distinct ps xs \<Longrightarrow> distinct xs"
  by (induction ps xs rule: split_distinct.induct) (auto intro: distinct_partition)

definition on_char :: "(string \<Rightarrow> string) \<Rightarrow> (char \<Rightarrow> bool) \<Rightarrow> string \<Rightarrow> bool" where
  "on_char g f s = (case g s of [] \<Rightarrow> False | c # _ \<Rightarrow> f c)"

definition char_tests :: "(string \<Rightarrow> bool) list" where
  "char_tests = map (on_char (\<lambda>s. s)) [digit1, digit2, digit3] @ map (on_char tl) [digit0, digit1, digit2]
     @ [on_char (tl \<circ> tl) digit0]"

lemma builtin_low: "split_distinct char_tests (filter (\<lambda>s. on_char (\<lambda>s. s) digit0 s) (map fst builtin))"
  by code_simp

lemma builtin_high: "split_distinct char_tests (filter (\<lambda>s. \<not> on_char (\<lambda>s. s) digit0 s) (map fst builtin))"
  by code_simp

lemma builtin_is_map: "is_map builtin"
  by (rule distinct_partition) (rule split_distinct, rule builtin_low, rule split_distinct, rule builtin_high)

subsection \<open>What the agents are sent\<close>

lemma first_some_only:
  "(\<And>x. x \<in> set xs \<Longrightarrow> x \<noteq> d \<Longrightarrow> f x = None) \<Longrightarrow> d \<in> set xs \<Longrightarrow> first_some f xs = f d"
proof (induction xs)
  case (Cons x xs)
  show ?case
  proof (cases "f x")
    case None
    have "first_some f xs = f d \<or> d \<notin> set xs" using Cons by auto
    moreover have "d \<notin> set xs \<Longrightarrow> first_some f xs = None \<and> f d = None"
      using Cons.prems None by (auto simp: first_some_None)
    ultimately show ?thesis using None by auto
  next
    case (Some v)
    with Cons.prems(1) [of x] show ?thesis by (cases "x = d") auto
  qed
qed simp

lemma is_map_fold_update:
  "(\<And>x m. is_map m \<Longrightarrow> is_map (f x m)) \<Longrightarrow> is_map m \<Longrightarrow> is_map (fold f xs m)"
  by (induction xs arbitrary: m) auto

lemma builtin_domains_map: "is_map (builtin_domains v1 v2 m cats)"
  unfolding builtin_domains_def
  by (intro is_map_fold_update) (auto simp: add_covered_def keep_wanted_def is_map_update)

lemma fold_add_builtin:
  "is_map xs \<Longrightarrow> map_of (fold (add_builtin db) xs out) d =
     (case map_of out d of Some c \<Rightarrow> Some c | None \<Rightarrow> if db_label db d = None then map_of xs d else None)"
proof (induction xs arbitrary: out)
  case (Cons x xs)
  have "fst x = d \<Longrightarrow> map_of xs d = None" using Cons.prems by (auto simp: map_of_eq_None_iff)
  with Cons show ?case by (cases x) (auto simp: add_builtin_def update_conv' split: option.split)
qed (simp split: option.split)

lemma fold_add_content:
  "is_map xs \<Longrightarrow> map_of (fold (add_content P db bcats) xs out) d =
     (case map_of out d of Some c \<Rightarrow> Some c
      | None \<Rightarrow> (case map_of xs d of None \<Rightarrow> None
         | Some c \<Rightarrow> if c \<in> set bcats \<and> db_label db d = None \<and> \<not> builtin_covers P d then Some c else None))"
proof (induction xs arbitrary: out)
  case (Cons x xs)
  have "fst x = d \<Longrightarrow> map_of xs d = None" using Cons.prems by (auto simp: map_of_eq_None_iff)
  with Cons show ?case by (cases x) (auto simp: add_content_def update_conv' split: option.split)
qed (simp split: option.split)

lemma domains_for_lookup:
  assumes "visits v1" and "visits v2" and "bcats \<noteq> []" and "is_map (vc_content (cz_verdicts cz))"
  shows "map_of (domains_for v1 v2 P db cz bcats) d =
    (case map_of (cz_overrides cz) d of
       Some ov \<Rightarrow> Some (co_category ov)
     | None \<Rightarrow>
         if db_label db d \<noteq> None then None
         else (case map_of builtin d of
             Some c \<Rightarrow> if c \<in> set bcats \<or> covered_by (\<lambda>c. c \<in> set bcats) builtin d then Some c
                       else if builtin_covers P d then None
                       else (case map_of (vc_content (cz_verdicts cz)) d of None \<Rightarrow> None
                          | Some c \<Rightarrow> if c \<in> set bcats then Some c else None)
           | None \<Rightarrow> (case map_of (vc_content (cz_verdicts cz)) d of None \<Rightarrow> None
               | Some c \<Rightarrow> if c \<in> set bcats \<and> \<not> builtin_covers P d then Some c else None)))"
proof -
  let ?o = "map (\<lambda>(d, ov). (d, co_category ov)) (cz_overrides cz)"
  have o: "map_of ?o d = map_option co_category (map_of (cz_overrides cz) d)"
    by (simp add: map_of_map)
  show ?thesis
    unfolding domains_for_def Let_def if_not_P [OF assms(3)]
      fold_add_content [OF assms(4)] fold_add_builtin [OF builtin_domains_map]
      builtin_domains_lookup [OF assms(1,2) builtin_is_map] o
    by (cases "map_of (cz_overrides cz) d"; cases "map_of builtin d"; cases "map_of (vc_content (cz_verdicts cz)) d"; cases "db_label db d")
      simp_all
qed

subsection \<open>The agents block what the control plane labels\<close>

text \<open>A name as the resolver looks it up: lower case, no spaces around it, no dot at its end.\<close>

definition lookup_name :: "string \<Rightarrow> bool" where
  "lookup_name n \<longleftrightarrow> n \<noteq> [] \<and> to_lower n = n \<and> trim_space n = n \<and> \<not> has_suffix n ''.''"

lemma lookup_name_clean:
  "lookup_name n \<Longrightarrow> clean_name n = n" "lookup_name n \<Longrightarrow> builtin_of n = builtin_walk builtin n"
  by (simp_all add: lookup_name_def clean_name_def builtin_of_def trim_suffix_other)

text \<open>
  The registered domain \<open>d\<close> is the only name on the way up from \<open>n\<close> that an operator, the
  built-in table or a verdict says something about, and the database says of \<open>n\<close> what it says of \<open>d\<close>.
\<close>

definition labelled_at :: "suffix_lib \<Rightarrow> holder option \<Rightarrow> categorizer \<Rightarrow> string \<Rightarrow> string \<Rightarrow> bool" where
  "labelled_at P db cz n d \<longleftrightarrow>
     registered_domain P n = d \<and> in_domain n d \<and> lookup_name n \<and> lookup_name d
     \<and> db_label db n = db_label db d
     \<and> list_all (\<lambda>x. x = d \<or> map_of (cz_overrides cz) x = None \<and> map_of builtin x = None
           \<and> map_of (vc_content (cz_verdicts cz)) x = None) (ancestors n)
     \<and> (map_of builtin d = None \<or> hosting_platform P n = [] \<and> hosting_platform P d = [])"

lemma labelled_atD:
  assumes "labelled_at P db cz n d"
  shows "registered_domain P n = d" and "d \<in> set (ancestors n)" and "db_label db n = db_label db d"
    and "\<And>x. x \<in> set (ancestors n) \<Longrightarrow> x \<noteq> d \<Longrightarrow>
      map_of (cz_overrides cz) x = None \<and> map_of builtin x = None \<and> map_of (vc_content (cz_verdicts cz)) x = None"
    and "map_of builtin d \<noteq> None \<Longrightarrow> hosting_platform P n = [] \<and> hosting_platform P d = []"
    and "d \<noteq> []" and "builtin_of n = builtin_walk builtin n" and "builtin_of d = builtin_walk builtin d" and "in_domain n d"
  using assms lookup_name_clean by (auto simp: labelled_at_def list_all_iff set_ancestors lookup_name_def)

lemma labelled_builtin:
  assumes "labelled_at P db cz n d"
  shows "builtin_of n = map_of builtin d" and "builtin_of d = map_of builtin d"
proof -
  note l = labelled_atD [OF assms]
  let ?e = "\<lambda>n. if n = [] then None else map_of builtin n"
  have off: "?e x = None" if "x \<in> set (ancestors n)" "x \<noteq> d" for x
    using l(4) [OF that] by simp
  have sub: "set (ancestors d) \<subseteq> set (ancestors n)"
    using l(9) by (auto simp: set_ancestors intro: in_domain_trans)
  have "builtin_walk builtin n = ?e d"
    unfolding common.walk_first by (rule first_some_only) (use off l(2) in auto)
  moreover have "builtin_walk builtin d = ?e d"
    unfolding common.walk_first by (rule first_some_only) (use off [OF subsetD [OF sub]] set_ancestors in auto)
  ultimately show "builtin_of n = map_of builtin d" "builtin_of d = map_of builtin d"
    using l(6,7,8) by simp_all
qed

lemma labelled_correction:
  assumes "labelled_at P db cz n d" and "visits v1" and "visits v2" and "bcats \<noteq> []"
    and "is_map (vc_content (cz_verdicts cz))"
  shows "correction_walk (domains_for v1 v2 P db cz bcats) n = map_of (domains_for v1 v2 P db cz bcats) d"
proof -
  note l = labelled_atD [OF assms(1)]
  have "map_of (domains_for v1 v2 P db cz bcats) x = None" if "x \<in> set (ancestors n)" "x \<noteq> d" for x
    unfolding domains_for_lookup [OF assms(2-5)] using l(4) [OF that] by simp
  then show ?thesis
    unfolding corrections.walk_first by (rule first_some_only) (use l(2) in auto)
qed

text \<open>
  C20: the agents block by category exactly what the control plane labels so. For a name that is
  labelled at its registered domain, that is not a local name and that no enforced verdict
  blocks, an agent with the corrections of \<open>DomainsFor\<close>, whose database agrees with the control
  plane's on the blocked categories, blocks the name if and only if the label the control plane
  gives it is blocked, and reports that label.
\<close>

theorem agents_block_as_labelled:
  assumes "labelled_at P db cz n d" and "visits v1" and "visits v2"
    and "is_map (vc_content (cz_verdicts cz))"
    and "\<not> is_local_name n" and "text_of (map_of (vc_enforced (cz_verdicts cz)) d) = []"
    and "bcats \<noteq> []" and "[] \<notin> set bcats" and "cat_other \<notin> set bcats"
    and "rt_blocked_cats (r_rt r) = bcats" and "rt_cat_domains (r_rt r) = domains_for v1 v2 P db cz bcats"
    and "\<forall>c\<in>set bcats. Option.bind (r_cat_db r) (\<lambda>h. holder_lookup h n) = Some c \<longleftrightarrow> db_label db n = Some c"
  shows "(snd (blocked_category r n) \<longleftrightarrow> fst (category_of P db cz n) \<in> set bcats)
    \<and> (snd (blocked_category r n) \<longrightarrow> fst (blocked_category r n) = fst (category_of P db cz n))"
proof -
  note l = labelled_atD [OF assms(1)] and b = labelled_builtin [OF assms(1)]
  let ?A = "domains_for v1 v2 P db cz bcats"
  let ?up = "Option.bind (r_cat_db r) (\<lambda>h. holder_lookup h n)"
  have walk: "(if ?A = [] then None else correction_walk ?A n) = map_of ?A d"
    using labelled_correction [OF assms(1,2,3,7,4)] by simp
  have agent: "blocked_category r n = (case map_of ?A d of
      Some c \<Rightarrow> (c, c \<in> set bcats)
    | None \<Rightarrow> (case ?up of Some c \<Rightarrow> if c \<in> set bcats then (c, True) else ([], False) | None \<Rightarrow> ([], False)))"
    unfolding blocked_category_def Let_def assms(10,11) walk using assms(7) by simp
  have plane: "category_of P db cz n = (case map_of (cz_overrides cz) d of
      Some ov \<Rightarrow> (co_category ov, Src_Override)
    | None \<Rightarrow> (case db_label db n of Some c \<Rightarrow> (c, Src_Database)
      | None \<Rightarrow> (case map_of builtin d of Some c \<Rightarrow> (c, Src_Builtin)
        | None \<Rightarrow> (let says = text_of (map_of (vc_content (cz_verdicts cz)) d) in
             if says \<noteq> [] \<and> says \<noteq> cat_other then (says, Src_Model) else (cat_other, Src_None)))))"
    using assms(5,6) l(1,5) b by (auto simp: category_of_def Let_def split: option.split)
  have up: "(\<exists>c\<in>set bcats. ?up = Some c) = False" if "db_label db n = None"
    using assms(12) that by auto
  show ?thesis
  proof (cases "map_of (cz_overrides cz) d")
    case (Some ov)
    then show ?thesis unfolding agent plane domains_for_lookup [OF assms(2,3,7,4)] by simp
  next
    case None
    show ?thesis
    proof (cases "db_label db n")
      case (Some c)
      then have "map_of ?A d = None"
        unfolding domains_for_lookup [OF assms(2,3,7,4)] using None l(3) by simp
      then show ?thesis unfolding agent plane using None Some assms(12) by (auto split: option.split)
    next
      case nodb: None
      then have d: "db_label db d = None" using l(3) by simp
      have up': "(case ?up of Some c \<Rightarrow> if c \<in> set bcats then (c, True) else ([], False) | None \<Rightarrow> ([], False)) = ([], False)"
        using up [OF nodb] by (auto split: option.split)
      show ?thesis unfolding agent plane up' domains_for_lookup [OF assms(2,3,7,4)]
        using None nodb d l(5) b assms(8,9)
        by (cases "map_of builtin d"; cases "map_of (vc_content (cz_verdicts cz)) d")
          (auto simp: builtin_covers_def text_of_def Let_def)
    qed
  qed
qed

definition demo_labels :: categorizer where
  "demo_labels = \<lparr>cz_overrides = [], cz_verdicts = \<lparr>vc_enforced = [], vc_content = [(''play.site'', ''gaming'')]\<rparr>\<rparr>"

definition demo_suffixes :: suffix_lib where
  "demo_suffixes = \<lparr>public_suffix = (\<lambda>n. (last_label n, True)), etld_plus_one = (\<lambda>n. Some ''play.site'')\<rparr>"

lemma builtin_absent: "list_all (\<lambda>p. fst p \<noteq> n) builtin \<Longrightarrow> map_of builtin n = None"
  by (auto simp: map_of_eq_None_iff list_all_iff)

lemma demo_unlisted:
  "map_of builtin ''www.play.site'' = None" "map_of builtin ''play.site'' = None" "map_of builtin ''site'' = None"
  by (rule builtin_absent, simp add: builtin_def)+

theorem agents_block_as_labelled_witness:
  "blocked_category (demo_node\<lparr>r_rt := empty_runtime\<lparr>rt_blocked_cats := [''gaming''],
      rt_cat_domains := domains_for (\<lambda>m. m) (\<lambda>m. m) demo_suffixes None demo_labels [''gaming'']\<rparr>, r_cat_db := None\<rparr>)
     ''www.play.site'' = (''gaming'', True)"
proof -
  let ?r = "demo_node\<lparr>r_rt := empty_runtime\<lparr>rt_blocked_cats := [''gaming''],
      rt_cat_domains := domains_for (\<lambda>m. m) (\<lambda>m. m) demo_suffixes None demo_labels [''gaming'']\<rparr>, r_cat_db := None\<rparr>"
  have path: "ancestors ''www.play.site'' = [''www.play.site'', ''play.site'', ''site'']"
    and reg: "registered_domain demo_suffixes ''www.play.site'' = ''play.site''"
    and dom: "in_domain ''www.play.site'' ''play.site''"
    and nice: "lookup_name ''www.play.site''" "lookup_name ''play.site''"
    by code_simp+
  then have at: "labelled_at demo_suffixes None demo_labels ''www.play.site'' ''play.site''"
    using demo_unlisted by (simp add: labelled_at_def demo_labels_def db_label_def)
  have im: "is_map (vc_content (cz_verdicts demo_labels))" by (simp add: demo_labels_def)
  have names: "\<not> is_local_name ''www.play.site''" by code_simp
  have enf: "text_of (map_of (vc_enforced (cz_verdicts demo_labels)) ''play.site'') = []"
    by (simp add: demo_labels_def text_of_def)
  have "builtin_of ''www.play.site'' = None"
    using labelled_builtin(1) [OF at] demo_unlisted by simp
  then have label: "fst (category_of demo_suffixes None demo_labels ''www.play.site'') = ''gaming''"
    using names reg by (simp add: category_of_def Let_def demo_labels_def text_of_def db_label_def cat_other_def)
  have "(snd (blocked_category ?r ''www.play.site'') \<longleftrightarrow> ''gaming'' \<in> set [''gaming''])
      \<and> (snd (blocked_category ?r ''www.play.site'') \<longrightarrow> fst (blocked_category ?r ''www.play.site'') = ''gaming'')"
    using agents_block_as_labelled [OF at visits_id visits_id im names enf, of "[''gaming'']" ?r] label
    by (simp add: db_label_def cat_other_def)
  then show ?thesis by (simp add: prod_eq_iff)
qed

subsection \<open>Where the agents block something else\<close>

text \<open>
  An override of google.com into a category that is not blocked does not exempt mail.google.com:
  the built-in entry of the subdomain is sent too, and the agent meets it first. The control
  plane labels the name by the override.
\<close>

theorem override_leaves_subdomain_blocked:
  assumes "visits v1" and "visits v2" and "registered_domain P ''mail.google.com'' = ''google.com''"
    and "cz = \<lparr>cz_overrides = [(''google.com'', ov)], cz_verdicts = \<lparr>vc_enforced = [], vc_content = []\<rparr>\<rparr>"
    and "rt_blocked_cats (r_rt r) = [''email'']"
    and "rt_cat_domains (r_rt r) = domains_for v1 v2 P None cz [''email'']"
  shows "category_of P None cz ''mail.google.com'' = (co_category ov, Src_Override)
    \<and> blocked_category r ''mail.google.com'' = (''email'', True)"
proof -
  have "map_of builtin ''mail.google.com'' = Some ''email''"
    by (rule map_of_is_SomeI [OF builtin_is_map]) (simp add: builtin_def)
  then have "map_of (rt_cat_domains (r_rt r)) ''mail.google.com'' = Some ''email''"
    using assms(4) by (simp add: assms(6) domains_for_lookup [OF assms(1,2)] db_label_def)
  then have "correction_walk (rt_cat_domains (r_rt r)) ''mail.google.com'' = Some ''email''"
    "rt_cat_domains (r_rt r) \<noteq> []"
    by (auto intro: corrections.walk_exact)
  then have "blocked_category r ''mail.google.com'' = (''email'', True)"
    using assms(5) by (simp add: blocked_category_def)
  moreover have "category_of P None cz ''mail.google.com'' = (co_category ov, Src_Override)"
    using assms(3,4) by (simp add: category_of_def Let_def)
  ultimately show ?thesis by simp
qed

text \<open>
  A customer's name on a hosting platform that the model labels in a category that is not
  blocked is still blocked by the agents as the platform, if the platform's category is.
\<close>

theorem platform_label_blocks_customer:
  assumes "visits v1" and "visits v2" and "registered_domain P ''games.myshopify.com'' = ''games.myshopify.com''"
    and "hosting_platform P ''games.myshopify.com'' = ''myshopify.com''"
    and "cz = \<lparr>cz_overrides = [], cz_verdicts = \<lparr>vc_enforced = [], vc_content = [(''games.myshopify.com'', ''gaming'')]\<rparr>\<rparr>"
    and "rt_blocked_cats (r_rt r) = [''shopping'']"
    and "rt_cat_domains (r_rt r) = domains_for v1 v2 P None cz [''shopping'']"
  shows "category_of P None cz ''games.myshopify.com'' = (''gaming'', Src_Model)
    \<and> blocked_category r ''games.myshopify.com'' = (''shopping'', True)"
proof -
  let ?n = "''games.myshopify.com''" and ?p = "''myshopify.com''" and ?A = "rt_cat_domains (r_rt r)"
  have up: "parent_name ?n = Some ?p" "\<not> is_local_name ?n" "trim_suffix (to_lower (trim_space ?n)) ''.'' = ?n"
    by code_simp+
  have l: "map_of builtin ?n = None" by (rule builtin_absent) (simp add: builtin_def)
  have p: "map_of builtin ?p = Some ''shopping''"
    by (rule map_of_is_SomeI [OF builtin_is_map]) (simp add: builtin_def)
  have "builtin_walk builtin ?n = Some ''shopping''"
    using common.walk_step [where m = builtin and n = ?n] common.walk_exact [where m = builtin and n = ?p] l p up(1) by simp
  then have "builtin_of ?n = Some ''shopping''" by (simp add: builtin_of_def up(3))
  note b = l p this up(2)
  have "map_of ?A ?n = None" "map_of ?A ?p = Some ''shopping''"
    using assms(5) b by (simp_all add: assms(7) domains_for_lookup [OF assms(1,2)] db_label_def)
  with up(1) have "correction_walk ?A ?n = Some ''shopping''" "?A \<noteq> []"
    using corrections.walk_step [of ?A ?n] corrections.walk_exact [of ?A ?p] by auto
  then have "blocked_category r ?n = (''shopping'', True)"
    using assms(6) by (simp add: blocked_category_def)
  moreover have "category_of P None cz ?n = (''gaming'', Src_Model)"
    using assms(3,4,5) b by (simp add: category_of_def Let_def text_of_def db_label_def cat_other_def)
  ultimately show ?thesis by simp
qed

text \<open>
  A subdomain the database has in a category that is not blocked is blocked by the agents when
  the model labels its registered domain in one that is.
\<close>

theorem model_label_hides_database:
  assumes "visits v1" and "visits v2" and "is_map (vc_content (cz_verdicts cz))" and "bcats \<noteq> []"
    and "registered_domain P n = d" and "parent_name n = Some d" and "\<not> is_local_name n"
    and "map_of (cz_overrides cz) d = None" and "map_of (vc_enforced (cz_verdicts cz)) d = None"
    and "db_label db n = Some c" and "c \<notin> set bcats" and "db_label db d = None"
    and "map_of (vc_content (cz_verdicts cz)) d = Some m" and "m \<in> set bcats"
    and "map_of builtin d = None" and "\<not> builtin_covers P d"
    and "map_of (domains_for v1 v2 P db cz bcats) n = None"
    and "rt_blocked_cats (r_rt r) = bcats" and "rt_cat_domains (r_rt r) = domains_for v1 v2 P db cz bcats"
  shows "category_of P db cz n = (c, Src_Database) \<and> blocked_category r n = (m, True)"
proof -
  let ?A = "rt_cat_domains (r_rt r)"
  have "map_of ?A d = Some m"
    using assms by (simp add: domains_for_lookup [OF assms(1,2,4,3)])
  then have "correction_walk ?A n = Some m" "?A \<noteq> []"
    using corrections.walk_step [of ?A n] corrections.walk_exact [of ?A d] assms(6,17,19) by auto
  then show ?thesis
    using assms by (simp add: blocked_category_def category_of_def Let_def text_of_def)
qed

subsection \<open>The table of overrides\<close>

text \<open>An override is looked up as it was last set, for every name of its registered domain, until it is removed.\<close>

lemma category_overrides_lookup:
  "distinct (map co_domain t) \<Longrightarrow> map_of (category_overrides t) d = List.find (\<lambda>ov. co_domain ov = d) t"
proof (induction t rule: rev_induct)
  case (snoc x t)
  have "List.find (\<lambda>ov. co_domain ov = d) t = None" if "co_domain x = d"
    using snoc.prems that by (auto simp: find_None_iff) (metis imageI)
  moreover have "List.find p (xs @ [y]) = (case List.find p xs of Some z \<Rightarrow> Some z | None \<Rightarrow> if p y then Some y else None)"
    for p :: "category_override \<Rightarrow> bool" and xs y by (induction xs) auto
  ultimately show ?case
    using snoc by (auto simp: category_overrides_def update_conv' split: option.split)
qed (simp add: category_overrides_def)

end
