(* ===== verification/Query_Rollups.thy ===== *)
theory Query_Rollups
  imports Node_Registry Complex_Main
begin

section \<open>The query log and its rollups (internal/store: querylog.go, rollup.go, stats.go, categories.go, privacy.go)\<close>

text \<open>
  The control plane's log of queries and the four tables that count it by minute or hour. An
  aggregating statement is \<open>group_by\<close> over the rows its WHERE clause keeps; the order of groups
  that SQL leaves open is an argument where it shows. Latencies are real numbers. A table of
  counts is a list of keys with a count and a sum.
\<close>

subsection \<open>Rows\<close>

record query_entry =
  qe_id :: int
  qe_ts :: int
  qe_client :: string
  qe_name :: string
  qe_qtype :: string
  qe_action :: string
  qe_category :: string
  qe_rcode :: string
  qe_elapsed :: real
  qe_node :: string
  qe_content :: string
  qe_upstream :: string
  qe_forwarder :: string

type_synonym ('k, 'v) counts = "('k \<times> int \<times> 'v) list"

record stats_db =
  sd_log :: "query_entry list"
  sd_seq :: int
  sd_cursor :: int
  sd_query :: "(int \<times> string \<times> string, real) counts"
  sd_client :: "(int \<times> string \<times> string, int) counts"
  sd_category :: "(int \<times> string \<times> string, int) counts"
  sd_upstream :: "(int \<times> string \<times> string \<times> string, real) counts"

definition empty_stats :: stats_db where
  "empty_stats = \<lparr>sd_log = [], sd_seq = 0, sd_cursor = 0, sd_query = [], sd_client = [], sd_category = [], sd_upstream = []\<rparr>"

text \<open>Integer division of SQL truncates.\<close>

definition sql_div :: "int \<Rightarrow> int \<Rightarrow> int" where
  [model]: "sql_div a b = (if a < 0 then - ((- a) div b) else a div b)"

definition group_by :: "('r \<Rightarrow> 'k) \<Rightarrow> ('r list \<Rightarrow> 'a) \<Rightarrow> 'r list \<Rightarrow> ('k \<times> 'a) list" where
  "group_by key agg rows = map (\<lambda>k. (k, agg (filter (\<lambda>r. key r = k) rows))) (remdups (map key rows))"

definition count_sum :: "('r \<Rightarrow> 'v :: comm_monoid_add) \<Rightarrow> 'r list \<Rightarrow> int \<times> 'v" where
  "count_sum wt rows = (int (length rows), sum_list (map wt rows))"

text \<open>The upsert of every rollup: \<open>cnt = cnt + excluded.cnt\<close>, and the sum alike.\<close>

definition add_count :: "'k \<times> int \<times> 'v :: comm_monoid_add \<Rightarrow> ('k, 'v) counts \<Rightarrow> ('k, 'v) counts" where
  [model]: "add_count e t =
     (case e of (k, n, v) \<Rightarrow> (case map_of t k of
        None \<Rightarrow> t @ [(k, n, v)]
      | Some (m, w) \<Rightarrow> AList.update k (m + n, w + v) t))"

definition fold_rows ::
    "('r \<Rightarrow> 'k) \<Rightarrow> ('r \<Rightarrow> 'v :: comm_monoid_add) \<Rightarrow> 'r list \<Rightarrow> ('k, 'v) counts \<Rightarrow> ('k, 'v) counts" where
  [model]: "fold_rows key wt rows t = fold add_count (group_by key (count_sum wt) rows) t"

subsection \<open>Writing the log\<close>

text \<open>\<open>InsertNodeQueryLog\<close>, and \<open>InsertQueryLogBatch\<close> (an own entry has no node and no label).\<close>

fun number_entries :: "int \<Rightarrow> query_entry list \<Rightarrow> query_entry list" where
  "number_entries i [] = []"
| "number_entries i (e # es) = e\<lparr>qe_id := i + 1\<rparr> # number_entries (i + 1) es"

definition insert_node_query_log :: "string \<Rightarrow> query_entry list \<Rightarrow> stats_db \<Rightarrow> stats_db" where
  [model]: "insert_node_query_log node es db =
     db\<lparr>sd_log := sd_log db @ number_entries (sd_seq db) (map (\<lambda>e. e\<lparr>qe_node := node\<rparr>) es),
        sd_seq := sd_seq db + int (length es)\<rparr>"

definition insert_query_log_batch :: "query_entry list \<Rightarrow> stats_db \<Rightarrow> stats_db" where
  [model]: "insert_query_log_batch es db =
     insert_node_query_log [] (map (\<lambda>e. e\<lparr>qe_content := []\<rparr>) es) db"

definition max_log_id :: "stats_db \<Rightarrow> int" where
  [model]: "max_log_id db = foldr max (map qe_id (sd_log db)) 0"

definition prune_query_log :: "int \<Rightarrow> stats_db \<Rightarrow> int \<times> stats_db" where
  [model]: "prune_query_log before db =
     (int (length (filter (\<lambda>e. qe_ts e < before) (sd_log db))),
      db\<lparr>sd_log := filter (\<lambda>e. \<not> qe_ts e < before) (sd_log db)\<rparr>)"

definition delete_rolled_up :: "int \<Rightarrow> stats_db \<Rightarrow> int \<times> stats_db" where
  [model]: "delete_rolled_up before db =
     (let p = (\<lambda>e. qe_ts e < before \<and> qe_id e \<le> sd_cursor db) in
      (int (length (filter p (sd_log db))), db\<lparr>sd_log := filter (\<lambda>e. \<not> p e) (sd_log db)\<rparr>))"

definition count_query_log :: "stats_db \<Rightarrow> int" where
  [model]: "count_query_log db = int (length (sd_log db))"

subsection \<open>The rollups\<close>

definition minute_of :: "query_entry \<Rightarrow> int" where "minute_of e = sql_div (qe_ts e) 60000"
definition hour_of :: "query_entry \<Rightarrow> int" where "hour_of e = sql_div (qe_ts e) 3600000"
definition is_blocked :: "query_entry \<Rightarrow> int" where "is_blocked e = (if qe_action e = ''blocked'' then 1 else 0)"

definition query_key :: "query_entry \<Rightarrow> int \<times> string \<times> string" where
  "query_key e = (minute_of e, qe_node e, qe_action e)"
definition client_key :: "query_entry \<Rightarrow> int \<times> string \<times> string" where
  "client_key e = (hour_of e, qe_node e, qe_client e)"
definition category_key :: "query_entry \<Rightarrow> int \<times> string \<times> string" where
  "category_key e = (hour_of e, qe_node e, qe_content e)"
definition upstream_key :: "query_entry \<Rightarrow> int \<times> string \<times> string \<times> string" where
  "upstream_key e = (minute_of e, qe_node e, qe_forwarder e, qe_upstream e)"

definition rollup_statements :: "query_entry list \<Rightarrow> stats_db \<Rightarrow> stats_db" where
  [model]: "rollup_statements new db = db\<lparr>
     sd_query := fold_rows query_key qe_elapsed new (sd_query db),
     sd_client := fold_rows client_key is_blocked (filter (\<lambda>e. qe_client e \<noteq> []) new) (sd_client db),
     sd_category := fold_rows category_key is_blocked (filter (\<lambda>e. qe_content e \<noteq> []) new) (sd_category db),
     sd_upstream := fold_rows upstream_key qe_elapsed (filter (\<lambda>e. qe_action e = ''forward'') new) (sd_upstream db)\<rparr>"

definition rollup_advance :: "int \<Rightarrow> stats_db \<Rightarrow> bool \<times> stats_db" where
  [model]: "rollup_advance batch db =
     (let batch = (if batch \<le> 0 then 50000 else batch); top = max_log_id db in
      if top \<le> sd_cursor db then (False, db)
      else (let upto = min (sd_cursor db + batch) top;
                new = filter (\<lambda>e. sd_cursor db < qe_id e \<and> qe_id e \<le> upto) (sd_log db) in
            (upto < top, (rollup_statements new db)\<lparr>sd_cursor := upto\<rparr>)))"

definition prune_rollups :: "int \<Rightarrow> stats_db \<Rightarrow> stats_db" where
  [model]: "prune_rollups before db = db\<lparr>
     sd_query := filter (\<lambda>(k, _). \<not> fst k < sql_div before 60000) (sd_query db),
     sd_category := filter (\<lambda>(k, _). \<not> fst k < sql_div before 3600000) (sd_category db),
     sd_upstream := filter (\<lambda>(k, _). \<not> fst k < sql_div before 60000) (sd_upstream db),
     sd_client := filter (\<lambda>(k, _). \<not> fst k < sql_div before 3600000) (sd_client db)\<rparr>"

subsection \<open>Renaming a node\<close>

text \<open>One rollup under a rename: the rows of the old name are added to those of the new one, then dropped.\<close>

definition moved_rows :: "string \<Rightarrow> string \<Rightarrow> (int \<times> string \<times> 'c, 'v) counts \<Rightarrow> (int \<times> string \<times> 'c, 'v) counts" where
  [model]: "moved_rows old new t = map (\<lambda>((b, n, c), e). ((b, new, c), e)) (filter (\<lambda>((b, n, c), _). n = old) t)"

definition merge_node :: "string \<Rightarrow> string \<Rightarrow> (int \<times> string \<times> 'c, 'v :: comm_monoid_add) counts
    \<Rightarrow> (int \<times> string \<times> 'c, 'v) counts" where
  [model]: "merge_node old new t =
     filter (\<lambda>((b, n, c), _). n \<noteq> old) (fold add_count (moved_rows old new t) t)"

definition rename_history :: "string \<Rightarrow> string \<Rightarrow> stats_db \<Rightarrow> stats_db" where
  [model]: "rename_history old new db = db\<lparr>
     sd_log := map (\<lambda>e. if qe_node e = old then e\<lparr>qe_node := new\<rparr> else e) (sd_log db),
     sd_query := merge_node old new (sd_query db),
     sd_client := merge_node old new (sd_client db),
     sd_category := merge_node old new (sd_category db),
     sd_upstream := merge_node old new (sd_upstream db)\<rparr>"

datatype rename_error = Rename_Name_Required | Rename_Not_Found | Rename_In_Use

definition rename_node ::
    "string \<Rightarrow> string \<Rightarrow> registry \<times> stats_db \<Rightarrow> (rename_error option) \<times> registry \<times> stats_db" where
  [model]: "rename_node i new_name st =
     (let (reg, db) = st; new_name = trim_space new_name in
      if new_name = [] then (Some Rename_Name_Required, st)
      else case List.find (\<lambda>n. n_id n = i) (reg_nodes reg) of
          None \<Rightarrow> (Some Rename_Not_Found, st)
        | Some n \<Rightarrow>
            if n_name n = new_name then (None, st)
            else if list_ex (\<lambda>m. n_name m = new_name \<and> n_id m \<noteq> i) (reg_nodes reg) then (Some Rename_In_Use, st)
            else (None, reg\<lparr>reg_nodes := map (\<lambda>m. if n_id m = i then m\<lparr>n_name := new_name\<rparr> else m) (reg_nodes reg)\<rparr>,
                  rename_history (n_name n) new_name db))"

subsection \<open>Labels that arrive late (categories.go)\<close>

text \<open>\<open>OtherQueries\<close>: a page of rows still labelled other, newest first.\<close>

definition other_queries :: "int \<Rightarrow> int \<Rightarrow> int \<Rightarrow> nat \<Rightarrow> stats_db \<Rightarrow> query_entry list" where
  [model]: "other_queries since before_ts before_id limit db =
     take limit (sort_key (\<lambda>e. - qe_ts e) (sort_key (\<lambda>e. - qe_id e)
       (filter (\<lambda>e. qe_content e = ''other'' \<and> since \<le> qe_ts e
          \<and> (before_id \<le> 0 \<or> qe_ts e < before_ts \<or> qe_ts e = before_ts \<and> qe_id e < before_id)) (sd_log db))))"

definition relabel_chunk :: nat where [model]: "relabel_chunk = 500"

function chunked :: "nat \<Rightarrow> 'a list \<Rightarrow> 'a list list" where
  "chunked n xs = (if xs = [] \<or> n = 0 then [] else take n xs # chunked n (drop n xs))"
  by pat_completeness auto
termination
  by (relation "measure (\<lambda>(n, xs). length xs)") auto

declare chunked.simps [simp del]

text \<open>Rows by their new category; the locals of the loop are the counts to move and the rows moved.\<close>

definition by_category :: "(int \<times> string) list \<Rightarrow> (string \<times> int list) list" where
  [model]: "by_category labels =
     fold (\<lambda>(i, c) m. if c \<noteq> [] \<and> c \<noteq> ''other''
             then AList.update c ((case map_of m c of None \<Rightarrow> [] | Some is \<Rightarrow> is) @ [i]) m else m) labels []"

definition chunk_moves :: "int \<Rightarrow> string \<Rightarrow> int list \<Rightarrow> query_entry list \<Rightarrow> ((int \<times> string \<times> string) \<times> int \<times> int) list" where
  [model]: "chunk_moves cursor cat ids rows =
     concat (map (\<lambda>((hour, node), n, b). [((hour, node, ''other''), - n, - b), ((hour, node, cat), n, b)])
       (group_by (\<lambda>e. (hour_of e, qe_node e)) (count_sum is_blocked)
          (filter (\<lambda>e. qe_content e = ''other'' \<and> qe_id e \<in> set ids \<and> qe_id e \<le> cursor) rows)))"

definition relabel_rows :: "string \<Rightarrow> int list \<Rightarrow> query_entry list \<Rightarrow> query_entry list" where
  [model]: "relabel_rows cat ids rows =
     map (\<lambda>e. if qe_content e = ''other'' \<and> qe_id e \<in> set ids then e\<lparr>qe_content := cat\<rparr> else e) rows"

definition move_chunk :: "int \<Rightarrow> string \<times> int list
    \<Rightarrow> (int \<times> string \<times> string, int) counts \<times> int \<times> query_entry list
    \<Rightarrow> (int \<times> string \<times> string, int) counts \<times> int \<times> query_entry list" where
  [model]: "move_chunk cursor job st =
     (let (cat, ids) = job; (deltas, moved, rows) = st in
      (fold add_count (chunk_moves cursor cat ids rows) deltas,
       moved + int (length (filter (\<lambda>e. qe_content e = ''other'' \<and> qe_id e \<in> set ids) rows)),
       relabel_rows cat ids rows))"

text \<open>\<open>visit\<close> is the order in which the categories are visited.\<close>

definition relabel_content ::
    "((string \<times> int list) list \<Rightarrow> (string \<times> int list) list) \<Rightarrow> (int \<times> string) list \<Rightarrow> stats_db \<Rightarrow> int \<times> stats_db" where
  [model]: "relabel_content visit labels db =
     (if labels = [] then (0, db)
      else (let jobs = concat (map (\<lambda>(c, ids). map (Pair c) (chunked relabel_chunk ids)) (visit (by_category labels)));
                (deltas, moved, rows) = fold (move_chunk (sd_cursor db)) jobs ([], 0, sd_log db);
                t = fold add_count (filter (\<lambda>(_, n, _). n \<noteq> 0) deltas) (sd_category db) in
            (moved, db\<lparr>sd_log := rows,
               sd_category := filter (\<lambda>((_, _, c), n, _). \<not> (c = ''other'' \<and> n \<le> 0)) t\<rparr>)))"

subsection \<open>Tables of counts\<close>

text \<open>What a table should hold for the rows \<open>rows\<close>: the keys that occur, with their counts and sums.\<close>

definition tally :: "('r \<Rightarrow> 'k) \<Rightarrow> ('r \<Rightarrow> 'v :: comm_monoid_add) \<Rightarrow> 'r list \<Rightarrow> 'k \<Rightarrow> (int \<times> 'v) option" where
  "tally key wt rows k =
     (let g = filter (\<lambda>r. key r = k) rows in if g = [] then None else Some (count_sum wt g))"

text \<open>A table as the sum of its entries: a missing key counts nothing.\<close>

definition count_at :: "('k, 'v) counts \<Rightarrow> 'k \<Rightarrow> int" where
  "count_at t k = (case map_of t k of None \<Rightarrow> 0 | Some (n, v) \<Rightarrow> n)"

definition sum_at :: "('k, 'v :: comm_monoid_add) counts \<Rightarrow> 'k \<Rightarrow> 'v" where
  "sum_at t k = (case map_of t k of None \<Rightarrow> 0 | Some (n, v) \<Rightarrow> v)"

lemma add_count_map: "is_map t \<Longrightarrow> is_map (add_count e t)"
  by (cases e) (auto simp: add_count_def is_map_update map_of_eq_None_iff split: option.split)

lemma add_count_at:
  "count_at (add_count (k, n, v) t) x = count_at t x + (if x = k then n else 0)"
  "sum_at (add_count (k, n, v) t) x = sum_at t x + (if x = k then v else 0)"
  "dom (map_of (add_count (k, n, v) t)) = insert k (dom (map_of t))"
  by (auto simp: add_count_def count_at_def sum_at_def update_conv' map_add_def dom_def split: option.splits prod.splits if_splits)

lemma fold_add_map: "is_map t \<Longrightarrow> is_map (fold add_count es t)"
  by (induction es arbitrary: t) (auto simp: add_count_map)

lemma fold_add_at:
  "count_at (fold add_count es t) x = count_at t x + (\<Sum>(k, n, v)\<leftarrow>es. if x = k then n else 0)"
  "sum_at (fold add_count es t) x = sum_at t x + (\<Sum>(k, n, v)\<leftarrow>es. if x = k then v else 0)"
  "dom (map_of (fold add_count es t)) = fst ` set es \<union> dom (map_of t)"
proof (induction es arbitrary: t)
  case (Cons e es)
  obtain k n v where e: "e = (k, n, v)" by (metis prod_cases3)
  case 1 then show ?case by (simp add: e add_count_at Cons.IH(1))
  case 2 then show ?case by (simp add: e add_count_at Cons.IH(2) add.assoc)
  case 3 then show ?case by (simp add: e add_count_at Cons.IH(3))
qed simp_all

lemma tally_at:
  assumes "is_map t"
  shows "map_of t = tally key wt rows \<longleftrightarrow>
    (\<forall>k. count_at t k = fst (count_sum wt (filter (\<lambda>r. key r = k) rows))
       \<and> sum_at t k = snd (count_sum wt (filter (\<lambda>r. key r = k) rows))) \<and> dom (map_of t) = key ` set rows"
  (is "?l \<longleftrightarrow> ?r")
proof
  assume ?l
  then have "\<And>k. map_of t k = tally key wt rows k" by simp
  moreover have "dom (tally key wt rows) = key ` set rows"
    by (auto simp: dom_def tally_def Let_def filter_empty_conv)
  ultimately show ?r
    using \<open>?l\<close> by (auto simp: count_at_def sum_at_def tally_def count_sum_def Let_def)
next
  assume r: ?r
  have "map_of t k = tally key wt rows k" for k
  proof (cases "k \<in> key ` set rows")
    case True
    with r obtain n v where "map_of t k = Some (n, v)" by (metis domD old.prod.exhaust)
    moreover have "filter (\<lambda>r. key r = k) rows \<noteq> []" using True by (auto simp: filter_empty_conv)
    ultimately show ?thesis
      using r [THEN conjunct1, rule_format, of k] by (auto simp: count_at_def sum_at_def tally_def Let_def prod_eq_iff)
  next
    case False
    then have "filter (\<lambda>r. key r = k) rows = []" by (auto simp: filter_empty_conv)
    moreover have "map_of t k = None" using False r by blast
    ultimately show ?thesis by (simp add: tally_def)
  qed
  then show ?l by blast
qed

lemma group_by_map: "is_map (group_by key agg rows)"
  by (simp add: group_by_def comp_def)

lemma group_by_sum:
  "(\<Sum>(k, a)\<leftarrow>group_by key agg rows. if x = k then f a else 0) =
     (if x \<in> key ` set rows then f (agg (filter (\<lambda>r. key r = x) rows)) else (0 :: 'a :: comm_monoid_add))"
proof -
  have "(\<Sum>k\<leftarrow>ks. if x = k then g k else 0) = (if x \<in> set ks then g x else 0)" if "distinct ks"
    for ks and g :: "_ \<Rightarrow> 'a"
    using that by (induction ks) auto
  from this [of "remdups (map key rows)" "\<lambda>k. f (agg (filter (\<lambda>r. key r = k) rows))"] show ?thesis
    by (simp add: group_by_def comp_def)
qed

lemma fold_rows_at:
  "count_at (fold_rows key wt rows t) x = count_at t x + fst (count_sum wt (filter (\<lambda>r. key r = x) rows))"
  "sum_at (fold_rows key wt rows t) x = sum_at t x + snd (count_sum wt (filter (\<lambda>r. key r = x) rows))"
  "dom (map_of (fold_rows key wt rows t)) = key ` set rows \<union> dom (map_of t)"
proof -
  have e: "x \<notin> key ` set rows \<Longrightarrow> filter (\<lambda>r. key r = x) rows = []" by (auto simp: filter_empty_conv)
  show "count_at (fold_rows key wt rows t) x = count_at t x + fst (count_sum wt (filter (\<lambda>r. key r = x) rows))"
    using group_by_sum [of x fst key "count_sum wt" rows] e
    by (simp add: fold_rows_def fold_add_at split_def count_sum_def)
  show "sum_at (fold_rows key wt rows t) x = sum_at t x + snd (count_sum wt (filter (\<lambda>r. key r = x) rows))"
    using group_by_sum [of x snd key "count_sum wt" rows] e
    by (simp add: fold_rows_def fold_add_at split_def count_sum_def)
  show "dom (map_of (fold_rows key wt rows t)) = key ` set rows \<union> dom (map_of t)"
    by (simp add: fold_rows_def fold_add_at group_by_def image_image)
qed

lemma fold_rows_map: "is_map t \<Longrightarrow> is_map (fold_rows key wt rows t)"
  by (simp add: fold_rows_def fold_add_map)

lemma fold_rows_tally:
  assumes "is_map t" and "map_of t = tally key wt old"
  shows "map_of (fold_rows key wt rows t) = tally key wt (old @ rows)"
  using assms(2)
  unfolding tally_at [OF assms(1)] tally_at [OF fold_rows_map [OF assms(1)]]
  by (auto simp: fold_rows_at count_sum_def)

end
