(* ===== verification/Rollup_Facts.thy ===== *)
theory Rollup_Facts
  imports Query_Rollups
begin

section \<open>What the rollups count\<close>

text \<open>
  Every row of the query log is counted once, in each of the four tables, and the tables follow
  what happens to the rows afterwards: a node is renamed, a row gets its category late, old
  rows and old counts are dropped.
\<close>

subsection \<open>Renaming\<close>

definition renamed :: "string \<Rightarrow> string \<Rightarrow> query_entry \<Rightarrow> query_entry" where
  "renamed old new e = (if qe_node e = old then e\<lparr>qe_node := new\<rparr> else e)"

lemma map_of_kept: "map_of (filter (\<lambda>(k, _). p k) t) = (\<lambda>k. if p k then map_of t k else None)"
  by (induction t) auto

lemma merge_sum:
  assumes "is_map t"
  shows "(\<Sum>(k, n, v)\<leftarrow>moved_rows old new t. if (x, nd, y) = k then f n v else (0 :: 'a :: comm_monoid_add)) =
     (if nd = new then (case map_of t (x, old, y) of None \<Rightarrow> 0 | Some (n, v) \<Rightarrow> f n v) else 0)"
  using assms
proof (induction t)
  case (Cons e t)
  obtain b m c n v where e: "e = ((b, m, c), n, v)" by (metis prod.collapse)
  have "map_of t (b, m, c) = None" using Cons.prems by (auto simp: e map_of_eq_None_iff)
  with Cons show ?case by (auto simp: e moved_rows_def split: option.split)
qed (simp add: moved_rows_def)

lemma merge_node_at:
  assumes "is_map t" and "old \<noteq> new"
  shows "count_at (merge_node old new t) (x, nd, y) =
      (if nd = old then 0 else count_at t (x, nd, y) + (if nd = new then count_at t (x, old, y) else 0))"
    and "sum_at (merge_node old new t) (x, nd, y) =
      (if nd = old then 0 else sum_at t (x, nd, y) + (if nd = new then sum_at t (x, old, y) else 0))"
    and "(x, nd, y) \<in> dom (map_of (merge_node old new t)) \<longleftrightarrow>
      nd \<noteq> old \<and> ((x, nd, y) \<in> dom (map_of t) \<or> nd = new \<and> (x, old, y) \<in> dom (map_of t))"
proof -
  let ?es = "moved_rows old new t"
  have look: "map_of (merge_node old new t) (x, nd, y) =
      (if nd = old then None else map_of (fold add_count ?es t) (x, nd, y))"
    using map_of_kept [of "\<lambda>(b, n, c). n \<noteq> old" "fold add_count ?es t"]
    by (simp add: merge_node_def split_def)
  have c: "count_at (merge_node old new t) (x, nd, y) = (if nd = old then 0 else count_at (fold add_count ?es t) (x, nd, y))"
    and s: "sum_at (merge_node old new t) (x, nd, y) = (if nd = old then 0 else sum_at (fold add_count ?es t) (x, nd, y))"
    by (simp_all add: count_at_def sum_at_def look)
  have m: "(\<Sum>(k, n, v)\<leftarrow>?es. if (x, nd, y) = k then n else 0) = (if nd = new then count_at t (x, old, y) else 0)"
    "(\<Sum>(k, n, v)\<leftarrow>?es. if (x, nd, y) = k then v else 0) = (if nd = new then sum_at t (x, old, y) else 0)"
    using merge_sum [OF assms(1), where f = "\<lambda>n v. n" and new = new and old = old and x = x and nd = nd and y = y]
      merge_sum [OF assms(1), where f = "\<lambda>n v. v" and new = new and old = old and x = x and nd = nd and y = y]
    by (simp_all add: count_at_def sum_at_def)
  show "count_at (merge_node old new t) (x, nd, y) =
      (if nd = old then 0 else count_at t (x, nd, y) + (if nd = new then count_at t (x, old, y) else 0))"
    unfolding c fold_add_at(1) m ..
  show "sum_at (merge_node old new t) (x, nd, y) =
      (if nd = old then 0 else sum_at t (x, nd, y) + (if nd = new then sum_at t (x, old, y) else 0))"
    unfolding s fold_add_at(2) m ..
  have "(x, nd, y) \<in> fst ` set ?es \<longleftrightarrow> nd = new \<and> (x, old, y) \<in> dom (map_of t)"
    by (force simp: moved_rows_def dom_map_of_conv_image_fst image_iff)
  moreover have "(x, nd, y) \<in> dom (map_of (merge_node old new t)) \<longleftrightarrow> nd \<noteq> old \<and> (x, nd, y) \<in> dom (map_of (fold add_count ?es t))"
    by (simp add: domIff look)
  ultimately show "(x, nd, y) \<in> dom (map_of (merge_node old new t)) \<longleftrightarrow>
      nd \<noteq> old \<and> ((x, nd, y) \<in> dom (map_of t) \<or> nd = new \<and> (x, old, y) \<in> dom (map_of t))"
    unfolding fold_add_at(3) by blast
qed

lemma merge_node_map: "is_map t \<Longrightarrow> is_map (merge_node old new t)"
  by (simp add: merge_node_def fold_add_map distinct_map_filter)

lemma sum_either:
  "(\<And>r. \<not> (p r \<and> q r)) \<Longrightarrow> (\<Sum>r\<leftarrow>filter (\<lambda>r. p r \<or> q r) rows. w r) =
     (\<Sum>r\<leftarrow>filter p rows. w r) + (\<Sum>r\<leftarrow>filter q rows. w r :: 'a :: comm_monoid_add)"
  by (induction rows) (auto simp: ac_simps)

lemma renamed_sum:
  assumes "\<And>e x. f (e\<lparr>qe_node := x\<rparr>) = f e" and "\<And>e x. g (e\<lparr>qe_node := x\<rparr>) = g e"
    and "\<And>e x. w (e\<lparr>qe_node := x\<rparr>) = (w e :: 'a :: ab_group_add)" and "old \<noteq> new"
  shows "(\<Sum>r\<leftarrow>filter (\<lambda>r. (f r, qe_node r, g r) = (x, nd, y)) (map (renamed old new) rows). w r) =
    (if nd = old then 0
     else (\<Sum>r\<leftarrow>filter (\<lambda>r. (f r, qe_node r, g r) = (x, nd, y)) rows. w r)
        + (if nd = new then \<Sum>r\<leftarrow>filter (\<lambda>r. (f r, qe_node r, g r) = (x, old, y)) rows. w r else 0))"
proof -
  let ?at = "\<lambda>m r. f r = x \<and> g r = y \<and> qe_node r = m"
  have w: "w (renamed old new r) = w r" for r by (simp add: renamed_def assms(3))
  have p: "(f (renamed old new r), qe_node (renamed old new r), g (renamed old new r)) = (x, nd, y) \<longleftrightarrow>
      nd \<noteq> old \<and> (?at nd r \<or> nd = new \<and> ?at old r)" for r
    using assms(4) by (auto simp: renamed_def assms(1,2))
  have "(\<Sum>r\<leftarrow>filter (\<lambda>r. (f r, qe_node r, g r) = (x, nd, y)) (map (renamed old new) rows). w r) =
      (\<Sum>r\<leftarrow>filter (\<lambda>r. nd \<noteq> old \<and> (?at nd r \<or> nd = new \<and> ?at old r)) rows. w r)"
    unfolding filter_map comp_def p map_map w ..
  also have "\<dots> = (if nd = old then 0 else (\<Sum>r\<leftarrow>filter (?at nd) rows. w r)
      + (if nd = new then \<Sum>r\<leftarrow>filter (?at old) rows. w r else 0))"
    using sum_either [of "?at nd" "?at old" w rows] assms(4) by auto
  finally show ?thesis by (simp add: conj_commute conj_left_commute)
qed

lemma merge_tally:
  fixes g :: "query_entry \<Rightarrow> 'c"
  assumes "is_map t" and "map_of t = tally key wt rows" and "old \<noteq> new"
    and key: "\<And>e. key e = (f e, qe_node e, g e)"
    and "\<And>e x. f (e\<lparr>qe_node := x\<rparr>) = f e" and "\<And>e x. g (e\<lparr>qe_node := x\<rparr>) = g e"
    and "\<And>e x. wt (e\<lparr>qe_node := x\<rparr>) = (wt e :: 'a :: ab_group_add)"
  shows "map_of (merge_node old new t) = tally key wt (map (renamed old new) rows)"
proof -
  note r = assms(2) [unfolded tally_at [OF assms(1)], THEN conjunct1, rule_format]
    and d = assms(2) [unfolded tally_at [OF assms(1)], THEN conjunct2]
  have len: "int (length xs) = (\<Sum>x\<leftarrow>xs. 1)" for xs :: "query_entry list" by (induction xs) auto
  have c: "count_at t (x, nd, y) = (\<Sum>r\<leftarrow>filter (\<lambda>r. (f r, qe_node r, g r) = (x, nd, y)) rows. 1)" for x nd y
    using r [of "(x, nd, y)"] by (simp add: count_sum_def len key)
  have s: "sum_at t (x, nd, y) = (\<Sum>r\<leftarrow>filter (\<lambda>r. (f r, qe_node r, g r) = (x, nd, y)) rows. wt r)" for x nd y
    using r [of "(x, nd, y)"] by (simp add: count_sum_def key)
  show ?thesis unfolding tally_at [OF merge_node_map [OF assms(1)]]
  proof (intro conjI allI)
    fix k :: "int \<times> string \<times> 'c"
    obtain x nd y where k: "k = (x, nd, y)" by (metis prod_cases3)
    show "count_at (merge_node old new t) k =
        fst (count_sum wt (filter (\<lambda>r. key r = k) (map (renamed old new) rows)))"
      by (simp only: k merge_node_at [OF assms(1,3)] c count_sum_def len key fst_conv
          renamed_sum [where f = f and g = g and w = "\<lambda>_. 1 :: int", OF assms(5,6) refl assms(3)])
    show "sum_at (merge_node old new t) k =
        snd (count_sum wt (filter (\<lambda>r. key r = k) (map (renamed old new) rows)))"
      by (simp only: k merge_node_at [OF assms(1,3)] s count_sum_def key snd_conv
          renamed_sum [where f = f and g = g and w = wt, OF assms(5,6,7,3)])
  next
    have "key (renamed old new e) = (f e, if qe_node e = old then new else qe_node e, g e)" for e
      by (simp add: key renamed_def assms(5,6))
    then have "(x, nd, y) \<in> key ` set (map (renamed old new) rows) \<longleftrightarrow>
        (\<exists>e\<in>set rows. x = f e \<and> nd = (if qe_node e = old then new else qe_node e) \<and> y = g e)" for x nd y
      by (simp add: image_iff)
    then have "(x, nd, y) \<in> key ` set (map (renamed old new) rows) \<longleftrightarrow>
        nd \<noteq> old \<and> ((x, nd, y) \<in> key ` set rows \<or> nd = new \<and> (x, old, y) \<in> key ` set rows)" for x nd y
      using assms(3) by (cases "nd = new") (auto simp: image_iff key split: if_splits)
    then show "dom (map_of (merge_node old new t)) = key ` set (map (renamed old new) rows)"
      using merge_node_at(3) [OF assms(1,3)] d by (auto simp: set_eq_iff)
  qed
qed

subsection \<open>Labels that arrive late\<close>

text \<open>
  The history of the category table is kept without names and clients. \<open>synced rows h\<close> gives
  every row of the history that is still in the log the category it has there.
\<close>

definition core :: "query_entry \<Rightarrow> query_entry" where
  "core e = e\<lparr>qe_name := [], qe_client := []\<rparr>"

definition synced :: "query_entry list \<Rightarrow> query_entry list \<Rightarrow> query_entry list" where
  "synced rows h = map (\<lambda>g. case List.find (\<lambda>e. qe_id e = qe_id g) rows of
     Some e \<Rightarrow> g\<lparr>qe_content := qe_content e\<rparr> | None \<Rightarrow> g) h"

definition follows :: "int \<Rightarrow> query_entry list \<Rightarrow> query_entry list \<Rightarrow> bool" where
  "follows cursor rows h \<longleftrightarrow> distinct (map qe_id rows) \<and> distinct (map qe_id h)
     \<and> (\<forall>e\<in>set rows. qe_id e \<le> cursor \<longrightarrow> core e \<in> set h)
     \<and> (\<forall>g\<in>set h. core g = g \<and> qe_id g \<le> cursor)"

definition relabel_if :: "string \<Rightarrow> (query_entry \<Rightarrow> bool) \<Rightarrow> query_entry \<Rightarrow> query_entry" where
  "relabel_if cat s e = (if qe_content e = ''other'' \<and> s e then e\<lparr>qe_content := cat\<rparr> else e)"

lemma core_fields [simp]:
  "qe_id (core e) = qe_id e" "qe_ts (core e) = qe_ts e" "qe_node (core e) = qe_node e"
  "qe_action (core e) = qe_action e" "qe_content (core e) = qe_content e" "core (core e) = core e"
  "hour_of (core e) = hour_of e" "is_blocked (core e) = is_blocked e" "category_key (core e) = category_key e"
  by (simp_all add: core_def hour_of_def is_blocked_def category_key_def)

lemma core_content: "core (g\<lparr>qe_content := c\<rparr>) = (core g)\<lparr>qe_content := c\<rparr>"
  by (simp add: core_def)

lemma find_by_id:
  "distinct (map qe_id rows) \<Longrightarrow> e \<in> set rows \<Longrightarrow> List.find (\<lambda>x. qe_id x = qe_id e) rows = Some e"
proof (induction rows)
  case (Cons a rows)
  then show ?case using imageI [of e "set rows" qe_id] by (cases "qe_id a = qe_id e") auto
qed simp

lemma find_no_id: "List.find (\<lambda>x. qe_id x = i) rows = None \<longleftrightarrow> i \<notin> qe_id ` set rows"
  by (auto simp: find_None_iff image_iff)

text \<open>The rows a chunk moves, in the log and in the history.\<close>

definition moved_log :: "int \<Rightarrow> int list \<Rightarrow> query_entry list \<Rightarrow> query_entry list" where
  "moved_log cursor is rows =
     filter (\<lambda>e. qe_content e = ''other'' \<and> qe_id e \<in> set is \<and> qe_id e \<le> cursor) rows"

abbreviation moved_ids :: "int \<Rightarrow> int list \<Rightarrow> query_entry list \<Rightarrow> int set" where
  "moved_ids cursor is rows \<equiv> qe_id ` set (moved_log cursor is rows)"

lemma same_id: "distinct (map qe_id h) \<Longrightarrow> x \<in> set h \<Longrightarrow> y \<in> set h \<Longrightarrow> qe_id x = qe_id y \<Longrightarrow> x = y"
  by (auto simp: distinct_map inj_on_def)

lemma distinct_ids: "distinct (map qe_id xs) \<Longrightarrow> distinct xs"
  by (simp add: distinct_map)

lemma moved_ids_iff:
  assumes "distinct (map qe_id rows)" and "e \<in> set rows"
  shows "qe_id e \<in> moved_ids cursor is rows \<longleftrightarrow>
    qe_content e = ''other'' \<and> qe_id e \<in> set is \<and> qe_id e \<le> cursor" (is "?l \<longleftrightarrow> ?r")
proof
  assume ?l
  then obtain x where x: "x \<in> set (moved_log cursor is rows)" "qe_id x = qe_id e" by (metis imageE)
  then have "x = e" using same_id [OF assms(1)] assms(2) by (simp add: moved_log_def)
  with x show ?r by (simp add: moved_log_def)
qed (use assms(2) in \<open>simp add: moved_log_def\<close>)

lemma moved_history:
  assumes "follows cursor rows h"
  shows "mset (filter (\<lambda>g. qe_content g = ''other'' \<and> qe_id g \<in> moved_ids cursor is rows) h) =
    mset (map core (moved_log cursor is rows))" (is "mset ?g = mset (map core ?m)")
proof -
  note f = assms [unfolded follows_def]
  have "distinct (map qe_id ?m)"
    using f by (simp add: moved_log_def distinct_map_filter)
  then have "distinct (map qe_id (map core ?m))" by (simp add: comp_def)
  then have m: "distinct (map core ?m)" by (rule distinct_ids)
  have g: "distinct ?g" using f by (simp add: distinct_ids)
  have "set ?g = core ` set ?m"
  proof (intro equalityI subsetI)
    fix x assume "x \<in> set ?g"
    then obtain e where x: "x \<in> set h" and e: "e \<in> set ?m" "qe_id e = qe_id x" by auto
    then have "core e \<in> set h" using f by (auto simp: moved_log_def)
    then have "core e = x" using same_id [of h] f x e by simp
    then show "x \<in> core ` set ?m" using e by blast
  next
    fix x assume "x \<in> core ` set ?m"
    then show "x \<in> set ?g" using f by (auto simp: moved_log_def)
  qed
  then have "set ?g = set (map core ?m)" by (simp only: set_map)
  then show ?thesis by (rule set_eq_iff_mset_eq_distinct [OF g m, THEN iffD1])
qed

lemma synced_step:
  assumes "follows cursor rows h"
  shows "synced (relabel_rows cat is rows) h = map (relabel_if cat (\<lambda>g. qe_id g \<in> moved_ids cursor is rows)) h"
proof (unfold synced_def, rule map_cong [OF refl])
  fix g assume g: "g \<in> set h"
  note f = assms [unfolded follows_def]
  have ids: "map qe_id (relabel_rows cat is rows) = map qe_id rows" by (auto simp: relabel_rows_def)
  show "(case List.find (\<lambda>e. qe_id e = qe_id g) (relabel_rows cat is rows) of
      Some e \<Rightarrow> g\<lparr>qe_content := qe_content e\<rparr> | None \<Rightarrow> g) =
    relabel_if cat (\<lambda>g. qe_id g \<in> moved_ids cursor is rows) g"
  proof (cases "qe_id g \<in> qe_id ` set rows")
    case True
    then obtain e where e: "e \<in> set rows" "qe_id e = qe_id g" by auto
    let ?e = "if qe_content e = ''other'' \<and> qe_id e \<in> set is then e\<lparr>qe_content := cat\<rparr> else e"
    have "?e \<in> set (relabel_rows cat is rows)" using e(1) by (auto simp: relabel_rows_def)
    then have "List.find (\<lambda>x. qe_id x = qe_id ?e) (relabel_rows cat is rows) = Some ?e"
      using find_by_id [of "relabel_rows cat is rows" ?e] f ids by (simp only: simp_thms)
    moreover have "qe_id ?e = qe_id g" using e by simp
    ultimately have found: "List.find (\<lambda>x. qe_id x = qe_id g) (relabel_rows cat is rows) = Some ?e" by simp
    have le: "qe_id e \<le> cursor" using f g e by auto
    then have "core e = g" using f g e same_id [of h "core e" g] by auto
    then have c: "qe_content e = qe_content g" by (metis core_fields(5))
    have "qe_id g \<in> moved_ids cursor is rows \<longleftrightarrow> qe_content e = ''other'' \<and> qe_id e \<in> set is"
      using moved_ids_iff [of rows e cursor "is"] e le f by simp
    then show ?thesis using c e(2) by (auto simp: found relabel_if_def)
  next
    case False
    then have "List.find (\<lambda>e. qe_id e = qe_id g) (relabel_rows cat is rows) = None"
      using ids by (simp add: find_no_id) (metis list.set_map)
    moreover have "qe_id g \<notin> moved_ids cursor is rows" using False by (auto simp: moved_log_def)
    ultimately show ?thesis by (simp add: relabel_if_def)
  qed
qed

lemma follows_step:
  assumes "follows cursor rows h"
  shows "follows cursor (relabel_rows cat is rows) (synced (relabel_rows cat is rows) h)"
proof -
  note f = assms [unfolded follows_def]
  let ?r = "relabel_if cat (\<lambda>g. qe_id g \<in> moved_ids cursor is rows)"
  have r: "qe_id (?r g) = qe_id g" "core g = g \<Longrightarrow> core (?r g) = ?r g" for g
    by (simp_all add: relabel_if_def core_content)
  let ?new = "\<lambda>e. if qe_content e = ''other'' \<and> qe_id e \<in> set is then e\<lparr>qe_content := cat\<rparr> else e"
  have new: "core (?new e) = ?r (core e)" if "e \<in> set rows" "qe_id e \<le> cursor" for e
  proof -
    have "qe_id e \<in> moved_ids cursor is rows \<longleftrightarrow> qe_content e = ''other'' \<and> qe_id e \<in> set is"
      using moved_ids_iff [of rows e cursor "is"] that f by simp
    then show ?thesis by (simp add: relabel_if_def core_content)
  qed
  have ids: "map qe_id (relabel_rows cat is rows) = map qe_id rows" "map qe_id (map ?r h) = map qe_id h"
    by (simp_all add: relabel_rows_def comp_def r(1) cong: if_cong)
  have "core e' \<in> set (map ?r h)" if "e' \<in> set (relabel_rows cat is rows)" "qe_id e' \<le> cursor" for e'
  proof -
    from that obtain e where e: "e \<in> set rows" "e' = ?new e" by (auto simp: relabel_rows_def)
    then have "qe_id e \<le> cursor" using that(2) by (auto split: if_splits)
    then show ?thesis using new [OF e(1)] e f by simp
  qed
  moreover have "core g = g \<and> qe_id g \<le> cursor" if "g \<in> set (map ?r h)" for g
    using that f r by auto
  ultimately show ?thesis
    unfolding synced_step [OF assms] follows_def ids using f by blast
qed

lemma synced_again:
  assumes "map qe_id rows' = map qe_id rows"
  shows "synced rows' (synced rows h) = synced rows' h"
proof -
  have "qe_id ` set rows' = qe_id ` set rows" using assms by (metis list.set_map)
  then have "List.find (\<lambda>e. qe_id e = i) rows' = None \<longleftrightarrow> List.find (\<lambda>e. qe_id e = i) rows = None" for i
    by (simp add: find_no_id)
  then have "List.find (\<lambda>e. qe_id e = i) rows = None" if "List.find (\<lambda>e. qe_id e = i) rows' = None" for i
    using that by blast
  then show ?thesis unfolding synced_def map_map comp_def
    by (intro map_cong [OF refl]) (simp split: option.split)
qed

lemma synced_self: "follows cursor rows h \<Longrightarrow> synced rows h = h"
proof (unfold synced_def, rule map_idI)
  fix g assume f: "follows cursor rows h" and g: "g \<in> set h"
  show "(case List.find (\<lambda>e. qe_id e = qe_id g) rows of Some e \<Rightarrow> g\<lparr>qe_content := qe_content e\<rparr> | None \<Rightarrow> g) = g"
  proof (cases "List.find (\<lambda>e. qe_id e = qe_id g) rows")
    case (Some e)
    then have e: "e \<in> set rows" "qe_id e = qe_id g" by (auto simp: find_Some_iff)
    then have "core e = g" using f g same_id [of h "core e" g] by (auto simp: follows_def)
    then have "qe_content e = qe_content g" by (metis core_fields(5))
    with Some show ?thesis by simp
  qed simp
qed

text \<open>What a move adds to a key of the category table, per row moved.\<close>

definition move_sign :: "string \<Rightarrow> string \<Rightarrow> int" where
  "move_sign cat c = (if c = cat then 1 else if c = ''other'' then -1 else 0)"

abbreviation place :: "query_entry \<Rightarrow> int \<times> string" where
  "place e \<equiv> (hour_of e, qe_node e)"

definition sum_where :: "(query_entry \<Rightarrow> int) \<Rightarrow> (query_entry \<Rightarrow> bool) \<Rightarrow> query_entry list \<Rightarrow> int" where
  "sum_where w p rows = (\<Sum>r\<leftarrow>filter p rows. w r)"

lemma sum_where_mset: "mset xs = mset ys \<Longrightarrow> sum_where w p xs = sum_where w p ys"
  unfolding sum_where_def by (metis mset_filter mset_map sum_mset_sum_list)

lemma chunk_moves_at:
  assumes "cat \<noteq> ''other''"
  shows "(\<Sum>(k, n, v)\<leftarrow>chunk_moves cursor cat is rows. if (h, nd, c) = k then n else 0) =
      move_sign cat c * sum_where (\<lambda>_. 1) (\<lambda>e. place e = (h, nd)) (moved_log cursor is rows)"
    and "(\<Sum>(k, n, v)\<leftarrow>chunk_moves cursor cat is rows. if (h, nd, c) = k then v else 0) =
      move_sign cat c * sum_where is_blocked (\<lambda>e. place e = (h, nd)) (moved_log cursor is rows)"
proof -
  let ?gs = "group_by place (count_sum is_blocked) (moved_log cursor is rows)"
  let ?pair = "\<lambda>((hour, node), n, b). [((hour, node, ''other''), - n, - b), ((hour, node, cat), n, b)]"
  have flat: "(\<Sum>(k, n, v)\<leftarrow>concat (map ?pair gs). if (h, nd, c) = k then f n v else 0) =
      (\<Sum>(k, a)\<leftarrow>gs. if (h, nd) = k then move_sign cat c * f (fst a) (snd a) else 0)"
    if "\<And>n v. f (- n) (- v) = - f n v" for f :: "int \<Rightarrow> int \<Rightarrow> int" and gs
    using assms that by (induction gs) (auto simp: move_sign_def)
  have gone: "x \<notin> place ` set ms \<Longrightarrow> filter (\<lambda>r. place r = x) ms = []" for x and ms :: "query_entry list"
    by (auto simp: filter_empty_conv)
  have len: "int (length xs) = (\<Sum>x\<leftarrow>xs. 1)" for xs :: "query_entry list" by (induction xs) auto
  have moves: "chunk_moves cursor cat is rows = concat (map ?pair ?gs)"
    by (simp add: chunk_moves_def moved_log_def)
  show "(\<Sum>(k, n, v)\<leftarrow>chunk_moves cursor cat is rows. if (h, nd, c) = k then n else 0) =
      move_sign cat c * sum_where (\<lambda>_. 1) (\<lambda>e. place e = (h, nd)) (moved_log cursor is rows)"
    unfolding moves flat [of "\<lambda>n v. n", simplified]
      group_by_sum [where f = "\<lambda>a. move_sign cat c * fst a" and x = "(h, nd)"]
    using gone [of "(h, nd)" "moved_log cursor is rows"] by (auto simp: count_sum_def sum_where_def len)
  show "(\<Sum>(k, n, v)\<leftarrow>chunk_moves cursor cat is rows. if (h, nd, c) = k then v else 0) =
      move_sign cat c * sum_where is_blocked (\<lambda>e. place e = (h, nd)) (moved_log cursor is rows)"
    unfolding moves flat [of "\<lambda>n v. v", simplified]
      group_by_sum [where f = "\<lambda>a. move_sign cat c * snd a" and x = "(h, nd)"]
    using gone [of "(h, nd)" "moved_log cursor is rows"] by (auto simp: count_sum_def sum_where_def)
qed

lemma relabelled_sum:
  assumes "\<And>e x. w (e\<lparr>qe_content := x\<rparr>) = w e" and "cat \<noteq> ''other''" and "cat \<noteq> []"
  shows "sum_where w (\<lambda>r. category_key r = (h, nd, c)) (filter (\<lambda>e. qe_content e \<noteq> []) (map (relabel_if cat s) rows)) =
    sum_where w (\<lambda>r. category_key r = (h, nd, c)) (filter (\<lambda>e. qe_content e \<noteq> []) rows)
    + move_sign cat c * sum_where w (\<lambda>e. place e = (h, nd)) (filter (\<lambda>e. qe_content e = ''other'' \<and> s e) rows)"
proof (induction rows)
  case (Cons r rows)
  have k: "category_key (r\<lparr>qe_content := x\<rparr>) = (hour_of r, qe_node r, x)" for x
    by (simp add: category_key_def hour_of_def)
  have k': "category_key r = (hour_of r, qe_node r, qe_content r)" by (simp add: category_key_def)
  show ?case
  proof (cases "qe_content r = ''other'' \<and> s r")
    case True
    then have "relabel_if cat s r = r\<lparr>qe_content := cat\<rparr>" by (simp add: relabel_if_def)
    with True Cons assms(2,3) show ?thesis
      by (cases "place r = (h, nd)"; cases "c = cat"; cases "c = ''other''")
        (simp_all add: sum_where_def k k' assms(1) move_sign_def, auto)
  next
    case False
    then have "relabel_if cat s r = r" by (auto simp: relabel_if_def)
    with False Cons show ?thesis by (auto simp: sum_where_def)
  qed
qed (simp add: sum_where_def)

text \<open>Counts to be moved: something leaves the category other, something comes to another one.\<close>

definition signed :: "(int \<times> string \<times> string, int) counts \<Rightarrow> bool" where
  "signed ds \<longleftrightarrow> list_all (\<lambda>((h, nd, c), n, v). if c = ''other'' then n < 0 else 0 < n) ds"

lemma signed_add:
  assumes "is_map ds" and "signed ds" and "signed [e]"
  shows "signed (add_count e ds)"
proof -
  obtain h nd c n v where e: "e = ((h, nd, c), n, v)" by (metis prod.collapse)
  show ?thesis
  proof (cases "map_of ds (h, nd, c)")
    case None
    with assms show ?thesis by (simp add: e add_count_def signed_def)
  next
    case (Some mw)
    obtain m w where mw: "mw = (m, w)" by (cases mw)
    have "((h, nd, c), m, w) \<in> set ds" using Some mw by (auto dest: map_of_SomeD)
    then have "if c = ''other'' then m < 0 else 0 < m" using assms(2) by (auto simp: signed_def list_all_iff)
    then have "if c = ''other'' then m + n < 0 else 0 < m + n" using assms(3) by (auto simp: e signed_def split: if_splits)
    moreover have "set (AList.update (h, nd, c) (m + n, w + v) ds) \<subseteq> insert ((h, nd, c), m + n, w + v) (set ds)"
      using set_alist_update [of "(h, nd, c)" "(m + n, w + v)" ds] by auto
    ultimately show ?thesis
      using assms(2) Some mw by (auto simp: e add_count_def signed_def list_all_iff split: if_splits)
  qed
qed

lemma signed_fold: "is_map ds \<Longrightarrow> signed ds \<Longrightarrow> signed es \<Longrightarrow> signed (fold add_count es ds)"
proof (induction es arbitrary: ds)
  case (Cons e es)
  then have "signed [e]" "signed es" by (simp_all add: signed_def)
  with Cons signed_add [of ds e] show ?case by (simp add: add_count_map)
qed simp

lemma signed_moves: "cat \<noteq> ''other'' \<Longrightarrow> signed (chunk_moves cursor cat is rows)"
proof -
  assume c: "cat \<noteq> ''other''"
  show ?thesis
    unfolding chunk_moves_def signed_def list_all_iff group_by_def count_sum_def
    using c by (auto simp: split_def filter_empty_conv)
qed

definition key_sum :: "(query_entry \<Rightarrow> int) \<Rightarrow> query_entry list \<Rightarrow> int \<times> string \<times> string \<Rightarrow> int" where
  "key_sum w h k = sum_where w (\<lambda>r. category_key r = k) (filter (\<lambda>e. qe_content e \<noteq> []) h)"

definition moving :: "(int \<times> string \<times> string, int) counts \<Rightarrow> int \<Rightarrow>
    (int \<times> string \<times> string, int) counts \<Rightarrow> query_entry list \<Rightarrow> query_entry list \<Rightarrow> bool" where
  "moving t cursor ds rows h \<longleftrightarrow> follows cursor rows h \<and> is_map ds \<and> signed ds
     \<and> (\<forall>k. count_at t k + count_at ds k = key_sum (\<lambda>_. 1) h k \<and> sum_at t k + sum_at ds k = key_sum is_blocked h k)"

lemma moving_step:
  assumes "moving t cursor ds rows h" and "cat \<noteq> ''other''" and "cat \<noteq> []"
  shows "moving t cursor (fold add_count (chunk_moves cursor cat is rows) ds) (relabel_rows cat is rows)
    (synced (relabel_rows cat is rows) h)"
proof -
  note m = assms(1) [unfolded moving_def]
  then have f: "follows cursor rows h" by blast
  let ?s = "\<lambda>g. qe_id g \<in> moved_ids cursor is rows"
  have same: "sum_where w p (filter (\<lambda>g. qe_content g = ''other'' \<and> ?s g) h) = sum_where w p (moved_log cursor is rows)"
    if "\<And>e. w (core e) = w e" "\<And>e. p (core e) = p e" for w p
  proof -
    have "sum_where w p (map core rs) = sum_where w p rs" for rs
      using that by (induction rs) (auto simp: sum_where_def)
    with sum_where_mset [OF moved_history [OF f]] show ?thesis by metis
  qed
  have key: "key_sum w (synced (relabel_rows cat is rows) h) (x, nd, c) =
      key_sum w h (x, nd, c) + move_sign cat c * sum_where w (\<lambda>e. place e = (x, nd)) (moved_log cursor is rows)"
    if "\<And>e. w (core e) = w e" "\<And>e y. w (e\<lparr>qe_content := y\<rparr>) = w e" for w x nd c
    unfolding key_sum_def synced_step [OF f] relabelled_sum [OF that(2) assms(2,3)] by (simp add: same that(1))
  have "count_at t k + count_at (fold add_count (chunk_moves cursor cat is rows) ds) k =
        key_sum (\<lambda>_. 1) (synced (relabel_rows cat is rows) h) k
      \<and> sum_at t k + sum_at (fold add_count (chunk_moves cursor cat is rows) ds) k =
        key_sum is_blocked (synced (relabel_rows cat is rows) h) k" for k
  proof -
    obtain x nd c where k: "k = (x, nd, c)" by (metis prod_cases3)
    show ?thesis
      unfolding k fold_add_at chunk_moves_at [OF assms(2)]
      using m key [of "\<lambda>_. 1"] key [of is_blocked] by (simp add: is_blocked_def add.assoc [symmetric])
  qed
  with m follows_step [OF f] signed_fold signed_moves [OF assms(2)] show ?thesis
    by (simp add: moving_def fold_add_map)
qed

lemma moving_fold:
  assumes "moving t cursor ds rows h" and "list_all (\<lambda>(c, _). c \<noteq> ''other'' \<and> c \<noteq> []) jobs"
    and "fold (move_chunk cursor) jobs (ds, n, rows) = (ds', n', rows')"
  shows "moving t cursor ds' rows' (synced rows' h) \<and> map qe_id rows' = map qe_id rows"
  using assms
proof (induction jobs arbitrary: ds n rows h)
  case Nil
  then show ?case by (auto simp: moving_def synced_self)
next
  case (Cons job jobs)
  obtain cat "is" where j: "job = (cat, is)" by (cases job)
  let ?rows = "relabel_rows cat is rows"
  have ids: "map qe_id ?rows = map qe_id rows" by (simp add: relabel_rows_def)
  have "moving t cursor (fold add_count (chunk_moves cursor cat is rows) ds) ?rows (synced ?rows h)"
    using moving_step [OF Cons.prems(1)] Cons.prems(2) j by simp
  from Cons.IH [OF this] Cons.prems(2,3) have
    "moving t cursor ds' rows' (synced rows' (synced ?rows h)) \<and> map qe_id rows' = map qe_id ?rows"
    by (simp add: j move_chunk_def)
  with ids synced_again [of rows' ?rows h] show ?case by simp
qed

lemma sum_entries:
  "is_map ds \<Longrightarrow> (\<Sum>(k, n, v)\<leftarrow>ds. if x = k then f n v else 0) =
     (case map_of ds x of None \<Rightarrow> 0 | Some (n, v) \<Rightarrow> (f n v :: 'a :: comm_monoid_add))"
proof (induction ds)
  case (Cons e ds)
  obtain k n v where e: "e = (k, n, v)" by (metis prod_cases3)
  have "map_of ds k = None" using Cons.prems by (auto simp: e map_of_eq_None_iff)
  with Cons show ?case by (auto simp: e)
qed simp

lemma map_of_filter_entries:
  "is_map t \<Longrightarrow> map_of (filter p t) k =
     (case map_of t k of None \<Rightarrow> None | Some e \<Rightarrow> if p (k, e) then Some e else None)"
proof (induction t)
  case (Cons e t)
  obtain k' e' where e: "e = (k', e')" by (cases e)
  have "map_of t k' = None" "k' \<notin> fst ` set (filter p t)"
    using Cons.prems by (auto simp: e map_of_eq_None_iff)
  with Cons show ?case by (auto simp: e map_of_eq_None_iff)
qed simp

lemma key_sum_count:
  "fst (count_sum is_blocked (filter (\<lambda>r. category_key r = k) (filter (\<lambda>e. qe_content e \<noteq> []) h))) = key_sum (\<lambda>_. 1) h k"
  "snd (count_sum is_blocked (filter (\<lambda>r. category_key r = k) (filter (\<lambda>e. qe_content e \<noteq> []) h))) = key_sum is_blocked h k"
  by (simp_all add: count_sum_def key_sum_def sum_where_def sum_list_triv)

lemma key_sum_positive:
  "0 \<le> key_sum (\<lambda>_. 1) h k"
  "0 < key_sum (\<lambda>_. 1) h k \<longleftrightarrow> k \<in> category_key ` set (filter (\<lambda>e. qe_content e \<noteq> []) h)"
  "key_sum (\<lambda>_. 1) h k = 0 \<Longrightarrow> key_sum is_blocked h k = 0"
  by (auto simp: key_sum_def sum_where_def sum_list_triv filter_empty_conv)

definition counted_categories :: "(int \<times> string \<times> string, int) counts \<Rightarrow> query_entry list \<Rightarrow> bool" where
  "counted_categories t h \<longleftrightarrow> is_map t \<and> map_of t = tally category_key is_blocked (filter (\<lambda>e. qe_content e \<noteq> []) h)"

lemma counted_at:
  "counted_categories t h \<longleftrightarrow> is_map t \<and> (\<forall>k. count_at t k = key_sum (\<lambda>_. 1) h k \<and> sum_at t k = key_sum is_blocked h k)
     \<and> dom (map_of t) = category_key ` set (filter (\<lambda>e. qe_content e \<noteq> []) h)"
  using tally_at [of t category_key is_blocked "filter (\<lambda>e. qe_content e \<noteq> []) h"]
  unfolding counted_categories_def key_sum_count by blast

lemma apply_moves:
  assumes "counted_categories t h" and "moving t cursor ds rows h'"
  shows "counted_categories (filter (\<lambda>((_, _, c), n, _). \<not> (c = ''other'' \<and> n \<le> 0))
    (fold add_count (filter (\<lambda>(_, n, _). n \<noteq> 0) ds) t)) h'"
proof -
  note m = assms(2) [unfolded moving_def] and old = assms(1) [unfolded counted_at]
  have "filter (\<lambda>(_, n, _). n \<noteq> 0) ds = ds"
    using m by (intro filter_True) (auto simp: signed_def list_all_iff split: if_splits)
  moreover
  let ?t = "fold add_count ds t" and ?p = "\<lambda>((_ :: int, _ :: string, c), n, _ :: int). \<not> (c = ''other'' \<and> n \<le> (0 :: int))"
  have at: "count_at ?t k = key_sum (\<lambda>_. 1) h' k" "sum_at ?t k = key_sum is_blocked h' k" for k
  proof -
    have d: "is_map ds" and e: "count_at t k + count_at ds k = key_sum (\<lambda>_. 1) h' k"
      "sum_at t k + sum_at ds k = key_sum is_blocked h' k"
      using m by blast+
    show "count_at ?t k = key_sum (\<lambda>_. 1) h' k" "sum_at ?t k = key_sum is_blocked h' k"
      unfolding fold_add_at sum_entries [OF d] using e by (simp_all add: count_at_def [of ds] sum_at_def [of ds])
  qed
  have im: "is_map ?t" using old by (simp add: fold_add_map)
  note look = map_of_filter_entries [OF im, of ?p]
  have oc: "count_at t k = key_sum (\<lambda>_. 1) h k" for k using old by blast
  have od: "dom (map_of t) = category_key ` set (filter (\<lambda>e. qe_content e \<noteq> []) h)" using old by blast
  have mc: "count_at t k + count_at ds k = key_sum (\<lambda>_. 1) h' k" for k using m by blast
  have keep: "0 < key_sum (\<lambda>_. 1) h' k" if "map_of ?t k = Some (n, v)" "?p (k, n, v)" for k n v
  proof -
    obtain x nd c where k: "k = (x, nd, c)" by (metis prod_cases3)
    have n: "n = key_sum (\<lambda>_. 1) h' k" using at(1) [of k] that(1) by (simp add: count_at_def)
    show ?thesis
    proof (cases "c = ''other''")
      case True
      then show ?thesis using that(2) n by (simp add: k)
    next
      case False
      have "k \<in> dom (map_of t) \<union> dom (map_of ds)"
        using domI [of "map_of ?t" k, OF that(1)] fold_add_at(3) [of ds t]
        by (simp only: dom_map_of_conv_image_fst Un_iff disj_commute)
      moreover have pos: "0 < count_at ds k" if "k \<in> dom (map_of ds)"
        using that m False by (auto simp: count_at_def signed_def list_all_iff k dest!: map_of_SomeD split: if_splits option.split)
      moreover have "0 \<le> count_at ds k"
        using pos by (cases "map_of ds k") (auto simp: count_at_def [of ds k] domIff)
      moreover have "0 \<le> count_at t k" "k \<in> dom (map_of t) \<Longrightarrow> 0 < count_at t k"
        using oc [of k] od key_sum_positive(1,2) [of h k] by (simp_all only:)
      ultimately have "0 < count_at t k + count_at ds k" by force
      then show ?thesis by (simp only: mc)
    qed
  qed
  have gone: "key_sum (\<lambda>_. 1) h' k = 0" if "map_of (filter ?p ?t) k = None" for k
  proof (cases "map_of ?t k")
    case None
    then show ?thesis using at(1) [of k] by (simp add: count_at_def)
  next
    case (Some nv)
    with that look [of k] have "fst nv \<le> 0" by (auto split: if_splits prod.splits)
    then show ?thesis using Some at(1) [of k] key_sum_positive(1) [of h' k] by (cases nv) (simp add: count_at_def)
  qed
  have same: "map_of ?t k = Some e \<and> ?p (k, e)" if "map_of (filter ?p ?t) k = Some e" for k e
    using that look [of k] by (auto split: if_splits option.splits)
  have "counted_categories (filter ?p ?t) h'"
    unfolding counted_at
  proof (intro conjI allI)
    show "is_map (filter ?p ?t)" using im by (rule distinct_map_filter)
    show "count_at (filter ?p ?t) k = key_sum (\<lambda>_. 1) h' k" for k
      using gone [of k] same [of k] at(1) [of k] by (cases "map_of (filter ?p ?t) k") (auto simp: count_at_def)
    show "sum_at (filter ?p ?t) k = key_sum is_blocked h' k" for k
      using key_sum_positive(3) [OF gone [of k]] same [of k] at(2) [of k]
      by (cases "map_of (filter ?p ?t) k") (auto simp: sum_at_def)
    show "dom (map_of (filter ?p ?t)) = category_key ` set (filter (\<lambda>e. qe_content e \<noteq> []) h')"
    proof (intro set_eqI)
      fix k
      have "k \<in> dom (map_of (filter ?p ?t)) \<longleftrightarrow> 0 < key_sum (\<lambda>_. 1) h' k"
      proof (cases "map_of (filter ?p ?t) k")
        case None
        then show ?thesis using gone [of k] by (simp add: domIff)
      next
        case (Some nv)
        then show ?thesis using same [OF Some] keep [of k "fst nv" "snd nv"] by (simp add: domIff)
      qed
      then show "k \<in> dom (map_of (filter ?p ?t)) \<longleftrightarrow> k \<in> category_key ` set (filter (\<lambda>e. qe_content e \<noteq> []) h')"
        by (simp only: key_sum_positive(2))
    qed
  qed
  ultimately show ?thesis by simp
qed

lemma by_category_keys: "list_all (\<lambda>(c, _). c \<noteq> ''other'' \<and> c \<noteq> []) (by_category labels)"
proof -
  have "list_all (\<lambda>(c, _). c \<noteq> ''other'' \<and> c \<noteq> []) (fold (\<lambda>(i, c) m. if c \<noteq> [] \<and> c \<noteq> ''other''
      then AList.update c ((case map_of m c of None \<Rightarrow> [] | Some is \<Rightarrow> is) @ [i]) m else m) labels m)"
    if "list_all (\<lambda>(c, _). c \<noteq> ''other'' \<and> c \<noteq> []) m" for m :: "(string \<times> int list) list"
    using that
  proof (induction labels arbitrary: m)
    case (Cons l labels)
    obtain i c where l: "l = (i, c)" by (cases l)
    let ?m = "AList.update c ((case map_of m c of None \<Rightarrow> [] | Some is \<Rightarrow> is) @ [i]) m"
    have "list_all (\<lambda>(c, _). c \<noteq> ''other'' \<and> c \<noteq> []) ?m" if "c \<noteq> []" "c \<noteq> ''other''"
      using Cons.prems that set_alist_update [of c _ m] by (fastforce simp: list_all_iff)
    with Cons show ?case by (simp add: l)
  qed simp
  then show ?thesis by (simp add: by_category_def)
qed

lemma relabel_counted:
  assumes "follows (sd_cursor db) (sd_log db) h" and "counted_categories (sd_category db) h" and "visits visit"
    and "relabel_content visit labels db = (n, db')"
  shows "follows (sd_cursor db) (sd_log db') (synced (sd_log db') h)
    \<and> counted_categories (sd_category db') (synced (sd_log db') h)
    \<and> map qe_id (sd_log db') = map qe_id (sd_log db)
    \<and> sd_cursor db' = sd_cursor db \<and> sd_seq db' = sd_seq db \<and> sd_query db' = sd_query db
    \<and> sd_client db' = sd_client db \<and> sd_upstream db' = sd_upstream db"
proof (cases "labels = []")
  case True
  with assms(1,2,4) show ?thesis by (simp add: relabel_content_def synced_self)
next
  case False
  let ?jobs = "concat (map (\<lambda>(c, ids). map (Pair c) (chunked relabel_chunk ids)) (visit (by_category labels)))"
  obtain ds k rows where run: "fold (move_chunk (sd_cursor db)) ?jobs ([], 0, sd_log db) = (ds, k, rows)"
    by (metis prod_cases3)
  have start: "moving (sd_category db) (sd_cursor db) [] (sd_log db) h"
    using assms(1,2) by (simp add: moving_def counted_at signed_def count_at_def [of "[]"] sum_at_def [of "[]"])
  have "set (visit (by_category labels)) = set (by_category labels)" using assms(3) by (rule visits_set)
  then have "list_all (\<lambda>(c, _). c \<noteq> ''other'' \<and> c \<noteq> []) ?jobs"
    using by_category_keys [of labels] by (fastforce simp: list_all_iff)
  from moving_fold [OF start this run]
  have mv: "moving (sd_category db) (sd_cursor db) ds rows (synced rows h)" "map qe_id rows = map qe_id (sd_log db)"
    by blast+
  have db': "db' = db\<lparr>sd_log := rows, sd_category := filter (\<lambda>((_, _, c), n, _). \<not> (c = ''other'' \<and> n \<le> 0))
      (fold add_count (filter (\<lambda>(_, n, _). n \<noteq> 0) ds) (sd_category db))\<rparr>"
    using assms(4) False run by (simp add: relabel_content_def Let_def)
  show ?thesis
    using apply_moves [OF assms(2) mv(1)] mv by (simp add: db') (simp add: moving_def)
qed

subsection \<open>Everything that happens to the log\<close>

text \<open>
  The rows that have been counted and not dropped since, as they are now: by minute, by hour for
  the clients and, without names and clients, by hour for the categories.
\<close>

record history =
  hi_minute :: "query_entry list"
  hi_client :: "query_entry list"
  hi_hour :: "query_entry list"

definition newly_counted :: "int \<Rightarrow> stats_db \<Rightarrow> query_entry list" where
  "newly_counted batch db =
     filter (\<lambda>e. sd_cursor db < qe_id e \<and> qe_id e \<le> sd_cursor (snd (rollup_advance batch db))) (sd_log db)"

text \<open>A scrub of the log changes names and clients only; old counts are dropped after the rows they count.\<close>

inductive log_step :: "stats_db \<times> history \<Rightarrow> stats_db \<times> history \<Rightarrow> bool" where
  logged: "log_step (db, h) (insert_node_query_log node es db, h)"
| advanced: "log_step (db, h) (snd (rollup_advance batch db),
     \<lparr>hi_minute = hi_minute h @ newly_counted batch db, hi_client = hi_client h @ newly_counted batch db,
      hi_hour = hi_hour h @ map core (newly_counted batch db)\<rparr>)"
| pruned_log: "log_step (db, h) (snd (prune_query_log before db), h)"
| deleted: "log_step (db, h) (snd (delete_rolled_up before db), h)"
| pruned: "list_all (\<lambda>e. sql_div before 3600000 \<le> hour_of e) (sd_log db) \<Longrightarrow>
    log_step (db, h) (prune_rollups before db,
     \<lparr>hi_minute = filter (\<lambda>e. \<not> minute_of e < sql_div before 60000) (hi_minute h),
      hi_client = filter (\<lambda>e. \<not> hour_of e < sql_div before 3600000) (hi_client h),
      hi_hour = filter (\<lambda>e. \<not> hour_of e < sql_div before 3600000) (hi_hour h)\<rparr>)"
| renaming: "old \<noteq> new \<Longrightarrow> log_step (db, h) (rename_history old new db,
     \<lparr>hi_minute = map (renamed old new) (hi_minute h), hi_client = map (renamed old new) (hi_client h),
      hi_hour = map (renamed old new) (hi_hour h)\<rparr>)"
| relabelled: "visits visit \<Longrightarrow> log_step (db, h) (snd (relabel_content visit labels db),
     h\<lparr>hi_hour := synced (sd_log (snd (relabel_content visit labels db))) (hi_hour h)\<rparr>)"
| scrubbed: "(\<And>e. core (f e) = core e) \<Longrightarrow> log_step (db, h) (db\<lparr>sd_log := map f (sd_log db)\<rparr>, h)"

definition counted_by :: "(query_entry \<Rightarrow> 'k) \<Rightarrow> (query_entry \<Rightarrow> 'v :: comm_monoid_add) \<Rightarrow> (query_entry \<Rightarrow> bool)
    \<Rightarrow> int \<Rightarrow> ('k, 'v) counts \<Rightarrow> query_entry list \<Rightarrow> bool" where
  "counted_by key wt p cursor t rows \<longleftrightarrow> is_map t \<and> map_of t = tally key wt (filter p rows)
     \<and> distinct (map qe_id rows) \<and> (\<forall>e\<in>set rows. qe_id e \<le> cursor)"

definition log_ok :: "stats_db \<times> history \<Rightarrow> bool" where
  "log_ok s \<longleftrightarrow> (case s of (db, h) \<Rightarrow>
     follows (sd_cursor db) (sd_log db) (hi_hour h) \<and> counted_categories (sd_category db) (hi_hour h)
     \<and> counted_by query_key qe_elapsed (\<lambda>_. True) (sd_cursor db) (sd_query db) (hi_minute h)
     \<and> counted_by upstream_key qe_elapsed (\<lambda>e. qe_action e = ''forward'') (sd_cursor db) (sd_upstream db) (hi_minute h)
     \<and> counted_by client_key is_blocked (\<lambda>e. qe_client e \<noteq> []) (sd_cursor db) (sd_client db) (hi_client h)
     \<and> (\<forall>e\<in>set (sd_log db). qe_id e \<le> sd_seq db) \<and> sd_cursor db \<le> sd_seq db \<and> 0 \<le> sd_seq db)"

lemma counted_by_fold:
  assumes "counted_by key wt p cursor t rows" and "cursor \<le> cursor'"
    and "distinct (map qe_id new)" and "\<forall>e\<in>set new. cursor < qe_id e \<and> qe_id e \<le> cursor'"
  shows "counted_by key wt p cursor' (fold_rows key wt (filter p new) t) (rows @ new)"
  using assms fold_rows_tally [of t key wt "filter p rows" "filter p new"]
  by (fastforce simp: counted_by_def fold_rows_map)

lemma tally_kept:
  assumes "map_of t = tally key wt rows" and "\<And>e. q (key e) = p e"
  shows "map_of (filter (\<lambda>(k, _). q k) t) = tally key wt (filter p rows)"
proof
  fix k
  have "filter (\<lambda>r. key r = k) (filter p rows) = (if q k then filter (\<lambda>r. key r = k) rows else [])"
    using assms(2) by (induction rows) auto
  then show "map_of (filter (\<lambda>(k, _). q k) t) k = tally key wt (filter p rows) k"
    using assms(1) by (simp add: map_of_kept tally_def)
qed

lemma counted_by_kept:
  assumes "counted_by key wt p cursor t rows" and "\<And>e. q (key e) = keep e"
  shows "counted_by key wt p cursor (filter (\<lambda>(k, _). q k) t) (filter keep rows)"
proof -
  have "map_of (filter (\<lambda>(k, _). q k) t) = tally key wt (filter keep (filter p rows))"
    using assms by (intro tally_kept) (simp_all add: counted_by_def)
  moreover have "filter keep (filter p rows) = filter p (filter keep rows)" by (simp add: conj_commute)
  ultimately show ?thesis
    using assms(1) by (simp add: counted_by_def distinct_map_filter)
qed

text \<open>
  What the four rollups have in common: a row is counted under its bucket, its node and the rest of
  the key, with a weight, if it is counted at all, and none of these but the node looks at the node.
\<close>

locale rollup_table =
  fixes key :: "query_entry \<Rightarrow> int \<times> string \<times> 'c" and bucket :: "query_entry \<Rightarrow> int" and rest :: "query_entry \<Rightarrow> 'c"
    and wt :: "query_entry \<Rightarrow> 'v :: ab_group_add" and taken :: "query_entry \<Rightarrow> bool"
  assumes key_parts: "key e = (bucket e, qe_node e, rest e)"
    and node_free: "bucket (e\<lparr>qe_node := x\<rparr>) = bucket e" "rest (e\<lparr>qe_node := x\<rparr>) = rest e"
      "wt (e\<lparr>qe_node := x\<rparr>) = wt e" "taken (e\<lparr>qe_node := x\<rparr>) = taken e"
begin

lemma merged:
  assumes "counted_by key wt taken cursor t rows" and "old \<noteq> new"
  shows "counted_by key wt taken cursor (merge_node old new t) (map (renamed old new) rows)"
proof -
  have r: "qe_id (renamed old new e) = qe_id e" "taken (renamed old new e) = taken e" for e
    by (simp_all add: renamed_def node_free)
  then have "filter taken (map (renamed old new) rows) = map (renamed old new) (filter taken rows)"
    by (simp add: filter_map comp_def)
  moreover have "map_of (merge_node old new t) = tally key wt (map (renamed old new) (filter taken rows))"
    by (rule merge_tally [where f = bucket and g = rest]) (use assms in \<open>simp_all add: counted_by_def key_parts node_free\<close>)
  ultimately show ?thesis
    using assms(1) r by (simp add: counted_by_def merge_node_map comp_def)
qed

lemma dropped_before:
  assumes "counted_by key wt taken cursor t rows"
  shows "counted_by key wt taken cursor (filter (\<lambda>(k, _). \<not> fst k < x) t) (filter (\<lambda>e. \<not> bucket e < x) rows)"
  by (rule counted_by_kept [OF assms]) (simp add: key_parts)

end

interpretation queries: rollup_table query_key minute_of qe_action qe_elapsed "\<lambda>_. True"
  by unfold_locales (simp_all add: query_key_def minute_of_def)

interpretation clients: rollup_table client_key hour_of qe_client is_blocked "\<lambda>e. qe_client e \<noteq> []"
  by unfold_locales (simp_all add: client_key_def hour_of_def is_blocked_def)

interpretation contents: rollup_table category_key hour_of qe_content is_blocked "\<lambda>e. qe_content e \<noteq> []"
  by unfold_locales (simp_all add: category_key_def hour_of_def is_blocked_def)

interpretation upstreams: rollup_table upstream_key minute_of "\<lambda>e. (qe_forwarder e, qe_upstream e)" qe_elapsed
    "\<lambda>e. qe_action e = ''forward''"
  by unfold_locales (simp_all add: upstream_key_def minute_of_def)

lemma max_log_id_bounds:
  "e \<in> set (sd_log db) \<Longrightarrow> qe_id e \<le> max_log_id db"
  "0 \<le> n \<Longrightarrow> \<forall>e\<in>set (sd_log db). qe_id e \<le> n \<Longrightarrow> max_log_id db \<le> n"
proof -
  have "e \<in> set es \<Longrightarrow> qe_id e \<le> foldr max (map qe_id es) 0" for es by (induction es) auto
  then show "e \<in> set (sd_log db) \<Longrightarrow> qe_id e \<le> max_log_id db" by (simp add: max_log_id_def)
  have "0 \<le> n \<Longrightarrow> \<forall>e\<in>set es. qe_id e \<le> n \<Longrightarrow> foldr max (map qe_id es) 0 \<le> n" for es
    by (induction es) auto
  then show "0 \<le> n \<Longrightarrow> \<forall>e\<in>set (sd_log db). qe_id e \<le> n \<Longrightarrow> max_log_id db \<le> n" by (simp add: max_log_id_def)
qed

lemma log_okD:
  assumes "log_ok (db, h)"
  shows "follows (sd_cursor db) (sd_log db) (hi_hour h)" and "counted_categories (sd_category db) (hi_hour h)"
    and "counted_by query_key qe_elapsed (\<lambda>_. True) (sd_cursor db) (sd_query db) (hi_minute h)"
    and "counted_by upstream_key qe_elapsed (\<lambda>e. qe_action e = ''forward'') (sd_cursor db) (sd_upstream db) (hi_minute h)"
    and "counted_by client_key is_blocked (\<lambda>e. qe_client e \<noteq> []) (sd_cursor db) (sd_client db) (hi_client h)"
    and "\<forall>e\<in>set (sd_log db). qe_id e \<le> sd_seq db" and "sd_cursor db \<le> sd_seq db" and "0 \<le> sd_seq db"
  using assms by (simp_all add: log_ok_def)

lemma counted_categories_by:
  assumes "follows cursor rows h"
  shows "counted_categories t h \<longleftrightarrow> counted_by category_key is_blocked (\<lambda>e. qe_content e \<noteq> []) cursor t h"
  using assms by (auto simp: counted_categories_def counted_by_def follows_def)

lemma number_entries_bounds:
  "e \<in> set (number_entries i es) \<Longrightarrow> i < qe_id e \<and> qe_id e \<le> i + int (length es)"
proof (induction es arbitrary: i)
  case (Cons x es)
  then show ?case using Cons.IH [of "i + 1"] by fastforce
qed simp

lemma number_entries_distinct: "distinct (map qe_id (number_entries i es))"
proof (induction es arbitrary: i)
  case (Cons x es)
  then show ?case using number_entries_bounds [of _ "i + 1" es] by fastforce
qed simp

lemma logged_ok: "log_ok (db, h) \<Longrightarrow> log_ok (insert_node_query_log node es db, h)"
proof -
  assume ok: "log_ok (db, h)"
  let ?new = "number_entries (sd_seq db) (map (\<lambda>e. e\<lparr>qe_node := node\<rparr>) es)"
  note o = log_okD [OF ok]
  have new: "sd_seq db < qe_id e \<and> qe_id e \<le> sd_seq db + int (length es)" if "e \<in> set ?new" for e
    using number_entries_bounds [OF that] by simp
  have "follows (sd_cursor db) (sd_log db @ ?new) (hi_hour h)"
    using o(1,6,7) new number_entries_distinct [of "sd_seq db"] by (fastforce simp: follows_def)
  moreover have "\<forall>e\<in>set (sd_log db @ ?new). qe_id e \<le> sd_seq db + int (length es)"
    using o(6) new by fastforce
  ultimately show ?thesis
    using o by (simp add: log_ok_def insert_node_query_log_def)
qed

lemma subset_ok:
  assumes "log_ok (db, h)"
  shows "log_ok (db\<lparr>sd_log := filter p (sd_log db)\<rparr>, h)"
proof -
  note o = log_okD [OF assms]
  have "follows (sd_cursor db) (filter p (sd_log db)) (hi_hour h)"
    using o(1) by (auto simp: follows_def distinct_map_filter)
  with o show ?thesis by (simp add: log_ok_def)
qed

lemma advanced_ok:
  assumes ok: "log_ok (db, h)"
  shows "log_ok (snd (rollup_advance batch db),
     \<lparr>hi_minute = hi_minute h @ newly_counted batch db, hi_client = hi_client h @ newly_counted batch db,
      hi_hour = hi_hour h @ map core (newly_counted batch db)\<rparr>)"
proof (cases "max_log_id db \<le> sd_cursor db")
  case True
  then have "newly_counted batch db = []" "rollup_advance batch db = (False, db)"
    by (auto simp: newly_counted_def rollup_advance_def Let_def filter_empty_conv)
  with ok show ?thesis by (simp add: log_ok_def)
next
  case False
  note o = log_okD [OF ok]
  let ?b = "if batch \<le> 0 then 50000 else batch"
  let ?upto = "min (sd_cursor db + ?b) (max_log_id db)" and ?new = "newly_counted batch db"
  have new: "?new = filter (\<lambda>e. sd_cursor db < qe_id e \<and> qe_id e \<le> ?upto) (sd_log db)"
    and db: "snd (rollup_advance batch db) = (rollup_statements ?new db)\<lparr>sd_cursor := ?upto\<rparr>"
    using False by (simp_all add: newly_counted_def rollup_advance_def rollup_statements_def Let_def)
  have top: "max_log_id db \<le> sd_seq db" using max_log_id_bounds(2) o(6,8) by blast
  have up: "sd_cursor db \<le> ?upto" "?upto \<le> sd_seq db" using False top by auto
  have d: "distinct (map qe_id ?new)" using o(1) by (simp add: new distinct_map_filter follows_def)
  have b: "\<forall>e\<in>set ?new. sd_cursor db < qe_id e \<and> qe_id e \<le> ?upto" by (simp add: new)
  note f = counted_by_fold [OF _ up(1) d b]
  have fol: "follows ?upto (sd_log db) (hi_hour h @ map core ?new)"
    unfolding follows_def
  proof (intro conjI ballI impI)
    show "distinct (map qe_id (sd_log db))" using o(1) by (simp add: follows_def)
    have "qe_id g \<notin> qe_id ` set ?new" if "g \<in> set (hi_hour h)" for g
      using that o(1) b by (fastforce simp: follows_def)
    then show "distinct (map qe_id (hi_hour h @ map core ?new))"
      using o(1) d by (auto simp: follows_def comp_def)
    show "core e \<in> set (hi_hour h @ map core ?new)" if "e \<in> set (sd_log db)" "qe_id e \<le> ?upto" for e
      using that o(1) by (cases "qe_id e \<le> sd_cursor db") (auto simp: follows_def new)
    show "core g = g" "qe_id g \<le> ?upto" if "g \<in> set (hi_hour h @ map core ?new)" for g
      using that o(1) b up(1) by (force simp: follows_def)+
  qed
  have cat: "counted_by category_key is_blocked (\<lambda>e. qe_content e \<noteq> []) (sd_cursor db) (sd_category db) (hi_hour h)"
    using o(2) unfolding counted_categories_by [OF o(1)] .
  have "tally category_key is_blocked (filter (\<lambda>e. qe_content e \<noteq> []) (xs @ map core ys)) =
      tally category_key is_blocked (filter (\<lambda>e. qe_content e \<noteq> []) (xs @ ys))" for xs ys
    by (rule ext) (simp add: tally_def count_sum_def filter_map comp_def Let_def)
  then have "counted_categories (fold_rows category_key is_blocked (filter (\<lambda>e. qe_content e \<noteq> []) ?new) (sd_category db))
      (hi_hour h @ map core ?new)"
    using f [OF cat] by (simp only: counted_categories_def counted_by_def)
  then show ?thesis
    using fol f [OF o(3)] f [OF o(4)] f [OF o(5)] o(6,8) up(2)
    by (simp add: log_ok_def db rollup_statements_def)
qed

lemma pruned_ok:
  assumes ok: "log_ok (db, h)" and young: "list_all (\<lambda>e. sql_div before 3600000 \<le> hour_of e) (sd_log db)"
  shows "log_ok (prune_rollups before db,
     \<lparr>hi_minute = filter (\<lambda>e. \<not> minute_of e < sql_div before 60000) (hi_minute h),
      hi_client = filter (\<lambda>e. \<not> hour_of e < sql_div before 3600000) (hi_client h),
      hi_hour = filter (\<lambda>e. \<not> hour_of e < sql_div before 3600000) (hi_hour h)\<rparr>)"
proof -
  note o = log_okD [OF ok]
  let ?hour = "\<lambda>e. \<not> hour_of e < sql_div before 3600000"
  have fol: "follows (sd_cursor db) (sd_log db) (filter ?hour (hi_hour h))"
    using o(1) young by (auto simp: follows_def distinct_map_filter list_all_iff)
  have cat: "counted_by category_key is_blocked (\<lambda>e. qe_content e \<noteq> []) (sd_cursor db) (sd_category db) (hi_hour h)"
    using o(2) unfolding counted_categories_by [OF o(1)] .
  note contents.dropped_before [OF cat, of "sql_div before 3600000"]
  then have "counted_categories (filter (\<lambda>(k, _). \<not> fst k < sql_div before 3600000) (sd_category db)) (filter ?hour (hi_hour h))"
    unfolding counted_categories_by [OF fol] .
  then show ?thesis
    using fol o queries.dropped_before [OF o(3)] upstreams.dropped_before [OF o(4)] clients.dropped_before [OF o(5)]
    by (simp add: log_ok_def prune_rollups_def)
qed

lemma renaming_ok:
  assumes ok: "log_ok (db, h)" and "old \<noteq> new"
  shows "log_ok (rename_history old new db,
     \<lparr>hi_minute = map (renamed old new) (hi_minute h), hi_client = map (renamed old new) (hi_client h),
      hi_hour = map (renamed old new) (hi_hour h)\<rparr>)"
proof -
  note o = log_okD [OF ok]
  let ?r = "renamed old new"
  have r: "qe_id (?r e) = qe_id e" "core (?r e) = ?r (core e)" for e
    by (simp_all add: renamed_def core_def)
  have rename: "rename_history old new db = db\<lparr>sd_log := map ?r (sd_log db), sd_query := merge_node old new (sd_query db),
     sd_client := merge_node old new (sd_client db), sd_category := merge_node old new (sd_category db),
     sd_upstream := merge_node old new (sd_upstream db)\<rparr>"
    by (simp add: rename_history_def renamed_def cong: if_cong)
  have fol: "follows (sd_cursor db) (map ?r (sd_log db)) (map ?r (hi_hour h))"
    using o(1) by (auto simp: follows_def comp_def r)
  have cat: "counted_by category_key is_blocked (\<lambda>e. qe_content e \<noteq> []) (sd_cursor db) (sd_category db) (hi_hour h)"
    using o(2) unfolding counted_categories_by [OF o(1)] .
  have "counted_by category_key is_blocked (\<lambda>e. qe_content e \<noteq> []) (sd_cursor db) (merge_node old new (sd_category db)) (map ?r (hi_hour h))"
    by (rule contents.merged [OF cat assms(2)])
  then have 1: "counted_categories (merge_node old new (sd_category db)) (map ?r (hi_hour h))"
    unfolding counted_categories_by [OF fol] .
  show ?thesis
    using fol 1 queries.merged [OF o(3) assms(2)] upstreams.merged [OF o(4) assms(2)] clients.merged [OF o(5) assms(2)] o r by (simp add: log_ok_def rename)
qed

lemma log_step_ok: "log_step s s' \<Longrightarrow> log_ok s \<Longrightarrow> log_ok s'"
proof (induction rule: log_step.induct)
  case (logged db h node es) then show ?case by (rule logged_ok)
next
  case (advanced db h batch) then show ?case by (rule advanced_ok)
next
  case (pruned_log db h before) then show ?case by (simp add: prune_query_log_def subset_ok)
next
  case (deleted db h before) then show ?case by (simp add: delete_rolled_up_def Let_def subset_ok)
next
  case (pruned before db h) then show ?case by (intro pruned_ok)
next
  case (renaming old new db h) then show ?case by (intro renaming_ok)
next
  case (relabelled visit db h labels)
  obtain n db' where c: "relabel_content visit labels db = (n, db')" by fastforce
  note o = log_okD [OF relabelled.prems]
  note r = relabel_counted [OF o(1,2) relabelled.hyps c]
  have "qe_id ` set (sd_log db') = qe_id ` set (sd_log db)" using r by (metis list.set_map)
  then have "\<forall>e\<in>set (sd_log db'). qe_id e \<le> sd_seq db" using o(6) by (metis (no_types, lifting) imageE imageI)
  with r o c show ?case by (simp add: log_ok_def)
next
  case (scrubbed f db h)
  note o = log_okD [OF scrubbed.prems]
  have f: "qe_id (f e) = qe_id e" for e using scrubbed.hyps [of e] by (metis core_fields(1))
  have "follows (sd_cursor db) (map f (sd_log db)) (hi_hour h)"
    using o(1) scrubbed.hyps by (auto simp: follows_def comp_def f)
  with o f show ?case by (simp add: log_ok_def)
qed

definition no_history :: history where
  "no_history = \<lparr>hi_minute = [], hi_client = [], hi_hour = []\<rparr>"

lemma log_ok_start: "log_ok (empty_stats, no_history)"
  by (simp add: log_ok_def empty_stats_def no_history_def follows_def counted_categories_def counted_by_def
      tally_def fun_eq_iff)

lemma log_reachable_ok: "log_step\<^sup>*\<^sup>* (empty_stats, no_history) (db, h) \<Longrightarrow> log_ok (db, h)"
  by (induction rule: rtranclp_induct) (auto intro: log_ok_start log_step_ok)

definition some_query :: query_entry where
  "some_query = \<lparr>qe_id = 0, qe_ts = 60001, qe_client = ''c'', qe_name = ''a.com.'', qe_qtype = ''A'', qe_action = ''forward'',
    qe_category = [], qe_rcode = ''NOERROR'', qe_elapsed = 2, qe_node = [], qe_content = ''other'', qe_upstream = ''u'',
    qe_forwarder = []\<rparr>"

definition two_queries :: stats_db where
  "two_queries = insert_node_query_log ''n'' [some_query, some_query\<lparr>qe_action := ''blocked''\<rparr>] empty_stats"



end
