(* ===== verification/Query_Reports.thy ===== *)
theory Query_Reports
  imports Rollup_Facts
begin

section \<open>Reports over the query log and its rollups (internal/store: stats.go, rollup.go, clients.go, categories.go)\<close>

text \<open>
  The dashboard's reports, each once over the log and once over the rollup that mirrors it. A
  statement without ORDER BY, or with one that leaves ties open, returns its groups in an order
  that is an argument (\<open>visit\<close>). Times of the log are milliseconds, those of a series seconds.
\<close>

subsection \<open>Windows and nodes\<close>

definition node_filter :: "string list \<Rightarrow> string \<Rightarrow> bool" where
  [model]: "node_filter nodes n \<longleftrightarrow> nodes = [] \<or> n \<in> set nodes"

definition or_master :: "string \<Rightarrow> string" where
  [model]: "or_master n = (if n = [] then ''master'' else n)"

definition log_window :: "int \<Rightarrow> string list \<Rightarrow> stats_db \<Rightarrow> query_entry list" where
  [model]: "log_window since nodes db = filter (\<lambda>e. since \<le> qe_ts e \<and> node_filter nodes (qe_node e)) (sd_log db)"

definition rollup_window :: "int \<Rightarrow> string list \<Rightarrow> (int \<times> string \<times> 'c, 'v) counts \<Rightarrow> (int \<times> string \<times> 'c, 'v) counts" where
  [model]: "rollup_window since nodes t = filter (\<lambda>((b, n, _), _). since \<le> b \<and> node_filter nodes n) t"

text \<open>\<open>SUM(cnt), SUM(lat_sum)\<close> over the rows of a rollup.\<close>

definition sum_counts :: "('k, 'v :: comm_monoid_add) counts \<Rightarrow> int \<times> 'v" where
  [model]: "sum_counts rows = (sum_list (map (fst \<circ> snd) rows), sum_list (map (snd \<circ> snd) rows))"

definition step_or_hour :: "int \<Rightarrow> int" where
  [model]: "step_or_hour step = (if step \<le> 0 then 3600 else step)"

text \<open>\<open>for b := start; b <= end; b += step\<close>\<close>

definition bucket_starts :: "int \<Rightarrow> int \<Rightarrow> int \<Rightarrow> int list" where
  [model]: "bucket_starts start end step =
     (if end < start then [] else map (\<lambda>i. start + int i * step) [0..<nat ((end - start) div step) + 1])"

definition series_bounds :: "int \<Rightarrow> int \<Rightarrow> int \<Rightarrow> int \<times> int" where
  [model]: "series_bounds since step now =
     (let start = sql_div (sql_div since 1000) step * step; end = sql_div now step * step in
      (start, if end < start then start else end))"

subsection \<open>Series of counts\<close>

record series_point =
  sp_ts :: int
  sp_total :: int
  sp_blocked :: int
  sp_forwarded :: int
  sp_cached :: int
  sp_latency :: real

definition empty_point :: "int \<Rightarrow> series_point" where
  [model]: "empty_point b =
     \<lparr>sp_ts = b, sp_total = 0, sp_blocked = 0, sp_forwarded = 0, sp_cached = 0, sp_latency = 0\<rparr>"

text \<open>One row of the result; the two maps of the code, points and summed latency, are one.\<close>

definition add_series_row :: "(int \<times> string) \<times> int \<times> real \<Rightarrow> (int \<Rightarrow> (series_point \<times> real) option)
    \<Rightarrow> int \<Rightarrow> (series_point \<times> real) option" where
  [model]: "add_series_row row m =
     (let ((b, action), n, s) = row;
          (p, elapsed) = (case m b of None \<Rightarrow> (empty_point b, 0) | Some e \<Rightarrow> e);
          p = p\<lparr>sp_total := sp_total p + n\<rparr>;
          p = (if action = ''blocked'' then p\<lparr>sp_blocked := sp_blocked p + n\<rparr>
               else if action = ''forward'' then p\<lparr>sp_forwarded := sp_forwarded p + n\<rparr>
               else if action = ''cache'' then p\<lparr>sp_cached := sp_cached p + n\<rparr> else p) in
      m(b \<mapsto> (p, elapsed + s)))"

definition with_mean :: "series_point \<times> real \<Rightarrow> series_point" where
  [model]: "with_mean e =
     (if 0 < sp_total (fst e) then (fst e)\<lparr>sp_latency := snd e / real_of_int (sp_total (fst e))\<rparr> else fst e)"

definition series_points :: "((int \<times> string) \<times> int \<times> real) list \<Rightarrow> int list \<Rightarrow> series_point list" where
  [model]: "series_points rows bs =
     (let m = fold add_series_row rows Map.empty in
      map (\<lambda>b. case m b of None \<Rightarrow> empty_point b | Some e \<Rightarrow> with_mean e) bs)"

definition rollup_time_series ::
    "(((int \<times> string) \<times> int \<times> real) list \<Rightarrow> ((int \<times> string) \<times> int \<times> real) list)
     \<Rightarrow> int \<Rightarrow> int \<Rightarrow> string list \<Rightarrow> int \<Rightarrow> stats_db \<Rightarrow> series_point list" where
  [model]: "rollup_time_series visit since step nodes now db =
     (let step = step_or_hour step;
          rows = group_by (\<lambda>((b, _, a), _). (sql_div (b * 60) step * step, a)) sum_counts
            (rollup_window (sql_div since 60000) nodes (sd_query db));
          (start, end) = series_bounds since step now in
      series_points (visit rows) (bucket_starts start end step))"

text \<open>\<open>make\<close> panics on a negative capacity: \<open>None\<close>.\<close>

definition query_time_series ::
    "(((int \<times> string) \<times> int \<times> real) list \<Rightarrow> ((int \<times> string) \<times> int \<times> real) list)
     \<Rightarrow> int \<Rightarrow> int \<Rightarrow> string list \<Rightarrow> int \<Rightarrow> stats_db \<Rightarrow> series_point list option" where
  [model]: "query_time_series visit since step nodes now db =
     (let step = step_or_hour step;
          rows = group_by (\<lambda>e. (sql_div (sql_div (qe_ts e) 1000) step * step, qe_action e)) (count_sum qe_elapsed)
            (log_window since nodes db);
          start = sql_div (sql_div since 1000) step * step; end = sql_div now step * step in
      if sql_div (end - start) step + 1 < 0 then None
      else Some (series_points (visit rows) (bucket_starts start end step)))"

subsection \<open>Series of latencies\<close>

record latency_point =
  lp_ts :: int
  lp_overall :: real
  lp_by_node :: "string \<Rightarrow> real option"

definition add_latency_row :: "(int \<times> string) \<times> int \<times> real \<Rightarrow> (int \<Rightarrow> (int \<times> real) option) \<Rightarrow> int \<Rightarrow> (int \<times> real) option" where
  [model]: "add_latency_row row m =
     (let ((b, _), n, s) = row; (c, e) = (case m b of None \<Rightarrow> (0, 0) | Some a \<Rightarrow> a) in m(b \<mapsto> (c + n, e + s)))"

definition mean_of :: "(int \<times> real) option \<Rightarrow> real option" where
  [model]: "mean_of a = (case a of None \<Rightarrow> None | Some (n, s) \<Rightarrow> if 0 < n then Some (s / real_of_int n) else None)"

definition latency_points :: "((int \<times> string) \<times> int \<times> real) list \<Rightarrow> int list \<Rightarrow> latency_point list \<times> string list" where
  [model]: "latency_points rows bs =
     (let by_bucket = fold (\<lambda>(k, a) m. m(k \<mapsto> a)) rows Map.empty;
          overall = fold add_latency_row rows Map.empty in
      (map (\<lambda>b. \<lparr>lp_ts = b, lp_overall = (case mean_of (overall b) of None \<Rightarrow> 0 | Some x \<Rightarrow> x),
                 lp_by_node = (\<lambda>n. mean_of (by_bucket (b, n)))\<rparr>) bs,
       sort (remdups (map (snd \<circ> fst) rows))))"

definition rollup_latency ::
    "(((int \<times> string) \<times> int \<times> real) list \<Rightarrow> ((int \<times> string) \<times> int \<times> real) list)
     \<Rightarrow> int \<Rightarrow> int \<Rightarrow> string list \<Rightarrow> int \<Rightarrow> stats_db \<Rightarrow> latency_point list \<times> string list" where
  [model]: "rollup_latency visit since step nodes now db =
     (let step = step_or_hour step;
          rows = group_by (\<lambda>((b, n, _), _). (sql_div (b * 60) step * step, or_master n)) sum_counts
            (rollup_window (sql_div since 60000) nodes (sd_query db));
          (start, end) = series_bounds since step now in
      latency_points (visit rows) (bucket_starts start end step))"

definition latency_time_series ::
    "(((int \<times> string) \<times> int \<times> real) list \<Rightarrow> ((int \<times> string) \<times> int \<times> real) list)
     \<Rightarrow> int \<Rightarrow> int \<Rightarrow> string list \<Rightarrow> int \<Rightarrow> stats_db \<Rightarrow> (latency_point list \<times> string list) option" where
  [model]: "latency_time_series visit since step nodes now db =
     (let step = step_or_hour step;
          rows = group_by (\<lambda>e. (sql_div (sql_div (qe_ts e) 1000) step * step, or_master (qe_node e))) (count_sum qe_elapsed)
            (log_window since nodes db);
          start = sql_div (sql_div since 1000) step * step; end = sql_div now step * step in
      if sql_div (end - start) step + 1 < 0 then None
      else Some (latency_points (visit rows) (bucket_starts start end step)))"

subsection \<open>Totals\<close>

record window_totals =
  wt_total :: int
  wt_blocked :: int
  wt_cached :: int
  wt_forwarded :: int
  wt_rewritten :: int
  wt_errors :: int

record window_summary =
  ws_totals :: window_totals
  ws_clients :: int
  ws_latency :: real

definition no_totals :: window_totals where
  "no_totals = \<lparr>wt_total = 0, wt_blocked = 0, wt_cached = 0, wt_forwarded = 0, wt_rewritten = 0, wt_errors = 0\<rparr>"

definition add_total :: "string \<times> int \<times> real \<Rightarrow> window_totals \<times> real \<Rightarrow> window_totals \<times> real" where
  [model]: "add_total row acc =
     (let (action, n, s) = row; (t, l) = acc; t = t\<lparr>wt_total := wt_total t + n\<rparr> in
      (if action = ''blocked'' then t\<lparr>wt_blocked := wt_blocked t + n\<rparr>
       else if action = ''cache'' then t\<lparr>wt_cached := wt_cached t + n\<rparr>
       else if action = ''forward'' then t\<lparr>wt_forwarded := wt_forwarded t + n\<rparr>
       else if action = ''rewrite'' then t\<lparr>wt_rewritten := wt_rewritten t + n\<rparr>
       else if action = ''error'' then t\<lparr>wt_errors := wt_errors t + n\<rparr> else t, l + s))"

definition rollup_summary :: "((string \<times> int \<times> real) list \<Rightarrow> (string \<times> int \<times> real) list)
    \<Rightarrow> int \<Rightarrow> string list \<Rightarrow> stats_db \<Rightarrow> window_summary" where
  [model]: "rollup_summary visit since nodes db =
     (let rows = group_by (\<lambda>((_, _, a), _). a) sum_counts (rollup_window (sql_div since 60000) nodes (sd_query db));
          (t, lat) = fold add_total (visit rows) (no_totals, 0) in
      \<lparr>ws_totals = t,
       ws_clients = int (length (remdups (map (\<lambda>((_, _, c), _). c) (rollup_window (sql_div since 3600000) nodes (sd_client db))))),
       ws_latency = (if 0 < wt_total t then lat / real_of_int (wt_total t) else 0)\<rparr>)"

text \<open>\<open>COALESCE(AVG(elapsed_ms), 0)\<close>\<close>

definition avg_elapsed :: "query_entry list \<Rightarrow> real" where
  [model]: "avg_elapsed rows = (if rows = [] then 0 else sum_list (map qe_elapsed rows) / real (length rows))"

definition action_count :: "string \<Rightarrow> query_entry list \<Rightarrow> int" where
  [model]: "action_count a rows = int (length (filter (\<lambda>e. qe_action e = a) rows))"

definition action_totals :: "query_entry list \<Rightarrow> window_totals" where
  [model]: "action_totals rows =
     \<lparr>wt_total = int (length rows), wt_blocked = action_count ''blocked'' rows, wt_cached = action_count ''cache'' rows,
      wt_forwarded = action_count ''forward'' rows, wt_rewritten = action_count ''rewrite'' rows,
      wt_errors = action_count ''error'' rows\<rparr>"

definition window_summary :: "int \<Rightarrow> string list \<Rightarrow> stats_db \<Rightarrow> window_summary" where
  [model]: "window_summary since nodes db =
     (let rows = log_window since nodes db in
      \<lparr>ws_totals = action_totals rows, ws_clients = int (length (remdups (map qe_client rows))), ws_latency = avg_elapsed rows\<rparr>)"

definition windowed_totals :: "int \<Rightarrow> string list \<Rightarrow> stats_db \<Rightarrow> window_totals" where
  [model]: "windowed_totals since nodes db = ws_totals (window_summary since nodes db)"

definition client_count :: "int \<Rightarrow> string list \<Rightarrow> stats_db \<Rightarrow> int" where
  [model]: "client_count since nodes db =
     int (length (remdups (map qe_client (filter (\<lambda>e. qe_client e \<noteq> []) (log_window since nodes db)))))"

definition avg_latency :: "int \<Rightarrow> string list \<Rightarrow> stats_db \<Rightarrow> real" where
  [model]: "avg_latency since nodes db = avg_elapsed (log_window since nodes db)"

subsection \<open>Breakdowns\<close>

text \<open>\<open>GROUP BY k ORDER BY the count DESC\<close>, with a limit where there is one.\<close>

definition top_groups :: "(('k \<times> int \<times> 'v) list \<Rightarrow> ('k \<times> int \<times> 'v) list) \<Rightarrow> ('k \<times> int \<times> 'v) list \<Rightarrow> ('k \<times> int \<times> 'v) list" where
  [model]: "top_groups visit rows = sort_key (\<lambda>(_, n, _). - n) (visit rows)"

definition limit_or :: "int \<Rightarrow> int \<Rightarrow> nat" where
  [model]: "limit_or d limit = nat (if limit \<le> 0 then d else limit)"

type_synonym 'k ranking = "('k \<times> int \<times> int) list"

definition rollup_by_node :: "(string ranking \<Rightarrow> string ranking) \<Rightarrow> int \<Rightarrow> string list \<Rightarrow> stats_db \<Rightarrow> string ranking" where
  [model]: "rollup_by_node visit since nodes db = top_groups visit
     (group_by (\<lambda>((_, n, _), _). or_master n)
        (\<lambda>rows. (sum_list (map (\<lambda>(_, n, _). n) rows),
                 sum_list (map (\<lambda>((_, _, a), n, _). if a = ''blocked'' then n else 0) rows)))
        (rollup_window (sql_div since 60000) nodes (sd_query db)))"

definition queries_by_node :: "(string ranking \<Rightarrow> string ranking) \<Rightarrow> int \<Rightarrow> string list \<Rightarrow> stats_db \<Rightarrow> string ranking" where
  [model]: "queries_by_node visit since nodes db = top_groups visit
     (group_by (\<lambda>e. or_master (qe_node e)) (count_sum is_blocked) (log_window since nodes db))"

definition rollup_top_clients :: "(string ranking \<Rightarrow> string ranking) \<Rightarrow> int \<Rightarrow> int \<Rightarrow> string list \<Rightarrow> stats_db \<Rightarrow> string ranking" where
  [model]: "rollup_top_clients visit since limit nodes db = take (limit_or 10 limit) (top_groups visit
     (group_by (\<lambda>((_, _, c), _). c) sum_counts (rollup_window (sql_div since 3600000) nodes (sd_client db))))"

definition queries_by_client :: "(string ranking \<Rightarrow> string ranking) \<Rightarrow> int \<Rightarrow> int \<Rightarrow> string list \<Rightarrow> stats_db \<Rightarrow> string ranking" where
  [model]: "queries_by_client visit since limit nodes db = take (limit_or 10 limit) (top_groups visit
     (group_by qe_client (count_sum is_blocked) (filter (\<lambda>e. qe_client e \<noteq> []) (log_window since nodes db))))"

definition rollup_by_category :: "(string ranking \<Rightarrow> string ranking) \<Rightarrow> int \<Rightarrow> string list \<Rightarrow> stats_db \<Rightarrow> string ranking" where
  [model]: "rollup_by_category visit since nodes db = top_groups visit
     (group_by (\<lambda>((_, _, c), _). c) sum_counts (rollup_window (sql_div since 3600000) nodes (sd_category db)))"

record upstream_stat =
  us_forwarder :: string
  us_upstream :: string
  us_count :: int
  us_latency :: real

definition rollup_by_upstream :: "int \<Rightarrow> string list \<Rightarrow> stats_db \<Rightarrow> upstream_stat list" where
  [model]: "rollup_by_upstream since nodes db =
     map (\<lambda>((f, u), n, s). \<lparr>us_forwarder = f, us_upstream = u, us_count = n,
                          us_latency = (if 0 < n then s / real_of_int n else 0)\<rparr>)
       (sort_key (\<lambda>((f, u), n, _). (- n, f, u))
         (group_by (\<lambda>((_, _, k), _). k) sum_counts (rollup_window (sql_div since 60000) nodes (sd_upstream db))))"

text \<open>Counts by one column of the log.\<close>

definition count_column :: "((string \<times> int \<times> unit) list \<Rightarrow> (string \<times> int \<times> unit) list) \<Rightarrow> (query_entry \<Rightarrow> string)
    \<Rightarrow> query_entry list \<Rightarrow> (string \<times> int) list" where
  [model]: "count_column visit col rows =
     map (\<lambda>(k, n, _). (k, n)) (top_groups visit (group_by col (\<lambda>g. (int (length g), ())) rows))"

definition block_reason :: "query_entry \<Rightarrow> string" where
  [model]: "block_reason e = (if qe_category e = [] then ''custom'' else qe_category e)"

definition blocked_rows :: "query_entry list \<Rightarrow> query_entry list" where
  [model]: "blocked_rows rows = filter (\<lambda>e. qe_action e = ''blocked'') rows"

definition blocked_by_category where
  [model]: "blocked_by_category visit since nodes db = count_column visit block_reason (blocked_rows (log_window since nodes db))"

definition top_domains where
  [model]: "top_domains visit since limit blocked_only nodes db =
     take (limit_or 10 limit) (count_column visit qe_name
       (if blocked_only then blocked_rows (log_window since nodes db) else log_window since nodes db))"

definition query_type_breakdown where
  [model]: "query_type_breakdown visit since nodes db = count_column visit qe_qtype (log_window since nodes db)"

record insights =
  in_clients :: "string ranking"
  in_queried :: "(string \<times> int) list"
  in_blocked :: "(string \<times> int) list"

definition compute_insights where
  [model]: "compute_insights visit_clients visit since limit nodes db =
     \<lparr>in_clients = queries_by_client visit_clients since limit nodes db,
      in_queried = top_domains visit since limit False nodes db,
      in_blocked = top_domains visit since limit True nodes db\<rparr>"

subsection \<open>One client\<close>

text \<open>A row of the list of clients: the client, its queries, those blocked and when it was last seen.\<close>

definition client_list :: "((string \<times> int \<times> int \<times> int) list \<Rightarrow> (string \<times> int \<times> int \<times> int) list)
    \<Rightarrow> int \<Rightarrow> int \<Rightarrow> string list \<Rightarrow> stats_db \<Rightarrow> (string \<times> int \<times> int \<times> int) list" where
  [model]: "client_list visit since limit nodes db =
     take (nat (if limit \<le> 0 \<or> 1000 < limit then 200 else limit)) (top_groups visit
       (group_by qe_client (\<lambda>g. (int (length g), sum_list (map is_blocked g), foldr max (map qe_ts (tl g)) (qe_ts (hd g))))
         (filter (\<lambda>e. qe_client e \<noteq> []) (log_window since nodes db))))"

record client_detail =
  cd_totals :: window_totals
  cd_domains :: int
  cd_first_seen :: int
  cd_last_seen :: int
  cd_latency :: real
  cd_actions :: "(string \<times> int) list"
  cd_categories :: "(string \<times> int) list"
  cd_content :: "(string \<times> int) list"
  cd_top_domains :: "(string \<times> int) list"
  cd_top_blocked :: "(string \<times> int) list"

definition client_detail_stats where
  [model]: "client_detail_stats visit client since nodes db =
     (let rows = filter (\<lambda>e. qe_client e = client) (log_window since nodes db) in
      \<lparr>cd_totals = action_totals rows,
       cd_domains = int (length (remdups (map qe_name rows))),
       cd_first_seen = (case rows of [] \<Rightarrow> 0 | e # es \<Rightarrow> foldr min (map qe_ts es) (qe_ts e)),
       cd_last_seen = (case rows of [] \<Rightarrow> 0 | e # es \<Rightarrow> foldr max (map qe_ts es) (qe_ts e)),
       cd_latency = avg_elapsed rows,
       cd_actions = count_column visit qe_action rows,
       cd_categories = count_column visit block_reason (blocked_rows rows),
       cd_content = count_column visit qe_content (filter (\<lambda>e. qe_content e \<noteq> []) rows),
       cd_top_domains = take 10 (count_column visit qe_name rows),
       cd_top_blocked = take 10 (count_column visit qe_name (blocked_rows rows))\<rparr>)"

subsection \<open>Searching the log (querylog.go)\<close>

text \<open>\<open>LIKE\<close> of SQLite: \<open>%\<close> is any text, \<open>_\<close> one character, letters match in either case.\<close>

function sql_like :: "string \<Rightarrow> string \<Rightarrow> bool" where
  "sql_like [] s \<longleftrightarrow> s = []"
| "sql_like (p # ps) s \<longleftrightarrow>
     (if p = CHR ''%'' then sql_like ps s \<or> (case s of [] \<Rightarrow> False | c # cs \<Rightarrow> sql_like (p # ps) cs)
      else (case s of [] \<Rightarrow> False | c # cs \<Rightarrow> (p = CHR ''_'' \<or> lower_char p = lower_char c) \<and> sql_like ps cs))"
  by pat_completeness auto
termination
  by (relation "measure (\<lambda>(p, s). length p + length s)") auto

declare sql_like.simps [simp del]

record log_query =
  lq_search :: string
  lq_action :: string
  lq_qtype :: string
  lq_category :: string
  lq_content :: string
  lq_upstream :: string
  lq_forwarder :: string
  lq_nodes :: "string list"
  lq_since :: int
  lq_sort :: string
  lq_desc :: bool
  lq_limit :: int
  lq_offset :: int

text \<open>The conditions that are added: an empty field of the query adds none.\<close>

definition log_query_where :: "log_query \<Rightarrow> query_entry \<Rightarrow> bool" where
  [model]: "log_query_where q e \<longleftrightarrow>
     (0 < lq_since q \<longrightarrow> lq_since q \<le> qe_ts e)
     \<and> (lq_search q \<noteq> [] \<longrightarrow> (let l = ''%'' @ lq_search q @ ''%'' in sql_like l (qe_name e) \<or> sql_like l (qe_client e)))
     \<and> (lq_action q \<noteq> [] \<longrightarrow> qe_action e = lq_action q)
     \<and> (lq_qtype q \<noteq> [] \<longrightarrow> qe_qtype e = lq_qtype q)
     \<and> (lq_category q \<noteq> [] \<longrightarrow> qe_category e = lq_category q)
     \<and> (lq_content q \<noteq> [] \<longrightarrow> qe_content e = lq_content q)
     \<and> (lq_upstream q \<noteq> [] \<longrightarrow> qe_upstream e = lq_upstream q \<and> (lq_forwarder q \<noteq> [] \<longrightarrow> qe_forwarder e = lq_forwarder q))
     \<and> node_filter (lq_nodes q) (qe_node e)"

text \<open>\<open>ORDER BY col dir, id DESC\<close>\<close>

definition order_by :: "(query_entry \<Rightarrow> 'a :: linorder) \<Rightarrow> bool \<Rightarrow> query_entry list \<Rightarrow> query_entry list" where
  [model]: "order_by col desc rows =
     (let rows = sort_key (\<lambda>e. - qe_id e) rows in
      if desc then rev (sort_key col (rev rows)) else sort_key col rows)"

definition text_column :: "string \<Rightarrow> (query_entry \<Rightarrow> string) option" where
  [model]: "text_column key = map_of
     [(''name'', qe_name), (''client'', qe_client), (''qtype'', qe_qtype), (''action'', qe_action),
      (''category'', qe_category), (''content'', qe_content), (''rcode'', qe_rcode), (''node'', qe_node),
      (''upstream'', qe_upstream)] key"

definition sorted_page :: "string \<Rightarrow> bool \<Rightarrow> query_entry list \<Rightarrow> query_entry list" where
  [model]: "sorted_page key desc rows =
     (let desc = (desc \<or> key = []) in
      case text_column key of
        Some col \<Rightarrow> order_by col desc rows
      | None \<Rightarrow> if key = ''ms'' then order_by qe_elapsed desc rows else order_by qe_id desc rows)"

definition search_query_log :: "log_query \<Rightarrow> stats_db \<Rightarrow> query_entry list \<times> int" where
  [model]: "search_query_log q db =
     (let limit = (if lq_limit q \<le> 0 \<or> 1000 < lq_limit q then 50 else lq_limit q);
          offset = (if lq_offset q < 0 then 0 else lq_offset q);
          rows = filter (log_query_where q) (sd_log db) in
      (take (nat limit) (drop (nat offset) (sorted_page (lq_sort q) (lq_desc q) rows)), int (length rows)))"

subsection \<open>The writer of an agent's own log (querylog.go)\<close>

text \<open>
  The channel holds what \<open>Write\<close> accepted and the goroutine has not received; \<open>batch\<close> is the
  goroutine's. \<open>ok\<close> says whether the insert succeeds: a failed batch is dropped.
\<close>

record log_writer =
  lw_capacity :: nat
  lw_chan :: "query_entry list"
  lw_batch :: "query_entry list"
  lw_dropped :: u64

definition new_log_writer :: "int \<Rightarrow> log_writer" where
  [model]: "new_log_writer buffer =
     \<lparr>lw_capacity = nat (if buffer \<le> 0 then 4096 else buffer), lw_chan = [], lw_batch = [], lw_dropped = 0\<rparr>"

definition lw_write :: "query_entry \<Rightarrow> log_writer \<Rightarrow> log_writer" where
  [model]: "lw_write e w =
     (if length (lw_chan w) < lw_capacity w then w\<lparr>lw_chan := lw_chan w @ [e]\<rparr>
      else w\<lparr>lw_dropped := lw_dropped w + 1\<rparr>)"

definition lw_flush :: "bool \<Rightarrow> log_writer \<times> stats_db \<Rightarrow> log_writer \<times> stats_db" where
  [model]: "lw_flush ok s =
     (let (w, db) = s in
      if lw_batch w = [] then s
      else (w\<lparr>lw_batch := []\<rparr>, if ok then insert_query_log_batch (lw_batch w) db else db))"

definition lw_receive :: "bool \<Rightarrow> log_writer \<times> stats_db \<Rightarrow> log_writer \<times> stats_db" where
  [model]: "lw_receive ok s =
     (let (w, db) = s in
      case lw_chan w of
        [] \<Rightarrow> s
      | e # es \<Rightarrow>
          (let w = w\<lparr>lw_chan := es, lw_batch := lw_batch w @ [e]\<rparr> in
           if 256 \<le> length (lw_batch w) then lw_flush ok (w, db) else (w, db)))"

text \<open>\<open>Close\<close>: the goroutine drains the channel, flushes and ends.\<close>

fun lw_drain :: "nat \<Rightarrow> log_writer \<times> stats_db \<Rightarrow> log_writer \<times> stats_db" where
  "lw_drain 0 s = s"
| "lw_drain (Suc n) s = lw_drain n (lw_receive True s)"

definition lw_close :: "log_writer \<times> stats_db \<Rightarrow> log_writer \<times> stats_db" where
  [model]: "lw_close s = lw_flush True (lw_drain (length (lw_chan (fst s))) s)"

end
