(* ===== verification/Report_Facts.thy ===== *)
theory Report_Facts
  imports Query_Reports
begin

section \<open>The rollup reports say what the log says\<close>

text \<open>
  Grouping the rows of a rollup gives the groups of the rows it counts. Every report is a
  function of its groups up to their order, so the reports over the rollups are those over the
  log wherever minutes can tell: from a whole minute on, in steps of whole minutes.
\<close>

subsection \<open>Groups\<close>

lemma map_of_group_by:
  fixes agg :: "'r list \<Rightarrow> 'a"
  shows "map_of (group_by key agg rows) k = (if k \<in> key ` set rows then Some (agg (filter (\<lambda>r. key r = k) rows)) else None)"
proof -
  have "map_of (map (\<lambda>k. (k, f k)) ks) k = (if k \<in> set ks then Some (f k) else None)" for ks and f :: "_ \<Rightarrow> 'a"
    by (induction ks) auto
  from this [of "\<lambda>k. agg (filter (\<lambda>r. key r = k) rows)"] show ?thesis by (simp add: group_by_def)
qed

lemma map_mset: "is_map xs \<Longrightarrow> is_map ys \<Longrightarrow> (\<And>k. map_of xs k = map_of ys k) \<Longrightarrow> mset xs = mset ys"
  by (metis distinct_map map_of_inject_set set_eq_iff_mset_eq_distinct ext)

lemma group_by_perm:
  assumes "mset xs = mset ys" and "\<And>as bs. mset as = mset bs \<Longrightarrow> agg as = agg bs"
  shows "mset (group_by key agg xs) = mset (group_by key agg ys)"
proof (rule map_mset)
  fix k
  have "set xs = set ys" using assms(1) by (metis set_mset_mset)
  moreover have "agg (filter (\<lambda>r. key r = k) xs) = agg (filter (\<lambda>r. key r = k) ys)"
    by (rule assms(2)) (simp add: assms(1))
  ultimately show "map_of (group_by key agg xs) k = map_of (group_by key agg ys) k" by (simp add: map_of_group_by)
qed (simp_all add: group_by_map)

lemma count_sum_perm: "mset as = mset bs \<Longrightarrow> count_sum wt as = count_sum wt bs"
proof -
  assume eq: "mset as = mset bs"
  then have "length as = length bs" by (metis size_mset)
  moreover have "sum_list (map wt as) = sum_list (map wt bs)"
    using eq by (metis mset_map sum_mset_sum_list)
  ultimately show ?thesis by (simp add: count_sum_def)
qed

text \<open>A sum over the entries of a table is the sum over the rows it counts.\<close>

lemma table_sum:
  assumes "is_map t" and "\<And>e. e \<in> set t \<Longrightarrow> f e = (\<Sum>r\<leftarrow>filter (\<lambda>r. key r = fst e) rows. w r :: 'a :: comm_monoid_add)"
    and "fst ` set t = key ` set rows"
  shows "(\<Sum>e\<leftarrow>filter (\<lambda>e. q (fst e)) t. f e) = (\<Sum>r\<leftarrow>filter (\<lambda>r. q (key r)) rows. w r)"
proof -
  let ?c = "\<lambda>k. \<Sum>r\<leftarrow>filter (\<lambda>r. key r = k) rows. w r"
  have "(\<Sum>e\<leftarrow>filter (\<lambda>e. q (fst e)) t. f e) = (\<Sum>e\<leftarrow>filter (\<lambda>e. q (fst e)) t. ?c (fst e))"
    using assms(2) by (intro arg_cong [where f = sum_list] map_cong) auto
  also have "\<dots> = (\<Sum>k\<leftarrow>map fst (filter (\<lambda>e. q (fst e)) t). ?c k)" by (simp add: comp_def)
  also have "map fst (filter (\<lambda>e. q (fst e)) t) = filter q (map fst t)" by (induction t) auto
  also have "(\<Sum>k\<leftarrow>filter q (map fst t). ?c k) = (\<Sum>k\<in>{k \<in> key ` set rows. q k}. ?c k)"
    using assms(1,3) by (subst sum_list_distinct_conv_sum_set) (auto intro: sum.cong)
  also have "\<dots> = (\<Sum>r\<leftarrow>filter (\<lambda>r. q (key r)) rows. w r)"
  proof -
    have "(\<Sum>k\<in>{k \<in> K. q k}. \<Sum>r\<leftarrow>filter (\<lambda>r. key r = k) rows. w r) = (\<Sum>r\<leftarrow>filter (\<lambda>r. q (key r)) rows. w r)"
      if "finite K" "key ` set rows \<subseteq> K" for K
      using that(2)
    proof (induction rows)
      case (Cons r rows)
      have "(\<Sum>k\<in>{k \<in> K. q k}. \<Sum>r\<leftarrow>filter (\<lambda>r. key r = k) (r # rows). w r) =
          (\<Sum>k\<in>{k \<in> K. q k}. (if key r = k then w r else 0) + (\<Sum>r\<leftarrow>filter (\<lambda>r. key r = k) rows. w r))"
        by (intro sum.cong) auto
      then show ?case using Cons that(1) by (simp add: sum.distrib sum.delta')
    qed simp
    then show ?thesis by simp
  qed
  finally show ?thesis .
qed

lemma tally_entries:
  assumes "is_map t" and "map_of t = tally key wt rows"
  shows "(k, n, v) \<in> set t \<Longrightarrow> n = (\<Sum>r\<leftarrow>filter (\<lambda>r. key r = k) rows. 1) \<and> v = (\<Sum>r\<leftarrow>filter (\<lambda>r. key r = k) rows. wt r)"
    and "fst ` set t = key ` set rows"
proof -
  assume "(k, n, v) \<in> set t"
  then have "tally key wt rows k = Some (n, v)" using assms by (metis map_of_is_SomeI)
  then show "n = (\<Sum>r\<leftarrow>filter (\<lambda>r. key r = k) rows. 1) \<and> v = (\<Sum>r\<leftarrow>filter (\<lambda>r. key r = k) rows. wt r)"
    by (auto simp: tally_def Let_def count_sum_def sum_list_triv split: if_splits)
next
  show "fst ` set t = key ` set rows"
    using assms(2) [unfolded tally_at [OF assms(1)]] by (simp add: dom_map_of_conv_image_fst)
qed

lemma regroup:
  assumes "is_map t" and "map_of t = tally key wt rows"
  shows "mset (group_by (\<lambda>e. f (fst e)) sum_counts (filter (\<lambda>e. p (fst e)) t)) =
    mset (group_by (\<lambda>r. f (key r)) (count_sum wt) (filter (\<lambda>r. p (key r)) rows))"
proof (rule map_mset)
  note e = tally_entries [OF assms]
  fix k
  have im: "k \<in> (\<lambda>e. f (fst e)) ` set (filter (\<lambda>e. p (fst e)) t) \<longleftrightarrow> k \<in> (\<lambda>r. f (key r)) ` set (filter (\<lambda>r. p (key r)) rows)"
  proof -
    have "(\<lambda>e. f (fst e)) ` set (filter (\<lambda>e. p (fst e)) t) = f ` {x \<in> fst ` set t. p x}" by auto
    moreover have "(\<lambda>r. f (key r)) ` set (filter (\<lambda>r. p (key r)) rows) = f ` {x \<in> key ` set rows. p x}" by auto
    ultimately show ?thesis by (simp only: e(2))
  qed
  let ?q = "\<lambda>x. p x \<and> f x = k"
  have flt: "filter (\<lambda>e. f (fst e) = k) (filter (\<lambda>e. p (fst e)) t) = filter (\<lambda>e. ?q (fst e)) t"
    "filter (\<lambda>r. f (key r) = k) (filter (\<lambda>r. p (key r)) rows) = filter (\<lambda>r. ?q (key r)) rows"
    by (simp_all add: conj_commute)
  have "(\<Sum>e\<leftarrow>filter (\<lambda>e. ?q (fst e)) t. fst (snd e)) = (\<Sum>r\<leftarrow>filter (\<lambda>r. ?q (key r)) rows. 1)"
    by (rule table_sum [OF assms(1) _ e(2), where f = "\<lambda>e. fst (snd e)"]) (use e(1) in auto)
  moreover have "(\<Sum>e\<leftarrow>filter (\<lambda>e. ?q (fst e)) t. snd (snd e)) = (\<Sum>r\<leftarrow>filter (\<lambda>r. ?q (key r)) rows. wt r)"
    by (rule table_sum [OF assms(1) _ e(2), where f = "\<lambda>e. snd (snd e)"]) (use e(1) in auto)
  ultimately have "sum_counts (filter (\<lambda>e. ?q (fst e)) t) = count_sum wt (filter (\<lambda>r. ?q (key r)) rows)"
    by (simp add: sum_counts_def count_sum_def comp_def sum_list_triv)
  then show "map_of (group_by (\<lambda>e. f (fst e)) sum_counts (filter (\<lambda>e. p (fst e)) t)) k =
      map_of (group_by (\<lambda>r. f (key r)) (count_sum wt) (filter (\<lambda>r. p (key r)) rows)) k"
    using im by (simp only: map_of_group_by flt)
qed (simp_all add: group_by_map)

subsection \<open>Reports as functions of their groups\<close>

lemma fold_perm:
  assumes "mset xs = mset ys" and "\<And>x y. x \<in> set xs \<Longrightarrow> y \<in> set xs \<Longrightarrow> f x \<circ> f y = f y \<circ> f x"
  shows "fold f xs = fold f ys"
  by (rule fold_multiset_equiv [OF assms(2,1)])

text \<open>One bucket's point takes the rows of its actions in any order.\<close>

definition bump :: "string \<Rightarrow> int \<Rightarrow> real \<Rightarrow> series_point \<times> real \<Rightarrow> series_point \<times> real" where
  "bump a n s e =
     ((fst e)\<lparr>sp_total := sp_total (fst e) + n,
       sp_blocked := sp_blocked (fst e) + (if a = ''blocked'' then n else 0),
       sp_forwarded := sp_forwarded (fst e) + (if a = ''forward'' then n else 0),
       sp_cached := sp_cached (fst e) + (if a = ''cache'' then n else 0)\<rparr>, snd e + s)"

lemma bump_commute: "bump a n s (bump a' n' s' e) = bump a' n' s' (bump a n s e)"
  by (simp add: bump_def ac_simps)

definition in_bucket :: "int \<Rightarrow> (series_point \<times> real) option \<Rightarrow> series_point \<times> real" where
  "in_bucket b o' = (case o' of None \<Rightarrow> (empty_point b, 0) | Some e \<Rightarrow> e)"

lemma add_series_row_bump: "add_series_row ((b, a), n, s) m = m(b \<mapsto> bump a n s (in_bucket b (m b)))"
  by (cases "in_bucket b (m b)") (simp add: add_series_row_def bump_def in_bucket_def [symmetric])

lemma add_series_row_commute: "add_series_row x \<circ> add_series_row y = add_series_row y \<circ> add_series_row x"
proof
  fix m
  obtain b a n s b' a' n' s' where xy: "x = ((b, a), n, s)" "y = ((b', a'), n', s')" by (metis prod.collapse)
  show "(add_series_row x \<circ> add_series_row y) m = (add_series_row y \<circ> add_series_row x) m"
    by (cases "b = b'") (simp_all add: xy add_series_row_bump bump_commute in_bucket_def [of _ "Some _"] fun_upd_twist)
qed

lemma series_points_perm:
  assumes "mset xs = mset ys" shows "series_points xs bs = series_points ys bs"
proof -
  note add_series_row_commute
  then have "fold add_series_row xs = fold add_series_row ys" by (intro fold_perm [OF assms])
  then show ?thesis by (simp add: series_points_def)
qed

lemma latency_points_perm:
  assumes "mset xs = mset ys" and "is_map xs" shows "latency_points xs bs = latency_points ys bs"
proof -
  have "add_latency_row x \<circ> add_latency_row y = add_latency_row y \<circ> add_latency_row x" for x y
    by (auto simp: fun_eq_iff add_latency_row_def Let_def split: option.splits prod.splits)
  then have "fold add_latency_row xs = fold add_latency_row ys" by (intro fold_perm [OF assms(1)])
  moreover have "fold (\<lambda>(k, a) m. m(k \<mapsto> a)) xs = fold (\<lambda>(k, a) m. m(k \<mapsto> a)) ys"
    using assms(2) by (intro fold_perm [OF assms(1)]) (auto simp: fun_eq_iff dest: eq_key_imp_eq_value)
  moreover have "sort (remdups (map (snd \<circ> fst) xs)) = sort (remdups (map (snd \<circ> fst) ys))"
    using assms(1) by (metis mset_map set_mset_mset sorted_list_of_set_sort_remdups)
  ultimately show ?thesis by (simp add: latency_points_def)
qed

lemma add_total_fields:
  "add_total (a, n, s) (t, l) =
     (t\<lparr>wt_total := wt_total t + n,
        wt_blocked := wt_blocked t + (if a = ''blocked'' then n else 0),
        wt_cached := wt_cached t + (if a = ''cache'' then n else 0),
        wt_forwarded := wt_forwarded t + (if a = ''forward'' then n else 0),
        wt_rewritten := wt_rewritten t + (if a = ''rewrite'' then n else 0),
        wt_errors := wt_errors t + (if a = ''error'' then n else 0)\<rparr>, l + s)"
  by (simp add: add_total_def Let_def)

lemma fold_add_total:
  "fold add_total rows (t, l) =
     (t\<lparr>wt_total := wt_total t + (\<Sum>r\<leftarrow>rows. fst (snd r)),
        wt_blocked := wt_blocked t + (\<Sum>r\<leftarrow>rows. if fst r = ''blocked'' then fst (snd r) else 0),
        wt_cached := wt_cached t + (\<Sum>r\<leftarrow>rows. if fst r = ''cache'' then fst (snd r) else 0),
        wt_forwarded := wt_forwarded t + (\<Sum>r\<leftarrow>rows. if fst r = ''forward'' then fst (snd r) else 0),
        wt_rewritten := wt_rewritten t + (\<Sum>r\<leftarrow>rows. if fst r = ''rewrite'' then fst (snd r) else 0),
        wt_errors := wt_errors t + (\<Sum>r\<leftarrow>rows. if fst r = ''error'' then fst (snd r) else 0)\<rparr>,
      l + (\<Sum>r\<leftarrow>rows. snd (snd r)))"
proof (induction rows arbitrary: t l)
  case (Cons r rows)
  obtain a n s where r: "r = (a, n, s)" by (metis prod_cases3)
  show ?case by (simp add: r Cons.IH add_total_fields ac_simps)
qed simp

text \<open>The groups of a list count every row once.\<close>

lemma group_entries:
  assumes "(k, e) \<in> set (group_by key agg rows)"
  shows "e = agg (filter (\<lambda>r. key r = k) rows)"
  using assms by (auto simp: group_by_def)

lemma group_keys: "fst ` set (group_by key agg rows) = key ` set rows"
  by (force simp: group_by_def)

lemma group_total:
  assumes "\<And>k. f (k, agg (filter (\<lambda>r. key r = k) rows)) = (\<Sum>r\<leftarrow>filter (\<lambda>r. key r = k) rows. w r :: 'a :: comm_monoid_add)"
  shows "(\<Sum>e\<leftarrow>group_by key agg rows. f e) = (\<Sum>r\<leftarrow>rows. w r)"
proof -
  have "f e = (\<Sum>r\<leftarrow>filter (\<lambda>r. key r = fst e) rows. w r)" if "e \<in> set (group_by key agg rows)" for e
  proof -
    obtain k x where e: "e = (k, x)" by (cases e)
    with that have "x = agg (filter (\<lambda>r. key r = k) rows)" by (simp add: group_entries)
    then show ?thesis using assms [of k] by (simp add: e)
  qed
  from table_sum [where q = "\<lambda>_. True", OF group_by_map this group_keys] show ?thesis by simp
qed

lemma sum_perm: "mset xs = mset ys \<Longrightarrow> (\<Sum>r\<leftarrow>xs. f r) = (\<Sum>r\<leftarrow>ys. f r :: 'a :: comm_monoid_add)"
  by (metis mset_map sum_mset_sum_list)

lemma totals_of_groups:
  assumes "mset gs = mset (group_by qe_action (count_sum qe_elapsed) rows)"
  shows "fold add_total gs (no_totals, 0) = (action_totals rows, \<Sum>r\<leftarrow>rows. qe_elapsed r)"
proof -
  let ?g = "group_by qe_action (count_sum qe_elapsed) rows"
  have a: "(\<Sum>r\<leftarrow>?g. if fst r = a then fst (snd r) else 0) = action_count a rows" for a
  proof -
    have "(\<Sum>r\<leftarrow>?g. if fst r = a then fst (snd r) else 0) = (\<Sum>r\<leftarrow>rows. if qe_action r = a then 1 else 0)"
    proof (rule group_total)
      show "(if fst (k, count_sum qe_elapsed (filter (\<lambda>r. qe_action r = k) rows)) = a
            then fst (snd (k, count_sum qe_elapsed (filter (\<lambda>r. qe_action r = k) rows))) else 0) =
          (\<Sum>r\<leftarrow>filter (\<lambda>r. qe_action r = k) rows. if qe_action r = a then 1 else 0)" for k
        by (induction rows) (auto simp: count_sum_def)
    qed
    also have "\<dots> = action_count a rows" by (induction rows) (auto simp: action_count_def)
    finally show ?thesis .
  qed
  have n: "(\<Sum>r\<leftarrow>?g. fst (snd r)) = (\<Sum>r\<leftarrow>rows. 1)" and l: "(\<Sum>r\<leftarrow>?g. snd (snd r)) = (\<Sum>r\<leftarrow>rows. qe_elapsed r)"
    by (rule group_total, simp add: count_sum_def sum_list_triv)+
  show ?thesis
    by (simp only: fold_add_total sum_perm [OF assms] a n l) (simp add: no_totals_def action_totals_def sum_list_triv)
qed

subsection \<open>Time\<close>

lemma since_minute:
  assumes "0 < since" and "60000 dvd since"
  shows "sql_div since 60000 \<le> minute_of e \<longleftrightarrow> since \<le> qe_ts e"
proof -
  obtain m where m: "since = 60000 * m" using assms(2) by (rule dvdE)
  show ?thesis
  proof (cases "qe_ts e < 0")
    case True
    have "minute_of e \<le> 0" using True by (simp add: minute_of_def sql_div_def pos_imp_zdiv_nonneg_iff)
    moreover have "0 < m" using assms(1) m by simp
    ultimately show ?thesis using True assms(1) by (simp add: m sql_div_def)
  next
    case False
    have "m \<le> qe_ts e div 60000 \<longleftrightarrow> m * 60000 \<le> qe_ts e" by linarith
    then show ?thesis using False assms(1) by (simp add: m minute_of_def sql_div_def mult.commute)
  qed
qed

lemma since_hour:
  assumes "0 < since" and "3600000 dvd since"
  shows "sql_div since 3600000 \<le> hour_of e \<longleftrightarrow> since \<le> qe_ts e"
proof -
  obtain m where m: "since = 3600000 * m" using assms(2) by (rule dvdE)
  show ?thesis
  proof (cases "qe_ts e < 0")
    case True
    have "hour_of e \<le> 0" using True by (simp add: hour_of_def sql_div_def pos_imp_zdiv_nonneg_iff)
    moreover have "0 < m" using assms(1) m by simp
    ultimately show ?thesis using True assms(1) by (simp add: m sql_div_def)
  next
    case False
    have "m \<le> qe_ts e div 3600000 \<longleftrightarrow> m * 3600000 \<le> qe_ts e" by linarith
    then show ?thesis using False assms(1) by (simp add: m hour_of_def sql_div_def mult.commute)
  qed
qed

lemma bucket_of_minute:
  assumes "60 dvd step" and "0 < step" and "0 \<le> qe_ts e"
  shows "sql_div (minute_of e * 60) step = sql_div (sql_div (qe_ts e) 1000) step"
proof -
  obtain k where k: "step = 60 * k" using assms(1) by (rule dvdE)
  have "(qe_ts e div 60000) * 60 div (60 * k) = (qe_ts e div 60000) div k"
    using div_mult_mult1 [of 60 "qe_ts e div 60000" k] by (simp add: mult.commute)
  also have "\<dots> = qe_ts e div (60000 * k)" using assms(2) k by (simp add: zdiv_zmult2_eq)
  also have "\<dots> = (qe_ts e div 1000) div (60 * k)"
    using assms(2) k zdiv_zmult2_eq [of "60 * k" "qe_ts e" 1000] by (simp add: mult.assoc [symmetric])
  finally show ?thesis
    using assms(3) pos_imp_zdiv_nonneg_iff [of 60000 "qe_ts e"] pos_imp_zdiv_nonneg_iff [of 1000 "qe_ts e"]
    by (simp add: k minute_of_def sql_div_def)
qed

lemma bounds_agree:
  assumes "0 < step" and "0 < since" and "since \<le> 1000 * now"
  shows "series_bounds since step now = (sql_div (sql_div since 1000) step * step, sql_div now step * step)"
    and "0 \<le> sql_div (sql_div now step * step - sql_div (sql_div since 1000) step * step) step + 1"
proof -
  let ?s = "since div 1000"
  have n: "0 \<le> ?s" "?s \<le> now" using assms by linarith+
  then have d: "?s div step * step \<le> now div step * step"
    using assms(1) by (intro mult_right_mono zdiv_mono1) auto
  have e: "sql_div (sql_div since 1000) step = ?s div step" "sql_div now step = now div step"
    using n assms by (simp_all add: sql_div_def)
  show "series_bounds since step now = (sql_div (sql_div since 1000) step * step, sql_div now step * step)"
    using d by (simp add: series_bounds_def Let_def e)
  have "0 \<le> (now div step * step - ?s div step * step) div step"
    using d assms(1) by (simp add: pos_imp_zdiv_nonneg_iff)
  then show "0 \<le> sql_div (sql_div now step * step - sql_div (sql_div since 1000) step * step) step + 1"
    using d by (simp add: sql_div_def [of "_ - _"] e)
qed

subsection \<open>Reports\<close>

text \<open>
  A window is complete when its rows have all been counted and none has been dropped since; of a
  row only \<open>part\<close> matters, so that it may have got its category or lost its name meanwhile.
\<close>

definition complete :: "(query_entry \<Rightarrow> 'p) \<Rightarrow> int \<Rightarrow> query_entry list \<Rightarrow> stats_db \<Rightarrow> bool" where
  "complete part since h db \<longleftrightarrow>
     mset (map part (filter (\<lambda>e. since \<le> qe_ts e) h)) = mset (map part (filter (\<lambda>e. since \<le> qe_ts e) (sd_log db)))"

definition minute_part :: "query_entry \<Rightarrow> query_entry" where
  "minute_part e = e\<lparr>qe_name := [], qe_client := [], qe_content := []\<rparr>"

definition client_part :: "query_entry \<Rightarrow> query_entry" where
  "client_part e = e\<lparr>qe_name := [], qe_content := []\<rparr>"

lemma part_fields [simp]:
  "qe_ts (minute_part e) = qe_ts e" "qe_node (minute_part e) = qe_node e" "qe_action (minute_part e) = qe_action e"
  "qe_elapsed (minute_part e) = qe_elapsed e" "minute_of (minute_part e) = minute_of e" "is_blocked (minute_part e) = is_blocked e"
  "qe_ts (client_part e) = qe_ts e" "qe_node (client_part e) = qe_node e" "qe_client (client_part e) = qe_client e"
  "hour_of (client_part e) = hour_of e" "is_blocked (client_part e) = is_blocked e"
  by (simp_all add: minute_part_def client_part_def minute_of_def hour_of_def is_blocked_def)

lemma complete_window:
  assumes "complete part since h db" and "\<And>e. q (part e) = q e"
    and "\<And>e. qe_node (part e) = qe_node e" and "\<And>e. qe_ts (part e) = qe_ts e"
  shows "mset (map part (filter (\<lambda>e. since \<le> qe_ts e \<and> node_filter nodes (qe_node e) \<and> q e) h)) =
    mset (map part (filter q (log_window since nodes db)))"
proof -
  have f: "map part (filter (\<lambda>e. since \<le> qe_ts e \<and> node_filter nodes (qe_node e) \<and> q e) xs) =
      filter (\<lambda>e. node_filter nodes (qe_node e) \<and> q e) (map part (filter (\<lambda>e. since \<le> qe_ts e) xs))" for xs
    by (induction xs) (auto simp: assms(2,3,4))
  have "filter q (log_window since nodes db) =
      filter (\<lambda>e. since \<le> qe_ts e \<and> node_filter nodes (qe_node e) \<and> q e) (sd_log db)"
    by (simp add: log_window_def conj_ac)
  then show ?thesis using assms(1) by (simp only: f complete_def mset_filter)
qed

lemma group_by_part:
  assumes "\<And>e. key (part e) = key e" and "\<And>e. wt (part e) = wt e"
  shows "group_by key (count_sum wt) (map part rows) = group_by key (count_sum wt) rows"
proof -
  have "count_sum wt (filter (\<lambda>r. key r = k) (map part rows)) = count_sum wt (filter (\<lambda>r. key r = k) rows)" for k
    by (simp add: filter_map comp_def assms count_sum_def)
  then show ?thesis by (simp add: group_by_def comp_def assms)
qed

lemma group_by_cong: "(\<And>r. r \<in> set rows \<Longrightarrow> key r = key' r) \<Longrightarrow> group_by key agg rows = group_by key' agg rows"
proof -
  assume eq: "\<And>r. r \<in> set rows \<Longrightarrow> key r = key' r"
  then have "filter (\<lambda>r. key r = k) rows = filter (\<lambda>r. key' r = k) rows" for k by (auto cong: filter_cong)
  moreover have "map key rows = map key' rows" using eq by simp
  ultimately show ?thesis by (simp add: group_by_def del: map_eq_conv)
qed

text \<open>The groups of a rollup over a complete window are those of the log.\<close>

context rollup_table
begin

lemma window_groups:
  assumes "counted_by key wt taken c t h" and "complete part since h db"
    and "\<And>e. s \<le> bucket e \<longleftrightarrow> since \<le> qe_ts e"
    and part: "\<And>e. taken (part e) = taken e" "\<And>e. key (part e) = key e" "\<And>e. qe_ts (part e) = qe_ts e" "\<And>e. wt (part e) = wt e"
    and "\<And>e. since \<le> qe_ts e \<Longrightarrow> F (bucket e) (qe_node e) (rest e) = G e"
  shows "mset (group_by (\<lambda>((x, n, y), _). F x n y) sum_counts (rollup_window s nodes t)) =
    mset (group_by G (count_sum wt) (filter taken (log_window since nodes db)))"
proof -
  have t: "is_map t" "map_of t = tally key wt (filter taken h)" using assms(1) by (simp_all add: counted_by_def)
  let ?k = "\<lambda>e. F (bucket e) (qe_node e) (rest e)"
  let ?w = "filter (\<lambda>e. since \<le> qe_ts e \<and> node_filter nodes (qe_node e) \<and> taken e)"
  have parts: "bucket (part e) = bucket e" "qe_node (part e) = qe_node e" "rest (part e) = rest e" for e
    using part(2) [of e] by (simp_all add: key_parts)
  have w: "mset (map part (?w h)) = mset (map part (filter taken (log_window since nodes db)))"
    by (rule complete_window [where part = part and q = taken]) (use assms(2) part parts in simp_all)
  have p: "group_by ?k (count_sum wt) (map part xs) = group_by ?k (count_sum wt) xs" for xs
    by (rule group_by_part) (simp_all add: parts part)
  have "group_by (\<lambda>((x, n, y), _). F x n y) sum_counts (rollup_window s nodes t) =
      group_by (\<lambda>e. (\<lambda>(x, n, y). F x n y) (fst e)) sum_counts (filter (\<lambda>e. (\<lambda>(x, n, y). s \<le> x \<and> node_filter nodes n) (fst e)) t)"
    by (simp add: rollup_window_def split_def)
  also have "mset \<dots> = mset (group_by (\<lambda>e. (\<lambda>(x, n, y). F x n y) (key e)) (count_sum wt)
      (filter (\<lambda>e. (\<lambda>(x, n, y). s \<le> x \<and> node_filter nodes n) (key e)) (filter taken h)))"
    by (rule regroup [OF t])
  also have "\<dots> = mset (group_by ?k (count_sum wt) (map part (?w h)))"
    unfolding p by (simp add: key_parts assms(3) conj_ac)
  also have "\<dots> = mset (group_by ?k (count_sum wt) (map part (filter taken (log_window since nodes db))))"
    by (rule group_by_perm [OF w count_sum_perm])
  also have "\<dots> = mset (group_by G (count_sum wt) (filter taken (log_window since nodes db)))"
    unfolding p using assms(8) by (intro arg_cong [where f = mset] group_by_cong) (auto simp: log_window_def)
  finally show ?thesis .
qed

end

text \<open>The beginning of the minute or hour of \<open>since\<close>.\<close>

abbreviation minute_start :: "int \<Rightarrow> int" where "minute_start since \<equiv> since div 60000 * 60000"
abbreviation hour_start :: "int \<Rightarrow> int" where "hour_start since \<equiv> since div 3600000 * 3600000"

lemma query_groups:
  assumes "log_ok (db, h)" and "complete minute_part (minute_start since) (hi_minute h) db" and "60000 \<le> since"
    and "\<And>e. minute_start since \<le> qe_ts e \<Longrightarrow> F (minute_of e) (qe_node e) (qe_action e) = G e"
  shows "mset (group_by (\<lambda>((x, n, y), _). F x n y) sum_counts (rollup_window (sql_div since 60000) nodes (sd_query db))) =
    mset (group_by G (count_sum qe_elapsed) (log_window (minute_start since) nodes db))"
proof -
  let ?s = "minute_start since"
  have s: "0 < ?s" using assms(3) by linarith
  have "sql_div ?s 60000 = sql_div since 60000" using assms(3) s by (simp add: sql_div_def)
  then have m: "sql_div since 60000 \<le> minute_of e \<longleftrightarrow> ?s \<le> qe_ts e" for e
    using since_minute [OF s, of e] by simp
  show ?thesis
    using queries.window_groups [OF log_okD(3) [OF assms(1)] assms(2), where F = F and G = G
        and s = "sql_div since 60000" and nodes = nodes] m assms(4)
    by (simp add: query_key_def)
qed

lemma client_groups:
  assumes "log_ok (db, h)" and "complete client_part (hour_start since) (hi_client h) db" and "3600000 \<le> since"
  shows "mset (group_by (\<lambda>((_, _, c), _). c) sum_counts (rollup_window (sql_div since 3600000) nodes (sd_client db))) =
    mset (group_by qe_client (count_sum is_blocked) (filter (\<lambda>e. qe_client e \<noteq> []) (log_window (hour_start since) nodes db)))"
proof -
  let ?s = "hour_start since"
  have s: "0 < ?s" using assms(3) by linarith
  have "sql_div ?s 3600000 = sql_div since 3600000" using assms(3) s by (simp add: sql_div_def)
  then have m: "sql_div since 3600000 \<le> hour_of e \<longleftrightarrow> ?s \<le> qe_ts e" for e
    using since_hour [OF s, of e] by simp
  show ?thesis
    using clients.window_groups [OF log_okD(5) [OF assms(1)] assms(2), where F = "\<lambda>_ _ c. c"
        and G = qe_client and s = "sql_div since 3600000" and nodes = nodes] m
    by (simp add: client_key_def)
qed

lemma visited_groups:
  assumes "visits v" and "visits w" and "mset xs = mset ys"
  shows "mset (v xs) = mset (w ys)"
  using assms by (simp add: visits_def)

lemma visits_map: "visits v \<Longrightarrow> is_map xs \<Longrightarrow> is_map (v xs)"
  by (metis mset_eq_imp_distinct_iff mset_map visits_def)

lemma minute_start_same:
  assumes "60000 \<le> since" and "60 dvd step" and "0 < step"
  shows "sql_div (sql_div (minute_start since) 1000) step = sql_div (sql_div since 1000) step"
proof -
  obtain k where k: "step = 60 * k" using assms(2) by (rule dvdE)
  have m: "0 \<le> minute_start since div 1000" "0 \<le> since div 1000" "0 \<le> minute_start since" using assms(1) by linarith+
  have "minute_start since div 1000 = since div 60000 * 60" by linarith
  then have "(minute_start since div 1000) div (60 * k) = since div 60000 div k"
    using div_mult_mult1 [of 60 "since div 60000" k] by (simp add: mult.commute)
  also have "\<dots> = since div (60000 * k)" using assms(3) k by (simp add: zdiv_zmult2_eq)
  also have "\<dots> = (since div 1000) div (60 * k)"
    using assms(3) k zdiv_zmult2_eq [of "60 * k" since 1000] by (simp add: mult.assoc [symmetric])
  finally show ?thesis using m assms(1) by (simp add: k sql_div_def)
qed

text \<open>
  C17: the charts drawn from the rollups are the charts of the query log. After any sequence of
  steps on the log, for a window that does not begin in the future, whose rows have all been counted
  and not been dropped, and a bucket size of whole minutes, the time series, the latency series and the totals with their
  mean latency, computed from the rollup since \<open>since\<close>, are what a scan of the log computes
  since the beginning of that minute.
\<close>

theorem rollup_charts_are_exact:
  assumes reach: "log_step\<^sup>*\<^sup>* (empty_stats, no_history) (db, h)"
    and full: "complete minute_part (since div 60000 * 60000) (hi_minute h) db"
    and "60000 \<le> since" and "since \<le> 1000 * now" and "60 dvd step"
    and vs: "visits v" "visits w" "visits v'"
  shows "query_time_series w (since div 60000 * 60000) step nodes now db = Some (rollup_time_series v since step nodes now db)
    \<and> latency_time_series w (since div 60000 * 60000) step nodes now db = Some (rollup_latency v since step nodes now db)
    \<and> ws_totals (rollup_summary v' since nodes db) = windowed_totals (since div 60000 * 60000) nodes db
    \<and> ws_latency (rollup_summary v' since nodes db) = avg_latency (since div 60000 * 60000) nodes db"
proof -
  let ?s = "minute_start since" and ?st = "step_or_hour step"
  have ok: "log_ok (db, h)" by (rule log_reachable_ok [OF reach])
  have st: "0 < ?st" "60 dvd ?st" using assms(5) by (auto simp: step_or_hour_def)
  have s: "0 < ?s" "?s \<le> 1000 * now" using assms(3,4) by linarith+
  have ms: "sql_div (sql_div ?s 1000) ?st = sql_div (sql_div since 1000) ?st" by (rule minute_start_same [OF assms(3) st(2,1)])
  note b = bounds_agree [OF st(1) s, unfolded ms]
  have "series_bounds since ?st now = series_bounds ?s ?st now" by (simp add: series_bounds_def ms)
  note bounds = this [unfolded b(1)]
  have bucket: "sql_div (minute_of e * 60) ?st = sql_div (sql_div (qe_ts e) 1000) ?st" if "?s \<le> qe_ts e" for e
    using bucket_of_minute [OF st(2,1), of e] that s(1) by simp
  note g = query_groups [OF ok full assms(3), where nodes = nodes]
  have g1: "mset (group_by (\<lambda>((x, n, y), _). (sql_div (x * 60) ?st * ?st, y)) sum_counts (rollup_window (sql_div since 60000) nodes (sd_query db))) =
      mset (group_by (\<lambda>e. (sql_div (sql_div (qe_ts e) 1000) ?st * ?st, qe_action e)) (count_sum qe_elapsed) (log_window ?s nodes db))"
    by (rule g) (simp add: bucket)
  have g2: "mset (group_by (\<lambda>((x, n, y), _). (sql_div (x * 60) ?st * ?st, or_master n)) sum_counts (rollup_window (sql_div since 60000) nodes (sd_query db))) =
      mset (group_by (\<lambda>e. (sql_div (sql_div (qe_ts e) 1000) ?st * ?st, or_master (qe_node e))) (count_sum qe_elapsed) (log_window ?s nodes db))"
    by (rule g) (simp add: bucket)
  have g3: "mset (group_by (\<lambda>((x, n, y), _). y) sum_counts (rollup_window (sql_div since 60000) nodes (sd_query db))) =
      mset (group_by qe_action (count_sum qe_elapsed) (log_window ?s nodes db))"
    by (rule g) simp
  have "query_time_series w ?s step nodes now db = Some (rollup_time_series v since step nodes now db)"
    using series_points_perm [OF visited_groups [OF vs(1,2) g1]] b(2)
    by (simp add: query_time_series_def rollup_time_series_def bounds ms Let_def)
  moreover have "latency_time_series w ?s step nodes now db = Some (rollup_latency v since step nodes now db)"
    using latency_points_perm [OF visited_groups [OF vs(1,2) g2] visits_map [OF vs(1) group_by_map]] b(2)
    by (simp add: latency_time_series_def rollup_latency_def bounds ms Let_def)
  moreover have tot: "fold add_total (v' (group_by (\<lambda>((x, n, y), _). y) sum_counts (rollup_window (sql_div since 60000) nodes (sd_query db))))
      (no_totals, 0) = (action_totals (log_window ?s nodes db), \<Sum>r\<leftarrow>log_window ?s nodes db. qe_elapsed r)"
    by (rule totals_of_groups) (use g3 vs(3) in \<open>simp add: visits_def\<close>)
  moreover have "ws_totals (rollup_summary v' since nodes db) = windowed_totals ?s nodes db"
    by (simp add: rollup_summary_def windowed_totals_def window_summary_def Let_def tot)
  moreover have "wt_total (action_totals rows) = int (length rows)" for rows by (simp add: action_totals_def)
  then have "ws_latency (rollup_summary v' since nodes db) = avg_latency ?s nodes db"
    by (simp add: rollup_summary_def avg_latency_def avg_elapsed_def Let_def tot)
  ultimately show ?thesis by simp
qed

lemma distinct_clients:
  assumes "mset (group_by f A t) = mset (group_by qe_client B rows)"
  shows "length (remdups (map f t)) = length (remdups (map qe_client rows))"
proof -
  have "length (group_by f A t) = length (group_by qe_client B rows)" using assms by (metis size_mset)
  then show ?thesis by (simp add: group_by_def)
qed

text \<open>
  The clients of the dashboard are those of the query log. For a window whose rows have all
  been counted, and not been dropped or re-keyed since, the number of clients since \<open>since\<close> is
  the number the log has since the beginning of that hour, and the ranking of the clients is a
  ranking of the log: the same queries and blocked queries for each client, with the same limit.
\<close>

theorem rollup_clients_are_exact:
  assumes reach: "log_step\<^sup>*\<^sup>* (empty_stats, no_history) (db, h)"
    and full: "complete client_part (since div 3600000 * 3600000) (hi_client h) db"
    and "3600000 \<le> since" and vs: "visits v"
  shows "ws_clients (rollup_summary v' since nodes db) = client_count (since div 3600000 * 3600000) nodes db
    \<and> (\<exists>w. visits w \<and>
         rollup_top_clients v since limit nodes db = queries_by_client w (since div 3600000 * 3600000) limit nodes db)"
proof -
  let ?roll = "group_by (\<lambda>((_, _, c), _). c) sum_counts (rollup_window (sql_div since 3600000) nodes (sd_client db))"
  let ?raw = "group_by qe_client (count_sum is_blocked) (filter (\<lambda>e. qe_client e \<noteq> []) (log_window (hour_start since) nodes db))"
  have g: "mset ?roll = mset ?raw" by (rule client_groups [OF log_reachable_ok [OF reach] full assms(3)])
  let ?w = "\<lambda>xs. if xs = ?raw then v ?roll else xs"
  have "visits ?w" using vs g by (simp add: visits_def)
  moreover have "rollup_top_clients v since limit nodes db = queries_by_client ?w (hour_start since) limit nodes db"
    by (simp add: rollup_top_clients_def queries_by_client_def top_groups_def)
  moreover have "ws_clients (rollup_summary v' since nodes db) = client_count (hour_start since) nodes db"
    using distinct_clients [OF g] by (simp add: rollup_summary_def client_count_def Let_def split: prod.split)
  ultimately show ?thesis by blast
qed

subsection \<open>What the buckets hide\<close>

text \<open>
  One query every 75 seconds: in steps of 75 seconds, which the API asks for with a window of one
  hour, the log has one query in each bucket, the rollup, which knows minutes, two, one, one and none.
\<close>

definition steady :: stats_db where
  "steady = insert_node_query_log ''n'' (map (\<lambda>t. some_query\<lparr>qe_ts := t\<rparr>) [6000000, 6075000, 6150000, 6225000]) empty_stats"

lemma steady_log:
  "sd_log steady = map (\<lambda>(i, t). some_query\<lparr>qe_id := i, qe_node := ''n'', qe_ts := t\<rparr>)
     [(1, 6000000), (2, 6075000), (3, 6150000), (4, 6225000)]"
  by (simp add: steady_def insert_node_query_log_def empty_stats_def some_query_def)

lemma steady_query:
  "sd_query (snd (rollup_advance 0 steady)) =
     map (\<lambda>m. ((m, ''n'', ''forward''), 1, 2)) [100, 101, 102, 103]"
proof -
  have "max_log_id steady = 4" by (simp add: max_log_id_def steady_log some_query_def)
  then show ?thesis
    by (simp add: rollup_advance_def rollup_statements_def steady_log fold_rows_def group_by_def some_query_def query_key_def
        minute_of_def sql_div_def count_sum_def add_count_def steady_def insert_node_query_log_def empty_stats_def)
qed

lemma steady_traffic_looks_uneven:
  "map sp_total (rollup_time_series (\<lambda>s. s) 6000000 75 [] 6299 (snd (rollup_advance 0 steady))) = [2, 1, 1, 0] \<and>
   map_option (map sp_total) (query_time_series (\<lambda>s. s) 6000000 75 [] 6299 steady) = Some [1, 1, 1, 1]"
  by (simp_all add: rollup_time_series_def query_time_series_def log_window_def steady_log some_query_def steady_query
      step_or_hour_def series_bounds_def sql_div_def rollup_window_def node_filter_def group_by_def sum_counts_def count_sum_def
      series_points_def add_series_row_bump in_bucket_def bucket_starts_def bump_def empty_point_def with_mean_def upt_rec)

lemma steady_reached:
  "log_step\<^sup>*\<^sup>* (empty_stats, no_history) (snd (rollup_advance 0 steady),
     \<lparr>hi_minute = sd_log steady, hi_client = sd_log steady, hi_hour = map core (sd_log steady)\<rparr>)"
proof -
  have "log_step (empty_stats, no_history) (steady, no_history)" unfolding steady_def by (rule logged)
  moreover have "newly_counted 0 steady = sd_log steady"
  proof -
    have "max_log_id steady = 4" by (simp add: max_log_id_def steady_log some_query_def)
    moreover have "sd_cursor steady = 0" by (simp add: steady_def insert_node_query_log_def empty_stats_def)
    ultimately show ?thesis by (simp add: newly_counted_def rollup_advance_def steady_log some_query_def)
  qed
  then have "log_step (steady, no_history) (snd (rollup_advance 0 steady),
     \<lparr>hi_minute = sd_log steady, hi_client = sd_log steady, hi_hour = map core (sd_log steady)\<rparr>)"
    using advanced [of steady no_history 0] by (simp add: no_history_def)
  ultimately show ?thesis by auto
qed

lemma steady_complete: "complete part since (sd_log steady) (snd (rollup_advance b steady))"
  by (simp add: complete_def rollup_advance_def rollup_statements_def Let_def)

theorem rollup_charts_are_exact_witness:
  "query_time_series rev 6000000 60 [] 6299 (snd (rollup_advance 0 steady)) =
     Some (rollup_time_series (\<lambda>s. s) 6000000 60 [] 6299 (snd (rollup_advance 0 steady)))"
  using rollup_charts_are_exact [OF steady_reached, of 6000000 6299 60 "\<lambda>s. s" rev "\<lambda>s. s" "[]"]
  by (simp add: steady_complete visits_def)

theorem rollup_clients_are_exact_witness:
  "ws_clients (rollup_summary rev 3600000 [] (snd (rollup_advance 0 steady))) =
     client_count 3600000 [] (snd (rollup_advance 0 steady))"
  using rollup_clients_are_exact [OF steady_reached, of 3600000 "\<lambda>s. s" rev "[]" 1]
  by (simp add: steady_complete visits_def)

end
