(* ===== verification/Privacy.thy ===== *)
theory Privacy
  imports Report_Facts Domain_Names
begin

section \<open>Privacy levels of the query log (internal/privacy, internal/store/privacy.go)\<close>

text \<open>
  The day keys and pseudonyms, the counts that decide which names are rare, the anonymizer that
  entries pass on arrival and on export, the store's scrubbing statements and the scrubber. The
  keyed hash is an argument \<open>H\<close>, the random key a day gets if one is made now is
  \<open>fresh day\<close>; both maps behind the keyring, the one in memory and the saved one, are in its
  record (the encoding as JSON and base64 is left out, and saving succeeds). Durations are
  milliseconds.
\<close>

subsection \<open>Day keys (keyring.go)\<close>

abbreviation day_ms :: int where "day_ms \<equiv> 86400000"

definition pseudonym_prefix :: string where [model]: "pseudonym_prefix = ''anon-''"

definition is_pseudonym :: "string \<Rightarrow> bool" where
  [model]: "is_pseudonym client \<longleftrightarrow> has_prefix client pseudonym_prefix"

record keyring =
  kr_keys :: "(int \<times> string) list"
  kr_loaded :: bool
  kr_saved :: "(int \<times> string) list"

definition kr_load :: "keyring \<Rightarrow> keyring" where
  [model]: "kr_load kr =
     (if kr_loaded kr then kr
      else kr\<lparr>kr_loaded := True, kr_keys := filter (\<lambda>(_, k). length k = 32) (kr_saved kr) @ kr_keys kr\<rparr>)"

definition day_key :: "(int \<Rightarrow> string) \<Rightarrow> int \<Rightarrow> keyring \<Rightarrow> string \<times> keyring" where
  [model]: "day_key fresh day kr =
     (let kr = kr_load kr in
      case map_of (kr_keys kr) day of
        Some k \<Rightarrow> (k, kr)
      | None \<Rightarrow> (let keys = AList.update day (fresh day) (kr_keys kr) in
                 (fresh day, kr\<lparr>kr_keys := keys, kr_saved := keys\<rparr>)))"

definition hex_bytes :: "string \<Rightarrow> string" where
  [model]: "hex_bytes s = concat (map (\<lambda>c. [hex_digit (byte c div 16), hex_digit (byte c mod 16)]) s)"

definition pseudonym ::
    "(string \<Rightarrow> string \<Rightarrow> string) \<Rightarrow> (int \<Rightarrow> string) \<Rightarrow> string \<Rightarrow> int \<Rightarrow> keyring \<Rightarrow> string \<times> keyring" where
  [model]: "pseudonym H fresh client ts kr =
     (let (key, kr) = day_key fresh (sql_div ts day_ms) kr in
      (pseudonym_prefix @ hex_bytes (take 5 (H key client)), kr))"

definition kr_prune :: "int \<Rightarrow> keyring \<Rightarrow> keyring" where
  [model]: "kr_prune before_ms kr =
     (let kr = kr_load kr; before = sql_div before_ms day_ms;
          keys = filter (\<lambda>(d, _). \<not> d < before) (kr_keys kr) in
      if length keys < length (kr_keys kr) then kr\<lparr>kr_keys := keys, kr_saved := keys\<rparr> else kr)"

subsection \<open>Which names are rare (domains.go)\<close>

definition hidden_name :: string where [model]: "hidden_name = ''hidden''"
definition max_tracked_names :: int where [model]: "max_tracked_names = 1000000"

record seen_by =
  sb_common :: bool
  sb_devs :: "string list"

record day_counts =
  dc_names :: "(string \<times> seen_by) list"
  dc_regs :: "(string \<times> seen_by) list"

record domain_tracker =
  dt_k :: int
  dt_days :: "(int \<times> day_counts) list"

definition no_counts :: day_counts where [model]: "no_counts = \<lparr>dc_names = [], dc_regs = []\<rparr>"

definition new_tracker :: domain_tracker where [model]: "new_tracker = \<lparr>dt_k = 0, dt_days = []\<rparr>"

definition canonical :: "string \<Rightarrow> string" where
  [model]: "canonical name = to_lower (trim_suffix name ''.'') @ ''.''"

definition registered :: "suffix_lib \<Rightarrow> string \<Rightarrow> string" where
  [model]: "registered P name = (let reg = registered_domain P name in if reg = [] then [] else reg @ ''.'')"

definition dt_add :: "int \<Rightarrow> string \<Rightarrow> string \<Rightarrow> (string \<times> seen_by) list \<Rightarrow> (string \<times> seen_by) list" where
  [model]: "dt_add k key dev m =
     (if map_of m key = None \<and> max_tracked_names \<le> int (length m) then m
      else (let s = (case map_of m key of None \<Rightarrow> \<lparr>sb_common = False, sb_devs = []\<rparr> | Some s \<Rightarrow> s) in
        if sb_common s \<or> dev \<in> set (sb_devs s) then m
        else (let devs = sb_devs s @ [dev] in
          AList.update key (if k \<le> int (length devs) then \<lparr>sb_common = True, sb_devs = []\<rparr>
                            else \<lparr>sb_common = False, sb_devs = devs\<rparr>) m)))"

definition is_common :: "(string \<times> seen_by) list \<Rightarrow> string \<Rightarrow> bool" where
  [model]: "is_common m key \<longleftrightarrow> (case map_of m key of None \<Rightarrow> False | Some s \<Rightarrow> sb_common s)"

definition dt_count :: "suffix_lib \<Rightarrow> int \<Rightarrow> string \<Rightarrow> string \<Rightarrow> day_counts \<Rightarrow> day_counts" where
  [model]: "dt_count P k name dev d =
     (let reg = registered P name in
      \<lparr>dc_names = dt_add k (canonical name) dev (dc_names d),
       dc_regs = (if reg \<noteq> [] then dt_add k reg dev (dc_regs d) else dc_regs d)\<rparr>)"

definition dt_set_k :: "int \<Rightarrow> domain_tracker \<Rightarrow> domain_tracker" where
  [model]: "dt_set_k k t = (if k \<noteq> dt_k t then t\<lparr>dt_k := k, dt_days := []\<rparr> else t)"

definition device :: "(string \<Rightarrow> string \<Rightarrow> string) \<Rightarrow> (int \<Rightarrow> string) \<Rightarrow> string \<Rightarrow> int \<Rightarrow> keyring \<Rightarrow> string \<times> keyring" where
  [model]: "device H fresh client ts kr = (if is_pseudonym client then (client, kr) else pseudonym H fresh client ts kr)"

text \<open>\<open>day\<close>: the counts of a day, seeded with the pairs the store holds for it.\<close>

definition seed_pair :: "suffix_lib \<Rightarrow> (string \<Rightarrow> string \<Rightarrow> string) \<Rightarrow> (int \<Rightarrow> string) \<Rightarrow> int \<Rightarrow> int
    \<Rightarrow> string \<times> string \<Rightarrow> day_counts \<times> keyring \<Rightarrow> day_counts \<times> keyring" where
  [model]: "seed_pair P H fresh k day pair s =
     (let (name, client) = pair; (d, kr) = s in
      if name = [] \<or> name = hidden_name \<or> client = [] then s
      else (let (dev, kr) = device H fresh client (day * day_ms) kr in (dt_count P k name dev d, kr)))"

definition dt_day :: "suffix_lib \<Rightarrow> (string \<Rightarrow> string \<Rightarrow> string) \<Rightarrow> (int \<Rightarrow> string) \<Rightarrow> (int \<Rightarrow> (string \<times> string) list) \<Rightarrow> int
    \<Rightarrow> domain_tracker \<times> keyring \<Rightarrow> day_counts \<times> domain_tracker \<times> keyring" where
  [model]: "dt_day P H fresh pairs day s =
     (let (t, kr) = s in
      case map_of (dt_days t) day of
        Some d \<Rightarrow> (d, t, kr)
      | None \<Rightarrow>
          (let (d, kr) = fold (seed_pair P H fresh (dt_k t) day) (pairs (day * day_ms)) (no_counts, kr) in
           (d, t\<lparr>dt_days := AList.update day d (dt_days t)\<rparr>, kr)))"

definition dt_observe :: "suffix_lib \<Rightarrow> (string \<Rightarrow> string \<Rightarrow> string) \<Rightarrow> (int \<Rightarrow> string) \<Rightarrow> (int \<Rightarrow> (string \<times> string) list)
    \<Rightarrow> int \<Rightarrow> query_entry \<Rightarrow> domain_tracker \<times> keyring \<Rightarrow> domain_tracker \<times> keyring" where
  [model]: "dt_observe P H fresh pairs k e s =
     (if qe_name e = [] \<or> qe_name e = hidden_name \<or> qe_client e = [] then s
      else (let (t, kr) = s; (dev, kr) = device H fresh (qe_client e) (qe_ts e) kr;
                day = sql_div (qe_ts e) day_ms; (d, t, kr) = dt_day P H fresh pairs day (dt_set_k k t, kr) in
        (t\<lparr>dt_days := AList.update day (dt_count P (dt_k t) (qe_name e) dev d) (dt_days t)\<rparr>, kr)))"

definition dt_keep :: "suffix_lib \<Rightarrow> (string \<Rightarrow> string \<Rightarrow> string) \<Rightarrow> (int \<Rightarrow> string) \<Rightarrow> (int \<Rightarrow> (string \<times> string) list)
    \<Rightarrow> int \<Rightarrow> string \<Rightarrow> int \<Rightarrow> domain_tracker \<times> keyring \<Rightarrow> string \<times> domain_tracker \<times> keyring" where
  [model]: "dt_keep P H fresh pairs k name ts s =
     (if name = [] \<or> name = hidden_name then (name, s)
      else (let (t, kr) = s; day = sql_div ts day_ms;
                (today, s) = dt_day P H fresh pairs day (dt_set_k k t, kr);
                (before, s) = dt_day P H fresh pairs (day - 1) s;
                n = canonical name; reg = registered P name in
        if is_common (dc_names today) n \<or> is_common (dc_names before) n then (name, s)
        else if reg \<noteq> [] \<and> (is_common (dc_regs today) reg \<or> is_common (dc_regs before) reg) then (reg, s)
        else (hidden_name, s)))"

definition dt_prune :: "int \<Rightarrow> domain_tracker \<Rightarrow> domain_tracker" where
  [model]: "dt_prune before_day t = t\<lparr>dt_days := filter (\<lambda>(d, _). \<not> d < before_day) (dt_days t)\<rparr>"

subsection \<open>Policies (privacy.go)\<close>

record privacy_policy =
  po_level :: int
  po_hours :: int
  po_k :: int

definition normalize_policy :: "privacy_policy \<Rightarrow> privacy_policy" where
  [model]: "normalize_policy p =
     (let k = (if po_k p < 2 then 0 else po_k p) in
      \<lparr>po_level = min (max (po_level p) 0) 3, po_hours = min (max (po_hours p) 0) 168, po_k = min k 100\<rparr>)"

definition rare_only :: "privacy_policy \<Rightarrow> bool" where
  [model]: "rare_only p \<longleftrightarrow> 0 < po_k p \<and> (po_level p = 1 \<or> po_level p = 2)"

definition domain_strictness :: "privacy_policy \<Rightarrow> int" where
  [model]: "domain_strictness p = (if po_level p = 0 then 0 else if rare_only p then po_k p else 101)"

definition policy_cutoff :: "privacy_policy \<Rightarrow> int \<Rightarrow> int" where
  [model]: "policy_cutoff p now_ms = now_ms - po_hours p * 3600000"

text \<open>The anonymizer's state is the tracker with the keyring; \<open>None\<close> is an anonymizer that is not set up.\<close>

definition current_policy :: "privacy_policy option \<Rightarrow> privacy_policy" where
  [model]: "current_policy p = (case p of None \<Rightarrow> \<lparr>po_level = 0, po_hours = 0, po_k = 0\<rparr> | Some p \<Rightarrow> normalize_policy p)"

definition an_apply :: "suffix_lib \<Rightarrow> (string \<Rightarrow> string \<Rightarrow> string) \<Rightarrow> (int \<Rightarrow> string) \<Rightarrow> (int \<Rightarrow> (string \<times> string) list)
    \<Rightarrow> privacy_policy \<Rightarrow> query_entry \<Rightarrow> domain_tracker \<times> keyring \<Rightarrow> query_entry \<times> domain_tracker \<times> keyring" where
  [model]: "an_apply P H fresh pairs p e s =
     (let (name, s) = (if rare_only p then dt_keep P H fresh pairs (po_k p) (qe_name e) (qe_ts e) s
                       else if 1 \<le> po_level p then (hidden_name, s) else (qe_name e, s));
          (client, s) =
            (if 3 \<le> po_level p then ([], s)
             else if 2 \<le> po_level p \<and> qe_client e \<noteq> [] \<and> \<not> is_pseudonym (qe_client e) then
               (let (t, kr) = s; (c, kr) = pseudonym H fresh (qe_client e) (qe_ts e) kr in (c, t, kr))
             else (qe_client e, s)) in
      (e\<lparr>qe_name := name, qe_client := client\<rparr>, s))"

fun apply_where :: "(query_entry \<Rightarrow> bool) \<Rightarrow> (query_entry \<Rightarrow> 's \<Rightarrow> query_entry \<times> 's) \<Rightarrow> query_entry list \<Rightarrow> 's \<Rightarrow> query_entry list \<times> 's" where
  "apply_where q f [] s = ([], s)"
| "apply_where q f (e # es) s =
     (let (e', s) = (if q e then f e s else (e, s)); (es', s) = apply_where q f es s in (e' # es', s))"

definition an_ingest :: "suffix_lib \<Rightarrow> (string \<Rightarrow> string \<Rightarrow> string) \<Rightarrow> (int \<Rightarrow> string) \<Rightarrow> (int \<Rightarrow> (string \<times> string) list)
    \<Rightarrow> privacy_policy option \<Rightarrow> int \<Rightarrow> query_entry list \<Rightarrow> domain_tracker \<times> keyring \<Rightarrow> query_entry list \<times> domain_tracker \<times> keyring" where
  [model]: "an_ingest P H fresh pairs policy now_ms es s =
     (let p = current_policy policy in
      if po_level p = 0 then (es, s)
      else (let s = (if rare_only p then fold (dt_observe P H fresh pairs (po_k p)) es s else s);
                cutoff = policy_cutoff p now_ms in
        apply_where (\<lambda>e. qe_ts e < cutoff \<or> po_hours p = 0) (an_apply P H fresh pairs p) es s))"

definition an_export :: "suffix_lib \<Rightarrow> (string \<Rightarrow> string \<Rightarrow> string) \<Rightarrow> (int \<Rightarrow> string) \<Rightarrow> (int \<Rightarrow> (string \<times> string) list)
    \<Rightarrow> privacy_policy option \<Rightarrow> query_entry list \<Rightarrow> domain_tracker \<times> keyring \<Rightarrow> query_entry list \<times> domain_tracker \<times> keyring" where
  [model]: "an_export P H fresh pairs policy es s =
     (let p = current_policy policy in
      if po_level p = 0 then (es, s)
      else if po_level p = 3 then ([], s)
      else apply_where (\<lambda>_. True) (an_apply P H fresh pairs p) es s)"

subsection \<open>Scrubbing the store (internal/store/privacy.go)\<close>

definition hide_names :: "int \<Rightarrow> int \<Rightarrow> string \<Rightarrow> stats_db \<Rightarrow> int \<times> stats_db" where
  [model]: "hide_names from_ms to_ms hidden db =
     (let p = (\<lambda>e. from_ms \<le> qe_ts e \<and> qe_ts e < to_ms \<and> qe_name e \<noteq> hidden) in
      (int (length (filter p (sd_log db))),
       db\<lparr>sd_log := map (\<lambda>e. if p e then e\<lparr>qe_name := hidden\<rparr> else e) (sd_log db)\<rparr>))"

text \<open>A callback of the store is a function with its own state.\<close>

fun map_state :: "('a \<Rightarrow> 's \<Rightarrow> 'b \<times> 's) \<Rightarrow> 'a list \<Rightarrow> 's \<Rightarrow> 'b list \<times> 's" where
  "map_state f [] s = ([], s)"
| "map_state f (x # xs) s = (let (y, s) = f x s; (ys, s) = map_state f xs s in (y # ys, s))"

definition rename_client_day :: "int \<Rightarrow> int \<Rightarrow> (string \<times> int) \<times> string \<Rightarrow> int \<times> query_entry list \<Rightarrow> int \<times> query_entry list" where
  [model]: "rename_client_day from_ms to_ms job acc =
     (let ((client, day), new_name) = job; (n, rows) = acc;
          lo = max from_ms (day * day_ms); hi = min to_ms (day * day_ms + day_ms);
          p = (\<lambda>e. qe_client e = client \<and> lo \<le> qe_ts e \<and> qe_ts e < hi) in
      (n + int (length (filter p rows)), map (\<lambda>e. if p e then e\<lparr>qe_client := new_name\<rparr> else e) rows))"

definition pseudonymize_log :: "((string \<times> int) list \<Rightarrow> (string \<times> int) list) \<Rightarrow> int \<Rightarrow> int \<Rightarrow> string
    \<Rightarrow> (string \<Rightarrow> int \<Rightarrow> 's \<Rightarrow> string \<times> 's) \<Rightarrow> stats_db \<times> 's \<Rightarrow> int \<times> stats_db \<times> 's" where
  [model]: "pseudonymize_log visit from_ms to_ms pre f st =
     (let (db, s) = st;
          todo = visit (remdups (map (\<lambda>e. (qe_client e, sql_div (qe_ts e) day_ms))
            (filter (\<lambda>e. from_ms \<le> qe_ts e \<and> qe_ts e < to_ms \<and> qe_client e \<noteq> [] \<and> \<not> sql_like (pre @ ''%'') (qe_client e)) (sd_log db))));
          (new_names, s) = map_state (\<lambda>(c, d). f c (d * day_ms)) todo s;
          (n, rows) = fold (rename_client_day from_ms to_ms) (zip todo new_names) (0, sd_log db) in
      (n, db\<lparr>sd_log := rows\<rparr>, s))"

definition rekey_row :: "((int \<times> string \<times> string) \<times> int \<times> int) \<times> string
    \<Rightarrow> (int \<times> string \<times> string, int) counts \<Rightarrow> (int \<times> string \<times> string, int) counts" where
  [model]: "rekey_row job t =
     (let (((hour, node, client), n, b), new_name) = job; t = AList.delete (hour, node, client) t in
      if new_name = [] then t else add_count ((hour, node, new_name), n, b) t)"

definition rekey_client_rollup :: "(((int \<times> string \<times> string) \<times> int \<times> int) list \<Rightarrow> ((int \<times> string \<times> string) \<times> int \<times> int) list)
    \<Rightarrow> int \<Rightarrow> int \<Rightarrow> string \<Rightarrow> (string \<Rightarrow> int \<Rightarrow> 's \<Rightarrow> string \<times> 's) \<Rightarrow> stats_db \<times> 's \<Rightarrow> stats_db \<times> 's" where
  [model]: "rekey_client_rollup visit from_hour through_hour pre f st =
     (let (db, s) = st;
          todo = visit (filter (\<lambda>((h, _, c), _). from_hour \<le> h \<and> h \<le> through_hour \<and> \<not> sql_like (pre @ ''%'') c) (sd_client db));
          (new_names, s) = map_state (\<lambda>((h, _, c), _). f c (h * 3600000)) todo s in
      (db\<lparr>sd_client := fold rekey_row (zip todo new_names) (sd_client db)\<rparr>, s))"

definition delete_log_through :: "int \<Rightarrow> stats_db \<Rightarrow> stats_db" where
  [model]: "delete_log_through i db = db\<lparr>sd_log := filter (\<lambda>e. \<not> qe_id e \<le> i) (sd_log db)\<rparr>"

definition delete_client_rollup :: "int \<Rightarrow> stats_db \<Rightarrow> stats_db" where
  [model]: "delete_client_rollup through_hour db = db\<lparr>sd_client := filter (\<lambda>((h, _), _). \<not> h \<le> through_hour) (sd_client db)\<rparr>"

definition oldest_log_ts :: "stats_db \<Rightarrow> int" where
  [model]: "oldest_log_ts db = (case sd_log db of [] \<Rightarrow> 0 | e # es \<Rightarrow> foldr min (map qe_ts es) (qe_ts e))"

definition reduce_names :: "int \<Rightarrow> int \<Rightarrow> string \<Rightarrow> (string \<Rightarrow> int \<Rightarrow> 's \<Rightarrow> string \<times> 's) \<Rightarrow> stats_db \<times> 's \<Rightarrow> int \<times> stats_db \<times> 's" where
  [model]: "reduce_names from_ms to_ms hidden keep st =
     (let (db, s) = st;
          all = filter (\<lambda>e. from_ms \<le> qe_ts e \<and> qe_ts e < to_ms \<and> qe_name e \<noteq> hidden) (sd_log db);
          (names, s) = map_state (\<lambda>e. keep (qe_name e) (qe_ts e)) all s;
          changes = map (\<lambda>(e, n). (qe_id e, n)) (filter (\<lambda>(e, n). n \<noteq> qe_name e) (zip all names)) in
      (int (length (filter (\<lambda>e. map_of changes (qe_id e) \<noteq> None) (sd_log db))),
       db\<lparr>sd_log := map (\<lambda>e. case map_of changes (qe_id e) of None \<Rightarrow> e | Some n \<Rightarrow> e\<lparr>qe_name := n\<rparr>) (sd_log db)\<rparr>, s))"

definition log_day_pairs :: "((string \<times> string) list \<Rightarrow> (string \<times> string) list) \<Rightarrow> stats_db \<Rightarrow> int \<Rightarrow> (string \<times> string) list" where
  [model]: "log_day_pairs visit db day_start =
     visit (remdups (map (\<lambda>e. (qe_name e, qe_client e))
       (filter (\<lambda>e. day_start \<le> qe_ts e \<and> qe_ts e < day_start + day_ms) (sd_log db))))"

subsection \<open>The scrubber (scrub.go)\<close>

abbreviation scrub_overlap :: int where "scrub_overlap \<equiv> 600000"

record scrub_meta =
  sm_cursor :: int
  sm_level :: int
  sm_domains :: int

text \<open>The orders in which the database returns the rows of its three statements.\<close>

record scrub_order =
  so_clients :: "(string \<times> int) list \<Rightarrow> (string \<times> int) list"
  so_rollup :: "((int \<times> string \<times> string) \<times> int \<times> int) list \<Rightarrow> ((int \<times> string \<times> string) \<times> int \<times> int) list"
  so_pairs :: "(string \<times> string) list \<Rightarrow> (string \<times> string) list"

type_synonym scrub_state = "stats_db \<times> domain_tracker \<times> keyring"

definition day_pseudonym :: "(string \<Rightarrow> string \<Rightarrow> string) \<Rightarrow> (int \<Rightarrow> string) \<Rightarrow> string \<Rightarrow> int
    \<Rightarrow> domain_tracker \<times> keyring \<Rightarrow> string \<times> domain_tracker \<times> keyring" where
  [model]: "day_pseudonym H fresh client ts s =
     (let (t, kr) = s; (c, kr) = pseudonym H fresh client ts kr in (c, t, kr))"

definition scrub_range :: "suffix_lib \<Rightarrow> (string \<Rightarrow> string \<Rightarrow> string) \<Rightarrow> (int \<Rightarrow> string) \<Rightarrow> scrub_order \<Rightarrow> privacy_policy \<Rightarrow> int \<Rightarrow> int
    \<Rightarrow> scrub_state \<Rightarrow> scrub_state" where
  [model]: "scrub_range P H fresh ord p lo hi st =
     (let (db, s) = st;
          (db, s) = (if \<not> rare_only p then (snd (hide_names lo hi hidden_name db), s)
                     else snd (reduce_names lo hi hidden_name
                       (dt_keep P H fresh (log_day_pairs (so_pairs ord) db) (po_k p)) (db, s))) in
      if po_level p = 2 then snd (pseudonymize_log (so_clients ord) lo hi pseudonym_prefix (day_pseudonym H fresh) (db, s))
      else (db, s))"

lemma next_day_later: "lo < (sql_div lo day_ms + 1) * day_ms"
  by (simp add: sql_div_def) linarith

text \<open>\<open>for lo := from; lo < cutoff; lo = hi\<close>\<close>

function scrub_days :: "suffix_lib \<Rightarrow> (string \<Rightarrow> string \<Rightarrow> string) \<Rightarrow> (int \<Rightarrow> string) \<Rightarrow> scrub_order \<Rightarrow> privacy_policy \<Rightarrow> int \<Rightarrow> int
    \<Rightarrow> scrub_state \<Rightarrow> scrub_state" where
  "scrub_days P H fresh ord p lo cutoff st =
     (if lo < cutoff then
        (let hi = min ((sql_div lo day_ms + 1) * day_ms) cutoff in
         scrub_days P H fresh ord p hi cutoff (scrub_range P H fresh ord p lo hi st))
      else st)"
  by pat_completeness auto
termination
  by (relation "measure (\<lambda>(_, _, _, _, _, lo, cutoff, _). nat (cutoff - lo))")
    (use next_day_later in \<open>auto simp: min_def\<close>)

declare scrub_days.simps [simp del]

definition scrub_from :: "privacy_policy \<Rightarrow> scrub_meta \<Rightarrow> stats_db \<Rightarrow> int" where
  [model]: "scrub_from p m db =
     (let from = (if sm_level m < po_level p \<or> sm_domains m < domain_strictness p then 0
                  else max (sm_cursor m - scrub_overlap) 0) in max from (oldest_log_ts db))"

definition scrub :: "suffix_lib \<Rightarrow> (string \<Rightarrow> string \<Rightarrow> string) \<Rightarrow> (int \<Rightarrow> string) \<Rightarrow> scrub_order \<Rightarrow> privacy_policy option \<Rightarrow> int
    \<Rightarrow> scrub_meta \<times> scrub_state \<Rightarrow> scrub_meta \<times> scrub_state" where
  [model]: "scrub P H fresh ord policy now_ms ms =
     (let (m, st) = ms; p = current_policy policy in
      if po_level p = 0 then (m\<lparr>sm_domains := 0, sm_level := 0\<rparr>, st)
      else (let cutoff = policy_cutoff p now_ms; from = scrub_from p m (fst st);
                st = (if 0 < oldest_log_ts (fst st) then scrub_days P H fresh ord p from cutoff st else st);
                cutoff_hour = sql_div cutoff 3600000;
                (db, s) = (if po_level p = 2 then
                             rekey_client_rollup (so_rollup ord) (sql_div from 3600000) cutoff_hour pseudonym_prefix (day_pseudonym H fresh) st
                           else if po_level p = 3 then
                             (let (db, s) = st in (delete_client_rollup cutoff_hour (snd (delete_rolled_up cutoff db)), s))
                           else st);
                (t, kr) = s in
        (\<lparr>sm_cursor = cutoff, sm_level = po_level p, sm_domains = domain_strictness p\<rparr>,
         db, dt_prune (sql_div cutoff day_ms - 1) t, kr_prune cutoff kr)))"

subsection \<open>A node's batch arrives (internal/api: clusterLog)\<close>

text \<open>
  The handler after authentication and decoding: entries are labelled, the names for the
  classifier are taken before the level hides them, the anonymizer sees the batch, then it is
  stored under the node's name. \<open>label\<close> is the category of an entry.
\<close>

definition names_to_classify :: "query_entry list \<Rightarrow> string list" where
  [model]: "names_to_classify es =
     map qe_name (filter (\<lambda>e. \<not> (qe_action e = ''rewrite'' \<or> qe_action e = ''authoritative'')) es)"

definition cluster_log :: "suffix_lib \<Rightarrow> (string \<Rightarrow> string \<Rightarrow> string) \<Rightarrow> (int \<Rightarrow> string) \<Rightarrow> scrub_order \<Rightarrow> (query_entry \<Rightarrow> string)
    \<Rightarrow> privacy_policy option \<Rightarrow> int \<Rightarrow> string \<Rightarrow> query_entry list \<Rightarrow> scrub_state \<Rightarrow> string list \<times> scrub_state" where
  [model]: "cluster_log P H fresh ord label policy now_ms node es st =
     (let (db, s) = st; es = map (\<lambda>e. e\<lparr>qe_content := label e\<rparr>) es;
          (kept, s) = an_ingest P H fresh (log_day_pairs (so_pairs ord) db) policy now_ms es s in
      (names_to_classify es, insert_node_query_log node kept db, s))"

end
