(* ===== verification/Privacy_Facts.thy ===== *)
theory Privacy_Facts
  imports Privacy
begin

section \<open>What the privacy levels keep\<close>

text \<open>
  A name outlives a rare-only level only with enough devices behind it; with a fixed policy,
  every scrub leaves the stored history reduced to what the level keeps, and neither arrival nor
  scrub changes anything else of an entry.
\<close>

subsection \<open>Pseudonyms\<close>

lemma like_all: "sql_like ''%'' s"
proof (induction s)
  case Nil show ?case by (subst sql_like.simps(2)) (simp add: sql_like.simps(1))
next
  case (Cons c s) show ?case by (subst sql_like.simps(2)) (simp add: Cons)
qed

lemma like_prefix: "CHR ''%'' \<notin> set p \<Longrightarrow> sql_like (p @ ''%'') (p @ s)"
proof (induction p)
  case Nil show ?case by (simp add: like_all)
next
  case (Cons c p) then show ?case by (subst append_Cons, subst sql_like.simps(2)) auto
qed

definition anonymous_client :: "string \<Rightarrow> bool" where
  "anonymous_client c \<longleftrightarrow> c = [] \<or> sql_like (pseudonym_prefix @ ''%'') c"

lemma anonymous_prefix: "anonymous_client (pseudonym_prefix @ x)"
  using like_prefix [of pseudonym_prefix x] by (simp add: anonymous_client_def) (simp add: pseudonym_prefix_def)

lemma anonymous_pseudonym: "anonymous_client (fst (pseudonym H fresh c ts kr))"
  by (simp add: pseudonym_def Let_def anonymous_prefix split: prod.split)

lemma is_pseudonym_anonymous: "is_pseudonym c \<Longrightarrow> anonymous_client c"
  by (auto simp: is_pseudonym_def has_prefix_append anonymous_prefix)

subsection \<open>Rare names\<close>

text \<open>
  The devices a step counts, as (day, name, device): those the store has for a day that is looked
  at for the first time, and the observed one.
\<close>

fun seed_log :: "(string \<Rightarrow> string \<Rightarrow> string) \<Rightarrow> (int \<Rightarrow> string) \<Rightarrow> int \<Rightarrow> (string \<times> string) list \<Rightarrow> keyring
    \<Rightarrow> (int \<times> string \<times> string) list" where
  "seed_log H fresh day [] kr = []"
| "seed_log H fresh day ((name, client) # ps) kr =
     (if name = [] \<or> name = hidden_name \<or> client = [] then seed_log H fresh day ps kr
      else (let (dev, kr) = device H fresh client (day * day_ms) kr in (day, name, dev) # seed_log H fresh day ps kr))"

definition day_log :: "(string \<Rightarrow> string \<Rightarrow> string) \<Rightarrow> (int \<Rightarrow> string) \<Rightarrow> (int \<Rightarrow> (string \<times> string) list) \<Rightarrow> int
    \<Rightarrow> domain_tracker \<times> keyring \<Rightarrow> (int \<times> string \<times> string) list" where
  "day_log H fresh pairs day s =
     (if map_of (dt_days (fst s)) day = None then seed_log H fresh day (pairs (day * day_ms)) (snd s) else [])"

definition observe_log :: "(string \<Rightarrow> string \<Rightarrow> string) \<Rightarrow> (int \<Rightarrow> string) \<Rightarrow> (int \<Rightarrow> (string \<times> string) list) \<Rightarrow> int
    \<Rightarrow> query_entry \<Rightarrow> domain_tracker \<times> keyring \<Rightarrow> (int \<times> string \<times> string) list" where
  "observe_log H fresh pairs k e s =
     (if qe_name e = [] \<or> qe_name e = hidden_name \<or> qe_client e = [] then []
      else (let (dev, kr) = device H fresh (qe_client e) (qe_ts e) (snd s); day = sql_div (qe_ts e) day_ms in
        day_log H fresh pairs day (dt_set_k k (fst s), kr) @ [(day, qe_name e, dev)]))"

definition keep_log :: "suffix_lib \<Rightarrow> (string \<Rightarrow> string \<Rightarrow> string) \<Rightarrow> (int \<Rightarrow> string) \<Rightarrow> (int \<Rightarrow> (string \<times> string) list) \<Rightarrow> int
    \<Rightarrow> string \<Rightarrow> int \<Rightarrow> domain_tracker \<times> keyring \<Rightarrow> (int \<times> string \<times> string) list" where
  "keep_log P H fresh pairs k name ts s =
     (if name = [] \<or> name = hidden_name then []
      else (let day = sql_div ts day_ms; s = (dt_set_k k (fst s), snd s) in
        day_log H fresh pairs day s @ day_log H fresh pairs (day - 1) (snd (dt_day P H fresh pairs day s))))"

text \<open>Everything that happens to the tracker, with the devices counted so far.\<close>

inductive tracked :: "suffix_lib \<Rightarrow> (string \<Rightarrow> string \<Rightarrow> string) \<Rightarrow> domain_tracker \<times> keyring \<Rightarrow> (int \<times> string \<times> string) list \<Rightarrow> bool"
  for P H where
  start: "tracked P H (new_tracker, kr) []"
| observed: "tracked P H s obs \<Longrightarrow>
    tracked P H (dt_observe P H fresh pairs k e s) (obs @ observe_log H fresh pairs k e s)"
| decided: "tracked P H s obs \<Longrightarrow>
    tracked P H (snd (dt_keep P H fresh pairs k name ts s)) (obs @ keep_log P H fresh pairs k name ts s)"
| forgot: "tracked P H (t, kr) obs \<Longrightarrow> tracked P H (dt_prune before t, kr') obs"

definition devices :: "(int \<times> string \<times> string) list \<Rightarrow> (string \<Rightarrow> string) \<Rightarrow> int \<Rightarrow> string \<Rightarrow> string set" where
  "devices obs f day key = {dev. \<exists>n. (day, n, dev) \<in> set obs \<and> f n = key}"

definition cell_ok :: "int \<Rightarrow> string set \<Rightarrow> seen_by \<Rightarrow> bool" where
  "cell_ok k D s \<longleftrightarrow> finite D \<and> (if sb_common s then k \<le> int (card D) else distinct (sb_devs s) \<and> set (sb_devs s) \<subseteq> D)"

definition cells_ok :: "int \<Rightarrow> (string \<Rightarrow> string set) \<Rightarrow> (string \<times> seen_by) list \<Rightarrow> bool" where
  "cells_ok k D m \<longleftrightarrow> (\<forall>key s. map_of m key = Some s \<longrightarrow> cell_ok k (D key) s)"

definition day_ok :: "suffix_lib \<Rightarrow> int \<Rightarrow> (int \<times> string \<times> string) list \<Rightarrow> int \<Rightarrow> day_counts \<Rightarrow> bool" where
  "day_ok P k obs day d \<longleftrightarrow> cells_ok k (devices obs canonical day) (dc_names d) \<and> cells_ok k (devices obs (registered P) day) (dc_regs d)"

definition tracker_ok :: "suffix_lib \<Rightarrow> (int \<times> string \<times> string) list \<Rightarrow> domain_tracker \<Rightarrow> bool" where
  "tracker_ok P obs t \<longleftrightarrow> (\<forall>day d. map_of (dt_days t) day = Some d \<longrightarrow> day_ok P (dt_k t) obs day d)"

lemma finite_devices [simp]: "finite (devices obs f day key)"
proof -
  have "devices obs f day key \<subseteq> (\<lambda>(_, _, d). d) ` set obs" by (force simp: devices_def)
  then show ?thesis by (rule finite_subset) simp
qed

lemma devices_mono: "set obs \<subseteq> set obs' \<Longrightarrow> devices obs f day key \<subseteq> devices obs' f day key"
  by (auto simp: devices_def)

lemma cell_ok_mono: "cell_ok k D s \<Longrightarrow> D \<subseteq> D' \<Longrightarrow> finite D' \<Longrightarrow> cell_ok k D' s"
  using card_mono [of D' D] by (auto simp: cell_ok_def split: if_splits)

lemma dt_add_ok:
  assumes "cells_ok k D m" and "\<And>x. D x \<subseteq> D' x" and "\<And>x. finite (D' x)" and "dev \<in> D' key"
  shows "cells_ok k D' (dt_add k key dev m)"
proof -
  have old: "cell_ok k (D' x) s" if "map_of m x = Some s" for x s
    using assms that cell_ok_mono by (metis cells_ok_def)
  let ?s = "case map_of m key of None \<Rightarrow> \<lparr>sb_common = False, sb_devs = []\<rparr> | Some s \<Rightarrow> s"
  have s: "cell_ok k (D' key) ?s" using old assms(3) by (auto simp: cell_ok_def split: option.split)
  show ?thesis
  proof (cases "map_of m key = None \<and> max_tracked_names \<le> int (length m) \<or> sb_common ?s \<or> dev \<in> set (sb_devs ?s)")
    case True
    then have "dt_add k key dev m = m" by (auto simp: dt_add_def Let_def)
    then show ?thesis using old by (simp add: cells_ok_def)
  next
    case False
    let ?n = "if k \<le> int (length (sb_devs ?s @ [dev])) then \<lparr>sb_common = True, sb_devs = []\<rparr>
              else \<lparr>sb_common = False, sb_devs = sb_devs ?s @ [dev]\<rparr>"
    have add: "dt_add k key dev m = AList.update key ?n m" using False by (auto simp: dt_add_def Let_def)
    have d: "distinct (sb_devs ?s @ [dev])" "set (sb_devs ?s @ [dev]) \<subseteq> D' key"
      using s False assms(4) by (auto simp: cell_ok_def split: if_splits)
    then have "length (sb_devs ?s @ [dev]) \<le> card (D' key)"
      using card_mono [OF assms(3) d(2)] distinct_card [OF d(1)] by simp
    then have "cell_ok k (D' key) ?n" using d assms(3) by (auto simp: cell_ok_def)
    then show ?thesis using old by (auto simp: cells_ok_def add update_conv' split: if_splits)
  qed
qed

lemma cells_ok_mono:
  assumes "cells_ok k (devices obs f day) m" and "set obs \<subseteq> set obs'"
  shows "cells_ok k (devices obs' f day) m"
  unfolding cells_ok_def
proof (intro allI impI)
  fix key s assume "map_of m key = Some s"
  with assms(1) have "cell_ok k (devices obs f day key) s" by (simp add: cells_ok_def)
  then show "cell_ok k (devices obs' f day key) s"
    by (rule cell_ok_mono) (simp_all add: devices_mono assms(2))
qed

lemma dt_count_ok:
  assumes "day_ok P k obs day d" and "set obs \<subseteq> set obs'" and "(day, name, dev) \<in> set obs'"
  shows "day_ok P k obs' day (dt_count P k name dev d)"
proof -
  have "dev \<in> devices obs' f day (f name)" for f using assms(3) by (auto simp: devices_def)
  then have add: "cells_ok k (devices obs' f day) (dt_add k (f name) dev m)" if "cells_ok k (devices obs f day) m" for f m
    by (intro dt_add_ok [OF that] devices_mono assms(2)) simp_all
  have "cells_ok k (devices obs' (registered P) day) (dc_regs d)"
    by (rule cells_ok_mono [OF _ assms(2)]) (use assms(1) in \<open>simp add: day_ok_def\<close>)
  then show ?thesis
    using assms(1) add by (simp add: day_ok_def dt_count_def Let_def)
qed

lemma tracker_ok_mono: "tracker_ok P obs t \<Longrightarrow> set obs \<subseteq> set obs' \<Longrightarrow> tracker_ok P obs' t"
  unfolding tracker_ok_def day_ok_def using cells_ok_mono by blast

lemma seed_ok:
  assumes "fold (seed_pair P H fresh k day) ps (d, kr) = (d', kr')" and "day_ok P k obs day d"
  shows "day_ok P k (obs @ seed_log H fresh day ps kr) day d'"
  using assms
proof (induction ps arbitrary: d kr obs)
  case (Cons p ps)
  obtain name client where p: "p = (name, client)" by (cases p)
  obtain dev kr1 where dev: "device H fresh client (day * day_ms) kr = (dev, kr1)" by (cases "device H fresh client (day * day_ms) kr")
  show ?case
  proof (cases "name = [] \<or> name = hidden_name \<or> client = []")
    case True
    then show ?thesis using Cons by (auto simp: p seed_pair_def)
  next
    case False
    have "day_ok P k (obs @ [(day, name, dev)]) day (dt_count P k name dev d)"
      by (rule dt_count_ok [OF Cons.prems(2)]) auto
    from Cons.IH [OF _ this, of kr1] show ?thesis
      using Cons.prems(1) False by (simp add: p seed_pair_def dev)
  qed
qed simp

lemma dt_day_ok:
  assumes "tracker_ok P obs t" and "dt_day P H fresh pairs day (t, kr) = (d, t', kr')"
  shows "tracker_ok P (obs @ day_log H fresh pairs day (t, kr)) t' \<and> map_of (dt_days t') day = Some d \<and> dt_k t' = dt_k t
    \<and> (\<forall>x. map_of (dt_days t) x \<noteq> None \<longrightarrow> map_of (dt_days t') x = map_of (dt_days t) x)"
proof (cases "map_of (dt_days t) day")
  case None
  obtain d1 kr1 where f: "fold (seed_pair P H fresh (dt_k t) day) (pairs (day * day_ms)) (no_counts, kr) = (d1, kr1)"
    by fastforce
  let ?obs = "obs @ seed_log H fresh day (pairs (day * day_ms)) kr"
  have "day_ok P (dt_k t) obs day no_counts" by (simp add: day_ok_def cells_ok_def no_counts_def)
  from seed_ok [OF f this] have "day_ok P (dt_k t) ?obs day d1" .
  moreover have "tracker_ok P ?obs t" by (rule tracker_ok_mono [OF assms(1)]) simp
  moreover have "d = d1" "t' = t\<lparr>dt_days := AList.update day d1 (dt_days t)\<rparr>"
    using assms(2) None by (auto simp: dt_day_def f)
  ultimately show ?thesis using None by (auto simp: tracker_ok_def day_log_def update_conv')
next
  case (Some d1)
  then show ?thesis using assms by (simp add: dt_day_def day_log_def)
qed

lemma set_k_ok: "tracker_ok P obs t \<Longrightarrow> tracker_ok P obs (dt_set_k k t) \<and> dt_k (dt_set_k k t) = k"
  by (simp add: tracker_ok_def dt_set_k_def)

lemma observe_ok:
  assumes "tracker_ok P obs (fst s)"
  shows "tracker_ok P (obs @ observe_log H fresh pairs k e s) (fst (dt_observe P H fresh pairs k e s))"
proof (cases "qe_name e = [] \<or> qe_name e = hidden_name \<or> qe_client e = []")
  case True
  then show ?thesis using assms by (auto simp: observe_log_def dt_observe_def)
next
  case False
  let ?day = "sql_div (qe_ts e) day_ms"
  obtain dev kr where dev: "device H fresh (qe_client e) (qe_ts e) (snd s) = (dev, kr)"
    by (cases "device H fresh (qe_client e) (qe_ts e) (snd s)")
  obtain d t' kr' where day: "dt_day P H fresh pairs ?day (dt_set_k k (fst s), kr) = (d, t', kr')" by (metis prod_cases3)
  let ?log = "day_log H fresh pairs ?day (dt_set_k k (fst s), kr)"
  note o = dt_day_ok [OF set_k_ok [OF assms, THEN conjunct1] day]
  have "day_ok P (dt_k t') (obs @ ?log @ [(?day, qe_name e, dev)]) ?day (dt_count P (dt_k t') (qe_name e) dev d)"
    by (rule dt_count_ok [where obs = "obs @ ?log"]) (use o in \<open>auto simp: tracker_ok_def\<close>)
  moreover have "tracker_ok P (obs @ ?log @ [(?day, qe_name e, dev)]) t'"
    by (rule tracker_ok_mono [OF o [THEN conjunct1]]) auto
  moreover have "fst (dt_observe P H fresh pairs k e s) =
      t'\<lparr>dt_days := AList.update ?day (dt_count P (dt_k t') (qe_name e) dev d) (dt_days t')\<rparr>"
    using False by (cases s) (use dev day in \<open>simp add: dt_observe_def Let_def\<close>)
  moreover have "observe_log H fresh pairs k e s = ?log @ [(?day, qe_name e, dev)]"
    using False dev by (simp add: observe_log_def Let_def)
  ultimately show ?thesis by (auto simp: tracker_ok_def update_conv')
qed

lemma keep_ok:
  assumes "tracker_ok P obs (fst s)" and "dt_keep P H fresh pairs k name ts s = (r, s')"
  shows "tracker_ok P (obs @ keep_log P H fresh pairs k name ts s) (fst s')
    \<and> (name \<noteq> [] \<and> r \<noteq> hidden_name \<longrightarrow> (\<exists>day\<in>{sql_div ts day_ms, sql_div ts day_ms - 1}.
         r = name \<and> k \<le> int (card (devices (obs @ keep_log P H fresh pairs k name ts s) canonical day (canonical name)))
         \<or> r = registered P name \<and> k \<le> int (card (devices (obs @ keep_log P H fresh pairs k name ts s) (registered P) day r))))"
proof (cases "name = [] \<or> name = hidden_name")
  case True
  then show ?thesis using assms by (auto simp: keep_log_def dt_keep_def)
next
  case False
  let ?day = "sql_div ts day_ms"
  let ?s = "(dt_set_k k (fst s), snd s)"
  obtain today t1 kr1 where d1: "dt_day P H fresh pairs ?day ?s = (today, t1, kr1)" by (metis prod_cases3)
  obtain before t2 kr2 where d2: "dt_day P H fresh pairs (?day - 1) (t1, kr1) = (before, t2, kr2)" by (metis prod_cases3)
  let ?l1 = "day_log H fresh pairs ?day ?s" and ?l2 = "day_log H fresh pairs (?day - 1) (t1, kr1)"
  let ?obs = "obs @ ?l1 @ ?l2" and ?n = "canonical name" and ?reg = "registered P name"
  note k1 = set_k_ok [OF assms(1), of k]
  note o1 = dt_day_ok [OF k1 [THEN conjunct1] d1]
  note o2 = dt_day_ok [OF o1 [THEN conjunct1] d2]
  have log: "keep_log P H fresh pairs k name ts s = ?l1 @ ?l2" using False d1 by (simp add: keep_log_def Let_def)
  have t2: "tracker_ok P ?obs t2" "dt_k t2 = k" using o2 o1 k1 by simp_all
  have in2: "map_of (dt_days t2) ?day = Some today" "map_of (dt_days t2) (?day - 1) = Some before" using o1 o2 by auto
  have ok: "day_ok P k ?obs ?day today" "day_ok P k ?obs (?day - 1) before"
    using t2 in2 by (metis tracker_ok_def)+
  have c: "k \<le> int (card (D key))" if "cells_ok k D m" "is_common m key" for D m key
    using that by (auto simp: is_common_def cells_ok_def cell_ok_def split: option.splits)
  have r: "(r, s') = (if is_common (dc_names today) ?n \<or> is_common (dc_names before) ?n then (name, t2, kr2)
      else if ?reg \<noteq> [] \<and> (is_common (dc_regs today) ?reg \<or> is_common (dc_regs before) ?reg) then (?reg, t2, kr2)
      else (hidden_name, t2, kr2))"
    using assms(2) [symmetric] False d1 d2 by (cases s) (simp add: dt_keep_def Let_def)
  have "fst s' = t2" using r by (auto split: if_splits)
  moreover have "r \<noteq> hidden_name \<Longrightarrow> (\<exists>day\<in>{?day, ?day - 1}.
      r = name \<and> k \<le> int (card (devices ?obs canonical day ?n)) \<or> r = ?reg \<and> k \<le> int (card (devices ?obs (registered P) day r)))"
    using r ok c unfolding day_ok_def by (auto split: if_splits)
  ultimately show ?thesis using t2(1) by (simp add: log)
qed

lemma tracked_ok: "tracked P H s obs \<Longrightarrow> tracker_ok P obs (fst s)"
proof (induction rule: tracked.induct)
  case (start kr)
  then show ?case by (simp add: tracker_ok_def new_tracker_def)
next
  case (observed s obs fresh pairs k e)
  then show ?case by (intro observe_ok)
next
  case (decided s obs fresh pairs k name ts)
  then show ?case using keep_ok [OF decided.IH, of H fresh pairs k name ts] by (metis prod.collapse)
next
  case (forgot t kr obs before kr')
  have "map_of (filter (\<lambda>(d, _). \<not> d < before) (dt_days t)) x = (if \<not> x < before then map_of (dt_days t) x else None)" for x
    by (induction "dt_days t") (auto simp: map_of_kept)
  with forgot.IH show ?case by (auto simp: tracker_ok_def dt_prune_def)
qed

text \<open>
  C19: rare names do not get out. Whatever was observed, decided, seeded from the store and
  forgotten before, a rare-only level with threshold k stores a name in full only when at least
  k devices were counted for that name on the day of the query or the day before, and stores its
  registered domain only when at least k devices were counted for names under it on one of the
  two days; otherwise the entry says hidden.
\<close>

theorem kept_names_are_shared:
  assumes "tracked P H s obs" and "dt_keep P H fresh pairs k name ts s = (r, s')"
    and "name \<noteq> []" and "r \<noteq> hidden_name"
  shows "\<exists>day\<in>{sql_div ts day_ms, sql_div ts day_ms - 1}.
    r = name \<and> k \<le> int (card {dev. \<exists>n. (day, n, dev) \<in> set (obs @ keep_log P H fresh pairs k name ts s) \<and> canonical n = canonical name})
    \<or> r = registered P name \<and> k \<le> int (card {dev. \<exists>n. (day, n, dev) \<in> set (obs @ keep_log P H fresh pairs k name ts s) \<and> registered P n = r})"
  using keep_ok [OF tracked_ok [OF assms(1)] assms(2)] assms(3,4) unfolding devices_def by blast

subsection \<open>Arrival\<close>

lemma apply_where_all2:
  assumes "apply_where q f es s = (es', s')" and "\<And>e s. R e (fst (f e s))"
  shows "list_all2 (\<lambda>e e'. if q e then R e e' else e' = e) es es'"
  using assms(1)
proof (induction es arbitrary: s es')
  case (Cons e es)
  obtain e1 s1 where 1: "(if q e then f e s else (e, s)) = (e1, s1)" by fastforce
  obtain es2 s2 where 2: "apply_where q f es s1 = (es2, s2)" by fastforce
  have "es' = e1 # es2" "s2 = s'" using Cons.prems 1 2 by simp_all
  moreover have "if q e then R e e1 else e1 = e" using 1 assms(2) [of e s] by (auto split: if_splits)
  ultimately show ?case using Cons.IH [of s1 es2] 2 by simp
qed simp

text \<open>What a level makes of an entry; the rest of the entry stays as it is.\<close>

definition levelled :: "suffix_lib \<Rightarrow> privacy_policy \<Rightarrow> query_entry \<Rightarrow> query_entry \<Rightarrow> bool" where
  "levelled P p e e' \<longleftrightarrow> e' = e\<lparr>qe_name := qe_name e', qe_client := qe_client e'\<rparr>
     \<and> (if rare_only p then qe_name e' \<in> {qe_name e, registered P (qe_name e), hidden_name} else qe_name e' = hidden_name)
     \<and> (if po_level p = 1 then qe_client e' = qe_client e
        else if po_level p = 2 then anonymous_client (qe_client e') else qe_client e' = [])"

lemma keep_result: "fst (dt_keep P H fresh pairs k name ts s) \<in> {name, registered P name, hidden_name}"
  by (auto simp: dt_keep_def Let_def split: prod.splits)

lemma apply_levelled:
  assumes "po_level p \<in> {1, 2, 3}" shows "levelled P p e (fst (an_apply P H fresh pairs p e s))"
proof -
  obtain name s1 where 1: "(if rare_only p then dt_keep P H fresh pairs (po_k p) (qe_name e) (qe_ts e) s
      else if 1 \<le> po_level p then (hidden_name, s) else (qe_name e, s)) = (name, s1)" by (metis surj_pair)
  have n: "if rare_only p then name \<in> {qe_name e, registered P (qe_name e), hidden_name} else name = hidden_name"
    using 1 assms keep_result [of P H fresh pairs "po_k p" "qe_name e" "qe_ts e" s] by (auto split: if_splits)
  obtain t kr where s1: "s1 = (t, kr)" by (cases s1)
  obtain c kr' where c: "pseudonym H fresh (qe_client e) (qe_ts e) kr = (c, kr')" by fastforce
  have "anonymous_client c" using anonymous_pseudonym [of H fresh "qe_client e" "qe_ts e" kr] by (simp add: c)
  moreover have "anonymous_client []" by (simp add: anonymous_client_def)
  ultimately show ?thesis
    using assms n is_pseudonym_anonymous [of "qe_client e"] unfolding an_apply_def 1
    by (auto simp: levelled_def s1 c)
qed

lemma policy_levels: "1 \<le> po_level (current_policy policy) \<Longrightarrow> po_level (current_policy policy) \<in> {1, 2, 3}"
  by (auto simp: current_policy_def normalize_policy_def Let_def split: option.splits)

lemma ingest_levelled:
  assumes "an_ingest P H fresh pairs policy now es s = (es', s')" and "p = current_policy policy" and "1 \<le> po_level p"
  shows "list_all2 (\<lambda>e e'. if qe_ts e < policy_cutoff p now \<or> po_hours p = 0 then levelled P p e e' else e' = e) es es'"
proof -
  let ?s = "if rare_only p then fold (dt_observe P H fresh pairs (po_k p)) es s else s"
  have "apply_where (\<lambda>e. qe_ts e < policy_cutoff p now \<or> po_hours p = 0) (an_apply P H fresh pairs p) es ?s = (es', s')"
    by (cases "rare_only p") (use assms in \<open>simp_all add: an_ingest_def Let_def\<close>)
  from apply_where_all2 [OF this, where R = "levelled P p"] show ?thesis
    using apply_levelled policy_levels [of policy] assms(2,3) by blast
qed

subsection \<open>Scrubbing\<close>

definition reduced :: "privacy_policy \<Rightarrow> query_entry \<Rightarrow> bool" where
  "reduced p e \<longleftrightarrow> qe_name e = hidden_name \<and> (po_level p = 2 \<longrightarrow> anonymous_client (qe_client e))"

definition scrubbed_to :: "privacy_policy \<Rightarrow> int \<Rightarrow> int \<Rightarrow> query_entry list \<Rightarrow> query_entry list \<Rightarrow> bool" where
  "scrubbed_to p lo hi = list_all2 (\<lambda>e e'. core e' = core e \<and> (reduced p e \<longrightarrow> reduced p e')
     \<and> (0 \<le> qe_ts e \<longrightarrow> lo \<le> qe_ts e \<longrightarrow> qe_ts e < hi \<longrightarrow> reduced p e'))"

lemma core_same: "core e' = core e \<Longrightarrow> qe_ts e' = qe_ts e \<and> qe_id e' = qe_id e"
  by (metis core_fields(1,2))

lemma scrubbed_trans:
  assumes "scrubbed_to p lo mid xs ys" and "scrubbed_to p mid hi ys zs"
  shows "scrubbed_to p lo hi xs zs"
proof -
  let ?R = "\<lambda>lo hi e e'. core e' = core e \<and> (reduced p e \<longrightarrow> reduced p e')
     \<and> (0 \<le> qe_ts e \<longrightarrow> lo \<le> qe_ts e \<longrightarrow> qe_ts e < hi \<longrightarrow> reduced p e')"
  have "?R lo hi x z" if "?R lo mid x y" "?R mid hi y z" for x y z
    using that core_same [of y x] by (metis linorder_not_less)
  then show ?thesis using assms unfolding scrubbed_to_def by (rule list_all2_trans)
qed

definition client_step :: "int \<Rightarrow> int \<Rightarrow> (string \<times> int) \<times> string \<Rightarrow> query_entry \<Rightarrow> query_entry" where
  "client_step from_ms to_ms job e = (case job of ((client, day), c) \<Rightarrow>
     if qe_client e = client \<and> max from_ms (day * day_ms) \<le> qe_ts e \<and> qe_ts e < min to_ms (day * day_ms + day_ms)
     then e\<lparr>qe_client := c\<rparr> else e)"

lemma rename_days: "snd (fold (rename_client_day f t) jobs (n, rows)) = map (fold (client_step f t) jobs) rows"
proof (induction jobs arbitrary: n rows)
  case (Cons j jobs)
  have "snd (rename_client_day f t j (n, rows)) = map (client_step f t j) rows"
    by (auto simp: rename_client_day_def client_step_def Let_def split: prod.split)
  then show ?case
    using Cons.IH [of "fst (rename_client_day f t j (n, rows))" "map (client_step f t j) rows"]
    by (simp add: comp_def) (metis prod.collapse)
qed simp

lemma client_step_fields: "core (client_step f t j e) = core e \<and> qe_name (client_step f t j e) = qe_name e"
  by (auto simp: client_step_def core_def split: prod.split)

lemma client_steps:
  "core (fold (client_step f t) jobs e) = core e \<and> qe_name (fold (client_step f t) jobs e) = qe_name e
   \<and> qe_client (fold (client_step f t) jobs e) \<in> insert (qe_client e) (snd ` set jobs)
   \<and> ((qe_client e, sql_div (qe_ts e) day_ms) \<in> fst ` set jobs \<and> 0 \<le> qe_ts e \<and> f \<le> qe_ts e \<and> qe_ts e < t
      \<longrightarrow> qe_client (fold (client_step f t) jobs e) \<in> snd ` set jobs)"
proof (induction jobs arbitrary: e)
  case (Cons j jobs)
  obtain c d nn where j: "j = ((c, d), nn)" by (metis prod.collapse)
  let ?e = "client_step f t j e"
  note ih = Cons.IH [of ?e]
  have s: "core ?e = core e" "qe_name ?e = qe_name e" by (simp_all add: client_step_fields)
  then have ts: "qe_ts ?e = qe_ts e" using core_same by blast
  have hit: "qe_client ?e = nn" if "qe_client e = c" "d = sql_div (qe_ts e) day_ms" "0 \<le> qe_ts e" "f \<le> qe_ts e" "qe_ts e < t"
  proof -
    have "d * day_ms \<le> qe_ts e \<and> qe_ts e < d * day_ms + day_ms" using that(2,3) by (simp add: sql_div_def) linarith
    then show ?thesis using that by (simp add: j client_step_def)
  qed
  have either: "qe_client ?e = qe_client e \<or> qe_client ?e = nn" by (simp add: j client_step_def)
  show ?case
  proof (intro conjI impI)
    show "core (fold (client_step f t) (j # jobs) e) = core e" "qe_name (fold (client_step f t) (j # jobs) e) = qe_name e"
      using ih s by simp_all
    show "qe_client (fold (client_step f t) (j # jobs) e) \<in> insert (qe_client e) (snd ` set (j # jobs))"
      using ih either by (auto simp: j)
    assume a: "(qe_client e, sql_div (qe_ts e) day_ms) \<in> fst ` set (j # jobs) \<and> 0 \<le> qe_ts e \<and> f \<le> qe_ts e \<and> qe_ts e < t"
    show "qe_client (fold (client_step f t) (j # jobs) e) \<in> snd ` set (j # jobs)"
    proof (cases "qe_client ?e = nn")
      case True
      then show ?thesis using ih by (auto simp: j)
    next
      case False
      then have c: "qe_client ?e = qe_client e" using either by blast
      have "(qe_client e, sql_div (qe_ts e) day_ms) \<in> fst ` set jobs" using a hit False by (auto simp: j)
      then have "qe_client (fold (client_step f t) jobs ?e) \<in> snd ` set jobs" using ih [unfolded ts c] a by blast
      then show ?thesis by simp
    qed
  qed
qed simp

lemma client_steps_anonymous:
  assumes "\<forall>c\<in>snd ` set jobs. anonymous_client c"
    and "\<not> anonymous_client (qe_client e) \<Longrightarrow> f \<le> qe_ts e \<Longrightarrow> qe_ts e < t \<Longrightarrow>
      (qe_client e, sql_div (qe_ts e) day_ms) \<in> fst ` set jobs"
  shows "core (fold (client_step f t) jobs e) = core e \<and> qe_name (fold (client_step f t) jobs e) = qe_name e
    \<and> (anonymous_client (qe_client e) \<or> 0 \<le> qe_ts e \<and> f \<le> qe_ts e \<and> qe_ts e < t
       \<longrightarrow> anonymous_client (qe_client (fold (client_step f t) jobs e)))"
  using client_steps [of f t jobs e] assms by (metis insertE)

lemma map_state_all:
  assumes "map_state f xs s = (ys, s')" and "\<And>x s. Q (fst (f x s))"
  shows "length ys = length xs \<and> (\<forall>y\<in>set ys. Q y)"
  using assms(1)
proof (induction xs arbitrary: s ys)
  case (Cons x xs)
  obtain y s1 where 1: "f x s = (y, s1)" by fastforce
  obtain ys2 s2 where 2: "map_state f xs s1 = (ys2, s2)" by fastforce
  then show ?case using Cons 1 assms(2) [of x s] by auto
qed simp

lemma hide_scrubs:
  assumes "snd (hide_names lo hi hidden_name db) = db'"
  shows "list_all2 (\<lambda>e e'. core e' = core e \<and> qe_client e' = qe_client e
      \<and> (qe_name e = hidden_name \<or> lo \<le> qe_ts e \<and> qe_ts e < hi \<longrightarrow> qe_name e' = hidden_name)) (sd_log db) (sd_log db')
    \<and> db' = db\<lparr>sd_log := sd_log db'\<rparr>"
  using assms by (auto simp: hide_names_def Let_def list_all2_conv_all_nth core_def)

lemma pseudonymize_scrubs:
  assumes "pseudonymize_log v lo hi pseudonym_prefix (day_pseudonym H fresh) (db, s) = (n, db', s')" and "visits v"
  shows "list_all2 (\<lambda>e e'. core e' = core e \<and> qe_name e' = qe_name e
      \<and> (anonymous_client (qe_client e) \<or> 0 \<le> qe_ts e \<and> lo \<le> qe_ts e \<and> qe_ts e < hi \<longrightarrow> anonymous_client (qe_client e')))
      (sd_log db) (sd_log db')
    \<and> db' = db\<lparr>sd_log := sd_log db'\<rparr>"
proof -
  let ?rows = "filter (\<lambda>e. lo \<le> qe_ts e \<and> qe_ts e < hi \<and> qe_client e \<noteq> [] \<and> \<not> sql_like (pseudonym_prefix @ ''%'') (qe_client e)) (sd_log db)"
  let ?todo = "v (remdups (map (\<lambda>e. (qe_client e, sql_div (qe_ts e) day_ms)) ?rows))"
  let ?f = "\<lambda>(c, d). day_pseudonym H fresh c (d * day_ms)"
  obtain names s1 where m: "map_state ?f ?todo s = (names, s1)"
    by (rule prod.exhaust [of "map_state ?f ?todo s"])
  have anon: "anonymous_client (fst (?f x s))" for x s
    using anonymous_pseudonym [of H fresh] by (auto simp: day_pseudonym_def Let_def split: prod.splits) (metis fst_conv)
  have names: "length names = length ?todo \<and> (\<forall>y\<in>set names. anonymous_client y)"
    by (rule map_state_all [OF m, where Q = anonymous_client]) (rule anon)
  let ?jobs = "zip ?todo names"
  have "map fst ?jobs = ?todo" using names by (simp add: map_fst_zip)
  then have jobs: "fst ` set ?jobs = set ?todo" by (metis list.set_map)
  have all: "\<forall>c\<in>snd ` set ?jobs. anonymous_client c" using names by (auto dest: set_zip_rightD)
  have todo: "set ?todo = (\<lambda>e. (qe_client e, sql_div (qe_ts e) day_ms)) ` set ?rows"
    using visits_set [OF assms(2)] by simp
  have db': "db' = db\<lparr>sd_log := map (fold (client_step lo hi) ?jobs) (sd_log db)\<rparr>"
  proof -
    have "db' = db\<lparr>sd_log := snd (fold (rename_client_day lo hi) ?jobs (0, sd_log db))\<rparr>"
      using assms(1) m by (auto simp: pseudonymize_log_def Let_def split: prod.splits)
    then show ?thesis by (simp only: rename_days)
  qed
  have row: "core (fold (client_step lo hi) ?jobs e) = core e \<and> qe_name (fold (client_step lo hi) ?jobs e) = qe_name e
      \<and> (anonymous_client (qe_client e) \<or> 0 \<le> qe_ts e \<and> lo \<le> qe_ts e \<and> qe_ts e < hi
         \<longrightarrow> anonymous_client (qe_client (fold (client_step lo hi) ?jobs e)))" if "e \<in> set (sd_log db)" for e
  proof (rule client_steps_anonymous [OF all])
    assume "\<not> anonymous_client (qe_client e)" "lo \<le> qe_ts e" "qe_ts e < hi"
    then show "(qe_client e, sql_div (qe_ts e) day_ms) \<in> fst ` set ?jobs"
      unfolding jobs todo using that by (auto simp: anonymous_client_def)
  qed
  show ?thesis unfolding db' using row by (simp add: list_all2_conv_all_nth)
qed

lemma range_scrubs:
  assumes "scrub_range P H fresh ord p lo hi (db, s) = (db', s')" and "\<not> rare_only p" and "visits (so_clients ord)"
  shows "scrubbed_to p lo hi (sd_log db) (sd_log db') \<and> db' = db\<lparr>sd_log := sd_log db'\<rparr>"
proof -
  let ?db = "snd (hide_names lo hi hidden_name db)"
  note h = hide_scrubs [where lo = lo and hi = hi and db = db, OF refl]
  show ?thesis
  proof (cases "po_level p = 2")
    case False
    then have "db' = ?db" using assms(1,2) by (simp add: scrub_range_def Let_def)
    then show ?thesis using h False by (auto simp: scrubbed_to_def reduced_def elim!: list_all2_mono)
  next
    case True
    obtain n where "pseudonymize_log (so_clients ord) lo hi pseudonym_prefix (day_pseudonym H fresh) (?db, s) = (n, db', s')"
      using assms(1,2) True by (simp add: scrub_range_def Let_def) (metis prod.collapse)
    note q = pseudonymize_scrubs [OF this assms(3)]
    have "scrubbed_to p lo hi (sd_log db) (sd_log db')"
      unfolding scrubbed_to_def
    proof (rule list_all2_trans [OF _ h [THEN conjunct1] q [THEN conjunct1]])
      fix a b c :: query_entry
      assume 1: "core b = core a \<and> qe_client b = qe_client a
          \<and> (qe_name a = hidden_name \<or> lo \<le> qe_ts a \<and> qe_ts a < hi \<longrightarrow> qe_name b = hidden_name)"
        and 2: "core c = core b \<and> qe_name c = qe_name b
          \<and> (anonymous_client (qe_client b) \<or> 0 \<le> qe_ts b \<and> lo \<le> qe_ts b \<and> qe_ts b < hi \<longrightarrow> anonymous_client (qe_client c))"
      have "qe_ts b = qe_ts a" using 1 core_same by blast
      with 1 2 show "core c = core a \<and> (reduced p a \<longrightarrow> reduced p c)
          \<and> (0 \<le> qe_ts a \<longrightarrow> lo \<le> qe_ts a \<longrightarrow> qe_ts a < hi \<longrightarrow> reduced p c)"
        by (simp add: reduced_def True)
    qed
    then show ?thesis using h q by (metis (no_types, lifting) stats_db.surjective stats_db.update_convs(1))
  qed
qed

lemma days_scrub:
  assumes "scrub_days P H fresh ord p lo cutoff (db, s) = (db', s')" and "\<not> rare_only p" and "visits (so_clients ord)"
  shows "scrubbed_to p lo cutoff (sd_log db) (sd_log db') \<and> db' = db\<lparr>sd_log := sd_log db'\<rparr>"
  using assms
proof (induction P H fresh ord p lo cutoff "(db, s)" arbitrary: db s rule: scrub_days.induct)
  case (1 P H fresh ord p lo cutoff db s)
  show ?case
  proof (cases "lo < cutoff")
    case False
    then have "db' = db" using "1.prems"(1) by (simp add: scrub_days.simps)
    moreover have "scrubbed_to p lo cutoff xs xs" for xs
      using False by (auto simp: scrubbed_to_def intro: list_all2_refl)
    ultimately show ?thesis by simp
  next
    case True
    let ?hi = "min ((sql_div lo day_ms + 1) * day_ms) cutoff"
    obtain db1 s1 where r: "scrub_range P H fresh ord p lo ?hi (db, s) = (db1, s1)" by (metis surj_pair)
    note a = range_scrubs [OF r "1.prems"(2,3)]
    have "scrub_days P H fresh ord p ?hi cutoff (db1, s1) = (db', s')"
      using "1.prems"(1) True r by (subst (asm) scrub_days.simps) (simp add: Let_def)
    from "1.hyps" [OF True refl r this "1.prems"(2,3)]
    have b: "scrubbed_to p ?hi cutoff (sd_log db1) (sd_log db')" "db' = db1\<lparr>sd_log := sd_log db'\<rparr>" by blast+
    have "scrubbed_to p lo cutoff (sd_log db) (sd_log db')"
      by (rule scrubbed_trans [OF a [THEN conjunct1] b(1)])
    then show ?thesis using a b(2) by (metis (no_types, lifting) stats_db.surjective stats_db.update_convs(1))
  qed
qed

subsection \<open>A fixed policy over time\<close>

inductive private_run :: "suffix_lib \<Rightarrow> (string \<Rightarrow> string \<Rightarrow> string) \<Rightarrow> privacy_policy option \<Rightarrow> int \<Rightarrow> scrub_meta \<times> scrub_state \<Rightarrow> bool"
  for P H policy where
  start: "private_run P H policy now (\<lparr>sm_cursor = 0, sm_level = 0, sm_domains = 0\<rparr>, empty_stats, s)"
| arrived: "private_run P H policy now (m, st) \<Longrightarrow> now \<le> now' \<Longrightarrow> list_all (\<lambda>e. 0 < qe_ts e) es \<Longrightarrow>
    private_run P H policy now' (m, snd (cluster_log P H fresh ord label policy now' node es st))"
| scrubbed: "private_run P H policy now (m, st) \<Longrightarrow> now \<le> now' \<Longrightarrow> visits (so_clients ord) \<Longrightarrow>
    private_run P H policy now' (scrub P H fresh ord policy now' (m, st))"
| counted: "private_run P H policy now (m, db, s) \<Longrightarrow> private_run P H policy now (m, snd (rollup_advance batch db), s)"
| dropped: "private_run P H policy now (m, db, s) \<Longrightarrow> private_run P H policy now (m, snd (prune_query_log before db), s)"

text \<open>Before the first scrub nothing is promised; after it, everything before the cursor is reduced.\<close>

definition run_ok :: "privacy_policy \<Rightarrow> int \<Rightarrow> scrub_meta \<times> scrub_state \<Rightarrow> bool" where
  "run_ok p now ms \<longleftrightarrow> (case ms of (m, db, s) \<Rightarrow>
     (\<forall>e\<in>set (sd_log db). 0 < qe_ts e) \<and>
     (sm_level m = 0 \<or> sm_cursor m \<le> policy_cutoff p now \<and> (\<forall>e\<in>set (sd_log db). qe_ts e < sm_cursor m \<longrightarrow> reduced p e)))"

lemma run_ok_subset: "run_ok p now (m, db, s) \<Longrightarrow> set (sd_log db') \<subseteq> set (sd_log db) \<Longrightarrow> run_ok p now (m, db', s')"
  by (auto simp: run_ok_def)

lemma cutoff_mono: "now \<le> now' \<Longrightarrow> policy_cutoff p now \<le> policy_cutoff p now'"
  by (simp add: policy_cutoff_def)

lemma number_entries_from:
  "e \<in> set (number_entries i (map (\<lambda>e. e\<lparr>qe_node := node\<rparr>) es)) \<Longrightarrow>
   \<exists>e0\<in>set es. qe_ts e = qe_ts e0 \<and> qe_name e = qe_name e0 \<and> qe_client e = qe_client e0"
  by (induction es arbitrary: i) auto

lemma levelled_ts: "levelled P p e0 e \<Longrightarrow> qe_ts e = qe_ts e0"
proof -
  assume "levelled P p e0 e"
  then have "e = e0\<lparr>qe_name := qe_name e, qe_client := qe_client e\<rparr>" by (simp add: levelled_def)
  then have "qe_ts e = qe_ts (e0\<lparr>qe_name := qe_name e, qe_client := qe_client e\<rparr>)" by (rule arg_cong)
  then show ?thesis by simp
qed

lemma arrived_ok:
  assumes "run_ok p now (m, st)" and "now \<le> now'" and "list_all (\<lambda>e. 0 < qe_ts e) es"
    and p: "p = current_policy policy" "1 \<le> po_level p" "\<not> rare_only p"
  shows "run_ok p now' (m, snd (cluster_log P H fresh ord label policy now' node es st))"
proof -
  obtain db s where st: "st = (db, s)" by (cases st)
  let ?es = "map (\<lambda>e. e\<lparr>qe_content := label e\<rparr>) es"
  obtain kept s' where k: "an_ingest P H fresh (log_day_pairs (so_pairs ord) db) policy now' ?es s = (kept, s')"
    by (metis surj_pair)
  have cl: "snd (cluster_log P H fresh ord label policy now' node es st) = (insert_node_query_log node kept db, s')"
    using k by (simp add: cluster_log_def st Let_def)
  note lv = ingest_levelled [OF k p(1,2)]
  have row: "0 < qe_ts e \<and> (qe_ts e < policy_cutoff p now' \<longrightarrow> reduced p e)" if e: "e \<in> set kept" for e
  proof -
    obtain i where i: "i < length kept" "e = kept ! i" using e by (metis in_set_conv_nth)
    let ?e0 = "?es ! i"
    have len: "length ?es = length kept" using lv by (rule list_all2_lengthD)
    have r: "if qe_ts ?e0 < policy_cutoff p now' \<or> po_hours p = 0 then levelled P p ?e0 e else e = ?e0"
      using list_all2_nthD2 [OF lv, of i] i by simp
    then have "qe_ts e = qe_ts ?e0" using levelled_ts [of P p ?e0 e] by (auto split: if_splits)
    moreover have "0 < qe_ts ?e0" using assms(3) i(1) len by (simp add: list_all_length)
    moreover have "levelled P p ?e0 e \<Longrightarrow> reduced p e" using p(3) by (auto simp: levelled_def reduced_def)
    ultimately show ?thesis using r by (auto split: if_splits)
  qed
  have new: "0 < qe_ts e \<and> (qe_ts e < policy_cutoff p now' \<longrightarrow> reduced p e)"
    if in_new: "e \<in> set (number_entries (sd_seq db) (map (\<lambda>e. e\<lparr>qe_node := node\<rparr>) kept))" for e
  proof -
    obtain e0 where "e0 \<in> set kept" "qe_ts e = qe_ts e0" "qe_name e = qe_name e0" "qe_client e = qe_client e0"
      using number_entries_from [OF in_new] by auto
    with row [of e0] show ?thesis by (simp add: reduced_def)
  qed
  have "sm_level m = 0 \<or> sm_cursor m \<le> policy_cutoff p now'"
    using assms(1) cutoff_mono [OF assms(2), of p] by (auto simp: run_ok_def st)
  then show ?thesis
    using assms(1) new unfolding cl by (auto simp: run_ok_def st insert_node_query_log_def)
qed

lemma scrubbed_rows:
  assumes "scrubbed_to p lo hi xs ys" and "e' \<in> set ys"
  obtains e where "e \<in> set xs" and "qe_ts e' = qe_ts e" and "reduced p e \<Longrightarrow> reduced p e'"
    and "0 \<le> qe_ts e \<Longrightarrow> lo \<le> qe_ts e \<Longrightarrow> qe_ts e < hi \<Longrightarrow> reduced p e'"
proof -
  obtain i where i: "i < length ys" "e' = ys ! i" using assms(2) by (metis in_set_conv_nth)
  have len: "length xs = length ys" using assms(1) unfolding scrubbed_to_def by (rule list_all2_lengthD)
  note r = list_all2_nthD2 [OF assms(1) [unfolded scrubbed_to_def] i(1)]
  show thesis
  proof (rule that)
    show "xs ! i \<in> set xs" using i(1) len by simp
    show "qe_ts e' = qe_ts (xs ! i)" using r core_same i(2) by blast
  qed (use r i(2) in auto)
qed

lemma oldest_log: "e \<in> set (sd_log db) \<Longrightarrow> oldest_log_ts db \<le> qe_ts e"
proof -
  have "foldr min (map qe_ts es) x \<le> x" "e \<in> set es \<Longrightarrow> foldr min (map qe_ts es) x \<le> qe_ts e" for es x
    by (induction es) auto
  then show "e \<in> set (sd_log db) \<Longrightarrow> oldest_log_ts db \<le> qe_ts e"
    by (cases "sd_log db") (auto simp: oldest_log_ts_def)
qed

lemma oldest_positive: "\<forall>e\<in>set (sd_log db). 0 < qe_ts e \<Longrightarrow> sd_log db \<noteq> [] \<Longrightarrow> 0 < oldest_log_ts db"
proof -
  have "\<forall>e\<in>set es. 0 < qe_ts e \<Longrightarrow> 0 < x \<Longrightarrow> 0 < foldr min (map qe_ts es) x" for es and x :: int
    by (induction es) auto
  then show "\<forall>e\<in>set (sd_log db). 0 < qe_ts e \<Longrightarrow> sd_log db \<noteq> [] \<Longrightarrow> 0 < oldest_log_ts db"
    by (cases "sd_log db") (auto simp: oldest_log_ts_def)
qed

text \<open>The part of a scrub after the days: the rollup of the clients, and at level 3 the counted rows.\<close>

lemma rekey_log: "sd_log (fst (rekey_client_rollup v a b pre f st)) = sd_log (fst st)"
  by (simp add: rekey_client_rollup_def Let_def split: prod.split)

lemma scrub_result:
  assumes "scrub P H fresh ord policy now (m, db, s) = (m', db', s')" and "p = current_policy policy" and "1 \<le> po_level p"
    and "(if 0 < oldest_log_ts db then scrub_days P H fresh ord p (scrub_from p m db) (policy_cutoff p now) (db, s) else (db, s)) = (db1, s1)"
  shows "sm_cursor m' = policy_cutoff p now \<and> sm_level m' = po_level p \<and> set (sd_log db') \<subseteq> set (sd_log db1)
    \<and> (po_level p = 3 \<longrightarrow> (\<forall>e\<in>set (sd_log db'). qe_ts e < policy_cutoff p now \<longrightarrow> sd_cursor db' < qe_id e))"
proof -
  have l: "po_level p = 1 \<or> po_level p = 2 \<or> po_level p = 3" using policy_levels [of policy] assms(2,3) by auto
  obtain t kr where s1: "s1 = (t, kr)" by (cases s1)
  have days: "(if 0 < oldest_log_ts (fst (db, s)) then scrub_days P H fresh ord p (scrub_from p m (fst (db, s))) (policy_cutoff p now) (db, s)
      else (db, s)) = (db1, t, kr)"
    using assms(4) by (simp only: s1 fst_conv)
  note sc = assms(1) [unfolded scrub_def Let_def prod.case assms(2) [symmetric] days]
  from l show ?thesis
  proof (elim disjE)
    assume "po_level p = 1"
    then show ?thesis using sc by auto
  next
    assume l2: "po_level p = 2"
    obtain db2 t2 kr2 where rk: "rekey_client_rollup (so_rollup ord) (sql_div (scrub_from p m (fst (db, s))) 3600000)
        (sql_div (policy_cutoff p now) 3600000) pseudonym_prefix (day_pseudonym H fresh) (db1, t, kr) = (db2, t2, kr2)"
      by (metis prod_cases3)
    have "sd_log db2 = sd_log db1" using arg_cong [OF rk, of "\<lambda>x. sd_log (fst x)"] by (simp only: rekey_log fst_conv)
    moreover have "db' = db2" "sm_cursor m' = policy_cutoff p now" "sm_level m' = po_level p" using sc l2 rk by auto
    ultimately show ?thesis using l2 by simp
  next
    assume "po_level p = 3"
    then show ?thesis using sc by (auto simp: delete_client_rollup_def delete_rolled_up_def Let_def)
  qed
qed

lemma scrub_ok:
  assumes ok: "run_ok p now (m, db, s)" and "now \<le> now'" and v: "visits (so_clients ord)"
    and p: "p = current_policy policy" "1 \<le> po_level p" "\<not> rare_only p"
    and s: "scrub P H fresh ord policy now' (m, db, s) = (m', db', s')"
  shows "run_ok p now' (m', db', s') \<and> (\<forall>e\<in>set (sd_log db'). qe_ts e < policy_cutoff p now' \<longrightarrow> reduced p e)
    \<and> (po_level p = 3 \<longrightarrow> (\<forall>e\<in>set (sd_log db'). qe_ts e < policy_cutoff p now' \<longrightarrow> sd_cursor db' < qe_id e))"
proof -
  let ?from = "scrub_from p m db" and ?cut = "policy_cutoff p now'"
  obtain db1 s1 where d: "(if 0 < oldest_log_ts db then scrub_days P H fresh ord p ?from ?cut (db, s) else (db, s)) = (db1, s1)"
    by (metis surj_pair)
  note r = scrub_result [OF s p(1,2) d]
  have pos: "\<forall>e\<in>set (sd_log db). 0 < qe_ts e" using ok by (simp add: run_ok_def)
  have old: "reduced p e" if "e \<in> set (sd_log db)" "qe_ts e < ?from" for e
  proof -
    let ?redo = "sm_level m < po_level p \<or> sm_domains m < domain_strictness p"
    have "qe_ts e < max (if ?redo then 0 else max (sm_cursor m - scrub_overlap) 0) (oldest_log_ts db)"
      using that(2) by (simp only: scrub_from_def Let_def)
    moreover have "oldest_log_ts db \<le> qe_ts e" "0 < qe_ts e" using oldest_log [OF that(1)] pos that(1) by auto
    ultimately have "\<not> ?redo" "qe_ts e < sm_cursor m" by (auto split: if_splits)
    then show ?thesis using ok p(2) that(1) by (auto simp: run_ok_def)
  qed
  have rows: "0 < qe_ts e \<and> (qe_ts e < ?cut \<longrightarrow> reduced p e)" if e: "e \<in> set (sd_log db1)" for e
  proof (cases "0 < oldest_log_ts db")
    case True
    then have "scrub_days P H fresh ord p ?from ?cut (db, s) = (db1, s1)" using d by simp
    from days_scrub [OF this p(3) v] have sc: "scrubbed_to p ?from ?cut (sd_log db) (sd_log db1)" by blast
    from scrubbed_rows [OF sc e] obtain e0 where e0: "e0 \<in> set (sd_log db)" "qe_ts e = qe_ts e0"
      and r: "reduced p e0 \<Longrightarrow> reduced p e"
      and h: "0 \<le> qe_ts e0 \<Longrightarrow> ?from \<le> qe_ts e0 \<Longrightarrow> qe_ts e0 < ?cut \<Longrightarrow> reduced p e" by blast
    have "0 < qe_ts e0" using pos e0(1) by blast
    then show ?thesis using r h old [OF e0(1)] e0(2) by (cases "qe_ts e0 < ?from") auto
  next
    case False
    then have "sd_log db = []" "db1 = db" using oldest_positive [OF pos] d by auto
    then show ?thesis using e by simp
  qed
  then show ?thesis using r by (auto simp: run_ok_def)
qed

lemma private_run_ok:
  assumes "private_run P H policy now ms" and "p = current_policy policy" "1 \<le> po_level p" "\<not> rare_only p"
  shows "run_ok p now ms"
  using assms
proof (induction rule: private_run.induct)
  case (start now s)
  then show ?case by (simp add: run_ok_def empty_stats_def)
next
  case (arrived now m st now' es fresh ord label node)
  then show ?case by (intro arrived_ok)
next
  case (scrubbed now m st now' ord fresh)
  obtain db s where st: "st = (db, s)" by (cases st)
  obtain m' db' s' where r: "scrub P H fresh ord policy now' (m, db, s) = (m', db', s')" by (metis prod_cases3)
  show ?case
    using scrub_ok [OF _ scrubbed.hyps(2,3) scrubbed.prems r] scrubbed.IH [OF scrubbed.prems] by (simp add: st r)
next
  case (counted now m db s batch)
  show ?case
    by (rule run_ok_subset [OF counted.IH [OF counted.prems]]) (simp add: rollup_advance_def rollup_statements_def Let_def)
next
  case (dropped now m db s before)
  show ?case by (rule run_ok_subset [OF dropped.IH [OF dropped.prems]]) (auto simp: prune_query_log_def)
qed


subsection \<open>Concrete runs, and where the code falls short of its comments\<close>

definition no_suffixes :: suffix_lib where
  "no_suffixes = \<lparr>public_suffix = (\<lambda>n. (n, True)), etld_plus_one = (\<lambda>n. None)\<rparr>"

definition toy_hash :: "string \<Rightarrow> string \<Rightarrow> string" where "toy_hash k c = take 1 c @ k"

definition key_of :: "char \<Rightarrow> int \<Rightarrow> string" where "key_of c day = [c]"

definition clinic_query :: "string \<Rightarrow> query_entry" where
  "clinic_query c = some_query\<lparr>qe_name := ''clinic.example.'', qe_client := c, qe_ts := 864000000\<rparr>"

definition empty_keyring :: keyring where
  "empty_keyring = \<lparr>kr_keys = [], kr_loaded = False, kr_saved = []\<rparr>"

definition clinic_seen :: "string \<Rightarrow> domain_tracker \<times> keyring \<Rightarrow> domain_tracker \<times> keyring" where
  "clinic_seen c = dt_observe no_suffixes toy_hash (key_of CHR ''a'') (\<lambda>_. []) 2 (clinic_query c)"

definition clinic_kept :: "domain_tracker \<times> keyring \<Rightarrow> string" where
  "clinic_kept s = fst (dt_keep no_suffixes toy_hash (key_of CHR ''b'') (\<lambda>_. []) 2 ''clinic.example.'' 864000000 s)"

lemma clinic_needs_two:
  "clinic_kept (clinic_seen ''1'' (clinic_seen ''1'' (new_tracker, empty_keyring))) = hidden_name"
  "clinic_kept (clinic_seen ''2'' (clinic_seen ''1'' (new_tracker, empty_keyring))) = ''clinic.example.''"
  by code_simp+

text \<open>
  The scrub forgets the key of a day as soon as its cutoff is in the next one, but keeps that day's
  counts. A late query of that day then gets a second key: the same device counts as two, and a
  name only it asked for is stored in full.
\<close>

lemma late_query_counts_twice:
  "let (t, kr) = clinic_seen ''1'' (new_tracker, empty_keyring);
       late = dt_observe no_suffixes toy_hash (key_of CHR ''b'') (\<lambda>_. []) 2 (clinic_query ''1'')
                (dt_prune (11 - 1) t, kr_prune (11 * day_ms) kr) in
   clinic_kept late = ''clinic.example.''"
  by code_simp

text \<open>An entry without a timestamp stops the scrub of every name in the log.\<close>

lemma zero_timestamp_stops_scrub:
  assumes "e \<in> set (sd_log db)" and "qe_ts e \<le> 0" and "po_level (current_policy policy) = 1"
  shows "fst (snd (scrub P H fresh ord policy now (m, db, s))) = db"
proof -
  have "\<not> 0 < oldest_log_ts db" using oldest_log [OF assms(1)] assms(2) by simp
  then show ?thesis using assms(3) by (simp add: scrub_def Let_def split: prod.split)
qed

theorem kept_names_are_shared_witness:
  "\<exists>day\<in>{10, 9}. (2::int) \<le> int (card {dev. \<exists>n. (day, n, dev) \<in>
     set (([] @ observe_log toy_hash (key_of CHR ''a'') (\<lambda>_. []) 2 (clinic_query ''1'') (new_tracker, empty_keyring))
          @ observe_log toy_hash (key_of CHR ''a'') (\<lambda>_. []) 2 (clinic_query ''2'') (clinic_seen ''1'' (new_tracker, empty_keyring))
          @ keep_log no_suffixes toy_hash (key_of CHR ''b'') (\<lambda>_. []) 2 ''clinic.example.'' 864000000
              (clinic_seen ''2'' (clinic_seen ''1'' (new_tracker, empty_keyring))))
     \<and> canonical n = ''clinic.example.''})"
proof -
  let ?s = "clinic_seen ''2'' (clinic_seen ''1'' (new_tracker, empty_keyring))"
  let ?keep = "dt_keep no_suffixes toy_hash (key_of CHR ''b'') (\<lambda>_. []) 2 ''clinic.example.'' 864000000 ?s"
  note run = observed [OF observed [OF tracked.start [of no_suffixes toy_hash empty_keyring]],
      of "key_of CHR ''a''" "\<lambda>_. []" 2 "clinic_query ''2''" "key_of CHR ''a''" "\<lambda>_. []" 2 "clinic_query ''1''",
      folded clinic_seen_def]
  have keep: "?keep = (''clinic.example.'', snd ?keep)"
    using clinic_needs_two(2) by (simp add: clinic_kept_def prod_eq_iff)
  have "registered no_suffixes n = []" for n by (simp add: registered_def registered_domain_def no_suffixes_def Let_def)
  moreover have "sql_div 864000000 day_ms = 10" "canonical ''clinic.example.'' = ''clinic.example.''"
    "''clinic.example.'' \<noteq> hidden_name" by (simp_all add: sql_div_def hidden_name_def) code_simp
  ultimately show ?thesis
    using kept_names_are_shared [OF run keep] by simp
qed

definition table_order :: scrub_order where
  "table_order = \<lparr>so_clients = (\<lambda>x. x), so_rollup = (\<lambda>x. x), so_pairs = (\<lambda>x. x)\<rparr>"

definition hide_clients :: "privacy_policy option" where
  "hide_clients = Some \<lparr>po_level = 2, po_hours = 1, po_k = 0\<rparr>"

definition one_arrival :: scrub_state where
  "one_arrival = snd (cluster_log no_suffixes toy_hash (key_of CHR ''a'') table_order (\<lambda>_. ''other'') hide_clients 864000000 ''n''
     [clinic_query ''1''] (empty_stats, new_tracker, empty_keyring))"

lemma arrival_in_full: "map (\<lambda>e. (qe_name e, qe_client e)) (sd_log (fst one_arrival)) = [(''clinic.example.'', ''1'')]"
  by (simp add: one_arrival_def cluster_log_def an_ingest_def hide_clients_def current_policy_def normalize_policy_def Let_def
      rare_only_def policy_cutoff_def clinic_query_def some_query_def insert_node_query_log_def empty_stats_def split: prod.split)


end
