(* ===== verification/Credentials.thy ===== *)
theory Credentials
  imports Node_Registry Ip_Addr "HOL-Library.Signed_Division"
begin

section \<open>Passwords, one-time codes and tokens (internal/auth: totp.go, password.go, session.go, apitoken.go)\<close>

text \<open>
  The encodings of the standard library that credentials are kept in, the time-based one-time
  codes, recovery codes, the stored form of passwords and the policy on them. HMAC-SHA1,
  SHA-256 and Argon2id are the fields of \<open>crypto\<close>; a byte is a character, random bytes are
  arguments. Constant-time comparison is equality.
\<close>

record crypto =
  cr_hmac :: "string \<Rightarrow> string \<Rightarrow> string"
  cr_sha :: "string \<Rightarrow> string"
  cr_argon :: "string \<Rightarrow> string \<Rightarrow> nat \<Rightarrow> nat \<Rightarrow> nat \<Rightarrow> nat \<Rightarrow> string"

subsection \<open>Base 32 and base 64 without padding\<close>

text \<open>
  Both encodings read the bytes as one big number per group (5 bytes are 8 digits of 5 bits,
  3 bytes are 4 digits of 6 bits); a last group that is shorter is filled up with zero bits.
  A decoder that meets a digit outside the alphabet fails; line breaks are dropped before.
\<close>

fun from_digits :: "nat \<Rightarrow> nat list \<Rightarrow> nat" where
  "from_digits base [] = 0"
| "from_digits base (d # ds) = d * base ^ length ds + from_digits base ds"

fun to_digits :: "nat \<Rightarrow> nat \<Rightarrow> nat \<Rightarrow> nat list" where
  "to_digits base 0 v = []"
| "to_digits base (Suc n) v = (v div base ^ n) mod base # to_digits base n v"

text \<open>The digits a group of \<open>k\<close> bytes needs, with digits of \<open>w\<close> bits.\<close>

definition digits_for :: "nat \<Rightarrow> nat \<Rightarrow> nat" where
  [model]: "digits_for w k = (8 * k + w - 1) div w"

definition encode_group :: "nat \<Rightarrow> string \<Rightarrow> nat list" where
  [model]: "encode_group w bs =
     (let n = digits_for w (length bs) in
      to_digits (2 ^ w) n (from_digits 256 (map byte bs) * 2 ^ (w * n - 8 * length bs)))"

definition decode_group :: "nat \<Rightarrow> nat list \<Rightarrow> string" where
  [model]: "decode_group w ds =
     (let k = w * length ds div 8 in
      map char_of (to_digits 256 k (from_digits (2 ^ w) ds div 2 ^ (w * length ds - 8 * k))))"


function groups_of :: "nat \<Rightarrow> 'a list \<Rightarrow> 'a list list" where
  "groups_of n xs = (if n = 0 \<or> xs = [] then [] else take n xs # groups_of n (drop n xs))"
  by pat_completeness auto
termination
  by (relation "measure (\<lambda>(n, xs). length xs)") auto

declare groups_of.simps [simp del]

definition encode_digits :: "nat \<Rightarrow> nat \<Rightarrow> string \<Rightarrow> nat list" where
  [model]: "encode_digits w k bs = concat (map (encode_group w) (groups_of k bs))"

definition decode_digits :: "nat \<Rightarrow> nat \<Rightarrow> nat list \<Rightarrow> string" where
  [model]: "decode_digits w d ds = concat (map (decode_group w) (groups_of d ds))"

definition b32_alphabet :: string where
  [model]: "b32_alphabet = ''ABCDEFGHIJKLMNOPQRSTUVWXYZ234567''"

definition b64_std :: string where
  [model]: "b64_std = ''ABCDEFGHIJKLMNOPQRSTUVWXYZabcdefghijklmnopqrstuvwxyz0123456789+/''"

definition b64_url :: string where
  [model]: "b64_url = ''ABCDEFGHIJKLMNOPQRSTUVWXYZabcdefghijklmnopqrstuvwxyz0123456789-_''"

text \<open>The digits of a text, without its line breaks.\<close>

definition text_digits :: "string \<Rightarrow> string \<Rightarrow> nat list option" where
  [model]: "text_digits alphabet s =
     (let t = filter (\<lambda>c. byte c \<noteq> 10 \<and> byte c \<noteq> 13) s in
      if list_all (\<lambda>c. index_byte c alphabet \<noteq> None) t
      then Some (map (\<lambda>c. the (index_byte c alphabet)) t) else None)"

definition b32_encode :: "string \<Rightarrow> string" where
  [model]: "b32_encode bs = map ((!) b32_alphabet) (encode_digits 5 5 bs)"

text \<open>One, three or six digits left over give no byte and no error.\<close>

definition b32_decode :: "string \<Rightarrow> string option" where
  [model]: "b32_decode s =
     map_option
       (\<lambda>ds. if length ds mod 8 \<in> {1, 3, 6}
         then decode_digits 5 8 (take (length ds - length ds mod 8) ds) else decode_digits 5 8 ds)
       (text_digits b32_alphabet s)"

definition b64_encode :: "string \<Rightarrow> string \<Rightarrow> string" where
  [model]: "b64_encode alphabet bs = map ((!) alphabet) (encode_digits 6 3 bs)"

text \<open>One digit left over is an error.\<close>

definition b64_decode :: "string \<Rightarrow> string \<Rightarrow> string option" where
  [model]: "b64_decode alphabet s =
     (case text_digits alphabet s of
        None \<Rightarrow> None
      | Some ds \<Rightarrow> if length ds mod 4 = 1 then None else Some (decode_digits 6 4 ds))"

subsection \<open>Tokens\<close>

definition new_token :: "string \<Rightarrow> string" where
  [model]: "new_token random = b64_encode b64_url random"

definition api_token_prefix :: string where
  [model]: "api_token_prefix = ''mzd_''"

definition new_api_token :: "string \<Rightarrow> string" where
  [model]: "new_api_token random = api_token_prefix @ new_token random"

definition api_token_display_prefix :: "string \<Rightarrow> string" where
  [model]: "api_token_display_prefix token =
     (let n = length api_token_prefix + 4 in if n < length token then take n token else token)"

definition bearer_token :: "string \<Rightarrow> string option" where
  [model]: "bearer_token h =
     (if length h < 7 \<or> \<not> equal_fold (take 7 h) ''bearer '' then None
      else
        let tok = trim_space (drop 7 h) in
        if has_prefix tok api_token_prefix then Some tok else None)"

text \<open>The at-rest form of a session, challenge or API token (\<open>hashSecret\<close>).\<close>

definition hash_secret :: "crypto \<Rightarrow> string \<Rightarrow> string" where
  [model]: "hash_secret C token = cr_sha C token"

subsection \<open>One-time codes\<close>

definition totp_digits :: nat where [model]: "totp_digits = 6"
definition totp_period :: int where [model]: "totp_period = 30"

definition new_totp_secret :: "string \<Rightarrow> string" where
  [model]: "new_totp_secret random = b32_encode random"

text \<open>\<open>%0*d\<close>: decimal, filled up with zeros on the left.\<close>

definition zero_padded :: "nat \<Rightarrow> nat \<Rightarrow> string" where
  [model]: "zero_padded width n =
     (let s = format_nat n in replicate (width - length s) (CHR ''0'') @ s)"

text \<open>
  The code of one time step: the MAC of the step as 8 big-endian bytes, the low half of its last
  byte (\<open>& 0x0f\<close>) says where to read 4 bytes, of which the top bit is cleared (\<open>& 0x7fffffff\<close>).
\<close>

definition totp_at :: "crypto \<Rightarrow> string \<Rightarrow> int \<Rightarrow> string" where
  [model]: "totp_at C key step =
     (let sum = cr_hmac C key (map char_of (to_digits 256 8 (nat (step mod 2 ^ 64))));
          off = byte (last sum) mod 16;
          n = from_digits 256 (map byte (take 4 (drop off sum))) mod 2 ^ 31 in
      zero_padded totp_digits (n mod 1000000))"

definition without_spaces :: "string \<Rightarrow> string" where
  [model]: "without_spaces s = filter (\<lambda>c. c \<noteq> CHR '' '') (trim_space s)"

definition decode_secret :: "string \<Rightarrow> string option" where
  [model]: "decode_secret secret =
     b32_decode (rev (dropWhile (\<lambda>c. c = CHR ''='') (rev (to_upper (without_spaces secret)))))"

definition totp_step :: "time \<Rightarrow> int" where
  [model]: "totp_step now = unix now sdiv totp_period"

text \<open>The steps a code may come from, in the order they are tried: one of drift either way.\<close>

definition verify_totp :: "crypto \<Rightarrow> string \<Rightarrow> string \<Rightarrow> time \<Rightarrow> int option" where
  [model]: "verify_totp C secret code now =
     (let code = without_spaces code in
      if length code \<noteq> totp_digits then None
      else case decode_secret secret of
        None \<Rightarrow> None
      | Some key \<Rightarrow>
          if key = [] then None
          else
            let cur = totp_step now in
            find (\<lambda>s. totp_at C key s = code) [cur - 1, cur, cur + 1])"

definition totp_code :: "crypto \<Rightarrow> string \<Rightarrow> time \<Rightarrow> string option" where
  [model]: "totp_code C secret t = map_option (\<lambda>key. totp_at C key (totp_step t)) (decode_secret secret)"

definition looks_like_totp :: "string \<Rightarrow> bool" where
  [model]: "looks_like_totp code =
     (let c = without_spaces code in length c = totp_digits \<and> list_all is_digit c)"

subsection \<open>Recovery codes\<close>

definition recovery_code_count :: nat where [model]: "recovery_code_count = 10"

definition recovery_alphabet :: string where
  [model]: "recovery_alphabet = ''abcdefghjkmnpqrstuvwxyz23456789''"

definition recovery_code :: "string \<Rightarrow> string" where
  [model]: "recovery_code random =
     (let cs = map (\<lambda>b. recovery_alphabet ! (byte b mod length recovery_alphabet)) random in
      take 5 cs @ (if 5 < length cs then ''-'' else []) @ drop 5 cs)"

definition hash_recovery_code :: "crypto \<Rightarrow> string \<Rightarrow> string" where
  [model]: "hash_recovery_code C code =
     cr_sha C (''mazedns-recovery:'' @
       to_lower (filter (\<lambda>c. c \<noteq> CHR '' '' \<and> c \<noteq> CHR ''-'') (trim_space code)))"

text \<open>The codes to show and the hashes to keep, from one block of ten random bytes per code.\<close>

definition new_recovery_codes :: "crypto \<Rightarrow> string list \<Rightarrow> string list \<times> string list" where
  [model]: "new_recovery_codes C random =
     (let codes = map recovery_code random in (codes, map (hash_recovery_code C) codes))"

subsection \<open>Passwords\<close>

definition argon_prefix :: string where
  [model]: "argon_prefix = ''$argon2id$v=19$m=65536,t=1,p=4$''"

definition hash_password :: "crypto \<Rightarrow> string \<Rightarrow> string \<Rightarrow> string" where
  [model]: "hash_password C password salt =
     argon_prefix @ b64_encode b64_std salt @ ''$''
       @ b64_encode b64_std (cr_argon C password salt 1 65536 4 32)"

definition password_strength_error :: "string \<Rightarrow> string" where
  [model]: "password_strength_error pw =
     (if length pw < 10 then ''password must be at least 10 characters''
      else if \<not> list_ex (\<lambda>c. is_lower c \<or> is_upper c) pw \<or> list_all (\<lambda>c. is_lower c \<or> is_upper c) pw
      then ''password must mix letters with digits or symbols''
      else [])"

text \<open>
  What \<open>Sscanf\<close> reads for \<open>%d\<close> after a literal text: blanks, digits, a value that fits; an
  \<open>int\<close> may have a sign.
\<close>

definition scan_digits :: "nat \<Rightarrow> string \<Rightarrow> (nat \<times> string) option" where
  [model]: "scan_digits limit r =
     (let v = digits_value 0 (takeWhile is_digit r) in
      if takeWhile is_digit r = [] \<or> limit \<le> v then None else Some (v, dropWhile is_digit r))"

definition after_literal :: "string \<Rightarrow> string \<Rightarrow> string option" where
  [model]: "after_literal lit s =
     (if has_prefix s lit then Some (dropWhile (\<lambda>c. c = CHR '' '' \<or> byte c = 9) (drop (length lit) s))
      else None)"

definition scan_uint :: "nat \<Rightarrow> string \<Rightarrow> string \<Rightarrow> (nat \<times> string) option" where
  [model]: "scan_uint bits lit s =
     (case after_literal lit s of None \<Rightarrow> None | Some r \<Rightarrow> scan_digits (2 ^ bits) r)"

definition scans_int :: "string \<Rightarrow> string \<Rightarrow> bool" where
  [model]: "scans_int lit s =
     (case after_literal lit s of
        None \<Rightarrow> False
      | Some [] \<Rightarrow> False
      | Some (c # r) \<Rightarrow>
          (if c = CHR ''-'' then scan_digits (2 ^ 63 + 1) r \<noteq> None
           else if c = CHR ''+'' then scan_digits (2 ^ 63) r \<noteq> None
           else scan_digits (2 ^ 63) (c # r) \<noteq> None))"

definition argon_params :: "string \<Rightarrow> (nat \<times> nat \<times> nat) option" where
  [model]: "argon_params s =
     (case scan_uint 32 ''m='' s of
        None \<Rightarrow> None
      | Some (memory, r) \<Rightarrow>
          (case scan_uint 32 '',t='' r of
             None \<Rightarrow> None
           | Some (cost, r) \<Rightarrow>
               (case scan_uint 8 '',p='' r of
                  None \<Rightarrow> None
                | Some (threads, _) \<Rightarrow> Some (memory, cost, threads))))"

text \<open>\<open>None\<close> is an error: a stored hash that cannot be read.\<close>

definition verify_password :: "crypto \<Rightarrow> string \<Rightarrow> string \<Rightarrow> bool option" where
  [model]: "verify_password C encoded password =
     (let parts = split_byte (CHR ''$'') encoded in
      if length parts \<noteq> 6 \<or> parts ! 1 \<noteq> ''argon2id'' then None
      else if \<not> scans_int ''v='' (parts ! 2) then None
      else case argon_params (parts ! 3) of
        None \<Rightarrow> None
      | Some (memory, cost, threads) \<Rightarrow>
          (case b64_decode b64_std (parts ! 4) of
             None \<Rightarrow> None
           | Some salt \<Rightarrow>
               (case b64_decode b64_std (parts ! 5) of
                  None \<Rightarrow> None
                | Some want \<Rightarrow>
                    Some (cr_argon C password salt cost memory threads (length want mod 2 ^ 32) = want))))"


subsection \<open>Encoding and decoding\<close>

lemma length_to_digits [simp]: "length (to_digits b n v) = n"
  by (induction n) simp_all

lemma to_digits_less: "0 < b \<Longrightarrow> d \<in> set (to_digits b n v) \<Longrightarrow> d < b"
  by (induction n) auto

lemma from_digits_less: "\<forall>d\<in>set ds. d < b \<Longrightarrow> from_digits b ds < b ^ length ds"
proof (induction ds)
  case (Cons d ds)
  then have "d * b ^ length ds + from_digits b ds < Suc d * b ^ length ds" by simp
  also have "\<dots> \<le> b * b ^ length ds" using Cons.prems by (intro mult_right_mono) auto
  finally show ?case by simp
qed simp

lemma from_to_digits: "0 < b \<Longrightarrow> from_digits b (to_digits b n v) = v mod b ^ n"
proof (induction n)
  case (Suc n)
  have "v mod (b ^ n * b) = b ^ n * (v div b ^ n mod b) + v mod b ^ n" by (rule mod_mult2_eq)
  with Suc show ?case by (simp add: mult.commute)
qed simp

lemma to_digits_mod: "to_digits b n (v + c * b ^ n) = to_digits b n v" if "0 < b"
proof (induction n arbitrary: c)
  case (Suc n)
  have "(v + (c * b) * b ^ n) div b ^ n = c * b + v div b ^ n"
    using that by (intro div_mult_self1) simp
  then have "(v + c * b ^ Suc n) div b ^ n = c * b + v div b ^ n" by (simp add: ac_simps)
  moreover have "to_digits b n (v + (c * b) * b ^ n) = to_digits b n v" by (rule Suc)
  ultimately show ?case by (simp add: ac_simps)
qed simp

lemma to_from_digits: "\<forall>d\<in>set ds. d < b \<Longrightarrow> to_digits b (length ds) (from_digits b ds) = ds"
proof (induction ds)
  case (Cons d ds)
  then have b: "0 < b" and d: "d < b" and r: "from_digits b ds < b ^ length ds"
    by (auto simp: from_digits_less)
  have "to_digits b (length ds) (from_digits b ds + d * b ^ length ds) = ds"
    using Cons to_digits_mod [OF b] by simp
  with b d r show ?case by (simp add: add.commute)
qed simp

lemma digits_for_fits: "8 * k \<le> w * digits_for w k" if "0 < w"
proof -
  have "8 * k + w - 1 < w * (digits_for w k + 1)"
    using that dividend_less_times_div [of w "8 * k + w - 1"] by (simp add: digits_for_def)
  with that show ?thesis by (simp add: algebra_simps)
qed

lemma digits_for_tight: "w * digits_for w k < 8 * k + w" if "0 < w"
proof -
  have "w * digits_for w k \<le> 8 * k + w - 1" by (simp add: digits_for_def)
  with that show ?thesis by simp
qed

lemma digits_for_bytes: "w * digits_for w k div 8 = k" if "0 < w" "w \<le> 8"
  using digits_for_fits [of w k] digits_for_tight [of w k] that by (intro div_nat_eqI) simp_all

lemma map_char_of_byte [simp]: "map (\<lambda>c. char_of (byte c)) s = s"
  by (induction s) (simp_all add: byte_def)

lemma decode_encode_group:
  assumes "0 < w" "w \<le> 8"
  shows "decode_group w (encode_group w bs) = bs"
proof -
  define n where "n = digits_for w (length bs)"
  define v where "v = from_digits 256 (map byte bs)"
  define s where "s = w * n - 8 * length bs"
  have "v < 256 ^ length bs" using from_digits_less [of "map byte bs" 256] by (simp add: v_def)
  also have "(256::nat) ^ length bs = 2 ^ (8 * length bs)" by (simp add: power_mult)
  finally have "v * 2 ^ s < 2 ^ (8 * length bs) * 2 ^ s" by simp
  also have "\<dots> = (2 ^ w) ^ n"
    using digits_for_fits [OF assms(1), of "length bs"]
    by (simp add: s_def n_def flip: power_add power_mult)
  finally have fit: "from_digits (2 ^ w) (to_digits (2 ^ w) n (v * 2 ^ s)) = v * 2 ^ s"
    by (simp add: from_to_digits)
  have "to_digits 256 (length bs) v = map byte bs"
    using to_from_digits [of "map byte bs" 256] by (simp add: v_def)
  then show ?thesis
    using fit assms digits_for_bytes [of w "length bs"]
    by (simp add: decode_group_def encode_group_def Let_def v_def [symmetric] s_def [symmetric]
        n_def [symmetric] comp_def)
qed

lemma length_encode_group [simp]: "length (encode_group w bs) = digits_for w (length bs)"
  by (simp add: encode_group_def Let_def)

lemma digits_for_mono: "j \<le> k \<Longrightarrow> digits_for w j \<le> digits_for w k"
  by (auto simp: digits_for_def intro!: div_le_mono)

lemma digits_for_0 [simp]: "digits_for w 0 = 0"
  by (cases w) (simp_all add: digits_for_def)

lemma digits_for_pos: "0 < w \<Longrightarrow> 0 < k \<Longrightarrow> 0 < digits_for w k"
  using digits_for_fits [of w k] by (cases "digits_for w k") auto

lemma groups_of_Nil [simp]: "groups_of n [] = []"
  by (simp add: groups_of.simps)

lemma groups_of_encoded:
  assumes "0 < w" "0 < k" "digits_for w k = d"
  shows "groups_of d (concat (map (encode_group w) (groups_of k bs))) = map (encode_group w) (groups_of k bs)"
  using assms
proof (induction k bs rule: groups_of.induct)
  case (1 k bs)
  have d: "0 < d" using digits_for_pos [OF 1(2,3)] 1(4) by simp
  show ?case
  proof (cases "bs = []")
    case True
    then show ?thesis by simp
  next
    case False
    let ?g = "encode_group w (take k bs)" and ?r = "concat (map (encode_group w) (groups_of k (drop k bs)))"
    have step: "groups_of k bs = take k bs # groups_of k (drop k bs)"
      using False 1 by (simp add: groups_of.simps [of k bs])
    have "0 < length ?g" using False 1(2,3) digits_for_pos [of w "length (take k bs)"] by simp
    then have ne: "?g @ ?r \<noteq> []" by (cases ?g) simp_all
    have "take d (?g @ ?r) = ?g \<and> drop d (?g @ ?r) = ?r"
    proof (cases "k \<le> length bs")
      case True
      then have "length ?g = d" using 1(4) by (simp add: min_def)
      then show ?thesis by simp
    next
      case False
      then have "length ?g \<le> d" and "length bs \<le> k"
        using 1(4) digits_for_mono [of "length bs" k w] by (simp_all add: min_def)
      then show ?thesis by simp
    qed
    moreover have "groups_of d ?r = map (encode_group w) (groups_of k (drop k bs))"
      using 1 False by simp
    ultimately show ?thesis
      using ne d by (simp add: step groups_of.simps [of d "?g @ ?r"])
  qed
qed

lemma concat_groups_of: "0 < n \<Longrightarrow> concat (groups_of n xs) = xs"
proof (induction n xs rule: groups_of.induct)
  case (1 n xs)
  then show ?case by (cases "xs = []") (simp_all add: groups_of.simps [of n xs])
qed

lemma decode_encode_digits:
  assumes "0 < w" "w \<le> 8" "0 < k" "digits_for w k = d"
  shows "decode_digits w d (encode_digits w k bs) = bs"
  using assms groups_of_encoded [OF assms(1,3,4), of bs]
  by (simp add: decode_digits_def encode_digits_def decode_encode_group comp_def concat_groups_of)


subsection \<open>Alphabets\<close>

lemma index_byte_nth: "distinct s \<Longrightarrow> i < length s \<Longrightarrow> index_byte (s ! i) s = Some i"
proof (induction s arbitrary: i)
  case (Cons c s)
  then show ?case by (cases i) auto
qed simp

definition alphabet_ok :: "string \<Rightarrow> nat \<Rightarrow> bool" where
  "alphabet_ok s n \<longleftrightarrow> length s = n \<and> distinct s \<and> list_all (\<lambda>c. byte c \<noteq> 10 \<and> byte c \<noteq> 13 \<and> c \<noteq> CHR ''$'') s"

lemma alphabets_ok:
  "alphabet_ok b32_alphabet 32" "alphabet_ok b64_std 64" "alphabet_ok b64_url 64"
  by (simp_all add: alphabet_ok_def b32_alphabet_def b64_std_def b64_url_def byte_def)

lemma text_digits_nth:
  assumes "alphabet_ok s n" "\<forall>d\<in>set ds. d < n"
  shows "text_digits s (map ((!) s) ds) = Some ds"
proof -
  have 1: "d < length s" "index_byte (s ! d) s = Some d" if "d \<in> set ds" for d
    using assms that by (auto simp: alphabet_ok_def index_byte_nth)
  then have "byte (s ! d) \<noteq> 10 \<and> byte (s ! d) \<noteq> 13" if "d \<in> set ds" for d
    using assms(1) that nth_mem [of d s] by (auto simp: alphabet_ok_def list_all_iff)
  then have "filter (\<lambda>c. byte c \<noteq> 10 \<and> byte c \<noteq> 13) (map ((!) s) ds) = map ((!) s) ds"
    by (intro filter_True) auto
  moreover have "map ((\<lambda>c. the (index_byte c s)) \<circ> (!) s) ds = ds"
    using 1 by (intro map_idI) simp
  ultimately show ?thesis using 1 by (auto simp: text_digits_def Let_def list_all_iff)
qed

lemma encode_digits_less: "0 < w \<Longrightarrow> \<forall>d\<in>set (encode_digits w k bs). d < 2 ^ w"
  by (auto simp: encode_digits_def encode_group_def Let_def dest: to_digits_less [rotated])

lemma encode_digits_Nil [simp]: "encode_digits w k [] = []"
  by (simp add: encode_digits_def)

lemma length_encode_digits:
  assumes "0 < k"
  shows "length (encode_digits w k bs) = length bs div k * digits_for w k + digits_for w (length bs mod k)"
  using assms
proof (induction k bs rule: groups_of.induct)
  case (1 k bs)
  show ?case
  proof (cases "bs = []")
    case False
    have step: "encode_digits w k bs = encode_group w (take k bs) @ encode_digits w k (drop k bs)"
      using False 1(2) by (simp add: encode_digits_def groups_of.simps [of k bs])
    show ?thesis
    proof (cases "k \<le> length bs")
      case True
      then have "length bs div k = Suc ((length bs - k) div k)" "length bs mod k = (length bs - k) mod k"
        using 1(2) le_div_geq le_mod_geq by simp_all
      with True False 1 show ?thesis by (simp add: step min_def)
    next
      case short: False
      then have "length bs < k" by simp
      then show ?thesis by (simp add: step)
    qed
  qed simp
qed

lemma b64_round_trip:
  assumes "alphabet_ok s 64"
  shows "b64_decode s (b64_encode s bs) = Some bs"
proof -
  have t: "text_digits s (b64_encode s bs) = Some (encode_digits 6 3 bs)"
    using text_digits_nth [OF assms] encode_digits_less [of 6 3 bs] by (simp add: b64_encode_def)
  have "length (encode_digits 6 3 bs) mod 4 = digits_for 6 (length bs mod 3) mod 4"
    by (simp add: length_encode_digits digits_for_def)
  moreover have "length bs mod 3 = 0 \<or> length bs mod 3 = 1 \<or> length bs mod 3 = 2" by linarith
  ultimately have "length (encode_digits 6 3 bs) mod 4 \<noteq> 1"
    by (elim disjE) (simp_all add: digits_for_def)
  moreover have "decode_digits 6 4 (encode_digits 6 3 bs) = bs"
    by (rule decode_encode_digits) (simp_all add: digits_for_def)
  ultimately show ?thesis by (simp add: b64_decode_def t)
qed

lemma b32_round_trip: "b32_decode (b32_encode bs) = Some bs"
proof -
  have t: "text_digits b32_alphabet (b32_encode bs) = Some (encode_digits 5 5 bs)"
    using text_digits_nth [OF alphabets_ok(1)] encode_digits_less [of 5 5 bs] by (simp add: b32_encode_def)
  have "length (encode_digits 5 5 bs) mod 8 = digits_for 5 (length bs mod 5) mod 8"
    by (simp add: length_encode_digits digits_for_def)
  moreover have "length bs mod 5 = 0 \<or> length bs mod 5 = 1 \<or> length bs mod 5 = 2
      \<or> length bs mod 5 = 3 \<or> length bs mod 5 = 4" by linarith
  ultimately have "length (encode_digits 5 5 bs) mod 8 \<notin> {1, 3, 6}"
    by (elim disjE) (simp_all add: digits_for_def)
  moreover have "decode_digits 5 8 (encode_digits 5 5 bs) = bs"
    by (rule decode_encode_digits) (simp_all add: digits_for_def)
  ultimately show ?thesis by (simp add: b32_decode_def t)
qed


subsection \<open>An authenticator's codes are accepted\<close>

lemma upper_char_other: "\<not> is_lower c \<Longrightarrow> upper_char c = c"
  by (simp add: upper_char_def)

lemma b32_text: "c \<in> set (b32_encode bs) \<Longrightarrow> \<not> is_space c \<and> \<not> is_lower c \<and> c \<noteq> CHR ''=''"
proof -
  assume "c \<in> set (b32_encode bs)"
  then have "c \<in> set b32_alphabet"
    using encode_digits_less [of 5 5 bs] alphabets_ok(1)
    by (auto simp: b32_encode_def alphabet_ok_def intro!: nth_mem)
  moreover have "list_all (\<lambda>c. \<not> is_space c \<and> \<not> is_lower c \<and> c \<noteq> CHR ''='') b32_alphabet"
    by (simp add: b32_alphabet_def is_space_def is_lower_def byte_def)
  ultimately show ?thesis by (simp add: list_all_iff)
qed

lemma without_spaces_plain: "list_all (\<lambda>c. \<not> is_space c) s \<Longrightarrow> without_spaces s = s"
  by (auto simp: without_spaces_def trim_space_plain list_all_iff is_space_def byte_def intro!: filter_True)

lemma decode_new_secret [simp]: "decode_secret (new_totp_secret random) = Some random"
proof -
  let ?s = "b32_encode random"
  have "without_spaces ?s = ?s" by (rule without_spaces_plain) (simp add: list_all_iff b32_text)
  moreover have "to_upper ?s = ?s" by (simp add: to_upper_def map_idI upper_char_other b32_text)
  moreover have "dropWhile (\<lambda>c. c = CHR ''='') (rev ?s) = rev ?s"
  proof (cases "rev ?s")
    case (Cons c r)
    then have "c \<in> set ?s" by (metis list.set_intros(1) set_rev)
    with Cons show ?thesis using b32_text [of c random] by simp
  qed simp
  ultimately show ?thesis by (simp add: decode_secret_def new_totp_secret_def b32_round_trip)
qed

lemma length_format_nat: "n < 10 ^ Suc k \<Longrightarrow> length (format_nat n) \<le> Suc k"
proof (induction k arbitrary: n)
  case (Suc k)
  then have "n div 10 < 10 ^ Suc k" by (simp add: div_less_iff_less_mult ac_simps)
  then have "length (format_nat (n div 10)) \<le> Suc k" by (rule Suc.IH)
  then show ?case by (subst format_nat.simps) simp
qed (subst format_nat.simps, simp)

lemma totp_at_digits: "length (totp_at C key step) = 6 \<and> list_all is_digit (totp_at C key step)"
proof -
  have z: "length (zero_padded 6 n) = 6 \<and> list_all is_digit (zero_padded 6 n)" if "n < 1000000" for n
    using that length_format_nat [of n 5] format_nat_digits [of n]
    by (auto simp: zero_padded_def Let_def list_all_iff is_digit_def byte_def)
  show ?thesis unfolding totp_at_def Let_def totp_digits_def by (rule z) simp
qed

lemma digit_not_space: "is_digit c \<Longrightarrow> \<not> is_space c"
  by (auto simp: is_digit_def is_space_def)

lemma totp_at_plain [simp]: "without_spaces (totp_at C key step) = totp_at C key step"
  using totp_at_digits [of C key step] by (intro without_spaces_plain) (auto simp: list_all_iff digit_not_space)

lemma totp_at_shape: "looks_like_totp (totp_at C key step)"
  using totp_at_digits [of C key step] by (simp add: looks_like_totp_def totp_digits_def)

lemma verify_totp_step:
  assumes "verify_totp C secret code now = Some s"
  shows "\<bar>s - totp_step now\<bar> \<le> 1"
    and "\<exists>key. decode_secret secret = Some key \<and> totp_at C key s = without_spaces code"
  using assms by (auto simp: verify_totp_def Let_def split: if_splits option.splits)

lemma verify_totp_accepts:
  assumes "decode_secret secret = Some key" "key \<noteq> []" "\<bar>s - totp_step now\<bar> \<le> 1"
  shows "verify_totp C secret (totp_at C key s) now \<noteq> None"
proof -
  have "s \<in> set [totp_step now - 1, totp_step now, totp_step now + 1]" using assms(3) by auto
  then show ?thesis
    using assms(1,2) totp_at_digits [of C key s]
    by (auto simp: verify_totp_def Let_def totp_digits_def find_None_iff)
qed

text \<open>
  C29: An authenticator that was given the secret of the setup (the base-32 text of the random
  bytes) and whose clock is at most one 30-second step off shows a code that the server accepts,
  whatever the MAC is: the text decodes to the bytes it was made from, the code has six digits, and
  the step that is returned, at most one from the server's, has that code.
\<close>

theorem authenticator_codes_accepted:
  assumes "random \<noteq> []" "\<bar>totp_step phone - totp_step now\<bar> \<le> 1"
    and "totp_code C (new_totp_secret random) phone = Some code"
  shows "looks_like_totp code \<and>
    (\<exists>s. verify_totp C (new_totp_secret random) code now = Some s \<and> \<bar>s - totp_step now\<bar> \<le> 1
      \<and> totp_at C random s = code)"
proof -
  have code: "code = totp_at C random (totp_step phone)" using assms(3) by (simp add: totp_code_def)
  then obtain s where s: "verify_totp C (new_totp_secret random) code now = Some s"
    using verify_totp_accepts [OF decode_new_secret assms(1,2), of C] by auto
  then show ?thesis using verify_totp_step [OF s] by (auto simp: code totp_at_shape)
qed

text \<open>The witness uses a MAC that ends in the message's last byte.\<close>

definition demo_crypto :: crypto where
  "demo_crypto = \<lparr>cr_hmac = \<lambda>k m. replicate 12 (CHR 0x07) @ m, cr_sha = \<lambda>s. s,
     cr_argon = \<lambda>pw salt t m p n. take n (pw @ salt @ replicate n (CHR 0x00))\<rparr>"

theorem authenticator_codes_accepted_witness:
  "looks_like_totp (the (totp_code demo_crypto (new_totp_secret ''key'') (59 * second))) \<and>
    (\<exists>s. verify_totp demo_crypto (new_totp_secret ''key'')
        (the (totp_code demo_crypto (new_totp_secret ''key'') (59 * second))) (61 * second) = Some s
      \<and> \<bar>s - totp_step (61 * second)\<bar> \<le> 1
      \<and> totp_at demo_crypto ''key'' s = the (totp_code demo_crypto (new_totp_secret ''key'') (59 * second)))"
  by (rule authenticator_codes_accepted [where phone = "59 * second"])
    (simp_all add: totp_code_def totp_step_def totp_period_def unix_def)


subsection \<open>A password opens its own hash\<close>

lemma b64_text: "CHR ''$'' \<notin> set (b64_encode b64_std bs)"
proof
  assume "CHR ''$'' \<in> set (b64_encode b64_std bs)"
  then have "CHR ''$'' \<in> set b64_std"
    using encode_digits_less [of 6 3 bs] alphabets_ok(2)
    by (auto simp: b64_encode_def alphabet_ok_def intro!: nth_mem)
  then show False by (simp add: b64_std_def)
qed

lemma hash_parts:
  "split_byte (CHR ''$'') (hash_password C password salt) =
     [[], ''argon2id'', ''v=19'', ''m=65536,t=1,p=4'', b64_encode b64_std salt,
      b64_encode b64_std (cr_argon C password salt 1 65536 4 32)]"
proof -
  have "split_byte (CHR ''$'') (b64_encode b64_std salt @ CHR ''$'' # b64_encode b64_std key) =
      [b64_encode b64_std salt, b64_encode b64_std key]" for key
    by (simp add: split_byte_join split_byte_single b64_text)
  then show ?thesis by (simp add: hash_password_def argon_prefix_def)
qed

lemma scans_version: "scans_int ''v='' ''v=19''"
  by (simp add: scans_int_def after_literal_def scan_digits_def Let_def has_prefix_def is_digit_def byte_def)

lemma scans_params: "argon_params ''m=65536,t=1,p=4'' = Some (65536, 1, 4)"
  by (simp add: argon_params_def scan_uint_def after_literal_def scan_digits_def Let_def has_prefix_def
      is_digit_def byte_def)

text \<open>
  A password is accepted against a stored hash exactly when Argon2id derives the same key from
  it as from the password the hash was made for, with the salt that is read back out of the text:
  the text of a hash always parses, its parameters are those it was made with, and checking it
  is never an error. Argon2id is documented to return as many bytes as it is asked for.
\<close>

theorem password_opens_its_hash:
  assumes "\<And>pw s t m p n. length (cr_argon C pw s t m p n) = n"
  shows "verify_password C (hash_password C password salt) attempt =
    Some (cr_argon C attempt salt 1 65536 4 32 = cr_argon C password salt 1 65536 4 32)"
  by (simp add: verify_password_def hash_parts scans_version scans_params b64_round_trip alphabets_ok assms)

lemma password_opens_its_hash_witness:
  "verify_password demo_crypto (hash_password demo_crypto ''correct horse 1'' ''salt'') ''wrong horse 12'' = Some False"
proof -
  have "verify_password demo_crypto (hash_password demo_crypto ''correct horse 1'' ''salt'') ''wrong horse 12'' =
      Some (cr_argon demo_crypto ''wrong horse 12'' ''salt'' 1 65536 4 32
        = cr_argon demo_crypto ''correct horse 1'' ''salt'' 1 65536 4 32)"
    by (rule password_opens_its_hash) (simp add: demo_crypto_def)
  then show ?thesis by (simp add: demo_crypto_def)
qed

end
