(* ===== verification/Accounts.thy ===== *)
theory Accounts
  imports Credentials
begin

section \<open>Accounts in the store (internal/store: users.go, sessions.go, mfa.go, apitokens.go, cpsettings.go)\<close>

text \<open>
  The tables of users, sessions, sign-in challenges and API tokens, the settings of the control
  plane and the audit log. A time \<open>now\<close> is in seconds. A statement that a unique key refuses is the
  error \<open>None\<close> (or \<open>False\<close>) and changes nothing. Lists kept as JSON are lists, \<open>None\<close> for the
  empty column; of an audit entry the time, the user and the action are kept.
\<close>

subsection \<open>Tables\<close>

record user_row =
  us_id :: int
  us_username :: string
  us_role :: string
  us_source :: string
  us_avatar_url :: string
  us_avatar_data :: string
  us_subject :: string
  us_password_hash :: string
  us_updated_at :: int
  us_totp_secret :: string
  us_totp_pending :: string
  us_totp_last_step :: int
  us_recovery :: "string list option"

record session_row =
  sn_token :: string
  sn_user :: int
  sn_username :: string
  sn_role :: string
  sn_expires_at :: int

record challenge_row =
  ch_token :: string
  ch_user :: int
  ch_kind :: string
  ch_attempts :: int
  ch_expires_at :: int

record token_row =
  tk_id :: string
  tk_name :: string
  tk_hash :: string
  tk_prefix :: string
  tk_role :: string
  tk_created_by :: string
  tk_created_by_id :: int
  tk_created_at :: int
  tk_last_used_at :: int
  tk_expires_at :: int

record oidc_settings =
  oi_enabled :: bool
  oi_issuer :: string
  oi_client_id :: string
  oi_client_secret :: string
  oi_redirect_url :: string
  oi_scopes :: "string list"
  oi_groups_claim :: string
  oi_admin_group :: string
  oi_admin_email :: string
  oi_disable_password_login :: bool
  oi_auto_login :: bool
  oi_allow_avatar_upload :: bool

record cp_settings =
  cs_session_ttl_sec :: int
  cs_oidc :: oidc_settings
  cs_require_approval :: bool
  cs_key_max_age_sec :: int
  cs_key_grace_sec :: int
  cs_advertise_addr :: string
  cs_login_rate_attempts :: int
  cs_login_rate_window_sec :: int
  cs_require_mfa :: bool
  cs_scrape_token_hash :: string
  cs_scrape_token_prefix :: string
  cs_query_log :: bool

record accounts_db =
  ac_users :: "user_row list"
  ac_users_seq :: int
  ac_sessions :: "session_row list"
  ac_challenges :: "challenge_row list"
  ac_tokens :: "token_row list"
  ac_audit :: "(int \<times> string \<times> string) list"
  ac_setup_completed :: bool
  ac_settings :: "cp_settings option"
  ac_master_addr :: string

subsection \<open>Users\<close>

definition count_users :: "accounts_db \<Rightarrow> int" where
  [model]: "count_users db = int (length (ac_users db))"

definition list_users :: "accounts_db \<Rightarrow> user_row list" where
  [model]: "list_users db = sort_key us_username (ac_users db)"

definition count_admins :: "accounts_db \<Rightarrow> int" where
  [model]: "count_admins db = int (length (filter (\<lambda>u. us_role u = ''admin'') (ac_users db)))"

definition user_by_id :: "int \<Rightarrow> accounts_db \<Rightarrow> user_row option" where
  [model]: "user_by_id uid db = find (\<lambda>u. us_id u = uid) (ac_users db)"

definition user_by_name :: "string \<Rightarrow> accounts_db \<Rightarrow> user_row option" where
  [model]: "user_by_name name db = find (\<lambda>u. us_username u = name) (ac_users db)"

definition oidc_user_by_subject :: "string \<Rightarrow> accounts_db \<Rightarrow> user_row option" where
  [model]: "oidc_user_by_subject sub db =
     find (\<lambda>u. us_source u = ''oidc'' \<and> us_subject u = sub) (ac_users db)"

definition change_user :: "int \<Rightarrow> (user_row \<Rightarrow> user_row) \<Rightarrow> accounts_db \<Rightarrow> accounts_db" where
  [model]: "change_user uid f db =
     db\<lparr>ac_users := map (\<lambda>u. if us_id u = uid then f u else u) (ac_users db)\<rparr>"

text \<open>
  One insert: the username is unique, and so is the subject of an SSO account unless it is empty.
\<close>

definition insert_user ::
    "int \<Rightarrow> string \<Rightarrow> string \<Rightarrow> string \<Rightarrow> string \<Rightarrow> string \<Rightarrow> string \<Rightarrow> accounts_db \<Rightarrow> int option \<times> accounts_db" where
  [model]: "insert_user now username role src avatar sub pw_hash db =
     (if list_ex (\<lambda>u. us_username u = username
           \<or> src = ''oidc'' \<and> sub \<noteq> [] \<and> us_source u = ''oidc'' \<and> us_subject u = sub) (ac_users db)
      then (None, db)
      else
        let uid = ac_users_seq db + 1 in
        (Some uid, db\<lparr>ac_users_seq := uid,
           ac_users := ac_users db @ [\<lparr>us_id = uid, us_username = username, us_role = role, us_source = src,
             us_avatar_url = avatar, us_avatar_data = [], us_subject = sub, us_password_hash = pw_hash,
             us_updated_at = now, us_totp_secret = [], us_totp_pending = [], us_totp_last_step = 0,
             us_recovery = None\<rparr>]\<rparr>))"

definition create_local_user ::
    "int \<Rightarrow> string \<Rightarrow> string \<Rightarrow> string \<Rightarrow> accounts_db \<Rightarrow> int option \<times> accounts_db" where
  [model]: "create_local_user now username pw_hash role db =
     insert_user now username role ''local'' [] [] pw_hash db"

definition update_user_role :: "int \<Rightarrow> int \<Rightarrow> string \<Rightarrow> accounts_db \<Rightarrow> accounts_db" where
  [model]: "update_user_role now uid role db = change_user uid (\<lambda>u. u\<lparr>us_role := role, us_updated_at := now\<rparr>) db"

definition update_user_password :: "int \<Rightarrow> int \<Rightarrow> string \<Rightarrow> accounts_db \<Rightarrow> accounts_db" where
  [model]: "update_user_password now uid pw_hash db =
     change_user uid (\<lambda>u. u\<lparr>us_password_hash := pw_hash, us_updated_at := now\<rparr>) db"

definition remove_user :: "int \<Rightarrow> accounts_db \<Rightarrow> accounts_db" where
  [model]: "remove_user uid db = db\<lparr>ac_users := filter (\<lambda>u. us_id u \<noteq> uid) (ac_users db)\<rparr>"

definition set_user_avatar :: "int \<Rightarrow> int \<Rightarrow> string \<Rightarrow> accounts_db \<Rightarrow> bool \<times> accounts_db" where
  [model]: "set_user_avatar now uid data db =
     (list_ex (\<lambda>u. us_id u = uid) (ac_users db),
      change_user uid (\<lambda>u. u\<lparr>us_avatar_data := data, us_updated_at := now\<rparr>) db)"

text \<open>The first of \<open>base\<close>, \<open>base-2\<close>, \<open>base-3\<close>, ... that no account has.\<close>

definition free_username :: "string \<Rightarrow> accounts_db \<Rightarrow> string" where
  [model]: "free_username base db =
     (case user_by_name base db of
        None \<Rightarrow> base
      | Some _ \<Rightarrow> free_name (map us_username (ac_users db)) base 2)"

definition upsert_oidc_user ::
    "int \<Rightarrow> string \<Rightarrow> string \<Rightarrow> string \<Rightarrow> string \<Rightarrow> accounts_db \<Rightarrow> user_row option \<times> accounts_db" where
  [model]: "upsert_oidc_user now sub username role avatar db =
     (case oidc_user_by_subject sub db of
        Some existing \<Rightarrow>
          let db' = change_user (us_id existing)
                (\<lambda>u. if us_source u = ''oidc''
                  then u\<lparr>us_role := role, us_avatar_url := avatar, us_updated_at := now\<rparr> else u) db in
          (user_by_id (us_id existing) db', db')
      | None \<Rightarrow>
          let display = free_username username db in
          (case insert_user now display role ''oidc'' avatar sub [] db of
             (None, db) \<Rightarrow> (None, db)
           | (Some _, db) \<Rightarrow> (user_by_name display db, db)))"

subsection \<open>Sessions\<close>

definition create_session ::
    "crypto \<Rightarrow> string \<Rightarrow> int \<Rightarrow> string \<Rightarrow> string \<Rightarrow> int \<Rightarrow> accounts_db \<Rightarrow> bool \<times> accounts_db" where
  [model]: "create_session C token uid username role expires db =
     (let h = hash_secret C token in
      if list_ex (\<lambda>s. sn_token s = h) (ac_sessions db) then (False, db)
      else (True, db\<lparr>ac_sessions := ac_sessions db @ [\<lparr>sn_token = h, sn_user = uid, sn_username = username,
              sn_role = role, sn_expires_at = expires\<rparr>]\<rparr>))"

definition delete_session_hash :: "string \<Rightarrow> accounts_db \<Rightarrow> accounts_db" where
  [model]: "delete_session_hash h db = db\<lparr>ac_sessions := filter (\<lambda>s. sn_token s \<noteq> h) (ac_sessions db)\<rparr>"

definition delete_session :: "crypto \<Rightarrow> string \<Rightarrow> accounts_db \<Rightarrow> accounts_db" where
  [model]: "delete_session C token db = delete_session_hash (hash_secret C token) db"

definition get_session :: "crypto \<Rightarrow> int \<Rightarrow> string \<Rightarrow> accounts_db \<Rightarrow> session_row option \<times> accounts_db" where
  [model]: "get_session C now token db =
     (let h = hash_secret C token in
      case find (\<lambda>s. sn_token s = h) (ac_sessions db) of
        None \<Rightarrow> (None, db)
      | Some s \<Rightarrow> if sn_expires_at s < now then (None, delete_session_hash h db) else (Some s, db))"

definition delete_sessions_for_user :: "int \<Rightarrow> accounts_db \<Rightarrow> accounts_db" where
  [model]: "delete_sessions_for_user uid db = db\<lparr>ac_sessions := filter (\<lambda>s. sn_user s \<noteq> uid) (ac_sessions db)\<rparr>"

definition delete_expired_sessions :: "int \<Rightarrow> accounts_db \<Rightarrow> accounts_db" where
  [model]: "delete_expired_sessions now db =
     db\<lparr>ac_sessions := filter (\<lambda>s. \<not> sn_expires_at s < now) (ac_sessions db)\<rparr>"

subsection \<open>Second factors\<close>

definition mfa_enabled_users :: "accounts_db \<Rightarrow> int list" where
  [model]: "mfa_enabled_users db = map us_id (filter (\<lambda>u. us_totp_secret u \<noteq> []) (ac_users db))"

definition set_totp_pending :: "int \<Rightarrow> int \<Rightarrow> string \<Rightarrow> accounts_db \<Rightarrow> accounts_db" where
  [model]: "set_totp_pending now uid secret db =
     change_user uid (\<lambda>u. u\<lparr>us_totp_pending := secret, us_updated_at := now\<rparr>) db"

text \<open>A guarded update: whether a row of that id met the guard, and the table after it.\<close>

definition change_if :: "int \<Rightarrow> (user_row \<Rightarrow> bool) \<Rightarrow> (user_row \<Rightarrow> user_row) \<Rightarrow> accounts_db \<Rightarrow> bool \<times> accounts_db" where
  [model]: "change_if uid P f db =
     (list_ex (\<lambda>u. us_id u = uid \<and> P u) (ac_users db), change_user uid (\<lambda>u. if P u then f u else u) db)"

definition enable_totp :: "int \<Rightarrow> int \<Rightarrow> string \<Rightarrow> int \<Rightarrow> string list \<Rightarrow> accounts_db \<Rightarrow> bool \<times> accounts_db" where
  [model]: "enable_totp now uid secret step hashes db =
     change_if uid (\<lambda>u. us_totp_pending u = secret \<and> us_totp_pending u \<noteq> [])
       (\<lambda>u. u\<lparr>us_totp_secret := secret, us_totp_pending := [], us_totp_last_step := step,
              us_recovery := Some hashes, us_updated_at := now\<rparr>) db"

definition disable_totp :: "int \<Rightarrow> int \<Rightarrow> accounts_db \<Rightarrow> accounts_db" where
  [model]: "disable_totp now uid db =
     change_user uid (\<lambda>u. u\<lparr>us_totp_secret := [], us_totp_pending := [], us_totp_last_step := 0,
       us_recovery := None, us_updated_at := now\<rparr>) db"

definition use_totp_step :: "int \<Rightarrow> int \<Rightarrow> accounts_db \<Rightarrow> bool \<times> accounts_db" where
  [model]: "use_totp_step uid step db =
     change_if uid (\<lambda>u. us_totp_secret u \<noteq> [] \<and> us_totp_last_step u < step)
       (\<lambda>u. u\<lparr>us_totp_last_step := step\<rparr>) db"

text \<open>
  Reading the list, removing the hash and writing it back if it is still the list that was read; a
  loop that never repeats when nothing else writes in between. With no list, none
  are left.
\<close>

definition use_recovery_code :: "int \<Rightarrow> string \<Rightarrow> accounts_db \<Rightarrow> (bool \<times> int) \<times> accounts_db" where
  [model]: "use_recovery_code uid h db =
     (case find (\<lambda>u. us_id u = uid \<and> us_totp_secret u \<noteq> []) (ac_users db) of
        None \<Rightarrow> ((False, 0), db)
      | Some u \<Rightarrow>
          (case us_recovery u of
             None \<Rightarrow> ((False, 0), db)
           | Some codes \<Rightarrow>
               let kept = filter (\<lambda>c. c \<noteq> h) codes in
               if length kept = length codes then ((False, int (length codes)), db)
               else ((True, int (length kept)),
                     change_user uid (\<lambda>u. u\<lparr>us_recovery := Some kept\<rparr>) db)))"

definition set_recovery_codes :: "int \<Rightarrow> int \<Rightarrow> string list \<Rightarrow> accounts_db \<Rightarrow> accounts_db" where
  [model]: "set_recovery_codes now uid hashes db =
     change_user uid (\<lambda>u. if us_totp_secret u \<noteq> []
       then u\<lparr>us_recovery := Some hashes, us_updated_at := now\<rparr> else u) db"


subsection \<open>Sign-in challenges\<close>

definition delete_mfa_challenge :: "crypto \<Rightarrow> string \<Rightarrow> accounts_db \<Rightarrow> accounts_db" where
  [model]: "delete_mfa_challenge C token db =
     db\<lparr>ac_challenges := filter (\<lambda>c. ch_token c \<noteq> hash_secret C token) (ac_challenges db)\<rparr>"

definition delete_mfa_challenges_for_user :: "int \<Rightarrow> accounts_db \<Rightarrow> accounts_db" where
  [model]: "delete_mfa_challenges_for_user uid db =
     db\<lparr>ac_challenges := filter (\<lambda>c. ch_user c \<noteq> uid) (ac_challenges db)\<rparr>"

definition create_mfa_challenge ::
    "crypto \<Rightarrow> int \<Rightarrow> string \<Rightarrow> int \<Rightarrow> string \<Rightarrow> int \<Rightarrow> accounts_db \<Rightarrow> bool \<times> accounts_db" where
  [model]: "create_mfa_challenge C now token uid kind expires db =
     (let h = hash_secret C token; live = filter (\<lambda>c. \<not> ch_expires_at c < now) (ac_challenges db) in
      if list_ex (\<lambda>c. ch_token c = h) live then (False, db\<lparr>ac_challenges := live\<rparr>)
      else (True, db\<lparr>ac_challenges := live @ [\<lparr>ch_token = h, ch_user = uid, ch_kind = kind,
              ch_attempts = 0, ch_expires_at = expires\<rparr>]\<rparr>))"

definition mfa_challenge_attempt ::
    "crypto \<Rightarrow> int \<Rightarrow> string \<Rightarrow> int \<Rightarrow> accounts_db \<Rightarrow> challenge_row option \<times> accounts_db" where
  [model]: "mfa_challenge_attempt C now token max_attempts db =
     (let h = hash_secret C token;
          fits = (\<lambda>c. ch_token c = h \<and> now \<le> ch_expires_at c \<and> ch_attempts c < max_attempts) in
      if list_ex fits (ac_challenges db)
      then
        let db = db\<lparr>ac_challenges :=
              map (\<lambda>c. if fits c then c\<lparr>ch_attempts := ch_attempts c + 1\<rparr> else c) (ac_challenges db)\<rparr> in
        (find (\<lambda>c. ch_token c = h) (ac_challenges db), db)
      else (None, delete_mfa_challenge C token db))"

definition peek_mfa_challenge :: "crypto \<Rightarrow> int \<Rightarrow> string \<Rightarrow> accounts_db \<Rightarrow> challenge_row option" where
  [model]: "peek_mfa_challenge C now token db =
     find (\<lambda>c. ch_token c = hash_secret C token \<and> now \<le> ch_expires_at c) (ac_challenges db)"

subsection \<open>API tokens\<close>

definition create_api_token_row :: "crypto \<Rightarrow> token_row \<Rightarrow> string \<Rightarrow> accounts_db \<Rightarrow> bool \<times> accounts_db" where
  [model]: "create_api_token_row C t token db =
     (let h = hash_secret C token in
      if token = [] \<or> list_ex (\<lambda>r. tk_id r = tk_id t \<or> tk_hash r = h) (ac_tokens db) then (False, db)
      else (True, db\<lparr>ac_tokens := ac_tokens db @ [t\<lparr>tk_hash := h, tk_last_used_at := 0\<rparr>]\<rparr>))"

text \<open>What a token can do right now, for the listing.\<close>

definition effective_role :: "accounts_db \<Rightarrow> token_row \<Rightarrow> string" where
  [model]: "effective_role db t =
     (case user_by_id (tk_created_by_id t) db of
        None \<Rightarrow> []
      | Some u \<Rightarrow> if us_role u \<noteq> ''admin'' then us_role u else tk_role t)"

definition list_api_tokens :: "accounts_db \<Rightarrow> (token_row \<times> string) list" where
  [model]: "list_api_tokens db =
     map (\<lambda>t. (t, effective_role db t)) (sort_key (\<lambda>t. (- tk_created_at t, tk_id t)) (ac_tokens db))"

definition get_api_token :: "crypto \<Rightarrow> int \<Rightarrow> string \<Rightarrow> accounts_db \<Rightarrow> token_row option" where
  [model]: "get_api_token C now token db =
     (if token = [] then None
      else case find (\<lambda>t. tk_hash t = hash_secret C token) (ac_tokens db) of
        None \<Rightarrow> None
      | Some t \<Rightarrow> if tk_expires_at t \<noteq> 0 \<and> tk_expires_at t \<le> now then None else Some t)"

definition touch_token_row :: "string \<Rightarrow> int \<Rightarrow> accounts_db \<Rightarrow> accounts_db" where
  [model]: "touch_token_row i ts db =
     db\<lparr>ac_tokens := map (\<lambda>t. if tk_id t = i then t\<lparr>tk_last_used_at := ts\<rparr> else t) (ac_tokens db)\<rparr>"

definition delete_token_row :: "string \<Rightarrow> accounts_db \<Rightarrow> string option \<times> accounts_db" where
  [model]: "delete_token_row i db =
     (case find (\<lambda>t. tk_id t = i) (ac_tokens db) of
        None \<Rightarrow> (None, db)
      | Some t \<Rightarrow> (Some (tk_name t), db\<lparr>ac_tokens := filter (\<lambda>t. tk_id t \<noteq> i) (ac_tokens db)\<rparr>))"

definition delete_tokens_for_user :: "int \<Rightarrow> accounts_db \<Rightarrow> int \<times> accounts_db" where
  [model]: "delete_tokens_for_user uid db =
     (int (length (filter (\<lambda>t. tk_created_by_id t = uid) (ac_tokens db))),
      db\<lparr>ac_tokens := filter (\<lambda>t. tk_created_by_id t \<noteq> uid) (ac_tokens db)\<rparr>)"

subsection \<open>Settings, setup and the audit log\<close>

definition load_cp_settings :: "cp_settings \<Rightarrow> accounts_db \<Rightarrow> cp_settings" where
  [model]: "load_cp_settings def db = (case ac_settings db of None \<Rightarrow> def | Some c \<Rightarrow> c)"

definition save_cp_settings :: "cp_settings \<Rightarrow> accounts_db \<Rightarrow> accounts_db" where
  [model]: "save_cp_settings c db = db\<lparr>ac_settings := Some c, ac_master_addr := cs_advertise_addr c\<rparr>"

definition ensure_cp_settings :: "cp_settings \<Rightarrow> accounts_db \<Rightarrow> bool \<times> accounts_db" where
  [model]: "ensure_cp_settings def db =
     (if ac_settings db \<noteq> None then (False, db) else (True, save_cp_settings def db))"

definition no_oidc :: oidc_settings where
  [model]: "no_oidc = \<lparr>oi_enabled = False, oi_issuer = [], oi_client_id = [], oi_client_secret = [],
     oi_redirect_url = [], oi_scopes = [], oi_groups_claim = [], oi_admin_group = [], oi_admin_email = [],
     oi_disable_password_login = False, oi_auto_login = False, oi_allow_avatar_upload = False\<rparr>"

definition cp_zero :: "int \<Rightarrow> cp_settings" where
  [model]: "cp_zero ttl = \<lparr>cs_session_ttl_sec = ttl, cs_oidc = no_oidc, cs_require_approval = False,
     cs_key_max_age_sec = 0, cs_key_grace_sec = 0, cs_advertise_addr = [], cs_login_rate_attempts = 0,
     cs_login_rate_window_sec = 0, cs_require_mfa = False, cs_scrape_token_hash = [],
     cs_scrape_token_prefix = [], cs_query_log = False\<rparr>"

record setup_params =
  sp_username :: string
  sp_password_hash :: string
  sp_oidc :: "oidc_settings option"

text \<open>One transaction; the flag is its guard.\<close>

definition complete_setup :: "int \<Rightarrow> setup_params \<Rightarrow> accounts_db \<Rightarrow> bool \<times> accounts_db" where
  [model]: "complete_setup now p db =
     (if ac_setup_completed db then (False, db)
      else
        let db1 = db\<lparr>ac_setup_completed := True\<rparr>;
            db2 = (if sp_username p \<noteq> [] \<and> ac_users db1 = []
              then snd (insert_user now (sp_username p) ''admin'' ''local'' [] [] (sp_password_hash p) db1)
              else db1);
            db3 = (case sp_oidc p of
                None \<Rightarrow> db2
              | Some o' \<Rightarrow> db2\<lparr>ac_settings := Some ((load_cp_settings (cp_zero (24 * 3600)) db2)\<lparr>cs_oidc := o'\<rparr>)\<rparr>) in
        (True, db3))"

definition create_first_admin :: "int \<Rightarrow> string \<Rightarrow> string \<Rightarrow> accounts_db \<Rightarrow> bool \<times> accounts_db" where
  [model]: "create_first_admin now username pw_hash db =
     complete_setup now \<lparr>sp_username = username, sp_password_hash = pw_hash, sp_oidc = None\<rparr> db"

definition audit :: "int \<Rightarrow> string \<Rightarrow> string \<Rightarrow> accounts_db \<Rightarrow> accounts_db" where
  [model]: "audit now user action db =
     (let entries = ac_audit db @ [(now, user, action)] in
      db\<lparr>ac_audit := drop (length entries - 200) entries\<rparr>)"

end
