(* ===== verification/Sign_In.thy ===== *)
theory Sign_In
  imports Accounts
begin

section \<open>Signing in and managing accounts (internal/auth: manager.go, apitoken.go, oidc.go; internal/api: mfa.go, users.go, tokens.go, setup.go, api.go)\<close>

text \<open>
  The handlers of the control plane that deal with accounts, from the decoded body to the answer and
  the state after it. A handler is one step: two requests that run at the same time are taken in one
  order or the other, which is what the guarded statements of the store are for. Random bytes, the
  outcome of the exchange with the identity provider and of building a provider are arguments. Cookies
  are their value; of a session the server is told the cookie's value.
\<close>

subsection \<open>Limiters\<close>

text \<open>A fixed window: when it opened (\<open>None\<close> is the zero time) and how often it was used.\<close>

record window =
  wi_at :: "time option"
  wi_count :: int

definition window_over :: "duration \<Rightarrow> time \<Rightarrow> window \<Rightarrow> bool" where
  [model]: "window_over len now w = (case wi_at w of None \<Rightarrow> True | Some t \<Rightarrow> now - t > len)"

definition window_allow :: "int \<Rightarrow> duration \<Rightarrow> time \<Rightarrow> window \<Rightarrow> bool \<times> window" where
  [model]: "window_allow limit len now w =
     (let w = (if window_over len now w then \<lparr>wi_at = Some now, wi_count = 0\<rparr> else w);
          w = w\<lparr>wi_count := wi_count w + 1\<rparr> in
      (wi_count w \<le> limit, w))"

type_synonym limiter = "(string \<times> window) list"

definition keyed_allow :: "string \<Rightarrow> int \<Rightarrow> duration \<Rightarrow> time \<Rightarrow> limiter \<Rightarrow> bool \<times> limiter" where
  [model]: "keyed_allow key limit len now k =
     (if limit \<le> 0 then (True, k)
      else
        let k = filter (\<lambda>(_, w). \<not> window_over len now w) k;
            w = (case map_of k key of None \<Rightarrow> \<lparr>wi_at = None, wi_count = 0\<rparr> | Some w \<Rightarrow> w);
            (ok, w) = window_allow limit len now w in
        (ok, AList.update key w k))"

subsection \<open>The server\<close>

record oidc_provider =
  op_groups_claim :: string
  op_admin_group :: string
  op_admin_email :: string
  op_disable_password_login :: bool
  op_auto_login :: bool

record auth_server =
  sv_db :: accounts_db
  sv_touched :: "(string \<times> int) list"
  sv_oidc :: "oidc_provider option"
  sv_ttl :: duration
  sv_login_rate :: limiter
  sv_mfa_rate :: limiter
  sv_setup_rate :: window
  sv_setup_done :: bool
  sv_login_attempts :: int
  sv_login_window :: duration
  sv_require_approval :: bool
  sv_key_max_age :: duration
  sv_key_grace :: duration

record auth_config =
  au_enabled :: bool
  au_crypto :: crypto

datatype principal_kind = Kind_Session | Kind_Token

record session_user =
  su_id :: int
  su_username :: string
  su_role :: string
  su_kind :: principal_kind
  su_token_id :: string

record http_request =
  rq_authorization :: string
  rq_cookie :: "string option"
  rq_forwarded_for :: string
  rq_real_ip :: string
  rq_remote :: string

datatype auth_body =
    No_Body
  | Error_Body
  | User_Body session_user
  | Challenge_Body string string
  | Secret_Body string
  | Codes_Body "string list" "session_user option"
  | Id_Body int
  | Token_Body string

record auth_reply =
  rp_status :: int
  rp_cookie :: "string option"
  rp_body :: auth_body

definition refused :: "int \<Rightarrow> auth_reply" where
  [model]: "refused code = \<lparr>rp_status = code, rp_cookie = None, rp_body = Error_Body\<rparr>"

definition answered :: "int \<Rightarrow> auth_body \<Rightarrow> auth_reply" where
  [model]: "answered code body = \<lparr>rp_status = code, rp_cookie = None, rp_body = body\<rparr>"

definition request_ip :: "http_request \<Rightarrow> string" where
  [model]: "request_ip r =
     (let hop = trim_space (last (split_byte (CHR '','') (rq_forwarded_for r)));
          real = trim_space (rq_real_ip r) in
      if rq_forwarded_for r \<noteq> [] \<and> parse_ip hop \<noteq> None then hop
      else if real \<noteq> [] \<and> parse_ip real \<noteq> None then real
      else case split_host_port (rq_remote r) of Some (host, _) \<Rightarrow> host | None \<Rightarrow> rq_remote r)"

subsection \<open>Sessions and API tokens of the manager\<close>

definition default_ttl :: duration where [model]: "default_ttl = 24 * 60 * minute"

definition set_session_ttl :: "duration \<Rightarrow> auth_server \<Rightarrow> auth_server" where
  [model]: "set_session_ttl ttl s = s\<lparr>sv_ttl := (if ttl \<le> 0 then default_ttl else ttl)\<rparr>"

definition set_oidc :: "oidc_provider option \<Rightarrow> auth_server \<Rightarrow> auth_server" where
  [model]: "set_oidc p s = s\<lparr>sv_oidc := p\<rparr>"

definition on_db :: "(accounts_db \<Rightarrow> accounts_db) \<Rightarrow> auth_server \<Rightarrow> auth_server" where
  [model]: "on_db f s = s\<lparr>sv_db := f (sv_db s)\<rparr>"

text \<open>The account of a right password; checking a hash that cannot be read is a wrong password.\<close>

definition check_password :: "auth_config \<Rightarrow> string \<Rightarrow> string \<Rightarrow> accounts_db \<Rightarrow> user_row option" where
  [model]: "check_password A username password db =
     (case user_by_name username db of
        None \<Rightarrow> None
      | Some u \<Rightarrow>
          if us_password_hash u = [] then None
          else if verify_password (au_crypto A) (us_password_hash u) password = Some True then Some u
          else None)"

definition start_session ::
    "auth_config \<Rightarrow> time \<Rightarrow> string \<Rightarrow> int \<Rightarrow> string \<Rightarrow> string \<Rightarrow> auth_server
     \<Rightarrow> (string \<times> session_user) option \<times> auth_server" where
  [model]: "start_session A now random uid username role s =
     (let token = new_token random; expires = unix (now + sv_ttl s) in
      case create_session (au_crypto A) token uid username role expires (sv_db s) of
        (False, _) \<Rightarrow> (None, s)
      | (True, db) \<Rightarrow>
          (Some (token, \<lparr>su_id = uid, su_username = username, su_role = role, su_kind = Kind_Session,
             su_token_id = []\<rparr>), s\<lparr>sv_db := db\<rparr>))"

definition touch_every :: int where [model]: "touch_every = 60"

definition touch_api_token :: "time \<Rightarrow> token_row \<Rightarrow> auth_server \<Rightarrow> auth_server" where
  [model]: "touch_api_token now t s =
     (let last = (case map_of (sv_touched s) (tk_id t) of
            Some v \<Rightarrow> (if v > tk_last_used_at t then v else tk_last_used_at t)
          | None \<Rightarrow> tk_last_used_at t) in
      if unix now - last < touch_every then s
      else s\<lparr>sv_touched := AList.update (tk_id t) (unix now) (sv_touched s),
             sv_db := touch_token_row (tk_id t) (unix now) (sv_db s)\<rparr>)"

definition user_from_api_token :: "auth_config \<Rightarrow> time \<Rightarrow> string \<Rightarrow> auth_server \<Rightarrow> session_user option \<times> auth_server" where
  [model]: "user_from_api_token A now token s =
     (case get_api_token (au_crypto A) (unix now) token (sv_db s) of
        None \<Rightarrow> (None, s)
      | Some t \<Rightarrow>
          (case user_by_id (tk_created_by_id t) (sv_db s) of
             None \<Rightarrow> (None, s)
           | Some creator \<Rightarrow>
               let role = (if us_role creator \<noteq> ''admin'' then us_role creator else tk_role t) in
               (Some \<lparr>su_id = 0, su_username = ''token:'' @ tk_name t, su_role = role, su_kind = Kind_Token,
                  su_token_id = tk_id t\<rparr>, touch_api_token now t s)))"

definition user_from_request :: "auth_config \<Rightarrow> time \<Rightarrow> http_request \<Rightarrow> auth_server \<Rightarrow> session_user option \<times> auth_server" where
  [model]: "user_from_request A now r s =
     (case bearer_token (rq_authorization r) of
        Some tok \<Rightarrow> user_from_api_token A now tok s
      | None \<Rightarrow>
          (case rq_cookie r of
             None \<Rightarrow> (None, s)
           | Some ck \<Rightarrow>
               (case get_session (au_crypto A) (unix now) ck (sv_db s) of
                  (None, db) \<Rightarrow> (None, s\<lparr>sv_db := db\<rparr>)
                | (Some sn, db) \<Rightarrow>
                    (Some \<lparr>su_id = sn_user sn, su_username = sn_username sn, su_role = sn_role sn,
                       su_kind = Kind_Session, su_token_id = []\<rparr>, s\<lparr>sv_db := db\<rparr>))))"

definition logout :: "auth_config \<Rightarrow> http_request \<Rightarrow> auth_server \<Rightarrow> auth_reply \<times> auth_server" where
  [model]: "logout A r s =
     (answered 204 No_Body,
      if au_enabled A
      then (case rq_cookie r of None \<Rightarrow> s | Some ck \<Rightarrow> on_db (delete_session (au_crypto A) ck) s) else s)"

subsection \<open>Who may call a handler\<close>

definition guard ::
    "auth_config \<Rightarrow> time \<Rightarrow> string \<Rightarrow> bool \<Rightarrow> http_request
     \<Rightarrow> (session_user option \<Rightarrow> auth_server \<Rightarrow> auth_reply \<times> auth_server) \<Rightarrow> auth_server \<Rightarrow> auth_reply \<times> auth_server" where
  [model]: "guard A now min_role tokens_allowed r h s =
     (if \<not> au_enabled A then h None s
      else case user_from_request A now r s of
        (None, s) \<Rightarrow> (refused 401, s)
      | (Some u, s) \<Rightarrow>
          if \<not> tokens_allowed \<and> su_kind u = Kind_Token then (refused 403, s)
          else if min_role = ''admin'' \<and> su_role u \<noteq> ''admin'' then (refused 403, s)
          else h (Some u) s)"

definition require_role where
  [model]: "require_role A now min_role r h s = guard A now min_role True r h s"

definition require_session where
  [model]: "require_session A now min_role r h s = guard A now min_role False r h s"

text \<open>The acting user of an audit entry.\<close>

definition audit_user :: "session_user option \<Rightarrow> string" where
  [model]: "audit_user p = (case p of None \<Rightarrow> ''system'' | Some u \<Rightarrow> su_username u)"


subsection \<open>Password sign-in\<close>

definition mfa_ttl :: duration where [model]: "mfa_ttl = 5 * minute"
definition mfa_max_attempts :: int where [model]: "mfa_max_attempts = 5"
definition mfa_code_limit :: int where [model]: "mfa_code_limit = 10"
definition mfa_code_window :: duration where [model]: "mfa_code_window = 5 * minute"
definition default_login_attempts :: int where [model]: "default_login_attempts = 10"
definition default_login_window :: duration where [model]: "default_login_window = minute"

definition cp_defaults :: cp_settings where
  [model]: "cp_defaults = (cp_zero (24 * 3600))\<lparr>cs_login_rate_attempts := default_login_attempts,
     cs_login_rate_window_sec := default_login_window div second\<rparr>"

definition require_mfa :: "auth_server \<Rightarrow> bool" where
  [model]: "require_mfa s = cs_require_mfa (load_cp_settings cp_defaults (sv_db s))"

definition mfa_enabled :: "int \<Rightarrow> accounts_db \<Rightarrow> bool" where
  [model]: "mfa_enabled uid db =
     (case user_by_id uid db of None \<Rightarrow> False | Some u \<Rightarrow> us_totp_secret u \<noteq> [])"

text \<open>The challenge due instead of a session, \<open>None\<close> when the password is enough.\<close>

definition login_needs_mfa ::
    "auth_config \<Rightarrow> time \<Rightarrow> string \<Rightarrow> user_row \<Rightarrow> auth_server \<Rightarrow> auth_reply option \<times> auth_server" where
  [model]: "login_needs_mfa A now random u s =
     (let kind = (if mfa_enabled (us_id u) (sv_db s) then ''verify''
            else if require_mfa s then ''setup'' else []) in
      if kind = [] then (None, s)
      else
        let token = new_token random;
            (ok, db) = create_mfa_challenge (au_crypto A) (unix now) token (us_id u) kind
              (unix (now + mfa_ttl)) (sv_db s) in
        (Some (if ok then answered 200 (Challenge_Body kind token) else refused 500), s\<lparr>sv_db := db\<rparr>))"

definition sign_in :: "auth_config \<Rightarrow> time \<Rightarrow> string \<Rightarrow> user_row \<Rightarrow> auth_server \<Rightarrow> auth_reply \<times> auth_server" where
  [model]: "sign_in A now random u s =
     (case start_session A now random (us_id u) (us_username u) (us_role u) s of
        (None, s) \<Rightarrow> (refused 500, s)
      | (Some (token, p), s) \<Rightarrow>
          (\<lparr>rp_status = 200, rp_cookie = Some token, rp_body = User_Body p\<rparr>, s))"

text \<open>Both limits of a sign-in attempt: the second is only counted when the first lets it through.\<close>

definition login_allowed :: "time \<Rightarrow> http_request \<Rightarrow> string \<Rightarrow> auth_server \<Rightarrow> bool \<times> auth_server" where
  [model]: "login_allowed now r username s =
     (let attempts = sv_login_attempts s; len = sv_login_window s in
      if attempts \<le> 0 then (True, s)
      else case keyed_allow (''ip:'' @ request_ip r) attempts len now (sv_login_rate s) of
        (False, k) \<Rightarrow> (False, s\<lparr>sv_login_rate := k\<rparr>)
      | (True, k) \<Rightarrow>
          (case keyed_allow (''user:'' @ to_lower (trim_space username)) attempts len now k of
             (ok, k) \<Rightarrow> (ok, s\<lparr>sv_login_rate := k\<rparr>)))"

definition password_login_disabled :: "auth_server \<Rightarrow> bool" where
  [model]: "password_login_disabled s = (case sv_oidc s of None \<Rightarrow> False | Some p \<Rightarrow> op_disable_password_login p)"

definition login ::
    "auth_config \<Rightarrow> time \<Rightarrow> string \<Rightarrow> string \<Rightarrow> http_request \<Rightarrow> (string \<times> string) option
     \<Rightarrow> auth_server \<Rightarrow> auth_reply \<times> auth_server" where
  [model]: "login A now random random' r body s =
     (if \<not> au_enabled A then (answered 200 No_Body, s)
      else if password_login_disabled s then (refused 403, s)
      else case body of
        None \<Rightarrow> (refused 400, s)
      | Some (username, password) \<Rightarrow>
          (case login_allowed now r username s of
             (False, s) \<Rightarrow> (refused 429, s)
           | (True, s) \<Rightarrow>
               (case check_password A username password (sv_db s) of
                  None \<Rightarrow> (refused 401, s)
                | Some u \<Rightarrow>
                    (case login_needs_mfa A now random u s of
                       (Some reply, s) \<Rightarrow> (reply, s)
                     | (None, s) \<Rightarrow> sign_in A now random' u s))))"

subsection \<open>The second factor\<close>

text \<open>Whether the code was good, and for a recovery code how many remain (\<open>-1\<close> otherwise).\<close>

definition check_code ::
    "auth_config \<Rightarrow> time \<Rightarrow> int \<Rightarrow> string \<Rightarrow> bool \<Rightarrow> accounts_db \<Rightarrow> (bool \<times> int) \<times> accounts_db" where
  [model]: "check_code A now uid code allow_recovery db =
     (case user_by_id uid db of
        None \<Rightarrow> ((False, - 1), db)
      | Some u \<Rightarrow>
          if us_totp_secret u = [] then ((False, - 1), db)
          else if looks_like_totp code
          then (case verify_totp (au_crypto A) (us_totp_secret u) code now of
                  None \<Rightarrow> ((False, - 1), db)
                | Some step \<Rightarrow> (case use_totp_step uid step db of (used, db) \<Rightarrow> ((used, - 1), db)))
          else if \<not> allow_recovery then ((False, - 1), db)
          else use_recovery_code uid (hash_recovery_code (au_crypto A) code) db)"

text \<open>The account of a challenge, after one attempt was counted on it.\<close>

definition challenge_user ::
    "auth_config \<Rightarrow> time \<Rightarrow> string \<Rightarrow> string \<Rightarrow> auth_server \<Rightarrow> (user_row \<times> challenge_row) option \<times> auth_server" where
  [model]: "challenge_user A now token kind s =
     (case mfa_challenge_attempt (au_crypto A) (unix now) token mfa_max_attempts (sv_db s) of
        (None, db) \<Rightarrow> (None, s\<lparr>sv_db := db\<rparr>)
      | (Some c, db) \<Rightarrow>
          if ch_kind c \<noteq> kind then (None, s\<lparr>sv_db := db\<rparr>)
          else case user_by_id (ch_user c) db of
            None \<Rightarrow> (None, s\<lparr>sv_db := delete_mfa_challenge (au_crypto A) token db\<rparr>)
          | Some u \<Rightarrow>
              if us_source u \<noteq> ''local''
              then (None, s\<lparr>sv_db := delete_mfa_challenge (au_crypto A) token db\<rparr>)
              else (Some (u, c), s\<lparr>sv_db := db\<rparr>))"

definition allow_code_guess :: "time \<Rightarrow> int \<Rightarrow> auth_server \<Rightarrow> bool \<times> auth_server" where
  [model]: "allow_code_guess now uid s =
     (case keyed_allow (format_int uid) mfa_code_limit mfa_code_window now (sv_mfa_rate s) of
        (ok, k) \<Rightarrow> (ok, s\<lparr>sv_mfa_rate := k\<rparr>))"

text \<open>The same for the signed-in user; nobody signed in is left to the next check.\<close>

definition allow_code_check :: "auth_config \<Rightarrow> time \<Rightarrow> http_request \<Rightarrow> auth_server \<Rightarrow> bool \<times> auth_server" where
  [model]: "allow_code_check A now r s =
     (case user_from_request A now r s of
        (None, s) \<Rightarrow> (True, s)
      | (Some p, s) \<Rightarrow> allow_code_guess now (su_id p) s)"

definition mfa_verify ::
    "auth_config \<Rightarrow> time \<Rightarrow> string \<Rightarrow> string \<Rightarrow> string \<Rightarrow> auth_server \<Rightarrow> auth_reply \<times> auth_server" where
  [model]: "mfa_verify A now random challenge code s =
     (case challenge_user A now challenge ''verify'' s of
        (None, s) \<Rightarrow> (refused 401, s)
      | (Some (u, c), s) \<Rightarrow>
          (case allow_code_guess now (us_id u) s of
             (False, s) \<Rightarrow> (refused 429, s)
           | (True, s) \<Rightarrow>
               (case check_code A now (us_id u) code True (sv_db s) of
                  ((False, _), db) \<Rightarrow> (refused 401, s\<lparr>sv_db := db\<rparr>)
                | ((True, left), db) \<Rightarrow>
                    let db = delete_mfa_challenge (au_crypto A) challenge db;
                        db = (if left \<ge> 0 then audit (unix now) (us_username u) ''auth.mfa.recovery_code'' db else db) in
                    sign_in A now random u (s\<lparr>sv_db := db\<rparr>))))"

text \<open>
  The account a setup step is for: the one of a challenge, or the signed-in local user. \<open>Inl\<close> is the
  status of the refusal.
\<close>

definition mfa_account ::
    "auth_config \<Rightarrow> time \<Rightarrow> http_request \<Rightarrow> string \<Rightarrow> bool \<Rightarrow> auth_server
     \<Rightarrow> (int + user_row \<times> challenge_row option) \<times> auth_server" where
  [model]: "mfa_account A now r challenge spend s =
     (if challenge \<noteq> []
      then if spend
        then (case challenge_user A now challenge ''setup'' s of
                (None, s) \<Rightarrow> (Inl 401, s)
              | (Some (u, c), s) \<Rightarrow> (Inr (u, Some c), s))
        else (case peek_mfa_challenge (au_crypto A) (unix now) challenge (sv_db s) of
                None \<Rightarrow> (Inl 401, s)
              | Some c \<Rightarrow>
                  if ch_kind c \<noteq> ''setup'' then (Inl 401, s)
                  else case user_by_id (ch_user c) (sv_db s) of
                    None \<Rightarrow> (Inl 401, s)
                  | Some u \<Rightarrow> if us_source u \<noteq> ''local'' then (Inl 401, s) else (Inr (u, Some c), s))
      else if \<not> au_enabled A then (Inl 404, s)
      else case user_from_request A now r s of
        (None, s) \<Rightarrow> (Inl 401, s)
      | (Some p, s) \<Rightarrow>
          if su_kind p = Kind_Token then (Inl 401, s)
          else case user_by_id (su_id p) (sv_db s) of
            None \<Rightarrow> (Inl 401, s)
          | Some u \<Rightarrow> if us_source u \<noteq> ''local'' then (Inl 400, s) else (Inr (u, None), s))"

definition mfa_setup ::
    "auth_config \<Rightarrow> time \<Rightarrow> string \<Rightarrow> http_request \<Rightarrow> string \<Rightarrow> auth_server \<Rightarrow> auth_reply \<times> auth_server" where
  [model]: "mfa_setup A now random r challenge s =
     (case mfa_account A now r challenge False s of
        (Inl code, s) \<Rightarrow> (refused code, s)
      | (Inr (u, _), s) \<Rightarrow>
          if mfa_enabled (us_id u) (sv_db s) then (refused 409, s)
          else
            let secret = new_totp_secret random in
            (answered 200 (Secret_Body secret), on_db (set_totp_pending (unix now) (us_id u) secret) s))"

text \<open>Confirming the secret being set up, once the account is known and the guess is counted.\<close>

definition mfa_confirm ::
    "auth_config \<Rightarrow> time \<Rightarrow> string list \<Rightarrow> string \<Rightarrow> string \<Rightarrow> string \<Rightarrow> user_row \<Rightarrow> challenge_row option
     \<Rightarrow> auth_server \<Rightarrow> auth_reply \<times> auth_server" where
  [model]: "mfa_confirm A now randoms random challenge code u c s =
     (case user_by_id (us_id u) (sv_db s) of
        None \<Rightarrow> (refused 500, s)
      | Some m \<Rightarrow>
          if us_totp_pending m = [] then (refused 409, s)
          else case verify_totp (au_crypto A) (us_totp_pending m) code now of
            None \<Rightarrow> (refused 401, s)
          | Some step \<Rightarrow>
              let (codes, hashes) = new_recovery_codes (au_crypto A) randoms in
              (case enable_totp (unix now) (us_id u) (us_totp_pending m) step hashes (sv_db s) of
                 (False, db) \<Rightarrow> (refused 409, s\<lparr>sv_db := db\<rparr>)
               | (True, db) \<Rightarrow>
                   let s = s\<lparr>sv_db := audit (unix now) (us_username u) ''auth.mfa.enabled'' db\<rparr> in
                   if c = None then (answered 200 (Codes_Body codes None), s)
                   else
                     let s = on_db (delete_mfa_challenge (au_crypto A) challenge) s in
                     (case start_session A now random (us_id u) (us_username u) (us_role u) s of
                        (None, s) \<Rightarrow> (refused 500, s)
                      | (Some (token, p), s) \<Rightarrow>
                          (\<lparr>rp_status = 200, rp_cookie = Some token, rp_body = Codes_Body codes (Some p)\<rparr>, s))))"

definition mfa_enable ::
    "auth_config \<Rightarrow> time \<Rightarrow> string list \<Rightarrow> string \<Rightarrow> http_request \<Rightarrow> string \<Rightarrow> string \<Rightarrow> auth_server
     \<Rightarrow> auth_reply \<times> auth_server" where
  [model]: "mfa_enable A now randoms random r challenge code s =
     (let (checked, s) = (if challenge = [] then allow_code_check A now r s else (True, s)) in
      if \<not> checked then (refused 429, s)
      else case mfa_account A now r challenge True s of
        (Inl status, s) \<Rightarrow> (refused status, s)
      | (Inr (u, c), s) \<Rightarrow>
          let (guess, s) = (if c \<noteq> None then allow_code_guess now (us_id u) s else (True, s)) in
          if \<not> guess then (refused 429, s)
          else mfa_confirm A now randoms random challenge code u c s)"

text \<open>The signed-in user's own second factor; \<open>p\<close> is the principal the guard found.\<close>

definition mfa_disable ::
    "auth_config \<Rightarrow> time \<Rightarrow> http_request \<Rightarrow> string \<Rightarrow> string \<Rightarrow> auth_server \<Rightarrow> auth_reply \<times> auth_server" where
  [model]: "mfa_disable A now r password code s =
     (case allow_code_check A now r s of
        (False, s) \<Rightarrow> (refused 429, s)
      | (True, s) \<Rightarrow>
          (case mfa_account A now r [] False s of
             (Inl status, s) \<Rightarrow> (refused status, s)
           | (Inr (u, _), s) \<Rightarrow>
               if require_mfa s then (refused 403, s)
               else if verify_password (au_crypto A) (us_password_hash u) password \<noteq> Some True then (refused 401, s)
               else case check_code A now (us_id u) code True (sv_db s) of
                 ((False, _), db) \<Rightarrow> (refused 401, s\<lparr>sv_db := db\<rparr>)
               | ((True, _), db) \<Rightarrow>
                   (answered 204 No_Body,
                    s\<lparr>sv_db := audit (unix now) (us_username u) ''auth.mfa.disabled''
                        (disable_totp (unix now) (us_id u) db)\<rparr>)))"

definition mfa_regenerate_codes ::
    "auth_config \<Rightarrow> time \<Rightarrow> string list \<Rightarrow> http_request \<Rightarrow> string \<Rightarrow> auth_server \<Rightarrow> auth_reply \<times> auth_server" where
  [model]: "mfa_regenerate_codes A now randoms r code s =
     (case allow_code_check A now r s of
        (False, s) \<Rightarrow> (refused 429, s)
      | (True, s) \<Rightarrow>
          (case mfa_account A now r [] False s of
             (Inl status, s) \<Rightarrow> (refused status, s)
           | (Inr (u, _), s) \<Rightarrow>
               (case check_code A now (us_id u) code False (sv_db s) of
                  ((False, _), db) \<Rightarrow> (refused 401, s\<lparr>sv_db := db\<rparr>)
                | ((True, _), db) \<Rightarrow>
                    let (codes, hashes) = new_recovery_codes (au_crypto A) randoms in
                    (answered 200 (Codes_Body codes None),
                     s\<lparr>sv_db := audit (unix now) (us_username u) ''auth.mfa.recovery_codes''
                         (set_recovery_codes (unix now) (us_id u) hashes db)\<rparr>))))"

definition is_self :: "session_user option \<Rightarrow> int \<Rightarrow> bool" where
  [model]: "is_self p uid = (case p of None \<Rightarrow> False | Some u \<Rightarrow> su_id u = uid)"

text \<open>An id in the path that is not a number is \<open>None\<close>.\<close>

definition reset_user_mfa ::
    "time \<Rightarrow> int option \<Rightarrow> session_user option \<Rightarrow> auth_server \<Rightarrow> auth_reply \<times> auth_server" where
  [model]: "reset_user_mfa now i p s =
     (case i of None \<Rightarrow> (refused 400, s)
      | Some uid \<Rightarrow>
          if is_self p uid then (refused 400, s)
          else case user_by_id uid (sv_db s) of
            None \<Rightarrow> (refused 404, s)
          | Some target \<Rightarrow>
              if us_source target \<noteq> ''local'' then (refused 400, s)
              else (answered 204 No_Body, on_db (\<lambda>db.
                audit (unix now) (audit_user p) ''user.mfa_reset''
                  (delete_sessions_for_user uid
                    (delete_mfa_challenges_for_user uid (disable_totp (unix now) uid db)))) s))"

subsection \<open>Managing users\<close>

definition last_admin :: "accounts_db \<Rightarrow> bool" where
  [model]: "last_admin db \<longleftrightarrow> count_admins db \<le> 1"

definition create_user ::
    "auth_config \<Rightarrow> time \<Rightarrow> string \<Rightarrow> string \<Rightarrow> string \<Rightarrow> string \<Rightarrow> auth_server \<Rightarrow> auth_reply \<times> auth_server" where
  [model]: "create_user A now salt username password role s =
     (let username = trim_space username in
      if username = [] then (refused 400, s)
      else if password_strength_error password \<noteq> [] then (refused 400, s)
      else
        let role = (if role \<noteq> ''admin'' \<and> role \<noteq> ''readonly'' then ''readonly'' else role) in
        if user_by_name username (sv_db s) \<noteq> None then (refused 409, s)
        else case create_local_user (unix now) username (hash_password (au_crypto A) password salt) role (sv_db s) of
          (None, db) \<Rightarrow> (refused 409, s\<lparr>sv_db := db\<rparr>)
        | (Some uid, db) \<Rightarrow> (answered 201 (Id_Body uid), s\<lparr>sv_db := db\<rparr>))"

definition set_user_role :: "time \<Rightarrow> int option \<Rightarrow> string \<Rightarrow> auth_server \<Rightarrow> auth_reply \<times> auth_server" where
  [model]: "set_user_role now i role s =
     (case i of None \<Rightarrow> (refused 400, s)
      | Some uid \<Rightarrow>
          if role \<noteq> ''admin'' \<and> role \<noteq> ''readonly'' then (refused 400, s)
          else case user_by_id uid (sv_db s) of
            None \<Rightarrow> (refused 404, s)
          | Some target \<Rightarrow>
              if us_role target = ''admin'' \<and> role \<noteq> ''admin'' \<and> last_admin (sv_db s) then (refused 400, s)
              else (answered 200 (Id_Body uid),
                on_db (\<lambda>db. delete_sessions_for_user uid (update_user_role (unix now) uid role db)) s))"

definition reset_user_password ::
    "auth_config \<Rightarrow> time \<Rightarrow> string \<Rightarrow> int option \<Rightarrow> string \<Rightarrow> auth_server \<Rightarrow> auth_reply \<times> auth_server" where
  [model]: "reset_user_password A now salt i password s =
     (case i of None \<Rightarrow> (refused 400, s)
      | Some uid \<Rightarrow>
          if password_strength_error password \<noteq> [] then (refused 400, s)
          else case user_by_id uid (sv_db s) of
            None \<Rightarrow> (refused 404, s)
          | Some target \<Rightarrow>
              if us_source target \<noteq> ''local'' then (refused 400, s)
              else (answered 204 No_Body, on_db (\<lambda>db. delete_sessions_for_user uid
                (update_user_password (unix now) uid (hash_password (au_crypto A) password salt) db)) s))"

definition delete_user ::
    "time \<Rightarrow> int option \<Rightarrow> session_user option \<Rightarrow> auth_server \<Rightarrow> auth_reply \<times> auth_server" where
  [model]: "delete_user now i p s =
     (case i of None \<Rightarrow> (refused 400, s)
      | Some uid \<Rightarrow>
          (case user_by_id uid (sv_db s) of
             None \<Rightarrow> (refused 404, s)
           | Some target \<Rightarrow>
               if is_self p uid then (refused 400, s)
               else if us_role target = ''admin'' \<and> last_admin (sv_db s) then (refused 400, s)
               else
                 let db = delete_mfa_challenges_for_user uid
                       (delete_sessions_for_user uid (remove_user uid (sv_db s)));
                     (n, db) = delete_tokens_for_user uid db;
                     db = (if n > 0 then audit (unix now) (audit_user p) ''apitoken.delete'' db else db) in
                 (answered 204 No_Body, s\<lparr>sv_db := db\<rparr>)))"

definition change_password ::
    "auth_config \<Rightarrow> time \<Rightarrow> string \<Rightarrow> string \<Rightarrow> string \<Rightarrow> session_user option \<Rightarrow> auth_server \<Rightarrow> auth_reply \<times> auth_server" where
  [model]: "change_password A now salt current new p s =
     (case p of None \<Rightarrow> (refused 401, s)
      | Some cur \<Rightarrow>
          (case user_by_id (su_id cur) (sv_db s) of
             None \<Rightarrow> (refused 400, s)
           | Some u \<Rightarrow>
               if us_source u \<noteq> ''local'' \<or> us_password_hash u = [] then (refused 400, s)
               else if verify_password (au_crypto A) (us_password_hash u) current \<noteq> Some True then (refused 400, s)
               else if password_strength_error new \<noteq> [] then (refused 400, s)
               else (answered 204 No_Body,
                 on_db (update_user_password (unix now) (us_id u) (hash_password (au_crypto A) new salt)) s)))"

subsection \<open>Managing API tokens\<close>

definition create_api_token ::
    "auth_config \<Rightarrow> time \<Rightarrow> string \<Rightarrow> string \<Rightarrow> string \<Rightarrow> string \<Rightarrow> int \<Rightarrow> session_user option
     \<Rightarrow> auth_server \<Rightarrow> auth_reply \<times> auth_server" where
  [model]: "create_api_token A now random i name role expires p s =
     (let name = trim_space name in
      if name = [] \<or> 64 < length name then (refused 400, s)
      else if role \<noteq> ''admin'' \<and> role \<noteq> ''readonly'' then (refused 400, s)
      else if expires < 0 \<or> expires \<noteq> 0 \<and> expires \<le> unix now then (refused 400, s)
      else case p of
        None \<Rightarrow> (refused 409, s)
      | Some creator \<Rightarrow>
          if su_id creator = 0 then (refused 409, s)
          else
            let token = new_api_token random;
                t = \<lparr>tk_id = i, tk_name = name, tk_hash = [], tk_prefix = api_token_display_prefix token,
                  tk_role = role, tk_created_by = su_username creator, tk_created_by_id = su_id creator,
                  tk_created_at = unix now, tk_last_used_at = 0, tk_expires_at = expires\<rparr> in
            (case create_api_token_row (au_crypto A) t token (sv_db s) of
               (False, db) \<Rightarrow> (refused 500, s\<lparr>sv_db := db\<rparr>)
             | (True, db) \<Rightarrow>
                 (answered 201 (Token_Body token),
                  s\<lparr>sv_db := audit (unix now) (su_username creator) ''apitoken.create'' db\<rparr>)))"

definition delete_api_token ::
    "time \<Rightarrow> string \<Rightarrow> session_user option \<Rightarrow> auth_server \<Rightarrow> auth_reply \<times> auth_server" where
  [model]: "delete_api_token now i p s =
     (case delete_token_row i (sv_db s) of
        (None, db) \<Rightarrow> (refused 404, s\<lparr>sv_db := db\<rparr>)
      | (Some _, db) \<Rightarrow>
          (answered 204 No_Body, s\<lparr>sv_db := audit (unix now) (audit_user p) ''apitoken.delete'' db\<rparr>))"

subsection \<open>Single sign-on\<close>

record oidc_claims =
  oc_subject :: string
  oc_username :: string
  oc_email :: string
  oc_role :: string
  oc_picture :: string

text \<open>The claims of a verified token: those that are text, and those that are lists of text.\<close>

record id_token =
  id_text :: "(string \<times> string) list"
  id_lists :: "(string \<times> string list) list"

definition text_claim :: "id_token \<Rightarrow> string \<Rightarrow> string" where
  [model]: "text_claim t k = (case map_of (id_text t) k of None \<Rightarrow> [] | Some v \<Rightarrow> v)"

definition list_claim :: "id_token \<Rightarrow> string \<Rightarrow> string list" where
  [model]: "list_claim t k = (case map_of (id_lists t) k of None \<Rightarrow> [] | Some v \<Rightarrow> v)"

definition role_for :: "oidc_provider \<Rightarrow> string \<Rightarrow> string \<Rightarrow> string list \<Rightarrow> string" where
  [model]: "role_for p email sub groups =
     (let role = (if op_admin_group p \<noteq> [] \<and> op_admin_group p \<notin> set groups then ''readonly'' else ''admin'') in
      if op_admin_email p \<noteq> [] \<and> (equal_fold email (op_admin_email p) \<or> equal_fold sub (op_admin_email p))
      then ''admin'' else role)"

definition first_text :: "string list \<Rightarrow> string" where
  [model]: "first_text vs = (case find (\<lambda>v. v \<noteq> []) vs of None \<Rightarrow> [] | Some v \<Rightarrow> v)"

definition claims_of :: "oidc_provider \<Rightarrow> id_token \<Rightarrow> oidc_claims" where
  [model]: "claims_of p t =
     (let sub = text_claim t ''sub''; email = text_claim t ''email'' in
      \<lparr>oc_subject = sub,
       oc_username = first_text [text_claim t ''preferred_username'', email, sub],
       oc_email = email,
       oc_role = role_for p email sub (list_claim t (op_groups_claim p)),
       oc_picture = first_text [text_claim t ''profile_picture'', text_claim t ''picture'']\<rparr>)"

text \<open>The provider built from settings, once discovery of the issuer has succeeded.\<close>

definition new_oidc :: "oidc_settings \<Rightarrow> oidc_provider option" where
  [model]: "new_oidc o' =
     (if oi_issuer o' = [] \<or> oi_client_id o' = [] then None
      else Some \<lparr>op_groups_claim = (if oi_groups_claim o' = [] then ''groups'' else oi_groups_claim o'),
        op_admin_group = oi_admin_group o', op_admin_email = to_lower (trim_space (oi_admin_email o')),
        op_disable_password_login = oi_disable_password_login o', op_auto_login = oi_auto_login o'\<rparr>)"

text \<open>\<open>state\<close>: the cookie and the parameter; \<open>exchanged\<close>: the verified token of the code, if any.\<close>

definition oidc_callback ::
    "auth_config \<Rightarrow> time \<Rightarrow> string \<Rightarrow> string option \<Rightarrow> string \<Rightarrow> id_token option \<Rightarrow> auth_server \<Rightarrow> auth_reply \<times> auth_server" where
  [model]: "oidc_callback A now random state_cookie state exchanged s =
     (case (if au_enabled A then sv_oidc s else None) of
        None \<Rightarrow> (refused 404, s)
      | Some p \<Rightarrow>
          if state_cookie = None \<or> state_cookie = Some [] \<or> state_cookie \<noteq> Some state then (refused 400, s)
          else case exchanged of
            None \<Rightarrow> (refused 401, s)
          | Some t \<Rightarrow>
              let c = claims_of p t in
              (case upsert_oidc_user (unix now) (oc_subject c) (oc_username c) (oc_role c) (oc_picture c) (sv_db s) of
                 (None, db) \<Rightarrow> (refused 500, s\<lparr>sv_db := db\<rparr>)
               | (Some u, db) \<Rightarrow>
                   (case start_session A now random (us_id u) (us_username u) (us_role u) (s\<lparr>sv_db := db\<rparr>) of
                      (None, s) \<Rightarrow> (refused 500, s)
                    | (Some (token, _), s) \<Rightarrow>
                        (\<lparr>rp_status = 302, rp_cookie = Some token, rp_body = No_Body\<rparr>, s))))"


subsection \<open>Settings of the control plane\<close>

definition oidc_changed :: "oidc_settings \<Rightarrow> oidc_settings \<Rightarrow> bool" where
  [model]: "oidc_changed a b \<longleftrightarrow>
     oi_enabled a \<noteq> oi_enabled b \<or> oi_issuer a \<noteq> oi_issuer b \<or> oi_client_id a \<noteq> oi_client_id b
     \<or> oi_client_secret a \<noteq> oi_client_secret b \<or> oi_redirect_url a \<noteq> oi_redirect_url b
     \<or> join_with '','' (oi_scopes a) \<noteq> join_with '','' (oi_scopes b)
     \<or> oi_groups_claim a \<noteq> oi_groups_claim b \<or> oi_admin_group a \<noteq> oi_admin_group b
     \<or> oi_admin_email a \<noteq> oi_admin_email b"

definition apply_cp_settings :: "cp_settings \<Rightarrow> auth_server \<Rightarrow> auth_server" where
  [model]: "apply_cp_settings c s =
     (set_session_ttl (cs_session_ttl_sec c * second) s)\<lparr>
        sv_require_approval := cs_require_approval c,
        sv_key_max_age := (if cs_key_max_age_sec c = 0 then 30 * 24 * 60 * minute else cs_key_max_age_sec c * second),
        sv_key_grace := (if cs_key_grace_sec c \<le> 0 then 15 * minute else cs_key_grace_sec c * second),
        sv_login_window := (if cs_login_rate_window_sec c \<le> 0 then default_login_window
           else cs_login_rate_window_sec c * second),
        sv_login_attempts := max 0 (cs_login_rate_attempts c)\<rparr>"

text \<open>The settings that are stored for those that were sent.\<close>

definition cleaned_settings :: "cp_settings \<Rightarrow> cp_settings \<Rightarrow> cp_settings" where
  [model]: "cleaned_settings cur new =
     (let o' = cs_oidc new in
      new\<lparr>cs_oidc := o'\<lparr>oi_issuer := trim_space (oi_issuer o'), oi_client_id := trim_space (oi_client_id o'),
            oi_redirect_url := trim_space (oi_redirect_url o'),
            oi_client_secret := (if oi_client_secret o' = [] then oi_client_secret (cs_oidc cur) else oi_client_secret o')\<rparr>,
          cs_advertise_addr := trim_space (cs_advertise_addr new),
          cs_session_ttl_sec := (if cs_session_ttl_sec new > 0 then cs_session_ttl_sec new
             else if cs_session_ttl_sec cur > 0 then cs_session_ttl_sec cur else 24 * 3600),
          cs_key_max_age_sec := max 0 (cs_key_max_age_sec new),
          cs_key_grace_sec := max 0 (cs_key_grace_sec new),
          cs_login_rate_attempts := max 0 (cs_login_rate_attempts new),
          cs_login_rate_window_sec := (if cs_login_rate_window_sec new \<le> 0 then default_login_window div second
             else cs_login_rate_window_sec new),
          cs_scrape_token_hash := cs_scrape_token_hash cur,
          cs_scrape_token_prefix := cs_scrape_token_prefix cur\<rparr>)"

text \<open>
  Swapping the provider for changed settings: off when disabled; \<open>reachable\<close> says whether discovery
  of the issuer succeeds, without which the current provider stays.
\<close>

definition rebuild_oidc :: "bool \<Rightarrow> oidc_settings \<Rightarrow> auth_server \<Rightarrow> bool \<times> auth_server" where
  [model]: "rebuild_oidc reachable o' s =
     (if \<not> oi_enabled o' then (True, set_oidc None s)
      else case (if reachable then new_oidc o' else None) of
        None \<Rightarrow> (False, s)
      | Some p \<Rightarrow> (True, set_oidc (Some p) s))"

definition put_cp_settings ::
    "time \<Rightarrow> bool \<Rightarrow> cp_settings \<Rightarrow> session_user option \<Rightarrow> auth_server \<Rightarrow> auth_reply \<times> auth_server" where
  [model]: "put_cp_settings now reachable new p s =
     (let cur = load_cp_settings cp_defaults (sv_db s);
          c = cleaned_settings cur new;
          o' = cs_oidc c in
      if oi_enabled o' \<and> (oi_issuer o' = [] \<or> oi_client_id o' = [] \<or> oi_redirect_url o' = []) then (refused 400, s)
      else
        let s = apply_cp_settings c (on_db (save_cp_settings c) s);
            (ok, s) = (if oidc_changed (cs_oidc cur) o' then rebuild_oidc reachable o' s else (True, s)) in
        if \<not> ok then (refused 502, s)
        else (answered 200 No_Body, on_db (audit (unix now) (audit_user p) ''settings.cp'') s))"

text \<open>What the settings show: without the client secret and the hash of the scrape token.\<close>

definition get_cp_settings :: "auth_server \<Rightarrow> cp_settings \<times> bool \<times> bool" where
  [model]: "get_cp_settings s =
     (let c = load_cp_settings cp_defaults (sv_db s) in
      (c\<lparr>cs_oidc := (cs_oidc c)\<lparr>oi_client_secret := []\<rparr>, cs_scrape_token_hash := []\<rparr>,
       oi_client_secret (cs_oidc c) \<noteq> [], cs_scrape_token_hash c \<noteq> []))"

definition get_settings_audit :: "auth_server \<Rightarrow> (int \<times> string \<times> string) list" where
  [model]: "get_settings_audit s = rev (ac_audit (sv_db s))"

definition metrics_auth :: "auth_config \<Rightarrow> string \<Rightarrow> auth_server \<Rightarrow> bool" where
  [model]: "metrics_auth A h s =
     (let want = cs_scrape_token_hash (load_cp_settings cp_defaults (sv_db s));
          presented = (if has_prefix h ''Bearer '' then cr_sha (au_crypto A) (trim_prefix h ''Bearer '') else []) in
      want = [] \<or> presented = want)"

definition generate_metrics_token ::
    "auth_config \<Rightarrow> time \<Rightarrow> string \<Rightarrow> session_user option \<Rightarrow> auth_server \<Rightarrow> auth_reply \<times> auth_server" where
  [model]: "generate_metrics_token A now random p s =
     (let tok = new_token random;
          c = (load_cp_settings cp_defaults (sv_db s))\<lparr>cs_scrape_token_hash := cr_sha (au_crypto A) tok,
                cs_scrape_token_prefix := take 8 tok\<rparr> in
      (answered 200 (Token_Body tok),
       on_db (\<lambda>db. audit (unix now) (audit_user p) ''settings.cp'' (save_cp_settings c db)) s))"

definition clear_metrics_token :: "time \<Rightarrow> session_user option \<Rightarrow> auth_server \<Rightarrow> auth_reply \<times> auth_server" where
  [model]: "clear_metrics_token now p s =
     (let c = load_cp_settings cp_defaults (sv_db s) in
      if cs_scrape_token_hash c = [] then (answered 204 No_Body, s)
      else (answered 204 No_Body, on_db (\<lambda>db. audit (unix now) (audit_user p) ''settings.cp''
        (save_cp_settings (c\<lparr>cs_scrape_token_hash := [], cs_scrape_token_prefix := []\<rparr>) db)) s))"

subsection \<open>First-boot setup\<close>

definition setup_active :: "auth_server \<Rightarrow> bool" where
  [model]: "setup_active s \<longleftrightarrow> \<not> sv_setup_done s"

text \<open>Whether a request path is let through to the handlers.\<close>

definition setup_gate :: "auth_server \<Rightarrow> string \<Rightarrow> bool" where
  [model]: "setup_gate s path =
     (if \<not> setup_active s then True
      else if path = ''/metrics'' then False
      else path = ''/healthz'' \<or> has_prefix path ''/api/setup'' \<or> path = ''/api/auth/info''
        \<or> \<not> has_prefix path ''/api/'')"

record setup_request =
  sr_method :: string
  sr_username :: string
  sr_password :: string
  sr_oidc :: oidc_settings
  sr_break_glass :: bool

definition setup_oidc :: "setup_request \<Rightarrow> oidc_settings" where
  [model]: "setup_oidc q =
     (let o' = sr_oidc q in
      o'\<lparr>oi_enabled := True, oi_issuer := trim_space (oi_issuer o'), oi_client_id := trim_space (oi_client_id o'),
         oi_redirect_url := trim_space (oi_redirect_url o'), oi_admin_email := trim_space (oi_admin_email o'),
         oi_disable_password_login := \<not> sr_break_glass q\<rparr>)"

definition setup_local_admin :: "setup_request \<Rightarrow> bool" where
  [model]: "setup_local_admin q \<longleftrightarrow> \<not> equal_fold (trim_space (sr_method q)) ''sso'' \<or> sr_break_glass q"

text \<open>The end of the wizard: the transaction, and a session for the local admin there is now.\<close>

definition setup_finish ::
    "auth_config \<Rightarrow> time \<Rightarrow> string \<Rightarrow> string \<Rightarrow> setup_params \<Rightarrow> auth_server \<Rightarrow> auth_reply \<times> auth_server" where
  [model]: "setup_finish A now random username params s =
     (case complete_setup (unix now) params (sv_db s) of
        (False, _) \<Rightarrow> (refused 410, s\<lparr>sv_setup_done := True\<rparr>)
      | (True, db) \<Rightarrow>
          let s = s\<lparr>sv_setup_done := True, sv_db := audit (unix now) username ''setup.complete'' db\<rparr> in
          (case (if sp_username params = [] then None else user_by_name username (sv_db s)) of
             None \<Rightarrow> (answered 200 No_Body, s)
           | Some u \<Rightarrow>
               (case start_session A now random (us_id u) (us_username u) (us_role u) s of
                  (None, s) \<Rightarrow> (answered 200 No_Body, s)
                | (Some (token, _), s) \<Rightarrow>
                    (\<lparr>rp_status = 200, rp_cookie = Some token, rp_body = No_Body\<rparr>, s))))"

definition setup_complete ::
    "auth_config \<Rightarrow> time \<Rightarrow> string \<Rightarrow> string \<Rightarrow> bool \<Rightarrow> setup_request option \<Rightarrow> auth_server \<Rightarrow> auth_reply \<times> auth_server" where
  [model]: "setup_complete A now salt random reachable body s =
     (if \<not> setup_active s then (refused 410, s)
      else case window_allow 10 minute now (sv_setup_rate s) of
        (False, w) \<Rightarrow> (refused 429, s\<lparr>sv_setup_rate := w\<rparr>)
      | (True, w) \<Rightarrow>
          let s = s\<lparr>sv_setup_rate := w\<rparr> in
          (case body of None \<Rightarrow> (refused 400, s)
           | Some q \<Rightarrow>
               let sso = equal_fold (trim_space (sr_method q)) ''sso'';
                   username = trim_space (sr_username q);
                   o' = setup_oidc q in
               if setup_local_admin q \<and> (username = [] \<or> password_strength_error (sr_password q) \<noteq> []) then (refused 400, s)
               else if sso \<and> (oi_issuer o' = [] \<or> oi_client_id o' = [] \<or> oi_redirect_url o' = [] \<or> oi_admin_email o' = [])
               then (refused 400, s)
               else
                 let (ok, s) = (if sso then rebuild_oidc reachable o' s else (True, s)) in
                 if \<not> ok then (refused 502, s)
                 else setup_finish A now random username
                   \<lparr>sp_username = (if setup_local_admin q then username else []),
                    sp_password_hash = (if setup_local_admin q
                       then hash_password (au_crypto A) (sr_password q) salt else []),
                    sp_oidc = (if sso then Some o' else None)\<rparr> s))"

subsection \<open>Start of the control plane\<close>

text \<open>What the file and the environment say of these settings.\<close>

record file_auth =
  fa_session_ttl :: duration
  fa_oidc :: oidc_settings
  fa_require_approval :: bool
  fa_key_max_age :: duration
  fa_key_grace :: duration
  fa_advertise_addr :: string
  fa_query_log :: bool

definition seed_cp_settings :: "file_auth \<Rightarrow> cp_settings" where
  [model]: "seed_cp_settings f =
     (cp_zero (fa_session_ttl f div second))\<lparr>
        cs_oidc := (fa_oidc f)\<lparr>oi_allow_avatar_upload := False\<rparr>,
        cs_require_approval := fa_require_approval f,
        cs_key_max_age_sec := fa_key_max_age f div second,
        cs_key_grace_sec := fa_key_grace f div second,
        cs_advertise_addr := fa_advertise_addr f,
        cs_query_log := fa_query_log f\<rparr>"

definition new_auth_server :: "accounts_db \<Rightarrow> auth_server" where
  [model]: "new_auth_server db = \<lparr>sv_db = db, sv_touched = [], sv_oidc = None, sv_ttl = default_ttl, sv_login_rate = [],
     sv_mfa_rate = [], sv_setup_rate = \<lparr>wi_at = None, wi_count = 0\<rparr>, sv_setup_done = True,
     sv_login_attempts = default_login_attempts, sv_login_window = default_login_window,
     sv_require_approval = False, sv_key_max_age = 0, sv_key_grace = 0\<rparr>"

text \<open>
  Seeding the settings, applying those in the database, opening the wizard on a control plane
  without users whose setup was never completed.
\<close>

definition boot :: "auth_config \<Rightarrow> bool \<Rightarrow> file_auth \<Rightarrow> accounts_db \<Rightarrow> auth_server" where
  [model]: "boot A reachable f db =
     (let (_, db) = ensure_cp_settings (seed_cp_settings f) db;
          c = load_cp_settings (cp_zero (24 * 3600)) db;
          s = set_session_ttl (cs_session_ttl_sec c * second) (new_auth_server db);
          s = (if au_enabled A \<and> oi_enabled (cs_oidc c) then snd (rebuild_oidc reachable (cs_oidc c) s) else s);
          s = apply_cp_settings c s in
      if au_enabled A \<and> \<not> ac_setup_completed (sv_db s) \<and> count_users (sv_db s) = 0
      then s\<lparr>sv_setup_done := False\<rparr> else s)"

text \<open>The recovery command: a new password for an account that exists, or a new admin.\<close>

definition reset_admin ::
    "auth_config \<Rightarrow> time \<Rightarrow> string \<Rightarrow> string \<Rightarrow> string \<Rightarrow> string \<Rightarrow> accounts_db \<Rightarrow> accounts_db option" where
  [model]: "reset_admin A now random salt username password db =
     (let given = trim_space password;
          pw = (if given = [] then take 16 (new_token random) else given);
          t = unix now; h = hash_password (au_crypto A) pw salt in
      if given \<noteq> [] \<and> password_strength_error pw \<noteq> [] then None
      else case user_by_name username db of
        Some existing \<Rightarrow>
          let uid = us_id existing;
              db = update_user_password t uid h db;
              db = (if us_role existing \<noteq> ''admin'' then update_user_role t uid ''admin'' db else db) in
          Some (if mfa_enabled uid db then delete_mfa_challenges_for_user uid (disable_totp t uid db) else db)
      | None \<Rightarrow>
          (case create_local_user t username h ''admin'' db of
             (None, _) \<Rightarrow> None
           | (Some _, db) \<Rightarrow> Some (db\<lparr>ac_setup_completed := True\<rparr>)))"


subsection \<open>The routes\<close>

text \<open>
  A call is a decoded request to one of the routes, with what is drawn at random for it. The gate of
  the setup is in front of all of them, and each route has its guard: open, or a session of at least
  the given role.
\<close>

datatype call =
    Call_Login string string http_request "(string \<times> string) option"
  | Call_Logout http_request
  | Call_Verify string string string
  | Call_Setup_Mfa string http_request string
  | Call_Enable "string list" string http_request string string
  | Call_Callback string "string option" string "id_token option"
  | Call_Complete string string bool "setup_request option"
  | Call_Disable http_request string string
  | Call_Codes "string list" http_request string
  | Call_Password string http_request string string
  | Call_Reset_Mfa http_request "int option"
  | Call_Create_User string http_request string string string
  | Call_Role http_request "int option" string
  | Call_Reset_Password string http_request "int option" string
  | Call_Delete_User http_request "int option"
  | Call_Create_Token string string http_request string string int
  | Call_Delete_Token http_request string
  | Call_Settings http_request bool cp_settings
  | Call_Scrape_Token string http_request
  | Call_Clear_Scrape http_request
  | Call_Other string bool http_request

fun route_path :: "call \<Rightarrow> string" where
  "route_path (Call_Login _ _ _ _) = ''/api/auth/login''"
| "route_path (Call_Logout _) = ''/api/auth/logout''"
| "route_path (Call_Verify _ _ _) = ''/api/auth/mfa/verify''"
| "route_path (Call_Setup_Mfa _ _ _) = ''/api/auth/mfa/setup''"
| "route_path (Call_Enable _ _ _ _ _) = ''/api/auth/mfa/enable''"
| "route_path (Call_Callback _ _ _ _) = ''/api/auth/oidc/callback''"
| "route_path (Call_Complete _ _ _ _) = ''/api/setup/complete''"
| "route_path (Call_Disable _ _ _) = ''/api/auth/mfa/disable''"
| "route_path (Call_Codes _ _ _) = ''/api/auth/mfa/recovery-codes''"
| "route_path (Call_Password _ _ _ _) = ''/api/auth/password''"
| "route_path (Call_Settings _ _ _) = ''/api/settings/cp''"
| "route_path (Call_Scrape_Token _ _) = ''/api/settings/metrics-token''"
| "route_path (Call_Clear_Scrape _) = ''/api/settings/metrics-token''"
| "route_path (Call_Create_Token _ _ _ _ _ _) = ''/api/tokens''"
| "route_path (Call_Delete_Token _ _) = ''/api/tokens/''"
| "route_path (Call_Other _ _ _) = ''/api/other''"
| "route_path _ = ''/api/users''"

fun dispatch :: "auth_config \<Rightarrow> time \<Rightarrow> call \<Rightarrow> auth_server \<Rightarrow> auth_reply \<times> auth_server" where
  "dispatch A now (Call_Login random random' r body) s = login A now random random' r body s"
| "dispatch A now (Call_Logout r) s = logout A r s"
| "dispatch A now (Call_Verify random challenge code) s = mfa_verify A now random challenge code s"
| "dispatch A now (Call_Setup_Mfa random r challenge) s = mfa_setup A now random r challenge s"
| "dispatch A now (Call_Enable randoms random r challenge code) s = mfa_enable A now randoms random r challenge code s"
| "dispatch A now (Call_Callback random ck state exchanged) s = oidc_callback A now random ck state exchanged s"
| "dispatch A now (Call_Complete salt random reachable body) s = setup_complete A now salt random reachable body s"
| "dispatch A now (Call_Disable r password code) s =
     require_session A now ''readonly'' r (\<lambda>_. mfa_disable A now r password code) s"
| "dispatch A now (Call_Codes randoms r code) s =
     require_session A now ''readonly'' r (\<lambda>_. mfa_regenerate_codes A now randoms r code) s"
| "dispatch A now (Call_Password salt r current new) s =
     require_session A now ''readonly'' r (change_password A now salt current new) s"
| "dispatch A now (Call_Reset_Mfa r i) s = require_session A now ''admin'' r (reset_user_mfa now i) s"
| "dispatch A now (Call_Create_User salt r username password role) s =
     require_session A now ''admin'' r (\<lambda>_. create_user A now salt username password role) s"
| "dispatch A now (Call_Role r i role) s = require_session A now ''admin'' r (\<lambda>_. set_user_role now i role) s"
| "dispatch A now (Call_Reset_Password salt r i password) s =
     require_session A now ''admin'' r (\<lambda>_. reset_user_password A now salt i password) s"
| "dispatch A now (Call_Delete_User r i) s = require_session A now ''admin'' r (delete_user now i) s"
| "dispatch A now (Call_Create_Token random i r name role expires) s =
     require_session A now ''admin'' r (create_api_token A now random i name role expires) s"
| "dispatch A now (Call_Delete_Token r i) s = require_session A now ''admin'' r (delete_api_token now i) s"
| "dispatch A now (Call_Settings r reachable new) s =
     require_session A now ''admin'' r (put_cp_settings now reachable new) s"
| "dispatch A now (Call_Scrape_Token random r) s =
     require_session A now ''admin'' r (generate_metrics_token A now random) s"
| "dispatch A now (Call_Clear_Scrape r) s = require_session A now ''admin'' r (clear_metrics_token now) s"
| "dispatch A now (Call_Other role tokens r) s = guard A now role tokens r (\<lambda>_ s. (answered 200 No_Body, s)) s"

definition serve_call :: "auth_config \<Rightarrow> time \<Rightarrow> call \<Rightarrow> auth_server \<Rightarrow> auth_reply \<times> auth_server" where
  [model]: "serve_call A now c s = (if setup_gate s (route_path c) then dispatch A now c s else (refused 403, s))"

end
