(* ===== verification/Account_Facts.thy ===== *)
theory Account_Facts
  imports Sign_In
begin

section \<open>What the accounts keep\<close>

text \<open>
  An abstract description of what may happen to the tables of accounts (\<open>account_step\<close>), the
  proof that every call of the API is a sequence of such steps, and what follows for whole runs:
  referential integrity without foreign keys, an administrator that always remains, second
  factors that cannot be skipped or replayed, accounts that stay deleted.
\<close>

subsection \<open>Sound tables\<close>

definition user_ids :: "accounts_db \<Rightarrow> int set" where
  "user_ids db = us_id ` set (ac_users db)"

definition factor_ok :: "user_row \<Rightarrow> bool" where
  "factor_ok u \<longleftrightarrow> (us_totp_secret u \<noteq> [] \<longrightarrow> us_totp_pending u = [])
     \<and> (us_source u \<noteq> ''local'' \<longrightarrow> us_totp_secret u = [] \<and> us_totp_pending u = [])"

definition users_ok :: "user_row list \<Rightarrow> int \<Rightarrow> bool" where
  "users_ok us seq \<longleftrightarrow> distinct (map us_id us) \<and> distinct (map us_username us) \<and> 0 \<le> seq
     \<and> (\<forall>u\<in>set us. 0 < us_id u \<and> us_id u \<le> seq \<and> factor_ok u)"

definition accounts_ok :: "accounts_db \<Rightarrow> bool" where
  "accounts_ok db \<longleftrightarrow> users_ok (ac_users db) (ac_users_seq db)
     \<and> distinct (map sn_token (ac_sessions db)) \<and> sn_user ` set (ac_sessions db) \<subseteq> user_ids db
     \<and> distinct (map ch_token (ac_challenges db)) \<and> ch_user ` set (ac_challenges db) \<subseteq> user_ids db
     \<and> ch_attempts ` set (ac_challenges db) \<subseteq> {0..5}
     \<and> distinct (map tk_id (ac_tokens db)) \<and> distinct (map tk_hash (ac_tokens db))
     \<and> tk_created_by_id ` set (ac_tokens db) \<subseteq> user_ids db"

lemma user_by_id_Some: "user_by_id uid db = Some u \<Longrightarrow> u \<in> set (ac_users db) \<and> us_id u = uid"
  by (auto simp: user_by_id_def find_Some_iff)

lemma user_by_name_Some: "user_by_name name db = Some u \<Longrightarrow> u \<in> set (ac_users db) \<and> us_username u = name"
  by (auto simp: user_by_name_def find_Some_iff)

lemma user_by_id_mem:
  assumes "accounts_ok db" "u \<in> set (ac_users db)"
  shows "user_by_id (us_id u) db = Some u"
proof -
  have "\<exists>v. user_by_id (us_id u) db = Some v"
    using assms(2) by (auto simp: user_by_id_def find_None_iff simp flip: not_None_eq)
  then obtain v where v: "user_by_id (us_id u) db = Some v" ..
  with assms user_by_id_Some [OF v] have "v = u"
    by (auto simp: accounts_ok_def users_ok_def distinct_map dest: inj_onD)
  with v show ?thesis by simp
qed

lemma user_ids_mem [simp]: "u \<in> set (ac_users db) \<Longrightarrow> us_id u \<in> user_ids db"
  by (simp add: user_ids_def)

text \<open>What the operations leave of the set of ids.\<close>

lemma change_user_ids: "(\<And>u. us_id (f u) = us_id u) \<Longrightarrow> user_ids (change_user uid f db) = user_ids db"
proof -
  assume "\<And>u. us_id (f u) = us_id u"
  then have "map us_id (ac_users (change_user uid f db)) = map us_id (ac_users db)"
    by (simp add: change_user_def)
  then show ?thesis unfolding user_ids_def by (metis set_map)
qed

lemma change_user_frame [simp]:
  "ac_sessions (change_user uid f db) = ac_sessions db" "ac_challenges (change_user uid f db) = ac_challenges db"
  "ac_tokens (change_user uid f db) = ac_tokens db" "ac_users_seq (change_user uid f db) = ac_users_seq db"
  by (simp_all add: change_user_def)

lemma user_ids_cong: "ac_users db = ac_users db' \<Longrightarrow> user_ids db = user_ids db'"
  by (simp add: user_ids_def)

subsection \<open>What may happen\<close>

text \<open>\<open>keeps f\<close>: an edit of a row that leaves who the account is and its second factor alone.\<close>

definition keeps :: "(user_row \<Rightarrow> user_row) \<Rightarrow> bool" where
  "keeps f \<longleftrightarrow> (\<forall>u. us_id (f u) = us_id u \<and> us_username (f u) = us_username u \<and> us_source (f u) = us_source u
     \<and> us_subject (f u) = us_subject u \<and> us_role (f u) = us_role u \<and> us_totp_secret (f u) = us_totp_secret u
     \<and> us_totp_pending (f u) = us_totp_pending u \<and> us_totp_last_step (f u) = us_totp_last_step u)"

inductive account_step :: "bool \<Rightarrow> accounts_db \<Rightarrow> accounts_db \<Rightarrow> bool" for sso where
  Fewer_Sessions: "account_step sso db (db\<lparr>ac_sessions := filter P (ac_sessions db)\<rparr>)"
| New_Session: "\<lbrakk>sn_user sn \<in> user_ids db; sn_token sn \<notin> sn_token ` set (ac_sessions db)\<rbrakk>
    \<Longrightarrow> account_step sso db (db\<lparr>ac_sessions := ac_sessions db @ [sn]\<rparr>)"
| Fewer_Challenges: "account_step sso db (db\<lparr>ac_challenges := filter P (ac_challenges db)\<rparr>)"
| New_Challenge: "\<lbrakk>ch_user c \<in> user_ids db; ch_token c \<notin> ch_token ` set (ac_challenges db); ch_attempts c = 0\<rbrakk>
    \<Longrightarrow> account_step sso db (db\<lparr>ac_challenges := ac_challenges db @ [c]\<rparr>)"
| Attempt: "(\<And>c. P c \<Longrightarrow> ch_attempts c < 5)
    \<Longrightarrow> account_step sso db (db\<lparr>ac_challenges :=
          map (\<lambda>c. if P c then c\<lparr>ch_attempts := ch_attempts c + 1\<rparr> else c) (ac_challenges db)\<rparr>)"
| Fewer_Tokens: "account_step sso db (db\<lparr>ac_tokens := filter P (ac_tokens db)\<rparr>)"
| New_Token: "\<lbrakk>tk_created_by_id t \<in> user_ids db; tk_id t \<notin> tk_id ` set (ac_tokens db);
      tk_hash t \<notin> tk_hash ` set (ac_tokens db)\<rbrakk>
    \<Longrightarrow> account_step sso db (db\<lparr>ac_tokens := ac_tokens db @ [t]\<rparr>)"
| Touch: "account_step sso db (touch_token_row i ts db)"
| New_User: "insert_user now name role src avatar sub pw db = (Some uid, db') \<Longrightarrow> account_step sso db db'"
| Edit_User: "keeps f \<Longrightarrow> account_step sso db (change_user uid f db)"
| Set_Role: "role = ''admin'' \<or> 1 < count_admins db \<or> user_by_id uid db = Some u \<and> us_role u \<noteq> ''admin''
    \<Longrightarrow> account_step sso db (update_user_role now uid role db)"
| Sso_Refresh: "sso \<Longrightarrow> account_step sso db (change_user uid
      (\<lambda>u. if us_source u = ''oidc'' then u\<lparr>us_role := role, us_avatar_url := avatar, us_updated_at := now\<rparr> else u) db)"
| Pending: "\<lbrakk>user_by_id uid db = Some u; us_source u = ''local''; us_totp_secret u = []\<rbrakk>
    \<Longrightarrow> account_step sso db (set_totp_pending now uid secret db)"
| Enable: "enable_totp now uid secret step hashes db = (True, db') \<Longrightarrow> account_step sso db db'"
| Disable: "account_step sso db (disable_totp now uid db)"
| Use_Step: "use_totp_step uid step db = (True, db') \<Longrightarrow> account_step sso db db'"
| Drop_User: "\<lbrakk>user_by_id uid db = Some u; us_role u = ''admin'' \<Longrightarrow> 1 < count_admins db\<rbrakk>
    \<Longrightarrow> account_step sso db (db\<lparr>ac_users := filter (\<lambda>u. us_id u \<noteq> uid) (ac_users db),
          ac_sessions := filter (\<lambda>s. sn_user s \<noteq> uid) (ac_sessions db),
          ac_challenges := filter (\<lambda>c. ch_user c \<noteq> uid) (ac_challenges db),
          ac_tokens := filter (\<lambda>t. tk_created_by_id t \<noteq> uid) (ac_tokens db)\<rparr>)"
| Settings: "account_step sso db (db\<lparr>ac_audit := a, ac_setup_completed := b, ac_settings := c, ac_master_addr := d\<rparr>)"

abbreviation steps :: "bool \<Rightarrow> accounts_db \<Rightarrow> accounts_db \<Rightarrow> bool" where
  "steps sso \<equiv> (account_step sso)\<^sup>*\<^sup>*"

subsection \<open>The steps keep the tables sound\<close>

lemma change_user_ok:
  assumes "users_ok (ac_users db) seq"
    and "\<And>u. us_id (f u) = us_id u \<and> us_username (f u) = us_username u"
    and "\<And>u. u \<in> set (ac_users db) \<Longrightarrow> us_id u = uid \<Longrightarrow> factor_ok (f u)"
  shows "users_ok (ac_users (change_user uid f db)) seq"
proof -
  have "map us_id (ac_users (change_user uid f db)) = map us_id (ac_users db)"
    "map us_username (ac_users (change_user uid f db)) = map us_username (ac_users db)"
    using assms(2) by (auto simp: change_user_def)
  moreover have "\<forall>u\<in>set (ac_users (change_user uid f db)). 0 < us_id u \<and> us_id u \<le> seq \<and> factor_ok u"
    using assms by (auto simp: change_user_def users_ok_def)
  ultimately show ?thesis using assms(1) by (simp add: users_ok_def)
qed

lemma change_accounts_ok:
  assumes "accounts_ok db"
    and "\<And>u. us_id (f u) = us_id u \<and> us_username (f u) = us_username u"
    and "\<And>u. u \<in> set (ac_users db) \<Longrightarrow> us_id u = uid \<Longrightarrow> factor_ok (f u)"
  shows "accounts_ok (change_user uid f db)"
  using change_user_ok [of db "ac_users_seq db" f uid] assms change_user_ids [of f uid db]
  by (simp add: accounts_ok_def)

lemma unique_user:
  "accounts_ok db \<Longrightarrow> u \<in> set (ac_users db) \<Longrightarrow> user_by_id (us_id u) db = Some v \<Longrightarrow> u = v"
  using user_by_id_mem by fastforce

lemma user_factor_ok: "accounts_ok db \<Longrightarrow> u \<in> set (ac_users db) \<Longrightarrow> factor_ok u"
  by (simp add: accounts_ok_def users_ok_def)

lemma insert_user_ok:
  assumes "accounts_ok db" "insert_user now name role src avatar sub pw db = (Some uid, db')"
  shows "accounts_ok db'" and "user_ids db' = insert uid (user_ids db)" and "uid \<notin> user_ids db"
    and "ac_sessions db' = ac_sessions db" and "ac_users_seq db < ac_users_seq db'"
    and "uid = ac_users_seq db'"
proof -
  let ?u = "\<lparr>us_id = uid, us_username = name, us_role = role, us_source = src, us_avatar_url = avatar,
     us_avatar_data = [], us_subject = sub, us_password_hash = pw, us_updated_at = now, us_totp_secret = [],
     us_totp_pending = [], us_totp_last_step = 0, us_recovery = None\<rparr>"
  have db': "db' = db\<lparr>ac_users_seq := uid, ac_users := ac_users db @ [?u]\<rparr>" "uid = ac_users_seq db + 1"
    and name: "name \<notin> us_username ` set (ac_users db)"
    using assms(2) by (auto simp: insert_user_def Let_def list_ex_iff split: if_splits)
  have new: "uid \<notin> user_ids db"
    using assms(1) db'(2) by (auto simp: accounts_ok_def users_ok_def user_ids_def)
  then show "uid \<notin> user_ids db" .
  show ids: "user_ids db' = insert uid (user_ids db)" by (simp add: db' user_ids_def)
  show "accounts_ok db'"
    unfolding accounts_ok_def
  proof (intro conjI)
    show "users_ok (ac_users db') (ac_users_seq db')"
      using assms(1) new name db'(2)
      by (auto simp: accounts_ok_def users_ok_def db'(1) factor_ok_def user_ids_def)
  qed (use assms(1) in \<open>auto simp: accounts_ok_def ids, auto simp: db'(1)\<close>)
  show "ac_sessions db' = ac_sessions db" "ac_users_seq db < ac_users_seq db'" "uid = ac_users_seq db'"
    by (simp_all add: db')
qed


lemma map_same: "(\<And>x. g (f x) = g x) \<Longrightarrow> map g (map f xs) = map g xs"
  by simp

lemma touch_token_rows [simp]:
  "map tk_id (ac_tokens (touch_token_row i ts db)) = map tk_id (ac_tokens db)"
  "map tk_hash (ac_tokens (touch_token_row i ts db)) = map tk_hash (ac_tokens db)"
  "map tk_created_by_id (ac_tokens (touch_token_row i ts db)) = map tk_created_by_id (ac_tokens db)"
  by (simp_all add: touch_token_row_def)

lemma touch_token_frame [simp]:
  "ac_users (touch_token_row i ts db) = ac_users db" "ac_users_seq (touch_token_row i ts db) = ac_users_seq db"
  "ac_sessions (touch_token_row i ts db) = ac_sessions db" "ac_challenges (touch_token_row i ts db) = ac_challenges db"
  by (simp_all add: touch_token_row_def)

lemma accounts_ok_tokens:
  "accounts_ok db \<longleftrightarrow> users_ok (ac_users db) (ac_users_seq db)
     \<and> distinct (map sn_token (ac_sessions db)) \<and> set (map sn_user (ac_sessions db)) \<subseteq> set (map us_id (ac_users db))
     \<and> distinct (map ch_token (ac_challenges db)) \<and> set (map ch_user (ac_challenges db)) \<subseteq> set (map us_id (ac_users db))
     \<and> ch_attempts ` set (ac_challenges db) \<subseteq> {0..5}
     \<and> distinct (map tk_id (ac_tokens db)) \<and> distinct (map tk_hash (ac_tokens db))
     \<and> set (map tk_created_by_id (ac_tokens db)) \<subseteq> set (map us_id (ac_users db))"
  by (simp add: accounts_ok_def user_ids_def)

lemma change_if_True:
  assumes "change_if uid P f db = (True, db')"
  shows "db' = change_user uid (\<lambda>u. if P u then f u else u) db" "\<exists>u\<in>set (ac_users db). us_id u = uid \<and> P u"
  using assms by (auto simp: change_if_def list_ex_iff)

lemma drop_user_ok:
  assumes "accounts_ok db"
  shows "accounts_ok (db\<lparr>ac_users := filter (\<lambda>u. us_id u \<noteq> uid) (ac_users db),
          ac_sessions := filter (\<lambda>s. sn_user s \<noteq> uid) (ac_sessions db),
          ac_challenges := filter (\<lambda>c. ch_user c \<noteq> uid) (ac_challenges db),
          ac_tokens := filter (\<lambda>t. tk_created_by_id t \<noteq> uid) (ac_tokens db)\<rparr>)"
  unfolding accounts_ok_def
proof (intro conjI)
  show "users_ok (ac_users (db\<lparr>ac_users := filter (\<lambda>u. us_id u \<noteq> uid) (ac_users db),
          ac_sessions := filter (\<lambda>s. sn_user s \<noteq> uid) (ac_sessions db),
          ac_challenges := filter (\<lambda>c. ch_user c \<noteq> uid) (ac_challenges db),
          ac_tokens := filter (\<lambda>t. tk_created_by_id t \<noteq> uid) (ac_tokens db)\<rparr>))
        (ac_users_seq (db\<lparr>ac_users := filter (\<lambda>u. us_id u \<noteq> uid) (ac_users db),
          ac_sessions := filter (\<lambda>s. sn_user s \<noteq> uid) (ac_sessions db),
          ac_challenges := filter (\<lambda>c. ch_user c \<noteq> uid) (ac_challenges db),
          ac_tokens := filter (\<lambda>t. tk_created_by_id t \<noteq> uid) (ac_tokens db)\<rparr>))"
    using assms by (auto simp: accounts_ok_def users_ok_def distinct_map_filter)
qed (use assms in \<open>auto simp: accounts_ok_def user_ids_def distinct_map_filter\<close>)

lemma account_step_ok: "account_step sso db db' \<Longrightarrow> accounts_ok db \<Longrightarrow> accounts_ok db'"
proof (induction rule: account_step.induct)
  case (Attempt P db)
  have "distinct (map ch_token (map (\<lambda>c. if P c then c\<lparr>ch_attempts := ch_attempts c + 1\<rparr> else c) (ac_challenges db)))"
    using Attempt.prems by (subst map_same) (simp_all add: accounts_ok_def)
  moreover have "ch_attempts c + 1 \<in> {0..5}" if "c \<in> set (ac_challenges db)" "P c" for c
    using Attempt.prems Attempt.hyps [OF that(2)] that(1) by (auto simp: accounts_ok_def)
  ultimately show ?case using Attempt.prems
    by (auto simp: accounts_ok_def user_ids_def simp del: map_map)
next
  case (Touch db i ts)
  then show ?case by (simp only: accounts_ok_tokens touch_token_rows touch_token_frame)
next
  case (New_User now name role src avatar sub pw db uid db')
  then show ?case using insert_user_ok(1) by blast
next
  case (Edit_User f db uid)
  then show ?case by (intro change_accounts_ok) (auto simp: keeps_def factor_ok_def dest: user_factor_ok)
next
  case (Set_Role role db uid u now)
  then show ?case unfolding update_user_role_def
    by (intro change_accounts_ok) (auto simp: factor_ok_def dest: user_factor_ok)
next
  case (Sso_Refresh uid role avatar now db)
  then show ?case by (intro change_accounts_ok) (auto simp: factor_ok_def dest: user_factor_ok)
next
  case (Pending uid db u now secret)
  have "v = u" if "v \<in> set (ac_users db)" "us_id v = uid" for v
    using unique_user [OF Pending.prems that(1)] Pending.hyps(1) that(2) by simp
  with Pending show ?case unfolding set_totp_pending_def
    by (intro change_accounts_ok) (auto simp: factor_ok_def)
next
  case (Enable now uid secret step hashes db db')
  from change_if_True(1) [OF Enable.hyps [unfolded enable_totp_def]] Enable.prems show ?case
    by (auto simp: factor_ok_def intro!: change_accounts_ok dest: user_factor_ok)
next
  case (Disable now uid db)
  then show ?case unfolding disable_totp_def by (intro change_accounts_ok) (auto simp: factor_ok_def)
next
  case (Use_Step uid step db db')
  from change_if_True(1) [OF Use_Step.hyps [unfolded use_totp_step_def]] Use_Step.prems show ?case
    by (auto simp: factor_ok_def intro!: change_accounts_ok dest: user_factor_ok)
next
  case (Drop_User uid db u)
  then show ?case by (intro drop_user_ok)
qed (auto simp: accounts_ok_def user_ids_def distinct_map_filter)

lemma steps_ok: "steps sso db db' \<Longrightarrow> accounts_ok db \<Longrightarrow> accounts_ok db'"
  by (induction rule: rtranclp_induct) (auto intro: account_step_ok)


subsection \<open>The operations of the store are such steps\<close>

named_theorems account_ops \<open>operations of the store as sequences of steps\<close>

lemmas one_step = r_into_rtranclp [of "account_step sso" for sso]
lemmas then_steps = rtranclp_trans [of "account_step sso" for sso]

lemma delete_session_steps [account_ops]:
  "steps sso db (delete_session_hash h db)" "steps sso db (delete_session C token db)"
  "steps sso db (delete_sessions_for_user uid db)" "steps sso db (delete_mfa_challenge C token db)"
  "steps sso db (delete_mfa_challenges_for_user uid db)"
  unfolding delete_session_def delete_session_hash_def delete_sessions_for_user_def delete_mfa_challenge_def
    delete_mfa_challenges_for_user_def
  by (rule one_step, rule account_step.intros)+

lemma audit_steps [account_ops]: "steps sso db (audit now user action db)"
  using one_step [OF Settings [where sso = sso and db = db and a = "ac_audit (audit now user action db)"
      and b = "ac_setup_completed db" and c = "ac_settings db" and d = "ac_master_addr db"]]
  by (simp add: audit_def Let_def)

lemma save_settings_steps [account_ops]: "steps sso db (save_cp_settings c db)"
  using one_step [OF Settings [where sso = sso and db = db and a = "ac_audit db"
      and b = "ac_setup_completed db" and c = "Some c" and d = "cs_advertise_addr c"]]
  by (simp add: save_cp_settings_def)

lemma edit_steps [account_ops]:
  "steps sso db (update_user_password now uid pw db)" "steps sso db (snd (set_user_avatar now uid data db))"
  "steps sso db (set_recovery_codes now uid hashes db)"
  unfolding update_user_password_def set_user_avatar_def set_recovery_codes_def snd_conv
  by (rule one_step, rule Edit_User, simp add: keeps_def)+

lemma disable_steps [account_ops]: "steps sso db (disable_totp now uid db)"
  by (rule one_step, rule Disable)

lemma touch_steps [account_ops]: "steps sso db (touch_token_row i ts db)"
  by (rule one_step, rule Touch)

lemma get_session_steps [account_ops]: "steps sso db (snd (get_session C now token db))"
  by (auto simp: get_session_def Let_def intro: account_ops split: option.split)

lemma use_recovery_steps [account_ops]: "steps sso db (snd (use_recovery_code uid h db))"
  by (auto simp: use_recovery_code_def Let_def keeps_def intro!: one_step Edit_User split: option.split)

lemma unchanged_user: "(\<And>u. u \<in> set (ac_users db) \<Longrightarrow> us_id u = uid \<Longrightarrow> f u = u) \<Longrightarrow> change_user uid f db = db"
  by (simp add: change_user_def map_idI)

lemma change_if_False: "change_if uid P f db = (False, db') \<Longrightarrow> db' = db"
  by (auto simp: change_if_def list_ex_iff intro!: unchanged_user)

lemma use_step_steps [account_ops]: "steps sso db (snd (use_totp_step uid step db))"
proof (cases "use_totp_step uid step db")
  case (Pair ok db')
  then show ?thesis
    by (cases ok) (auto simp: use_totp_step_def dest: change_if_False
        intro: one_step Use_Step [unfolded use_totp_step_def])
qed

lemma enable_steps [account_ops]: "steps sso db (snd (enable_totp now uid secret step hashes db))"
proof (cases "enable_totp now uid secret step hashes db")
  case (Pair ok db')
  then show ?thesis
    by (cases ok) (auto simp: enable_totp_def dest: change_if_False
        intro: one_step Enable [unfolded enable_totp_def])
qed

lemma create_session_steps:
  assumes "uid \<in> user_ids db"
  shows "steps sso db (snd (create_session C token uid username role expires db))"
  using assms by (auto simp: create_session_def Let_def list_ex_iff intro!: one_step New_Session)

lemma create_challenge_steps:
  assumes "uid \<in> user_ids db"
  shows "steps sso db (snd (create_mfa_challenge C now token uid kind expires db))"
proof -
  let ?db = "db\<lparr>ac_challenges := filter (\<lambda>c. \<not> ch_expires_at c < now) (ac_challenges db)\<rparr>"
  have 1: "steps sso db ?db" by (rule one_step, rule Fewer_Challenges)
  have uid: "uid \<in> user_ids ?db" using assms by (simp add: user_ids_def)
  have "steps sso ?db (?db\<lparr>ac_challenges := ac_challenges ?db @ [\<lparr>ch_token = hash_secret C token, ch_user = uid,
      ch_kind = kind, ch_attempts = 0, ch_expires_at = expires\<rparr>]\<rparr>)"
    if "\<not> list_ex (\<lambda>c. ch_token c = hash_secret C token) (ac_challenges ?db)"
    using uid that by (intro one_step New_Challenge) (auto simp: list_ex_iff)
  from then_steps [OF 1 this] 1 show ?thesis
    by (simp add: create_mfa_challenge_def Let_def)
qed

lemma attempt_steps [account_ops]: "steps sso db (snd (mfa_challenge_attempt C now token 5 db))"
  unfolding mfa_challenge_attempt_def Let_def
  by (auto intro!: one_step Attempt account_ops)

lemma create_token_steps:
  assumes "tk_created_by_id t \<in> user_ids db"
  shows "steps sso db (snd (create_api_token_row C t token db))"
  using assms by (auto simp: create_api_token_row_def Let_def list_ex_iff intro!: one_step New_Token)

lemma delete_token_steps [account_ops]: "steps sso db (snd (delete_token_row i db))"
  by (auto simp: delete_token_row_def intro!: one_step Fewer_Tokens split: option.split)

lemma create_user_steps [account_ops]: "steps sso db (snd (create_local_user now username pw role db))"
proof (cases "create_local_user now username pw role db")
  case (Pair r db')
  then show ?thesis
  proof (cases r)
    case None
    with Pair show ?thesis
      by (simp add: create_local_user_def insert_user_def Let_def split: if_splits)
  qed (auto simp: create_local_user_def intro: one_step New_User)
qed

lemma upsert_steps: "steps True db (snd (upsert_oidc_user now sub username role avatar db))"
proof (cases "oidc_user_by_subject sub db")
  case None
  obtain r db' where i: "insert_user now (free_username username db) role ''oidc'' avatar sub [] db = (r, db')"
    by (rule prod.exhaust)
  have "steps True db db'"
  proof (cases r)
    case None
    with i show ?thesis by (simp add: insert_user_def Let_def split: if_splits)
  qed (use i in \<open>auto intro: one_step New_User\<close>)
  with None i show ?thesis by (simp add: upsert_oidc_user_def Let_def split: option.split)
next
  case (Some u)
  then show ?thesis by (auto simp: upsert_oidc_user_def Let_def intro!: one_step Sso_Refresh)
qed

lemma complete_setup_steps: "steps sso db (snd (complete_setup now p db))"
proof -
  have set': "steps sso db (db\<lparr>ac_setup_completed := b\<rparr>)" for b db
    using one_step [OF Settings [where sso = sso and db = db and a = "ac_audit db"
      and b = "b" and c = "ac_settings db" and d = "ac_master_addr db"]] by simp
  have cfg: "steps sso db (db\<lparr>ac_settings := c\<rparr>)" for c db
    using one_step [OF Settings [where sso = sso and db = db and a = "ac_audit db"
      and b = "ac_setup_completed db" and c = "c" and d = "ac_master_addr db"]] by simp
  have ins: "steps sso db (snd (insert_user now name role ''local'' [] [] pw db))" for db name role pw
    using create_user_steps [of sso db now name pw role] by (simp add: create_local_user_def)
  show ?thesis
    by (auto simp: complete_setup_def Let_def intro!: set'
        intro: then_steps [OF set' ins] then_steps [OF then_steps [OF set' ins] cfg] then_steps [OF set' cfg]
        split: option.split)
qed


subsection \<open>Every call is a sequence of such steps\<close>

lemma snd_steps:
  "\<lbrakk>get_session C now token db = (x, db'); accounts_ok db\<rbrakk> \<Longrightarrow> steps sso db db'"
  "\<lbrakk>use_totp_step uid step db = (y, db'); accounts_ok db\<rbrakk> \<Longrightarrow> steps sso db db'"
  using get_session_steps [of sso db C now token] use_step_steps [of sso db uid step] by simp_all

lemma user_from_request_steps:
  assumes "user_from_request A now r s = (p, s')"
  shows "steps sso (sv_db s) (sv_db s')" and "ac_users (sv_db s') = ac_users (sv_db s)"
    and "sv_setup_done s' = sv_setup_done s" and "ac_challenges (sv_db s') = ac_challenges (sv_db s)"
proof -
  have touch: "steps sso (sv_db s) (sv_db (touch_api_token now t s))
      \<and> ac_users (sv_db (touch_api_token now t s)) = ac_users (sv_db s)
      \<and> sv_setup_done (touch_api_token now t s) = sv_setup_done s
      \<and> ac_challenges (sv_db (touch_api_token now t s)) = ac_challenges (sv_db s)" for t
    by (auto simp: touch_api_token_def Let_def intro: account_ops)
  have session: "steps sso db db' \<and> ac_users db' = ac_users db \<and> ac_challenges db' = ac_challenges db"
    if "get_session C t k db = (q, db')" for C t k db q db'
    using that by (auto simp: get_session_def Let_def delete_session_hash_def intro: one_step Fewer_Sessions
        split: option.splits if_splits)
  have "steps sso (sv_db s) (sv_db s') \<and> ac_users (sv_db s') = ac_users (sv_db s)
      \<and> sv_setup_done s' = sv_setup_done s \<and> ac_challenges (sv_db s') = ac_challenges (sv_db s)"
    using assms touch session
    by (auto simp: user_from_request_def user_from_api_token_def Let_def split: option.splits prod.splits)
  then show "steps sso (sv_db s) (sv_db s')" and "ac_users (sv_db s') = ac_users (sv_db s)"
    and "sv_setup_done s' = sv_setup_done s" and "ac_challenges (sv_db s') = ac_challenges (sv_db s)" by simp_all
qed

lemma session_principal:
  assumes "user_from_request A now r s = (Some p, s')" "su_kind p = Kind_Session" "accounts_ok (sv_db s)"
  shows "su_id p \<in> user_ids (sv_db s)"
proof -
  obtain sn db ck where "get_session (au_crypto A) (unix now) ck (sv_db s) = (Some sn, db)" "su_id p = sn_user sn"
    using assms(1,2) by (auto simp: user_from_request_def user_from_api_token_def Let_def
        split: option.splits prod.splits)
  then have "sn \<in> set (ac_sessions (sv_db s))" "su_id p = sn_user sn"
    by (auto simp: get_session_def Let_def find_Some_iff split: option.splits if_splits)
  with assms(3) show ?thesis by (auto simp: accounts_ok_def)
qed

lemma start_session_steps:
  assumes "start_session A now random uid username role s = (x, s')" "uid \<in> user_ids (sv_db s)"
  shows "steps sso (sv_db s) (sv_db s')"
  using assms create_session_steps [OF assms(2), of sso "au_crypto A" "new_token random" username role "unix (now + sv_ttl s)"]
  by (auto simp: start_session_def Let_def split: prod.splits bool.splits)

lemma sign_in_steps:
  assumes "sign_in A now random u s = (reply, s')" "us_id u \<in> user_ids (sv_db s)"
  shows "steps sso (sv_db s) (sv_db s')"
  using assms start_session_steps by (fastforce simp: sign_in_def split: prod.splits option.splits)

lemma login_needs_mfa_steps:
  assumes "login_needs_mfa A now random u s = (x, s')" "us_id u \<in> user_ids (sv_db s)"
  shows "steps sso (sv_db s) (sv_db s')" and "x = None \<Longrightarrow> s' = s"
proof -
  show "x = None \<Longrightarrow> s' = s"
    using assms(1) by (auto simp: login_needs_mfa_def Let_def split: prod.splits if_splits)
  show "steps sso (sv_db s) (sv_db s')"
    using assms create_challenge_steps [OF assms(2), of sso "au_crypto A" "unix now" "new_token random" _ "unix (now + mfa_ttl)"]
    by (auto simp: login_needs_mfa_def Let_def split: prod.splits if_splits dest!: sym [of _ "create_mfa_challenge _ _ _ _ _ _ _"]) (metis snd_conv)+
qed

lemma login_allowed_db: "login_allowed now r username s = (ok, s') \<Longrightarrow> sv_db s' = sv_db s \<and> sv_setup_done s' = sv_setup_done s"
  by (auto simp: login_allowed_def Let_def split: prod.splits bool.splits if_splits)

lemma check_password_Some:
  "check_password A username password db = Some u \<Longrightarrow> u \<in> set (ac_users db) \<and> us_username u = username"
  by (auto simp: check_password_def split: option.splits if_splits dest: user_by_name_Some)

lemma cookie_of [simp]: "rp_cookie (refused n) = None" "rp_cookie (answered n body) = None"
  by (simp_all add: refused_def answered_def)

lemma login_cases:
  assumes "login A now random random' r body s = (reply, s')"
  obtains (Nothing) "sv_db s' = sv_db s" "sv_setup_done s' = sv_setup_done s" "rp_cookie reply = None"
  | (Challenge) username password u s1 where "sv_db s1 = sv_db s" "sv_setup_done s1 = sv_setup_done s"
      "check_password A username password (sv_db s) = Some u" "login_needs_mfa A now random u s1 = (Some reply, s')"
  | (Session) username password u s1 where "sv_db s1 = sv_db s" "sv_setup_done s1 = sv_setup_done s"
      "check_password A username password (sv_db s) = Some u" "login_needs_mfa A now random u s1 = (None, s1)"
      "sign_in A now random' u s1 = (reply, s')"
proof (cases "\<not> au_enabled A \<or> password_login_disabled s \<or> body = None")
  case True
  then have "reply = answered 200 No_Body \<or> reply = refused 403 \<or> reply = refused 400" "s' = s"
    using assms by (auto simp: login_def split: if_splits option.splits)
  then show ?thesis by (intro Nothing) auto
next
  case False
  then obtain username password where on: "au_enabled A" "\<not> password_login_disabled s"
    and body: "body = Some (username, password)" by auto
  obtain ok s1 where la: "login_allowed now r username s = (ok, s1)" by (rule prod.exhaust)
  note db = login_allowed_db [OF la]
  show ?thesis
  proof (cases "ok \<and> check_password A username password (sv_db s) \<noteq> None")
    case True
    then obtain u where u: "check_password A username password (sv_db s) = Some u" by auto
    obtain x s2 where m: "login_needs_mfa A now random u s1 = (x, s2)" by (rule prod.exhaust)
    show ?thesis
    proof (cases x)
      case None
      have "s2 = s1" using m None by (auto simp: login_needs_mfa_def Let_def split: prod.splits if_splits)
      then show ?thesis using assms True on body la u m None db
        by (intro Session [of s1 username password u]) (simp_all add: login_def)
    next
      case (Some a)
      then show ?thesis using assms True on body la u m db
        by (intro Challenge [of s1 username password u]) (simp_all add: login_def)
    qed
  next
    case False
    then show ?thesis using assms on body la db by (intro Nothing) (auto simp: login_def split: bool.splits)
  qed
qed

lemma login_steps:
  assumes "login A now random random' r body s = (reply, s')"
  shows "steps sso (sv_db s) (sv_db s')"
  using assms
proof (cases rule: login_cases)
  case (Challenge username password u s1)
  then show ?thesis using login_needs_mfa_steps(1) check_password_Some user_ids_mem by metis
next
  case (Session username password u s1)
  then show ?thesis using sign_in_steps check_password_Some user_ids_mem by metis
qed simp


lemma attempt_users [simp]:
  "ac_users (snd (mfa_challenge_attempt C now token n db)) = ac_users db"
  by (simp add: mfa_challenge_attempt_def Let_def delete_mfa_challenge_def)

lemma challenge_user_steps:
  assumes "challenge_user A now token kind s = (x, s')"
  shows "steps sso (sv_db s) (sv_db s')" and "ac_users (sv_db s') = ac_users (sv_db s)"
    and "sv_setup_done s' = sv_setup_done s"
    and "x = Some (u, c) \<Longrightarrow> u \<in> set (ac_users (sv_db s)) \<and> us_source u = ''local'' \<and> us_id u = ch_user c
      \<and> user_by_id (us_id u) (sv_db s') = Some u \<and> ch_kind c = kind"
proof -
  obtain y db where a: "mfa_challenge_attempt (au_crypto A) (unix now) token mfa_max_attempts (sv_db s) = (y, db)"
    by (rule prod.exhaust)
  have st: "steps sso (sv_db s) db" and us: "ac_users db = ac_users (sv_db s)"
    using attempt_steps [of sso "sv_db s" "au_crypto A" "unix now" token]
      attempt_users [of "au_crypto A" "unix now" token mfa_max_attempts "sv_db s"]
    by (simp_all add: a mfa_max_attempts_def [symmetric])
  have del: "steps sso (sv_db s) (delete_mfa_challenge (au_crypto A) token db)"
    by (rule then_steps [OF st delete_session_steps(4)])
  have du: "ac_users (delete_mfa_challenge (au_crypto A) token db) = ac_users (sv_db s)"
    by (simp add: delete_mfa_challenge_def us)
  show "steps sso (sv_db s) (sv_db s')" "ac_users (sv_db s') = ac_users (sv_db s)" "sv_setup_done s' = sv_setup_done s"
    using assms st us del du by (auto simp: challenge_user_def a split: option.splits if_splits)
  show "x = Some (u, c) \<Longrightarrow> u \<in> set (ac_users (sv_db s)) \<and> us_source u = ''local'' \<and> us_id u = ch_user c
      \<and> user_by_id (us_id u) (sv_db s') = Some u \<and> ch_kind c = kind"
    using assms us user_by_id_Some [of "ch_user c" db u]
    by (auto simp: challenge_user_def a split: option.splits if_splits)
qed

lemma change_if_ids:
  assumes "\<And>u. us_id (f u) = us_id u" "change_if uid P f db = (ok, db')"
  shows "user_ids db' = user_ids db"
proof -
  have "db' = change_user uid (\<lambda>u. if P u then f u else u) db" using assms(2) by (simp add: change_if_def)
  then show ?thesis using assms(1) by (simp add: change_user_ids)
qed

lemma check_code_steps:
  assumes "check_code A now uid code rec db = (x, db')"
  shows "steps sso db db'" and "user_ids db' = user_ids db"
proof -
  have "steps sso db db' \<and> user_ids db' = user_ids db"
    if "use_totp_step uid step db = (y, db')" for step y
    using that use_step_steps [of sso db uid step]
    by (auto simp: use_totp_step_def dest: change_if_ids [rotated])
  moreover have "user_ids (snd (use_recovery_code uid h db)) = user_ids db" for h
    by (auto simp: use_recovery_code_def Let_def change_user_ids split: option.split)
  then have "steps sso db db' \<and> user_ids db' = user_ids db" if "use_recovery_code uid h db = (y, db')" for h y
    using that use_recovery_steps [of sso db uid h] by (metis snd_conv)
  ultimately have "steps sso db db' \<and> user_ids db' = user_ids db"
    using assms by (auto simp: check_code_def split: option.splits if_splits prod.splits)
  then show "steps sso db db'" and "user_ids db' = user_ids db" by simp_all
qed

lemma allow_code_guess_db:
  "allow_code_guess now uid s = (ok, s') \<Longrightarrow> sv_db s' = sv_db s \<and> sv_setup_done s' = sv_setup_done s"
  by (auto simp: allow_code_guess_def split: prod.splits)

lemma audit_users [simp]: "ac_users (audit now user action db) = ac_users db" "user_ids (audit now user action db) = user_ids db"
  by (simp_all add: audit_def Let_def user_ids_def)

lemma delete_challenge_users [simp]:
  "ac_users (delete_mfa_challenge C token db) = ac_users db"
  "user_ids (delete_mfa_challenge C token db) = user_ids db"
  by (simp_all add: delete_mfa_challenge_def user_ids_def)

text \<open>How a code that completes a sign-in gets there.\<close>

lemma mfa_verify_cases:
  assumes "mfa_verify A now random challenge code s = (reply, s')"
  obtains (Refused) "steps sso (sv_db s) (sv_db s')" "sv_setup_done s' = sv_setup_done s" "rp_cookie reply = None"
  | (Accepted) u c s1 s2 left db s3 where
      "challenge_user A now challenge ''verify'' s = (Some (u, c), s1)" "sv_db (s2 :: auth_server) = sv_db s1"
      "sv_setup_done s3 = sv_setup_done s"
      "check_code A now (us_id u) code True (sv_db s2) = ((True, left), db)"
      "steps sso db (sv_db s3)" "ac_users (sv_db s3) = ac_users db" "user_ids (sv_db s3) = user_ids (sv_db s)"
      "sign_in A now random u s3 = (reply, s')"
proof -
  obtain x s1 where cu: "challenge_user A now challenge ''verify'' s = (x, s1)" by (rule prod.exhaust)
  note cs = challenge_user_steps(1) [OF cu, of sso] challenge_user_steps(2,3) [OF cu]
  show thesis
  proof (cases x)
    case None
    then show ?thesis using assms cu cs by (intro Refused) (auto simp: mfa_verify_def)
  next
    case (Some uc)
    obtain u c where uc: "uc = (u, c)" by (rule prod.exhaust)
    obtain ok s2 where ag: "allow_code_guess now (us_id u) s1 = (ok, s2)" by (rule prod.exhaust)
    note g = allow_code_guess_db [OF ag]
    obtain good left db where cc: "check_code A now (us_id u) code True (sv_db s2) = ((good, left), db)"
      by (metis surj_pair)
    note ck = check_code_steps(1) [OF cc, of sso] check_code_steps(2) [OF cc]
    show ?thesis
    proof (cases "ok \<and> good")
      case False
      have "steps sso (sv_db s) db" using then_steps [OF cs(1)] ck(1) g by simp
      with False show ?thesis using assms cu cs Some uc ag cc g
        by (intro Refused) (auto simp: mfa_verify_def split: bool.splits)
    next
      case True
      define db3 where "db3 = delete_mfa_challenge (au_crypto A) challenge db"
      define db4 where "db4 = (if left \<ge> 0 then audit (unix now) (us_username u) ''auth.mfa.recovery_code'' db3 else db3)"
      have "steps sso db db4"
        using then_steps [OF delete_session_steps(4) audit_steps, of sso] delete_session_steps(4)
        by (simp add: db4_def db3_def)
      moreover have "ac_users db4 = ac_users db" by (simp add: db4_def db3_def)
      moreover have "user_ids db4 = user_ids (sv_db s)"
        using ck(2) g user_ids_cong [OF cs(2)] by (simp add: db4_def db3_def)
      moreover have "sign_in A now random u (s2\<lparr>sv_db := db4\<rparr>) = (reply, s')"
        using assms cu Some uc ag cc True unfolding db4_def db3_def
        by (simp add: mfa_verify_def Let_def split del: if_split)
      moreover have "challenge_user A now challenge ''verify'' s = (Some (u, c), s1)"
        using cu Some uc by simp
      moreover have "check_code A now (us_id u) code True (sv_db s2) = ((True, left), db)"
        using cc True by simp
      moreover have "sv_db s2 = sv_db s1" "sv_setup_done (s2\<lparr>sv_db := db4\<rparr>) = sv_setup_done s"
        using g cs(3) by simp_all
      ultimately show ?thesis
        by (intro Accepted [of u c s1 s2 "s2\<lparr>sv_db := db4\<rparr>" left db]) simp_all
    qed
  qed
qed

lemma mfa_verify_steps:
  assumes "mfa_verify A now random challenge code s = (reply, s')"
  shows "steps sso (sv_db s) (sv_db s')"
  using assms
proof (cases rule: mfa_verify_cases [where sso = sso])
  case (Accepted u c s1 s2 left db s3)
  note cu = challenge_user_steps [OF Accepted(1)]
  have "us_id u \<in> user_ids (sv_db s3)" using cu(4) Accepted(7) by (metis user_ids_mem)
  then have "steps sso (sv_db s3) (sv_db s')" by (rule sign_in_steps [OF Accepted(8)])
  then show ?thesis
    using then_steps [OF cu(1) [of sso]] check_code_steps(1) [OF Accepted(4), of sso] Accepted(2,5)
    by (metis then_steps)
qed


lemma user_by_id_again: "user_by_id uid db = Some u \<Longrightarrow> user_by_id (us_id u) db = Some u"
  using user_by_id_Some by fastforce

lemma mfa_account_steps:
  assumes "mfa_account A now r challenge spend s = (x, s')"
  shows "steps sso (sv_db s) (sv_db s')" and "ac_users (sv_db s') = ac_users (sv_db s)"
    and "sv_setup_done s' = sv_setup_done s"
    and "x = Inr (u, c) \<Longrightarrow> us_source u = ''local'' \<and> user_by_id (us_id u) (sv_db s') = Some u
      \<and> (c = None \<longleftrightarrow> challenge = [])"
proof -
  have "steps sso (sv_db s) (sv_db s') \<and> ac_users (sv_db s') = ac_users (sv_db s) \<and> sv_setup_done s' = sv_setup_done s
    \<and> (\<forall>u c. x = Inr (u, c) \<longrightarrow> us_source u = ''local'' \<and> user_by_id (us_id u) (sv_db s') = Some u
      \<and> (c = None \<longleftrightarrow> challenge = []))"
  proof (cases "challenge = []")
    case True
    obtain p s1 where p: "user_from_request A now r s = (p, s1)" by (rule prod.exhaust)
    note pr = user_from_request_steps(1) [OF p, of sso] user_from_request_steps(2,3) [OF p]
    show ?thesis
      using assms True pr
      by (auto simp: mfa_account_def p split: option.splits if_splits intro: user_by_id_again)
  next
    case False
    obtain y s1 where cu: "challenge_user A now challenge ''setup'' s = (y, s1)" by (rule prod.exhaust)
    note cs = challenge_user_steps(1) [OF cu, of sso] challenge_user_steps(2,3) [OF cu]
      challenge_user_steps(4) [OF cu]
    show ?thesis
    proof (cases spend)
      case True
      show ?thesis
      proof (cases y)
        case None
        then show ?thesis using assms True False cu cs(1-3) by (auto simp: mfa_account_def)
      next
        case (Some uc)
        then show ?thesis using assms True False cu cs(1-3) cs(4) [of "fst uc" "snd uc"]
          by (cases uc) (auto simp: mfa_account_def)
      qed
    next
      case no_spend: False
      show ?thesis using assms False no_spend
        by (auto simp: mfa_account_def split: option.splits if_splits intro: user_by_id_again)
    qed
  qed
  then show "steps sso (sv_db s) (sv_db s')" "ac_users (sv_db s') = ac_users (sv_db s)" "sv_setup_done s' = sv_setup_done s"
    and "x = Inr (u, c) \<Longrightarrow> us_source u = ''local'' \<and> user_by_id (us_id u) (sv_db s') = Some u
      \<and> (c = None \<longleftrightarrow> challenge = [])" by blast+
qed

lemma allow_code_check_steps:
  assumes "allow_code_check A now r s = (ok, s')"
  shows "steps sso (sv_db s) (sv_db s')" and "ac_users (sv_db s') = ac_users (sv_db s)"
    and "sv_setup_done s' = sv_setup_done s"
proof -
  obtain p s1 where p: "user_from_request A now r s = (p, s1)" by (rule prod.exhaust)
  have "sv_db s' = sv_db s1 \<and> sv_setup_done s' = sv_setup_done s1"
    using assms p by (auto simp: allow_code_check_def split: option.splits dest: allow_code_guess_db)
  with user_from_request_steps(1) [OF p, of sso] user_from_request_steps(2,3) [OF p]
  show "steps sso (sv_db s) (sv_db s')" and "ac_users (sv_db s') = ac_users (sv_db s)"
    and "sv_setup_done s' = sv_setup_done s" by simp_all
qed

lemma mfa_setup_steps:
  assumes "mfa_setup A now random r challenge s = (reply, s')"
  shows "steps sso (sv_db s) (sv_db s')" and "sv_setup_done s' = sv_setup_done s" and "rp_cookie reply = None"
proof -
  obtain x s1 where m: "mfa_account A now r challenge False s = (x, s1)" by (rule prod.exhaust)
  note ma = mfa_account_steps(1) [OF m, of sso] mfa_account_steps(2,3) [OF m]
  have "steps sso (sv_db s) (sv_db s') \<and> sv_setup_done s' = sv_setup_done s \<and> rp_cookie reply = None"
  proof (cases x)
    case (Inl code)
    then show ?thesis using assms m ma by (auto simp: mfa_setup_def)
  next
    case (Inr uc)
    obtain u c where uc: "uc = (u, c)" by (rule prod.exhaust)
    have u: "us_source u = ''local''" "user_by_id (us_id u) (sv_db s1) = Some u"
      using mfa_account_steps(4) [OF m, of u c] Inr uc by simp_all
    show ?thesis
    proof (cases "mfa_enabled (us_id u) (sv_db s1)")
      case True
      then show ?thesis using assms m ma Inr uc by (auto simp: mfa_setup_def)
    next
      case False
      then have "us_totp_secret u = []" using u(2) by (simp add: mfa_enabled_def)
      then have "steps sso (sv_db s1) (set_totp_pending (unix now) (us_id u) (new_totp_secret random) (sv_db s1))"
        using u by (intro one_step Pending)
      then show ?thesis using assms m ma Inr uc False then_steps [OF ma(1)]
        by (auto simp: mfa_setup_def Let_def on_db_def)
    qed
  qed
  then show "steps sso (sv_db s) (sv_db s')" and "sv_setup_done s' = sv_setup_done s" and "rp_cookie reply = None"
    by simp_all
qed


lemma user_by_id_cong: "ac_users db = ac_users db' \<Longrightarrow> user_by_id uid db = user_by_id uid db'"
  by (simp add: user_by_id_def)

lemma start_session_None: "start_session A now random uid name role s = (None, s') \<Longrightarrow> s' = s"
  by (auto simp: start_session_def Let_def split: prod.splits bool.splits)

lemma mfa_confirm_cases:
  assumes "mfa_confirm A now randoms random challenge code u c s = (reply, s')"
    and mine: "user_by_id (us_id u) (sv_db s) = Some u"
  obtains (No_Session) "steps sso (sv_db s) (sv_db s')" "sv_setup_done s' = sv_setup_done s" "rp_cookie reply = None"
  | (Enrolled) s3 token p where "us_totp_pending u \<noteq> []"
      "steps sso (sv_db s) (sv_db s3)" "sv_setup_done s3 = sv_setup_done s" "us_id (u :: user_row) \<in> user_ids (sv_db s3)"
      "start_session A now random (us_id u) (us_username u) (us_role u) s3 = (Some (token, p), s')"
      "rp_cookie reply = Some token"
proof (cases "us_totp_pending u \<noteq> [] \<and> verify_totp (au_crypto A) (us_totp_pending u) code now \<noteq> None")
  case False
  then show ?thesis using assms
    by (intro No_Session) (auto simp: mfa_confirm_def split: if_splits option.splits)
next
  case True
  then obtain step where step: "verify_totp (au_crypto A) (us_totp_pending u) code now = Some step" by auto
  obtain codes hashes where rc: "new_recovery_codes (au_crypto A) randoms = (codes, hashes)" by (rule prod.exhaust)
  obtain ok db where e: "enable_totp (unix now) (us_id u) (us_totp_pending u) step hashes (sv_db s) = (ok, db)"
    by (rule prod.exhaust)
  have db: "steps sso (sv_db s) db" "user_ids db = user_ids (sv_db s)"
    using enable_steps [of sso "sv_db s" "unix now" "us_id u" "us_totp_pending u" step hashes] e
      change_if_ids [OF _ e [unfolded enable_totp_def]] by simp_all
  define s4 where "s4 = s\<lparr>sv_db := audit (unix now) (us_username u) ''auth.mfa.enabled'' db\<rparr>"
  define s5 where "s5 = on_db (delete_mfa_challenge (au_crypto A) challenge) s4"
  have s4: "steps sso (sv_db s) (sv_db s4)" "sv_setup_done s4 = sv_setup_done s"
    using then_steps [OF db(1) audit_steps] by (simp_all add: s4_def)
  have s5: "steps sso (sv_db s) (sv_db s5)" "sv_setup_done s5 = sv_setup_done s" "us_id u \<in> user_ids (sv_db s5)"
    using then_steps [OF s4(1) delete_session_steps(4)] s4(2) db(2) user_by_id_Some [OF mine]
    by (simp_all add: s5_def on_db_def s4_def)
  have en: "mfa_confirm A now randoms random challenge code u c s =
      (if \<not> ok then (refused 409, s\<lparr>sv_db := db\<rparr>)
       else if c = None then (answered 200 (Codes_Body codes None), s4)
       else case start_session A now random (us_id u) (us_username u) (us_role u) s5 of
          (None, s) \<Rightarrow> (refused 500, s)
        | (Some (token, p), s) \<Rightarrow>
            (\<lparr>rp_status = 200, rp_cookie = Some token, rp_body = Codes_Body codes (Some p)\<rparr>, s))"
    using True
    by (cases ok) (simp_all add: mfa_confirm_def mine step rc e s4_def [symmetric] s5_def [symmetric] Let_def)
  obtain y s6 where ss: "start_session A now random (us_id u) (us_username u) (us_role u) s5 = (y, s6)"
    by (rule prod.exhaust)
  show ?thesis
  proof (cases "ok \<and> c \<noteq> None \<and> y \<noteq> None")
    case False
    then show ?thesis using assms(1) en ss db s4 s5 start_session_None [of A now random "us_id u" "us_username u" "us_role u" s5 s6]
      by (cases y; intro No_Session) (auto split: if_splits)
  next
    case yes: True
    then obtain token p where "y = Some (token, p)" by auto
    then show ?thesis using assms(1) en ss yes True s5 by (intro Enrolled [of s5 token p]) auto
  qed
qed

lemma mfa_enable_cases:
  assumes "mfa_enable A now randoms random r challenge code s = (reply, s')"
  obtains (No_Session) "steps sso (sv_db s) (sv_db s')" "sv_setup_done s' = sv_setup_done s" "rp_cookie reply = None"
  | (Enrolled) u s3 token p where "user_by_id (us_id u) (sv_db s) = Some u" "us_totp_pending u \<noteq> []"
      "steps sso (sv_db s) (sv_db s3)" "sv_setup_done s3 = sv_setup_done s" "us_id (u :: user_row) \<in> user_ids (sv_db s3)"
      "start_session A now random (us_id u) (us_username u) (us_role u) s3 = (Some (token, p), s')"
      "rp_cookie reply = Some token"
proof -
  obtain checked s1 where ch: "(if challenge = [] then allow_code_check A now r s else (True, s)) = (checked, s1)"
    by (rule prod.exhaust)
  have s1: "steps sso (sv_db s) (sv_db s1)" "ac_users (sv_db s1) = ac_users (sv_db s)" "sv_setup_done s1 = sv_setup_done s"
    using ch allow_code_check_steps(1) [of A now r s checked s1 sso] allow_code_check_steps(2,3) [of A now r s checked s1]
    by (auto split: if_splits)
  obtain x s2 where m: "mfa_account A now r challenge True s1 = (x, s2)" by (rule prod.exhaust)
  have s2: "steps sso (sv_db s) (sv_db s2)" "ac_users (sv_db s2) = ac_users (sv_db s)" "sv_setup_done s2 = sv_setup_done s"
    using then_steps [OF s1(1) mfa_account_steps(1) [OF m]] mfa_account_steps(2,3) [OF m] s1 by simp_all
  have unfold: "mfa_enable A now randoms random r challenge code s =
      (if \<not> checked then (refused 429, s1)
       else case (x, s2) of
         (Inl status, s) \<Rightarrow> (refused status, s)
       | (Inr (u, c), s) \<Rightarrow>
           let (guess, s) = (if c \<noteq> None then allow_code_guess now (us_id u) s else (True, s)) in
           if \<not> guess then (refused 429, s)
           else mfa_confirm A now randoms random challenge code u c s)"
    unfolding mfa_enable_def ch Let_def prod.case m ..
  show thesis
  proof (cases "checked \<and> (\<exists>u c. x = Inr (u, c))")
    case False
    then have "reply = refused 429 \<and> s' = s1 \<or> (\<exists>status. reply = refused status \<and> s' = s2)"
      using assms unfold by (cases x) (auto split: if_splits)
    then show ?thesis using s1 s2 by (intro No_Session) auto
  next
    case True
    then obtain u c where x: "x = Inr (u, c)" and "checked" by auto
    obtain guess s3 where g: "(if c \<noteq> None then allow_code_guess now (us_id u) s2 else (True, s2)) = (guess, s3)"
      by (rule prod.exhaust)
    have s3: "sv_db s3 = sv_db s2" "sv_setup_done s3 = sv_setup_done s"
      using g s2(3) by (auto split: if_splits dest: allow_code_guess_db)
    have mine: "user_by_id (us_id u) (sv_db s) = Some u" "user_by_id (us_id u) (sv_db s3) = Some u"
      using mfa_account_steps(4) [OF m x] user_by_id_cong [OF s2(2)] s3(1) by simp_all
    have result: "(if \<not> guess then (refused 429, s3) else mfa_confirm A now randoms random challenge code u c s3) = (reply, s')"
      using assms \<open>checked\<close> unfolding unfold x sum.case prod.case g Let_def by simp
    show ?thesis
    proof (cases guess)
      case False
      then show ?thesis using result s2(1) s3 by (intro No_Session) auto
    next
      case True
      then have confirm: "mfa_confirm A now randoms random challenge code u c s3 = (reply, s')" using result by simp
      show ?thesis
        using confirm mine(2)
      proof (cases rule: mfa_confirm_cases [where sso = sso])
        case No_Session
        then show ?thesis using then_steps [OF s2(1)] s3 by (intro that(1)) simp_all
      next
        case (Enrolled s4 token p)
        then show ?thesis using then_steps [OF s2(1)] s3 mine(1) by (intro that(2) [of u s4 token p]) simp_all
      qed
    qed
  qed
qed


text \<open>Calls that start no session and leave the setup gate alone.\<close>

definition quiet :: "bool \<Rightarrow> auth_server \<Rightarrow> auth_reply \<times> auth_server \<Rightarrow> bool" where
  "quiet sso s res \<longleftrightarrow> steps sso (sv_db s) (sv_db (snd res)) \<and> sv_setup_done (snd res) = sv_setup_done s
     \<and> rp_cookie (fst res) = None"

lemma quiet_refused [simp]: "quiet sso s (refused code, s)"
  by (simp add: quiet_def)

lemma quiet_db: "steps sso (sv_db s) db \<Longrightarrow> rp_cookie reply = None \<Longrightarrow> quiet sso s (reply, s\<lparr>sv_db := db\<rparr>)"
  by (simp add: quiet_def)

lemma quiet_on_db: "steps sso (sv_db s) (f (sv_db s)) \<Longrightarrow> rp_cookie reply = None \<Longrightarrow> quiet sso s (reply, on_db f s)"
  by (simp add: quiet_def on_db_def)

lemma quiet_after:
  "steps sso (sv_db s) (sv_db s1) \<Longrightarrow> sv_setup_done s1 = sv_setup_done s \<Longrightarrow> quiet sso s1 res \<Longrightarrow> quiet sso s res"
  by (auto simp: quiet_def intro: then_steps)

lemma set_user_role_quiet: "quiet sso s (set_user_role now i role s)"
proof -
  have "steps sso (sv_db s) (delete_sessions_for_user uid (update_user_role (unix now) uid role (sv_db s)))"
    if "user_by_id uid (sv_db s) = Some u" "\<not> (us_role u = ''admin'' \<and> role \<noteq> ''admin'' \<and> last_admin (sv_db s))" for uid u
    using that by (intro then_steps [OF one_step delete_session_steps(3)] Set_Role) (auto simp: last_admin_def)
  then show ?thesis
    by (auto simp: set_user_role_def intro!: quiet_on_db split: option.split)
qed

lemma reset_user_password_quiet: "quiet sso s (reset_user_password A now salt i password s)"
  by (auto simp: reset_user_password_def intro!: quiet_on_db then_steps [OF edit_steps(1) delete_session_steps(3)]
      split: option.split)

lemma reset_user_mfa_quiet: "quiet sso s (reset_user_mfa now i p s)"
  by (auto simp: reset_user_mfa_def intro!: quiet_on_db then_steps [OF _ audit_steps]
      then_steps [OF _ delete_session_steps(3)] then_steps [OF disable_steps delete_session_steps(5)] split: option.split)

lemma create_user_quiet: "quiet sso s (create_user A now salt username password role s)"
proof -
  have "quiet sso s (case create_local_user t n h ro (sv_db s) of (None, db) \<Rightarrow> (refused 409, s\<lparr>sv_db := db\<rparr>)
      | (Some uid, db) \<Rightarrow> (answered 201 (Id_Body uid), s\<lparr>sv_db := db\<rparr>))" for t n h ro
    using create_user_steps [of sso "sv_db s" t n h ro] by (auto intro!: quiet_db split: prod.split option.split)
  then show ?thesis by (simp add: create_user_def Let_def)
qed

lemma change_password_quiet: "quiet sso s (change_password A now salt current new p s)"
  by (auto simp: change_password_def intro!: quiet_on_db edit_steps split: option.split)

lemma delete_api_token_quiet: "quiet sso s (delete_api_token now i p s)"
  using delete_token_steps [of sso "sv_db s" i]
  by (auto simp: delete_api_token_def intro!: quiet_db then_steps [OF _ audit_steps] split: prod.split option.split)

lemma metrics_token_quiet:
  "quiet sso s (generate_metrics_token A now random p s)" "quiet sso s (clear_metrics_token now p s)"
  by (auto simp: generate_metrics_token_def clear_metrics_token_def Let_def quiet_def on_db_def
      intro!: then_steps [OF save_settings_steps audit_steps])

lemma drop_user_steps:
  assumes "user_by_id uid db = Some u" "\<not> (us_role u = ''admin'' \<and> last_admin db)"
  shows "steps sso db (snd (delete_tokens_for_user uid (delete_mfa_challenges_for_user uid
    (delete_sessions_for_user uid (remove_user uid db)))))"
  using one_step [OF Drop_User [of uid db u sso]] assms
  by (auto simp: delete_tokens_for_user_def delete_mfa_challenges_for_user_def delete_sessions_for_user_def
      remove_user_def last_admin_def)

lemma delete_user_quiet: "quiet sso s (delete_user now i p s)"
proof -
  have "steps sso (sv_db s) (snd (delete_tokens_for_user uid (delete_mfa_challenges_for_user uid
      (delete_sessions_for_user uid (remove_user uid (sv_db s))))))"
    if "user_by_id uid (sv_db s) = Some u" "\<not> (us_role u = ''admin'' \<and> last_admin (sv_db s))" for uid u
    by (rule drop_user_steps [OF that])
  then show ?thesis
    by (auto simp: delete_user_def Let_def intro!: quiet_db then_steps [OF _ audit_steps]
        split: option.split prod.split) (metis snd_conv)+
qed

lemma rebuild_oidc_db: "rebuild_oidc reachable o' s = (ok, s') \<Longrightarrow> sv_db s' = sv_db s \<and> sv_setup_done s' = sv_setup_done s"
  by (auto simp: rebuild_oidc_def set_oidc_def split: if_splits option.splits)

lemma apply_settings_db [simp]:
  "sv_db (apply_cp_settings c s) = sv_db s" "sv_setup_done (apply_cp_settings c s) = sv_setup_done s"
  by (simp_all add: apply_cp_settings_def set_session_ttl_def)

lemma put_cp_settings_quiet: "quiet sso s (put_cp_settings now reachable new p s)"
proof -
  define c where "c = cleaned_settings (load_cp_settings cp_defaults (sv_db s)) new"
  define s1 where "s1 = apply_cp_settings c (on_db (save_cp_settings c) s)"
  have 1: "steps sso (sv_db s) (sv_db s1)" "sv_setup_done s1 = sv_setup_done s"
    by (simp_all add: s1_def on_db_def save_settings_steps)
  obtain ok s2 where r: "(if oidc_changed (cs_oidc (load_cp_settings cp_defaults (sv_db s))) (cs_oidc c)
      then rebuild_oidc reachable (cs_oidc c) s1 else (True, s1)) = (ok, s2)" by (rule prod.exhaust)
  then have 2: "sv_db s2 = sv_db s1" "sv_setup_done s2 = sv_setup_done s1"
    by (auto split: if_splits dest: rebuild_oidc_db)
  have "quiet sso s (refused 502, s2)" "quiet sso s (answered 200 No_Body, on_db (audit t u a) s2)" for t u a
    using 1 2 then_steps [OF 1(1) audit_steps] by (simp_all add: quiet_def on_db_def)
  then show ?thesis
    unfolding put_cp_settings_def Let_def c_def [symmetric] s1_def [symmetric] r by simp
qed

lemma create_api_token_quiet:
  assumes "\<And>u. p = Some u \<Longrightarrow> su_id u \<in> user_ids (sv_db s)"
  shows "quiet sso s (create_api_token A now random i name role expires p s)"
proof -
  have "quiet sso s (case create_api_token_row C t token (sv_db s) of
        (False, db) \<Rightarrow> (refused 500, s\<lparr>sv_db := db\<rparr>)
      | (True, db) \<Rightarrow> (answered 201 (Token_Body token), s\<lparr>sv_db := audit k u a db\<rparr>))"
    if "tk_created_by_id t \<in> user_ids (sv_db s)" for C t token k u a
    using create_token_steps [OF that, of sso C token]
    by (auto intro!: quiet_db then_steps [OF _ audit_steps] split: prod.split bool.split)
  then show ?thesis
    using assms by (auto simp: create_api_token_def Let_def split: option.split)
qed


text \<open>The two calls of a signed-in user that check a code begin alike.\<close>

lemma own_factor_quiet:
  assumes "\<And>u c s1. user_by_id (us_id u) (sv_db s1) = Some u \<Longrightarrow> quiet sso s1 (h u c s1)"
  shows "quiet sso s (case allow_code_check A now r s of (False, s) \<Rightarrow> (refused 429, s)
    | (True, s) \<Rightarrow> (case mfa_account A now r [] False s of (Inl status, s) \<Rightarrow> (refused status, s)
      | (Inr (u, c), s) \<Rightarrow> h u c s))"
proof -
  obtain ok s1 where ac: "allow_code_check A now r s = (ok, s1)" by (rule prod.exhaust)
  have s1: "steps sso (sv_db s) (sv_db s1)" "sv_setup_done s1 = sv_setup_done s"
    using allow_code_check_steps(1,3) [OF ac] by simp_all
  obtain x s2 where m: "mfa_account A now r [] False s1 = (x, s2)" by (rule prod.exhaust)
  have s2: "steps sso (sv_db s) (sv_db s2)" "sv_setup_done s2 = sv_setup_done s"
    using then_steps [OF s1(1) mfa_account_steps(1) [OF m]] mfa_account_steps(3) [OF m] s1 by simp_all
  show ?thesis
  proof (cases x)
    case (Inl status)
    then show ?thesis using ac m s1 s2 by (cases ok) (auto intro: quiet_after)
  next
    case (Inr uc)
    then show ?thesis using ac m s1 s2 mfa_account_steps(4) [OF m, of "fst uc" "snd uc"]
      by (cases ok; cases uc) (auto intro: quiet_after assms)
  qed
qed

lemma mfa_disable_quiet: "quiet sso s (mfa_disable A now r password code s)"
  unfolding mfa_disable_def
proof (rule own_factor_quiet)
  fix u c and s1 :: auth_server
  obtain x db where cc: "check_code A now (us_id u) code True (sv_db s1) = (x, db)" by (rule prod.exhaust)
  note ck = check_code_steps(1) [OF cc, of sso]
  have "steps sso (sv_db s1) (audit t n a (disable_totp t (us_id u) db))" for t n a
    by (rule then_steps [OF ck then_steps [OF disable_steps audit_steps]])
  with ck show "quiet sso s1 (if require_mfa s1 then (refused 403, s1)
      else if verify_password (au_crypto A) (us_password_hash u) password \<noteq> Some True then (refused 401, s1)
      else case check_code A now (us_id u) code True (sv_db s1) of
        ((False, _), db) \<Rightarrow> (refused 401, s1\<lparr>sv_db := db\<rparr>)
      | ((True, _), db) \<Rightarrow> (answered 204 No_Body,
          s1\<lparr>sv_db := audit (unix now) (us_username u) ''auth.mfa.disabled'' (disable_totp (unix now) (us_id u) db)\<rparr>))"
    by (auto simp: cc intro!: quiet_db split: prod.split bool.split)
qed

lemma mfa_regenerate_quiet: "quiet sso s (mfa_regenerate_codes A now randoms r code s)"
  unfolding mfa_regenerate_codes_def
proof (rule own_factor_quiet)
  fix u c and s1 :: auth_server
  obtain x db where cc: "check_code A now (us_id u) code False (sv_db s1) = (x, db)" by (rule prod.exhaust)
  note ck = check_code_steps(1) [OF cc, of sso]
  have "steps sso (sv_db s1) (audit t n a (set_recovery_codes t (us_id u) hs db))" for t n a hs
    by (rule then_steps [OF ck then_steps [OF edit_steps(3) audit_steps]])
  with ck show "quiet sso s1 (case check_code A now (us_id u) code False (sv_db s1) of
        ((False, _), db) \<Rightarrow> (refused 401, s1\<lparr>sv_db := db\<rparr>)
      | ((True, _), db) \<Rightarrow>
          let (codes, hashes) = new_recovery_codes (au_crypto A) randoms in
          (answered 200 (Codes_Body codes None),
           s1\<lparr>sv_db := audit (unix now) (us_username u) ''auth.mfa.recovery_codes''
               (set_recovery_codes (unix now) (us_id u) hashes db)\<rparr>))"
    by (auto simp: cc intro!: quiet_db split: prod.split bool.split)
qed

lemma guard_quiet:
  assumes "accounts_ok (sv_db s)"
    and "\<And>p s1. \<lbrakk>\<not> tokens; accounts_ok (sv_db s1); \<And>u. p = Some u \<Longrightarrow> su_id u \<in> user_ids (sv_db s1)\<rbrakk>
      \<Longrightarrow> quiet sso s1 (h p s1)"
    and "\<And>p s1. tokens \<Longrightarrow> quiet sso s1 (h p s1)"
  shows "quiet sso s (guard A now role tokens r h s)"
proof (cases "au_enabled A")
  case False
  then show ?thesis using assms by (cases tokens) (auto simp: guard_def)
next
  case True
  obtain p s1 where p: "user_from_request A now r s = (p, s1)" by (rule prod.exhaust)
  note ur = user_from_request_steps(1) [OF p, of sso] user_from_request_steps(2,3) [OF p]
  have ids: "user_ids (sv_db s1) = user_ids (sv_db s)" by (rule user_ids_cong [OF ur(2)])
  have ok: "accounts_ok (sv_db s1)" by (rule steps_ok [OF ur(1) assms(1)])
  have "quiet sso s1 (h p s1)" if "p = Some u" "tokens \<or> su_kind u \<noteq> Kind_Token" for u
  proof (cases tokens)
    case False
    then have "su_id u \<in> user_ids (sv_db s1)"
      using session_principal [of A now r s u s1] p that assms(1) ids
      by (metis principal_kind.exhaust)
    then show ?thesis using assms(2) [OF False ok, of p] that(1) by auto
  qed (rule assms(3))
  then show ?thesis using True ur
    by (auto simp: guard_def p intro: quiet_after split: option.split)
qed

lemma logout_quiet: "quiet sso s (logout A r s)"
  by (auto simp: logout_def quiet_def on_db_def intro: account_ops split: option.split)


lemma upsert_result:
  assumes "upsert_oidc_user now sub username role avatar db = (Some u, db')" "accounts_ok db"
  shows "u \<in> set (ac_users db') \<and> us_source u = ''oidc'' \<and> us_subject u = sub \<and> us_role u = role
    \<and> (\<forall>v\<in>set (ac_users db). us_id v = us_id u \<longrightarrow> us_source v = ''oidc'')"
proof (cases "oidc_user_by_subject sub db")
  case None
  let ?name = "free_username username db"
  obtain y db1 where i: "insert_user now ?name role ''oidc'' avatar sub [] db = (y, db1)" by (rule prod.exhaust)
  with None assms(1) have y: "y \<noteq> None" "user_by_name ?name db1 = Some u" "db' = db1"
    by (auto simp: upsert_oidc_user_def Let_def split: option.splits)
  then have new: "?name \<notin> us_username ` set (ac_users db)"
    and rows: "\<exists>v. ac_users db1 = ac_users db @ [v] \<and> us_source v = ''oidc'' \<and> us_subject v = sub \<and> us_role v = role
      \<and> y = Some (us_id v)"
    using i by (auto simp: insert_user_def Let_def list_ex_iff split: if_splits)
  from rows obtain v where v: "ac_users db1 = ac_users db @ [v]" "y = Some (us_id v)"
    and "us_source v = ''oidc'' \<and> us_subject v = sub \<and> us_role v = role" by blast
  moreover have "us_id v \<notin> us_id ` set (ac_users db)"
    using insert_user_ok(3) [OF assms(2)] i v(2) by (simp add: user_ids_def)
  moreover have "u \<in> set (ac_users db1)" "u \<notin> set (ac_users db)"
    using user_by_name_Some [OF y(2)] new by (auto simp: image_iff)
  ultimately show ?thesis using y(3) by (auto simp: image_iff)
next
  case (Some e)
  then have e: "e \<in> set (ac_users db)" "us_source e = ''oidc''" "us_subject e = sub"
    by (auto simp: oidc_user_by_subject_def find_Some_iff)
  let ?f = "\<lambda>u. if us_source u = ''oidc'' then u\<lparr>us_role := role, us_avatar_url := avatar, us_updated_at := now\<rparr> else u"
  have db': "db' = change_user (us_id e) ?f db" and "user_by_id (us_id e) db' = Some u"
    using assms(1) Some by (auto simp: upsert_oidc_user_def Let_def)
  then have u: "u \<in> set (ac_users db')" "us_id u = us_id e" using user_by_id_Some by simp_all
  then obtain v where v: "v \<in> set (ac_users db)" "u = (if us_id v = us_id e then ?f v else v)"
    by (auto simp: db' change_user_def)
  then have "us_id v = us_id e" using u(2) by (auto split: if_splits)
  then have "v = e" using unique_user [OF assms(2) v(1)] user_by_id_mem [OF assms(2) e(1)] by simp
  moreover have "us_source w = ''oidc''" if "w \<in> set (ac_users db)" "us_id w = us_id u" for w
    using unique_user [OF assms(2) that(1)] user_by_id_mem [OF assms(2) e(1)] that(2) u(2) e(2) by simp
  ultimately show ?thesis using v e u by simp
qed

lemma callback_cases:
  assumes "oidc_callback A now random ck state exchanged s = (reply, s')" "accounts_ok (sv_db s)"
  obtains (No_Session) "steps True (sv_db s) (sv_db s')" "sv_setup_done s' = sv_setup_done s" "rp_cookie reply = None"
  | (Signed_In) u s1 token p where "steps True (sv_db s) (sv_db s1)" "sv_setup_done s1 = sv_setup_done s"
      "u \<in> set (ac_users (sv_db s1))" "\<forall>v\<in>set (ac_users (sv_db s)). us_id v = us_id u \<longrightarrow> us_source v = ''oidc''"
      "start_session A now random (us_id u) (us_username u) (us_role u) s1 = (Some (token, p), s')"
      "rp_cookie reply = Some token"
proof -
  show thesis
  proof (cases "(if au_enabled A then sv_oidc s else None) = None \<or> ck = None \<or> ck = Some [] \<or> ck \<noteq> Some state \<or> exchanged = None")
    case True
    then have "s' = s \<and> (\<exists>code. reply = refused code)"
      using assms(1) by (auto simp: oidc_callback_def split: option.splits if_splits)
    then show ?thesis by (intro No_Session) auto
  next
    case False
    then obtain pr t where pr: "(if au_enabled A then sv_oidc s else None) = Some pr" "exchanged = Some t"
      and st: "\<not> (ck = None \<or> ck = Some [] \<or> ck \<noteq> Some state)" by auto
    define c where "c = claims_of pr t"
    obtain y db where up: "upsert_oidc_user (unix now) (oc_subject c) (oc_username c) (oc_role c) (oc_picture c) (sv_db s) = (y, db)"
      by (rule prod.exhaust)
    have db: "steps True (sv_db s) db" using upsert_steps by (metis up snd_conv)
    have res: "(case y of None \<Rightarrow> (refused 500, s\<lparr>sv_db := db\<rparr>)
        | Some u \<Rightarrow> (case start_session A now random (us_id u) (us_username u) (us_role u) (s\<lparr>sv_db := db\<rparr>) of
            (None, s) \<Rightarrow> (refused 500, s)
          | (Some (token, _), s) \<Rightarrow> (\<lparr>rp_status = 302, rp_cookie = Some token, rp_body = No_Body\<rparr>, s))) = (reply, s')"
      using assms(1) pr st up by (simp add: oidc_callback_def c_def Let_def cong: option.case_cong split: option.splits)
    show ?thesis
    proof (cases y)
      case None
      then show ?thesis using res db by (intro No_Session) auto
    next
      case (Some u)
      then have u: "u \<in> set (ac_users db)" "\<forall>v\<in>set (ac_users (sv_db s)). us_id v = us_id u \<longrightarrow> us_source v = ''oidc''"
        using upsert_result [OF _ assms(2)] up by auto
      obtain z s2 where ss: "start_session A now random (us_id u) (us_username u) (us_role u) (s\<lparr>sv_db := db\<rparr>) = (z, s2)"
        by (rule prod.exhaust)
      show ?thesis
      proof (cases z)
        case None
        then show ?thesis using res db Some ss start_session_None [OF ss [unfolded None]]
          by (intro No_Session) auto
      next
        case tp: (Some tp)
        obtain token p where "tp = (token, p)" by (rule prod.exhaust)
        then show ?thesis using res db Some ss u tp
          by (intro Signed_In [of "s\<lparr>sv_db := db\<rparr>" u token p]) auto
      qed
    qed
  qed
qed


lemma complete_setup_True:
  "complete_setup now p db = (True, db') \<Longrightarrow> ac_setup_completed db' \<and> \<not> ac_setup_completed db"
  by (auto simp: complete_setup_def Let_def insert_user_def split: if_splits option.splits)

lemma setup_finish_cases:
  assumes "setup_finish A now random username params s = (reply, s')"
  obtains (Too_Late) "s' = s\<lparr>sv_setup_done := True\<rparr>" "rp_cookie reply = None" "rp_status reply = 410"
      "ac_setup_completed (sv_db s)"
  | (Done) s1 where "steps sso (sv_db s) (sv_db s1)" "sv_setup_done s1" "ac_setup_completed (sv_db s1)"
      "\<not> ac_setup_completed (sv_db s)" "rp_cookie reply = None \<and> s' = s1
        \<or> (\<exists>u token p. u \<in> set (ac_users (sv_db s1)) \<and> rp_cookie reply = Some token
            \<and> start_session A now random (us_id u) (us_username u) (us_role u) s1 = (Some (token, p), s'))"
proof -
  obtain ok db where c: "complete_setup (unix now) params (sv_db s) = (ok, db)" by (rule prod.exhaust)
  show thesis
  proof (cases ok)
    case False
    have "ac_setup_completed (sv_db s)" using c False by (auto simp: complete_setup_def Let_def split: if_splits)
    then show ?thesis using assms c False by (intro Too_Late) (auto simp: setup_finish_def refused_def)
  next
    case True
    define s1 where "s1 = s\<lparr>sv_setup_done := True, sv_db := audit (unix now) username ''setup.complete'' db\<rparr>"
    have db: "steps sso (sv_db s) db" using complete_setup_steps by (metis c snd_conv)
    have s1: "steps sso (sv_db s) (sv_db s1)" "sv_setup_done s1" "ac_setup_completed (sv_db s1)" "\<not> ac_setup_completed (sv_db s)"
      using then_steps [OF db audit_steps] complete_setup_True c True
      by (auto simp: s1_def audit_def Let_def)
    have res: "(case (if sp_username params = [] then None else user_by_name username (sv_db s1)) of
             None \<Rightarrow> (answered 200 No_Body, s1)
           | Some u \<Rightarrow>
               (case start_session A now random (us_id u) (us_username u) (us_role u) s1 of
                  (None, s) \<Rightarrow> (answered 200 No_Body, s)
                | (Some (token, _), s) \<Rightarrow>
                    (\<lparr>rp_status = 200, rp_cookie = Some token, rp_body = No_Body\<rparr>, s))) = (reply, s')"
      unfolding s1_def using assms c True by (simp add: setup_finish_def Let_def)
    show ?thesis
    proof (cases "if sp_username params = [] then None else user_by_name username (sv_db s1)")
      case None
      then show ?thesis using res s1 by (intro Done [of s1]) auto
    next
      case (Some u)
      then have u: "u \<in> set (ac_users (sv_db s1))" using user_by_name_Some by (metis option.distinct(1))
      obtain z s2 where ss: "start_session A now random (us_id u) (us_username u) (us_role u) s1 = (z, s2)"
        by (rule prod.exhaust)
      show ?thesis
      proof (cases z)
        case None
        then show ?thesis using res Some ss s1 start_session_None [OF ss [unfolded None]] by (intro Done [of s1]) auto
      next
        case (Some tp)
        with \<open>_ = Some u\<close> show ?thesis using res ss s1 u by (intro Done [of s1]) (cases tp; auto)+
      qed
    qed
  qed
qed

lemma setup_complete_cases:
  assumes "setup_complete A now salt random reachable body s = (reply, s')"
  obtains (Nothing) "sv_db s' = sv_db s" "sv_setup_done s' = sv_setup_done s" "rp_cookie reply = None" "rp_status reply \<noteq> 200"
  | (Finished) username params s1 where "sv_db s1 = sv_db s" "sv_setup_done s1 = sv_setup_done s" "setup_active s"
      "setup_finish A now random username params s1 = (reply, s')"
proof -
  obtain ok w where wa: "window_allow 10 minute now (sv_setup_rate s) = (ok, w)" by (rule prod.exhaust)
  show thesis
  proof (cases "\<not> setup_active s \<or> \<not> ok \<or> body = None")
    case True
    then have "reply = refused 410 \<and> s' = s \<or> reply = refused 429 \<and> s' = s\<lparr>sv_setup_rate := w\<rparr>
        \<or> reply = refused 400 \<and> s' = s\<lparr>sv_setup_rate := w\<rparr>"
      using assms wa by (cases ok) (auto simp: setup_complete_def Let_def split: if_splits)
    then show ?thesis by (intro Nothing) (auto simp: refused_def)
  next
    case False
    then obtain q where on: "setup_active s" "ok" and q: "body = Some q" by auto
    define s0 where "s0 = s\<lparr>sv_setup_rate := w\<rparr>"
    define sso where "sso \<longleftrightarrow> equal_fold (trim_space (sr_method q)) ''sso''"
    obtain built s1 where r: "(if sso then rebuild_oidc reachable (setup_oidc q) s0 else (True, s0)) = (built, s1)"
      by (rule prod.exhaust)
    have s1: "sv_db s1 = sv_db s" "sv_setup_done s1 = sv_setup_done s"
      using r by (auto simp: s0_def split: if_splits dest: rebuild_oidc_db)
    have s0: "sv_db s0 = sv_db s" "sv_setup_done s0 = sv_setup_done s" by (simp_all add: s0_def)
    have "(\<exists>code s2. (reply, s') = (refused code, s2) \<and> code \<noteq> 200 \<and> s2 \<in> {s0, s1})
        \<or> (\<exists>params. setup_finish A now random (trim_space (sr_username q)) params s1 = (reply, s'))"
      using assms on wa q r
      unfolding setup_complete_def s0_def [symmetric] sso_def [symmetric] Let_def
      by (auto simp: s0_def [symmetric] sso_def [symmetric] Let_def split: if_splits)
    then show ?thesis
    proof (elim disjE exE conjE)
      fix code s2 assume "(reply, s') = (refused code, s2)" "code \<noteq> 200" "s2 \<in> {s0, s1}"
      then show ?thesis using s0 s1 by (intro Nothing) (auto simp: refused_def)
    next
      fix params assume "setup_finish A now random (trim_space (sr_username q)) params s1 = (reply, s')"
      then show ?thesis using s1 on(1) by (intro Finished [of s1 "trim_space (sr_username q)" params]) auto
    qed
  qed
qed


fun is_callback :: "call \<Rightarrow> bool" where
  "is_callback (Call_Callback _ _ _ _) = True"
| "is_callback _ = False"

definition server_ok :: "auth_server \<Rightarrow> bool" where
  "server_ok s \<longleftrightarrow> accounts_ok (sv_db s)
     \<and> (setup_active s \<longrightarrow> ac_setup_completed (sv_db s) \<or> ac_users (sv_db s) = [])"

text \<open>
  What lets a call start a session for an account: it has no second factor, or the call is the one
  that completes a sign-in and its code was good.
\<close>

definition factor_shown :: "auth_config \<Rightarrow> time \<Rightarrow> call \<Rightarrow> int \<Rightarrow> auth_server \<Rightarrow> auth_server \<Rightarrow> bool" where
  "factor_shown A now c uid s s' \<longleftrightarrow>
     (\<exists>random challenge code db left db'. c = Call_Verify random challenge code \<and> ac_users db = ac_users (sv_db s)
       \<and> check_code A now uid code True db = ((True, left), db') \<and> ac_users (sv_db s') = ac_users db')"

lemma start_session_users:
  "start_session A now random uid name role s = (x, s') \<Longrightarrow> ac_users (sv_db s') = ac_users (sv_db s)
     \<and> sv_setup_done s' = sv_setup_done s \<and> ac_setup_completed (sv_db s') = ac_setup_completed (sv_db s)"
  by (auto simp: start_session_def create_session_def Let_def split: prod.splits bool.splits if_splits)

lemma sign_in_cases:
  assumes "sign_in A now random u s = (reply, s')"
  obtains (None) "s' = s" "rp_cookie reply = None"
  | (Some) token p where "start_session A now random (us_id u) (us_username u) (us_role u) s = (Some (token, p), s')"
      "rp_cookie reply = Some token"
proof -
  obtain x s1 where ss: "start_session A now random (us_id u) (us_username u) (us_role u) s = (x, s1)"
    by (rule prod.exhaust)
  show thesis
  proof (cases x)
    case None
    then show ?thesis using assms ss start_session_None [OF ss [unfolded None]]
      by (intro that(1)) (auto simp: sign_in_def)
  next
    case (Some tp)
    then show ?thesis using assms ss by (cases tp; intro that(2)) (auto simp: sign_in_def)
  qed
qed

text \<open>Every way a call of the API ends.\<close>

lemma dispatch_cases:
  assumes "dispatch A now c s = (reply, s')" "server_ok s"
  obtains (Silent) "steps (is_callback c) (sv_db s) (sv_db s')" "rp_cookie reply = None"
      "sv_setup_done s' = sv_setup_done s \<or> ac_setup_completed (sv_db s')"
  | (Session) u random s1 token p where "steps (is_callback c) (sv_db s) (sv_db s1)"
      "sv_setup_done s1 = sv_setup_done s \<or> ac_setup_completed (sv_db s1)"
      "us_id (u :: user_row) \<in> user_ids (sv_db s1)" "rp_cookie reply = Some token"
      "start_session A now random (us_id u) (us_username u) (us_role u) s1 = (Some (token, p), s')"
      "\<not> mfa_enabled (us_id u) (sv_db s) \<or> factor_shown A now c (us_id u) s s'"
proof -
  have ok: "accounts_ok (sv_db s)" using assms(2) by (simp add: server_ok_def)
  have quiet: thesis if "quiet (is_callback c) s (dispatch A now c s)"
    using that assms(1) by (intro Silent) (auto simp: quiet_def)
  show thesis
  proof (cases c)
    case (Call_Login random random' r body)
    with assms(1) have "login A now random random' r body s = (reply, s')" by simp
    then show ?thesis
    proof (cases rule: login_cases)
      case Nothing
      then show ?thesis by (intro Silent) auto
    next
      case (Challenge username password u s1)
      have "us_id u \<in> user_ids (sv_db s1)" using check_password_Some [OF Challenge(3)] Challenge(1) by simp
      from login_needs_mfa_steps(1) [OF Challenge(4) this, of "is_callback c"] Challenge show ?thesis
        by (intro Silent) (auto simp: login_needs_mfa_def Let_def split: prod.splits if_splits)
    next
      case (Session username password u s1)
      have u: "us_id u \<in> user_ids (sv_db s1)" using check_password_Some [OF Session(3)] Session(1) by simp
      have "\<not> mfa_enabled (us_id u) (sv_db s)"
        using Session(1,4) by (auto simp: login_needs_mfa_def Let_def split: prod.splits if_splits)
      note mfa = this
      from Session(5) show ?thesis
      proof (cases rule: sign_in_cases)
        case None
        then show ?thesis using Session(1,2) by (intro Silent) auto
      next
        case (Some token p)
        then show ?thesis using Session(1,2) u mfa by (intro that(2) [of s1 u token random' p]) auto
      qed
    qed
  next
    case (Call_Verify random challenge code)
    with assms(1) have "mfa_verify A now random challenge code s = (reply, s')" by simp
    then show ?thesis
    proof (cases rule: mfa_verify_cases [where sso = "is_callback c"])
      case Refused
      then show ?thesis by (intro Silent) auto
    next
      case (Accepted u ch s1 s2 left db s3)
      note cu = challenge_user_steps(1) [OF Accepted(1), of "is_callback c"]
        challenge_user_steps(2) [OF Accepted(1)] challenge_user_steps(4) [OF Accepted(1) refl]
      have s3: "steps (is_callback c) (sv_db s) (sv_db s3)"
        using then_steps [OF cu(1) then_steps [OF check_code_steps(1) Accepted(5)]] Accepted(2,4) by simp
      have u: "us_id u \<in> user_ids (sv_db s3)" using cu(3) Accepted(7) by (metis user_ids_mem)
      from Accepted(8) show ?thesis
      proof (cases rule: sign_in_cases)
        case None
        then show ?thesis using s3 Accepted(3) by (intro Silent) auto
      next
        case (Some token p)
        have "factor_shown A now c (us_id u) s s'"
          unfolding factor_shown_def using Call_Verify Accepted(2,4,6) cu(2) start_session_users [OF Some(1)]
          by (intro exI [of _ random] exI [of _ challenge] exI [of _ code] exI [of _ "sv_db s2"] exI [of _ left] exI [of _ db]) simp
        with Some s3 u Accepted(3) show ?thesis by (intro that(2) [of s3 u token random p]) auto
      qed
    qed
  next
    case (Call_Enable randoms random r challenge code)
    with assms(1) have "mfa_enable A now randoms random r challenge code s = (reply, s')" by simp
    then show ?thesis
    proof (cases rule: mfa_enable_cases [where sso = "is_callback c"])
      case No_Session
      then show ?thesis by (intro Silent) auto
    next
      case (Enrolled u s3 token p)
      have "factor_ok u" using user_factor_ok [OF ok] user_by_id_Some [OF Enrolled(1)] by simp
      then have "\<not> mfa_enabled (us_id u) (sv_db s)" using Enrolled(1,2) by (auto simp: mfa_enabled_def factor_ok_def)
      with Enrolled show ?thesis by (intro that(2) [of s3 u token random p]) auto
    qed
  next
    case (Call_Callback random ck state exchanged)
    with assms(1) have "oidc_callback A now random ck state exchanged s = (reply, s')" by simp
    from this ok show ?thesis
    proof (cases rule: callback_cases)
      case No_Session
      then show ?thesis using Call_Callback by (intro Silent) auto
    next
      case (Signed_In u s1 token p)
      have "\<not> mfa_enabled (us_id u) (sv_db s)"
      proof (cases "user_by_id (us_id u) (sv_db s)")
        case None
        then show ?thesis by (simp add: mfa_enabled_def)
      next
        case (Some v)
        note v = user_by_id_Some [OF Some]
        have "us_source v = ''oidc''" using Signed_In(4) v by simp
        moreover have "factor_ok v" using user_factor_ok [OF ok] v by simp
        ultimately show ?thesis using Some by (simp add: mfa_enabled_def factor_ok_def)
      qed
      moreover have "us_id u \<in> user_ids (sv_db s1)" using Signed_In(3) by (simp add: user_ids_def)
      ultimately show ?thesis using Signed_In Call_Callback by (intro that(2) [of s1 u token random p]) auto
    qed
  next
    case (Call_Complete salt random reachable body)
    with assms(1) have "setup_complete A now salt random reachable body s = (reply, s')" by simp
    then show ?thesis
    proof (cases rule: setup_complete_cases)
      case Nothing
      then show ?thesis by (intro Silent) auto
    next
      case (Finished username params s1)
      from Finished(4) show ?thesis
      proof (cases rule: setup_finish_cases [where sso = "is_callback c"])
        case Too_Late
        then show ?thesis using Finished by (intro Silent) auto
      next
        case (Done s2)
        have none: "\<not> mfa_enabled uid (sv_db s)" for uid
          using assms(2) Finished(1,3) Done(4) by (auto simp: server_ok_def mfa_enabled_def user_by_id_def)
        from Done(5) show ?thesis
        proof (elim disjE exE conjE)
          assume "rp_cookie reply = None" "s' = s2"
          then show ?thesis using Done Finished by (intro Silent) auto
        next
          fix u token p assume "u \<in> set (ac_users (sv_db s2))" "rp_cookie reply = Some token"
            "start_session A now random (us_id u) (us_username u) (us_role u) s2 = (Some (token, p), s')"
          then show ?thesis using Done Finished none by (intro that(2) [of s2 u token random p]) auto
        qed
      qed
    qed
  next
    case (Call_Setup_Mfa random r challenge)
    then show ?thesis using assms(1) mfa_setup_steps [of A now random r challenge s reply s']
      by (intro Silent) auto
  qed (auto intro!: quiet guard_quiet ok mfa_disable_quiet mfa_regenerate_quiet change_password_quiet
      reset_user_mfa_quiet create_user_quiet set_user_role_quiet reset_user_password_quiet delete_user_quiet
      create_api_token_quiet delete_api_token_quiet put_cp_settings_quiet metrics_token_quiet logout_quiet
      simp: require_session_def quiet_def [where res = "(answered _ _, _)"])
qed

end
