(* ===== verification/Account_Rules.thy ===== *)
theory Account_Rules
  imports Account_Facts
begin

section \<open>What the console guarantees of its accounts\<close>

text \<open>
  The properties of runs of the control plane: any calls, at any times, in any order, each finished
  before the next begins, and between
  them an identity provider that was built in the background is put in use, the recovery command is
  run on the same database, or a picture is uploaded. \<open>sso\<close> says whether callbacks of the identity provider are among
  the calls, which set the role of an SSO account to what the provider says.
\<close>

inductive api_run :: "bool \<Rightarrow> auth_config \<Rightarrow> auth_server \<Rightarrow> auth_server \<Rightarrow> bool" for sso A s0 where
  Start: "api_run sso A s0 s0"
| Served: "\<lbrakk>api_run sso A s0 s; is_callback c \<Longrightarrow> sso; serve_call A now c s = (reply, s')\<rbrakk>
    \<Longrightarrow> api_run sso A s0 s'"
| Provider: "api_run sso A s0 s \<Longrightarrow> api_run sso A s0 (set_oidc p s)"
| Recovered: "\<lbrakk>api_run sso A s0 s; reset_admin A now random salt username password (sv_db s) = Some db\<rbrakk>
    \<Longrightarrow> api_run sso A s0 (s\<lparr>sv_db := db\<rparr>)"
| Picture: "api_run sso A s0 s \<Longrightarrow> api_run sso A s0 (on_db (\<lambda>db. snd (set_user_avatar now uid data db)) s)"

lemma account_step_mono: "account_step False db db' \<Longrightarrow> account_step sso db db'"
  by (erule account_step.cases) (simp_all add: account_step.intros)

lemma steps_mono: "steps b db db' \<Longrightarrow> (b \<Longrightarrow> sso) \<Longrightarrow> steps sso db db'"
  by (cases b) (auto elim: rtranclp_mono [THEN predicate2D, rotated] intro: account_step_mono)

subsection \<open>A call is a sequence of steps, and keeps the server sound\<close>

lemma serve_cases:
  assumes "serve_call A now c s = (reply, s')" "server_ok s"
  obtains (Silent) "steps (is_callback c) (sv_db s) (sv_db s')" "rp_cookie reply = None"
      "sv_setup_done s' = sv_setup_done s \<or> ac_setup_completed (sv_db s')"
  | (Session) u random s1 token p where "steps (is_callback c) (sv_db s) (sv_db s1)"
      "sv_setup_done s1 = sv_setup_done s \<or> ac_setup_completed (sv_db s1)"
      "us_id (u :: user_row) \<in> user_ids (sv_db s1)" "rp_cookie reply = Some token"
      "start_session A now random (us_id u) (us_username u) (us_role u) s1 = (Some (token, p), s')"
      "\<not> mfa_enabled (us_id u) (sv_db s) \<or> factor_shown A now c (us_id u) s s'"
proof (cases "setup_gate s (route_path c)")
  case True
  then have "dispatch A now c s = (reply, s')" using assms(1) by (simp add: serve_call_def)
  from this assms(2) show ?thesis by (rule dispatch_cases) (fact Silent Session)+
next
  case False
  then show ?thesis using assms(1) by (intro Silent) (auto simp: serve_call_def)
qed

lemma serve_steps:
  assumes "serve_call A now c s = (reply, s')" "server_ok s"
  shows "steps (is_callback c) (sv_db s) (sv_db s')"
  using assms
proof (cases rule: serve_cases)
  case (Session u random s1 token p)
  then show ?thesis using then_steps start_session_steps [OF Session(5,3)] by blast
qed

text \<open>While the wizard is open only its own call gets through the gate.\<close>

lemma gate_open:
  assumes "setup_active s" "setup_gate s (route_path c)"
  obtains salt random reachable body where "c = Call_Complete salt random reachable body"
  using assms by (cases c) (auto simp: setup_gate_def has_prefix_def)

lemma complete_keeps_setup:
  assumes "setup_complete A now salt random reachable body s = (reply, s')" "server_ok s" "setup_active s'"
  shows "ac_setup_completed (sv_db s') \<or> ac_users (sv_db s') = []"
  using assms(1)
proof (cases rule: setup_complete_cases)
  case Nothing
  then show ?thesis using assms(2,3) by (simp add: server_ok_def setup_active_def)
next
  case (Finished username params s1)
  from Finished(4) show ?thesis
  proof (cases rule: setup_finish_cases [where sso = False])
    case Too_Late
    then show ?thesis using Finished(1) by simp
  next
    case (Done s2)
    then show ?thesis using assms(3) start_session_users by (auto simp: setup_active_def)
  qed
qed

lemma serve_server_ok:
  assumes "serve_call A now c s = (reply, s')" "server_ok s"
  shows "server_ok s'"
proof -
  have "accounts_ok (sv_db s')"
    using serve_steps [OF assms] steps_ok assms(2) by (auto simp: server_ok_def)
  moreover have "ac_setup_completed (sv_db s') \<or> ac_users (sv_db s') = []" if act: "setup_active s'"
  proof (cases "setup_active s")
    case True
    show ?thesis
    proof (cases "setup_gate s (route_path c)")
      case gate: True
      with True obtain salt random reachable body where "c = Call_Complete salt random reachable body"
        by (rule gate_open)
      then show ?thesis using complete_keeps_setup assms act gate by (simp add: serve_call_def)
    next
      case False
      then show ?thesis using assms True by (auto simp: serve_call_def server_ok_def)
    qed
  next
    case False
    with assms act show ?thesis
    proof (cases rule: serve_cases)
      case Silent
      then show ?thesis using act False by (auto simp: setup_active_def)
    next
      case (Session u random s1 token p)
      then show ?thesis using act False start_session_users [OF Session(5)] by (auto simp: setup_active_def)
    qed
  qed
  ultimately show ?thesis by (simp add: server_ok_def)
qed

lemma reset_admin_steps:
  assumes "reset_admin A now random salt username password db = Some db'"
  shows "steps sso db db' \<and> (ac_setup_completed db' \<or> (ac_setup_completed db' = ac_setup_completed db \<and> ac_users db \<noteq> []))"
proof -
  let ?h = "hash_password (au_crypto A) (if trim_space password = [] then take 16 (new_token random) else trim_space password) salt"
  show ?thesis
  proof (cases "user_by_name username db")
    case (Some u)
    let ?uid = "us_id u" and ?t = "unix now"
    define db1 where "db1 = update_user_password ?t ?uid ?h db"
    define db2 where "db2 = (if us_role u \<noteq> ''admin'' then update_user_role ?t ?uid ''admin'' db1 else db1)"
    define db3 where "db3 = (if mfa_enabled ?uid db2 then delete_mfa_challenges_for_user ?uid (disable_totp ?t ?uid db2) else db2)"
    have "steps sso db db1" unfolding db1_def by (rule edit_steps)
    moreover have "steps sso db1 db2" by (auto simp: db2_def intro: one_step Set_Role)
    moreover have "steps sso db2 db3"
      using then_steps [OF disable_steps delete_session_steps(5)] by (auto simp: db3_def)
    ultimately have "steps sso db db3" using then_steps by blast
    moreover have "db' = db3"
      using assms Some by (auto simp: reset_admin_def Let_def db1_def db2_def db3_def split: if_splits)
    moreover have "ac_setup_completed db3 = ac_setup_completed db"
      by (simp add: db3_def db2_def db1_def update_user_password_def update_user_role_def disable_totp_def
          delete_mfa_challenges_for_user_def change_user_def)
    moreover have "ac_users db \<noteq> []" using user_by_name_Some [OF Some] by auto
    ultimately show ?thesis by simp
  next
    case None
    then obtain uid db1 where c: "create_local_user (unix now) username ?h ''admin'' db = (Some uid, db1)"
      and db': "db' = db1\<lparr>ac_setup_completed := True\<rparr>"
      using assms by (auto simp: reset_admin_def Let_def split: if_splits option.splits prod.splits)
    have "steps sso db db1" using create_user_steps by (metis c snd_conv)
    moreover have "steps sso db1 db'"
      using one_step [OF Settings [where sso = sso and db = db1 and a = "ac_audit db1" and b = True
          and c = "ac_settings db1" and d = "ac_master_addr db1"]] by (simp add: db')
    ultimately show ?thesis using then_steps db' by simp
  qed
qed

lemma run_steps_ok:
  "api_run sso A s s' \<Longrightarrow> server_ok s \<Longrightarrow> steps sso (sv_db s) (sv_db s') \<and> server_ok s'"
proof (induction rule: api_run.induct)
  case (Served s1 c now reply s')
  then have ok: "server_ok s1" by blast
  from Served show ?case
    using then_steps [OF _ steps_mono [OF serve_steps [OF Served(3) ok]]] serve_server_ok [OF Served(3) ok] by blast
next
  case (Provider s1 p)
  then show ?case by (simp add: server_ok_def setup_active_def set_oidc_def)
next
  case (Recovered s1 now random salt username password db)
  then have st: "steps sso (sv_db s1) db" "accounts_ok (sv_db s1)" by (simp_all add: reset_admin_steps server_ok_def)
  have "accounts_ok db" using steps_ok st by blast
  with Recovered reset_admin_steps [OF Recovered(2)] show ?case
    using then_steps [OF _ st(1)] by (auto simp: server_ok_def setup_active_def)
next
  case (Picture s1 now uid data)
  then have ok: "accounts_ok (sv_db s1)" by (simp add: server_ok_def)
  have st: "steps sso (sv_db s1) (snd (set_user_avatar now uid data (sv_db s1)))" by (rule edit_steps)
  have "accounts_ok (snd (set_user_avatar now uid data (sv_db s1)))" using steps_ok [OF st ok] .
  with Picture show ?case using then_steps [OF _ st]
    by (auto simp: server_ok_def setup_active_def on_db_def set_user_avatar_def change_user_def)
qed simp

lemmas run_steps = run_steps_ok [THEN conjunct1]
lemmas run_server_ok = run_steps_ok [THEN conjunct2]

subsection \<open>An administrator remains\<close>

abbreviation admins :: "accounts_db \<Rightarrow> int set" where
  "admins db \<equiv> us_id ` {u \<in> set (ac_users db). us_role u = ''admin''}"

lemma count_admins_card: "accounts_ok db \<Longrightarrow> count_admins db = int (card (admins db))"
proof -
  assume "accounts_ok db"
  then have "distinct (map us_id (filter (\<lambda>u. us_role u = ''admin'') (ac_users db)))"
    by (simp add: accounts_ok_def users_ok_def distinct_map_filter)
  from distinct_card [OF this] show ?thesis by (simp add: count_admins_def)
qed

lemma admins_mem: "uid \<in> admins db \<longleftrightarrow> (\<exists>u\<in>set (ac_users db). us_id u = uid \<and> us_role u = ''admin'')"
  by auto

lemma change_user_mem: "u \<in> set (ac_users db) \<Longrightarrow> (if us_id u = uid then f u else u) \<in> set (ac_users (change_user uid f db))"
  by (simp add: change_user_def)

lemma admins_change:
  assumes "\<And>u. us_id (f u) = us_id u"
  shows "admins db - {uid} \<subseteq> admins (change_user uid f db)"
proof
  fix i assume "i \<in> admins db - {uid}"
  then obtain u where "u \<in> set (ac_users db)" "us_id u = i" "us_role u = ''admin''" "i \<noteq> uid" by auto
  with change_user_mem [of u db uid f] show "i \<in> admins (change_user uid f db)"
    unfolding admins_mem by auto
qed

lemma admins_kept:
  assumes "\<And>u. us_id (f u) = us_id u" "\<And>u. us_role u = ''admin'' \<Longrightarrow> us_role (f u) = ''admin''"
  shows "admins db \<subseteq> admins (change_user uid f db)"
proof
  fix i assume "i \<in> admins db"
  then obtain u where "u \<in> set (ac_users db)" "us_id u = i" "us_role u = ''admin''" by auto
  with change_user_mem [of u db uid f] assms show "i \<in> admins (change_user uid f db)"
    unfolding admins_mem by (intro bexI [of _ "if us_id u = uid then f u else u"]) auto
qed

lemma remove_one_admin:
  assumes "admins db - {uid} \<subseteq> admins db'" "1 < count_admins db" "accounts_ok db"
  shows "admins db' \<noteq> {}"
proof
  assume "admins db' = {}"
  with assms(1) have "admins db \<subseteq> {uid}" by blast
  then have "card (admins db) \<le> 1" using card_mono [of "{uid}" "admins db"] by simp
  then show False using assms(2) count_admins_card [OF assms(3)] by simp
qed

lemma account_step_admin:
  "account_step False db db' \<Longrightarrow> accounts_ok db \<Longrightarrow> admins db \<noteq> {} \<Longrightarrow> admins db' \<noteq> {}"
proof (induction rule: account_step.induct)
  case (New_User now name role src avatar sub pw db uid db')
  then show ?case by (auto simp: insert_user_def Let_def split: if_splits)
next
  case (Edit_User f db uid)
  then have "admins db \<subseteq> admins (change_user uid f db)" by (intro admins_kept) (auto simp: keeps_def)
  with Edit_User show ?case by blast
next
  case (Set_Role role db uid u now)
  let ?db = "update_user_role now uid role db"
  show ?case
  proof (cases "role = ''admin''")
    case True
    have "admins db \<subseteq> admins ?db" unfolding update_user_role_def by (intro admins_kept) (simp_all add: True)
    with Set_Role.prems show ?thesis by blast
  next
    case False
    have sub: "admins db - {uid} \<subseteq> admins ?db" unfolding update_user_role_def by (intro admins_change) simp
    show ?thesis
    proof (cases "1 < count_admins db")
      case True
      then show ?thesis using remove_one_admin [OF sub] Set_Role.prems(1) by blast
    next
      case few: False
      with Set_Role.hyps False have "user_by_id uid db = Some u" "us_role u \<noteq> ''admin''" by auto
      then have "uid \<notin> admins db" using unique_user [OF Set_Role.prems(1)] by auto
      with sub Set_Role.prems(2) show ?thesis by blast
    qed
  qed
next
  case (Pending uid db u now secret)
  have "admins db \<subseteq> admins (set_totp_pending now uid secret db)"
    unfolding set_totp_pending_def by (intro admins_kept) simp_all
  with Pending show ?case by blast
next
  case (Enable now uid secret step hashes db db')
  have "admins db \<subseteq> admins db'"
    unfolding change_if_True(1) [OF Enable.hyps [unfolded enable_totp_def]] by (intro admins_kept) simp_all
  with Enable show ?case by blast
next
  case (Disable db now uid)
  have "admins db \<subseteq> admins (disable_totp now uid db)"
    unfolding disable_totp_def by (intro admins_kept) simp_all
  with Disable show ?case by blast
next
  case (Use_Step uid step db db')
  have "admins db \<subseteq> admins db'"
    unfolding change_if_True(1) [OF Use_Step.hyps [unfolded use_totp_step_def]] by (intro admins_kept) simp_all
  with Use_Step show ?case by blast
next
  case (Drop_User uid db u)
  let ?db = "db\<lparr>ac_users := filter (\<lambda>u. us_id u \<noteq> uid) (ac_users db)\<rparr>"
  have sub: "admins db - {uid} \<subseteq> admins ?db" by auto
  have "admins ?db \<noteq> {}"
  proof (cases "us_role u = ''admin''")
    case True
    then show ?thesis using remove_one_admin [OF sub] Drop_User by blast
  next
    case False
    then have "uid \<notin> admins db" using unique_user [OF Drop_User.prems(1)] Drop_User.hyps(1) by auto
    with sub Drop_User.prems(2) show ?thesis by blast
  qed
  then show ?case by simp
qed (auto simp: touch_token_row_def)

lemma steps_admin:
  "steps False db db' \<Longrightarrow> accounts_ok db \<Longrightarrow> admins db \<noteq> {} \<Longrightarrow> accounts_ok db' \<and> admins db' \<noteq> {}"
  by (induction rule: rtranclp_induct) (auto dest: account_step_ok account_step_admin)

text \<open>
  C9: an administrator always remains. From a sound control plane with at least one administrator,
  whatever calls of \<open>call\<close> are served one after another in whatever order - roles set, users deleted,
  API tokens used, second factors reset - and whenever the recovery command runs, there is one
  afterwards, as long as no sign-in through the identity provider is among the calls, which may set
  the role of its own account.
\<close>

theorem console_keeps_an_admin:
  assumes "api_run False A s s'" "server_ok s" "1 \<le> count_admins (sv_db s)"
  shows "1 \<le> count_admins (sv_db s')"
proof -
  have ok: "accounts_ok (sv_db s)" using assms(2) by (simp add: server_ok_def)
  have "card (admins (sv_db s)) \<noteq> 0" using assms(3) count_admins_card [OF ok] by linarith
  then have "admins (sv_db s) \<noteq> {}" by (metis card.empty)
  from steps_admin [OF run_steps [OF assms(1,2)] ok this]
  have "accounts_ok (sv_db s')" "0 < card (admins (sv_db s'))" by (auto simp: card_gt_0_iff)
  then show ?thesis using count_admins_card by simp
qed

subsection \<open>The second factor\<close>

text \<open>
  What an accepted code did to the account: a one-time code of a step after the last one used, which
  is now the last one used, or a recovery code that was on the list and is not any more.
\<close>

definition code_spent :: "crypto \<Rightarrow> time \<Rightarrow> string \<Rightarrow> user_row \<Rightarrow> user_row \<Rightarrow> bool" where
  "code_spent C now code u v \<longleftrightarrow>
     (if looks_like_totp code
      then \<exists>step. verify_totp C (us_totp_secret u) code now = Some step
        \<and> us_totp_last_step u < step \<and> us_totp_last_step v = step
      else \<exists>codes. us_recovery u = Some codes \<and> hash_recovery_code C code \<in> set codes
        \<and> us_recovery v = Some (filter (\<lambda>h. h \<noteq> hash_recovery_code C code) codes))"

lemma user_by_id_change:
  assumes "\<And>u. us_id (f u) = us_id u"
  shows "user_by_id uid (change_user uid f db) = map_option f (user_by_id uid db)"
proof -
  have "find (\<lambda>u. us_id u = uid) (map (\<lambda>u. if us_id u = uid then f u else u) us)
      = map_option f (find (\<lambda>u. us_id u = uid) us)" for us
    by (induction us) (simp_all add: assms)
  then show ?thesis by (simp add: user_by_id_def change_user_def)
qed

lemma user_row_unique:
  assumes "distinct (map us_id (ac_users db))" "user_by_id uid db = Some u" "v \<in> set (ac_users db)" "us_id v = uid"
  shows "v = u"
  using assms user_by_id_Some [OF assms(2)] by (auto simp: distinct_map dest: inj_onD)

lemma check_code_spends:
  assumes "check_code A now uid code True db = ((True, left), db')" "user_by_id uid db = Some u"
    and "distinct (map us_id (ac_users db))"
  shows "\<exists>v. user_by_id uid db' = Some v \<and> code_spent (au_crypto A) now code u v"
proof (cases "looks_like_totp code")
  case True
  then obtain step where v: "verify_totp (au_crypto A) (us_totp_secret u) code now = Some step"
    and use: "use_totp_step uid step db = (True, db')"
    using assms(1,2) by (auto simp: check_code_def split: if_splits option.splits prod.splits)
  note db' = change_if_True [OF use [unfolded use_totp_step_def]]
  from db'(2) obtain w where w: "w \<in> set (ac_users db)" "us_id w = uid"
    "us_totp_secret w \<noteq> [] \<and> us_totp_last_step w < step" by blast
  have "w = u" by (rule user_row_unique [OF assms(3,2) w(1,2)])
  with w(3) v True assms(2) show ?thesis
    unfolding db'(1) by (subst user_by_id_change) (simp_all add: code_spent_def)
next
  case False
  let ?h = "hash_recovery_code (au_crypto A) code"
  have use: "use_recovery_code uid ?h db = ((True, left), db')"
    using assms(1,2) False by (simp add: check_code_def split: if_splits)
  then obtain w codes where w: "find (\<lambda>u. us_id u = uid \<and> us_totp_secret u \<noteq> []) (ac_users db) = Some w"
    and c: "us_recovery w = Some codes" "length (filter (\<lambda>c. c \<noteq> ?h) codes) \<noteq> length codes"
    and db': "db' = change_user uid (\<lambda>u. u\<lparr>us_recovery := Some (filter (\<lambda>c. c \<noteq> ?h) codes)\<rparr>) db"
    by (auto simp: use_recovery_code_def Let_def split: option.splits if_splits)
  have "w = u" using w by (intro user_row_unique [OF assms(3,2)]) (auto simp: find_Some_iff)
  moreover have "?h \<in> set codes" using c(2) by (metis (mono_tags, lifting) filter_True)
  ultimately show ?thesis
    unfolding db' using False c(1) assms(2) by (subst user_by_id_change) (simp_all add: code_spent_def)
qed

lemma start_session_row:
  assumes "start_session A now random uid name role s = (Some (token, p), s')"
    and "sn \<in> set (ac_sessions (sv_db s'))" "sn_token sn = hash_secret (au_crypto A) token"
  shows "sn_user sn = uid"
  using assms by (auto simp: start_session_def create_session_def Let_def list_ex_iff split: if_splits prod.splits bool.splits)

text \<open>
  C8: an account with a second factor gets a session only for a code of it. If any call of the API
  answers with a session cookie, and the session is for an account that has a second factor, then
  the call is the second step of a sign-in with a code that was good and is spent: a one-time code of
  a step later than every step used before, recorded by the call, or a recovery code that was on the
  account's list, taken off it by the call.
\<close>

theorem session_takes_the_second_factor:
  assumes "server_ok s" "serve_call A now c s = (reply, s')" "rp_cookie reply = Some token"
    and "sn \<in> set (ac_sessions (sv_db s'))" "sn_token sn = hash_secret (au_crypto A) token"
    and "user_by_id (sn_user sn) (sv_db s) = Some u" "us_totp_secret u \<noteq> []"
  shows "\<exists>random challenge code v. c = Call_Verify random challenge code
    \<and> user_by_id (us_id u) (sv_db s') = Some v \<and> code_spent (au_crypto A) now code u v"
  using assms(2,1)
proof (cases rule: serve_cases)
  case Silent
  then show ?thesis using assms(3) by simp
next
  case (Session w random s1 token' p)
  then have "sn_user sn = us_id w" using start_session_row assms(3-5) by (metis option.inject)
  moreover have "us_id u = sn_user sn" using user_by_id_Some [OF assms(6)] by simp
  ultimately have "mfa_enabled (us_id w) (sv_db s)" "us_id w = us_id u" using assms(6,7) by (simp_all add: mfa_enabled_def)
  then have "factor_shown A now c (us_id u) s s'" using Session(6) by simp
  then obtain rnd challenge code db left db' where f: "c = Call_Verify rnd challenge code"
    "ac_users db = ac_users (sv_db s)" "check_code A now (us_id u) code True db = ((True, left), db')"
    "ac_users (sv_db s') = ac_users db'"
    unfolding factor_shown_def by blast
  have "user_by_id (us_id u) db = Some u" "distinct (map us_id (ac_users db))"
    using assms(1,6) user_by_id_again user_by_id_cong [OF f(2)] f(2)
    by (simp_all add: server_ok_def accounts_ok_def users_ok_def)
  from check_code_spends [OF f(3) this] user_by_id_cong [OF f(4)] f(1) show ?thesis by auto
qed

subsection \<open>Single sign-on\<close>

abbreviation local_accounts :: "accounts_db \<Rightarrow> user_row list" where
  "local_accounts db \<equiv> filter (\<lambda>u. us_source u \<noteq> ''oidc'') (ac_users db)"

lemma filter_change: "(\<And>u. P (f u) = P u) \<Longrightarrow> (\<And>u. P u \<Longrightarrow> f u = u) \<Longrightarrow> filter P (map f us) = filter P us"
  by (induction us) simp_all

lemma upsert_local: "local_accounts (snd (upsert_oidc_user now sub username role avatar db)) = local_accounts db"
proof (cases "oidc_user_by_subject sub db")
  case None
  then show ?thesis
    by (auto simp: upsert_oidc_user_def Let_def insert_user_def split: option.split)
next
  case (Some e)
  then show ?thesis
    by (simp add: upsert_oidc_user_def Let_def change_user_def) (rule filter_change; simp)
qed


subsection \<open>Deleted accounts\<close>

lemma account_step_gone:
  assumes "account_step sso db db'" "uid \<notin> user_ids db" "0 < uid" "uid \<le> ac_users_seq db" "accounts_ok db"
  shows "uid \<notin> user_ids db' \<and> uid \<le> ac_users_seq db'"
  using assms
proof (induction rule: account_step.induct)
  case (New_User now name role src avatar sub pw db i db')
  note ins = insert_user_ok [OF New_User(5,1)]
  show ?case using New_User(2,4) ins(2,5,6) by auto
next
  case (Edit_User f db i)
  then show ?case by (subst change_user_ids) (simp_all add: keeps_def)
next
  case (Set_Role role db i u now)
  then show ?case unfolding update_user_role_def by (subst change_user_ids) simp_all
next
  case (Sso_Refresh i role avatar now db)
  then show ?case by (subst change_user_ids) simp_all
next
  case (Pending i db u now secret)
  then show ?case unfolding set_totp_pending_def by (subst change_user_ids) simp_all
next
  case (Enable now i secret step hashes db db')
  then show ?case unfolding change_if_True(1) [OF Enable(1) [unfolded enable_totp_def]]
    by (subst change_user_ids) simp_all
next
  case (Disable db now i)
  then show ?case unfolding disable_totp_def by (subst change_user_ids) simp_all
next
  case (Use_Step i step db db')
  then show ?case unfolding change_if_True(1) [OF Use_Step(1) [unfolded use_totp_step_def]]
    by (subst change_user_ids) simp_all
qed (auto simp: user_ids_def)

lemma steps_gone:
  "steps sso db db' \<Longrightarrow> uid \<notin> user_ids db \<Longrightarrow> 0 < uid \<Longrightarrow> uid \<le> ac_users_seq db \<Longrightarrow> accounts_ok db
     \<Longrightarrow> uid \<notin> user_ids db' \<and> uid \<le> ac_users_seq db' \<and> accounts_ok db'"
  by (induction rule: rtranclp_induct) (auto dest: account_step_ok account_step_gone)

lemma delete_user_gone:
  assumes "delete_user now (Some uid) p s = (reply, s')" "rp_status reply = 204" "accounts_ok (sv_db s)"
  shows "uid \<notin> user_ids (sv_db s') \<and> 0 < uid \<and> uid \<le> ac_users_seq (sv_db s')"
proof -
  obtain u where u: "user_by_id uid (sv_db s) = Some u"
    using assms(1,2) by (auto simp: delete_user_def refused_def split: option.splits)
  have "0 < uid \<and> uid \<le> ac_users_seq (sv_db s)"
    using user_by_id_Some [OF u] assms(3) by (auto simp: accounts_ok_def users_ok_def)
  then show ?thesis using assms(1,2) u
    by (auto simp: delete_user_def refused_def Let_def delete_tokens_for_user_def delete_sessions_for_user_def
        delete_mfa_challenges_for_user_def remove_user_def user_ids_def audit_def split: if_splits)
qed

lemma guard_passes:
  assumes "guard A now role tokens r h s = (reply, s')" "accounts_ok (sv_db s)" "rp_status reply < 400"
  obtains p s1 where "h p s1 = (reply, s')" "accounts_ok (sv_db s1)"
proof (cases "au_enabled A")
  case False
  then show ?thesis using assms that [of None s] by (simp add: guard_def)
next
  case True
  obtain x s1 where u: "user_from_request A now r s = (x, s1)" by (rule prod.exhaust)
  have "accounts_ok (sv_db s1)" using user_from_request_steps(1) [OF u] steps_ok assms(2) by blast
  then show ?thesis using assms u True that by (auto simp: guard_def refused_def split: option.splits if_splits)
qed

text \<open>
  C25: a deleted account stays cut off. Once a deletion was answered with success, no later run of
  the API, one call after another, sign-ins through the identity provider included, has an account, a session, a pending
  sign-in or an API token of that id: what it had is gone, ids are not given out twice, and nothing
  is ever created for an account that is not there.
\<close>

theorem deleted_account_stays_cut_off:
  assumes "server_ok s" "serve_call A now (Call_Delete_User r (Some uid)) s = (reply, s1)" "rp_status reply = 204"
    and "api_run sso A s1 s'"
  shows "uid \<notin> user_ids (sv_db s') \<union> sn_user ` set (ac_sessions (sv_db s')) \<union> ch_user ` set (ac_challenges (sv_db s'))
    \<union> tk_created_by_id ` set (ac_tokens (sv_db s'))"
proof -
  have ok: "accounts_ok (sv_db s)" and ok1: "server_ok s1"
    using assms(1) serve_server_ok [OF assms(2,1)] by (simp_all add: server_ok_def)
  have "guard A now ''admin'' False r (delete_user now (Some uid)) s = (reply, s1)"
    using assms(2,3) by (auto simp: serve_call_def require_session_def refused_def split: if_splits)
  then obtain p s0 where "delete_user now (Some uid) p s0 = (reply, s1)" "accounts_ok (sv_db s0)"
    by (rule guard_passes) (use ok assms(3) in simp_all)
  from delete_user_gone [OF this(1) assms(3) this(2)]
  have "uid \<notin> user_ids (sv_db s1)" "0 < uid" "uid \<le> ac_users_seq (sv_db s1)" by simp_all
  from steps_gone [OF run_steps [OF assms(4) ok1] this] ok1
  have "uid \<notin> user_ids (sv_db s')" "accounts_ok (sv_db s')" by (simp_all add: server_ok_def)
  then show ?thesis by (auto simp: accounts_ok_def)
qed

subsection \<open>API tokens\<close>

text \<open>
  The request of a call that is made with the caller's session: not of a sign-in or of the wizard,
  nor of a setup step that names a challenge.
\<close>

fun session_request :: "call \<Rightarrow> http_request option" where
  "session_request (Call_Login _ _ _ _) = None"
| "session_request (Call_Logout _) = None"
| "session_request (Call_Verify _ _ _) = None"
| "session_request (Call_Callback _ _ _ _) = None"
| "session_request (Call_Complete _ _ _ _) = None"
| "session_request (Call_Setup_Mfa _ r challenge) = (if challenge = [] then Some r else None)"
| "session_request (Call_Enable _ _ r challenge _) = (if challenge = [] then Some r else None)"
| "session_request (Call_Disable r _ _) = Some r"
| "session_request (Call_Codes _ r _) = Some r"
| "session_request (Call_Password _ r _ _) = Some r"
| "session_request (Call_Reset_Mfa r _) = Some r"
| "session_request (Call_Create_User _ r _ _ _) = Some r"
| "session_request (Call_Role r _ _) = Some r"
| "session_request (Call_Reset_Password _ r _ _) = Some r"
| "session_request (Call_Delete_User r _) = Some r"
| "session_request (Call_Create_Token _ _ r _ _ _) = Some r"
| "session_request (Call_Delete_Token r _) = Some r"
| "session_request (Call_Settings r _ _) = Some r"
| "session_request (Call_Scrape_Token _ r) = Some r"
| "session_request (Call_Clear_Scrape r) = Some r"
| "session_request (Call_Other _ _ r) = Some r"

text \<open>The tables, but for when a token was last used.\<close>

definition but_for_use :: "accounts_db \<Rightarrow> accounts_db" where
  "but_for_use db = db\<lparr>ac_tokens := map (\<lambda>t. t\<lparr>tk_last_used_at := 0\<rparr>) (ac_tokens db)\<rparr>"

lemma touch_but_for_use: "but_for_use (touch_token_row i ts db) = but_for_use db"
  by (simp add: but_for_use_def touch_token_row_def)

lemma bearer_principal:
  assumes "user_from_request A now r s = (x, s')" "bearer_token (rq_authorization r) \<noteq> None"
  shows "but_for_use (sv_db s') = but_for_use (sv_db s)" and "x = Some p \<Longrightarrow> su_kind p = Kind_Token"
proof -
  have "but_for_use (sv_db (touch_api_token now t s)) = but_for_use (sv_db s)" for t
    by (simp add: touch_api_token_def Let_def touch_but_for_use)
  then show "but_for_use (sv_db s') = but_for_use (sv_db s)" and "x = Some p \<Longrightarrow> su_kind p = Kind_Token"
    using assms by (auto simp: user_from_request_def user_from_api_token_def Let_def split: option.splits prod.splits)
qed

lemma bearer_guard:
  assumes "guard A now role tokens r h s = (reply, s')" "bearer_token (rq_authorization r) \<noteq> None" "au_enabled A"
    and "tokens \<Longrightarrow> \<forall>p s. snd (h p s) = s"
  shows "but_for_use (sv_db s') = but_for_use (sv_db s)"
proof -
  obtain x s1 where u: "user_from_request A now r s = (x, s1)" by (rule prod.exhaust)
  note b = bearer_principal [OF u assms(2)]
  show ?thesis
  proof (cases tokens)
    case True
    with assms(4) have h: "snd (h p s2) = s2" for p s2 by blast
    have "s' = s1"
      using assms(1,3) u h [of x s1] by (auto simp: guard_def split: option.splits if_splits)
    with b(1) show ?thesis by simp
  next
    case False
    then have "s' = s1"
      using assms(1,3) u b(2) by (cases x) (auto simp: guard_def split: if_splits)
    with b(1) show ?thesis by simp
  qed
qed

lemma bearer_account:
  assumes "mfa_account A now r [] spend s = (x, s')" "bearer_token (rq_authorization r) \<noteq> None"
  shows "but_for_use (sv_db s') = but_for_use (sv_db s) \<and> (\<exists>code. x = Inl code)"
proof -
  obtain y s1 where u: "user_from_request A now r s = (y, s1)" by (rule prod.exhaust)
  from bearer_principal [OF u assms(2)] assms(1) u show ?thesis
    by (cases y) (auto simp: mfa_account_def split: if_splits)
qed

lemma bearer_check:
  assumes "allow_code_check A now r s = (ok, s')" "bearer_token (rq_authorization r) \<noteq> None"
  shows "but_for_use (sv_db s') = but_for_use (sv_db s)"
proof -
  obtain y s1 where u: "user_from_request A now r s = (y, s1)" by (rule prod.exhaust)
  from bearer_principal(1) [OF u assms(2)] assms(1) u show ?thesis
    by (cases y) (auto simp: allow_code_check_def dest: allow_code_guess_db)
qed

lemma bearer_enable:
  assumes "mfa_enable A now randoms random r [] code s = (reply, s')" "bearer_token (rq_authorization r) \<noteq> None"
  shows "but_for_use (sv_db s') = but_for_use (sv_db s)"
proof -
  obtain ok s1 where c: "allow_code_check A now r s = (ok, s1)" by (rule prod.exhaust)
  obtain x s2 where m: "mfa_account A now r [] True s1 = (x, s2)" by (rule prod.exhaust)
  from bearer_check [OF c assms(2)] bearer_account [OF m assms(2)] assms(1) c m show ?thesis
    by (auto simp: mfa_enable_def split: if_splits)
qed

lemma bearer_setup:
  assumes "mfa_setup A now random r [] s = (reply, s')" "bearer_token (rq_authorization r) \<noteq> None"
  shows "but_for_use (sv_db s') = but_for_use (sv_db s)"
proof -
  obtain x s2 where m: "mfa_account A now r [] False s = (x, s2)" by (rule prod.exhaust)
  from bearer_account [OF m assms(2)] assms(1) m show ?thesis by (auto simp: mfa_setup_def)
qed


text \<open>
  A token is worth no more than the account it stands for. If a token is let in as an
  administrator, then the token was made for that role, has not expired, and the account that made
  it is still there and is an administrator now.
\<close>

theorem token_never_outranks:
  assumes "user_from_request A now r s = (Some p, s')" "su_kind p = Kind_Token" "su_role p = ''admin''"
  shows "\<exists>t u. t \<in> set (ac_tokens (sv_db s)) \<and> tk_id t = su_token_id p \<and> tk_role t = ''admin''
    \<and> (tk_expires_at t = 0 \<or> unix now < tk_expires_at t)
    \<and> user_by_id (tk_created_by_id t) (sv_db s) = Some u \<and> us_role u = ''admin''"
proof -
  obtain tok where "user_from_api_token A now tok s = (Some p, s')"
    using assms(1,2) by (auto simp: user_from_request_def split: option.splits prod.splits)
  then obtain t u where t: "get_api_token (au_crypto A) (unix now) tok (sv_db s) = Some t"
    and u: "user_by_id (tk_created_by_id t) (sv_db s) = Some u"
    and p: "su_role p = (if us_role u \<noteq> ''admin'' then us_role u else tk_role t)" "su_token_id p = tk_id t"
    by (auto simp: user_from_api_token_def Let_def split: option.splits)
  have "t \<in> set (ac_tokens (sv_db s))" "tk_expires_at t = 0 \<or> unix now < tk_expires_at t"
    using t by (auto simp: get_api_token_def find_Some_iff split: if_splits option.splits)
  with u p assms(3) show ?thesis by (auto split: if_splits)
qed

subsection \<open>Where the code falls short of what it says\<close>

text \<open>
  The first start stores no limit on sign-in attempts, so none is applied: every attempt is allowed
  until an administrator saves the settings.
\<close>

lemma boot_attempts:
  "ac_settings db = None \<Longrightarrow> sv_login_attempts (boot A reachable f db) = 0"
  by (simp add: boot_def ensure_cp_settings_def save_cp_settings_def load_cp_settings_def seed_cp_settings_def
      apply_cp_settings_def cp_zero_def Let_def)

lemma first_boot_never_limits_sign_in:
  assumes "ac_settings db = None"
  shows "login_allowed now r username (boot A reachable f db) = (True, boot A reachable f db)"
  using boot_attempts [OF assms] by (simp add: login_allowed_def)

text \<open>
  Turning password sign-in off while the identity provider stays as it is: the settings are stored
  and the answer is success, but the provider in use keeps its old flag.
\<close>

lemma switch_is_no_change: "oidc_changed a b \<longleftrightarrow> oidc_changed a (b\<lparr>oi_disable_password_login := x, oi_auto_login := y\<rparr>)"
  by (simp add: oidc_changed_def)

lemma password_switch_is_not_applied:
  assumes "put_cp_settings now reachable new p s = (reply, s')"
    and "\<not> oidc_changed (cs_oidc (load_cp_settings cp_defaults (sv_db s)))
      (cs_oidc (cleaned_settings (load_cp_settings cp_defaults (sv_db s)) new))"
  shows "password_login_disabled s' = password_login_disabled s"
  using assms by (auto simp: put_cp_settings_def password_login_disabled_def Let_def apply_cp_settings_def
      on_db_def set_session_ttl_def split: if_splits)

text \<open>
  The wizard builds and installs the provider of the request before it finds out that setup is
  already completed: the answer is the refusal, and the provider of the request stays in use.
\<close>

lemma late_setup_swaps_the_provider:
  assumes "setup_active s" "ac_setup_completed (sv_db s)" "fst (window_allow 10 minute now (sv_setup_rate s))"
    and "equal_fold (trim_space (sr_method q)) ''sso''" "\<not> sr_break_glass q"
    and "new_oidc (setup_oidc q) = Some p"
    and "oi_redirect_url (setup_oidc q) \<noteq> []" "oi_admin_email (setup_oidc q) \<noteq> []"
  shows "\<exists>s'. setup_complete A now salt random True (Some q) s = (refused 410, s')
    \<and> sv_oidc s' = Some p \<and> sv_setup_done s'"
proof -
  obtain w where w: "window_allow 10 minute now (sv_setup_rate s) = (True, w)"
    using assms(3) by (cases "window_allow 10 minute now (sv_setup_rate s)") auto
  have o': "oi_issuer (setup_oidc q) \<noteq> []" "oi_client_id (setup_oidc q) \<noteq> []"
    using assms(6) by (auto simp: new_oidc_def split: if_splits)
  have en: "oi_enabled (setup_oidc q)" by (simp add: setup_oidc_def Let_def)
  show ?thesis
    using assms(1,2,4-8) w o' en
    by (simp add: setup_complete_def setup_local_admin_def rebuild_oidc_def set_oidc_def setup_finish_def
        complete_setup_def Let_def)
qed

text \<open>A new password leaves the half-finished sign-ins made with the old one.\<close>

lemma reset_password_keeps_challenges:
  "ac_challenges (sv_db (snd (reset_user_password A now salt i password s))) = ac_challenges (sv_db s)"
  by (simp add: reset_user_password_def on_db_def delete_sessions_for_user_def update_user_password_def
      split: option.split)

text \<open>
  The guard on the last administrator is read before the statement it guards: two requests that
  demote the two administrators at the same time both pass it, and none is left.
\<close>

lemma concurrent_demotions_leave_no_admin:
  assumes "accounts_ok db" "admins db = {a, b}" "a \<noteq> b" "role \<noteq> ''admin''"
  shows "\<not> last_admin db" "count_admins (update_user_role t b role (update_user_role t a role db)) = 0"
proof -
  show "\<not> last_admin db" using count_admins_card [OF assms(1)] assms(2,3) by (simp add: last_admin_def)
  have "us_id u \<in> {a, b}" if "u \<in> set (ac_users db)" "us_role u = ''admin''" for u
    using that admins_mem [of "us_id u" db] assms(2) by blast
  then show "count_admins (update_user_role t b role (update_user_role t a role db)) = 0"
    using assms(4) by (auto simp: count_admins_def update_user_role_def change_user_def filter_empty_conv)
qed

text \<open>A role that the identity provider takes away stays in the sessions there are.\<close>

lemma callback_keeps_sessions:
  assumes "oidc_callback A now random ck state exchanged s = (reply, s')"
  shows "set (ac_sessions (sv_db s)) \<subseteq> set (ac_sessions (sv_db s'))"
proof -
  have up: "ac_sessions db = ac_sessions (sv_db s)"
    if "upsert_oidc_user n sub name role avatar (sv_db s) = (x, db)" for n sub name role avatar x db
    using that by (auto simp: upsert_oidc_user_def Let_def insert_user_def change_user_def
        split: option.splits prod.splits if_splits)
  show ?thesis using assms
    by (auto simp: oidc_callback_def Let_def start_session_def create_session_def
        dest!: up split: option.splits prod.splits if_splits bool.splits)
qed

subsection \<open>A control plane to try them on\<close>

definition demo_auth :: auth_config where
  "demo_auth = \<lparr>au_enabled = True, au_crypto = demo_crypto\<rparr>"

definition demo_user :: "int \<Rightarrow> string \<Rightarrow> string \<Rightarrow> string \<Rightarrow> string \<Rightarrow> user_row" where
  "demo_user uid name role src secret = \<lparr>us_id = uid, us_username = name, us_role = role, us_source = src,
     us_avatar_url = [], us_avatar_data = [], us_subject = (if src = ''oidc'' then name else []),
     us_password_hash = [], us_updated_at = 0, us_totp_secret = secret, us_totp_pending = [],
     us_totp_last_step = 0, us_recovery = Some [''mazedns-recovery:abcdefghjk'', ''mazedns-recovery:kjhgfedcba'']\<rparr>"

text \<open>An administrator who is signed in, and one with a second factor whose password was right.\<close>

definition demo_accounts :: accounts_db where
  "demo_accounts = \<lparr>ac_users = [demo_user 1 ''root'' ''admin'' ''local'' [], demo_user 2 ''ann'' ''admin'' ''local'' ''MZXW6''],
     ac_users_seq = 2,
     ac_sessions = [\<lparr>sn_token = ''cookie'', sn_user = 1, sn_username = ''root'', sn_role = ''admin'', sn_expires_at = 100\<rparr>],
     ac_challenges = [\<lparr>ch_token = ''challenge'', ch_user = 2, ch_kind = ''verify'', ch_attempts = 0, ch_expires_at = 100\<rparr>],
     ac_tokens = [\<lparr>tk_id = ''t1'', tk_name = ''ci'', tk_hash = ''mzd_ci'', tk_prefix = [], tk_role = ''admin'',
       tk_created_by = ''ann'', tk_created_by_id = 2, tk_created_at = 0, tk_last_used_at = 0, tk_expires_at = 0\<rparr>],
     ac_audit = [], ac_setup_completed = True, ac_settings = None, ac_master_addr = []\<rparr>"

definition demo_server :: auth_server where
  "demo_server = (new_auth_server demo_accounts)\<lparr>sv_oidc := Some \<lparr>op_groups_claim = ''groups'', op_admin_group = [],
     op_admin_email = [], op_disable_password_login = False, op_auto_login = False\<rparr>\<rparr>"

definition demo_request :: "string \<Rightarrow> string option \<Rightarrow> http_request" where
  "demo_request h ck = \<lparr>rq_authorization = h, rq_cookie = ck, rq_forwarded_for = [], rq_real_ip = [], rq_remote = []\<rparr>"

lemmas demo_defs = demo_auth_def demo_user_def demo_accounts_def demo_server_def demo_request_def demo_crypto_def

lemma demo_server_ok: "server_ok demo_server"
  by (simp add: server_ok_def accounts_ok_def users_ok_def factor_ok_def user_ids_def demo_defs new_auth_server_def setup_active_def)

lemma demo_gate: "setup_gate demo_server path"
  by (simp add: setup_gate_def setup_active_def demo_defs new_auth_server_def)

lemma demo_run:
  assumes "is_callback c \<Longrightarrow> sso"
  shows "api_run sso A s (snd (serve_call A now c s))"
  by (rule Served [OF Start assms, where reply = "fst (serve_call A now c s)" and now = now]) simp_all

theorem console_keeps_an_admin_witness:
  "1 \<le> count_admins (sv_db (snd (serve_call demo_auth 0
     (Call_Role (demo_request [] (Some ''cookie'')) (Some 1) ''readonly'') demo_server)))"
proof (rule console_keeps_an_admin [OF demo_run demo_server_ok])
  show "1 \<le> count_admins (sv_db demo_server)" by (simp add: count_admins_def demo_defs new_auth_server_def)
qed simp

lemma demo_code: "\<not> looks_like_totp ''abcde-fghjk''"
  "hash_recovery_code demo_crypto ''abcde-fghjk'' = ''mazedns-recovery:abcdefghjk''"
  by (code_simp, simp add: demo_crypto_def hash_recovery_code_def, code_simp)

lemma demo_token: "''cookie'' \<noteq> new_token ''key''"
proof -
  have "length (new_token ''key'') = 4"
    by (simp add: new_token_def b64_encode_def length_encode_digits digits_for_def)
  then have "length (new_token ''key'') \<noteq> length ''cookie''" by simp
  then show ?thesis by metis
qed

lemma demo_parts: "au_crypto demo_auth = demo_crypto" "au_enabled demo_auth" "hash_secret demo_crypto token = token"
  by (simp_all add: demo_auth_def demo_crypto_def hash_secret_def)

lemmas demo_tables = demo_accounts_def demo_server_def demo_user_def new_auth_server_def demo_request_def demo_parts demo_token demo_code

lemma demo_verify:
  obtains s' where "serve_call demo_auth 0 (Call_Verify ''key'' ''challenge'' ''abcde-fghjk'') demo_server
      = (\<lparr>rp_status = 200, rp_cookie = Some (new_token ''key''), rp_body = User_Body \<lparr>su_id = 2, su_username = ''ann'',
          su_role = ''admin'', su_kind = Kind_Session, su_token_id = []\<rparr>\<rparr>, s')"
    "ac_sessions (sv_db s') = ac_sessions demo_accounts @ [\<lparr>sn_token = new_token ''key'', sn_user = 2, sn_username = ''ann'',
       sn_role = ''admin'', sn_expires_at = 86400\<rparr>]"
  using that
  by (simp add: serve_call_def setup_gate_def setup_active_def mfa_verify_def challenge_user_def mfa_challenge_attempt_def user_by_id_def
    allow_code_guess_def keyed_allow_def window_allow_def window_over_def mfa_code_limit_def mfa_max_attempts_def
    check_code_def use_recovery_code_def sign_in_def start_session_def create_session_def change_user_def
    delete_mfa_challenge_def audit_def demo_tables Let_def unix_def default_ttl_def)

theorem session_takes_the_second_factor_witness:
  "\<exists>v. code_spent demo_crypto 0 ''abcde-fghjk'' (demo_user 2 ''ann'' ''admin'' ''local'' ''MZXW6'') v"
proof -
  obtain s' where s': "serve_call demo_auth 0 (Call_Verify ''key'' ''challenge'' ''abcde-fghjk'') demo_server
      = (\<lparr>rp_status = 200, rp_cookie = Some (new_token ''key''), rp_body = User_Body \<lparr>su_id = 2, su_username = ''ann'',
          su_role = ''admin'', su_kind = Kind_Session, su_token_id = []\<rparr>\<rparr>, s')"
    and rows: "ac_sessions (sv_db s') = ac_sessions demo_accounts @ [\<lparr>sn_token = new_token ''key'', sn_user = 2,
        sn_username = ''ann'', sn_role = ''admin'', sn_expires_at = 86400\<rparr>]"
    by (rule demo_verify)
  let ?sn = "\<lparr>sn_token = new_token ''key'', sn_user = 2, sn_username = ''ann'', sn_role = ''admin'', sn_expires_at = 86400\<rparr>"
  let ?u = "demo_user 2 ''ann'' ''admin'' ''local'' ''MZXW6''"
  have "?sn \<in> set (ac_sessions (sv_db s'))" by (simp add: rows)
  from session_takes_the_second_factor [OF demo_server_ok s' _ this, of "new_token ''key''" ?u]
  show ?thesis by (auto simp: demo_parts user_by_id_def demo_server_def demo_accounts_def new_auth_server_def demo_user_def)
qed


lemma demo_delete:
  "rp_status (fst (serve_call demo_auth 0 (Call_Delete_User (demo_request [] (Some ''cookie'')) (Some 2)) demo_server)) = 204"
  by (simp add: serve_call_def setup_gate_def setup_active_def require_session_def guard_def user_from_request_def
    bearer_token_def get_session_def delete_user_def is_self_def user_by_id_def last_admin_def count_admins_def
    answered_def demo_tables Let_def unix_def delete_tokens_for_user_def)

theorem deleted_account_stays_cut_off_witness:
  "2 \<notin> user_ids (sv_db (snd (serve_call demo_auth 0 (Call_Delete_User (demo_request [] (Some ''cookie'')) (Some 2)) demo_server)))"
  using deleted_account_stays_cut_off [OF demo_server_ok prod.collapse [symmetric] demo_delete Start] by simp


lemma demo_bearer: "bearer_token ''Bearer mzd_ci'' = Some ''mzd_ci''"
  by code_simp

theorem token_never_outranks_witness:
  "\<exists>(t :: token_row) u. tk_id t = ''t1'' \<and> tk_role t = ''admin'' \<and> user_by_id (tk_created_by_id t) demo_accounts = Some u
     \<and> us_role u = ''admin''"
proof -
  obtain s' where "user_from_request demo_auth 0 (demo_request ''Bearer mzd_ci'' None) demo_server
      = (Some \<lparr>su_id = 0, su_username = ''token:ci'', su_role = ''admin'', su_kind = Kind_Token, su_token_id = ''t1''\<rparr>, s')"
    by (simp add: user_from_request_def demo_bearer user_from_api_token_def get_api_token_def user_by_id_def demo_tables
      Let_def unix_def)
  from token_never_outranks [OF this] show ?thesis by (simp add: demo_server_def new_auth_server_def) blast
qed

end
