(* ===== verification/Spec2Isabelle.thy ===== *)
theory Spec2Isabelle
  imports Resolver_Facts Pipe_Pool Listeners Log_Buffer Rule_Import Agent_Sync Query_Ship Classify_Facts Category_Labels Privacy_Facts Account_Rules
begin

text \<open>
\<^bold>\<open>Verification of MazeDNS.\<close> MazeDNS is a filtering DNS server in Go. A control plane keeps the
configuration in SQLite and serves it to agents; every agent, and a control plane that resolves
itself, runs the same DNS engine. Agents poll for their configuration and ship query logs and
process logs back. The control plane counts the query log into rollups, draws the dashboard from
them, reduces what it stores to the privacy level that was chosen, and lets a worker classify new
domains, whose verdicts become blocklist rules that are replicated like the others. Paths below
are relative to \<^verbatim>\<open>src/internal/\<close>.

\<^bold>\<open>How the code is modelled.\<close> One function per function, method or critical section of the code,
with the state it changes as a record that is passed and returned. A block under one mutex and a
statement or transaction of the database are atomic steps; where the order of such steps matters
(single flight, the pipelined connections, the version cache, the holder of the category index,
the worker, the log and its rollups, listeners, logs in transit, the calls of the API on accounts)
they are an \<^verbatim>\<open>inductive\<close> step
relation and the properties are invariants of the reachable states. A goroutine's select loop is a
step function over the events it can see. A Go error is a value (\<^verbatim>\<open>Inl\<close>, \<^verbatim>\<open>None\<close>, or an HTTP
status). Integers have the width of the code where it matters (\<^verbatim>\<open>word\<close> for TTLs, hashes, IP
addresses and identifiers), \<^verbatim>\<open>int\<close> for times and row numbers, real numbers for Go's floats
where the code only adds, scales and compares; rounding of floats is not modelled. Strings are
lists of bytes.

\<^bold>\<open>Theories, from the bottom.\<close>

\<^item> Go_Prelude: strings, slices, maps, \<^verbatim>\<open>strings\<close>, \<^verbatim>\<open>strconv\<close> and
  \<^verbatim>\<open>bufio.Scanner\<close> as the code uses them; FNV hashing; the locales \<^verbatim>\<open>suffix_walk\<close> (a
  lookup that strips labels from the left finds the most specific entry) and \<^verbatim>\<open>sharded\<close> (a table
  split by a hash behaves as one table). Ip_Addr: package \<^verbatim>\<open>net\<close>. Dns_Msg: messages, records and
  the part of the DNS library the engine relies on.

\<^item> The engine. Dns_Cache (cache/cache.go, locale \<^verbatim>\<open>answer_store\<close>), Block_Filter (filter/filter.go),
  Rate_Limit, Zones, Upstreams, Forwarding (forward.go, locale \<^verbatim>\<open>failover\<close>, interpreted on both
  strategies), Pipe_Pool (pipeline.go), Single_Flight, Health, Listeners (server.go),
  Local_Records (rewrites, ptr.go and the conditional forwarders of resolver.go), Builtin_Domains and
  Categories (categories/), Resolver (resolver.go: from settings to runtime, policy, the pipeline of
  a query, response hygiene, refreshes) and Resolver_Facts, which composes all of them.

\<^item> The configuration. Config_Store (tables of store.go, lists.go, forwarders.go,
  classifications.go, categories.go; locale \<^verbatim>\<open>unique_table\<close>, interpreted on every table with an
  upsert), Config_Scopes (scopes, the rewrite handlers of api/api.go), Config_Versions (what a node
  is served and its hash; locale \<^verbatim>\<open>best_per_key\<close>), Version_Cache (configcache.go),
  Node_Registry (cluster.go, enrollkeys.go and the handlers that authenticate agents), Agent_Sync
  (cluster/agent.go and the endpoint it polls), Rule_Import (ruleimport/).

\<^item> The classifier. Domain_Names, Legitimacy (score.go) with Legitimacy_Facts, Threat_Sets
  (trusted.go, sets.go, feeds.go), Classify_Worker (worker.go, content.go, rescore.go,
  reputation.go) with Classify_Facts, Category_Labels (categorizer.go and the override endpoints).

\<^item> Logs and reports. Log_Buffer (logbuf/ and the shipping of process logs, locale
  \<^verbatim>\<open>line_log\<close>), Query_Ship (batches of the query log), Query_Rollups and Rollup_Facts (the log
  and the four tables that count it; locale \<^verbatim>\<open>rollup_table\<close>, interpreted on each of them),
  Query_Reports and Report_Facts (every report of stats.go, rollup.go, clients.go, search, the log
  writer), Privacy and Privacy_Facts (privacy/ and store/privacy.go).

\<^item> Accounts. Credentials (one-time and recovery codes, stored passwords, tokens: totp.go, password.go,
  session.go and apitoken.go of auth/, with the encodings of the standard library they use),
  Accounts (store/: users.go, sessions.go, mfa.go, apitokens.go, cpsettings.go), Sign_In (auth/
  and the handlers of api/ for sign-in, second factors, users, tokens, first-boot setup and settings,
  each from the request to the answer; \<^verbatim>\<open>serve_call\<close> is the route table of them), Account_Facts
  (the invariant \<^verbatim>\<open>server_ok\<close>, and every call as a sequence of the store's elementary steps)
  and Account_Rules (runs \<^verbatim>\<open>api_run\<close> of calls in any order, and the properties).

\<^bold>\<open>What is shown.\<close>

\<^item> Resolver_Facts: a blocked name is answered from local data and no upstream sees it; every reply
  carries the question that was asked; a forwarded answer is what the cache returns next; one
  refresh per key; a failed forward is SERVFAIL. Dns_Cache: a hit was put there for that key and is
  not served past its lifetime. Forwarding: the verdict is that of the first upstream to give a usable
  answer, for any number of upstreams, and every run ends. Pipe_Pool: every query is told exactly once. Single_Flight: one
  exchange per key at a time. Rate_Limit: a bound for any minute, aligned or not. Categories: the
  holder ends on the index loaded for the categories it was last given. Zones: exactly the usable
  records of a specification are served, typed, in order. Block_Filter: the most specific match.

\<^item> Agent_Sync: after a poll the agent enforces what the control plane holds for it, through versions,
  caches and 304 answers: one cycle of \<^verbatim>\<open>sync_once\<close> against the control plane's own
  answer installs its content, records its version and reports it. Version_Cache: a version served from the cache is the current one.
  Config_Scopes: no two enabled rewrites of one rank overlap. Config_Versions: which entry and which
  rules a node is given. Node_Registry: key rotation never locks out an agent that polls, and a name
  cannot be taken over by enrollment.

\<^item> Legitimacy_Facts and Classify_Facts: bounds of the score, which evidence a block needs, what
  excluded names and listed domains get, and that a corroborated threat reaches the nodes.
  Category_Labels: agents block as the control plane labels, under the condition stated there.

\<^item> Rollup_Facts: in every reachable state the rollups count each logged query once. Report_Facts: a
  report over the rollups is the report over the log, for windows of whole minutes or hours.
  Privacy_Facts: what is left in the log after a scrub, and that a name that is kept was asked for by
  as many devices as the threshold says. Query_Ship, Log_Buffer: shipped exactly once, in order;
  of process logs only lines that the control plane refused for good (400, 404, 413) are left out.

\<^item> Credentials: the codes of an authenticator that was given the secret are accepted, and a password
  opens exactly the hashes whose key it derives. Account_Rules: over runs of the API, a session of an
  account with a second factor costs a fresh code, an administrator remains, a deleted account leaves
  nothing behind, a token manages no account, and single sign-on leaves local accounts alone.

Lemmas that are named in no property but state a behaviour the comments of the code do not
announce stand in the theory of their component (for instance
\<^verbatim>\<open>ordered_waits_for_nothing\<close>, \<^verbatim>\<open>drop_can_raise_limit\<close>, \<^verbatim>\<open>renew_twice_locks_out\<close>).

\<^bold>\<open>Loops and bounds.\<close> Loops over slices are structural recursion. Label stripping ends by the length
of the name, CNAME following by the fixed limit of the code, the select loops by the number of
events, draining a channel by the number of entries in it, the scrubber's walk over days because the
next day begins later, LIKE matching by the lengths of pattern and text. There is no
fuel: a function is total, or its result says that it did not finish (a loop that waits is
distinguished from one that returned; the search for a free query identifier is a
\<^verbatim>\<open>partial_function\<close> with the condition under which it returns).

\<^bold>\<open>Parameters.\<close> What is not under src/ is an argument: SHA-256 and HMAC, random keys and
identifiers, the clock, the Public Suffix List, what the DNS library does beyond Dns_Msg, the
answers of upstreams, of WHOIS, of reputation services and of the language model, the encoding of
JSON, the lines and the error of a file or download, and the order in which Go visits a map or SQL
returns rows it does not sort. Each is unconstrained unless a property names a hypothesis about it,
and then a witness uses a concrete function.

\<^bold>\<open>Not modelled.\<close> Opening the database, schema and migrations (SQL text); sockets, TLS, certificates
and HTTP requests (encrypted.go, reuseport, source.go, whois.go, the clients of reputation
services and of the model), which only hand bytes to the modelled code; metrics and their exports;
live streaming of queries and the relay of metrics; reading YAML and environment variables
(config/, boot/), the executables and the traffic generator (cmd/, dev/demo/) but for the seeding of
settings and accounts; the redirect to the identity provider and the exchange with it, whose result
is an argument; pictures of accounts; the JavaScript front end and
its embedding; handlers of api/ that decode a request, check a permission and call one function of
the store, where the function is modelled and the handler adds nothing.
\<close>

end
